(* ===== verification/Factories_Prelude.thy ===== *)
theory Factories_Prelude
  imports "HOL-Library.Word"
begin

text \<open>
  What every component of the development shares: the widths of the machine integers, the
  outcome of a Rust computation that may return an error or panic, the reads of a slice and
  the two arithmetic profiles (with and without overflow checks), and the generic facts on
  lists, options and words that carry the component proofs.
\<close>

unbundle bit_operations_syntax

type_synonym u8 = "8 word"
type_synonym u16 = "16 word"
type_synonym u32 = "32 word"
type_synonym u64 = "64 word"

named_theorems outcome_simps "equations and inversions of outcomes"
named_theorems bytes_simps "equations of byte readers on written bytes"

section \<open>Outcomes: a value, an error, or a panic\<close>

text \<open>
  A Rust function of result type \<open>Result<T, E>\<close> returns a value or an error; it may also
  panic (a slice index out of range, an addition that overflows where overflow checks are
  on). Both are faults here, and a fault stops the computation, as the \<open>?\<close> operator and the
  unwinding do.
\<close>

datatype 'e fault = Error 'e | Panic

type_synonym ('e, 'a) outcome = "'e fault + 'a"

definition and_then :: "('e, 'a) outcome \<Rightarrow> ('a \<Rightarrow> ('e, 'b) outcome) \<Rightarrow> ('e, 'b) outcome" where
  "and_then m k = (case m of Inl f \<Rightarrow> Inl f | Inr x \<Rightarrow> k x)"

lemma and_then_simps [simp]:
  "and_then (Inl f) k = Inl f"
  "and_then (Inr x) k = k x"
  by (simp_all add: and_then_def)

lemma and_then_Inr_iff [outcome_simps]:
  "and_then m k = Inr y \<longleftrightarrow> (\<exists>x. m = Inr x \<and> k x = Inr y)"
  by (cases m) auto

lemma and_then_Inl_iff [outcome_simps]:
  "and_then m k = Inl f \<longleftrightarrow> m = Inl f \<or> (\<exists>x. m = Inr x \<and> k x = Inl f)"
  by (cases m) auto

lemma and_then_cong [fundef_cong]:
  "m = m' \<Longrightarrow> (\<And>x. m' = Inr x \<Longrightarrow> k x = k' x) \<Longrightarrow> and_then m k = and_then m' k'"
  by (cases m') auto

lemma and_then_assoc:
  "and_then (and_then m k) h = and_then m (\<lambda>x. and_then (k x) h)"
  by (cases m) auto

text \<open>\<open>Option::ok_or\<close>.\<close>

definition ok_or :: "'a option \<Rightarrow> 'e \<Rightarrow> ('e, 'a) outcome" where
  "ok_or x e = (case x of None \<Rightarrow> Inl (Error e) | Some y \<Rightarrow> Inr y)"

lemma ok_or_simps [simp]:
  "ok_or None e = Inl (Error e)"
  "ok_or (Some y) e = Inr y"
  by (simp_all add: ok_or_def)

lemma ok_or_iff [outcome_simps]:
  "ok_or x e = Inr y \<longleftrightarrow> x = Some y"
  "ok_or x e = Inl f \<longleftrightarrow> x = None \<and> f = Error e"
  by (cases x; auto)+

text \<open>The faults a computation may end in: a property of every \<open>Inl\<close> it returns.\<close>

definition faults :: "('e fault \<Rightarrow> bool) \<Rightarrow> ('e, 'a) outcome \<Rightarrow> bool" where
  "faults P m \<longleftrightarrow> (\<forall>f. m = Inl f \<longrightarrow> P f)"

lemma faults_simps [simp]:
  "faults P (Inr x)"
  "faults P (Inl f) \<longleftrightarrow> P f"
  "faults P (ok_or y e) \<longleftrightarrow> y \<noteq> None \<or> P (Error e)"
  by (cases y; auto simp: faults_def)+

lemma faults_and_then:
  "faults P m \<Longrightarrow> (\<And>x. m = Inr x \<Longrightarrow> faults P (k x)) \<Longrightarrow> faults P (and_then m k)"
  by (cases m) auto

lemma faultsD: "faults P m \<Longrightarrow> m = Inl f \<Longrightarrow> P f"
  by simp

section \<open>Futures\<close>

text \<open>One poll of a future: \<open>core::task::Poll\<close>.\<close>

datatype 'a poll = Ready 'a | Pending

section \<open>Slices\<close>

text \<open>\<open>slice.get(i)\<close>, \<open>slice.get(start..end)\<close> and \<open>&slice[start..]\<close>.\<close>

definition slice_nth :: "'a list \<Rightarrow> nat \<Rightarrow> 'a option" where
  "slice_nth xs i = (if i < length xs then Some (xs ! i) else None)"

definition slice_range :: "'a list \<Rightarrow> nat \<Rightarrow> nat \<Rightarrow> 'a list option" where
  "slice_range xs start stop =
     (if start \<le> stop \<and> stop \<le> length xs then Some (take (stop - start) (drop start xs)) else None)"

definition slice_from :: "'a list \<Rightarrow> nat \<Rightarrow> ('e, 'a list) outcome" where
  "slice_from xs start = (if start \<le> length xs then Inr (drop start xs) else Inl Panic)"

lemma slice_nth_append [bytes_simps]:
  "slice_nth (xs @ y # ys) (length xs) = Some y"
  by (simp add: slice_nth_def)

lemma slice_range_append [bytes_simps]:
  "n = length ys \<Longrightarrow> slice_range (xs @ ys @ zs) (length xs) (length xs + n) = Some ys"
  by (simp add: slice_range_def)

lemma slice_from_append [bytes_simps]:
  "slice_from (xs @ ys) (length xs) = Inr ys"
  by (simp add: slice_from_def)

lemma slice_from_Inr: "start \<le> length xs \<Longrightarrow> slice_from xs start = Inr (drop start xs)"
  by (simp add: slice_from_def)

lemma slice_from_Inr_iff [outcome_simps]:
  "slice_from xs start = Inr ys \<longleftrightarrow> start \<le> length xs \<and> ys = drop start xs"
  by (auto simp: slice_from_def)

lemma slice_range_Some_iff:
  "slice_range xs start stop = Some ys \<longleftrightarrow>
     start \<le> stop \<and> stop \<le> length xs \<and> ys = take (stop - start) (drop start xs)"
  by (auto simp: slice_range_def)

lemma slice_nth_Some_iff: "slice_nth xs i = Some y \<longleftrightarrow> i < length xs \<and> y = xs ! i"
  by (auto simp: slice_nth_def)

text \<open>No allocation, so no slice, is larger than \<open>isize::MAX\<close> bytes.\<close>

definition fits :: "'a list \<Rightarrow> bool" where
  "fits xs \<longleftrightarrow> length xs < 2 ^ 63"

lemma fits_sublists [simp, intro]:
  "fits xs \<Longrightarrow> fits (drop n xs)"
  "fits xs \<Longrightarrow> fits (take n xs)"
  by (auto simp: fits_def)

lemma slice_range_fits: "slice_range xs start stop = Some ys \<Longrightarrow> fits xs \<Longrightarrow> fits ys"
  by (auto simp: slice_range_Some_iff)

section \<open>Arithmetic profiles\<close>

text \<open>
  Rust's \<open>+\<close> on \<open>usize\<close> panics on overflow in a build with overflow checks (a debug build)
  and wraps without them (a release build). The flag \<open>oc\<close> says whether the checks are on;
  \<open>usize\<close> is 64 bits wide, and a \<open>usize\<close> is a \<open>nat\<close> below \<open>2 ^ 64\<close>.
\<close>

definition usize_add :: "bool \<Rightarrow> nat \<Rightarrow> nat \<Rightarrow> ('e, nat) outcome" where
  "usize_add oc a b =
     (if a + b < 2 ^ 64 then Inr (a + b)
      else if oc then Inl Panic else Inr ((a + b) mod 2 ^ 64))"

definition u64_add :: "bool \<Rightarrow> u64 \<Rightarrow> u64 \<Rightarrow> ('e, u64) outcome" where
  "u64_add oc a b = (if unat a + unat b < 2 ^ 64 \<or> \<not> oc then Inr (a + b) else Inl Panic)"

text \<open>\<open>u64::saturating_sub\<close> and \<open>u64::saturating_add\<close>.\<close>

definition saturating_sub :: "u64 \<Rightarrow> u64 \<Rightarrow> u64" where
  "saturating_sub a b = (if b \<le> a then a - b else 0)"

definition saturating_add :: "u64 \<Rightarrow> u64 \<Rightarrow> u64" where
  "saturating_add a b = (if unat a + unat b < 2 ^ 64 then a + b else - 1)"

lemma unat_saturating_sub [simp]: "unat (saturating_sub a b) = unat a - unat b"
  by (simp add: saturating_sub_def unat_sub word_le_nat_alt)

lemma unat_saturating_add [simp]:
  "unat (saturating_add a b) = min (unat a + unat b) (2 ^ 64 - 1)"
  proof (cases "unat a + unat b < 2 ^ 64")
  case True
  then show ?thesis by (simp add: saturating_add_def unat_word_ariths)
next
  case False
  have "unat (- 1 :: u64) = 2 ^ 64 - 1"
    by (simp add: unsigned_minus_1_eq_mask mask_eq_exp_minus_1)
  with False show ?thesis by (simp add: saturating_add_def)
qed

lemma usize_add_small [simp]: "a + b < 2 ^ 64 \<Longrightarrow> usize_add oc a b = Inr (a + b)"
  by (simp add: usize_add_def)

lemma faults_usize_add [simp]: "faults P (usize_add oc a b) \<longleftrightarrow> \<not> oc \<or> a + b < 2 ^ 64 \<or> P Panic"
  by (simp add: usize_add_def)

text \<open>An addition that overflows wraps below its left operand, so the range it ends is empty.\<close>

lemma usize_wrap_less:
  fixes a b :: nat
  assumes "a < 2 ^ 64" "b < 2 ^ 64" "2 ^ 64 \<le> a + b"
  shows "(a + b) mod 2 ^ 64 < a"
proof -
  have "(a + b) mod 2 ^ 64 = (a + b - 2 ^ 64) mod 2 ^ 64"
    using assms(3) by (simp add: le_mod_geq)
  also have "\<dots> = a + b - 2 ^ 64" using assms(1,2) by (intro mod_less) linarith
  finally show ?thesis using assms by linarith
qed

section \<open>Positions in a list\<close>

text \<open>\<open>iter().position(p)\<close>.\<close>

fun position :: "('a \<Rightarrow> bool) \<Rightarrow> 'a list \<Rightarrow> nat option" where
  "position p [] = None"
| "position p (x # xs) = (if p x then Some 0 else map_option Suc (position p xs))"

lemma position_Some:
  "position p xs = Some i \<Longrightarrow> i < length xs \<and> p (xs ! i) \<and> (\<forall>j < i. \<not> p (xs ! j))"
proof (induction xs arbitrary: i)
  case Nil
  then show ?case by simp
next
  case (Cons x xs)
  show ?case
  proof (cases i)
    case 0
    with Cons.prems show ?thesis by (auto split: if_splits)
  next
    case (Suc k)
    with Cons.prems have "\<not> p x" "position p xs = Some k" by (auto split: if_splits)
    with Cons.IH[of k] Suc show ?thesis by (auto simp: nth_Cons split: nat.splits)
  qed
qed

lemma position_None_iff: "position p xs = None \<longleftrightarrow> (\<forall>x \<in> set xs. \<not> p x)"
  by (induction xs) auto

lemma position_append_None [simp]:
  "position p xs = None \<Longrightarrow> position p (xs @ ys) = map_option ((+) (length xs)) (position p ys)"
  by (induction xs; cases "position p ys") auto

lemma length_filter_all: "length (filter P xs) = length xs \<longleftrightarrow> list_all P xs"
proof (induction xs)
  case (Cons x xs)
  have "length (filter P xs) < Suc (length xs)" by (simp add: le_imp_less_Suc)
  with Cons show ?case by auto
qed simp

section \<open>Codecs\<close>

text \<open>
  The contract of an encoder and a decoder of one value: on the bytes of a value and whatever
  follows them the decoder returns the value and how many bytes it took. What a client needs
  of it: the encoding is injective, no encoding is a prefix of another, and a sequence of
  values written one after the other is read back by repeating the decoder.
\<close>

locale prefix_codec =
  fixes ok :: "'a \<Rightarrow> bool"
    and enc :: "'a \<Rightarrow> u8 list"
    and dec :: "u8 list \<Rightarrow> ('e, 'a \<times> nat) outcome"
  assumes dec_enc: "ok x \<Longrightarrow> dec (enc x @ rest) = Inr (x, length (enc x))"
begin

lemma prefix_free:
  assumes "ok x" "ok y" "enc x @ xs = enc y @ ys"
  shows "x = y \<and> xs = ys"
  using dec_enc [OF assms(1), of xs] dec_enc [OF assms(2), of ys] assms(3) by auto

lemma enc_inject: "ok x \<Longrightarrow> ok y \<Longrightarrow> enc x = enc y \<Longrightarrow> x = y"
  using prefix_free [of x y "[]" "[]"] by simp

lemma concat_enc_inject:
  "length xs = length ys \<Longrightarrow> list_all ok xs \<Longrightarrow> list_all ok ys \<Longrightarrow>
     concat (map enc xs) = concat (map enc ys) \<Longrightarrow> xs = ys"
proof (induction xs ys rule: list_induct2)
  case Nil
  then show ?case by simp
next
  case (Cons x xs y ys)
  then have "x = y \<and> concat (map enc xs) = concat (map enc ys)"
    using prefix_free [of x y "concat (map enc xs)" "concat (map enc ys)"] by simp
  with Cons show ?case by simp
qed

end

end
