(* ===== verification/Varint.thy ===== *)
theory Varint
  imports Factories_Prelude
begin

text \<open>
  The unsigned LEB128 varints of the capture stream,
  \<open>crates/factories_capture_codec/src/varint.rs\<close>: the writer \<open>write_uvarint\<close>, the reader
  \<open>read_uvarint\<close> with its two errors, and the round trip between them.
\<close>

text \<open>\<open>DecodeError\<close> of \<open>error.rs\<close>, all the failures of the codec.\<close>

datatype DecodeError =
    UnexpectedEof
  | OverlongVarint
  | BadMagic
  | UnsupportedVersion u16 u16
  | UnknownClockMode u8
  | UnknownRecordTag u8
  | ZeroActorId
  | InvalidUtf8
  | SegmentLengthMismatch

definition MAX_LEN :: nat where
  "MAX_LEN = (64 + 7 - 1) div 7"

section \<open>The writer\<close>

text \<open>
  The loop shifts the value right by seven bits until nothing is left; the bytes pushed to
  \<open>out\<close> are returned here, the caller appends them.
\<close>

function write_uvarint :: "u64 \<Rightarrow> u8 list" where
  "write_uvarint value =
     (let byte = (ucast (value AND 0x7f) :: u8);
          value' = drop_bit 7 value
      in if value' = 0 then [byte] else (byte OR 0x80) # write_uvarint value')"
  by pat_completeness auto
termination
  by (relation "measure unat")
    (auto simp: drop_bit_eq_div unat_div unat_gt_0 intro!: div_less_dividend)

declare write_uvarint.simps [simp del]

section \<open>The reader\<close>

text \<open>
  The \<open>for\<close> loop over \<open>input.iter().take(MAX_LEN).enumerate()\<close>: \<open>None\<close> is the fall through
  with no terminator.
\<close>

fun read_loop :: "u8 list \<Rightarrow> nat \<Rightarrow> u64 \<Rightarrow> nat \<Rightarrow> (u64 \<times> nat) option" where
  "read_loop [] i result shift = None"
| "read_loop (byte # bytes) i result shift =
     (let result' = result OR push_bit shift (ucast (byte AND 0x7f))
      in if byte AND 0x80 = 0 then Some (result', i + 1)
         else read_loop bytes (i + 1) result' (shift + 7))"

definition read_uvarint :: "u8 list \<Rightarrow> (DecodeError, u64 \<times> nat) outcome" where
  "read_uvarint input =
     (case read_loop (take MAX_LEN input) 0 0 0 of
        Some r \<Rightarrow> Inr r
      | None \<Rightarrow> if MAX_LEN \<le> length input then Inl (Error OverlongVarint)
                else Inl (Error UnexpectedEof))"


section \<open>Properties\<close>

text \<open>One group: the low seven bits are the byte, the continuation bit is clear or set.\<close>

lemma group_masks:
  "(0x7f :: u64) = mask 7" "(0x7f :: u8) = mask 7" "(0x80 :: u8) = push_bit 7 1"
  by (simp_all add: mask_eq_exp_minus_1 push_bit_eq_mult)

lemma bit_128_iff: "bit (0x80 :: 'a::len word) n \<longleftrightarrow> n = 7 \<and> n < LENGTH('a)"
proof -
  have "(0x80 :: 'a word) = 2 ^ 7" by simp
  then show ?thesis by (metis bit_exp_iff possible_bit_word)
qed

lemma byte_of_group:
  fixes v :: u64
  shows "(ucast (v AND 0x7f) :: u8) AND 0x80 = 0"
    and "((ucast (v AND 0x7f) :: u8) OR 0x80) AND 0x80 \<noteq> 0"
    and "(ucast ((ucast (v AND 0x7f) :: u8) AND 0x7f) :: u64) = take_bit 7 v"
    and "(ucast (((ucast (v AND 0x7f) :: u8) OR 0x80) AND 0x7f) :: u64) = take_bit 7 v"
proof -
  show "(ucast (v AND 0x7f) :: u8) AND 0x80 = 0"
    unfolding group_masks(1) by (rule bit_word_eqI) 
      (auto simp: bit_simps bit_128_iff simp del: bit_numeral_word_iff)
  have "bit (((ucast (v AND 0x7f) :: u8) OR 0x80) AND 0x80) 7"
    by (simp add: bit_simps bit_128_iff del: bit_numeral_word_iff)
  then show "((ucast (v AND 0x7f) :: u8) OR 0x80) AND 0x80 \<noteq> 0"
    by (metis bit_0_eq bot_apply bot_bool_def)
  show "(ucast ((ucast (v AND 0x7f) :: u8) AND 0x7f) :: u64) = take_bit 7 v"
    unfolding group_masks(1,2) by (rule bit_word_eqI)
      (auto simp: bit_simps bit_128_iff simp del: bit_numeral_word_iff)
  show "(ucast (((ucast (v AND 0x7f) :: u8) OR 0x80) AND 0x7f) :: u64) = take_bit 7 v"
    unfolding group_masks(1,2) by (rule bit_word_eqI)
      (auto simp: bit_simps bit_128_iff simp del: bit_numeral_word_iff)
qed

lemma write_uvarint_last:
  "drop_bit 7 v = 0 \<Longrightarrow> write_uvarint v = [ucast (v AND 0x7f)]"
  by (simp add: write_uvarint.simps [of v])

lemma write_uvarint_more:
  "drop_bit 7 v \<noteq> 0 \<Longrightarrow>
     write_uvarint v = (ucast (v AND 0x7f) OR 0x80) # write_uvarint (drop_bit 7 v)"
  by (simp add: write_uvarint.simps [of v] Let_def)

text \<open>
  Reading back: with the low \<open>shift\<close> bits of \<open>w\<close> already in \<open>result\<close> and the bytes of the rest
  of \<open>w\<close> ahead, the loop returns \<open>w\<close> and the count of bytes read.
\<close>

lemma take_bit_group:
  fixes w :: u64
  shows "take_bit s w OR push_bit s (take_bit 7 (drop_bit s w)) = take_bit (s + 7) w"
  by (rule bit_word_eqI) (auto simp: bit_simps)

lemma read_loop_write:
  "read_loop (write_uvarint (drop_bit shift w) @ rest) i (take_bit shift w) shift =
     Some (w, i + length (write_uvarint (drop_bit shift w)))"
proof (induction "drop_bit shift w" arbitrary: shift i rule: write_uvarint.induct)
  case (1 shift)
  let ?v = "drop_bit shift w"
  have next_group: "drop_bit 7 ?v = drop_bit (shift + 7) w" by (simp add: add.commute)
  show ?case
  proof (cases "drop_bit 7 ?v = 0")
    case True
    then have "take_bit (shift + 7) w = w"
      unfolding next_group by (simp add: take_bit_eq_self_iff_drop_bit_eq_0)
    with True show ?thesis
      by (simp add: write_uvarint_last byte_of_group take_bit_group)
  next
    case False
    have "read_loop (write_uvarint (drop_bit (shift + 7) w) @ rest) (i + 1)
        (take_bit (shift + 7) w) (shift + 7) =
        Some (w, i + 1 + length (write_uvarint (drop_bit (shift + 7) w)))"
      by (rule 1 (1) [OF refl]) (use False in \<open>simp_all add: add.commute\<close>)
    then show ?thesis
      unfolding write_uvarint_more [OF False] next_group
      by (simp add: byte_of_group take_bit_group)
  qed
qed

text \<open>At most ten bytes: seven bits a byte.\<close>

lemma length_write_uvarint_le:
  "unat v < 2 ^ (7 * n) \<Longrightarrow> 0 < n \<Longrightarrow> length (write_uvarint v) \<le> n"
proof (induction n arbitrary: v)
  case 0
  then show ?case by simp
next
  case (Suc n)
  show ?case
  proof (cases "drop_bit 7 v = 0")
    case True
    then show ?thesis by (simp add: write_uvarint_last)
  next
    case False
    have "unat v div 2 ^ 7 < 2 ^ (7 * n)"
      using Suc.prems by (simp add: less_mult_imp_div_less power_add mult.commute)
    then have small: "unat (drop_bit 7 v) < 2 ^ (7 * n)"
      by (simp add: drop_bit_eq_div unat_div)
    with False have "0 < n" by (cases n) (auto simp: unat_eq_0)
    from Suc.IH [OF small this] False show ?thesis by (simp add: write_uvarint_more)
  qed
qed

lemma length_write_uvarint_ge:
  "length (write_uvarint v) \<le> n \<Longrightarrow> 0 < n \<and> unat v < 2 ^ (7 * n)"
proof (induction n arbitrary: v)
  case 0
  then show ?case by (cases "drop_bit 7 v = 0") (simp_all add: write_uvarint_last write_uvarint_more)
next
  case (Suc n)
  have div: "unat v < 2 ^ (7 * Suc n)" if "unat (drop_bit 7 v) < 2 ^ (7 * n)"
  proof -
    have "unat v div 2 ^ 7 < 2 ^ (7 * n)"
      using that by (simp add: drop_bit_eq_div unat_div)
    then have "unat v < 2 ^ (7 * n) * 2 ^ 7" by (simp add: div_less_iff_less_mult)
    then show ?thesis by (simp add: power_add mult.commute)
  qed
  show ?case
  proof (cases "drop_bit 7 v = 0")
    case True
    then show ?thesis using div by simp
  next
    case False
    with Suc div show ?thesis by (simp add: write_uvarint_more)
  qed
qed

lemma length_write_uvarint_iff:
  "length (write_uvarint v) \<le> n \<longleftrightarrow> 0 < n \<and> unat v < 2 ^ (7 * n)"
  using length_write_uvarint_le length_write_uvarint_ge by blast

lemma unat_lt2p_64: "unat (v :: u64) < 2 ^ 64"
  using unsigned_less [of v, where ?'a = nat] by simp

lemma length_write_uvarint:
  "0 < length (write_uvarint v)" "length (write_uvarint v) \<le> MAX_LEN"
proof -
  show "0 < length (write_uvarint v)" by (simp add: write_uvarint.simps [of v] Let_def)
  have "unat v < 2 ^ (7 * 10)"
    using unat_lt2p_64 [of v] by simp
  from length_write_uvarint_le [OF this] show "length (write_uvarint v) \<le> MAX_LEN"
    by (simp add: MAX_LEN_def)
qed

lemma read_write_uvarint [simp]:
  "read_uvarint (write_uvarint v @ rest) = Inr (v, length (write_uvarint v))"
proof -
  have "take MAX_LEN (write_uvarint v @ rest) =
      write_uvarint v @ take (MAX_LEN - length (write_uvarint v)) rest"
    using length_write_uvarint(2) [of v] by simp
  with read_loop_write [of 0 v] show ?thesis by (simp add: read_uvarint_def)
qed

lemma read_uvarint_write [simp]:
  "read_uvarint (write_uvarint v) = Inr (v, length (write_uvarint v))"
  using read_write_uvarint [of v "[]"] by simp


text \<open>What a successful read consumed, and that nothing after it was looked at.\<close>

lemma read_loop_consumes:
  "read_loop bytes i result shift = Some (v, n) \<Longrightarrow>
     i < n \<and> n \<le> i + length bytes \<and>
     (\<forall>rest. read_loop (take (n - i) bytes @ rest) i result shift = Some (v, n))"
proof (induction bytes i result shift rule: read_loop.induct)
  case (1 i result shift)
  then show ?case by simp
next
  case (2 byte bytes i result shift)
  show ?case
  proof (cases "byte AND 0x80 = 0")
    case True
    with "2.prems" show ?thesis by (auto simp: Let_def)
  next
    case False
    let ?r = "result OR push_bit shift (ucast (byte AND 0x7f))"
    have ih: "i + 1 < n \<and> n \<le> i + 1 + length bytes \<and>
      (\<forall>rest. read_loop (take (n - (i + 1)) bytes @ rest) (i + 1) ?r (shift + 7) = Some (v, n))"
      using False "2.prems" by (intro "2.IH" [OF refl]) (simp_all add: Let_def)
    have "n - i = Suc (n - (i + 1))" using ih by linarith
    with ih False show ?thesis by (auto simp: Let_def)
  qed
qed

lemma read_uvarint_bound [dest]:
  "read_uvarint input = Inr (v, n) \<Longrightarrow> 0 < n \<and> n \<le> length input \<and> n \<le> MAX_LEN"
  by (auto simp: read_uvarint_def split: option.splits if_splits dest!: read_loop_consumes)

text \<open>With no terminator among the first ten bytes the loop falls through.\<close>

lemma read_loop_None_iff:
  "read_loop bytes i result shift = None \<longleftrightarrow> (\<forall>b \<in> set bytes. b AND 0x80 \<noteq> 0)"
  by (induction bytes i result shift rule: read_loop.induct) (auto simp: Let_def)

lemma faults_read_uvarint [simp]:
  "P (Error UnexpectedEof) \<Longrightarrow> P (Error OverlongVarint) \<Longrightarrow> faults P (read_uvarint input)"
  by (auto simp: read_uvarint_def split: option.splits)

section \<open>The varint as a codec\<close>

interpretation uvarint: prefix_codec "\<lambda>_. True" write_uvarint read_uvarint
  by unfold_locales simp

end
