(* ===== verification/Segment.thy ===== *)
theory Segment
  imports Varint
begin

text \<open>
  One segment of the capture stream, \<open>crates/factories_capture_codec/src/segment.rs\<close>: the
  wire model (clock modes, anchors, event references, records, decoded segments), the
  encoder \<open>SegmentEncoder\<close> with its string interning and tick deltas, the decoder
  \<open>decode_segment\<close>, and the reconstruction of event times. The decoder takes the flag \<open>oc\<close>
  of the build (overflow checks on or off).
\<close>

section \<open>The wire model\<close>

definition TAG_SPAWNED :: u8 where "TAG_SPAWNED = 0"
definition TAG_DIED :: u8 where "TAG_DIED = 1"
definition TAG_MESSAGE :: u8 where "TAG_MESSAGE = 2"

datatype ClockMode = Tsc | Cntvct | Monotonic | SegmentStamp

fun to_tag :: "ClockMode \<Rightarrow> u8" where
  "to_tag Tsc = 0"
| "to_tag Cntvct = 1"
| "to_tag Monotonic = 2"
| "to_tag SegmentStamp = 3"

definition from_tag :: "u8 \<Rightarrow> ClockMode option" where
  "from_tag tag =
     (if tag = 0 then Some Tsc
      else if tag = 1 then Some Cntvct
      else if tag = 2 then Some Monotonic
      else if tag = 3 then Some SegmentStamp
      else None)"

record SegmentAnchor =
  sa_mode :: ClockMode
  sa_unix_micros :: u64
  sa_mono_micros :: u64
  sa_tick :: u64

text \<open>
  A \<open>NonZeroU64\<close> is a \<open>u64\<close> here; that it is not zero is part of the well-formedness
  predicates, and \<open>NonZeroU64::new\<close> is \<open>nonzero_new\<close>. A Rust string is the list of its UTF-8
  bytes.
\<close>

type_synonym nz_u64 = u64
type_synonym rust_str = "u8 list"
type_synonym blob = "u8 list"

definition nonzero_new :: "u64 \<Rightarrow> nz_u64 option" where
  "nonzero_new v = (if v = 0 then None else Some v)"

record EventRef =
  er_actor :: nz_u64
  er_seq :: u64

datatype Record =
    Spawned (rec_ts_delta: u64) (rec_ev_seq: u64) (rec_actor_id: nz_u64)
      (rec_actor_type: u32) (rec_parent: "nz_u64 option") (rec_caused_by: "EventRef option")
  | Died (rec_ts_delta: u64) (rec_ev_seq: u64) (rec_actor_id: nz_u64)
      (rec_actor_type: u32) (rec_reason: u8) (rec_caused_by: "EventRef option")
  | Message (rec_ts_delta: u64) (rec_ev_seq: u64) (rec_actor_id: nz_u64)
      (rec_from_actor: "nz_u64 option") (rec_message_type: u32) (rec_dispatch: u8)
      (rec_caused_by: "EventRef option") (rec_payload: blob)

fun ts_delta :: "Record \<Rightarrow> u64" where
  "ts_delta (Spawned d _ _ _ _ _) = d"
| "ts_delta (Died d _ _ _ _ _) = d"
| "ts_delta (Message d _ _ _ _ _ _ _) = d"

record Segment =
  sg_anchor :: SegmentAnchor
  sg_close_mono_micros :: u64
  sg_close_tick :: u64
  sg_strings :: "rust_str list"
  sg_interpretations :: "blob list"
  sg_schemas :: "blob list"
  sg_records :: "Record list"

section \<open>Event times\<close>

text \<open>
  The loop of \<open>Segment::event_unix_micros\<close>. The product is taken in \<open>u128\<close>, which holds it
  exactly; the quotient is cut to a \<open>u64\<close>.
\<close>

fun event_times :: "bool \<Rightarrow> SegmentAnchor \<Rightarrow> u64 \<Rightarrow> u64 \<Rightarrow> u64 \<Rightarrow> Record list \<Rightarrow>
    (DecodeError, u64 list) outcome" where
  "event_times oc anchor tick_span mono_span abs_tick [] = Inr []"
| "event_times oc anchor tick_span mono_span abs_tick (r # rs) =
     (let abs_tick' = saturating_add abs_tick (ts_delta r);
          elapsed_micros =
            (if tick_span = 0 then 0
             else (let into_segment = unat (saturating_sub abs_tick' (sa_tick anchor))
                   in of_nat ((into_segment * unat mono_span) div unat tick_span)))
      in and_then (u64_add oc (sa_unix_micros anchor) elapsed_micros)
           (\<lambda>t. and_then (event_times oc anchor tick_span mono_span abs_tick' rs)
             (\<lambda>ts. Inr (t # ts))))"

definition event_unix_micros :: "bool \<Rightarrow> Segment \<Rightarrow> (DecodeError, u64 list) outcome" where
  "event_unix_micros oc seg =
     (let open_tick = sa_tick (sg_anchor seg);
          tick_span = saturating_sub (sg_close_tick seg) open_tick;
          mono_span = saturating_sub (sg_close_mono_micros seg) (sa_mono_micros (sg_anchor seg))
      in event_times oc (sg_anchor seg) tick_span mono_span open_tick (sg_records seg))"

section \<open>The encoder\<close>

record SegmentEncoder =
  se_anchor :: SegmentAnchor
  se_last_tick :: u64
  se_strings :: "rust_str list"
  se_interpretations :: "blob list"
  se_schemas :: "blob list"
  se_records :: "u8 list"

definition encoder_new :: "SegmentAnchor \<Rightarrow> SegmentEncoder" where
  "encoder_new anchor =
     \<lparr>se_anchor = anchor, se_last_tick = sa_tick anchor, se_strings = [],
      se_interpretations = [], se_schemas = [], se_records = []\<rparr>"

definition intern_blob :: "blob list \<Rightarrow> blob \<Rightarrow> u32 \<times> blob list" where
  "intern_blob table b =
     (case position (\<lambda>existing. existing = b) table of
        Some index \<Rightarrow> (of_nat index, table)
      | None \<Rightarrow> (of_nat (length table), table @ [b]))"

definition intern_interpretation :: "SegmentEncoder \<Rightarrow> blob \<Rightarrow> u32 \<times> SegmentEncoder" where
  "intern_interpretation e b =
     (let (i, table) = intern_blob (se_interpretations e) b
      in (i, e\<lparr>se_interpretations := table\<rparr>))"

definition intern_schema :: "SegmentEncoder \<Rightarrow> blob \<Rightarrow> u32 \<times> SegmentEncoder" where
  "intern_schema e b =
     (let (i, table) = intern_blob (se_schemas e) b
      in (i, e\<lparr>se_schemas := table\<rparr>))"

definition encoded_len :: "SegmentEncoder \<Rightarrow> nat" where
  "encoded_len e = length (se_records e)"

definition intern :: "SegmentEncoder \<Rightarrow> rust_str \<Rightarrow> u32 \<times> SegmentEncoder" where
  "intern e name =
     (case position (\<lambda>existing. existing = name) (se_strings e) of
        Some i \<Rightarrow> (of_nat i, e)
      | None \<Rightarrow> (of_nat (length (se_strings e)), e\<lparr>se_strings := se_strings e @ [name]\<rparr>))"

definition delta :: "SegmentEncoder \<Rightarrow> u64 \<Rightarrow> u64 \<times> SegmentEncoder" where
  "delta e tick = (saturating_sub tick (se_last_tick e), e\<lparr>se_last_tick := tick\<rparr>)"

fun write_cause :: "EventRef option \<Rightarrow> u8 list" where
  "write_cause (Some r) = write_uvarint (er_actor r) @ write_uvarint (er_seq r)"
| "write_cause None = write_uvarint 0"

definition map_or_zero :: "nz_u64 option \<Rightarrow> u64" where
  "map_or_zero x = (case x of None \<Rightarrow> 0 | Some v \<Rightarrow> v)"

definition spawned :: "SegmentEncoder \<Rightarrow> u64 \<Rightarrow> u64 \<Rightarrow> nz_u64 \<Rightarrow> rust_str \<Rightarrow>
    nz_u64 option \<Rightarrow> EventRef option \<Rightarrow> SegmentEncoder" where
  "spawned e tick ev_seq actor_id actor_type parent caused_by =
     (let (d, e1) = delta e tick;
          (type_idx, e2) = intern e1 actor_type
      in e2\<lparr>se_records := se_records e2 @ [TAG_SPAWNED] @ write_uvarint d @
              write_uvarint ev_seq @ write_uvarint actor_id @ write_uvarint (ucast type_idx) @
              write_uvarint (map_or_zero parent) @ write_cause caused_by\<rparr>)"

definition died :: "SegmentEncoder \<Rightarrow> u64 \<Rightarrow> u64 \<Rightarrow> nz_u64 \<Rightarrow> rust_str \<Rightarrow>
    u8 \<Rightarrow> EventRef option \<Rightarrow> SegmentEncoder" where
  "died e tick ev_seq actor_id actor_type reason caused_by =
     (let (d, e1) = delta e tick;
          (type_idx, e2) = intern e1 actor_type
      in e2\<lparr>se_records := se_records e2 @ [TAG_DIED] @ write_uvarint d @
              write_uvarint ev_seq @ write_uvarint actor_id @ write_uvarint (ucast type_idx) @
              [reason] @ write_cause caused_by\<rparr>)"

definition message :: "SegmentEncoder \<Rightarrow> u64 \<Rightarrow> u64 \<Rightarrow> nz_u64 \<Rightarrow> nz_u64 option \<Rightarrow>
    rust_str \<Rightarrow> u8 \<Rightarrow> EventRef option \<Rightarrow> blob \<Rightarrow> SegmentEncoder" where
  "message e tick ev_seq actor_id from_actor message_type dispatch caused_by payload =
     (let (d, e1) = delta e tick;
          (type_idx, e2) = intern e1 message_type
      in e2\<lparr>se_records := se_records e2 @ [TAG_MESSAGE] @ write_uvarint d @
              write_uvarint ev_seq @ write_uvarint actor_id @
              write_uvarint (map_or_zero from_actor) @ write_uvarint (ucast type_idx) @
              [dispatch] @ write_cause caused_by @
              write_uvarint (of_nat (length payload)) @ payload\<rparr>)"

text \<open>Tables: a count, then each entry behind its length.\<close>

definition write_blob :: "blob \<Rightarrow> u8 list" where
  "write_blob b = write_uvarint (of_nat (length b)) @ b"

definition write_blob_table :: "blob list \<Rightarrow> u8 list" where
  "write_blob_table table = write_uvarint (of_nat (length table)) @ concat (map write_blob table)"

definition le_bytes_u32 :: "u32 \<Rightarrow> u8 list" where
  "le_bytes_u32 w = [ucast w, ucast (drop_bit 8 w), ucast (drop_bit 16 w), ucast (drop_bit 24 w)]"

definition from_le_bytes_u32 :: "u8 list \<Rightarrow> u32" where
  "from_le_bytes_u32 bs =
     (case bs of
        [b0, b1, b2, b3] \<Rightarrow> ucast b0 OR push_bit 8 (ucast b1) OR push_bit 16 (ucast b2)
                            OR push_bit 24 (ucast b3)
      | _ \<Rightarrow> 0)"

definition segment_body :: "SegmentEncoder \<Rightarrow> u64 \<Rightarrow> u64 \<Rightarrow> u8 list" where
  "segment_body e close_mono_micros close_tick =
     [to_tag (sa_mode (se_anchor e))] @ write_uvarint (sa_unix_micros (se_anchor e)) @
     write_uvarint (sa_mono_micros (se_anchor e)) @ write_uvarint (sa_tick (se_anchor e)) @
     write_uvarint close_mono_micros @ write_uvarint close_tick @
     write_uvarint (of_nat (length (se_strings e))) @
     concat (map (\<lambda>s. write_uvarint (of_nat (length s)) @ s) (se_strings e)) @
     write_blob_table (se_interpretations e) @ write_blob_table (se_schemas e) @
     se_records e"

definition finish :: "SegmentEncoder \<Rightarrow> u64 \<Rightarrow> u64 \<Rightarrow> u8 list" where
  "finish e close_mono_micros close_tick =
     (let body = segment_body e close_mono_micros close_tick
      in le_bytes_u32 (of_nat (length body)) @ body)"

end
