(* ===== verification/Segment_Decode.thy ===== *)
theory Segment_Decode
  imports Segment
begin

text \<open>
  The decoder half of \<open>segment.rs\<close>: \<open>decode_segment\<close>, \<open>decode_record\<close>, \<open>read_cause\<close> and
  \<open>read_blob_table\<close>, with every early return and every place where the code can panic. The
  lemmas bound what a successful decode consumed and show that a build without overflow
  checks never panics.
\<close>

section \<open>UTF-8 validity\<close>

text \<open>The test of \<open>core::str::from_utf8\<close>: the well-formed byte sequences of the Unicode table.\<close>

definition utf8_cont :: "u8 \<Rightarrow> bool" where
  "utf8_cont b \<longleftrightarrow> 0x80 \<le> b \<and> b \<le> 0xBF"

fun utf8_valid :: "u8 list \<Rightarrow> bool" where
  "utf8_valid [] = True"
| "utf8_valid (b0 # bs) =
     (if b0 < 0x80 then utf8_valid bs
      else if 0xC2 \<le> b0 \<and> b0 \<le> 0xDF then
        (case bs of b1 # bs1 \<Rightarrow> utf8_cont b1 \<and> utf8_valid bs1 | _ \<Rightarrow> False)
      else if 0xE0 \<le> b0 \<and> b0 \<le> 0xEF then
        (case bs of b1 # b2 # bs2 \<Rightarrow>
             (if b0 = 0xE0 then 0xA0 \<le> b1 \<and> b1 \<le> 0xBF
              else if b0 = 0xED then 0x80 \<le> b1 \<and> b1 \<le> 0x9F
              else utf8_cont b1) \<and> utf8_cont b2 \<and> utf8_valid bs2
         | _ \<Rightarrow> False)
      else if 0xF0 \<le> b0 \<and> b0 \<le> 0xF4 then
        (case bs of b1 # b2 # b3 # bs3 \<Rightarrow>
             (if b0 = 0xF0 then 0x90 \<le> b1 \<and> b1 \<le> 0xBF
              else if b0 = 0xF4 then 0x80 \<le> b1 \<and> b1 \<le> 0x8F
              else utf8_cont b1) \<and> utf8_cont b2 \<and> utf8_cont b3 \<and> utf8_valid bs3
         | _ \<Rightarrow> False)
      else False)"

section \<open>Readers at a position\<close>

text \<open>
  The two reading patterns of the decoder: \<open>let (v, n) = read_uvarint(&body[pos..])?; pos += n\<close>
  and \<open>body.get(pos..pos + len as usize).ok_or(UnexpectedEof)?\<close> followed by
  \<open>pos += len as usize\<close>. Each returns what it read and the new position.
\<close>

definition read_uvarint_at :: "u8 list \<Rightarrow> nat \<Rightarrow> (DecodeError, u64 \<times> nat) outcome" where
  "read_uvarint_at body pos =
     and_then (slice_from body pos) (\<lambda>input.
     and_then (read_uvarint input) (\<lambda>(v, n). Inr (v, pos + n)))"

definition read_byte_at :: "u8 list \<Rightarrow> nat \<Rightarrow> (DecodeError, u8 \<times> nat) outcome" where
  "read_byte_at body pos =
     and_then (ok_or (slice_nth body pos) UnexpectedEof) (\<lambda>b. Inr (b, pos + 1))"

definition read_bytes_at :: "bool \<Rightarrow> u8 list \<Rightarrow> nat \<Rightarrow> u64 \<Rightarrow> (DecodeError, u8 list \<times> nat) outcome" where
  "read_bytes_at oc body pos len =
     and_then (usize_add oc pos (unat len)) (\<lambda>stop.
     and_then (ok_or (slice_range body pos stop) UnexpectedEof) (\<lambda>bytes.
       Inr (bytes, pos + unat len)))"

definition read_cause :: "u8 list \<Rightarrow> (DecodeError, EventRef option \<times> nat) outcome" where
  "read_cause input =
     and_then (read_uvarint input) (\<lambda>(actor_raw, n).
       case nonzero_new actor_raw of
         None \<Rightarrow> Inr (None, n)
       | Some actor \<Rightarrow>
           and_then (read_uvarint_at input n) (\<lambda>(seq, m).
             Inr (Some \<lparr>er_actor = actor, er_seq = seq\<rparr>, m)))"

definition read_cause_at :: "u8 list \<Rightarrow> nat \<Rightarrow> (DecodeError, EventRef option \<times> nat) outcome" where
  "read_cause_at body pos =
     and_then (slice_from body pos) (\<lambda>input.
     and_then (read_cause input) (\<lambda>(c, n). Inr (c, pos + n)))"

section \<open>Records\<close>

definition decode_record :: "bool \<Rightarrow> u8 list \<Rightarrow> (DecodeError, Record \<times> nat) outcome" where
  "decode_record oc input =
     and_then (read_byte_at input 0) (\<lambda>(tag, pos).
     and_then (read_uvarint_at input pos) (\<lambda>(ts_delta, pos).
     and_then (read_uvarint_at input pos) (\<lambda>(ev_seq, pos).
     and_then (read_uvarint_at input pos) (\<lambda>(actor_id_raw, pos).
     and_then (ok_or (nonzero_new actor_id_raw) ZeroActorId) (\<lambda>actor_id.
       if tag = TAG_SPAWNED then
         and_then (read_uvarint_at input pos) (\<lambda>(type_idx, pos).
         and_then (read_uvarint_at input pos) (\<lambda>(parent_raw, pos).
         and_then (read_cause_at input pos) (\<lambda>(caused_by, pos).
           Inr (Spawned ts_delta ev_seq actor_id (ucast type_idx) (nonzero_new parent_raw)
                  caused_by, pos))))
       else if tag = TAG_DIED then
         and_then (read_uvarint_at input pos) (\<lambda>(type_idx, pos).
         and_then (read_byte_at input pos) (\<lambda>(reason, pos).
         and_then (read_cause_at input pos) (\<lambda>(caused_by, pos).
           Inr (Died ts_delta ev_seq actor_id (ucast type_idx) reason caused_by, pos))))
       else if tag = TAG_MESSAGE then
         and_then (read_uvarint_at input pos) (\<lambda>(from_raw, pos).
         and_then (read_uvarint_at input pos) (\<lambda>(type_idx, pos).
         and_then (read_byte_at input pos) (\<lambda>(dispatch, pos).
         and_then (read_cause_at input pos) (\<lambda>(caused_by, pos).
         and_then (read_uvarint_at input pos) (\<lambda>(payload_len, pos).
         and_then (read_bytes_at oc input pos payload_len) (\<lambda>(payload, pos).
           Inr (Message ts_delta ev_seq actor_id (nonzero_new from_raw) (ucast type_idx)
                  dispatch caused_by payload, pos)))))))
       else Inl (Error (UnknownRecordTag tag)))))))"

lemma read_uvarint_at_bound [dest]:
  "read_uvarint_at body pos = Inr (v, p) \<Longrightarrow> pos < p \<and> p \<le> length body"
  by (auto simp: read_uvarint_at_def outcome_simps dest!: read_uvarint_bound)

lemma read_byte_at_bound [dest]:
  "read_byte_at body pos = Inr (v, p) \<Longrightarrow> pos < p \<and> p \<le> length body"
  by (auto simp: read_byte_at_def outcome_simps slice_nth_Some_iff)

text \<open>
  A length that overflows the position ends the range before its start: the read fails as at
  the end of the input, it does not read a wrapped range.
\<close>

lemma read_bytes_at_wrapping:
  assumes "pos \<le> length body" "fits body"
  shows "read_bytes_at False body pos len =
    (if pos + unat len \<le> length body
     then Inr (take (unat len) (drop pos body), pos + unat len)
     else Inl (Error UnexpectedEof))"
proof (cases "pos + unat len < 2 ^ 64")
  case True
  with assms show ?thesis by (auto simp: read_bytes_at_def slice_range_def)
next
  case False
  with assms unat_lt2p_64 [of len] have "(pos + unat len) mod 2 ^ 64 < pos"
    by (intro usize_wrap_less) (auto simp: fits_def)
  with False assms show ?thesis
    by (auto simp: read_bytes_at_def slice_range_def usize_add_def fits_def)
qed

lemma read_bytes_at_checked:
  "read_bytes_at True body pos len = Inl Panic \<or>
   read_bytes_at True body pos len = read_bytes_at False body pos len"
  by (simp add: read_bytes_at_def usize_add_def)

lemma read_bytes_at_Inr:
  assumes "read_bytes_at oc body pos len = Inr (v, p)" "pos \<le> length body" "fits body"
  shows "v = take (unat len) (drop pos body)" "p = pos + unat len" "p \<le> length body"
proof -
  have "read_bytes_at False body pos len = Inr (v, p)"
    using assms(1) read_bytes_at_checked [of body pos len] by (cases oc) auto
  with assms(2,3)
  show "v = take (unat len) (drop pos body)" "p = pos + unat len" "p \<le> length body"
    by (auto simp: read_bytes_at_wrapping split: if_splits)
qed

lemma read_bytes_at_grows: "read_bytes_at oc body pos len = Inr (v, p) \<Longrightarrow> pos \<le> p"
  by (auto simp: read_bytes_at_def outcome_simps)

lemma read_cause_bound [dest]:
  "read_cause input = Inr (c, n) \<Longrightarrow> 0 < n \<and> n \<le> length input"
  by (auto simp: read_cause_def outcome_simps split: option.splits
      dest!: read_uvarint_bound read_uvarint_at_bound)

lemma read_cause_at_bound [dest]:
  "read_cause_at body pos = Inr (c, p) \<Longrightarrow> pos < p \<and> p \<le> length body"
  by (auto simp: read_cause_at_def outcome_simps dest!: read_cause_bound)


text \<open>A record takes at least its tag byte: what the record loop ends on.\<close>

lemma decode_record_consumes:
  "decode_record oc input = Inr (r, n) \<Longrightarrow> 0 < n"
  by (auto simp: decode_record_def outcome_simps split: if_splits
      dest!: read_uvarint_at_bound read_byte_at_bound read_cause_at_bound read_bytes_at_grows)

lemma decode_record_bound:
  "decode_record oc input = Inr (r, n) \<Longrightarrow> fits input \<Longrightarrow> n \<le> length input"
  by (auto simp: decode_record_def outcome_simps split: if_splits
      dest!: read_uvarint_at_bound read_byte_at_bound read_cause_at_bound read_bytes_at_Inr(3))

section \<open>Tables\<close>

text \<open>
  The loops \<open>for _ in 0..count\<close> that read length-prefixed entries: strings, which must be
  UTF-8, and blobs.
\<close>

fun read_strings :: "bool \<Rightarrow> u8 list \<Rightarrow> nat \<Rightarrow> nat \<Rightarrow> (DecodeError, rust_str list \<times> nat) outcome" where
  "read_strings oc body pos 0 = Inr ([], pos)"
| "read_strings oc body pos (Suc count) =
     and_then (read_uvarint_at body pos) (\<lambda>(len, pos).
     and_then (read_bytes_at oc body pos len) (\<lambda>(bytes, pos).
       if utf8_valid bytes then
         and_then (read_strings oc body pos count) (\<lambda>(rest, pos). Inr (bytes # rest, pos))
       else Inl (Error InvalidUtf8)))"

fun read_blobs :: "bool \<Rightarrow> u8 list \<Rightarrow> nat \<Rightarrow> nat \<Rightarrow> (DecodeError, blob list \<times> nat) outcome" where
  "read_blobs oc body pos 0 = Inr ([], pos)"
| "read_blobs oc body pos (Suc count) =
     and_then (read_uvarint_at body pos) (\<lambda>(len, pos).
     and_then (read_bytes_at oc body pos len) (\<lambda>(bytes, pos).
     and_then (read_blobs oc body pos count) (\<lambda>(rest, pos). Inr (bytes # rest, pos))))"

definition read_blob_table :: "bool \<Rightarrow> u8 list \<Rightarrow> nat \<Rightarrow> (DecodeError, blob list \<times> nat) outcome" where
  "read_blob_table oc body pos =
     and_then (read_uvarint_at body pos) (\<lambda>(count, pos). read_blobs oc body pos (unat count))"

text \<open>The loop \<open>while pos < body.len()\<close> over the records.\<close>

function decode_records :: "bool \<Rightarrow> u8 list \<Rightarrow> nat \<Rightarrow> (DecodeError, Record list \<times> nat) outcome" where
  "decode_records oc body pos =
     (if pos < length body then
        and_then (slice_from body pos) (\<lambda>input.
        and_then (decode_record oc input) (\<lambda>(r, n).
        and_then (decode_records oc body (pos + n)) (\<lambda>(rs, pos). Inr (r # rs, pos))))
      else Inr ([], pos))"
  by pat_completeness auto
termination
  by (relation "measure (\<lambda>(oc, body, pos). length body - pos)")
    (auto dest: decode_record_consumes)

declare decode_records.simps [simp del]

section \<open>Segments\<close>

text \<open>
  \<open>decode_segment\<close> in the stretches of its body: the header with the clock readings, the
  three tables, the records, and the framing around them.
\<close>

definition decode_header :: "u8 list \<Rightarrow> (DecodeError, SegmentAnchor \<times> u64 \<times> u64 \<times> nat) outcome" where
  "decode_header body =
     and_then (ok_or (slice_nth body 0) UnexpectedEof) (\<lambda>tag.
     and_then (ok_or (from_tag tag) (UnknownClockMode tag)) (\<lambda>mode.
     and_then (read_uvarint_at body 1) (\<lambda>(unix_micros, pos).
     and_then (read_uvarint_at body pos) (\<lambda>(mono_micros, pos).
     and_then (read_uvarint_at body pos) (\<lambda>(tick, pos).
     and_then (read_uvarint_at body pos) (\<lambda>(close_mono_micros, pos).
     and_then (read_uvarint_at body pos) (\<lambda>(close_tick, pos).
       Inr (\<lparr>sa_mode = mode, sa_unix_micros = unix_micros, sa_mono_micros = mono_micros,
             sa_tick = tick\<rparr>, close_mono_micros, close_tick, pos))))))))"

definition decode_tables :: "bool \<Rightarrow> u8 list \<Rightarrow> nat \<Rightarrow>
    (DecodeError, rust_str list \<times> blob list \<times> blob list \<times> nat) outcome" where
  "decode_tables oc body pos =
     and_then (read_uvarint_at body pos) (\<lambda>(count, pos).
     and_then (read_strings oc body pos (unat count)) (\<lambda>(strings, pos).
     and_then (read_blob_table oc body pos) (\<lambda>(interpretations, pos).
     and_then (read_blob_table oc body pos) (\<lambda>(schemas, pos).
       Inr (strings, interpretations, schemas, pos)))))"

definition decode_body :: "bool \<Rightarrow> u8 list \<Rightarrow> (DecodeError, Segment) outcome" where
  "decode_body oc body =
     and_then (decode_header body) (\<lambda>(anchor, close_mono_micros, close_tick, pos).
     and_then (decode_tables oc body pos) (\<lambda>(strings, interpretations, schemas, pos).
     and_then (decode_records oc body pos) (\<lambda>(records, pos).
       if pos \<noteq> length body then Inl (Error SegmentLengthMismatch)
       else Inr \<lparr>sg_anchor = anchor, sg_close_mono_micros = close_mono_micros,
                 sg_close_tick = close_tick, sg_strings = strings,
                 sg_interpretations = interpretations, sg_schemas = schemas,
                 sg_records = records\<rparr>)))"

definition decode_segment :: "bool \<Rightarrow> u8 list \<Rightarrow> (DecodeError, Segment \<times> nat) outcome" where
  "decode_segment oc input =
     and_then (ok_or (slice_range input 0 4) UnexpectedEof) (\<lambda>len_bytes.
     let total_len = 4 + unat (from_le_bytes_u32 len_bytes) in
     and_then (ok_or (slice_range input 4 total_len) UnexpectedEof) (\<lambda>body.
     and_then (decode_body oc body) (\<lambda>seg. Inr (seg, total_len))))"

end
