(* ===== verification/Segment_Safety.thy ===== *)
theory Segment_Safety
  imports Segment_Decode
begin

text \<open>
  What the decoder promises on any input, well-formed or not: without overflow checks it
  never panics, it never reports a length mismatch, what it consumed is the length the prefix
  declares, and a decoded segment is well-formed. A build with overflow checks differs only
  by panics, and there is a stream on which it does panic.
\<close>

section \<open>Positions stay inside the body\<close>

lemma read_strings_bound:
  assumes "fits body"
  shows "read_strings oc body pos count = Inr (ss, p) \<Longrightarrow> pos \<le> length body \<Longrightarrow>
     pos \<le> p \<and> p \<le> length body \<and> length ss = count \<and> list_all utf8_valid ss"
proof (induction count arbitrary: pos ss p)
  case 0
  then show ?case by simp
next
  case (Suc count)
  from Suc.prems(1) obtain len p1 bytes p2 rest where
      len: "read_uvarint_at body pos = Inr (len, p1)"
    and bytes: "read_bytes_at oc body p1 len = Inr (bytes, p2)"
    and valid: "utf8_valid bytes"
    and rest: "read_strings oc body p2 count = Inr (rest, p)"
    and ss: "ss = bytes # rest"
    by (auto simp: outcome_simps split: if_splits)
  from len have "pos < p1" "p1 \<le> length body" by auto
  moreover from bytes have "p1 \<le> p2" by (rule read_bytes_at_grows)
  moreover from bytes \<open>p1 \<le> length body\<close> assms have "p2 \<le> length body"
    by (rule read_bytes_at_Inr(3))
  moreover from Suc.IH [OF rest this] have "p2 \<le> p \<and> p \<le> length body \<and> length rest = count \<and>
    list_all utf8_valid rest" .
  ultimately show ?case using valid ss by simp
qed

lemma read_blobs_bound:
  assumes "fits body"
  shows "read_blobs oc body pos count = Inr (bs, p) \<Longrightarrow> pos \<le> length body \<Longrightarrow>
     pos \<le> p \<and> p \<le> length body \<and> length bs = count"
proof (induction count arbitrary: pos bs p)
  case 0
  then show ?case by simp
next
  case (Suc count)
  from Suc.prems(1) obtain len p1 bytes p2 rest where
      len: "read_uvarint_at body pos = Inr (len, p1)"
    and bytes: "read_bytes_at oc body p1 len = Inr (bytes, p2)"
    and rest: "read_blobs oc body p2 count = Inr (rest, p)"
    and bs: "bs = bytes # rest"
    by (auto simp: outcome_simps)
  from len have "pos < p1" "p1 \<le> length body" by auto
  moreover from bytes have "p1 \<le> p2" by (rule read_bytes_at_grows)
  moreover from bytes \<open>p1 \<le> length body\<close> assms have "p2 \<le> length body"
    by (rule read_bytes_at_Inr(3))
  moreover from Suc.IH [OF rest this] have "p2 \<le> p \<and> p \<le> length body \<and> length rest = count" .
  ultimately show ?case using bs by simp
qed

lemma read_blob_table_bound:
  "read_blob_table oc body pos = Inr (bs, p) \<Longrightarrow> fits body \<Longrightarrow>
     pos < p \<and> p \<le> length body"
  by (fastforce simp: read_blob_table_def outcome_simps dest: read_uvarint_at_bound read_blobs_bound)

definition cause_wf :: "EventRef option \<Rightarrow> bool" where
  "cause_wf c = (case c of None \<Rightarrow> True | Some r \<Rightarrow> er_actor r \<noteq> 0)"

fun record_wf :: "Record \<Rightarrow> bool" where
  "record_wf (Spawned d s a t p c) \<longleftrightarrow> a \<noteq> 0 \<and> p \<noteq> Some 0 \<and> cause_wf c"
| "record_wf (Died d s a t r c) \<longleftrightarrow> a \<noteq> 0 \<and> cause_wf c"
| "record_wf (Message d s a f t k c b) \<longleftrightarrow> a \<noteq> 0 \<and> f \<noteq> Some 0 \<and> cause_wf c"

lemma nonzero_new_wf [simp]: "nonzero_new v \<noteq> Some 0"
  by (simp add: nonzero_new_def)

lemma nonzero_new_Some_iff: "nonzero_new v = Some a \<longleftrightarrow> a = v \<and> v \<noteq> 0"
  by (auto simp: nonzero_new_def)

lemma read_cause_wf: "read_cause_at body pos = Inr (c, p) \<Longrightarrow> cause_wf c"
  by (auto simp: read_cause_at_def read_cause_def cause_wf_def outcome_simps nonzero_new_Some_iff
      split: option.splits)

lemma decode_record_wf: "decode_record oc input = Inr (r, n) \<Longrightarrow> record_wf r"
  by (auto simp: decode_record_def outcome_simps nonzero_new_Some_iff split: if_splits
      dest!: read_cause_wf)

lemma decode_records_step:
  "pos < length body \<Longrightarrow> decode_records oc body pos =
     and_then (decode_record oc (drop pos body)) (\<lambda>(r, n).
     and_then (decode_records oc body (pos + n)) (\<lambda>(rs, pos). Inr (r # rs, pos)))"
  by (simp add: decode_records.simps [of oc body pos] slice_from_Inr)

lemma decode_records_end:
  "\<not> pos < length body \<Longrightarrow> decode_records oc body pos = Inr ([], pos)"
  by (simp add: decode_records.simps [of oc body pos])

lemma decode_records_bound:
  "decode_records oc body pos = Inr (rs, p) \<Longrightarrow> fits body \<Longrightarrow> pos \<le> length body \<Longrightarrow>
     p = length body \<and> list_all record_wf rs"
proof (induction oc body pos arbitrary: rs p rule: decode_records.induct)
  case (1 oc body pos)
  show ?case
  proof (cases "pos < length body")
    case True
    with "1.prems"(1) obtain r n rs' where
        r: "decode_record oc (drop pos body) = Inr (r, n)"
      and rs': "decode_records oc body (pos + n) = Inr (rs', p)"
      and rs: "rs = r # rs'"
      by (auto simp: decode_records_step outcome_simps)
    from "1.prems"(2) have "n \<le> length (drop pos body)"
      by (intro decode_record_bound [OF r]) simp
    then have "pos + n \<le> length body" using True by simp
    from "1.IH" [OF True slice_from_Inr r refl rs' "1.prems"(2) this] decode_record_wf [OF r] rs True
    show ?thesis by simp
  next
    case False
    with "1.prems" show ?thesis by (simp add: decode_records_end)
  qed
qed

section \<open>The faults of the decoder\<close>

text \<open>
  A panic only where overflow checks are on, and any error but \<open>SegmentLengthMismatch\<close>.
\<close>

definition decode_fault :: "bool \<Rightarrow> DecodeError fault \<Rightarrow> bool" where
  "decode_fault oc f = (case f of Panic \<Rightarrow> oc | Error e \<Rightarrow> e \<noteq> SegmentLengthMismatch)"

lemma decode_fault_simps [simp]:
  "decode_fault oc Panic = oc"
  "decode_fault oc (Error e) \<longleftrightarrow> e \<noteq> SegmentLengthMismatch"
  by (simp_all add: decode_fault_def)

lemma faults_read_uvarint_at [simp]:
  "pos \<le> length body \<Longrightarrow> faults (decode_fault oc) (read_uvarint_at body pos)"
  by (auto simp: read_uvarint_at_def slice_from_Inr split: prod.splits intro!: faults_and_then)

lemma faults_read_byte_at [simp]: "faults (decode_fault oc) (read_byte_at body pos)"
  by (auto simp: read_byte_at_def intro!: faults_and_then)

lemma faults_read_bytes_at [simp]: "faults (decode_fault oc) (read_bytes_at oc body pos len)"
  by (auto simp: read_bytes_at_def intro!: faults_and_then)

lemma faults_read_cause_at [simp]:
  "pos \<le> length body \<Longrightarrow> faults (decode_fault oc) (read_cause_at body pos)"
  by (auto simp: read_cause_at_def read_cause_def slice_from_Inr split: prod.splits option.splits
      intro!: faults_and_then dest!: read_uvarint_bound)

lemma faults_decode_record [simp]:
  "fits input \<Longrightarrow> faults (decode_fault oc) (decode_record oc input)"
  unfolding decode_record_def
  by (auto split: prod.splits intro!: faults_and_then
      dest!: read_uvarint_at_bound read_byte_at_bound read_cause_at_bound)


lemma faults_read_strings:
  "fits body \<Longrightarrow> pos \<le> length body \<Longrightarrow> faults (decode_fault oc) (read_strings oc body pos count)"
proof (induction count arbitrary: pos)
  case 0
  then show ?case by simp
next
  case (Suc count)
  then show ?case
    by (auto split: prod.splits intro!: faults_and_then Suc.IH
        dest!: read_uvarint_at_bound dest: read_bytes_at_Inr(3))
qed

lemma faults_read_blobs:
  "fits body \<Longrightarrow> pos \<le> length body \<Longrightarrow> faults (decode_fault oc) (read_blobs oc body pos count)"
proof (induction count arbitrary: pos)
  case 0
  then show ?case by simp
next
  case (Suc count)
  then show ?case
    by (auto split: prod.splits intro!: faults_and_then Suc.IH
        dest!: read_uvarint_at_bound dest: read_bytes_at_Inr(3))
qed

lemma faults_read_blob_table:
  "fits body \<Longrightarrow> pos \<le> length body \<Longrightarrow> faults (decode_fault oc) (read_blob_table oc body pos)"
  by (auto simp: read_blob_table_def split: prod.splits
      intro!: faults_and_then faults_read_blobs dest!: read_uvarint_at_bound)

lemma faults_decode_records:
  "fits body \<Longrightarrow> pos \<le> length body \<Longrightarrow> oc = oc \<Longrightarrow> faults (decode_fault oc) (decode_records oc body pos)"
proof (induction oc body pos rule: decode_records.induct)
  case (1 oc body pos)
  show ?case
  proof (cases "pos < length body")
    case True
    have step: "faults (decode_fault oc) (decode_records oc body (pos + n))"
      if r: "decode_record oc (drop pos body) = Inr (r, n)" for r n
    proof -
      from "1.prems"(1) have "n \<le> length (drop pos body)"
        by (intro decode_record_bound [OF r]) simp
      then have "pos + n \<le> length body" using True by simp
      with "1.prems" show ?thesis by (intro "1.IH" [OF True slice_from_Inr r refl]) auto
    qed
    with True "1.prems" show ?thesis
      by (auto simp: decode_records_step split: prod.splits intro!: faults_and_then)
  next
    case False
    then show ?thesis by (simp add: decode_records_end)
  qed
qed


lemma decode_header_bound:
  "decode_header body = Inr (anchor, cm, ct, p) \<Longrightarrow> 0 < p \<and> p \<le> length body"
  by (auto simp: decode_header_def outcome_simps slice_nth_Some_iff dest!: read_uvarint_at_bound)

lemma faults_decode_header: "faults (decode_fault oc) (decode_header body)"
  unfolding decode_header_def
  by (auto split: prod.splits intro!: faults_and_then
      simp: outcome_simps slice_nth_Some_iff Suc_le_eq dest!: read_uvarint_at_bound)

lemma decode_tables_bound:
  assumes "decode_tables oc body pos = Inr (ss, its, scs, p)" "fits body"
  shows "pos < p" "p \<le> length body" "list_all utf8_valid ss"
proof -
  from assms(1) obtain count p1 p2 p3 where
      c: "read_uvarint_at body pos = Inr (count, p1)"
    and ss: "read_strings oc body p1 (unat count) = Inr (ss, p2)"
    and its: "read_blob_table oc body p2 = Inr (its, p3)"
    and scs: "read_blob_table oc body p3 = Inr (scs, p)"
    by (auto simp: decode_tables_def outcome_simps)
  from c have "pos < p1" "p1 \<le> length body" by auto
  with read_strings_bound [OF assms(2) ss] read_blob_table_bound [OF its assms(2)]
    read_blob_table_bound [OF scs assms(2)]
  show "pos < p" "p \<le> length body" "list_all utf8_valid ss" by auto
qed

lemma faults_decode_tables:
  assumes "fits body" "pos \<le> length body"
  shows "faults (decode_fault oc) (decode_tables oc body pos)"
  unfolding decode_tables_def
  using assms
  by (auto split: prod.splits intro!: faults_and_then faults_read_strings
      faults_read_blob_table dest!: read_uvarint_at_bound read_strings_bound [OF assms(1)]
      read_blob_table_bound)

lemma faults_decode_body:
  assumes "fits body"
  shows "faults (decode_fault oc) (decode_body oc body)"
  unfolding decode_body_def
  using assms
  by (auto split: prod.splits intro!: faults_and_then faults_decode_header faults_decode_tables
      faults_decode_records dest: decode_header_bound decode_tables_bound(2) decode_records_bound)

lemma faults_decode_segment:
  assumes "fits input"
  shows "faults (decode_fault oc) (decode_segment oc input)"
proof -
  have "faults (decode_fault oc) (decode_body oc body)"
    if "slice_range input 4 n = Some body" for n body
    using that assms by (intro faults_decode_body) (rule slice_range_fits)
  then show ?thesis
    by (auto simp: decode_segment_def Let_def outcome_simps intro!: faults_and_then)
qed

section \<open>What a successful decode says\<close>

definition segment_wf :: "Segment \<Rightarrow> bool" where
  "segment_wf seg \<longleftrightarrow> list_all record_wf (sg_records seg) \<and> list_all utf8_valid (sg_strings seg)"

lemma decode_body_Inr:
  assumes "decode_body oc body = Inr seg" "fits body"
  shows "segment_wf seg" "0 < length body"
proof -
  from assms(1) obtain anchor cm ct p ss its scs q rs where
      h: "decode_header body = Inr (anchor, cm, ct, p)"
    and t: "decode_tables oc body p = Inr (ss, its, scs, q)"
    and r: "decode_records oc body q = Inr (rs, length body)"
    and seg: "sg_strings seg = ss" "sg_records seg = rs"
    by (auto simp: decode_body_def outcome_simps split: if_splits)
  from decode_tables_bound [OF t assms(2)] decode_records_bound [OF r assms(2)]
    decode_header_bound [OF h] seg
  show "segment_wf seg" "0 < length body" by (auto simp: segment_wf_def)
qed

lemma decode_segment_Inr:
  assumes "decode_segment oc input = Inr (seg, n)" "fits input"
  shows "segment_wf seg" "n \<le> length input" "4 < n"
    "n = 4 + unat (from_le_bytes_u32 (take 4 input))"
proof -
  from assms(1) obtain body where
      n: "n = 4 + unat (from_le_bytes_u32 (take 4 input))"
    and body: "slice_range input 4 n = Some body"
    and d: "decode_body oc body = Inr seg"
    by (auto simp: decode_segment_def Let_def outcome_simps slice_range_Some_iff)
  from body assms(2) have "fits body" by (rule slice_range_fits)
  from decode_body_Inr [OF d this] body
  show "segment_wf seg" "n \<le> length input" "4 < n" by (auto simp: slice_range_Some_iff)
  show "n = 4 + unat (from_le_bytes_u32 (take 4 input))" by (rule n)
qed

text \<open>
  A segment decodes standalone: the bytes after the ones it declares are not looked at.
\<close>

lemma decode_segment_take:
  assumes "decode_segment oc input = Inr (seg, n)"
  shows "decode_segment oc (take n input @ rest) = Inr (seg, n)"
proof -
  from assms obtain body where
      n: "n = 4 + unat (from_le_bytes_u32 (take 4 input))"
    and body: "slice_range input 4 n = Some body"
    and d: "decode_body oc body = Inr seg"
    by (auto simp: decode_segment_def Let_def outcome_simps slice_range_Some_iff)
  have "take 4 (take n input @ rest) = take 4 input" "4 \<le> n" "n \<le> length input"
    using n body by (auto simp: slice_range_Some_iff)
  moreover have "slice_range (take n input @ rest) 4 n = Some body"
    using body by (auto simp: slice_range_Some_iff drop_take)
  ultimately show ?thesis using n d
    by (auto simp: decode_segment_def Let_def outcome_simps slice_range_def)
qed

end
