(* ===== verification/Segment_Roundtrip.thy ===== *)
theory Segment_Roundtrip
  imports Segment_Safety
begin

text \<open>
  The round trip of segments: whatever sequence of \<open>spawned\<close>, \<open>died\<close>, \<open>message\<close> and intern
  calls builds a segment, decoding what \<open>finish\<close> returns gives back the anchor, the close
  readings, the tables and exactly the records of the calls.
\<close>

section \<open>The bytes of one record\<close>

fun record_bytes :: "Record \<Rightarrow> u8 list" where
  "record_bytes (Spawned d s a t p c) =
     [TAG_SPAWNED] @ write_uvarint d @ write_uvarint s @ write_uvarint a @
     write_uvarint (ucast t) @ write_uvarint (map_or_zero p) @ write_cause c"
| "record_bytes (Died d s a t r c) =
     [TAG_DIED] @ write_uvarint d @ write_uvarint s @ write_uvarint a @
     write_uvarint (ucast t) @ [r] @ write_cause c"
| "record_bytes (Message d s a f t k c b) =
     [TAG_MESSAGE] @ write_uvarint d @ write_uvarint s @ write_uvarint a @
     write_uvarint (map_or_zero f) @ write_uvarint (ucast t) @ [k] @ write_cause c @
     write_uvarint (of_nat (length b)) @ b"

lemma nonzero_new_map_or_zero [simp]: "x \<noteq> Some 0 \<Longrightarrow> nonzero_new (map_or_zero x) = x"
  by (cases x) (auto simp: nonzero_new_def map_or_zero_def)

lemma nonzero_new_nonzero [simp]: "v \<noteq> 0 \<Longrightarrow> nonzero_new v = Some v" "nonzero_new 0 = None"
  by (simp_all add: nonzero_new_def)

lemma ucast_u32_u64 [simp]: "ucast (ucast (t :: u32) :: u64) = t"
  by (rule bit_word_eqI) (auto simp: bit_simps)

lemma read_write_cause [simp]:
  "cause_wf c \<Longrightarrow> read_cause (write_cause c @ rest) = Inr (c, length (write_cause c))"
  by (cases c) (auto simp: read_cause_def cause_wf_def read_uvarint_at_def slice_from_def)

lemma unat_of_nat_u64 [simp]: "n < 2 ^ 64 \<Longrightarrow> unat (of_nat n :: u64) = n"
  by (simp add: unat_of_nat take_bit_nat_eq_self)

lemma tags_distinct [simp]:
  "TAG_DIED \<noteq> TAG_SPAWNED" "TAG_MESSAGE \<noteq> TAG_SPAWNED" "TAG_MESSAGE \<noteq> TAG_DIED"
  by (simp_all add: TAG_SPAWNED_def TAG_DIED_def TAG_MESSAGE_def)

lemma decode_record_bytes:
  assumes "record_wf r" "fits (record_bytes r)"
  shows "decode_record oc (record_bytes r @ rest) = Inr (r, length (record_bytes r))"
  using assms
  by (cases r) (auto simp: decode_record_def read_uvarint_at_def read_byte_at_def read_bytes_at_def
      read_cause_at_def slice_from_def slice_nth_def slice_range_def fits_def nth_append)

interpretation cause: prefix_codec cause_wf write_cause read_cause
  by unfold_locales simp

interpretation wire_record: prefix_codec "\<lambda>r. record_wf r \<and> fits (record_bytes r)"
    record_bytes "decode_record oc" for oc
  by unfold_locales (simp add: decode_record_bytes)

section \<open>Reading the tables and the records back\<close>

text \<open>
  The \<open>body\<close> is what precedes the table, the table, and what follows; the position is where the
  table starts.
\<close>

lemma read_uvarint_at_write [simp]:
  "read_uvarint_at (pre @ write_uvarint v @ rest) (length pre) =
     Inr (v, length (pre @ write_uvarint v))"
  by (simp add: read_uvarint_at_def slice_from_def)

lemma read_bytes_at_here:
  assumes "fits (pre @ bs @ rest)" "unat len = length bs"
  shows "read_bytes_at oc (pre @ bs @ rest) (length pre) len = Inr (bs, length (pre @ bs))"
  using assms by (simp add: read_bytes_at_def fits_def slice_range_def)

lemma entry_read:
  assumes "fits (pre @ write_blob b @ rest)"
  shows "read_uvarint_at (pre @ write_blob b @ rest) (length pre) =
      Inr (of_nat (length b), length (pre @ write_uvarint (of_nat (length b))))"
    and "read_bytes_at oc (pre @ write_blob b @ rest)
      (length (pre @ write_uvarint (of_nat (length b)))) (of_nat (length b)) =
      Inr (b, length (pre @ write_blob b))"
proof -
  show "read_uvarint_at (pre @ write_blob b @ rest) (length pre) =
      Inr (of_nat (length b), length (pre @ write_uvarint (of_nat (length b))))"
    by (simp add: write_blob_def)
  have "length b < 2 ^ 64" using assms by (simp add: fits_def write_blob_def)
  with read_bytes_at_here [of "pre @ write_uvarint (of_nat (length b))" b rest "of_nat (length b)" oc]
    assms
  show "read_bytes_at oc (pre @ write_blob b @ rest)
      (length (pre @ write_uvarint (of_nat (length b)))) (of_nat (length b)) =
      Inr (b, length (pre @ write_blob b))"
    by (simp add: write_blob_def)
qed

lemma read_strings_write:
  "list_all utf8_valid ss \<Longrightarrow> fits (pre @ concat (map write_blob ss) @ rest) \<Longrightarrow>
     read_strings oc (pre @ concat (map write_blob ss) @ rest) (length pre) (length ss) =
       Inr (ss, length (pre @ concat (map write_blob ss)))"
proof (induction ss arbitrary: pre)
  case Nil
  then show ?case by simp
next
  case (Cons s ss)
  have f: "fits (pre @ write_blob s @ concat (map write_blob ss) @ rest)"
    using Cons.prems(2) by simp
  with Cons.IH [of "pre @ write_blob s"] Cons.prems(1) entry_read [OF f]
  show ?case by simp
qed

lemma read_blobs_write:
  "fits (pre @ concat (map write_blob bs) @ rest) \<Longrightarrow>
     read_blobs oc (pre @ concat (map write_blob bs) @ rest) (length pre) (length bs) =
       Inr (bs, length (pre @ concat (map write_blob bs)))"
proof (induction bs arbitrary: pre)
  case Nil
  then show ?case by simp
next
  case (Cons b bs)
  have f: "fits (pre @ write_blob b @ concat (map write_blob bs) @ rest)"
    using Cons.prems by simp
  with Cons.IH [of "pre @ write_blob b"] entry_read [OF f]
  show ?case by simp
qed

lemma length_le_concat_blobs: "length bs \<le> length (concat (map write_blob bs))"
proof (induction bs)
  case Nil
  then show ?case by simp
next
  case (Cons b bs)
  have "0 < length (write_uvarint (of_nat (length b)))" by (rule length_write_uvarint)
  with Cons show ?case by (auto simp: write_blob_def neq_Nil_conv)
qed

lemma unat_count:
  assumes "fits (pre @ concat (map write_blob bs) @ rest)"
  shows "unat (of_nat (length bs) :: u64) = length bs"
  using assms length_le_concat_blobs [of bs] by (simp add: fits_def)

lemma read_blob_table_write:
  assumes "fits (pre @ write_blob_table bs @ rest)"
  shows "read_blob_table oc (pre @ write_blob_table bs @ rest) (length pre) =
    Inr (bs, length (pre @ write_blob_table bs))"
proof -
  let ?pre = "pre @ write_uvarint (of_nat (length bs))"
  from assms have f: "fits (?pre @ concat (map write_blob bs) @ rest)"
    by (simp add: write_blob_table_def)
  from read_blobs_write [OF f] unat_count [OF f] show ?thesis
    by (simp add: read_blob_table_def write_blob_table_def)
qed

lemma length_record_bytes: "0 < length (record_bytes r)"
  by (cases r) auto

lemma decode_records_write:
  "list_all record_wf rs \<Longrightarrow> fits (pre @ concat (map record_bytes rs)) \<Longrightarrow>
     decode_records oc (pre @ concat (map record_bytes rs)) (length pre) =
       Inr (rs, length (pre @ concat (map record_bytes rs)))"
proof (induction rs arbitrary: pre)
  case Nil
  then show ?case by (simp add: decode_records_end)
next
  case (Cons r rs)
  have "fits (record_bytes r)" using Cons.prems(2) by (simp add: fits_def)
  with Cons.prems(1)
  have "decode_record oc (record_bytes r @ concat (map record_bytes rs)) =
      Inr (r, length (record_bytes r))"
    by (intro decode_record_bytes) simp_all
  moreover have "decode_records oc ((pre @ record_bytes r) @ concat (map record_bytes rs))
      (length (pre @ record_bytes r)) =
      Inr (rs, length ((pre @ record_bytes r) @ concat (map record_bytes rs)))"
    using Cons.prems by (intro Cons.IH) simp_all
  ultimately show ?case
    using length_record_bytes [of r] by (subst decode_records_step) simp_all
qed

section \<open>Framing\<close>

text \<open>A bit of a 32-bit word is in one of its four bytes.\<close>

lemma byte_index: "(n::nat) < 32 \<Longrightarrow> (n < 8) \<or> (8 \<le> n \<and> n - 8 < 8) \<or> (16 \<le> n \<and> n - 16 < 8) \<or> (24 \<le> n \<and> n - 24 < 8)"
  by linarith
lemma le_bytes_roundtrip [simp]: "from_le_bytes_u32 (le_bytes_u32 w) = w"
proof (rule bit_word_eqI)
  fix n assume "n < LENGTH(32)"
  then have n: "n < 8 \<or> (8 \<le> n \<and> n - 8 < 8) \<or> (16 \<le> n \<and> n - 16 < 8) \<or> (24 \<le> n \<and> n - 24 < 8)"
    by (intro byte_index) simp
  have less: "n - 8 < 32" "n - 16 < 32" "n - 24 < 32" using \<open>n < LENGTH(32)\<close> by auto
  have "bit (from_le_bytes_u32 (le_bytes_u32 w)) n \<longleftrightarrow>
      n < 8 \<and> bit w n \<or> 8 \<le> n \<and> n - 8 < 8 \<and> bit w n \<or> 16 \<le> n \<and> n - 16 < 8 \<and> bit w n \<or>
      24 \<le> n \<and> n - 24 < 8 \<and> bit w n"
    using \<open>n < LENGTH(32)\<close> less
    by (simp add: from_le_bytes_u32_def le_bytes_u32_def bit_simps cong: conj_cong)
  also have "\<dots> \<longleftrightarrow> bit w n" using n by blast
  finally show "bit (from_le_bytes_u32 (le_bytes_u32 w)) n = bit w n" .
qed
lemma from_to_tag [simp]: "from_tag (to_tag m) = Some m"
  by (cases m) (simp_all add: from_tag_def)

lemma decode_header_write:
  "decode_header ([to_tag (sa_mode a)] @ write_uvarint (sa_unix_micros a) @
     write_uvarint (sa_mono_micros a) @ write_uvarint (sa_tick a) @ write_uvarint cm @
     write_uvarint ct @ rest) =
   Inr (a, cm, ct, length ([to_tag (sa_mode a)] @ write_uvarint (sa_unix_micros a) @
     write_uvarint (sa_mono_micros a) @ write_uvarint (sa_tick a) @ write_uvarint cm @
     write_uvarint ct))"
  by (simp add: decode_header_def slice_nth_def read_uvarint_at_def slice_from_def)

lemma decode_tables_write:
  assumes "list_all utf8_valid ss"
    and "fits (pre @ write_blob_table ss @ write_blob_table its @ write_blob_table scs @ rest)"
  shows "decode_tables oc
      (pre @ write_blob_table ss @ write_blob_table its @ write_blob_table scs @ rest) (length pre) =
    Inr (ss, its, scs,
      length (pre @ write_blob_table ss @ write_blob_table its @ write_blob_table scs))"
proof -
  let ?c = "write_uvarint (of_nat (length ss))"
  let ?body = "pre @ write_blob_table ss @ write_blob_table its @ write_blob_table scs @ rest"
  have eq: "?body = (pre @ ?c) @ concat (map write_blob ss) @ write_blob_table its @
      write_blob_table scs @ rest"
    by (simp add: write_blob_table_def)
  have "read_uvarint_at ?body (length pre) = Inr (of_nat (length ss), length (pre @ ?c))"
    by (simp add: write_blob_table_def)
  moreover from assms have "read_strings oc ?body (length (pre @ ?c)) (length ss) =
      Inr (ss, length (pre @ write_blob_table ss))"
    unfolding eq by (subst read_strings_write) (simp_all add: write_blob_table_def)
  moreover from assms(2) have "unat (of_nat (length ss) :: u64) = length ss"
    unfolding eq by (rule unat_count)
  moreover have "read_blob_table oc ?body (length (pre @ write_blob_table ss)) =
      Inr (its, length (pre @ write_blob_table ss @ write_blob_table its))"
    using read_blob_table_write [of "pre @ write_blob_table ss" its "write_blob_table scs @ rest"]
      assms(2) by simp
  moreover have "read_blob_table oc ?body (length (pre @ write_blob_table ss @ write_blob_table its)) =
      Inr (scs, length (pre @ write_blob_table ss @ write_blob_table its @ write_blob_table scs))"
    using read_blob_table_write [of "pre @ write_blob_table ss @ write_blob_table its" scs rest]
      assms(2) by simp
  ultimately show ?thesis by (simp add: decode_tables_def)
qed


section \<open>Sequences of encoder calls\<close>

text \<open>
  One call of the encoder; the type of an actor or message is its name. A decoded record says
  the same with the tick delta in place of the tick, once its type index is resolved in the
  string table: \<open>resolve\<close>.
\<close>

datatype EncoderCall =
    CallSpawned u64 u64 nz_u64 rust_str "nz_u64 option" "EventRef option"
  | CallDied u64 u64 nz_u64 rust_str u8 "EventRef option"
  | CallMessage u64 u64 nz_u64 "nz_u64 option" rust_str u8 "EventRef option" blob

fun apply_call :: "EncoderCall \<Rightarrow> SegmentEncoder \<Rightarrow> SegmentEncoder" where
  "apply_call (CallSpawned tick s a t p c) e = spawned e tick s a t p c"
| "apply_call (CallDied tick s a t r c) e = died e tick s a t r c"
| "apply_call (CallMessage tick s a f t k c b) e = message e tick s a f t k c b"

fun call_wf :: "EncoderCall \<Rightarrow> bool" where
  "call_wf (CallSpawned tick s a t p c) \<longleftrightarrow> a \<noteq> 0 \<and> p \<noteq> Some 0 \<and> cause_wf c \<and> utf8_valid t"
| "call_wf (CallDied tick s a t r c) \<longleftrightarrow> a \<noteq> 0 \<and> cause_wf c \<and> utf8_valid t"
| "call_wf (CallMessage tick s a f t k c b) \<longleftrightarrow>
     a \<noteq> 0 \<and> f \<noteq> Some 0 \<and> cause_wf c \<and> utf8_valid t"

fun call_tick :: "EncoderCall \<Rightarrow> u64" where
  "call_tick (CallSpawned tick s a t p c) = tick"
| "call_tick (CallDied tick s a t r c) = tick"
| "call_tick (CallMessage tick s a f t k c b) = tick"

fun with_tick :: "u64 \<Rightarrow> EncoderCall \<Rightarrow> EncoderCall" where
  "with_tick tick' (CallSpawned tick s a t p c) = CallSpawned tick' s a t p c"
| "with_tick tick' (CallDied tick s a t r c) = CallDied tick' s a t r c"
| "with_tick tick' (CallMessage tick s a f t k c b) = CallMessage tick' s a f t k c b"

fun call_name :: "EncoderCall \<Rightarrow> rust_str" where
  "call_name (CallSpawned tick s a t p c) = t"
| "call_name (CallDied tick s a t r c) = t"
| "call_name (CallMessage tick s a f t k c b) = t"

fun resolve :: "rust_str list \<Rightarrow> Record \<Rightarrow> EncoderCall" where
  "resolve ss (Spawned d s a t p c) = CallSpawned d s a (ss ! unat t) p c"
| "resolve ss (Died d s a t r c) = CallDied d s a (ss ! unat t) r c"
| "resolve ss (Message d s a f t k c b) = CallMessage d s a f (ss ! unat t) k c b"

fun rec_type :: "Record \<Rightarrow> u32" where
  "rec_type (Spawned d s a t p c) = t"
| "rec_type (Died d s a t r c) = t"
| "rec_type (Message d s a f t k c b) = t"

text \<open>What the records of a run say: each call with its tick turned into the saturating delta.\<close>

fun deltas :: "u64 \<Rightarrow> EncoderCall list \<Rightarrow> EncoderCall list" where
  "deltas prev [] = []"
| "deltas prev (c # cs) =
     with_tick (saturating_sub (call_tick c) prev) c # deltas (call_tick c) cs"

fun last_tick :: "u64 \<Rightarrow> EncoderCall list \<Rightarrow> u64" where
  "last_tick prev [] = prev"
| "last_tick prev (c # cs) = last_tick (call_tick c) cs"

lemma deltas_snoc [simp]:
  "deltas prev (cs @ [c]) =
     deltas prev cs @ [with_tick (saturating_sub (call_tick c) (last_tick prev cs)) c]"
  by (induction cs arbitrary: prev) auto

lemma last_tick_snoc [simp]: "last_tick prev (cs @ [c]) = call_tick c"
  by (induction cs arbitrary: prev) auto

text \<open>
  The operations on one encoder between its creation and \<open>finish\<close>: record calls, and the
  interning of interpretations and schemas.
\<close>

datatype EncoderOp = Call EncoderCall | InternInterpretation blob | InternSchema blob

fun apply_op :: "EncoderOp \<Rightarrow> SegmentEncoder \<Rightarrow> SegmentEncoder" where
  "apply_op (Call c) e = apply_call c e"
| "apply_op (InternInterpretation b) e = snd (intern_interpretation e b)"
| "apply_op (InternSchema b) e = snd (intern_schema e b)"

definition run_ops :: "EncoderOp list \<Rightarrow> SegmentEncoder \<Rightarrow> SegmentEncoder" where
  "run_ops ops e = fold apply_op ops e"

fun ops_calls :: "EncoderOp list \<Rightarrow> EncoderCall list" where
  "ops_calls [] = []"
| "ops_calls (Call c # ops) = c # ops_calls ops"
| "ops_calls (_ # ops) = ops_calls ops"

fun op_wf :: "EncoderOp \<Rightarrow> bool" where
  "op_wf (Call c) = call_wf c"
| "op_wf _ = True"

lemma ops_calls_append [simp]: "ops_calls (ops @ ops') = ops_calls ops @ ops_calls ops'"
  by (induction ops rule: ops_calls.induct) auto

lemma run_ops_snoc [simp]:
  "run_ops [] e = e" "run_ops (ops @ [op]) e = apply_op op (run_ops ops e)"
  by (simp_all add: run_ops_def)

section \<open>Interning\<close>

lemma unat_of_nat_u32: "n < 2 ^ 32 \<Longrightarrow> unat (of_nat n :: u32) = n"
  by (simp add: unat_of_nat take_bit_nat_eq_self)

lemma intern_strings:
  "se_strings (snd (intern e name)) =
     (if name \<in> set (se_strings e) then se_strings e else se_strings e @ [name])"
  by (auto simp: intern_def position_None_iff split: option.splits dest: position_Some)

lemma intern_other_fields [simp]:
  "se_anchor (snd (intern e name)) = se_anchor e"
  "se_last_tick (snd (intern e name)) = se_last_tick e"
  "se_interpretations (snd (intern e name)) = se_interpretations e"
  "se_schemas (snd (intern e name)) = se_schemas e"
  "se_records (snd (intern e name)) = se_records e"
  by (auto simp: intern_def split: option.splits)

lemma intern_index:
  assumes "length (se_strings (snd (intern e name))) \<le> 2 ^ 32"
  shows "unat (fst (intern e name)) < length (se_strings (snd (intern e name)))"
    "se_strings (snd (intern e name)) ! unat (fst (intern e name)) = name"
proof -
  consider (old) i where "position (\<lambda>x. x = name) (se_strings e) = Some i"
    | (new) "position (\<lambda>x. x = name) (se_strings e) = None"
    by (cases "position (\<lambda>x. x = name) (se_strings e)") auto
  then have "unat (fst (intern e name)) < length (se_strings (snd (intern e name))) \<and>
    se_strings (snd (intern e name)) ! unat (fst (intern e name)) = name"
  proof cases
    case old
    from position_Some [OF old] assms have "unat (of_nat i :: u32) = i"
      by (intro unat_of_nat_u32) (simp add: intern_def old)
    with old position_Some [OF old] show ?thesis by (simp add: intern_def)
  next
    case new
    with assms have "unat (of_nat (length (se_strings e)) :: u32) = length (se_strings e)"
      by (intro unat_of_nat_u32) (simp add: intern_def)
    with new show ?thesis by (simp add: intern_def)
  qed
  then show "unat (fst (intern e name)) < length (se_strings (snd (intern e name)))"
    "se_strings (snd (intern e name)) ! unat (fst (intern e name)) = name"
    by simp_all
qed

lemma intern_blob_table:
  "snd (intern_blob table b) = (if b \<in> set table then table else table @ [b])"
  by (auto simp: intern_blob_def position_None_iff split: option.splits dest: position_Some)


section \<open>The record a call appends\<close>

fun emitted :: "SegmentEncoder \<Rightarrow> EncoderCall \<Rightarrow> Record" where
  "emitted e (CallSpawned tick s a t p c) =
     Spawned (saturating_sub tick (se_last_tick e)) s a (fst (intern e t)) p c"
| "emitted e (CallDied tick s a t r c) =
     Died (saturating_sub tick (se_last_tick e)) s a (fst (intern e t)) r c"
| "emitted e (CallMessage tick s a f t k c b) =
     Message (saturating_sub tick (se_last_tick e)) s a f (fst (intern e t)) k c b"

lemma intern_after_tick [simp]:
  "intern (e\<lparr>se_last_tick := tick\<rparr>) name =
     (fst (intern e name), (snd (intern e name))\<lparr>se_last_tick := tick\<rparr>)"
  by (auto simp: intern_def split: option.splits)

lemma apply_call_fields:
  "se_records (apply_call c e) = se_records e @ record_bytes (emitted e c)"
  "se_strings (apply_call c e) = se_strings (snd (intern e (call_name c)))"
  "se_last_tick (apply_call c e) = call_tick c"
  "se_anchor (apply_call c e) = se_anchor e"
  "se_interpretations (apply_call c e) = se_interpretations e"
  "se_schemas (apply_call c e) = se_schemas e"
  by (cases c; simp add: spawned_def died_def message_def delta_def)+

lemma apply_op_intern_fields:
  "apply_op (InternInterpretation b) e =
     e\<lparr>se_interpretations := snd (intern_blob (se_interpretations e) b)\<rparr>"
  "apply_op (InternSchema b) e = e\<lparr>se_schemas := snd (intern_blob (se_schemas e) b)\<rparr>"
  by (simp_all add: intern_interpretation_def intern_schema_def case_prod_beta Let_def)

lemma emitted_wf: "call_wf c \<Longrightarrow> record_wf (emitted e c)"
  by (cases c) auto

text \<open>The string table only grows, so an index handed out stays good.\<close>

lemma strings_grow: "\<exists>ext. se_strings (apply_op op e) = se_strings e @ ext"
  by (cases op) (auto simp: apply_call_fields apply_op_intern_fields intern_strings
      simp del: apply_op.simps(2,3))

lemma rec_type_emitted: "rec_type (emitted e c) = fst (intern e (call_name c))"
  by (cases c) auto

lemma resolve_emitted:
  assumes "length (se_strings (apply_call c e)) \<le> 2 ^ 32"
  shows "unat (rec_type (emitted e c)) < length (se_strings (apply_call c e))"
    "resolve (se_strings (apply_call c e)) (emitted e c) =
       with_tick (saturating_sub (call_tick c) (se_last_tick e)) c"
proof -
  have "length (se_strings (snd (intern e (call_name c)))) \<le> 2 ^ 32"
    using assms by (simp add: apply_call_fields)
  note i = intern_index [OF this]
  from i(1) show "unat (rec_type (emitted e c)) < length (se_strings (apply_call c e))"
    by (simp add: rec_type_emitted apply_call_fields)
  from i(2) show "resolve (se_strings (apply_call c e)) (emitted e c) =
       with_tick (saturating_sub (call_tick c) (se_last_tick e)) c"
    unfolding apply_call_fields(2) by (cases c) simp_all
qed

lemma resolve_grow: "unat (rec_type r) < length ss \<Longrightarrow> resolve (ss @ ext) r = resolve ss r"
  by (cases r) (simp_all add: nth_append)

section \<open>The encoder's invariant\<close>

text \<open>
  What holds of an encoder after the operations \<open>ops\<close>: its record bytes are those of records
  \<open>rs\<close>, which resolve to the calls made.
\<close>

definition encodes :: "SegmentAnchor \<Rightarrow> EncoderOp list \<Rightarrow> Record list \<Rightarrow> SegmentEncoder \<Rightarrow> bool" where
  "encodes a ops rs e \<longleftrightarrow>
     se_anchor e = a \<and>
     se_last_tick e = last_tick (sa_tick a) (ops_calls ops) \<and>
     se_records e = concat (map record_bytes rs) \<and>
     map (resolve (se_strings e)) rs = deltas (sa_tick a) (ops_calls ops) \<and>
     list_all record_wf rs \<and>
     list_all (\<lambda>r. unat (rec_type r) < length (se_strings e)) rs"

definition tables_ok :: "EncoderOp list \<Rightarrow> SegmentEncoder \<Rightarrow> bool" where
  "tables_ok ops e \<longleftrightarrow>
     distinct (se_strings e) \<and> list_all utf8_valid (se_strings e) \<and>
     set (se_strings e) = call_name ` set (ops_calls ops) \<and>
     distinct (se_interpretations e) \<and>
     set (se_interpretations e) = {b. InternInterpretation b \<in> set ops} \<and>
     distinct (se_schemas e) \<and>
     set (se_schemas e) = {b. InternSchema b \<in> set ops}"

lemma call_wf_name: "call_wf c \<Longrightarrow> utf8_valid (call_name c)"
  by (cases c) auto

lemma tables_ok_run: "list_all op_wf ops \<Longrightarrow> tables_ok ops (run_ops ops (encoder_new a))"
proof (induction ops rule: rev_induct)
  case Nil
  then show ?case by (simp add: tables_ok_def encoder_new_def)
next
  case (snoc op ops)
  then have "tables_ok ops (run_ops ops (encoder_new a))" "op_wf op" by simp_all
  then show ?case
    by (cases op) (auto simp: tables_ok_def apply_call_fields apply_op_intern_fields intern_strings
        intern_blob_table call_wf_name simp del: apply_op.simps(2,3))
qed

lemma encodes_step_call:
  assumes "encodes a ops rs e" "call_wf c" "length (se_strings (apply_call c e)) \<le> 2 ^ 32"
  shows "encodes a (ops @ [Call c]) (rs @ [emitted e c]) (apply_call c e)"
proof -
  obtain ext where ext: "se_strings (apply_call c e) = se_strings e @ ext"
    using strings_grow [of "Call c" e] by auto
  have "\<forall>r \<in> set rs. unat (rec_type r) < length (se_strings e)"
    using assms(1) by (simp add: encodes_def list_all_iff)
  then have "map (resolve (se_strings e)) rs = map (resolve (se_strings (apply_call c e))) rs"
    by (simp add: ext resolve_grow)
  then have "map (resolve (se_strings (apply_call c e))) rs = deltas (sa_tick a) (ops_calls ops)"
    using assms(1) unfolding encodes_def by argo
  moreover have "list_all (\<lambda>r. unat (rec_type r) < length (se_strings (apply_call c e))) rs"
    using assms(1) by (auto simp: ext encodes_def list_all_iff)
  ultimately show ?thesis
    using assms(1) resolve_emitted [OF assms(3)] emitted_wf [OF assms(2)]
    by (simp add: encodes_def apply_call_fields(1,3,4))
qed

lemma encodes_run:
  "list_all op_wf ops \<Longrightarrow> length (se_strings (run_ops ops (encoder_new a))) \<le> 2 ^ 32 \<Longrightarrow>
     \<exists>rs. encodes a ops rs (run_ops ops (encoder_new a))"
proof (induction ops rule: rev_induct)
  case Nil
  then show ?case by (simp add: encodes_def encoder_new_def)
next
  case (snoc op ops)
  let ?e = "run_ops ops (encoder_new a)"
  obtain ext where "se_strings (apply_op op ?e) = se_strings ?e @ ext"
    using strings_grow by blast
  with snoc.prems have "length (se_strings ?e) \<le> 2 ^ 32" by simp
  with snoc obtain rs where rs: "encodes a ops rs ?e" by auto
  show ?case
  proof (cases op)
    case (Call c)
    with encodes_step_call [OF rs, of c] snoc.prems show ?thesis by auto
  qed (use rs in \<open>auto simp: encodes_def apply_op_intern_fields simp del: apply_op.simps(2,3)\<close>)
qed

section \<open>Decoding what the encoder built\<close>

definition decodes_to :: "SegmentAnchor \<Rightarrow> EncoderOp list \<Rightarrow> u64 \<Rightarrow> u64 \<Rightarrow> Segment \<Rightarrow> bool" where
  "decodes_to a ops cm ct seg \<longleftrightarrow>
     sg_anchor seg = a \<and> sg_close_mono_micros seg = cm \<and> sg_close_tick seg = ct \<and>
     map (resolve (sg_strings seg)) (sg_records seg) = deltas (sa_tick a) (ops_calls ops) \<and>
     list_all (\<lambda>r. unat (rec_type r) < length (sg_strings seg)) (sg_records seg) \<and>
     distinct (sg_strings seg) \<and> set (sg_strings seg) = call_name ` set (ops_calls ops) \<and>
     distinct (sg_interpretations seg) \<and>
     set (sg_interpretations seg) = {b. InternInterpretation b \<in> set ops} \<and>
     distinct (sg_schemas seg) \<and> set (sg_schemas seg) = {b. InternSchema b \<in> set ops}"

lemma write_blob_table_strings:
  "write_uvarint (of_nat (length ss)) @ concat (map (\<lambda>s. write_uvarint (of_nat (length s)) @ s) ss) =
   write_blob_table ss"
  by (simp add: write_blob_table_def write_blob_def [abs_def])

lemma decode_segment_body:
  assumes "encodes a ops rs e" "tables_ok ops e" "fits (segment_body e cm ct)"
  shows "\<exists>seg. decode_body oc (segment_body e cm ct) = Inr seg \<and> decodes_to a ops cm ct seg"
proof -
  let ?h = "[to_tag (sa_mode a)] @ write_uvarint (sa_unix_micros a) @
     write_uvarint (sa_mono_micros a) @ write_uvarint (sa_tick a) @ write_uvarint cm @
     write_uvarint ct"
  let ?s = "write_blob_table (se_strings e)" and ?i = "write_blob_table (se_interpretations e)"
    and ?c = "write_blob_table (se_schemas e)" and ?r = "concat (map record_bytes rs)"
  have body: "segment_body e cm ct = ?h @ ?s @ ?i @ ?c @ ?r"
    using assms(1) write_blob_table_strings [of "se_strings e"]
    by (simp add: segment_body_def encodes_def)
  have h: "decode_header (segment_body e cm ct) = Inr (a, cm, ct, length ?h)"
    unfolding body using decode_header_write [of a cm ct "?s @ ?i @ ?c @ ?r"] by simp
  have t: "decode_tables oc (segment_body e cm ct) (length ?h) =
      Inr (se_strings e, se_interpretations e, se_schemas e, length (?h @ ?s @ ?i @ ?c))"
    using assms(2,3) unfolding body by (intro decode_tables_write) (simp_all add: tables_ok_def)
  have r: "decode_records oc (segment_body e cm ct) (length (?h @ ?s @ ?i @ ?c)) =
      Inr (rs, length (segment_body e cm ct))"
    using decode_records_write [of rs "?h @ ?s @ ?i @ ?c" oc] assms(1,3) unfolding body
    by (simp add: encodes_def)
  from h t r assms(1,2) show ?thesis
    by (auto simp: decode_body_def decodes_to_def encodes_def tables_ok_def)
qed

lemma decode_finish:
  assumes "list_all op_wf ops"
    and "length (segment_body (run_ops ops (encoder_new a)) cm ct) < 2 ^ 32"
  shows "\<exists>seg. decode_segment oc (finish (run_ops ops (encoder_new a)) cm ct @ rest) =
      Inr (seg, length (finish (run_ops ops (encoder_new a)) cm ct)) \<and> decodes_to a ops cm ct seg"
proof -
  let ?e = "run_ops ops (encoder_new a)" and ?b = "segment_body (run_ops ops (encoder_new a)) cm ct"
  have "length (se_strings ?e) \<le> length (concat (map write_blob (se_strings ?e)))"
    by (rule length_le_concat_blobs)
  also have "\<dots> \<le> length ?b"
    by (simp add: segment_body_def write_blob_def [abs_def])
  finally have "length (se_strings ?e) \<le> 2 ^ 32" using assms(2) by simp
  with assms(1) obtain rs where "encodes a ops rs ?e" using encodes_run by blast
  from decode_segment_body [OF this tables_ok_run [OF assms(1)], of cm ct oc] assms(2)
  obtain seg where seg: "decode_body oc ?b = Inr seg" "decodes_to a ops cm ct seg"
    by (auto simp: fits_def)
  have "slice_range (finish ?e cm ct @ rest) 0 4 = Some (le_bytes_u32 (of_nat (length ?b)))"
    by (simp add: finish_def slice_range_def le_bytes_u32_def Let_def)
  moreover have "slice_range (finish ?e cm ct @ rest) 4 (4 + length ?b) = Some ?b"
    by (simp add: finish_def slice_range_def le_bytes_u32_def Let_def)
  moreover have "length (finish ?e cm ct) = 4 + length ?b"
    by (simp add: finish_def le_bytes_u32_def Let_def)
  ultimately show ?thesis
    using seg assms(2) by (auto simp: decode_segment_def unat_of_nat_u32 Let_def)
qed

end
