(* ===== verification/Segment_Times.thy ===== *)
theory Segment_Times
  imports Segment_Roundtrip
begin

text \<open>
  The reconstruction of event times, \<open>Segment::event_unix_micros\<close>: the absolute ticks of the
  records are the running sums of their deltas, and a tick between the anchor and the close
  reading is interpolated into the segment's bracket of wall-clock time.
\<close>

section \<open>Ticks and their interpolation\<close>

text \<open>The absolute ticks the loop computes.\<close>

fun abs_ticks :: "u64 \<Rightarrow> Record list \<Rightarrow> u64 list" where
  "abs_ticks tick [] = []"
| "abs_ticks tick (r # rs) =
     saturating_add tick (ts_delta r) # abs_ticks (saturating_add tick (ts_delta r)) rs"

definition tick_span :: "Segment \<Rightarrow> u64" where
  "tick_span seg = saturating_sub (sg_close_tick seg) (sa_tick (sg_anchor seg))"

definition mono_span :: "Segment \<Rightarrow> u64" where
  "mono_span seg = saturating_sub (sg_close_mono_micros seg) (sa_mono_micros (sg_anchor seg))"

text \<open>The exact offset of a tick into the segment, in microseconds.\<close>

definition elapsed :: "nat \<Rightarrow> nat \<Rightarrow> nat \<Rightarrow> nat" where
  "elapsed ticks mspan span = (if ticks = 0 then 0 else span * mspan div ticks)"

definition unix_at :: "Segment \<Rightarrow> u64 \<Rightarrow> nat" where
  "unix_at seg tick =
     unat (sa_unix_micros (sg_anchor seg)) +
     elapsed (unat (tick_span seg)) (unat (mono_span seg))
       (unat (saturating_sub tick (sa_tick (sg_anchor seg))))"

lemma elapsed_bound: "span \<le> ticks \<Longrightarrow> elapsed ticks mspan span \<le> mspan"
proof (cases "ticks = 0")
  case False
  assume "span \<le> ticks"
  then have "span * mspan div ticks \<le> ticks * mspan div ticks"
    by (intro div_le_mono mult_le_mono1)
  with False show ?thesis by (simp add: elapsed_def)
qed (simp add: elapsed_def)

lemma elapsed_mono: "span \<le> span' \<Longrightarrow> elapsed ticks mspan span \<le> elapsed ticks mspan span'"
  by (auto simp: elapsed_def intro!: div_le_mono)

lemma elapsed_ends: "elapsed ticks mspan 0 = 0" "0 < ticks \<Longrightarrow> elapsed ticks mspan ticks = mspan"
  by (simp_all add: elapsed_def)

lemma le_saturating_add: "tick \<le> saturating_add tick d"
  using unat_lt2p_64 [of tick] by (simp add: word_le_nat_alt)

lemma abs_ticks_sorted: "sorted (tick # abs_ticks tick rs)"
  by (induction rs arbitrary: tick)
    (auto intro: le_saturating_add order_trans [OF le_saturating_add])

lemma length_abs_ticks: "length (abs_ticks tick rs) = length rs"
  by (induction rs arbitrary: tick) auto

text \<open>
  A tick no later than the close reading lies in the bracket, so that the sum fits a \<open>u64\<close>
  whenever the bracket's end does.
\<close>

definition bracket_fits :: "Segment \<Rightarrow> bool" where
  "bracket_fits seg \<longleftrightarrow>
     unat (sa_unix_micros (sg_anchor seg)) + unat (mono_span seg) < 2 ^ 64"

lemma unix_at_bound:
  assumes "tick \<le> sg_close_tick seg"
  shows "unat (sa_unix_micros (sg_anchor seg)) \<le> unix_at seg tick"
    "unix_at seg tick \<le> unat (sa_unix_micros (sg_anchor seg)) + unat (mono_span seg)"
proof -
  have "unat (saturating_sub tick (sa_tick (sg_anchor seg))) \<le> unat (tick_span seg)"
    using assms by (simp add: tick_span_def word_le_nat_alt diff_le_mono)
  from elapsed_bound [OF this]
  show "unat (sa_unix_micros (sg_anchor seg)) \<le> unix_at seg tick"
    "unix_at seg tick \<le> unat (sa_unix_micros (sg_anchor seg)) + unat (mono_span seg)"
    by (simp_all add: unix_at_def)
qed

lemma unix_at_mono: "tick \<le> tick' \<Longrightarrow> unix_at seg tick \<le> unix_at seg tick'"
  by (auto simp: unix_at_def word_le_nat_alt intro!: elapsed_mono diff_le_mono)

section \<open>The loop computes the interpolation\<close>

lemma event_times_eq:
  "list_all (\<lambda>t. t \<le> sg_close_tick seg) (abs_ticks tick rs) \<Longrightarrow> bracket_fits seg \<Longrightarrow>
     event_times oc (sg_anchor seg) (tick_span seg) (mono_span seg) tick rs =
       Inr (map (\<lambda>t. of_nat (unix_at seg t)) (abs_ticks tick rs))"
proof (induction rs arbitrary: tick)
  case Nil
  then show ?case by simp
next
  case (Cons r rs)
  let ?t = "saturating_add tick (ts_delta r)"
  let ?e = "elapsed (unat (tick_span seg)) (unat (mono_span seg))
      (unat (saturating_sub ?t (sa_tick (sg_anchor seg))))"
  have "?t \<le> sg_close_tick seg" using Cons.prems(1) by simp
  from unix_at_bound(2) [OF this] Cons.prems(2)
  have sum: "unat (sa_unix_micros (sg_anchor seg)) + ?e < 2 ^ 64"
    by (simp add: unix_at_def bracket_fits_def)
  then have "unat (of_nat ?e :: u64) = ?e" by (intro unat_of_nat_u64) linarith
  with sum have add: "u64_add oc (sa_unix_micros (sg_anchor seg)) (of_nat ?e) =
      (Inr (of_nat (unix_at seg ?t)) :: (DecodeError, u64) outcome)"
    by (simp add: u64_add_def unix_at_def)
  show ?case
    using Cons.IH [of ?t] Cons.prems add
    by (cases "tick_span seg = 0")
      (simp_all add: Let_def elapsed_def unat_eq_0 del: unat_saturating_add unat_saturating_sub)
qed

lemma event_unix_micros_eq:
  "list_all (\<lambda>t. t \<le> sg_close_tick seg) (abs_ticks (sa_tick (sg_anchor seg)) (sg_records seg)) \<Longrightarrow>
   bracket_fits seg \<Longrightarrow>
   event_unix_micros oc seg =
     Inr (map (\<lambda>t. of_nat (unix_at seg t)) (abs_ticks (sa_tick (sg_anchor seg)) (sg_records seg)))"
  using event_times_eq [of seg "sa_tick (sg_anchor seg)" "sg_records seg" oc]
  by (simp add: event_unix_micros_def tick_span_def mono_span_def Let_def)

lemma event_times_bracket:
  assumes "list_all (\<lambda>t. t \<le> sg_close_tick seg) (abs_ticks (sa_tick (sg_anchor seg)) (sg_records seg))"
    and "bracket_fits seg"
  shows "\<exists>ts. event_unix_micros oc seg = Inr ts \<and> length ts = length (sg_records seg) \<and>
    sorted ts \<and>
    (\<forall>t \<in> set ts. sa_unix_micros (sg_anchor seg) \<le> t \<and>
       t \<le> sa_unix_micros (sg_anchor seg) + mono_span seg)"
proof -
  let ?ticks = "abs_ticks (sa_tick (sg_anchor seg)) (sg_records seg)"
  let ?u = "sa_unix_micros (sg_anchor seg)"
  have small: "unix_at seg t < 2 ^ 64" if "t \<in> set ?ticks" for t
    using that assms unix_at_bound(2) [of t seg] by (auto simp: list_all_iff bracket_fits_def)
  have top: "unat (?u + mono_span seg) = unat ?u + unat (mono_span seg)"
    using assms(2) by (simp add: bracket_fits_def unat_word_ariths)
  have "sorted ?ticks" using abs_ticks_sorted [of "sa_tick (sg_anchor seg)" "sg_records seg"] by simp
  moreover have "of_nat (unix_at seg t) \<le> (of_nat (unix_at seg t') :: u64)"
    if "t \<in> set ?ticks" "t' \<in> set ?ticks" "t \<le> t'" for t t'
    using unix_at_mono [OF that(3), of seg] small [OF that(1)] small [OF that(2)]
    by (simp add: word_le_nat_alt)
  ultimately have "sorted (map (\<lambda>t. of_nat (unix_at seg t) :: u64) ?ticks)"
    unfolding sorted_map by (elim sorted_wrt_mono_rel [rotated]) simp
  moreover have "length ?ticks = length (sg_records seg)" by (rule length_abs_ticks)
  moreover have "?u \<le> of_nat (unix_at seg t) \<and> of_nat (unix_at seg t) \<le> ?u + mono_span seg"
    if "t \<in> set ?ticks" for t
    using that assms(1) unix_at_bound [of t seg] small [OF that]
    by (auto simp: list_all_iff word_le_nat_alt top)
  ultimately show ?thesis
    using event_unix_micros_eq [OF assms, of oc] by simp
qed

section \<open>From the ticks of the calls to the times of the records\<close>

fun call_ticks_sorted :: "u64 \<Rightarrow> EncoderCall list \<Rightarrow> bool" where
  "call_ticks_sorted prev [] = True"
| "call_ticks_sorted prev (c # cs) \<longleftrightarrow> prev \<le> call_tick c \<and> call_ticks_sorted (call_tick c) cs"

lemma ts_delta_resolve: "call_tick (resolve ss r) = ts_delta r"
  by (cases r) auto

lemma call_tick_with_tick [simp]: "call_tick (with_tick t c) = t"
  by (cases c) auto

lemma saturating_add_sub: "a \<le> b \<Longrightarrow> saturating_add a (saturating_sub b a) = b"
  using unat_lt2p_64 [of b]
  by (simp add: saturating_add_def saturating_sub_def unat_sub word_le_nat_alt)

text \<open>Where the ticks never run backwards, the decoded absolute ticks are those recorded.\<close>

lemma abs_ticks_deltas:
  "map (resolve ss) rs = deltas prev cs \<Longrightarrow> call_ticks_sorted prev cs \<Longrightarrow>
     abs_ticks prev rs = map call_tick cs"
proof (induction cs arbitrary: prev rs)
  case Nil
  then show ?case by simp
next
  case (Cons c cs)
  from Cons.prems(1) obtain r rs' where rs: "rs = r # rs'"
    and r: "resolve ss r = with_tick (saturating_sub (call_tick c) prev) c"
    and rs': "map (resolve ss) rs' = deltas (call_tick c) cs"
    by (cases rs) auto
  from r have "ts_delta r = saturating_sub (call_tick c) prev"
    using ts_delta_resolve [of ss r] by simp
  with Cons.prems(2) rs Cons.IH [OF rs'] show ?case by (simp add: saturating_add_sub)
qed

end
