(* ===== verification/Stream.thy ===== *)
theory Stream
  imports Segment_Times
begin

text \<open>
  The capture stream, \<open>crates/factories_capture_codec/src/stream.rs\<close>: an eight byte header,
  then segments one after the other. The iterator \<open>Segments\<close> is a state, the bytes left, with
  the step \<open>segments_next\<close>; \<open>collect_segments\<close> drives it to its end, and ends because every
  decoded segment takes at least five bytes.
\<close>

section \<open>The header\<close>

definition MAGIC :: "u8 list" where
  "MAGIC = [0x46, 0x43, 0x41, 0x50]"

definition VERSION :: u16 where
  "VERSION = 1"

definition to_le_bytes_u16 :: "u16 \<Rightarrow> u8 list" where
  "to_le_bytes_u16 w = [ucast w, ucast (drop_bit 8 w)]"

definition from_le_bytes_u16 :: "u8 list \<Rightarrow> u16" where
  "from_le_bytes_u16 bs = (case bs of [b0, b1] \<Rightarrow> ucast b0 OR push_bit 8 (ucast b1) | _ \<Rightarrow> 0)"

definition write_stream_header :: "u8 list \<Rightarrow> u8 list" where
  "write_stream_header out = out @ MAGIC @ to_le_bytes_u16 VERSION @ to_le_bytes_u16 0"

definition read_stream_header :: "u8 list \<Rightarrow> (DecodeError, u8 list) outcome" where
  "read_stream_header input =
     and_then (ok_or (slice_range input 0 4) UnexpectedEof) (\<lambda>magic.
       if magic \<noteq> MAGIC then Inl (Error BadMagic)
       else and_then (ok_or (slice_range input 4 6) UnexpectedEof) (\<lambda>version_bytes.
         let version = from_le_bytes_u16 version_bytes in
         if version \<noteq> VERSION then Inl (Error (UnsupportedVersion version VERSION))
         else and_then (ok_or (slice_range input 6 8) UnexpectedEof) (\<lambda>_. slice_from input 8)))"

section \<open>The iterator over segments\<close>

type_synonym Segments = "u8 list"

definition segments :: "u8 list \<Rightarrow> Segments" where
  "segments body = body"

text \<open>
  One call of \<open>next\<close>: \<open>None\<close> at the end, else what \<open>decode_segment\<close> says and the bytes left,
  none of them after an error. A panic of the decoder ends the caller.
\<close>

definition segments_next :: "bool \<Rightarrow> Segments \<Rightarrow>
    (DecodeError, (Segments \<times> (DecodeError + Segment)) option) outcome" where
  "segments_next oc rest =
     (if rest = [] then Inr None
      else (case decode_segment oc rest of
          Inr (segment, consumed) \<Rightarrow>
            and_then (slice_from rest consumed) (\<lambda>rest'. Inr (Some (rest', Inr segment)))
        | Inl (Error e) \<Rightarrow> Inr (Some ([], Inl e))
        | Inl Panic \<Rightarrow> Inl Panic))"

lemma decode_segment_consumes:
  "decode_segment oc input = Inr (seg, n) \<Longrightarrow> 4 \<le> n \<and> n \<le> length input"
  by (auto simp: decode_segment_def Let_def outcome_simps slice_range_Some_iff)

lemma segments_next_shrinks:
  "segments_next oc rest = Inr (Some (rest', item)) \<Longrightarrow> length rest' < length rest"
  by (auto simp: segments_next_def outcome_simps split: if_splits sum.splits fault.splits
      dest!: decode_segment_consumes)

function collect_segments :: "bool \<Rightarrow> Segments \<Rightarrow> (DecodeError, (DecodeError + Segment) list) outcome" where
  "collect_segments oc rest =
     and_then (segments_next oc rest) (\<lambda>step.
       case step of
         None \<Rightarrow> Inr []
       | Some (rest', item) \<Rightarrow>
           and_then (collect_segments oc rest') (\<lambda>items. Inr (item # items)))"
  by pat_completeness auto
termination
  by (relation "measure (\<lambda>(oc, rest). length rest)") (auto dest: segments_next_shrinks)

declare collect_segments.simps [simp del]

section \<open>Writing and reading a stream\<close>

lemma read_write_stream_header:
  "read_stream_header (write_stream_header [] @ body) = Inr body"
proof -
  have "from_le_bytes_u16 (to_le_bytes_u16 VERSION) = VERSION"
    by (simp add: from_le_bytes_u16_def to_le_bytes_u16_def VERSION_def)
  then show ?thesis
    by (simp add: read_stream_header_def write_stream_header_def slice_range_def slice_from_def
        MAGIC_def to_le_bytes_u16_def Let_def)
qed

lemma collect_segments_Nil [simp]: "collect_segments oc [] = Inr []"
  by (simp add: collect_segments.simps [of oc "[]"] segments_next_def)

lemma collect_segments_Cons:
  assumes "decode_segment oc (bytes @ rest) = Inr (seg, length bytes)"
  shows "collect_segments oc (bytes @ rest) =
    and_then (collect_segments oc rest) (\<lambda>items. Inr (Inr seg # items))"
proof -
  from decode_segment_consumes [OF assms] have "bytes @ rest \<noteq> []" by auto
  with assms show ?thesis
    by (simp add: collect_segments.simps [of oc "bytes @ rest"] segments_next_def slice_from_def)
qed

text \<open>The iterator never yields anything after an error.\<close>

lemma collect_segments_fused:
  "collect_segments oc rest = Inr items \<Longrightarrow> i < length items \<Longrightarrow> items ! i = Inl e \<Longrightarrow>
     i = length items - 1"
proof (induction oc rest arbitrary: items i rule: collect_segments.induct)
  case (1 oc rest)
  from "1.prems" obtain rest' item items' where
      n: "segments_next oc rest = Inr (Some (rest', item))"
    and c: "collect_segments oc rest' = Inr items'"
    and items: "items = item # items'"
    by (auto simp: collect_segments.simps [of oc rest] outcome_simps split: option.splits)
  show ?case
  proof (cases i)
    case 0
    with "1.prems"(3) items n have "rest' = []"
      by (auto simp: segments_next_def outcome_simps split: if_splits sum.splits fault.splits)
    with c items 0 show ?thesis by simp
  next
    case (Suc j)
    with "1.prems" items "1.IH" [OF n refl refl c, of j] show ?thesis by auto
  qed
qed

text \<open>
  A release build reads any body to its end: the iterator returns items, and the only fault is
  an error item.
\<close>

lemma segments_next_release:
  "fits rest \<Longrightarrow> \<exists>step. segments_next False rest = Inr step"
  using faults_decode_segment [of rest False]
  by (auto simp: segments_next_def slice_from_def faults_def split: sum.splits fault.splits
      dest: decode_segment_consumes)

lemma segments_next_fits:
  "segments_next oc rest = Inr (Some (rest', item)) \<Longrightarrow> fits rest \<Longrightarrow> fits rest'"
  using segments_next_shrinks by (fastforce simp: fits_def)

lemma collect_segments_release:
  "fits rest \<Longrightarrow> oc = False \<Longrightarrow> \<exists>items. collect_segments oc rest = Inr items"
proof (induction oc rest rule: collect_segments.induct)
  case (1 oc rest)
  then obtain step where step: "segments_next oc rest = Inr step"
    using segments_next_release [of rest] by auto
  show ?case
  proof (cases step)
    case None
    with step show ?thesis by (simp add: collect_segments.simps [of oc rest])
  next
    case (Some p)
    then obtain rest' item where s: "segments_next oc rest = Inr (Some (rest', item))"
      using step by (cases p) auto
    from "1.IH" [OF s refl refl segments_next_fits [OF s "1.prems"(1)] "1.prems"(2)] s
    show ?thesis by (auto simp: collect_segments.simps [of oc rest])
  qed
qed

lemma collect_segments_errors:
  "collect_segments oc rest = Inr items \<Longrightarrow> fits rest \<Longrightarrow> Inl SegmentLengthMismatch \<notin> set items"
proof (induction oc rest arbitrary: items rule: collect_segments.induct)
  case (1 oc rest)
  show ?case
  proof (cases "items = []")
    case False
    with "1.prems" obtain rest' item items' where
        n: "segments_next oc rest = Inr (Some (rest', item))"
      and c: "collect_segments oc rest' = Inr items'"
      and items: "items = item # items'"
      by (auto simp: collect_segments.simps [of oc rest] outcome_simps split: option.splits)
    from "1.IH" [OF n refl refl c segments_next_fits [OF n "1.prems"(2)]]
    have "Inl SegmentLengthMismatch \<notin> set items'" .
    moreover have "item \<noteq> Inl SegmentLengthMismatch"
      using n faults_decode_segment [OF "1.prems"(2), of oc]
      by (auto simp: segments_next_def outcome_simps split: if_splits sum.splits fault.splits)
    ultimately show ?thesis using items by auto
  qed simp
qed

text \<open>The bytes of a list of finished segments, each with its operations and close readings.\<close>

type_synonym SegmentSpec = "SegmentAnchor \<times> EncoderOp list \<times> u64 \<times> u64"

fun spec_bytes :: "SegmentSpec \<Rightarrow> u8 list" where
  "spec_bytes (a, ops, cm, ct) = finish (run_ops ops (encoder_new a)) cm ct"

fun spec_ok :: "SegmentSpec \<Rightarrow> bool" where
  "spec_ok (a, ops, cm, ct) \<longleftrightarrow>
     list_all op_wf ops \<and> length (segment_body (run_ops ops (encoder_new a)) cm ct) < 2 ^ 32"

fun spec_decodes :: "SegmentSpec \<Rightarrow> DecodeError + Segment \<Rightarrow> bool" where
  "spec_decodes (a, ops, cm, ct) (Inr seg) = decodes_to a ops cm ct seg"
| "spec_decodes _ (Inl e) = False"

lemma collect_segments_specs:
  "list_all spec_ok specs \<Longrightarrow>
     \<exists>items. collect_segments oc (concat (map spec_bytes specs)) = Inr items \<and>
       list_all2 spec_decodes specs items"
proof (induction specs)
  case Nil
  then show ?case by simp
next
  case (Cons spec specs)
  obtain a ops cm ct where spec: "spec = (a, ops, cm, ct)" by (cases spec)
  from Cons obtain items where items: "collect_segments oc (concat (map spec_bytes specs)) = Inr items"
      "list_all2 spec_decodes specs items"
    by auto
  from Cons.prems spec obtain seg where
      "decode_segment oc (spec_bytes spec @ concat (map spec_bytes specs)) =
         Inr (seg, length (spec_bytes spec))"
      "decodes_to a ops cm ct seg"
    using decode_finish [of ops a cm ct oc "concat (map spec_bytes specs)"] by auto
  from collect_segments_Cons [OF this(1)] this(2) items spec show ?case by simp
qed

end
