(* ===== verification/Codec.thy ===== *)
theory Codec
  imports Stream
begin

text \<open>
  The properties of the capture codec (\<open>crates/factories_capture_codec/src\<close>): the round trips
  of varints, segments and streams, the reconstruction of event times, the totality of the
  reader on arbitrary bytes, and the input on which a build with overflow checks panics.
\<close>

section \<open>Evaluation\<close>

lemmas decoder_eval = decode_segment_def slice_range_def from_le_bytes_u32_def decode_body_def
  decode_header_def slice_nth_def from_tag_def read_uvarint_at_def slice_from_def read_uvarint_def
  MAX_LEN_def Let_def decode_tables_def read_blob_table_def read_bytes_at_def usize_add_def
  decode_records.simps

lemmas encoder_eval = segment_body_def run_ops_def encoder_new_def spawned_def died_def
  message_def delta_def intern_def intern_interpretation_def intern_schema_def intern_blob_def
  saturating_sub_def write_blob_table_def write_blob_def write_uvarint.simps map_or_zero_def Let_def

section \<open>Round trips\<close>

text \<open>C1: Whatever sequence of \<open>spawned\<close>, \<open>died\<close>, \<open>message\<close> and intern calls builds a segment,
  \<open>decode_segment\<close> on what \<open>finish\<close> returns, whatever follows it, consumes exactly those bytes and
  returns the anchor, the close readings, every call in order (its tick as the saturating
  delta to the call before, its name through the string table), and tables that hold each
  name, interpretation and schema once.\<close>

theorem segment_roundtrip:
  assumes "list_all op_wf ops"
    and "length (segment_body (run_ops ops (encoder_new a)) cm ct) < 2 ^ 32"
  shows "\<exists>seg. decode_segment oc (finish (run_ops ops (encoder_new a)) cm ct @ rest) =
      Inr (seg, length (finish (run_ops ops (encoder_new a)) cm ct)) \<and> decodes_to a ops cm ct seg"
  using assms by (rule decode_finish)

definition sample_anchor :: SegmentAnchor where
  "sample_anchor = \<lparr>sa_mode = Tsc, sa_unix_micros = 1000, sa_mono_micros = 50, sa_tick = 300\<rparr>"

definition sample_ops :: "EncoderOp list" where
  "sample_ops =
     [Call (CallSpawned 310 1 7 [65, 66] None None), InternInterpretation [1, 2],
      Call (CallMessage 400 2 7 (Some 3) [67] 1 (Some \<lparr>er_actor = 3, er_seq = 9\<rparr>) [8, 8]),
      Call (CallDied 450 3 7 [65, 66] 0 None)]"

lemma sample_ok:
  "list_all op_wf sample_ops"
  "length (segment_body (run_ops sample_ops (encoder_new sample_anchor)) 250 500) < 2 ^ 32"
  by (simp_all add: sample_ops_def sample_anchor_def encoder_eval cause_wf_def)

theorem segment_roundtrip_witness:
  "\<exists>seg. decode_segment True (finish (run_ops sample_ops (encoder_new sample_anchor)) 250 500 @ [1]) =
      Inr (seg, length (finish (run_ops sample_ops (encoder_new sample_anchor)) 250 500)) \<and>
    decodes_to sample_anchor sample_ops 250 500 seg"
  using segment_roundtrip [OF sample_ok] .

text \<open>A stream, the header followed by finished segments, is read back whole: the header is
  accepted, and the iterator yields one decoded segment for each that was written, in order,
  and nothing else.\<close>

theorem stream_roundtrip:
  assumes "list_all spec_ok specs"
  shows "\<exists>items. and_then (read_stream_header (write_stream_header [] @ concat (map spec_bytes specs)))
        (\<lambda>body. collect_segments oc (segments body)) = Inr items \<and>
      list_all2 spec_decodes specs items"
  using collect_segments_specs [OF assms, of oc]
  by (simp add: read_write_stream_header segments_def)

theorem stream_roundtrip_witness:
  "\<exists>items. and_then (read_stream_header (write_stream_header [] @
          concat (map spec_bytes [(sample_anchor, sample_ops, 250, 500), (sample_anchor, [], 0, 0)])))
        (\<lambda>body. collect_segments False (segments body)) = Inr items \<and>
      list_all2 spec_decodes [(sample_anchor, sample_ops, 250, 500), (sample_anchor, [], 0, 0)] items"
proof -
  have "list_all spec_ok [(sample_anchor, sample_ops, 250, 500), (sample_anchor, [], 0, 0)]"
    using sample_ok by (simp add: sample_anchor_def encoder_eval)
  then show ?thesis by (rule stream_roundtrip)
qed

text \<open>C2: Where the clock never runs backwards between the anchor, the calls and the close
  reading, the event times of the decoded segment are the exact linear interpolation of the
  ticks the calls were made with into the bracket between the anchor's wall-clock time and that
  time plus the monotonic span.\<close>

theorem event_times_roundtrip:
  assumes "list_all op_wf ops"
    and "length (segment_body (run_ops ops (encoder_new a)) cm ct) < 2 ^ 32"
    and "call_ticks_sorted (sa_tick a) (ops_calls ops)"
    and "\<forall>c \<in> set (ops_calls ops). call_tick c \<le> ct"
    and "unat (sa_unix_micros a) + (unat cm - unat (sa_mono_micros a)) < 2 ^ 64"
  shows "\<exists>seg n. decode_segment oc (finish (run_ops ops (encoder_new a)) cm ct) = Inr (seg, n) \<and>
    event_unix_micros oc seg = Inr (map (\<lambda>c. sa_unix_micros a +
      of_nat (elapsed (unat ct - unat (sa_tick a)) (unat cm - unat (sa_mono_micros a))
        (unat (call_tick c) - unat (sa_tick a)))) (ops_calls ops))"
proof -
  obtain seg where seg: "decode_segment oc (finish (run_ops ops (encoder_new a)) cm ct) =
      Inr (seg, length (finish (run_ops ops (encoder_new a)) cm ct))" "decodes_to a ops cm ct seg"
    using decode_finish [OF assms(1,2), of oc "[]"] by auto
  from seg(2) assms(3) have ticks: "abs_ticks (sa_tick (sg_anchor seg)) (sg_records seg) =
      map call_tick (ops_calls ops)"
    by (auto simp: decodes_to_def intro: abs_ticks_deltas)
  have "event_unix_micros oc seg =
      Inr (map (\<lambda>t. of_nat (unix_at seg t)) (map call_tick (ops_calls ops)))"
    using event_unix_micros_eq [of seg oc] assms(4,5) seg(2)
    by (auto simp: ticks decodes_to_def bracket_fits_def mono_span_def list_all_iff)
  with seg show ?thesis
    by (auto simp: unix_at_def decodes_to_def tick_span_def mono_span_def)
qed

theorem event_times_roundtrip_witness:
  "\<exists>seg n. decode_segment True (finish (run_ops sample_ops (encoder_new sample_anchor)) 250 500) =
      Inr (seg, n) \<and>
    event_unix_micros True seg = Inr (map (\<lambda>c. sa_unix_micros sample_anchor +
      of_nat (elapsed (unat (500::u64) - unat (sa_tick sample_anchor))
        (unat (250::u64) - unat (sa_mono_micros sample_anchor))
        (unat (call_tick c) - unat (sa_tick sample_anchor)))) (ops_calls sample_ops))"
proof -
  have "call_ticks_sorted (sa_tick sample_anchor) (ops_calls sample_ops)"
    "\<forall>c \<in> set (ops_calls sample_ops). call_tick c \<le> 500"
    "unat (sa_unix_micros sample_anchor) + (unat (250::u64) - unat (sa_mono_micros sample_anchor)) < 2 ^ 64"
    by (simp_all add: sample_ops_def sample_anchor_def)
  then show ?thesis by (rule event_times_roundtrip [OF sample_ok])
qed

text \<open>A varint is read back whatever follows it, with the count of its bytes, and it takes
  at most \<open>n\<close> bytes exactly when the value has at most \<open>7 * n\<close> bits.\<close>

theorem uvarint_roundtrip:
  "read_uvarint (write_uvarint v @ rest) = Inr (v, length (write_uvarint v)) \<and>
   (length (write_uvarint v) \<le> n \<longleftrightarrow> 0 < n \<and> unat v < 2 ^ (7 * n))"
  by (simp add: length_write_uvarint_iff)

text \<open>Reading a varint fails exactly when none of the first ten bytes ends it: as overlong
  where there are ten, as a premature end where there are fewer; what a successful read took is
  at least one byte and at most ten of the input.\<close>

theorem uvarint_errors:
  "(read_uvarint input = Inl f \<longleftrightarrow>
      list_all (\<lambda>b. b AND 0x80 \<noteq> 0) (take 10 input) \<and>
      f = Error (if 10 \<le> length input then OverlongVarint else UnexpectedEof)) \<and>
   (case read_uvarint input of Inl _ \<Rightarrow> True | Inr (v, n) \<Rightarrow> 0 < n \<and> n \<le> min 10 (length input))"
proof -
  have M: "MAX_LEN = 10" by (simp add: MAX_LEN_def)
  have "read_loop (take 10 input) 0 0 0 = None \<longleftrightarrow> list_all (\<lambda>b. b AND 0x80 \<noteq> 0) (take 10 input)"
    by (simp add: read_loop_None_iff list_all_iff)
  then have "read_uvarint input = Inl f \<longleftrightarrow>
      list_all (\<lambda>b. b AND 0x80 \<noteq> 0) (take 10 input) \<and>
      f = Error (if 10 \<le> length input then OverlongVarint else UnexpectedEof)"
    by (auto simp: read_uvarint_def M split: option.splits if_splits)
  moreover have "case read_uvarint input of Inl _ \<Rightarrow> True
      | Inr (v, n) \<Rightarrow> 0 < n \<and> n \<le> min 10 (length input)"
    using read_uvarint_bound [of input] by (simp add: M split: sum.split)
  ultimately show ?thesis by (rule conjI)
qed

section \<open>Arbitrary bytes\<close>

text \<open>C3: On any bytes a build without overflow checks drives the segment iterator to its end
  without a panic, an error is the last item it yields, and no error is a length mismatch.\<close>

theorem reader_total:
  assumes "fits body"
  shows "\<exists>items. collect_segments False (segments body) = Inr items \<and>
    (\<forall>i e. i < length items \<longrightarrow> items ! i = Inl e \<longrightarrow> i = length items - 1) \<and>
    Inl SegmentLengthMismatch \<notin> set items"
proof -
  obtain items where items: "collect_segments False body = Inr items"
    using collect_segments_release [OF assms] by auto
  moreover have "\<forall>i e. i < length items \<longrightarrow> items ! i = Inl e \<longrightarrow> i = length items - 1"
    using collect_segments_fused [OF items] by blast
  ultimately show ?thesis
    using collect_segments_errors [OF items assms] unfolding segments_def by blast
qed

theorem reader_total_witness:
  "\<exists>items. collect_segments False (segments [5, 0, 0, 0, 2, 0, 255, 0, 0, 1]) = Inr items \<and>
    (\<forall>i e. i < length items \<longrightarrow> items ! i = Inl e \<longrightarrow> i = length items - 1) \<and>
    Inl SegmentLengthMismatch \<notin> set items"
  by (rule reader_total) (simp add: fits_def)

text \<open>C4: A successful decode consumed the four bytes of the length prefix and what it declares,
  no byte after them was looked at, no required actor id of the segment is zero and every
  string is UTF-8.\<close>

theorem decode_segment_sound:
  assumes "decode_segment oc input = Inr (seg, n)" "fits input"
  shows "n = 4 + unat (from_le_bytes_u32 (take 4 input)) \<and> 4 < n \<and> n \<le> length input \<and>
    segment_wf seg \<and> decode_segment oc (take n input @ rest) = Inr (seg, n)"
  using decode_segment_Inr [OF assms] decode_segment_take [OF assms(1)] by blast

definition empty_segment :: "u8 list" where
  "empty_segment = [9, 0, 0, 0, 2, 0, 0, 0, 0, 0, 0, 0, 0]"

lemma decode_empty_segment:
  "decode_segment True empty_segment = Inr (\<lparr>sg_anchor = \<lparr>sa_mode = Monotonic, sa_unix_micros = 0,
      sa_mono_micros = 0, sa_tick = 0\<rparr>, sg_close_mono_micros = 0, sg_close_tick = 0,
      sg_strings = [], sg_interpretations = [], sg_schemas = [], sg_records = []\<rparr>, 13)"
  by (simp add: empty_segment_def decoder_eval)

theorem decode_segment_sound_witness:
  "13 = 4 + unat (from_le_bytes_u32 (take 4 empty_segment)) \<and>
   decode_segment True (take 13 empty_segment @ [255]) = decode_segment True empty_segment"
proof -
  have "fits empty_segment" by (simp add: fits_def empty_segment_def)
  from decode_segment_sound [OF decode_empty_segment this, of "[255]"] decode_empty_segment
  show ?thesis by simp
qed

definition overflow_segment :: "u8 list" where
  "overflow_segment =
     [17, 0, 0, 0, 2, 0, 0, 0, 0, 0, 1, 255, 255, 255, 255, 255, 255, 255, 255, 255, 1]"

text \<open>In a build with overflow checks the unchecked addition of a length to a position
  panics on a segment of twenty-six bytes whose string length is the largest varint; without the
  checks the same bytes are refused as ending early.\<close>

theorem decode_overflow_panics:
  "decode_segment True overflow_segment = Inl Panic \<and>
   decode_segment False overflow_segment = Inl (Error UnexpectedEof)"
  by (simp add: overflow_segment_def decoder_eval)

text \<open>C5: Whatever the deltas of a decoded segment are, its absolute ticks never decrease, and
  when they stay before the close reading every event time lies between the anchor's
  wall-clock time and that time plus the monotonic span, in ascending order.\<close>

theorem event_times_in_bracket:
  assumes "\<forall>t \<in> set (abs_ticks (sa_tick (sg_anchor seg)) (sg_records seg)). t \<le> sg_close_tick seg"
    and "unat (sa_unix_micros (sg_anchor seg)) + unat (mono_span seg) < 2 ^ 64"
  shows "\<exists>ts. event_unix_micros oc seg = Inr ts \<and> length ts = length (sg_records seg) \<and>
    sorted ts \<and>
    (\<forall>t \<in> set ts. sa_unix_micros (sg_anchor seg) \<le> t \<and>
       t \<le> sa_unix_micros (sg_anchor seg) + mono_span seg)"
  using event_times_bracket [of seg oc] assms by (simp add: list_all_iff bracket_fits_def)

definition sample_segment :: Segment where
  "sample_segment = \<lparr>sg_anchor = sample_anchor, sg_close_mono_micros = 250, sg_close_tick = 500,
     sg_strings = [[65]], sg_interpretations = [], sg_schemas = [],
     sg_records = [Spawned 10 1 7 0 None None, Died 90 2 7 0 0 None]\<rparr>"

theorem event_times_in_bracket_witness:
  "\<exists>ts. event_unix_micros True sample_segment = Inr ts \<and> length ts = length (sg_records sample_segment) \<and>
    sorted ts \<and>
    (\<forall>t \<in> set ts. sa_unix_micros (sg_anchor sample_segment) \<le> t \<and>
       t \<le> sa_unix_micros (sg_anchor sample_segment) + mono_span sample_segment)"
  by (rule event_times_in_bracket)
    (simp_all add: sample_segment_def sample_anchor_def mono_span_def saturating_add_def saturating_sub_def)

end
