(* ===== verification/Lifecycle_Threads.thy ===== *)
theory Lifecycle_Threads
  imports Lifecycle
begin

text \<open>
  The lifecycle cell under interleaving. A thread is a program counter in one of the cell's
  operations, an action is one atomic access, and a step lets one thread act. The ghost parts
  of the state say which tasks were woken since they last ran and which went to sleep on
  which of the two futures. The lemmas give what the comments of \<open>state.rs\<close> promise: the state
  moves forward only, and no task sleeps through the transition it waits for.
\<close>

section \<open>Programs\<close>

datatype pc =
    Idle
  | RunningCas
  | DrainingCas "LifecycleState list"
  | StoppingCas "LifecycleState list"
  | DeadStore
  | WakeTake
  | WakeEach "waker list"
  | TerminalLoad waker
  | TerminalRegister waker
  | TerminalRecheck waker
  | LeaveLoad waker
  | LeaveRegister waker
  | LeaveRecheck waker

datatype obs =
    Silent
  | Wakes waker
  | TerminalReady waker
  | TerminalPending waker
  | LeaveReady waker LifecycleState
  | LeavePending waker
  | Unreachable

fun entry :: "pc \<Rightarrow> bool" where
  "entry RunningCas = True"
| "entry (DrainingCas from_states) = (from_states = [Running, Starting])"
| "entry (StoppingCas from_states) = (from_states = [Running, Draining])"
| "entry DeadStore = True"
| "entry (TerminalLoad w) = True"
| "entry (LeaveLoad w) = True"
| "entry _ = False"

fun polling :: "pc \<Rightarrow> waker option" where
  "polling (TerminalLoad w) = Some w"
| "polling (TerminalRegister w) = Some w"
| "polling (TerminalRecheck w) = Some w"
| "polling (LeaveLoad w) = Some w"
| "polling (LeaveRegister w) = Some w"
| "polling (LeaveRecheck w) = Some w"
| "polling _ = None"

text \<open>One atomic action of the thread that is at a program counter.\<close>

fun act :: "pc \<Rightarrow> LifecycleCell \<Rightarrow> pc \<times> LifecycleCell \<times> obs" where
  "act Idle c = (Idle, c, Silent)"
| "act RunningCas c = (WakeTake, snd (compare_exchange Starting Running c), Silent)"
| "act (DrainingCas []) c = (Idle, c, Silent)"
| "act (DrainingCas (from_state # rest)) c =
     (let (taken, c') = compare_exchange from_state Draining c
      in (if taken then WakeTake else DrainingCas rest, c', Silent))"
| "act (StoppingCas []) c = (Idle, c, Silent)"
| "act (StoppingCas (from_state # rest)) c =
     (let (taken, c') = compare_exchange from_state Stopping c
      in (if taken then Idle else StoppingCas rest, c', Silent))"
| "act DeadStore c = (WakeTake, c\<lparr>lc_state := as_u8 Dead\<rparr>, Silent)"
| "act WakeTake c = (WakeEach (lc_waiters c), c\<lparr>lc_waiters := []\<rparr>, Silent)"
| "act (WakeEach []) c = (Idle, c, Silent)"
| "act (WakeEach (w # ws)) c = (WakeEach ws, c, Wakes w)"
| "act (TerminalLoad w) c =
     (case current c of
        Inl _ \<Rightarrow> (Idle, c, Unreachable)
      | Inr s \<Rightarrow> if s = Dead then (Idle, c, TerminalReady w) else (TerminalRegister w, c, Silent))"
| "act (TerminalRegister w) c =
     (TerminalRecheck w, c\<lparr>lc_waiters := register w (lc_waiters c)\<rparr>, Silent)"
| "act (TerminalRecheck w) c =
     (case current c of
        Inl _ \<Rightarrow> (Idle, c, Unreachable)
      | Inr s \<Rightarrow> (Idle, c, if s = Dead then TerminalReady w else TerminalPending w))"
| "act (LeaveLoad w) c =
     (case current c of
        Inl _ \<Rightarrow> (Idle, c, Unreachable)
      | Inr s \<Rightarrow> if s \<noteq> Starting then (Idle, c, LeaveReady w s) else (LeaveRegister w, c, Silent))"
| "act (LeaveRegister w) c =
     (LeaveRecheck w, c\<lparr>lc_waiters := register w (lc_waiters c)\<rparr>, Silent)"
| "act (LeaveRecheck w) c =
     (case current c of
        Inl _ \<Rightarrow> (Idle, c, Unreachable)
      | Inr s \<Rightarrow> (Idle, c, if s \<noteq> Starting then LeaveReady w s else LeavePending w))"

section \<open>The functions are the programs run alone\<close>

fun run_alone :: "nat \<Rightarrow> pc \<Rightarrow> LifecycleCell \<Rightarrow> (obs list \<times> LifecycleCell) option" where
  "run_alone 0 p c = (if p = Idle then Some ([], c) else None)"
| "run_alone (Suc fuel) p c =
     (if p = Idle then Some ([], c)
      else (let (p', c', ob) = act p c
            in map_option (\<lambda>(obs, c''). (ob # obs, c'')) (run_alone fuel p' c')))"

definition woken_in :: "obs list \<Rightarrow> waker list" where
  "woken_in obs = concat (map (\<lambda>ob. case ob of Wakes w \<Rightarrow> [w] | _ \<Rightarrow> []) obs)"

lemma run_alone_wake:
  "length ws < fuel \<Longrightarrow> run_alone fuel (WakeEach ws) c = Some (map Wakes ws @ [Silent], c)"
proof (induction ws arbitrary: fuel)
  case Nil
  then show ?case by (cases fuel; cases "fuel - 1") auto
next
  case (Cons w ws)
  then show ?case by (cases fuel) auto
qed

lemma woken_in_simps [simp]:
  "woken_in [] = []" "woken_in (Silent # obs) = woken_in obs"
  "woken_in (map Wakes ws @ obs) = ws @ woken_in obs"
  by (simp_all add: woken_in_def, induction ws) auto

lemma run_alone_take:
  "length (lc_waiters c) + 1 < fuel \<Longrightarrow>
     run_alone fuel WakeTake c =
       Some (Silent # map Wakes (lc_waiters c) @ [Silent], c\<lparr>lc_waiters := []\<rparr>)"
  by (cases fuel) (simp_all add: run_alone_wake)

lemma run_alone_running:
  "length (lc_waiters c) + 2 < fuel \<Longrightarrow>
     \<exists>obs. run_alone fuel RunningCas c = Some (obs, snd (transition_running c)) \<and>
       woken_in obs = fst (transition_running c)"
  by (cases fuel) (auto simp: transition_running_def wake_all_def compare_exchange_def run_alone_take)

lemma run_alone_draining:
  "length (lc_waiters c) + 2 + length from_states < fuel \<Longrightarrow>
     \<exists>obs. run_alone fuel (DrainingCas from_states) c = Some (obs, snd (draining_from from_states c)) \<and>
       woken_in obs = fst (draining_from from_states c)"
proof (induction from_states arbitrary: fuel)
  case Nil
  then show ?case by (cases fuel; cases "fuel - 1") auto
next
  case (Cons f rest)
  then obtain fuel' where fuel: "fuel = Suc fuel'" by (cases fuel) auto
  with Cons.prems Cons.IH [of fuel'] show ?case
    by (auto simp: compare_exchange_def run_alone_take wake_all_def)
qed

lemma run_alone_stopping:
  "2 + length from_states < fuel \<Longrightarrow>
     \<exists>obs. run_alone fuel (StoppingCas from_states) c = Some (obs, stopping_from from_states c)"
proof (induction from_states arbitrary: fuel)
  case Nil
  then show ?case by (cases fuel; cases "fuel - 1") auto
next
  case (Cons f rest)
  then obtain fuel' where fuel: "fuel = Suc fuel'" by (cases fuel) auto
  with Cons.prems Cons.IH [of fuel'] show ?case
    by (cases fuel') (auto simp: compare_exchange_def)
qed

lemma run_alone_dead:
  "length (lc_waiters c) + 2 < fuel \<Longrightarrow>
     \<exists>obs. run_alone fuel DeadStore c = Some (obs, snd (transition_dead c)) \<and>
       woken_in obs = fst (transition_dead c)"
  by (cases fuel) (auto simp: transition_dead_def wake_all_def run_alone_take)

section \<open>Interleaving\<close>

record lc_sys =
  sys_cell :: LifecycleCell
  sys_pc :: "nat \<Rightarrow> pc"
  sys_notified :: "waker set"
  sys_terminal :: "waker set"
  sys_leave :: "waker set"

fun observe :: "obs \<Rightarrow> lc_sys \<Rightarrow> lc_sys" where
  "observe (Wakes w) s = s\<lparr>sys_notified := insert w (sys_notified s)\<rparr>"
| "observe (TerminalPending w) s = s\<lparr>sys_terminal := insert w (sys_terminal s)\<rparr>"
| "observe (LeavePending w) s = s\<lparr>sys_leave := insert w (sys_leave s)\<rparr>"
| "observe (TerminalReady w) s = s\<lparr>sys_terminal := sys_terminal s - {w}\<rparr>"
| "observe (LeaveReady w st) s = s\<lparr>sys_leave := sys_leave s - {w}\<rparr>"
| "observe Silent s = s"
| "observe Unreachable s = s"

definition thread_acts :: "nat \<Rightarrow> lc_sys \<Rightarrow> lc_sys" where
  "thread_acts t s =
     (let (p, c, ob) = act (sys_pc s t) (sys_cell s)
      in observe ob (s\<lparr>sys_cell := c, sys_pc := (sys_pc s)(t := p)\<rparr>))"

text \<open>
  A thread begins an operation, or acts, or a task runs again: it has consumed its
  notification and forgets what it waited for, to poll anew. A task is not run while one of
  its polls is under way.
\<close>

inductive lc_step :: "lc_sys \<Rightarrow> lc_sys \<Rightarrow> bool" where
  Begin: "sys_pc s t = Idle \<Longrightarrow> entry p \<Longrightarrow> lc_step s (s\<lparr>sys_pc := (sys_pc s)(t := p)\<rparr>)"
| Act: "sys_pc s t \<noteq> Idle \<Longrightarrow> lc_step s (thread_acts t s)"
| Resume: "\<forall>t. polling (sys_pc s t) \<noteq> Some w \<Longrightarrow>
    lc_step s (s\<lparr>sys_notified := sys_notified s - {w}, sys_terminal := sys_terminal s - {w},
                sys_leave := sys_leave s - {w}\<rparr>)"

inductive_cases lc_stepE: "lc_step s s'"

definition lc_init :: lc_sys where
  "lc_init = \<lparr>sys_cell = lifecycle_cell_new, sys_pc = (\<lambda>_. Idle), sys_notified = {},
     sys_terminal = {}, sys_leave = {}\<rparr>"

abbreviation lc_steps :: "lc_sys \<Rightarrow> lc_sys \<Rightarrow> bool" where
  "lc_steps \<equiv> lc_step\<^sup>*\<^sup>*"

abbreviation sys_state :: "lc_sys \<Rightarrow> LifecycleState" where
  "sys_state s \<equiv> cell_state (sys_cell s)"

lemma observe_fields [simp]:
  "sys_cell (observe ob s) = sys_cell s" "sys_pc (observe ob s) = sys_pc s"
  by (cases ob; simp)+

lemma thread_acts_cell: "sys_cell (thread_acts t s) = fst (snd (act (sys_pc s t) (sys_cell s)))"
  and thread_acts_pc: "sys_pc (thread_acts t s) = (sys_pc s)(t := fst (act (sys_pc s t) (sys_cell s)))"
  by (simp_all add: thread_acts_def case_prod_beta Let_def)

section \<open>Forward only\<close>

definition forward_pc :: "pc \<Rightarrow> bool" where
  "forward_pc p = (case p of
     DrainingCas fs \<Rightarrow> set fs \<subseteq> {Starting, Running}
   | StoppingCas fs \<Rightarrow> set fs \<subseteq> {Running, Draining}
   | _ \<Rightarrow> True)"

lemma le_states [simp]: "Starting \<le> Draining" "Running \<le> Dead"
  by simp_all

lemma act_forward:
  assumes "cell_ok c" "forward_pc p" "act p c = (p', c', ob)"
  shows "cell_ok c'" "cell_state c \<le> cell_state c'" "forward_pc p'" "ob \<noteq> Unreachable"
proof -
  obtain st where st: "lc_state c = as_u8 st" "cell_state c = st" "current c = Inr st"
      "distinct (lc_waiters c)"
    using assms(1) by (rule cell_okE)
  have "cell_ok c' \<and> cell_state c \<le> cell_state c' \<and> forward_pc p' \<and> ob \<noteq> Unreachable"
    using assms(2,3) st
    by (cases "(p, c)" rule: act.cases)
      (auto simp: forward_pc_def compare_exchange_def cell_ok_def Let_def cell_state_def current_def
        split: if_splits)
  then show "cell_ok c'" "cell_state c \<le> cell_state c'" "forward_pc p'" "ob \<noteq> Unreachable" by auto
qed

definition forward_sys :: "lc_sys \<Rightarrow> bool" where
  "forward_sys s \<longleftrightarrow> cell_ok (sys_cell s) \<and> (\<forall>t. forward_pc (sys_pc s t))"

lemma entry_forward: "entry p \<Longrightarrow> forward_pc p"
  by (cases p) (auto simp: forward_pc_def)

lemma step_forward:
  assumes "lc_step s s'" "forward_sys s"
  shows "forward_sys s' \<and> sys_state s \<le> sys_state s'"
  using assms
proof (cases rule: lc_step.cases)
  case (Act t)
  obtain p c ob where a: "act (sys_pc s t) (sys_cell s) = (p, c, ob)"
    by (cases "act (sys_pc s t) (sys_cell s)")
  from act_forward [OF _ _ a] assms(2) Act show ?thesis
    by (auto simp: forward_sys_def thread_acts_cell thread_acts_pc a)
qed (auto simp: forward_sys_def entry_forward)

lemma init_forward [simp]: "forward_sys lc_init"
  by (simp add: forward_sys_def lc_init_def forward_pc_def)

lemma steps_forward:
  "lc_steps s s' \<Longrightarrow> forward_sys s \<Longrightarrow> forward_sys s' \<and> sys_state s \<le> sys_state s'"
  by (induction rule: rtranclp_induct) (auto dest: step_forward order_trans)

section \<open>No lost wakeup\<close>

text \<open>
  A waker is underway when its task was notified or a thread is about to wake it. A task that
  waits, or that has registered and is about to check again, has its waker registered or
  underway; once the transition it waits for has happened, the waker is underway or a thread
  is about to take the list.
\<close>

definition underway :: "lc_sys \<Rightarrow> waker \<Rightarrow> bool" where
  "underway s w \<longleftrightarrow> w \<in> sys_notified s \<or> (\<exists>t ws. sys_pc s t = WakeEach ws \<and> w \<in> set ws)"

definition taking :: "lc_sys \<Rightarrow> bool" where
  "taking s \<longleftrightarrow> (\<exists>t. sys_pc s t = WakeTake)"

definition rechecking :: "lc_sys \<Rightarrow> waker \<Rightarrow> bool" where
  "rechecking s w \<longleftrightarrow> (\<exists>t. sys_pc s t = TerminalRecheck w \<or> sys_pc s t = LeaveRecheck w)"

definition no_waiter_lost :: "lc_sys \<Rightarrow> bool" where
  "no_waiter_lost s \<longleftrightarrow>
     (\<forall>w. w \<in> sys_terminal s \<or> w \<in> sys_leave s \<or> rechecking s w \<longrightarrow>
        w \<in> set (lc_waiters (sys_cell s)) \<or> underway s w) \<and>
     (\<forall>w \<in> sys_terminal s. sys_state s = Dead \<longrightarrow> underway s w \<or> taking s) \<and>
     (\<forall>w \<in> sys_leave s. sys_state s \<noteq> Starting \<longrightarrow> underway s w \<or> taking s)"

text \<open>
  The ways an action can touch what the invariant speaks of, one lemma each: the thread moves
  on and nothing else happens, the state moves and the thread goes on to take the list, the
  list is taken, a waker is woken, a waker is registered, a poll ends.
\<close>

lemma underway_upd:
  assumes "\<And>ws. sys_pc s t \<noteq> WakeEach ws" "underway s w"
  shows "underway (s\<lparr>sys_cell := c, sys_pc := (sys_pc s)(t := p)\<rparr>) w"
  using assms unfolding underway_def by (simp, metis fun_upd_other)

lemma rechecking_upd:
  assumes "\<And>w. p \<noteq> TerminalRecheck w" "\<And>w. p \<noteq> LeaveRecheck w"
    "rechecking (s\<lparr>sys_cell := c, sys_pc := (sys_pc s)(t := p)\<rparr>) w"
  shows "rechecking s w"
  using assms unfolding rechecking_def by (auto split: if_splits)

lemma taking_upd:
  assumes "sys_pc s t \<noteq> WakeTake" "taking s"
  shows "taking (s\<lparr>sys_cell := c, sys_pc := (sys_pc s)(t := p)\<rparr>)"
  using assms unfolding taking_def by (simp, metis fun_upd_other)

lemma lost_move:
  assumes "no_waiter_lost s"
    and "\<And>ws. sys_pc s t \<noteq> WakeEach ws" "sys_pc s t \<noteq> WakeTake"
    and "\<And>w. p \<noteq> TerminalRecheck w" "\<And>w. p \<noteq> LeaveRecheck w"
    and "lc_waiters c = lc_waiters (sys_cell s)"
    and "p = WakeTake \<or> ((cell_state c = Dead \<longrightarrow> sys_state s = Dead) \<and>
      (cell_state c \<noteq> Starting \<longrightarrow> sys_state s \<noteq> Starting))"
  shows "no_waiter_lost (s\<lparr>sys_cell := c, sys_pc := (sys_pc s)(t := p)\<rparr>)"
proof -
  let ?s = "s\<lparr>sys_cell := c, sys_pc := (sys_pc s)(t := p)\<rparr>"
  have u: "underway ?s w" if "underway s w" for w by (rule underway_upd [OF assms(2) that])
  have r: "rechecking s w" if "rechecking ?s w" for w by (rule rechecking_upd [OF assms(4,5) that])
  have "taking ?s" if "taking s" by (rule taking_upd [OF assms(3) that])
  moreover have "taking ?s" if "p = WakeTake" using that by (auto simp: taking_def)
  ultimately have "taking ?s" if "taking s \<or> p = WakeTake" using that by blast
  with u r assms(1,6,7) show ?thesis by (fastforce simp: no_waiter_lost_def)
qed

lemma lost_pc:
  assumes "no_waiter_lost s"
    and "\<And>ws. sys_pc s t \<noteq> WakeEach ws" "sys_pc s t \<noteq> WakeTake"
    and "\<And>w. p \<noteq> TerminalRecheck w" "\<And>w. p \<noteq> LeaveRecheck w"
  shows "no_waiter_lost (s\<lparr>sys_pc := (sys_pc s)(t := p)\<rparr>)"
  using lost_move [OF assms, of "sys_cell s"] by simp

lemma ghost_fields [simp]:
  "underway (s\<lparr>sys_terminal := A\<rparr>) w = underway s w" "underway (s\<lparr>sys_leave := A\<rparr>) w = underway s w"
  "rechecking (s\<lparr>sys_terminal := A\<rparr>) w = rechecking s w"
  "rechecking (s\<lparr>sys_leave := A\<rparr>) w = rechecking s w"
  "taking (s\<lparr>sys_terminal := A\<rparr>) = taking s" "taking (s\<lparr>sys_leave := A\<rparr>) = taking s"
  by (simp_all add: underway_def rechecking_def taking_def)

lemma lost_insert:
  assumes "no_waiter_lost s" "w \<in> set (lc_waiters (sys_cell s)) \<or> underway s w"
  shows "sys_state s \<noteq> Dead \<Longrightarrow> no_waiter_lost (s\<lparr>sys_terminal := insert w (sys_terminal s)\<rparr>)"
    "sys_state s = Starting \<Longrightarrow> no_waiter_lost (s\<lparr>sys_leave := insert w (sys_leave s)\<rparr>)"
  using assms by (simp_all add: no_waiter_lost_def)

lemma lost_take:
  assumes "no_waiter_lost s" "sys_pc s t = WakeTake"
  shows "no_waiter_lost (s\<lparr>sys_cell := (sys_cell s)\<lparr>lc_waiters := []\<rparr>,
    sys_pc := (sys_pc s)(t := WakeEach (lc_waiters (sys_cell s)))\<rparr>)" (is "no_waiter_lost ?s")
proof -
  have t: "sys_pc s t \<noteq> WakeEach ws" for ws using assms(2) by simp
  have "underway ?s w" if "w \<in> set (lc_waiters (sys_cell s)) \<or> underway s w" for w
  proof (cases "underway s w")
    case True
    show ?thesis by (rule underway_upd [OF t True])
  next
    case False
    with that show ?thesis by (auto simp: underway_def intro: exI [of _ t])
  qed
  moreover have "rechecking s w" if "rechecking ?s w" for w
    by (rule rechecking_upd [OF _ _ that]; simp)
  ultimately show ?thesis
    using assms(1) unfolding no_waiter_lost_def by simp
qed

lemma lost_wake:
  assumes "no_waiter_lost s" "sys_pc s t = WakeEach (w # ws)"
  shows "no_waiter_lost (s\<lparr>sys_cell := sys_cell s, sys_pc := (sys_pc s)(t := WakeEach ws),
    sys_notified := insert w (sys_notified s)\<rparr>)" (is "no_waiter_lost ?s")
proof -
  have u: "underway ?s v" if "underway s v" for v
  proof -
    from that consider "v \<in> sys_notified s" | t' vs where "sys_pc s t' = WakeEach vs" "v \<in> set vs"
      unfolding underway_def by blast
    then show ?thesis
    proof cases
      case (2 t' vs)
      with assms(2) show ?thesis
        by (cases "t' = t") (auto simp: underway_def intro: exI [of _ t])
    qed (simp add: underway_def)
  qed
  have r: "rechecking s v" if "rechecking ?s v" for v
    using that by (auto simp: rechecking_def split: if_splits)
  have "taking ?s" if "taking s"
  proof -
    from that obtain t' where "sys_pc s t' = WakeTake" by (auto simp: taking_def)
    with assms(2) show ?thesis by (auto simp: taking_def intro: exI [of _ t'])
  qed
  with u r assms(1) show ?thesis unfolding no_waiter_lost_def by simp blast
qed

lemma lost_woken:
  assumes "no_waiter_lost s" "sys_pc s t = WakeEach []"
  shows "no_waiter_lost (s\<lparr>sys_cell := sys_cell s, sys_pc := (sys_pc s)(t := Idle)\<rparr>)"
    (is "no_waiter_lost ?s")
proof -
  have u: "underway ?s v" if v: "underway s v" for v
  proof (cases "v \<in> sys_notified s")
    case False
    with v obtain t' vs where "sys_pc s t' = WakeEach vs" "v \<in> set vs"
      unfolding underway_def by blast
    with assms(2) show ?thesis by (cases "t' = t") (auto simp: underway_def intro: exI [of _ t'])
  qed (simp add: underway_def)
  have r: "rechecking s v" if "rechecking ?s v" for v
    by (rule rechecking_upd [OF _ _ that]; simp)
  have tk: "taking ?s" if "taking s" by (rule taking_upd [OF _ that]) (use assms(2) in auto)
  show ?thesis
    using assms(1) u r tk unfolding no_waiter_lost_def by (simp del: fun_upd_apply) blast
qed

lemma lost_register:
  assumes "no_waiter_lost s" "sys_pc s t = TerminalRegister w \<or> sys_pc s t = LeaveRegister w"
    and p: "p = TerminalRecheck w \<or> p = LeaveRecheck w"
  shows "no_waiter_lost (s\<lparr>sys_cell := (sys_cell s)\<lparr>lc_waiters := register w (lc_waiters (sys_cell s))\<rparr>,
    sys_pc := (sys_pc s)(t := p)\<rparr>)" (is "no_waiter_lost ?s")
proof -
  have u: "underway ?s v" if "underway s v" for v
    by (rule underway_upd [OF _ that]) (use assms(2) in auto)
  have r: "rechecking s v \<or> v = w" if "rechecking ?s v" for v
    using that p
    by (auto simp: rechecking_def split: if_splits)
  have tk: "taking ?s" if "taking s" by (rule taking_upd [OF _ that]) (use assms(2) in auto)
  have st: "sys_state ?s = sys_state s" by (simp add: cell_state_def current_def)
  show ?thesis
    using assms(1) u r tk st unfolding no_waiter_lost_def
    by (simp del: fun_upd_apply) blast
qed

lemma lost_sleep:
  assumes "no_waiter_lost s" "sys_pc s t = TerminalRecheck w \<or> sys_pc s t = LeaveRecheck w"
  shows "sys_state s \<noteq> Dead \<Longrightarrow> no_waiter_lost (s\<lparr>sys_pc := (sys_pc s)(t := Idle),
      sys_terminal := insert w (sys_terminal s)\<rparr>)"
    and "sys_state s = Starting \<Longrightarrow> no_waiter_lost (s\<lparr>sys_pc := (sys_pc s)(t := Idle),
      sys_leave := insert w (sys_leave s)\<rparr>)"
proof -
  let ?s = "s\<lparr>sys_pc := (sys_pc s)(t := Idle)\<rparr>"
  have "rechecking s w" using assms(2) by (auto simp: rechecking_def)
  with assms(1) have "w \<in> set (lc_waiters (sys_cell s)) \<or> underway s w"
    by (simp add: no_waiter_lost_def)
  moreover have "underway ?s w" if "underway s w"
    using underway_upd [where c = "sys_cell s" and p = Idle, OF _ that] assms(2) by auto
  moreover have "no_waiter_lost ?s" by (rule lost_pc [OF assms(1)]) (use assms(2) in auto)
  ultimately show "sys_state s \<noteq> Dead \<Longrightarrow> no_waiter_lost (s\<lparr>sys_pc := (sys_pc s)(t := Idle),
      sys_terminal := insert w (sys_terminal s)\<rparr>)"
    "sys_state s = Starting \<Longrightarrow> no_waiter_lost (s\<lparr>sys_pc := (sys_pc s)(t := Idle),
      sys_leave := insert w (sys_leave s)\<rparr>)"
    using lost_insert [of ?s w] by auto
qed

lemma lost_ready:
  assumes "no_waiter_lost s"
  shows "no_waiter_lost (s\<lparr>sys_terminal := sys_terminal s - {w}\<rparr>)"
    "no_waiter_lost (s\<lparr>sys_leave := sys_leave s - {w}\<rparr>)"
  using assms by (simp_all add: no_waiter_lost_def) blast+

lemma lost_ready_pc:
  assumes "no_waiter_lost (s\<lparr>sys_pc := pcs\<rparr>)"
  shows "no_waiter_lost (s\<lparr>sys_pc := pcs, sys_terminal := sys_terminal s - {w}\<rparr>)"
    "no_waiter_lost (s\<lparr>sys_pc := pcs, sys_leave := sys_leave s - {w}\<rparr>)"
  using lost_ready [OF assms, of w] by simp_all

lemma lost_act:
  assumes "no_waiter_lost s" "forward_sys s" "sys_pc s t \<noteq> Idle"
  shows "no_waiter_lost (thread_acts t s)"
proof -
  obtain st where st: "lc_state (sys_cell s) = as_u8 st" "sys_state s = st"
      "current (sys_cell s) = Inr st"
    using assms(2) unfolding forward_sys_def by (auto elim: cell_okE)
  have fwd: "forward_pc (sys_pc s t)" using assms(2) by (simp add: forward_sys_def)
  note move = lost_move [OF assms(1)]
  show ?thesis
  proof (cases "sys_pc s t")
    case (DrainingCas fs)
    with fwd st show ?thesis
      by (cases fs) (auto simp: thread_acts_def compare_exchange_def forward_pc_def Let_def intro!: move lost_pc [OF assms(1)])
  next
    case (StoppingCas fs)
    with fwd st show ?thesis
      by (cases fs) (auto simp: thread_acts_def compare_exchange_def forward_pc_def Let_def intro!: move lost_pc [OF assms(1)])
  next
    case WakeTake
    with lost_take [OF assms(1) this] show ?thesis by (simp add: thread_acts_def)
  next
    case (WakeEach ws)
    show ?thesis
    proof (cases ws)
      case Nil
      have "sys_pc s t = WakeEach []" using WakeEach Nil by simp
      from lost_woken [OF assms(1) this] show ?thesis using WakeEach Nil by (simp add: thread_acts_def)
    next
      case (Cons w ws')
      with WakeEach lost_wake [OF assms(1), of t w ws'] show ?thesis by (simp add: thread_acts_def)
    qed
  next
    case (TerminalRegister w)
    with lost_register [OF assms(1), of t w "TerminalRecheck w"] show ?thesis
      by (simp add: thread_acts_def)
  next
    case (LeaveRegister w)
    with lost_register [OF assms(1), of t w "LeaveRecheck w"] show ?thesis
      by (simp add: thread_acts_def)
  next
    case (TerminalRecheck w)
    with lost_sleep(1) [OF assms(1), of t w] st show ?thesis
      by (auto simp: thread_acts_def intro!: move lost_pc [OF assms(1)] lost_ready_pc)
  next
    case (LeaveRecheck w)
    with lost_sleep(2) [OF assms(1), of t w] st show ?thesis
      by (auto simp: thread_acts_def intro!: move lost_pc [OF assms(1)] lost_ready_pc)
  qed (use assms(3) st in \<open>auto simp: thread_acts_def compare_exchange_def intro!: move lost_pc [OF assms(1)] lost_ready_pc\<close>)
qed

lemma lost_begin:
  assumes "no_waiter_lost s" "sys_pc s t = Idle" "entry p"
  shows "no_waiter_lost (s\<lparr>sys_pc := (sys_pc s)(t := p)\<rparr>)"
  by (rule lost_pc [OF assms(1)]) (use assms(2,3) in auto)

lemma lost_resume:
  assumes "no_waiter_lost s" "\<forall>t. polling (sys_pc s t) \<noteq> Some w"
  shows "no_waiter_lost (s\<lparr>sys_notified := sys_notified s - {w}, sys_terminal := sys_terminal s - {w},
    sys_leave := sys_leave s - {w}\<rparr>)" (is "no_waiter_lost ?s")
proof -
  have "underway ?s v" if "underway s v" "v \<noteq> w" for v
    using that by (auto simp: underway_def)
  moreover have "rechecking s v \<and> v \<noteq> w" if "rechecking ?s v" for v
    using that assms(2) by (simp add: rechecking_def) (metis polling.simps(3,6))
  moreover have "taking ?s = taking s" by (simp add: taking_def)
  ultimately show ?thesis using assms(1) unfolding no_waiter_lost_def by simp blast
qed

lemma step_lost:
  assumes "lc_step s s'" "no_waiter_lost s" "forward_sys s"
  shows "no_waiter_lost s'"
  using assms by (cases rule: lc_step.cases) (auto intro: lost_begin lost_act lost_resume)

lemma init_lost [simp]: "no_waiter_lost lc_init"
  by (simp add: no_waiter_lost_def lc_init_def rechecking_def)

lemma steps_lost: "lc_steps lc_init s \<Longrightarrow> no_waiter_lost s"
  by (induction rule: rtranclp_induct) (auto dest: steps_forward intro: step_lost)

lemma quiet_notified:
  assumes "lc_steps lc_init s" "\<forall>t. sys_pc s t = Idle"
  shows "sys_state s = Dead \<Longrightarrow> sys_terminal s \<subseteq> sys_notified s"
    "sys_state s \<noteq> Starting \<Longrightarrow> sys_leave s \<subseteq> sys_notified s"
  using steps_lost [OF assms(1)] assms(2)
  by (auto simp: no_waiter_lost_def underway_def taking_def)

section \<open>Stop requests\<close>

text \<open>
  Once the actor has left \<open>Starting\<close> a stop request takes effect whatever interleaves with it.
\<close>

definition stop_taken :: "nat \<Rightarrow> lc_sys \<Rightarrow> bool" where
  "stop_taken t s \<longleftrightarrow> Draining \<le> sys_state s \<or>
     (sys_state s = Running \<and> sys_pc s t = DrainingCas [Running, Starting])"

lemma not_le_Running: "\<not> Draining \<le> st \<Longrightarrow> st \<noteq> Starting \<Longrightarrow> st = Running"
  by (cases st) (simp_all add: state_le)

lemma step_stop_taken:
  assumes "lc_step s s'" "forward_sys s" "stop_taken t s"
  shows "stop_taken t s'"
proof (cases "Draining \<le> sys_state s'")
  case False
  have mono: "sys_state s \<le> sys_state s'" using step_forward [OF assms(1,2)] by simp
  with False have run: "sys_state s = Running" "sys_pc s t = DrainingCas [Running, Starting]"
    using assms(3) order_trans by (auto simp: stop_taken_def)
  have "sys_state s' \<noteq> Starting" using mono run(1) by auto
  with False have run': "sys_state s' = Running" by (rule not_le_Running)
  from assms(1) show ?thesis
  proof (cases rule: lc_step.cases)
    case (Act t')
    have "t' \<noteq> t"
    proof
      assume "t' = t"
      obtain st where "lc_state (sys_cell s) = as_u8 st" "sys_state s = st"
        using assms(2) unfolding forward_sys_def by (auto elim: cell_okE)
      with run(1) have "lc_state (sys_cell s) = as_u8 Running" by simp
      then have "sys_state s' = Draining"
        using Act \<open>t' = t\<close> run(2) by (simp add: thread_acts_cell compare_exchange_def)
      with run' show False by simp
    qed
    with Act run run' show ?thesis by (simp add: stop_taken_def thread_acts_pc)
  qed (use run run' in \<open>auto simp: stop_taken_def\<close>)
qed (simp add: stop_taken_def)

lemma steps_stop_taken:
  "lc_steps s s' \<Longrightarrow> forward_sys s \<Longrightarrow> stop_taken t s \<Longrightarrow> stop_taken t s'"
proof (induction rule: rtranclp_induct)
  case (step s1 s2)
  with steps_forward [OF step.hyps(1)] show ?case by (auto intro: step_stop_taken)
qed

text \<open>Schedules: which thread begins what, or acts.\<close>

fun schedule :: "(nat \<times> pc option) list \<Rightarrow> lc_sys \<Rightarrow> lc_sys option" where
  "schedule [] s = Some s"
| "schedule ((t, Some p) # rest) s =
     (if sys_pc s t = Idle \<and> entry p then schedule rest (s\<lparr>sys_pc := (sys_pc s)(t := p)\<rparr>) else None)"
| "schedule ((t, None) # rest) s =
     (if sys_pc s t \<noteq> Idle then schedule rest (thread_acts t s) else None)"

lemma schedule_steps: "schedule xs s = Some s' \<Longrightarrow> lc_steps s s'"
proof (induction xs s rule: schedule.induct)
  case (2 t p rest s)
  then show ?case
    by (auto split: if_splits intro: converse_rtranclp_into_rtranclp lc_step.Begin)
next
  case (3 t rest s)
  then show ?case
    by (auto split: if_splits intro: converse_rtranclp_into_rtranclp lc_step.Act)
qed simp

section \<open>Properties of the lifecycle cell\<close>

text \<open>C6: Under every interleaving of any number of threads the lifecycle only moves forward, its
  byte always decodes (the \<open>unreachable!\<close> of \<open>from_raw\<close> is), and no waker is registered
  twice.\<close>

theorem lifecycle_forward:
  assumes "lc_steps lc_init s" "lc_steps s s'"
  shows "sys_state s \<le> sys_state s' \<and> current (sys_cell s') = Inr (sys_state s') \<and>
    distinct (lc_waiters (sys_cell s'))"
proof -
  have "forward_sys s" using steps_forward [OF assms(1)] by simp
  with steps_forward [OF assms(2)] show ?thesis
    by (auto simp: forward_sys_def elim: cell_okE)
qed

definition dead_sys :: lc_sys where
  "dead_sys = thread_acts 1 (lc_init\<lparr>sys_pc := (sys_pc lc_init)(1 := DeadStore)\<rparr>)"

lemma dead_sys_reached: "lc_steps lc_init dead_sys"
  by (rule schedule_steps [of "[(1, Some DeadStore), (1, None)]"])
    (simp add: dead_sys_def lc_init_def)

theorem lifecycle_forward_witness:
  "sys_state lc_init \<le> sys_state dead_sys \<and> current (sys_cell dead_sys) = Inr (sys_state dead_sys) \<and>
    distinct (lc_waiters (sys_cell dead_sys))"
  by (rule lifecycle_forward [OF rtranclp.rtrancl_refl dead_sys_reached])

text \<open>C7: No wakeup is lost: when every thread has finished what it began, a task asleep on
  \<open>wait_for_terminal\<close> of a dead actor has been notified since it last ran, and so has one
  asleep on \<open>wait_leave_starting\<close> of an actor past \<open>Starting\<close>.\<close>

theorem no_lost_wakeup:
  assumes "lc_steps lc_init s" "\<forall>t. sys_pc s t = Idle"
  shows "(sys_state s = Dead \<longrightarrow> sys_terminal s \<subseteq> sys_notified s) \<and>
    (sys_state s \<noteq> Starting \<longrightarrow> sys_leave s \<subseteq> sys_notified s)"
  using quiet_notified [OF assms] by blast

definition waiting_schedule :: "(nat \<times> pc option) list" where
  "waiting_schedule = [(1, Some (TerminalLoad 7)), (1, None), (2, Some DeadStore), (1, None),
     (1, None), (2, None), (2, None), (2, None), (2, None)]"

lemma waiting_schedule_runs:
  "\<exists>s. schedule waiting_schedule lc_init = Some s \<and> (\<forall>t. sys_pc s t = Idle) \<and>
     sys_state s = Dead \<and> sys_terminal s = {7}"
  by (simp add: waiting_schedule_def lc_init_def thread_acts_def lifecycle_cell_new_def
      current_def register_def)

theorem no_lost_wakeup_witness:
  "\<exists>s :: lc_sys. sys_terminal s = {7} \<and> sys_terminal s \<subseteq> sys_notified s"
proof -
  obtain s where s: "schedule waiting_schedule lc_init = Some s" "\<forall>t. sys_pc s t = Idle"
      "sys_state s = Dead" "sys_terminal s = {7}"
    using waiting_schedule_runs by blast
  from no_lost_wakeup [OF schedule_steps [OF s(1)] s(2)] s(3,4) show ?thesis
    by (intro exI [of _ s]) simp
qed

text \<open>Each transition function is its sequence of atomic accesses run without interference,
  waking the same tasks, and takes the states as its documentation says: \<open>transition_running\<close>
  leaves \<open>Starting\<close> only, \<open>transition_draining\<close> takes \<open>Starting\<close> and \<open>Running\<close>,
  \<open>transition_stopping\<close> takes \<open>Running\<close> and \<open>Draining\<close>, \<open>transition_dead\<close> all.\<close>

theorem transitions_functional:
  assumes "cell_ok c" "length (lc_waiters c) + 4 < fuel"
  shows "\<exists>o1 o2 o3 o4.
    run_alone fuel RunningCas c = Some (o1, snd (transition_running c)) \<and>
    woken_in o1 = fst (transition_running c) \<and>
    cell_state (snd (transition_running c)) =
      (if cell_state c = Starting then Running else cell_state c) \<and>
    run_alone fuel (DrainingCas [Running, Starting]) c = Some (o2, snd (transition_draining c)) \<and>
    woken_in o2 = fst (transition_draining c) \<and>
    cell_state (snd (transition_draining c)) =
      (if cell_state c \<le> Running then Draining else cell_state c) \<and>
    run_alone fuel (StoppingCas [Running, Draining]) c = Some (o3, transition_stopping c) \<and>
    cell_state (transition_stopping c) =
      (if cell_state c = Running \<or> cell_state c = Draining then Stopping else cell_state c) \<and>
    run_alone fuel DeadStore c = Some (o4, snd (transition_dead c)) \<and>
    woken_in o4 = fst (transition_dead c) \<and> cell_state (snd (transition_dead c)) = Dead"
  using assms transition_states [OF assms(1)]
    run_alone_running [of c fuel] run_alone_draining [of c "[Running, Starting]" fuel]
    run_alone_stopping [of "[Running, Draining]" fuel c] run_alone_dead [of c fuel]
  unfolding transition_draining_def transition_stopping_def by simp

theorem transitions_functional_witness:
  "cell_state (snd (transition_draining lifecycle_cell_new)) = Draining"
  using transitions_functional [of lifecycle_cell_new 5]
  by (auto simp: lifecycle_cell_new_def cell_ok_def)

text \<open>A stop request begun once the actor has left \<open>Starting\<close> is never lost: however the
  threads interleave, when the request has run the lifecycle is at \<open>Draining\<close> or past it, so
  \<open>should_stop\<close> holds from then on.\<close>

theorem stop_request_taken:
  assumes "lc_steps lc_init s" "sys_pc s t = DrainingCas [Running, Starting]"
    and "sys_state s \<noteq> Starting" "lc_steps s s'" "sys_pc s' t = Idle"
  shows "Draining \<le> sys_state s'"
proof -
  have "stop_taken t s"
    using assms(2,3) not_le_Running [of "sys_state s"] by (auto simp: stop_taken_def)
  with steps_stop_taken [OF assms(4)] steps_forward [OF assms(1)] have "stop_taken t s'" by simp
  with assms(5) show ?thesis by (simp add: stop_taken_def)
qed

definition stop_schedule :: "(nat \<times> pc option) list" where
  "stop_schedule = [(2, Some RunningCas), (2, None), (1, Some (DrainingCas [Running, Starting]))]"

lemma stop_schedule_runs:
  "\<exists>s s'. schedule stop_schedule lc_init = Some s \<and>
     sys_pc s 1 = DrainingCas [Running, Starting] \<and> sys_state s \<noteq> Starting \<and>
     schedule [(1, None), (1, None), (1, None)] s = Some s' \<and> sys_pc s' 1 = Idle"
  by (simp add: stop_schedule_def lc_init_def thread_acts_def lifecycle_cell_new_def
      compare_exchange_def)

theorem stop_request_taken_witness: "\<exists>s :: lc_sys. sys_pc s 1 = Idle \<and> Draining \<le> sys_state s"
proof -
  obtain s s' where s: "schedule stop_schedule lc_init = Some s"
      "sys_pc s 1 = DrainingCas [Running, Starting]" "sys_state s \<noteq> Starting"
      "schedule [(1, None), (1, None), (1, None)] s = Some s'" "sys_pc s' 1 = Idle"
    using stop_schedule_runs by blast
  from stop_request_taken [OF schedule_steps [OF s(1)] s(2,3) schedule_steps [OF s(4)] s(5)] s(5)
  show ?thesis by blast
qed

text \<open>A stop request begun while the actor is \<open>Starting\<close> can be lost: its first
  compare-exchange fails, \<open>transition_running\<close> intervenes, its second fails too, and both
  end with the lifecycle at \<open>Running\<close>.\<close>

theorem stop_request_race:
  "\<exists>s s'. lc_steps lc_init s \<and> sys_pc s 1 = DrainingCas [Running, Starting] \<and>
     lc_steps s s' \<and> (\<forall>t. sys_pc s' t = Idle) \<and> sys_state s' = Running"
proof -
  have "\<exists>s s'. schedule [(1, Some (DrainingCas [Running, Starting]))] lc_init = Some s \<and>
     sys_pc s 1 = DrainingCas [Running, Starting] \<and>
     schedule [(1, None), (2, Some RunningCas), (2, None), (1, None), (1, None), (2, None),
       (2, None)] s = Some s' \<and>
     (\<forall>t. sys_pc s' t = Idle) \<and> sys_state s' = Running"
    by (simp add: lc_init_def thread_acts_def lifecycle_cell_new_def compare_exchange_def)
  then show ?thesis by (blast intro: schedule_steps)
qed

end
