(* ===== verification/Pair_Arrays.thy ===== *)
theory Pair_Arrays
  imports Factories_Prelude
begin

text \<open>
  The two arrays of a multi-lane channel, \<open>crates/factories_actor/src/util/array.rs\<close>: arrays
  of uninitialised memory filled element by element. A cell is \<open>None\<close> until it is written, a
  write past the end or a read of a cell that was never written is undefined behaviour, here
  the fault \<open>Panic\<close>; the lemmas show that neither happens, and that a builder which panics
  half way leaves exactly the elements built so far to be dropped, each once.
\<close>

record 'a PartialArray =
  pa_data :: "'a option list"
  pa_initialized :: nat

definition partial_array_new :: "nat \<Rightarrow> 'a PartialArray" where
  "partial_array_new n = \<lparr>pa_data = replicate n None, pa_initialized = 0\<rparr>"

definition push_unchecked :: "'a PartialArray \<Rightarrow> 'a \<Rightarrow> (unit, 'a PartialArray) outcome" where
  "push_unchecked pa v =
     (if pa_initialized pa < length (pa_data pa)
      then Inr \<lparr>pa_data = (pa_data pa)[pa_initialized pa := Some v],
                pa_initialized = pa_initialized pa + 1\<rparr>
      else Inl Panic)"

definition assume_init :: "'a PartialArray \<Rightarrow> (unit, 'a list) outcome" where
  "assume_init pa =
     (if list_all (\<lambda>c. c \<noteq> None) (pa_data pa) then Inr (map the (pa_data pa)) else Inl Panic)"

text \<open>\<open>Drop\<close>: the values dropped in place, the cells below \<open>initialized\<close> in order.\<close>

definition partial_array_drop :: "'a PartialArray \<Rightarrow> (unit, 'a list) outcome" where
  "partial_array_drop pa =
     (let cells = take (pa_initialized pa) (pa_data pa) in
      if list_all (\<lambda>c. c \<noteq> None) cells then Inr (map the cells) else Inl Panic)"

text \<open>
  The loop of \<open>generate_pair_arrays\<close>; the builder may panic, and then both arrays are dropped
  as the panic unwinds: \<open>Inl\<close> is the arrays that are dropped, \<open>Inr\<close> the arrays that are full.
\<close>

fun fill_pair_arrays :: "(nat \<Rightarrow> ('a \<times> 'b) option) \<Rightarrow> nat list \<Rightarrow>
    'a PartialArray \<Rightarrow> 'b PartialArray \<Rightarrow>
    (unit, ('a PartialArray \<times> 'b PartialArray) + ('a PartialArray \<times> 'b PartialArray)) outcome" where
  "fill_pair_arrays builder [] pa pb = Inr (Inr (pa, pb))"
| "fill_pair_arrays builder (i # js) pa pb =
     (case builder i of
        None \<Rightarrow> Inr (Inl (pa, pb))
      | Some (a, b) \<Rightarrow>
          and_then (push_unchecked pa a) (\<lambda>pa.
          and_then (push_unchecked pb b) (\<lambda>pb.
            fill_pair_arrays builder js pa pb)))"

definition generate_pair_arrays :: "(nat \<Rightarrow> ('a \<times> 'b) option) \<Rightarrow> nat \<Rightarrow>
    (unit, ('a list \<times> 'b list) + ('a list \<times> 'b list)) outcome" where
  "generate_pair_arrays builder array_len =
     and_then (fill_pair_arrays builder [0..<array_len] (partial_array_new array_len)
         (partial_array_new array_len))
       (\<lambda>r. case r of
          Inr (pa, pb) \<Rightarrow>
            and_then (assume_init pa) (\<lambda>xs. and_then (assume_init pb) (\<lambda>ys. Inr (Inr (xs, ys))))
        | Inl (pa, pb) \<Rightarrow>
            and_then (partial_array_drop pb) (\<lambda>ys.
            and_then (partial_array_drop pa) (\<lambda>xs. Inr (Inl (xs, ys)))))"

section \<open>Properties\<close>

text \<open>An array whose first cells hold \<open>xs\<close> and whose others were never written.\<close>

definition holds :: "nat \<Rightarrow> 'a list \<Rightarrow> 'a PartialArray \<Rightarrow> bool" where
  "holds n xs pa \<longleftrightarrow> length xs \<le> n \<and> pa_initialized pa = length xs \<and>
     pa_data pa = map Some xs @ replicate (n - length xs) None"

lemma holds_new: "holds n [] (partial_array_new n)"
  by (simp add: holds_def partial_array_new_def)

lemma push_holds:
  assumes "holds n xs pa" "length xs < n"
  shows "\<exists>pa'. push_unchecked pa v = Inr pa' \<and> holds n (xs @ [v]) pa'"
proof -
  obtain k where "n - length xs = Suc k" using assms(2) by (cases "n - length xs") auto
  with assms show ?thesis
    by (auto simp: holds_def push_unchecked_def list_update_append nth_append)
qed

lemma assume_init_holds: "holds n xs pa \<Longrightarrow> length xs = n \<Longrightarrow> assume_init pa = Inr xs"
  by (auto simp: holds_def assume_init_def list_all_iff comp_def)

lemma drop_holds: "holds n xs pa \<Longrightarrow> partial_array_drop pa = Inr xs"
  by (auto simp: holds_def partial_array_drop_def list_all_iff comp_def)

text \<open>The builder's results up to the first panic.\<close>

fun built :: "(nat \<Rightarrow> 'c option) \<Rightarrow> nat list \<Rightarrow> 'c list \<times> bool" where
  "built builder [] = ([], True)"
| "built builder (i # js) =
     (case builder i of None \<Rightarrow> ([], False) | Some c \<Rightarrow> apfst ((#) c) (built builder js))"

lemma fill_pair_arrays_built:
  "holds n xs pa \<Longrightarrow> holds n ys pb \<Longrightarrow> length xs = length ys \<Longrightarrow> length xs + length js = n \<Longrightarrow>
     \<exists>pa' pb'. fill_pair_arrays builder js pa pb =
        Inr ((if snd (built builder js) then Inr else Inl) (pa', pb')) \<and>
      holds n (xs @ map fst (fst (built builder js))) pa' \<and>
      holds n (ys @ map snd (fst (built builder js))) pb'"
proof (induction js arbitrary: xs ys pa pb)
  case Nil
  then show ?case by auto
next
  case (Cons i js)
  show ?case
  proof (cases "builder i")
    case None
    with Cons.prems show ?thesis by auto
  next
    case (Some c)
    obtain a b where c: "c = (a, b)" by (cases c)
    have "length xs < n" using Cons.prems(4) by simp
    with push_holds [OF Cons.prems(1), of a] push_holds [OF Cons.prems(2), of b] Cons.prems(3)
    obtain pa1 pb1 where p: "push_unchecked pa a = Inr pa1" "holds n (xs @ [a]) pa1"
        "push_unchecked pb b = Inr pb1" "holds n (ys @ [b]) pb1"
      by auto
    have "length (xs @ [a]) = length (ys @ [b])" "length (xs @ [a]) + length js = n"
      using Cons.prems(3,4) by simp_all
    from Cons.IH [OF p(2,4) this] obtain pa2 pb2 where
      "fill_pair_arrays builder js pa1 pb1 =
        Inr ((if snd (built builder js) then Inr else Inl) (pa2, pb2))"
      "holds n ((xs @ [a]) @ map fst (fst (built builder js))) pa2"
      "holds n ((ys @ [b]) @ map snd (fst (built builder js))) pb2"
      by blast
    with Some c p(1,3) show ?thesis by (auto simp: apfst_def map_prod_def split: prod.splits)
  qed
qed

lemma built_all: "(\<And>i. i \<in> set js \<Longrightarrow> builder i = Some (f i)) \<Longrightarrow> built builder js = (map f js, True)"
  by (induction js) auto

text \<open>No write past the end and no read of an unwritten cell happens in
  \<open>generate_pair_arrays\<close>: if the builder returns for every index the arrays are its results in
  order, and if it panics the arrays dropped are exactly the halves of what it had returned
  before, each once.\<close>

theorem generate_pair_arrays_total:
  "generate_pair_arrays builder n =
     Inr ((if snd (built builder [0..<n]) then Inr else Inl)
       (map fst (fst (built builder [0..<n])), map snd (fst (built builder [0..<n]))))"
proof -
  have len: "snd (built builder js) \<Longrightarrow> length (fst (built builder js)) = length js" for js
    by (induction js) (auto split: option.splits)
  obtain pa pb where f: "fill_pair_arrays builder [0..<n] (partial_array_new n) (partial_array_new n) =
      Inr ((if snd (built builder [0..<n]) then Inr else Inl) (pa, pb))"
    "holds n (map fst (fst (built builder [0..<n]))) pa"
    "holds n (map snd (fst (built builder [0..<n]))) pb"
    using fill_pair_arrays_built [OF holds_new holds_new, of "[0..<n]" n builder] by auto
  show ?thesis
    using f len [of "[0..<n]"] drop_holds [OF f(2)] drop_holds [OF f(3)]
      assume_init_holds [OF f(2)] assume_init_holds [OF f(3)]
    by (cases "snd (built builder [0..<n])") (simp_all add: generate_pair_arrays_def)
qed

lemma generate_pair_arrays_ok:
  "generate_pair_arrays (\<lambda>i. Some (f i, g i)) n = Inr (Inr (map f [0..<n], map g [0..<n]))"
proof -
  obtain pa pb where "fill_pair_arrays (\<lambda>i. Some (f i, g i)) [0..<n] (partial_array_new n)
        (partial_array_new n) = Inr (Inr (pa, pb))"
      "holds n (map f [0..<n]) pa" "holds n (map g [0..<n]) pb"
    using fill_pair_arrays_built [OF holds_new holds_new, of "[0..<n]" n "\<lambda>i. Some (f i, g i)"]
      built_all [of "[0..<n]" "\<lambda>i. Some (f i, g i)" "\<lambda>i. (f i, g i)"]
    by (auto simp: comp_def)
  then show ?thesis by (simp add: generate_pair_arrays_def assume_init_holds)
qed

lemma generate_pair_arrays_panics:
  "builder 0 = None \<Longrightarrow> \<exists>r. generate_pair_arrays builder (Suc n) = Inr (Inl r)"
proof -
  assume "builder 0 = None"
  then have "fill_pair_arrays builder [0..<Suc n] pa pb = Inr (Inl (pa, pb))" for pa pb
    by (subst upt_rec) simp
  then show ?thesis
    by (simp add: generate_pair_arrays_def drop_holds [OF holds_new])
qed

end
