(* ===== verification/Mailbox.thy ===== *)
theory Mailbox
  imports Pair_Arrays
begin

text \<open>
  Channels and mailboxes: the contract of \<open>ActorMailbox\<close>
  (\<open>crates/factories_actor/src/spawn/channel.rs\<close>) as a locale, and the multi-lane channel
  over tokio's \<open>mpsc\<close> queues (\<open>crates/factories_actor/src/runtime/tokio/channel.rs\<close>) with its
  routing. Tokio is not part of the repository: its queue is a parameter, the record \<open>mpsc\<close>
  of its operations, and the locale \<open>mpsc_queue\<close> states what tokio documents of them.
\<close>

section \<open>The queue the channel is built on\<close>

datatype send_state = Sent | Full | Closed

text \<open>
  One end-to-end queue: bounded creation (a capacity of zero panics), unbounded creation, a
  send that does not wait, one poll of a receive, the receiver's \<open>close\<close>, and the loss of the
  last sender.
\<close>

record ('q, 'm) mpsc =
  mp_channel :: "nat \<Rightarrow> 'q option"
  mp_unbounded_channel :: "'q"
  mp_try_send :: "'q \<Rightarrow> 'm \<Rightarrow> send_state \<times> 'q"
  mp_poll_recv :: "'q \<Rightarrow> 'm option poll \<times> 'q"
  mp_close :: "'q \<Rightarrow> 'q"
  mp_senders_gone :: "'q \<Rightarrow> 'q"

section \<open>Channels\<close>

datatype ActorChannelSendError = ActorDead | MailboxFull | Unroutable | NotSendable | OtherError string

type_synonym send_result = "ActorChannelSendError + unit"

text \<open>A lane is one queue; sender and receiver agree on whether it is bounded.\<close>

datatype 'q lane = BoundedLane 'q | UnboundedLane 'q

fun lane_queue :: "'q lane \<Rightarrow> 'q" where
  "lane_queue (BoundedLane q) = q"
| "lane_queue (UnboundedLane q) = q"

fun with_queue :: "'q lane \<Rightarrow> 'q \<Rightarrow> 'q lane" where
  "with_queue (BoundedLane _) q = BoundedLane q"
| "with_queue (UnboundedLane _) q = UnboundedLane q"

datatype TokioMpscChannelCapacity = Unbounded | Bounded nat

definition default_capacity :: TokioMpscChannelCapacity where
  "default_capacity = Bounded 64"

text \<open>The channel and its mailbox share the lanes; the channel owns the router.\<close>

record ('q, 'm) multilane =
  ml_lanes :: "'q lane list"
  ml_priority :: "'m \<Rightarrow> nat"

definition no_priority_router :: "'m \<Rightarrow> nat" where
  "no_priority_router dispatched = 0"

definition new_lane :: "('q, 'm) mpsc \<Rightarrow> TokioMpscChannelCapacity \<Rightarrow> 'q lane option" where
  "new_lane ops capacity =
     (case capacity of
        Bounded n \<Rightarrow> map_option BoundedLane (mp_channel ops n)
      | Unbounded \<Rightarrow> Some (UnboundedLane (mp_unbounded_channel ops)))"

text \<open>
  \<open>build_with\<close> and \<open>create\<close>: the sender and the receiver of a lane are the two halves of the
  pair the lane builder returns, here the same queue twice. A builder that panics unwinds.
\<close>

definition build_with :: "(('m \<Rightarrow> nat) \<Rightarrow> nat \<Rightarrow> 'q lane option) \<Rightarrow> nat \<Rightarrow> ('m \<Rightarrow> nat) \<Rightarrow>
    (unit, ('q, 'm) multilane) outcome" where
  "build_with lane_builder send_lanes router =
     and_then (generate_pair_arrays (\<lambda>lane. map_option (\<lambda>l. (l, l)) (lane_builder router lane)) send_lanes)
       (\<lambda>r. case r of
          Inr (senders, receivers) \<Rightarrow> Inr \<lparr>ml_lanes = senders, ml_priority = router\<rparr>
        | Inl _ \<Rightarrow> Inl Panic)"

definition create_channel :: "('q, 'm) mpsc \<Rightarrow> TokioMpscChannelCapacity \<Rightarrow> nat \<Rightarrow> ('m \<Rightarrow> nat) \<Rightarrow>
    (unit, ('q, 'm) multilane) outcome" where
  "create_channel ops capacity send_lanes router =
     build_with (\<lambda>_ _. new_lane ops capacity) send_lanes router"

text \<open>
  A prepared send remembers the lane the router chose, \<open>None\<close> when the channel has no such
  lane.
\<close>

record 'm sendable =
  sd_lane :: "nat option"
  sd_message :: 'm

definition prepare_send :: "('q, 'm) multilane \<Rightarrow> 'm \<Rightarrow> 'm sendable" where
  "prepare_send ch m =
     (let lane = ml_priority ch m
      in \<lparr>sd_lane = (if lane < length (ml_lanes ch) then Some lane else None), sd_message = m\<rparr>)"

definition set_lane :: "('q, 'm) multilane \<Rightarrow> nat \<Rightarrow> 'q \<Rightarrow> ('q, 'm) multilane" where
  "set_lane ch i q = ch\<lparr>ml_lanes := (ml_lanes ch)[i := with_queue (ml_lanes ch ! i) q]\<rparr>"

definition try_send :: "('q, 'm) mpsc \<Rightarrow> ('m \<Rightarrow> bool) \<Rightarrow> ('q, 'm) multilane \<Rightarrow> 'm sendable \<Rightarrow>
    send_result \<times> ('q, 'm) multilane" where
  "try_send ops is_sendable ch s =
     (if \<not> is_sendable (sd_message s) then (Inl NotSendable, ch)
      else (case sd_lane s of
          None \<Rightarrow> (Inl Unroutable, ch)
        | Some i \<Rightarrow>
            (case ml_lanes ch ! i of
               BoundedLane q \<Rightarrow>
                 (case mp_try_send ops q (sd_message s) of
                    (Sent, q) \<Rightarrow> (Inr (), set_lane ch i q)
                  | (Full, q) \<Rightarrow> (Inl MailboxFull, set_lane ch i q)
                  | (Closed, q) \<Rightarrow> (Inl ActorDead, set_lane ch i q))
             | UnboundedLane q \<Rightarrow>
                 (case mp_try_send ops q (sd_message s) of
                    (Sent, q) \<Rightarrow> (Inr (), set_lane ch i q)
                  | (_, q) \<Rightarrow> (Inl ActorDead, set_lane ch i q)))))"

text \<open>
  One poll of \<open>send\<close>: a full queue is waited for. \<open>blocking_send\<close> parks the thread where the
  poll is pending, so it returns what the first poll that is ready returns.
\<close>

definition poll_send :: "('q, 'm) mpsc \<Rightarrow> ('m \<Rightarrow> bool) \<Rightarrow> ('q, 'm) multilane \<Rightarrow> 'm sendable \<Rightarrow>
    send_result poll \<times> ('q, 'm) multilane" where
  "poll_send ops is_sendable ch s =
     (if \<not> is_sendable (sd_message s) then (Ready (Inl NotSendable), ch)
      else (case sd_lane s of
          None \<Rightarrow> (Ready (Inl Unroutable), ch)
        | Some i \<Rightarrow>
            (case ml_lanes ch ! i of
               BoundedLane q \<Rightarrow>
                 (case mp_try_send ops q (sd_message s) of
                    (Sent, q) \<Rightarrow> (Ready (Inr ()), set_lane ch i q)
                  | (Full, q) \<Rightarrow> (Pending, set_lane ch i q)
                  | (Closed, q) \<Rightarrow> (Ready (Inl ActorDead), set_lane ch i q))
             | UnboundedLane q \<Rightarrow>
                 (case mp_try_send ops q (sd_message s) of
                    (Sent, q) \<Rightarrow> (Ready (Inr ()), set_lane ch i q)
                  | (_, q) \<Rightarrow> (Ready (Inl ActorDead), set_lane ch i q)))))"

section \<open>Mailboxes\<close>

fun poll_lanes :: "('q, 'm) mpsc \<Rightarrow> nat \<Rightarrow> nat \<Rightarrow> 'q lane list \<Rightarrow> 'm option poll \<times> 'q lane list" where
  "poll_lanes ops send_lanes exhausted [] =
     (if exhausted = send_lanes then Ready None else Pending, [])"
| "poll_lanes ops send_lanes exhausted (l # ls) =
     (case mp_poll_recv ops (lane_queue l) of
        (Ready (Some m), q) \<Rightarrow> (Ready (Some m), with_queue l q # ls)
      | (Ready None, q) \<Rightarrow>
          (let (r, ls') = poll_lanes ops send_lanes (exhausted + 1) ls in (r, with_queue l q # ls'))
      | (Pending, q) \<Rightarrow>
          (let (r, ls') = poll_lanes ops send_lanes exhausted ls in (r, with_queue l q # ls')))"

definition poll_receive :: "('q, 'm) mpsc \<Rightarrow> ('q, 'm) multilane \<Rightarrow>
    'm option poll \<times> ('q, 'm) multilane" where
  "poll_receive ops mb =
     (let (r, ls) = poll_lanes ops (length (ml_lanes mb)) 0 (ml_lanes mb)
      in (r, mb\<lparr>ml_lanes := ls\<rparr>))"

definition close_mailbox :: "('q, 'm) mpsc \<Rightarrow> ('q, 'm) multilane \<Rightarrow> ('q, 'm) multilane" where
  "close_mailbox ops mb =
     mb\<lparr>ml_lanes := map (\<lambda>l. with_queue l (mp_close ops (lane_queue l))) (ml_lanes mb)\<rparr>"

section \<open>The contract of a mailbox\<close>

text \<open>
  What \<open>ActorMailbox\<close> promises a run loop, over the messages a mailbox still has to hand out, in
  the order it will, and whether it refuses new ones: \<open>receive\<close> hands out the first, is pending
  on an open mailbox with nothing queued, and resolves to \<open>None\<close> once the mailbox is closed and
  drained; \<open>close\<close> keeps what is queued.
\<close>

locale actor_mailbox =
  fixes receive :: "'mb \<Rightarrow> 'm option poll \<times> 'mb"
    and close :: "'mb \<Rightarrow> 'mb"
    and backlog :: "'mb \<Rightarrow> 'm list"
    and refuses :: "'mb \<Rightarrow> bool"
  assumes receive_next: "backlog mb = m # ms \<Longrightarrow>
      \<exists>mb'. receive mb = (Ready (Some m), mb') \<and> backlog mb' = ms \<and> refuses mb' = refuses mb"
    and receive_empty: "backlog mb = [] \<Longrightarrow>
      \<exists>mb'. receive mb = (if refuses mb then Ready None else Pending, mb') \<and>
        backlog mb' = [] \<and> refuses mb' = refuses mb"
    and close_backlog: "backlog (close mb) = backlog mb"
    and close_refuses: "refuses (close mb)"

text \<open>Receiving until the mailbox is pending (\<open>False\<close>) or done (\<open>True\<close>), at most \<open>fuel\<close> times.\<close>

fun receive_all :: "('mb \<Rightarrow> 'm option poll \<times> 'mb) \<Rightarrow> nat \<Rightarrow> 'mb \<Rightarrow> ('m list \<times> bool \<times> 'mb) option" where
  "receive_all receive 0 mb = None"
| "receive_all receive (Suc fuel) mb =
     (case receive mb of
        (Ready (Some m), mb') \<Rightarrow>
          map_option (\<lambda>(ms, b, mb''). (m # ms, b, mb'')) (receive_all receive fuel mb')
      | (Ready None, mb') \<Rightarrow> Some ([], True, mb')
      | (Pending, mb') \<Rightarrow> Some ([], False, mb'))"

context actor_mailbox
begin

lemma receive_all_backlog:
  "length (backlog mb) < fuel \<Longrightarrow>
     \<exists>mb'. receive_all receive fuel mb = Some (backlog mb, refuses mb, mb') \<and>
       backlog mb' = [] \<and> refuses mb' = refuses mb"
proof (induction fuel arbitrary: mb)
  case 0
  then show ?case by simp
next
  case (Suc fuel)
  show ?case
  proof (cases "backlog mb")
    case Nil
    from receive_empty [OF this] Nil show ?thesis by auto
  next
    case (Cons m ms)
    from receive_next [OF Cons] obtain mb' where
      mb': "receive mb = (Ready (Some m), mb')" "backlog mb' = ms" "refuses mb' = refuses mb"
      by blast
    with Suc.IH [of mb'] Suc.prems Cons show ?thesis by auto
  qed
qed

text \<open>A closed mailbox hands out what was queued, in order, and then ends.\<close>

lemma close_drains:
  "length (backlog mb) < fuel \<Longrightarrow>
     \<exists>mb'. receive_all receive fuel (close mb) = Some (backlog mb, True, mb') \<and> backlog mb' = []"
  using receive_all_backlog [of "close mb" fuel] by (auto simp: close_backlog close_refuses)

end

section \<open>What tokio documents of its queues\<close>

definition has_room :: "nat option \<Rightarrow> 'm list \<Rightarrow> bool" where
  "has_room capacity queued = (case capacity of None \<Rightarrow> True | Some n \<Rightarrow> length queued < n)"

locale mpsc_queue =
  fixes ops :: "('q, 'm) mpsc"
    and contents :: "'q \<Rightarrow> 'm list"
    and closed :: "'q \<Rightarrow> bool"
    and capacity :: "'q \<Rightarrow> nat option"
  assumes channel_zero: "mp_channel ops 0 = None"
    and channel_new: "0 < n \<Longrightarrow> \<exists>q. mp_channel ops n = Some q \<and> contents q = [] \<and> \<not> closed q \<and>
      capacity q = Some n"
    and unbounded_new: "contents (mp_unbounded_channel ops) = []"
      "\<not> closed (mp_unbounded_channel ops)" "capacity (mp_unbounded_channel ops) = None"
    and send_fails: "closed q \<or> \<not> has_room (capacity q) (contents q) \<Longrightarrow>
      mp_try_send ops q m = (if closed q then Closed else Full, q)"
    and send_queues: "\<not> closed q \<Longrightarrow> has_room (capacity q) (contents q) \<Longrightarrow>
      \<exists>q'. mp_try_send ops q m = (Sent, q') \<and> contents q' = contents q @ [m] \<and>
        \<not> closed q' \<and> capacity q' = capacity q"
    and recv_next: "contents q = m # ms \<Longrightarrow>
      \<exists>q'. mp_poll_recv ops q = (Ready (Some m), q') \<and> contents q' = ms \<and> closed q' = closed q \<and>
        capacity q' = capacity q"
    and recv_empty: "contents q = [] \<Longrightarrow>
      \<exists>q'. mp_poll_recv ops q = (if closed q then Ready None else Pending, q') \<and>
        contents q' = [] \<and> closed q' = closed q \<and> capacity q' = capacity q"
    and close_queue: "contents (mp_close ops q) = contents q" "closed (mp_close ops q)"
      "capacity (mp_close ops q) = capacity q"
    and senders_gone: "contents (mp_senders_gone ops q) = contents q"
      "closed (mp_senders_gone ops q)" "capacity (mp_senders_gone ops q) = capacity q"

text \<open>A multi-lane mailbox hands out lane 0 first, then lane 1, and so on.\<close>

definition lanes_backlog :: "('q \<Rightarrow> 'm list) \<Rightarrow> ('q, 'm) multilane \<Rightarrow> 'm list" where
  "lanes_backlog contents mb = concat (map (\<lambda>l. contents (lane_queue l)) (ml_lanes mb))"

definition lanes_refuse :: "('q \<Rightarrow> bool) \<Rightarrow> ('q, 'm) multilane \<Rightarrow> bool" where
  "lanes_refuse closed mb \<longleftrightarrow> list_all (\<lambda>l. closed (lane_queue l)) (ml_lanes mb)"

lemma lane_queue_with_queue [simp]: "lane_queue (with_queue l q) = q"
  by (cases l) auto

context mpsc_queue
begin

lemma poll_lanes_spec:
  "\<exists>ls'. poll_lanes ops n e ls =
      (case concat (map (\<lambda>l. contents (lane_queue l)) ls) of
         m # ms \<Rightarrow> Ready (Some m)
       | [] \<Rightarrow> if e + length (filter (\<lambda>l. closed (lane_queue l)) ls) = n then Ready None else Pending, ls') \<and>
     concat (map (\<lambda>l. contents (lane_queue l)) ls') = tl (concat (map (\<lambda>l. contents (lane_queue l)) ls)) \<and>
     map (\<lambda>l. closed (lane_queue l)) ls' = map (\<lambda>l. closed (lane_queue l)) ls"
proof (induction ls arbitrary: e)
  case Nil
  then show ?case by simp
next
  case (Cons l ls)
  show ?case
  proof (cases "contents (lane_queue l)")
    case (Cons m ms)
    from recv_next [OF Cons] Cons show ?thesis by auto
  next
    case Nil
    from recv_empty [OF Nil] obtain q where q:
        "mp_poll_recv ops (lane_queue l) = (if closed (lane_queue l) then Ready None else Pending, q)"
        "contents q = []" "closed q = closed (lane_queue l)"
      by blast
    show ?thesis
      using Cons.IH [of "e + 1"] Cons.IH [of e] q Nil by (auto simp: Let_def)
  qed
qed

lemma poll_receive_spec:
  obtains mb' where "poll_receive ops mb =
      (case lanes_backlog contents mb of
         m # ms \<Rightarrow> Ready (Some m)
       | [] \<Rightarrow> if lanes_refuse closed mb then Ready None else Pending, mb')"
    "lanes_backlog contents mb' = tl (lanes_backlog contents mb)"
    "lanes_refuse closed mb' = lanes_refuse closed mb"
proof -
  obtain ls where ls: "poll_lanes ops (length (ml_lanes mb)) 0 (ml_lanes mb) =
      (case lanes_backlog contents mb of
         m # ms \<Rightarrow> Ready (Some m)
       | [] \<Rightarrow> if 0 + length (filter (\<lambda>l. closed (lane_queue l)) (ml_lanes mb)) = length (ml_lanes mb)
              then Ready None else Pending, ls)"
    "concat (map (\<lambda>l. contents (lane_queue l)) ls) = tl (lanes_backlog contents mb)"
    "map (\<lambda>l. closed (lane_queue l)) ls = map (\<lambda>l. closed (lane_queue l)) (ml_lanes mb)"
    using poll_lanes_spec [of "length (ml_lanes mb)" 0 "ml_lanes mb"]
    unfolding lanes_backlog_def by blast
  have "0 + length (filter (\<lambda>l. closed (lane_queue l)) (ml_lanes mb)) = length (ml_lanes mb) \<longleftrightarrow>
      lanes_refuse closed mb"
    by (simp add: lanes_refuse_def length_filter_all)
  moreover have "list_all (\<lambda>l. closed (lane_queue l)) xs \<longleftrightarrow> list_all id (map (\<lambda>l. closed (lane_queue l)) xs)" for xs
    by (simp add: list_all_iff)
  ultimately show ?thesis
    using ls by (intro that [of "mb\<lparr>ml_lanes := ls\<rparr>"])
      (simp_all add: poll_receive_def lanes_backlog_def lanes_refuse_def)
qed

lemma close_mailbox_spec:
  "lanes_backlog contents (close_mailbox ops mb) = lanes_backlog contents mb"
  "lanes_refuse closed (close_mailbox ops mb)"
  by (simp_all add: lanes_backlog_def lanes_refuse_def close_mailbox_def comp_def close_queue
      list_all_iff)

end

sublocale mpsc_queue \<subseteq> mailbox: actor_mailbox "poll_receive ops" "close_mailbox ops"
    "lanes_backlog contents" "lanes_refuse closed"
proof
  fix mb m ms
  assume "lanes_backlog contents mb = m # ms"
  then show "\<exists>mb'. poll_receive ops mb = (Ready (Some m), mb') \<and> lanes_backlog contents mb' = ms \<and>
      lanes_refuse closed mb' = lanes_refuse closed mb"
    by (rule_tac mb = mb in poll_receive_spec) auto
next
  fix mb
  assume "lanes_backlog contents mb = []"
  then show "\<exists>mb'. poll_receive ops mb =
      (if lanes_refuse closed mb then Ready None else Pending, mb') \<and>
      lanes_backlog contents mb' = [] \<and> lanes_refuse closed mb' = lanes_refuse closed mb"
    by (rule_tac mb = mb in poll_receive_spec) auto
qed (rule close_mailbox_spec)+

context mpsc_queue
begin

lemma mailbox_contract:
  "actor_mailbox (poll_receive ops) (close_mailbox ops) (lanes_backlog contents) (lanes_refuse closed)"
  by (rule mailbox.actor_mailbox_axioms)

end

section \<open>A queue as tokio documents it\<close>

text \<open>
  The least that satisfies the contract: a list, whether it is closed, and its capacity.
\<close>

record 'm fifo =
  ff_items :: "'m list"
  ff_closed :: bool
  ff_capacity :: "nat option"

definition fifo_mpsc :: "('m fifo, 'm) mpsc" where
  "fifo_mpsc =
     \<lparr>mp_channel = (\<lambda>n. if n = 0 then None
        else Some \<lparr>ff_items = [], ff_closed = False, ff_capacity = Some n\<rparr>),
      mp_unbounded_channel = \<lparr>ff_items = [], ff_closed = False, ff_capacity = None\<rparr>,
      mp_try_send = (\<lambda>q m.
        if ff_closed q then (Closed, q)
        else if has_room (ff_capacity q) (ff_items q)
          then (Sent, q\<lparr>ff_items := ff_items q @ [m]\<rparr>) else (Full, q)),
      mp_poll_recv = (\<lambda>q.
        case ff_items q of
          m # ms \<Rightarrow> (Ready (Some m), q\<lparr>ff_items := ms\<rparr>)
        | [] \<Rightarrow> (if ff_closed q then Ready None else Pending, q)),
      mp_close = (\<lambda>q. q\<lparr>ff_closed := True\<rparr>),
      mp_senders_gone = (\<lambda>q. q\<lparr>ff_closed := True\<rparr>)\<rparr>"

interpretation fifo: mpsc_queue fifo_mpsc ff_items ff_closed ff_capacity
  by unfold_locales (auto simp: fifo_mpsc_def)

section \<open>What a send does\<close>

definition lane_contents :: "('q \<Rightarrow> 'm list) \<Rightarrow> ('q, 'm) multilane \<Rightarrow> nat \<Rightarrow> 'm list" where
  "lane_contents contents ch i = contents (lane_queue (ml_lanes ch ! i))"

text \<open>A lane built as unbounded has no capacity.\<close>

fun lane_ok :: "('q \<Rightarrow> nat option) \<Rightarrow> 'q lane \<Rightarrow> bool" where
  "lane_ok capacity (UnboundedLane q) \<longleftrightarrow> capacity q = None"
| "lane_ok capacity (BoundedLane q) \<longleftrightarrow> True"

definition lanes_ok :: "('q \<Rightarrow> nat option) \<Rightarrow> ('q, 'm) multilane \<Rightarrow> bool" where
  "lanes_ok capacity ch \<longleftrightarrow> list_all (lane_ok capacity) (ml_lanes ch)"

text \<open>What a send answers, from the lane the router chose.\<close>

definition send_answer :: "('q \<Rightarrow> 'm list) \<Rightarrow> ('q \<Rightarrow> bool) \<Rightarrow> ('q \<Rightarrow> nat option) \<Rightarrow>
    ('m \<Rightarrow> bool) \<Rightarrow> ('q, 'm) multilane \<Rightarrow> 'm \<Rightarrow> send_result" where
  "send_answer contents closed capacity is_sendable ch m =
     (let i = ml_priority ch m; q = lane_queue (ml_lanes ch ! i) in
      if \<not> is_sendable m then Inl NotSendable
      else if length (ml_lanes ch) \<le> i then Inl Unroutable
      else if closed q then Inl ActorDead
      else if \<not> has_room (capacity q) (contents q) then Inl MailboxFull
      else Inr ())"

lemma set_lane_contents:
  "i < length (ml_lanes ch) \<Longrightarrow> j < length (ml_lanes ch) \<Longrightarrow>
     lane_contents contents (set_lane ch i q) j =
       (if i = j then contents q else lane_contents contents ch j)"
  by (simp add: lane_contents_def set_lane_def)

lemma set_lane_simps [simp]:
  "length (ml_lanes (set_lane ch i q)) = length (ml_lanes ch)"
  "ml_priority (set_lane ch i q) = ml_priority ch"
  "j < length (ml_lanes ch) \<Longrightarrow> lane_queue (ml_lanes (set_lane ch i q) ! j) =
     (if i = j then q else lane_queue (ml_lanes ch ! j))"
  by (simp_all add: set_lane_def nth_list_update)

lemma lane_ok_with_queue:
  "lane_ok capacity l \<Longrightarrow> capacity q = capacity (lane_queue l) \<Longrightarrow> lane_ok capacity (with_queue l q)"
  by (cases l) auto

lemma set_lane_ok:
  "lanes_ok capacity ch \<Longrightarrow> i < length (ml_lanes ch) \<Longrightarrow>
   capacity q = capacity (lane_queue (ml_lanes ch ! i)) \<Longrightarrow> lanes_ok capacity (set_lane ch i q)"
  unfolding lanes_ok_def set_lane_def list_all_length
  by (auto simp: nth_list_update intro: lane_ok_with_queue)

lemma set_lane_same:
  "set_lane ch i (lane_queue (ml_lanes ch ! i)) = ch"
proof -
  have "with_queue l (lane_queue l) = l" for l :: "'a lane" by (cases l) auto
  then show ?thesis by (simp add: set_lane_def)
qed

context mpsc_queue
begin

lemma try_send_answer:
  assumes "lanes_ok capacity ch"
  obtains ch' where
    "try_send ops is_sendable ch (prepare_send ch m) =
       (send_answer contents closed capacity is_sendable ch m, ch')"
    "send_answer contents closed capacity is_sendable ch m \<noteq> Inr () \<Longrightarrow> ch' = ch"
    "send_answer contents closed capacity is_sendable ch m = Inr () \<Longrightarrow>
       lane_contents contents ch' (ml_priority ch m) =
         lane_contents contents ch (ml_priority ch m) @ [m]"
    "\<And>j. j < length (ml_lanes ch) \<Longrightarrow> j \<noteq> ml_priority ch m \<Longrightarrow>
       lane_contents contents ch' j = lane_contents contents ch j"
    "length (ml_lanes ch') = length (ml_lanes ch)" "ml_priority ch' = ml_priority ch"
    "lanes_ok capacity ch'"
    "\<And>j. j < length (ml_lanes ch) \<Longrightarrow> closed (lane_queue (ml_lanes ch' ! j)) =
       closed (lane_queue (ml_lanes ch ! j)) \<and>
       capacity (lane_queue (ml_lanes ch' ! j)) = capacity (lane_queue (ml_lanes ch ! j))"
proof (cases "is_sendable m \<and> ml_priority ch m < length (ml_lanes ch)")
  case False
  then show ?thesis
    by (intro that [of ch]) (use assms in \<open>auto simp: try_send_def prepare_send_def send_answer_def Let_def split: if_splits\<close>)
next
  case True
  let ?i = "ml_priority ch m" and ?q = "lane_queue (ml_lanes ch ! ml_priority ch m)"
  have lane: "lane_ok capacity (ml_lanes ch ! ?i)"
    using assms True by (simp add: lanes_ok_def list_all_length)
  show ?thesis
  proof (cases "closed ?q \<or> \<not> has_room (capacity ?q) (contents ?q)")
    case fails: True
    note fail = send_fails [OF fails, of m]
    have ne: "send_answer contents closed capacity is_sendable ch m \<noteq> Inr ()"
      using True fails by (auto simp: send_answer_def Let_def)
    have "try_send ops is_sendable ch (prepare_send ch m) =
        (send_answer contents closed capacity is_sendable ch m, ch)"
      using True fails fail lane set_lane_same [of ch ?i]
      by (cases "ml_lanes ch ! ?i")
        (auto simp: try_send_def prepare_send_def send_answer_def Let_def has_room_def)
    with ne assms show ?thesis by (intro that [of ch]) auto
  next
    case False
    then obtain q where q: "mp_try_send ops ?q m = (Sent, q)" "contents q = contents ?q @ [m]"
        "\<not> closed q" "capacity q = capacity ?q"
      using send_queues [of ?q m] by auto
    have "try_send ops is_sendable ch (prepare_send ch m) = (Inr (), set_lane ch ?i q)"
      using True q by (cases "ml_lanes ch ! ?i") (auto simp: try_send_def prepare_send_def Let_def)
    moreover have "send_answer contents closed capacity is_sendable ch m = Inr ()"
      using True False by (simp add: send_answer_def Let_def)
    ultimately show ?thesis
      using True False q set_lane_ok [OF assms, of ?i q]
      by (intro that [of "set_lane ch ?i q"]) (auto simp: set_lane_contents lane_contents_def)
  qed
qed

text \<open>One poll of \<open>send\<close> answers what \<open>try_send\<close> does, except that it waits for room.\<close>

lemma poll_send_try_send:
  assumes "lanes_ok capacity ch"
  shows "poll_send ops is_sendable ch (prepare_send ch m) =
    (case try_send ops is_sendable ch (prepare_send ch m) of
       (r, ch') \<Rightarrow> (if r = Inl MailboxFull then Pending else Ready r, ch'))"
proof -
  have lane: "lane_ok capacity (ml_lanes ch ! i)" if "i < length (ml_lanes ch)" for i
    using assms that by (simp add: lanes_ok_def list_all_length)
  show ?thesis
    by (auto simp: poll_send_def try_send_def prepare_send_def Let_def
        split: lane.splits prod.splits send_state.splits)
qed

end

text \<open>Sending a list of messages one after the other, keeping the answers.\<close>

fun send_all :: "('q, 'm) mpsc \<Rightarrow> ('m \<Rightarrow> bool) \<Rightarrow> ('q, 'm) multilane \<Rightarrow> 'm list \<Rightarrow>
    send_result list \<times> ('q, 'm) multilane" where
  "send_all ops is_sendable ch [] = ([], ch)"
| "send_all ops is_sendable ch (m # ms) =
     (let (r, ch') = try_send ops is_sendable ch (prepare_send ch m);
          (rs, ch'') = send_all ops is_sendable ch' ms
      in (r # rs, ch''))"

text \<open>Room for \<open>n\<close> more messages on every lane of an open channel.\<close>

definition roomy :: "('q \<Rightarrow> 'm list) \<Rightarrow> ('q \<Rightarrow> bool) \<Rightarrow> ('q \<Rightarrow> nat option) \<Rightarrow> nat \<Rightarrow>
    ('q, 'm) multilane \<Rightarrow> bool" where
  "roomy contents closed capacity n ch \<longleftrightarrow>
     (\<forall>i < length (ml_lanes ch). let q = lane_queue (ml_lanes ch ! i) in
        \<not> closed q \<and> (case capacity q of None \<Rightarrow> True | Some c \<Rightarrow> length (contents q) + n \<le> c))"

context mpsc_queue
begin

lemma send_all_roomy:
  "lanes_ok capacity ch \<Longrightarrow> roomy contents closed capacity (length ms) ch \<Longrightarrow>
   list_all is_sendable ms \<Longrightarrow> list_all (\<lambda>m. ml_priority ch m < length (ml_lanes ch)) ms \<Longrightarrow>
     \<exists>ch'. send_all ops is_sendable ch ms = (replicate (length ms) (Inr ()), ch') \<and>
       length (ml_lanes ch') = length (ml_lanes ch) \<and>
       (\<forall>i < length (ml_lanes ch). lane_contents contents ch' i =
          lane_contents contents ch i @ filter (\<lambda>m. ml_priority ch m = i) ms)"
proof (induction ms arbitrary: ch)
  case Nil
  then show ?case by simp
next
  case (Cons m ms)
  let ?p = "ml_priority ch m"
  have p: "?p < length (ml_lanes ch)" "is_sendable m" using Cons.prems(3,4) by simp_all
  have "has_room (capacity (lane_queue (ml_lanes ch ! ?p))) (contents (lane_queue (ml_lanes ch ! ?p)))"
    "\<not> closed (lane_queue (ml_lanes ch ! ?p))"
    using Cons.prems(2) p by (auto simp: roomy_def Let_def has_room_def split: option.splits)
  with p have ans: "send_answer contents closed capacity is_sendable ch m = Inr ()"
    by (simp add: send_answer_def Let_def)
  obtain ch1 where s: "try_send ops is_sendable ch (prepare_send ch m) = (Inr (), ch1)"
      "lane_contents contents ch1 ?p = lane_contents contents ch ?p @ [m]"
      "\<And>j. j < length (ml_lanes ch) \<Longrightarrow> j \<noteq> ?p \<Longrightarrow>
         lane_contents contents ch1 j = lane_contents contents ch j"
      "length (ml_lanes ch1) = length (ml_lanes ch)" "ml_priority ch1 = ml_priority ch"
      "lanes_ok capacity ch1"
      "\<And>j. j < length (ml_lanes ch) \<Longrightarrow> closed (lane_queue (ml_lanes ch1 ! j)) =
         closed (lane_queue (ml_lanes ch ! j)) \<and>
         capacity (lane_queue (ml_lanes ch1 ! j)) = capacity (lane_queue (ml_lanes ch ! j))"
    using try_send_answer [OF Cons.prems(1), of is_sendable m] ans by metis
  have "roomy contents closed capacity (length ms) ch1"
    unfolding roomy_def Let_def
  proof (intro allI impI)
    fix i assume i: "i < length (ml_lanes ch1)"
    have "length (lane_contents contents ch1 i) \<le> length (lane_contents contents ch i) + 1"
      using i s(2-4) by (cases "i = ?p") auto
    then show "\<not> closed (lane_queue (ml_lanes ch1 ! i)) \<and>
        (case capacity (lane_queue (ml_lanes ch1 ! i)) of None \<Rightarrow> True
         | Some c \<Rightarrow> length (contents (lane_queue (ml_lanes ch1 ! i))) + length ms \<le> c)"
      using Cons.prems(2) i s(4) s(7) [of i]
      by (auto simp: roomy_def Let_def lane_contents_def split: option.splits)
  qed
  with Cons.IH [of ch1] s(4-6) Cons.prems(3,4) obtain ch2 where
    "send_all ops is_sendable ch1 ms = (replicate (length ms) (Inr ()), ch2)"
    "length (ml_lanes ch2) = length (ml_lanes ch)"
    "\<forall>i < length (ml_lanes ch). lane_contents contents ch2 i =
       lane_contents contents ch1 i @ filter (\<lambda>m. ml_priority ch m = i) ms"
    by auto
  with s(1-3) show ?case by auto
qed

lemma create_channel_spec:
  "create_channel ops (Bounded 0) (Suc n) router = Inl Panic"
  "0 < c \<Longrightarrow> \<exists>ch. create_channel ops (Bounded c) n router = Inr ch \<and> length (ml_lanes ch) = n \<and>
     ml_priority ch = router \<and> lanes_ok capacity ch \<and> lanes_backlog contents ch = [] \<and>
     roomy contents closed capacity c ch"
  "\<exists>ch. create_channel ops Unbounded n router = Inr ch \<and> length (ml_lanes ch) = n \<and>
     ml_priority ch = router \<and> lanes_ok capacity ch \<and> lanes_backlog contents ch = [] \<and>
     roomy contents closed capacity k ch"
proof -
  show "create_channel ops (Bounded 0) (Suc n) router = Inl Panic"
    using generate_pair_arrays_panics [of "\<lambda>lane. map_option (\<lambda>l. (l, l)) (new_lane ops (Bounded 0))" n]
    by (auto simp: create_channel_def build_with_def new_lane_def channel_zero)
  show "\<exists>ch. create_channel ops (Bounded c) n router = Inr ch \<and> length (ml_lanes ch) = n \<and>
     ml_priority ch = router \<and> lanes_ok capacity ch \<and> lanes_backlog contents ch = [] \<and>
     roomy contents closed capacity c ch" if c: "0 < c"
  proof -
    obtain q where q: "mp_channel ops c = Some q" "contents q = []" "\<not> closed q" "capacity q = Some c"
      using channel_new [OF c] by blast
    then show ?thesis
      by (auto simp: create_channel_def build_with_def new_lane_def generate_pair_arrays_ok
          lanes_ok_def list_all_iff lanes_backlog_def roomy_def)
  qed
  show "\<exists>ch. create_channel ops Unbounded n router = Inr ch \<and> length (ml_lanes ch) = n \<and>
     ml_priority ch = router \<and> lanes_ok capacity ch \<and> lanes_backlog contents ch = [] \<and>
     roomy contents closed capacity k ch"
    using unbounded_new
    by (auto simp: create_channel_def build_with_def new_lane_def generate_pair_arrays_ok
        lanes_ok_def list_all_iff lanes_backlog_def roomy_def)
qed

end

section \<open>Properties\<close>

lemma roomy_mono: "roomy contents closed capacity c ch \<Longrightarrow> n \<le> c \<Longrightarrow> roomy contents closed capacity n ch"
  by (fastforce simp: roomy_def Let_def split: option.splits)

lemma length_partition:
  "list_all (\<lambda>m. f m < n) ms \<Longrightarrow> length (concat (map (\<lambda>i. filter (\<lambda>m. f m = i) ms) [0..<n])) = length ms"
proof (induction ms)
  case Nil
  then show ?case by (simp add: length_concat comp_def)
next
  case (Cons m ms)
  then have "f m < n" "length (concat (map (\<lambda>i. filter (\<lambda>m. f m = i) ms) [0..<n])) = length ms"
    by simp_all
  moreover have "sum_list (map (\<lambda>i. length (filter (\<lambda>m. f m = i) (m # ms))) [0..<n]) =
      sum_list (map (\<lambda>i. if i = f m then 1 else 0) [0..<n]) +
      sum_list (map (\<lambda>i. length (filter (\<lambda>m. f m = i) ms)) [0..<n])"
    by (simp add: sum_list_addf [symmetric]) (rule arg_cong [of _ _ sum_list], auto)
  moreover have "sum_list (map (\<lambda>i. if i = f m then 1 else 0) [0..<n]) = (1 :: nat)"
    using \<open>f m < n\<close> by (simp add: interv_sum_list_conv_sum_set_nat)
  ultimately show ?case by (simp add: length_concat comp_def)
qed

text \<open>C8: For every queue that keeps tokio's contract: messages sent one after the other to a fresh
  bounded channel with room for them are all accepted, and once the mailbox is closed it hands
  out exactly those messages, a higher-priority lane before a lower one and in the order of
  sending within a lane, and then ends.\<close>

theorem mailbox_priority_order:
  assumes "mpsc_queue ops contents closed capacity" "0 < c"
    and "create_channel ops (Bounded c) n router = Inr ch"
    and "length ms \<le> c" "length ms < fuel"
    and "list_all is_sendable ms" "list_all (\<lambda>m. router m < n) ms"
  shows "\<exists>ch' mb. send_all ops is_sendable ch ms = (replicate (length ms) (Inr ()), ch') \<and>
    receive_all (poll_receive ops) fuel (close_mailbox ops ch') =
      Some (concat (map (\<lambda>i. filter (\<lambda>m. router m = i) ms) [0..<n]), True, mb)"
proof -
  from mpsc_queue.create_channel_spec(2) [OF assms(1,2), of n router] assms(3)
  have ch: "length (ml_lanes ch) = n" "ml_priority ch = router" "lanes_ok capacity ch"
      "lanes_backlog contents ch = []" "roomy contents closed capacity (length ms) ch"
    using roomy_mono assms(4) by auto
  then obtain ch' where ch': "send_all ops is_sendable ch ms = (replicate (length ms) (Inr ()), ch')"
      "length (ml_lanes ch') = n"
      "\<forall>i < n. lane_contents contents ch' i =
         lane_contents contents ch i @ filter (\<lambda>m. router m = i) ms"
    using mpsc_queue.send_all_roomy [OF assms(1) ch(3,5) assms(6)] assms(7) by auto
  have empty: "lane_contents contents ch i = []" if "i < n" for i
    using ch(1,4) that by (auto simp: lanes_backlog_def lane_contents_def)
  have "lanes_backlog contents ch' = concat (map (lane_contents contents ch') [0..<n])"
    unfolding lanes_backlog_def lane_contents_def ch'(2) [symmetric]
    by (rule arg_cong [of _ _ concat]) (auto intro: nth_equalityI)
  also have "\<dots> = concat (map (\<lambda>i. filter (\<lambda>m. router m = i) ms) [0..<n])"
    using ch'(3) empty by (intro arg_cong [of _ _ concat]) auto
  finally have backlog: "lanes_backlog contents ch' =
      concat (map (\<lambda>i. filter (\<lambda>m. router m = i) ms) [0..<n])" .
  have "length (concat (map (\<lambda>i. filter (\<lambda>m. router m = i) ms) [0..<n])) = length ms"
    using assms(7) by (rule length_partition)
  with assms(5) backlog have "length (lanes_backlog contents ch') < fuel" by simp
  from actor_mailbox.close_drains
    [OF mpsc_queue.mailbox_contract [OF assms(1)] this] ch'(1) backlog
  show ?thesis by auto
qed

definition sample_channel :: "(nat fifo, nat) multilane" where
  "sample_channel = \<lparr>ml_lanes = replicate 2 (BoundedLane \<lparr>ff_items = [], ff_closed = False,
     ff_capacity = Some 4\<rparr>), ml_priority = (\<lambda>m. m mod 2)\<rparr>"

lemma sample_channel_created:
  "create_channel fifo_mpsc (Bounded 4) 2 (\<lambda>m. m mod 2) = Inr sample_channel"
  by (simp add: create_channel_def build_with_def new_lane_def generate_pair_arrays_ok fifo_mpsc_def
      sample_channel_def map_replicate_const)

theorem mailbox_priority_order_witness:
  "\<exists>ch' mb. send_all fifo_mpsc (\<lambda>_. True) sample_channel [1, 2, 3, 4] =
      (replicate (length [1, 2, 3, 4 :: nat]) (Inr ()), ch') \<and>
    receive_all (poll_receive fifo_mpsc) 9 (close_mailbox fifo_mpsc ch') = Some ([2, 4, 1, 3], True, mb)"
proof -
  have order: "concat (map (\<lambda>i. filter (\<lambda>m. m mod 2 = i) [1, 2, 3, 4]) [0..<2]) = [2, 4, 1, 3 :: nat]"
    by (simp add: upt_rec)
  have "0 < (4::nat)" "length [1, 2, 3, 4::nat] \<le> 4" "length [1, 2, 3, 4::nat] < 9"
    "list_all (\<lambda>_. True) [1, 2, 3, 4::nat]" "list_all (\<lambda>m. m mod 2 < 2) [1, 2, 3, 4::nat]"
    by simp_all
  from mailbox_priority_order [OF fifo.mpsc_queue_axioms this(1) sample_channel_created this(2-5)]
  show ?thesis unfolding order .
qed

text \<open>C9: What \<open>try_send\<close> answers, in the order of its checks: a message that cannot cross threads is
  refused before routing, a lane the channel does not have is unroutable, a closed queue means
  the actor is dead, a full one that the mailbox is full; only an accepted message changes the
  channel, at the end of its own lane. \<open>send\<close> answers the same, but waits for room.\<close>

theorem send_answers:
  assumes "mpsc_queue ops contents closed capacity" "lanes_ok capacity ch"
  shows "\<exists>ch'. try_send ops is_sendable ch (prepare_send ch m) =
      (send_answer contents closed capacity is_sendable ch m, ch') \<and>
    poll_send ops is_sendable ch (prepare_send ch m) =
      (if send_answer contents closed capacity is_sendable ch m = Inl MailboxFull then Pending
       else Ready (send_answer contents closed capacity is_sendable ch m), ch') \<and>
    (if send_answer contents closed capacity is_sendable ch m = Inr ()
     then \<forall>j < length (ml_lanes ch). lane_contents contents ch' j =
       lane_contents contents ch j @ (if j = ml_priority ch m then [m] else [])
     else ch' = ch)"
proof -
  obtain ch' where s: "try_send ops is_sendable ch (prepare_send ch m) =
      (send_answer contents closed capacity is_sendable ch m, ch')"
    "send_answer contents closed capacity is_sendable ch m \<noteq> Inr () \<Longrightarrow> ch' = ch"
    "send_answer contents closed capacity is_sendable ch m = Inr () \<Longrightarrow>
       lane_contents contents ch' (ml_priority ch m) =
         lane_contents contents ch (ml_priority ch m) @ [m]"
    "\<And>j. j < length (ml_lanes ch) \<Longrightarrow> j \<noteq> ml_priority ch m \<Longrightarrow>
       lane_contents contents ch' j = lane_contents contents ch j"
    using mpsc_queue.try_send_answer [OF assms] by metis
  then show ?thesis
    using mpsc_queue.poll_send_try_send [OF assms, of is_sendable m] by auto
qed

theorem send_answers_witness:
  "\<exists>ch'. try_send fifo_mpsc (\<lambda>_. True) sample_channel (prepare_send sample_channel 3) = (Inr (), ch') \<and>
    lane_contents ff_items ch' 1 = [3] \<and> lane_contents ff_items ch' 0 = []"
proof -
  have ok: "lanes_ok ff_capacity sample_channel" by (simp add: lanes_ok_def sample_channel_def list_all_iff)
  have "send_answer ff_items ff_closed ff_capacity (\<lambda>_. True) sample_channel 3 = Inr ()"
    by (simp add: send_answer_def sample_channel_def has_room_def Let_def)
  with send_answers [OF fifo.mpsc_queue_axioms ok, of "\<lambda>_. True" 3] show ?thesis
    by (auto simp: sample_channel_def lane_contents_def)
qed

text \<open>A channel whose lanes are bounded to a capacity of zero cannot be created: creating it
  panics, for every number of lanes but none, as tokio's \<open>channel(0)\<close> does.\<close>

theorem zero_capacity_panics:
  assumes "mpsc_queue ops contents closed capacity"
  shows "create_channel ops (Bounded 0) (Suc n) router = Inl Panic"
  by (rule mpsc_queue.create_channel_spec(1) [OF assms])

theorem zero_capacity_panics_witness:
  "create_channel fifo_mpsc (Bounded 0) 3 (no_priority_router :: nat \<Rightarrow> nat) = Inl Panic"
  using zero_capacity_panics [OF fifo.mpsc_queue_axioms, of 2 no_priority_router]
  by (simp add: numeral_3_eq_3 numeral_2_eq_2)

end
