(* ===== verification/Sync.thy ===== *)
theory Sync
  imports Factories_Prelude
begin

text \<open>
  The synchronisation primitives, \<open>crates/factories_sync/src\<close>: the critical-section mutex of
  \<open>raw.rs\<close> with its re-entrancy flag, and the write-once cell of \<open>once.rs\<close>. The cell is given
  as functions, what it does when nothing interferes, with the contract its users rely on as
  the locale \<open>write_once\<close>; and as threads whose atomic accesses interleave, for which the
  lemmas show that a reader never sees memory that was not written and that the value never
  changes once it is there.
\<close>

section \<open>The critical-section mutex\<close>

text \<open>
  What a closure run under the lock does, as far as the lock can see: it returns, it panics, or
  it locks the same mutex again and, where that returns, goes on. The state is the flag
  \<open>taken\<close>. The critical section keeps other threads out for the whole call, so a call is a
  function of the flag.
\<close>

datatype closure = Returns | Panics | Locks closure closure

fun with_lock :: "closure \<Rightarrow> bool \<Rightarrow> (unit, unit) outcome \<times> bool"
and run_closure :: "closure \<Rightarrow> bool \<Rightarrow> (unit, unit) outcome \<times> bool" where
  "with_lock body taken =
     (if taken then (Inl Panic, True)
      else (case run_closure body True of (r, _) \<Rightarrow> (r, False)))"
| "run_closure Returns taken = (Inr (), taken)"
| "run_closure Panics taken = (Inl Panic, taken)"
| "run_closure (Locks body rest) taken =
     (case with_lock body taken of
        (Inl f, taken') \<Rightarrow> (Inl f, taken')
      | (Inr _, taken') \<Rightarrow> run_closure rest taken')"

lemma run_closure_taken: "run_closure body True =
    (case body of Returns \<Rightarrow> (Inr (), True) | _ \<Rightarrow> (Inl Panic, True))"
  by (cases body) simp_all

lemma with_lock_free:
  "with_lock body False = (if body = Returns then Inr () else Inl Panic, False)"
  by (cases body) (simp_all add: run_closure_taken)

section \<open>The write-once cell\<close>

definition EMPTY :: u8 where "EMPTY = 0"
definition FULL :: u8 where "FULL = 1"

lemma EMPTY_FULL [simp]: "EMPTY \<noteq> FULL" "FULL \<noteq> EMPTY"
  by (simp_all add: EMPTY_def FULL_def)

text \<open>\<open>None\<close> is memory that was never written; reading it is undefined behaviour, a fault.\<close>

record 'v OnceCell =
  oc_state :: u8
  oc_value :: "'v option"

definition once_new :: "'v OnceCell" where
  "once_new = \<lparr>oc_state = EMPTY, oc_value = None\<rparr>"

definition assume_init_ref :: "'v OnceCell \<Rightarrow> (unit, 'v) outcome" where
  "assume_init_ref cell = (case oc_value cell of None \<Rightarrow> Inl Panic | Some v \<Rightarrow> Inr v)"

definition once_get :: "'v OnceCell \<Rightarrow> (unit, 'v option) outcome" where
  "once_get cell =
     (if oc_state cell = FULL then and_then (assume_init_ref cell) (\<lambda>v. Inr (Some v)) else Inr None)"

definition once_set :: "'v \<Rightarrow> 'v OnceCell \<Rightarrow> ('v + unit) \<times> 'v OnceCell" where
  "once_set value cell =
     (if oc_state cell = FULL then (Inl value, cell)
      else (Inr (), cell\<lparr>oc_value := Some value, oc_state := FULL\<rparr>))"

text \<open>The initialiser may panic: \<open>None\<close>.\<close>

definition once_get_or_init :: "'v option \<Rightarrow> 'v OnceCell \<Rightarrow> (unit, 'v) outcome \<times> 'v OnceCell" where
  "once_get_or_init f cell =
     (case once_get cell of
        Inl e \<Rightarrow> (Inl e, cell)
      | Inr (Some v) \<Rightarrow> (Inr v, cell)
      | Inr None \<Rightarrow>
          (if oc_state cell \<noteq> FULL then
             (case f of
                None \<Rightarrow> (Inl Panic, cell)
              | Some v \<Rightarrow>
                  (let cell' = cell\<lparr>oc_value := Some v, oc_state := FULL\<rparr>
                   in (case once_get cell' of
                         Inr (Some v') \<Rightarrow> (Inr v', cell')
                       | _ \<Rightarrow> (Inl Panic, cell'))))
           else (case once_get cell of
                   Inr (Some v') \<Rightarrow> (Inr v', cell)
                 | _ \<Rightarrow> (Inl Panic, cell))))"

text \<open>\<open>Drop\<close>: the value dropped in place, if any.\<close>

definition once_drop :: "'v OnceCell \<Rightarrow> (unit, 'v option) outcome" where
  "once_drop cell =
     (if oc_state cell = FULL then and_then (assume_init_ref cell) (\<lambda>v. Inr (Some v)) else Inr None)"

definition once_ok :: "'v OnceCell \<Rightarrow> bool" where
  "once_ok cell \<longleftrightarrow>
     (oc_state cell = EMPTY \<and> oc_value cell = None) \<or> (oc_state cell = FULL \<and> oc_value cell \<noteq> None)"

text \<open>
  The contract a holder of a write-once cell relies on: reading is by the value, the first write
  is taken and every later one handed back.
\<close>

locale write_once =
  fixes get :: "'c \<Rightarrow> 'v option"
    and set_value :: "'v \<Rightarrow> 'c \<Rightarrow> ('v + unit) \<times> 'c"
    and ok :: "'c \<Rightarrow> bool"
  assumes set_empty: "ok c \<Longrightarrow> get c = None \<Longrightarrow>
      \<exists>c'. set_value v c = (Inr (), c') \<and> get c' = Some v \<and> ok c'"
    and set_full: "ok c \<Longrightarrow> get c = Some w \<Longrightarrow> set_value v c = (Inl v, c)"
begin

lemma set_ok: "ok c \<Longrightarrow> ok (snd (set_value v c))"
  using set_empty [of c v] set_full [of c _ v] by (cases "get c") auto

lemma get_set: "ok c \<Longrightarrow> get (snd (set_value v c)) = (case get c of None \<Rightarrow> Some v | Some w \<Rightarrow> Some w)"
  using set_empty [of c v] set_full [of c _ v] by (cases "get c") auto

text \<open>Of any number of writes the first is the one that is read.\<close>

lemma first_wins:
  "ok c \<Longrightarrow> get (fold (\<lambda>v c. snd (set_value v c)) vs c) =
     (case get c of Some w \<Rightarrow> Some w | None \<Rightarrow> if vs = [] then None else Some (hd vs))"
proof (induction vs arbitrary: c)
  case (Cons v vs)
  with set_ok [of c v] get_set [of c v] show ?case by (auto split: option.splits)
qed (simp split: option.splits)

end

text \<open>The cell's reading, when its memory is in order.\<close>

definition once_read :: "'v OnceCell \<Rightarrow> 'v option" where
  "once_read cell = (case once_get cell of Inr r \<Rightarrow> r | Inl _ \<Rightarrow> None)"

lemma once_ok_new [simp]: "once_ok once_new" "once_read once_new = None"
  by (simp_all add: once_ok_def once_new_def once_read_def once_get_def)

lemma once_get_ok: "once_ok cell \<Longrightarrow> once_get cell = Inr (once_read cell)"
  by (auto simp: once_ok_def once_read_def once_get_def assume_init_ref_def)

interpretation once: write_once once_read once_set once_ok
  by unfold_locales
    (auto simp: once_read_def once_get_def once_set_def once_ok_def assume_init_ref_def
      split: if_splits option.splits)

lemma once_get_or_init_ok:
  assumes "once_ok cell"
  shows "once_get_or_init f cell =
    (case once_read cell of
       Some v \<Rightarrow> (Inr v, cell)
     | None \<Rightarrow> (case f of None \<Rightarrow> (Inl Panic, cell) | Some v \<Rightarrow> (Inr v, snd (once_set v cell))))"
  using assms
  by (auto simp: once_get_or_init_def once_read_def once_get_def once_set_def once_ok_def
      assume_init_ref_def Let_def split: option.splits)

section \<open>The write-once cell under interleaving\<close>

text \<open>
  A thread is at a program counter; the raw lock is the thread that holds it. \<open>GetRead\<close>, \<open>SetWrite\<close>
  and the like are single memory accesses. The ghost \<open>log\<close> keeps what every call returned, in the
  order it was decided.
\<close>

datatype 'v once_pc =
    Resting
  | GetLoad | GetRead
  | SetLock 'v | SetCheck 'v | SetWrite 'v | SetPublish | Unlock
  | InitLoad "'v option" | InitRead | InitLock "'v option" | InitCheck "'v option"
  | InitRun "'v option" | InitWrite 'v | InitPublish | InitUnlock | FinalLoad | FinalRead

datatype 'v once_result = Got "'v option" | SetOk | SetErr 'v | InitGot 'v | InitPanicked | Faulted

record 'v once_sys =
  os_cell :: "'v OnceCell"
  os_holder :: "nat option"
  os_pc :: "nat \<Rightarrow> 'v once_pc"
  os_log :: "'v once_result list"

definition goto :: "nat \<Rightarrow> 'v once_pc \<Rightarrow> 'v once_sys \<Rightarrow> 'v once_sys" where
  "goto t p s = s\<lparr>os_pc := (os_pc s)(t := p)\<rparr>"

definition says :: "'v once_result \<Rightarrow> 'v once_sys \<Rightarrow> 'v once_sys" where
  "says r s = s\<lparr>os_log := os_log s @ [r]\<rparr>"

definition read_memory :: "('v \<Rightarrow> 'v once_result) \<Rightarrow> 'v once_sys \<Rightarrow> 'v once_sys" where
  "read_memory f s = (case oc_value (os_cell s) of None \<Rightarrow> says Faulted s | Some v \<Rightarrow> says (f v) s)"

text \<open>One access of thread \<open>t\<close>; \<open>None\<close> when it is blocked on the lock or has nothing to do.\<close>

fun once_act :: "nat \<Rightarrow> 'v once_pc \<Rightarrow> 'v once_sys \<Rightarrow> 'v once_sys option" where
  "once_act t Resting s = None"
| "once_act t GetLoad s =
     Some (if oc_state (os_cell s) = FULL then goto t GetRead s else says (Got None) (goto t Resting s))"
| "once_act t GetRead s = Some (read_memory (\<lambda>v. Got (Some v)) (goto t Resting s))"
| "once_act t (SetLock v) s =
     (if os_holder s = None then Some (goto t (SetCheck v) (s\<lparr>os_holder := Some t\<rparr>)) else None)"
| "once_act t (SetCheck v) s =
     Some (if oc_state (os_cell s) = FULL then says (SetErr v) (goto t Unlock s) else goto t (SetWrite v) s)"
| "once_act t (SetWrite v) s =
     Some (goto t SetPublish (s\<lparr>os_cell := (os_cell s)\<lparr>oc_value := Some v\<rparr>\<rparr>))"
| "once_act t SetPublish s =
     Some (says SetOk (goto t Unlock (s\<lparr>os_cell := (os_cell s)\<lparr>oc_state := FULL\<rparr>\<rparr>)))"
| "once_act t Unlock s = Some (goto t Resting (s\<lparr>os_holder := None\<rparr>))"
| "once_act t (InitLoad f) s =
     Some (if oc_state (os_cell s) = FULL then goto t InitRead s else goto t (InitLock f) s)"
| "once_act t InitRead s = Some (read_memory InitGot (goto t Resting s))"
| "once_act t (InitLock f) s =
     (if os_holder s = None then Some (goto t (InitCheck f) (s\<lparr>os_holder := Some t\<rparr>)) else None)"
| "once_act t (InitCheck f) s =
     Some (if oc_state (os_cell s) \<noteq> FULL then goto t (InitRun f) s else goto t InitUnlock s)"
| "once_act t (InitRun f) s =
     Some (case f of None \<Rightarrow> says InitPanicked (goto t Unlock s) | Some v \<Rightarrow> goto t (InitWrite v) s)"
| "once_act t (InitWrite v) s =
     Some (goto t InitPublish (s\<lparr>os_cell := (os_cell s)\<lparr>oc_value := Some v\<rparr>\<rparr>))"
| "once_act t InitPublish s =
     Some (goto t InitUnlock (s\<lparr>os_cell := (os_cell s)\<lparr>oc_state := FULL\<rparr>\<rparr>))"
| "once_act t InitUnlock s = Some (goto t FinalLoad (s\<lparr>os_holder := None\<rparr>))"
| "once_act t FinalLoad s =
     Some (if oc_state (os_cell s) = FULL then goto t FinalRead s else says Faulted (goto t Resting s))"
| "once_act t FinalRead s = Some (read_memory InitGot (goto t Resting s))"

fun once_entry :: "'v once_pc \<Rightarrow> bool" where
  "once_entry GetLoad = True"
| "once_entry (SetLock v) = True"
| "once_entry (InitLoad f) = True"
| "once_entry _ = False"

inductive once_step :: "'v once_sys \<Rightarrow> 'v once_sys \<Rightarrow> bool" where
  Call: "os_pc s t = Resting \<Longrightarrow> once_entry p \<Longrightarrow> once_step s (goto t p s)"
| Access: "once_act t (os_pc s t) s = Some s' \<Longrightarrow> once_step s s'"

definition once_init :: "'v once_sys" where
  "once_init = \<lparr>os_cell = once_new, os_holder = None, os_pc = (\<lambda>_. Resting), os_log = []\<rparr>"

abbreviation once_steps :: "'v once_sys \<Rightarrow> 'v once_sys \<Rightarrow> bool" where
  "once_steps \<equiv> once_step\<^sup>*\<^sup>*"

subsection \<open>The invariant\<close>

fun holds_lock :: "'v once_pc \<Rightarrow> bool" where
  "holds_lock (SetCheck v) = True"
| "holds_lock (SetWrite v) = True"
| "holds_lock SetPublish = True"
| "holds_lock Unlock = True"
| "holds_lock (InitCheck f) = True"
| "holds_lock (InitRun f) = True"
| "holds_lock (InitWrite v) = True"
| "holds_lock InitPublish = True"
| "holds_lock InitUnlock = True"
| "holds_lock _ = False"

text \<open>What a thread at a program counter knows of the cell.\<close>

fun pc_knows :: "'v once_pc \<Rightarrow> 'v OnceCell \<Rightarrow> bool" where
  "pc_knows (SetWrite v) c \<longleftrightarrow> oc_state c = EMPTY"
| "pc_knows SetPublish c \<longleftrightarrow> oc_state c = EMPTY \<and> oc_value c \<noteq> None"
| "pc_knows (InitRun f) c \<longleftrightarrow> oc_state c = EMPTY"
| "pc_knows (InitWrite v) c \<longleftrightarrow> oc_state c = EMPTY"
| "pc_knows InitPublish c \<longleftrightarrow> oc_state c = EMPTY \<and> oc_value c \<noteq> None"
| "pc_knows GetRead c \<longleftrightarrow> oc_state c = FULL"
| "pc_knows InitRead c \<longleftrightarrow> oc_state c = FULL"
| "pc_knows InitUnlock c \<longleftrightarrow> oc_state c = FULL"
| "pc_knows FinalLoad c \<longleftrightarrow> oc_state c = FULL"
| "pc_knows FinalRead c \<longleftrightarrow> oc_state c = FULL"
| "pc_knows _ c \<longleftrightarrow> True"

text \<open>What a logged result says of the cell.\<close>

fun result_ok :: "'v OnceCell \<Rightarrow> 'v once_result \<Rightarrow> bool" where
  "result_ok c (Got (Some v)) \<longleftrightarrow> oc_state c = FULL \<and> oc_value c = Some v"
| "result_ok c (InitGot v) \<longleftrightarrow> oc_state c = FULL \<and> oc_value c = Some v"
| "result_ok c (SetErr v) \<longleftrightarrow> oc_state c = FULL"
| "result_ok c Faulted \<longleftrightarrow> False"
| "result_ok c _ \<longleftrightarrow> True"

definition once_inv :: "'v once_sys \<Rightarrow> bool" where
  "once_inv s \<longleftrightarrow>
     (oc_state (os_cell s) = EMPTY \<or> oc_state (os_cell s) = FULL) \<and>
     (oc_state (os_cell s) = FULL \<longrightarrow> oc_value (os_cell s) \<noteq> None) \<and>
     (\<forall>t. holds_lock (os_pc s t) \<longleftrightarrow> os_holder s = Some t) \<and>
     (\<forall>t. pc_knows (os_pc s t) (os_cell s)) \<and>
     (\<forall>r \<in> set (os_log s). result_ok (os_cell s) r) \<and>
     count_list (os_log s) SetOk \<le> (if oc_state (os_cell s) = FULL then 1 else 0)"

lemma inv_goto:
  "once_inv s \<Longrightarrow> holds_lock p = holds_lock (os_pc s t) \<Longrightarrow> pc_knows p (os_cell s) \<Longrightarrow>
     once_inv (goto t p s)"
  by (simp add: once_inv_def goto_def)

lemma inv_says:
  "once_inv s \<Longrightarrow> result_ok (os_cell s) r \<Longrightarrow> r \<noteq> SetOk \<Longrightarrow> once_inv (says r s)"
  by (auto simp: once_inv_def says_def)

lemma inv_lock:
  "once_inv s \<Longrightarrow> os_holder s = None \<Longrightarrow> holds_lock p \<Longrightarrow> pc_knows p (os_cell s) \<Longrightarrow>
     once_inv (goto t p (s\<lparr>os_holder := Some t\<rparr>))"
  by (simp add: once_inv_def goto_def)

lemma inv_unlock:
  "once_inv s \<Longrightarrow> holds_lock (os_pc s t) \<Longrightarrow> \<not> holds_lock p \<Longrightarrow> pc_knows p (os_cell s) \<Longrightarrow>
     once_inv (goto t p (s\<lparr>os_holder := None\<rparr>))"
  by (simp add: once_inv_def goto_def)

text \<open>Nothing another thread knows depends on the value while the cell is empty.\<close>

lemma knows_write: "pc_knows p c \<Longrightarrow> pc_knows p (c\<lparr>oc_value := Some v\<rparr>)"
  by (cases p) auto

lemma knows_publish:
  "pc_knows p c \<Longrightarrow> \<not> holds_lock p \<Longrightarrow> pc_knows p (c\<lparr>oc_state := FULL\<rparr>)"
  by (cases p) auto

lemma result_write: "result_ok c r \<Longrightarrow> oc_state c = EMPTY \<Longrightarrow> result_ok (c\<lparr>oc_value := Some v\<rparr>) r"
  by (cases "(c, r)" rule: result_ok.cases) auto

lemma result_publish: "result_ok c r \<Longrightarrow> oc_state c = EMPTY \<Longrightarrow> result_ok (c\<lparr>oc_state := FULL\<rparr>) r"
  by (cases "(c, r)" rule: result_ok.cases) auto

lemma only_holder:
  "once_inv s \<Longrightarrow> holds_lock (os_pc s t) \<Longrightarrow> t' \<noteq> t \<Longrightarrow> \<not> holds_lock (os_pc s t')"
  by (auto simp: once_inv_def)

lemma inv_write:
  assumes "once_inv s" "os_pc s t = SetWrite v \<and> p = SetPublish \<or> os_pc s t = InitWrite v \<and> p = InitPublish"
  shows "once_inv (goto t p (s\<lparr>os_cell := (os_cell s)\<lparr>oc_value := Some v\<rparr>\<rparr>))"
proof -
  have "pc_knows (os_pc s t) (os_cell s)" using assms(1) by (simp add: once_inv_def)
  with assms(2) have "oc_state (os_cell s) = EMPTY" by auto
  with assms show ?thesis by (auto simp: once_inv_def goto_def knows_write result_write)
qed

lemma inv_publish:
  assumes "once_inv s" "os_pc s t = SetPublish \<and> p = Unlock \<or> os_pc s t = InitPublish \<and> p = InitUnlock"
    and "rs = [] \<or> rs = [SetOk]"
  shows "once_inv ((goto t p (s\<lparr>os_cell := (os_cell s)\<lparr>oc_state := FULL\<rparr>\<rparr>))\<lparr>os_log := os_log s @ rs\<rparr>)"
proof -
  have "pc_knows (os_pc s t) (os_cell s)" using assms(1) by (simp add: once_inv_def)
  with assms(2) have cell: "oc_state (os_cell s) = EMPTY" "oc_value (os_cell s) \<noteq> None" by auto
  have "holds_lock (os_pc s t)" using assms(2) by auto
  then have others: "\<not> holds_lock (os_pc s t')" if "t' \<noteq> t" for t'
    using only_holder [OF assms(1)] that by blast
  with assms cell show ?thesis
    by (auto simp: once_inv_def goto_def intro: knows_publish result_publish)
qed

lemma inv_access:
  assumes "once_inv s" "once_act t (os_pc s t) s = Some s'"
  shows "once_inv s'"
proof -
  have knows: "pc_knows (os_pc s t) (os_cell s)"
    and state: "oc_state (os_cell s) = EMPTY \<or> oc_state (os_cell s) = FULL"
    and full: "oc_state (os_cell s) = FULL \<Longrightarrow> oc_value (os_cell s) \<noteq> None"
    using assms(1) by (simp_all add: once_inv_def)
  have cell: "os_cell (goto t p s) = os_cell s" for p by (simp add: goto_def)
  show ?thesis
  proof (cases "os_pc s t")
    case SetPublish
    with assms inv_publish [OF assms(1), of t Unlock "[SetOk]"] show ?thesis
      by (auto simp: says_def goto_def)
  next
    case InitPublish
    with assms inv_publish [OF assms(1), of t InitUnlock "[]"] show ?thesis
      by (auto simp: goto_def)
  next
    case (InitRun f)
    with assms knows show ?thesis
      by (auto split: option.splits intro!: inv_goto inv_says)
  qed (use assms knows state full in \<open>auto simp: read_memory_def cell intro!: inv_says inv_lock
      inv_unlock inv_write intro: inv_goto split: if_splits option.splits\<close>)
qed

lemma inv_call: "once_inv s \<Longrightarrow> os_pc s t = Resting \<Longrightarrow> once_entry p \<Longrightarrow> once_inv (goto t p s)"
  by (cases p) (auto intro!: inv_goto)

lemma inv_once_steps: "once_steps once_init s \<Longrightarrow> once_inv s"
proof (induction rule: rtranclp_induct)
  case base
  show ?case by (auto simp: once_init_def once_inv_def once_new_def)
next
  case (step s s')
  from step.hyps(2) step.IH show ?case
    by (cases rule: once_step.cases) (auto intro: inv_access inv_call)
qed

section \<open>Properties\<close>

text \<open>C10: However the reads, writes and initialisations of a write-once cell interleave, no thread
  reads memory that was not written, everything ever read is one value, and at most one
  \<open>set\<close> succeeds.\<close>

theorem once_cell_safe:
  assumes "once_steps once_init s"
  shows "Faulted \<notin> set (os_log s) \<and> count_list (os_log s) SetOk \<le> 1 \<and>
    (\<exists>w. \<forall>r \<in> set (os_log s). case r of Got (Some v) \<Rightarrow> v = w | InitGot v \<Rightarrow> v = w | _ \<Rightarrow> True)"
proof -
  have inv: "once_inv s" by (rule inv_once_steps [OF assms])
  then have ok: "\<forall>r \<in> set (os_log s). result_ok (os_cell s) r"
    and c: "count_list (os_log s) SetOk \<le> (if oc_state (os_cell s) = FULL then 1 else 0)"
    by (simp_all add: once_inv_def)
  have "\<forall>r \<in> set (os_log s). case r of Got (Some v) \<Rightarrow> v = the (oc_value (os_cell s))
      | InitGot v \<Rightarrow> v = the (oc_value (os_cell s)) | _ \<Rightarrow> True"
    using ok by (auto split: once_result.splits option.splits)
  moreover have "Faulted \<notin> set (os_log s)" using ok by auto
  moreover have "count_list (os_log s) SetOk \<le> 1" using c by (simp split: if_splits)
  ultimately show ?thesis by blast
qed

fun once_run :: "(nat \<times> 'v once_pc option) list \<Rightarrow> 'v once_sys \<Rightarrow> 'v once_sys option" where
  "once_run [] s = Some s"
| "once_run ((t, Some p) # rest) s =
     (if os_pc s t = Resting \<and> once_entry p then once_run rest (goto t p s) else None)"
| "once_run ((t, None) # rest) s =
     (case once_act t (os_pc s t) s of None \<Rightarrow> None | Some s' \<Rightarrow> once_run rest s')"

lemma once_run_steps: "once_run xs s = Some s' \<Longrightarrow> once_steps s s'"
proof (induction xs s rule: once_run.induct)
  case (2 t p rest s)
  then show ?case
    by (auto split: if_splits intro: converse_rtranclp_into_rtranclp once_step.Call)
next
  case (3 t rest s)
  then show ?case
    by (auto split: option.splits intro: converse_rtranclp_into_rtranclp once_step.Access)
qed simp

definition once_race :: "(nat \<times> nat once_pc option) list" where
  "once_race = [(1, Some (SetLock 5)), (2, Some (SetLock 6)), (3, Some GetLoad), (1, None), (1, None),
     (1, None), (3, None), (1, None), (1, None), (2, None), (2, None), (2, None),
     (3, Some GetLoad), (3, None), (3, None)]"

lemma once_race_runs:
  "\<exists>s. once_run once_race once_init = Some s \<and>
     os_log s = [Got None, SetOk, SetErr 6, Got (Some 5)]"
  by (simp add: once_race_def once_init_def goto_def says_def once_new_def read_memory_def)

theorem once_cell_safe_witness:
  "\<exists>s :: nat once_sys. os_log s = [Got None, SetOk, SetErr 6, Got (Some 5)] \<and>
     count_list (os_log s) SetOk \<le> 1"
proof -
  obtain s where s: "once_run once_race once_init = Some s"
      "os_log s = [Got None, SetOk, SetErr 6, Got (Some 5)]"
    using once_race_runs by blast
  from once_cell_safe [OF once_run_steps [OF s(1)]] s(2) show ?thesis
    by (intro exI [of _ s]) simp
qed

text \<open>A call of the critical-section mutex that began with the lock free leaves it free, whether
  its closure returned or panicked, and locking it again from inside panics.\<close>

theorem with_lock_resets:
  "with_lock body False = (if body = Returns then Inr () else Inl Panic, False)"
  by (rule with_lock_free)

end
