(* ===== verification/Extension.thy ===== *)
theory Extension
  imports Factories_Prelude
begin

text \<open>
  Pointer-keyed, type-erased context values, \<open>crates/factories_extension/src/lib.rs\<close>, and the
  launcher's two operations on them (\<open>crates/factories_actor/src/spawn/launcher.rs\<close>). A value
  lives in a box on a heap of typed cells; freeing or reading a box that is not there, or at
  another type, is undefined behaviour and here the fault \<open>Panic\<close>. The lemmas show that no
  operation faults, that every box is freed exactly once, and that a set is a map in which
  explicit values win over inherited ones in whatever order they come.
\<close>

section \<open>The heap of boxes\<close>

type_synonym type_id = nat
type_synonym box = nat

record 'v heap =
  hp_cells :: "box \<Rightarrow> (type_id \<times> 'v) option"
  hp_next :: box

definition box_new :: "type_id \<Rightarrow> 'v \<Rightarrow> 'v heap \<Rightarrow> box \<times> 'v heap" where
  "box_new ty v h =
     (hp_next h, h\<lparr>hp_cells := (hp_cells h)(hp_next h \<mapsto> (ty, v)), hp_next := hp_next h + 1\<rparr>)"

text \<open>\<open>BasicTypeRtti::drop_boxed_ptr\<close> and a typed read through the erased pointer.\<close>

definition drop_boxed_ptr :: "type_id \<Rightarrow> box \<Rightarrow> 'v heap \<Rightarrow> (unit, 'v heap) outcome" where
  "drop_boxed_ptr ty b h =
     (case hp_cells h b of
        Some (ty', _) \<Rightarrow> if ty' = ty then Inr (h\<lparr>hp_cells := (hp_cells h)(b := None)\<rparr>) else Inl Panic
      | None \<Rightarrow> Inl Panic)"

definition read_box :: "type_id \<Rightarrow> box \<Rightarrow> 'v heap \<Rightarrow> (unit, 'v) outcome" where
  "read_box ty b h =
     (case hp_cells h b of
        Some (ty', v) \<Rightarrow> if ty' = ty then Inr v else Inl Panic
      | None \<Rightarrow> Inl Panic)"

section \<open>Descriptors and sets\<close>

text \<open>
  A descriptor: its label, its address, the type of its values, and, when it is inheritable, the
  \<open>Clone\<close> of that type.
\<close>

record 'v Extension =
  ex_name :: string
  ex_identity :: nat
  ex_basic :: type_id
  ex_clone :: "('v \<Rightarrow> 'v) option"

definition ext_local :: "string \<Rightarrow> nat \<Rightarrow> type_id \<Rightarrow> 'v Extension" where
  "ext_local name address ty =
     \<lparr>ex_name = name, ex_identity = address, ex_basic = ty, ex_clone = None\<rparr>"

definition ext_inheritable :: "string \<Rightarrow> nat \<Rightarrow> type_id \<Rightarrow> ('v \<Rightarrow> 'v) \<Rightarrow> 'v Extension" where
  "ext_inheritable name address ty clone =
     \<lparr>ex_name = name, ex_identity = address, ex_basic = ty, ex_clone = Some clone\<rparr>"

definition is_inheritable :: "'v Extension \<Rightarrow> bool" where
  "is_inheritable ext \<longleftrightarrow> ex_clone ext \<noteq> None"

record 'v Entry =
  en_key :: nat
  en_value :: box
  en_basic :: type_id
  en_clone :: "('v \<Rightarrow> 'v) option"

type_synonym 'v ExtensionSet = "'v Entry list"

definition extension_set_new :: "'v ExtensionSet" where
  "extension_set_new = []"

definition set_raw :: "nat \<Rightarrow> box \<Rightarrow> type_id \<Rightarrow> ('v \<Rightarrow> 'v) option \<Rightarrow> 'v ExtensionSet \<Rightarrow> 'v heap \<Rightarrow>
    (unit, 'v ExtensionSet \<times> 'v heap) outcome" where
  "set_raw key b ty clone es h =
     (case position (\<lambda>e. en_key e = key) es of
        Some i \<Rightarrow>
          (let old = es ! i;
               es' = es[i := old\<lparr>en_value := b, en_basic := ty, en_clone := clone\<rparr>]
           in and_then (drop_boxed_ptr (en_basic old) (en_value old) h) (\<lambda>h'. Inr (es', h')))
      | None \<Rightarrow>
          Inr (es @ [\<lparr>en_key = key, en_value = b, en_basic = ty, en_clone = clone\<rparr>], h))"

definition ext_insert :: "'v Extension \<Rightarrow> 'v \<Rightarrow> 'v ExtensionSet \<Rightarrow> 'v heap \<Rightarrow>
    (unit, 'v ExtensionSet \<times> 'v heap) outcome" where
  "ext_insert ext v es h =
     (let (b, h') = box_new (ex_basic ext) v h
      in set_raw (ex_identity ext) b (ex_basic ext) (ex_clone ext) es h')"

definition ext_get :: "'v Extension \<Rightarrow> 'v ExtensionSet \<Rightarrow> 'v heap \<Rightarrow> (unit, 'v option) outcome" where
  "ext_get ext es h =
     (case position (\<lambda>e. en_key e = ex_identity ext) es of
        None \<Rightarrow> Inr None
      | Some i \<Rightarrow> and_then (read_box (ex_basic ext) (en_value (es ! i)) h) (\<lambda>v. Inr (Some v)))"

fun inherit_inheritable_from :: "'v ExtensionSet \<Rightarrow> 'v ExtensionSet \<Rightarrow> 'v heap \<Rightarrow>
    (unit, 'v ExtensionSet \<times> 'v heap) outcome" where
  "inherit_inheritable_from es [] h = Inr (es, h)"
| "inherit_inheritable_from es (entry # src) h =
     (case en_clone entry of
        None \<Rightarrow> inherit_inheritable_from es src h
      | Some clone \<Rightarrow>
          if list_ex (\<lambda>existing. en_key existing = en_key entry) es
          then inherit_inheritable_from es src h
          else and_then (read_box (en_basic entry) (en_value entry) h) (\<lambda>v.
            let (b, h') = box_new (en_basic entry) (clone v) h
            in inherit_inheritable_from
                 (es @ [\<lparr>en_key = en_key entry, en_value = b, en_basic = en_basic entry,
                         en_clone = en_clone entry\<rparr>]) src h'))"

fun extension_set_drop :: "'v ExtensionSet \<Rightarrow> 'v heap \<Rightarrow> (unit, 'v heap) outcome" where
  "extension_set_drop [] h = Inr h"
| "extension_set_drop (e # es) h =
     and_then (drop_boxed_ptr (en_basic e) (en_value e) h) (\<lambda>h'. extension_set_drop es h')"

text \<open>The launcher's builder methods on its pending set.\<close>

definition with_extension :: "'v Extension \<Rightarrow> 'v \<Rightarrow> 'v ExtensionSet \<Rightarrow> 'v heap \<Rightarrow>
    (unit, 'v ExtensionSet \<times> 'v heap) outcome" where
  "with_extension ext v es h = ext_insert ext v es h"

definition inherit_from :: "'v ExtensionSet \<Rightarrow> 'v ExtensionSet \<Rightarrow> 'v heap \<Rightarrow>
    (unit, 'v ExtensionSet \<times> 'v heap) outcome" where
  "inherit_from src es h = inherit_inheritable_from es src h"

section \<open>Invariant and abstraction\<close>

text \<open>
  The program's descriptors, by address: distinct statics have distinct addresses, so an address
  has one descriptor.
\<close>

definition entry_ok :: "(nat \<Rightarrow> 'v Extension) \<Rightarrow> 'v heap \<Rightarrow> 'v Entry \<Rightarrow> bool" where
  "entry_ok decl h e \<longleftrightarrow>
     en_basic e = ex_basic (decl (en_key e)) \<and> en_clone e = ex_clone (decl (en_key e)) \<and>
     (\<exists>v. hp_cells h (en_value e) = Some (en_basic e, v))"

definition heap_ok :: "'v heap \<Rightarrow> bool" where
  "heap_ok h \<longleftrightarrow> (\<forall>b \<ge> hp_next h. hp_cells h b = None)"

definition set_ok :: "(nat \<Rightarrow> 'v Extension) \<Rightarrow> 'v heap \<Rightarrow> 'v ExtensionSet \<Rightarrow> bool" where
  "set_ok decl h es \<longleftrightarrow>
     heap_ok h \<and> distinct (map en_key es) \<and> distinct (map en_value es) \<and>
     list_all (entry_ok decl h) es"

definition declared :: "(nat \<Rightarrow> 'v Extension) \<Rightarrow> 'v Extension \<Rightarrow> bool" where
  "declared decl ext \<longleftrightarrow> decl (ex_identity ext) = ext"

text \<open>A set as a map from addresses to values, and the boxes it owns.\<close>

fun ext_abs :: "'v heap \<Rightarrow> 'v ExtensionSet \<Rightarrow> nat \<Rightarrow> 'v option" where
  "ext_abs h [] k = None"
| "ext_abs h (e # es) k =
     (if en_key e = k then map_option snd (hp_cells h (en_value e)) else ext_abs h es k)"

definition owned :: "'v ExtensionSet \<Rightarrow> box set" where
  "owned es = set (map en_value es)"

lemma ext_abs_position:
  "ext_abs h es k = (case position (\<lambda>e. en_key e = k) es of
     None \<Rightarrow> None | Some i \<Rightarrow> map_option snd (hp_cells h (en_value (es ! i))))"
  by (induction es) (auto split: option.splits)

lemma ext_abs_append:
  "ext_abs h (es @ es') k = (if k \<in> set (map en_key es) then ext_abs h es k else ext_abs h es' k)"
  by (induction es) auto

lemma ext_abs_notin: "k \<notin> set (map en_key es) \<Longrightarrow> ext_abs h es k = None"
  by (induction es) auto

lemma ext_abs_cong:
  "(\<And>b. b \<in> owned es \<Longrightarrow> hp_cells h' b = hp_cells h b) \<Longrightarrow> ext_abs h' es k = ext_abs h es k"
  by (induction es) (auto simp: owned_def)

lemma ext_get_abs:
  assumes "set_ok decl h es" "declared decl ext"
  shows "ext_get ext es h = Inr (ext_abs h es (ex_identity ext))"
proof (cases "position (\<lambda>e. en_key e = ex_identity ext) es")
  case None
  then show ?thesis by (simp add: ext_get_def ext_abs_position)
next
  case (Some i)
  from position_Some [OF Some] assms have "entry_ok decl h (es ! i)" "en_key (es ! i) = ex_identity ext"
    by (auto simp: set_ok_def list_all_length)
  with assms(2) Some show ?thesis
    by (auto simp: ext_get_def ext_abs_position entry_ok_def declared_def read_box_def)
qed

lemma entry_ok_cong:
  "hp_cells h' (en_value e) = hp_cells h (en_value e) \<Longrightarrow> entry_ok decl h' e = entry_ok decl h e"
  by (simp add: entry_ok_def)

lemma owned_live:
  assumes "set_ok decl h es" "b \<in> owned es"
  shows "hp_cells h b \<noteq> None" "b < hp_next h"
proof -
  show live: "hp_cells h b \<noteq> None"
    using assms by (auto simp: set_ok_def owned_def list_all_iff entry_ok_def)
  show "b < hp_next h"
  proof (rule ccontr)
    assume "\<not> b < hp_next h"
    with live assms(1) show False by (simp add: set_ok_def heap_ok_def)
  qed
qed

section \<open>Storing a value\<close>

text \<open>
  What every operation leaves of the heap: nothing outside the set's own boxes is touched, and
  the boxes that are live are the ones owned, so that a displaced value has been freed and
  nothing leaks.
\<close>

definition heap_step :: "'v heap \<Rightarrow> 'v ExtensionSet \<Rightarrow> 'v heap \<Rightarrow> 'v ExtensionSet \<Rightarrow> bool" where
  "heap_step h es h' es' \<longleftrightarrow>
     hp_next h \<le> hp_next h' \<and> owned es' \<subseteq> owned es \<union> {b. hp_next h \<le> b} \<and>
     (\<forall>b. b < hp_next h \<longrightarrow> b \<notin> owned es \<longrightarrow> hp_cells h' b = hp_cells h b) \<and>
     dom (hp_cells h') = dom (hp_cells h) - owned es \<union> owned es'"

lemma push_spec:
  assumes "set_ok decl h es" "k \<notin> set (map en_key es)"
    and "e = \<lparr>en_key = k, en_value = hp_next h, en_basic = ex_basic (decl k), en_clone = ex_clone (decl k)\<rparr>"
    and "h' = snd (box_new (ex_basic (decl k)) v h)"
  shows "set_ok decl h' (es @ [e])" "ext_abs h' (es @ [e]) = (ext_abs h es)(k \<mapsto> v)"
    "heap_step h es h' (es @ [e])"
proof -
  have fresh: "hp_next h \<notin> owned es" using owned_live(2) [OF assms(1)] by blast
  have old: "hp_cells h' b = hp_cells h b" if "b \<in> owned es" for b
    using that fresh assms(4) by (auto simp: box_new_def)
  have live: "owned es \<subseteq> dom (hp_cells h)" using owned_live(1) [OF assms(1)] by auto
  show "set_ok decl h' (es @ [e])"
    using assms fresh old
    by (auto simp: set_ok_def heap_ok_def box_new_def owned_def list_all_iff entry_ok_def)
  have "ext_abs h' es k' = ext_abs h es k'" for k' by (rule ext_abs_cong) (rule old)
  then show "ext_abs h' (es @ [e]) = (ext_abs h es)(k \<mapsto> v)"
    using assms(2-4) by (auto simp: fun_eq_iff ext_abs_append box_new_def ext_abs_notin)
  show "heap_step h es h' (es @ [e])"
    using assms(3,4) live by (auto simp: heap_step_def box_new_def owned_def)
qed

lemma replace_spec:
  assumes ok: "set_ok decl h (xs @ old # ys)" and k: "en_key old = k"
    and new: "new = old\<lparr>en_value := hp_next h, en_basic := ex_basic (decl k), en_clone := ex_clone (decl k)\<rparr>"
    and h': "h' = h\<lparr>hp_cells := (hp_cells h)(hp_next h \<mapsto> (ex_basic (decl k), v), en_value old := None),
        hp_next := hp_next h + 1\<rparr>"
  shows "set_ok decl h' (xs @ new # ys)"
    "ext_abs h' (xs @ new # ys) = (ext_abs h (xs @ old # ys))(k \<mapsto> v)"
    "heap_step h (xs @ old # ys) h' (xs @ new # ys)"
proof -
  have less: "b < hp_next h" if "b \<in> owned (xs @ old # ys)" for b
    by (rule owned_live(2) [OF ok that])
  have old: "en_value old < hp_next h" by (rule less) (simp add: owned_def)
  have apart: "en_value old \<notin> owned xs" "en_value old \<notin> owned ys" "hp_next h \<notin> owned xs"
      "hp_next h \<notin> owned ys"
    using ok less by (auto simp: set_ok_def owned_def)
  have same: "hp_cells h' b = hp_cells h b" if "b \<in> owned xs \<or> b \<in> owned ys" for b
    using that apart h' by auto
  have cell: "hp_cells h' (hp_next h) = Some (ex_basic (decl k), v)" using old h' by simp
  have entries: "list_all (entry_ok decl h') xs" "list_all (entry_ok decl h') ys"
    using ok same by (auto simp: set_ok_def list_all_iff owned_def entry_ok_cong [where h = h and h' = h'])
  show "set_ok decl h' (xs @ new # ys)"
    using ok k new apart entries cell h'
    by (auto simp: set_ok_def owned_def entry_ok_def heap_ok_def)
  have "ext_abs h' xs k' = ext_abs h xs k'" "ext_abs h' ys k' = ext_abs h ys k'" for k'
    by (intro ext_abs_cong same; simp)+
  moreover have "k \<notin> set (map en_key xs)" using ok k by (auto simp: set_ok_def)
  ultimately show "ext_abs h' (xs @ new # ys) = (ext_abs h (xs @ old # ys))(k \<mapsto> v)"
    using new k cell by (auto simp: fun_eq_iff ext_abs_append)
  have live: "owned (xs @ old # ys) \<subseteq> dom (hp_cells h)" using owned_live(1) [OF ok] by auto
  then have "owned xs \<subseteq> dom (hp_cells h)" "owned ys \<subseteq> dom (hp_cells h)"
    by (auto simp: owned_def)
  with apart old h' new show "heap_step h (xs @ old # ys) h' (xs @ new # ys)"
    by (auto simp: heap_step_def owned_def)
qed

lemma insert_spec:
  assumes "set_ok decl h es" "declared decl ext"
  obtains es' h' where "ext_insert ext v es h = Inr (es', h')" "set_ok decl h' es'"
    "ext_abs h' es' = (ext_abs h es)(ex_identity ext \<mapsto> v)" "heap_step h es h' es'"
proof (cases "position (\<lambda>e. en_key e = ex_identity ext) es")
  case None
  then have "ex_identity ext \<notin> set (map en_key es)" by (auto simp: position_None_iff)
  from push_spec [OF assms(1) this refl refl, of v] None assms(2) show ?thesis
    by (intro that) (auto simp: ext_insert_def set_raw_def box_new_def declared_def)
next
  case (Some i)
  let ?old = "es ! i" and ?k = "ex_identity ext"
  from position_Some [OF Some] have i: "i < length es" "en_key ?old = ?k" by auto
  then have split: "es = take i es @ ?old # drop (Suc i) es" by (rule_tac id_take_nth_drop)
  let ?new = "?old\<lparr>en_value := hp_next h, en_basic := ex_basic (decl ?k), en_clone := ex_clone (decl ?k)\<rparr>"
  let ?h' = "h\<lparr>hp_cells := (hp_cells h)(hp_next h \<mapsto> (ex_basic (decl ?k), v), en_value ?old := None),
        hp_next := hp_next h + 1\<rparr>"
  have upd: "es[i := ?new] = take i es @ ?new # drop (Suc i) es"
    using i(1) by (rule upd_conv_take_nth_drop)
  have old: "entry_ok decl h ?old" "en_value ?old < hp_next h"
    using assms(1) i owned_live(2) [OF assms(1), of "en_value ?old"]
    by (auto simp: set_ok_def list_all_length owned_def)
  have ok: "set_ok decl h (take i es @ ?old # drop (Suc i) es)" using assms(1) split by simp
  have "ext_insert ext v es h = Inr (es[i := ?new], ?h')"
    using Some old assms(2)
    by (auto simp: ext_insert_def set_raw_def box_new_def Let_def drop_boxed_ptr_def entry_ok_def
        declared_def)
  with replace_spec [OF ok i(2) refl refl, of v] split upd show ?thesis
    by (intro that [of "es[i := ?new]" ?h']) simp_all
qed

section \<open>Inheriting\<close>

text \<open>What a parent's set gives a child: the values of its inheritable entries, cloned.\<close>

definition inheritable_abs :: "(nat \<Rightarrow> 'v Extension) \<Rightarrow> 'v heap \<Rightarrow> 'v ExtensionSet \<Rightarrow> nat \<Rightarrow> 'v option" where
  "inheritable_abs decl h src k =
     (case ex_clone (decl k) of None \<Rightarrow> None | Some clone \<Rightarrow> map_option clone (ext_abs h src k))"

lemma heap_step_refl [simp]: "set_ok decl h es \<Longrightarrow> heap_step h es h es"
  using owned_live(1) [of decl h es] by (auto simp: heap_step_def)

lemma heap_step_other:
  assumes "heap_step h es h' es'" "set_ok decl h src" "owned src \<inter> owned es = {}" "heap_ok h'"
  shows "set_ok decl h' src" "ext_abs h' src k = ext_abs h src k"
proof -
  have same: "hp_cells h' b = hp_cells h b" if "b \<in> owned src" for b
    using that assms(1,3) owned_live(2) [OF assms(2) that] by (auto simp: heap_step_def)
  show "ext_abs h' src k = ext_abs h src k" by (rule ext_abs_cong) (rule same)
  have "list_all (entry_ok decl h') src"
    using assms(2) same by (auto simp: set_ok_def list_all_iff owned_def entry_ok_cong [where h = h and h' = h'])
  with assms(2,4) show "set_ok decl h' src" by (simp add: set_ok_def)
qed

lemma heap_step_trans:
  assumes "heap_step h es h1 es1" "heap_step h1 es1 h2 es2" "heap_ok h"
  shows "heap_step h es h2 es2"
proof -
  have below: "b < hp_next h" if "b \<in> dom (hp_cells h)" for b
    using assms(3) that by (rule_tac ccontr) (auto simp: heap_ok_def)
  then have "(dom (hp_cells h) - owned es) \<inter> owned es1 = {}"
    using assms(1) by (fastforce simp: heap_step_def)
  then have "dom (hp_cells h2) = dom (hp_cells h) - owned es \<union> owned es2"
    using assms(1,2) by (auto simp: heap_step_def)
  moreover have "hp_cells h2 b = hp_cells h b" if "b < hp_next h" "b \<notin> owned es" for b
  proof -
    have "b \<notin> owned es1" using assms(1) that by (auto simp: heap_step_def)
    then show ?thesis using assms(1,2) that by (simp add: heap_step_def)
  qed
  moreover have "owned es2 \<subseteq> owned es \<union> {b. hp_next h \<le> b}"
    using assms(1,2) by (fastforce simp: heap_step_def)
  ultimately show ?thesis using assms(1,2) by (simp add: heap_step_def)
qed

text \<open>The entry of a source set at the head: what is inherited under its key and under the others.\<close>

lemma inheritable_Cons:
  assumes "set_ok decl h (e # src)" "en_clone e = Some clone" "hp_cells h (en_value e) = Some (ty, v)"
  shows "inheritable_abs decl h (e # src) k =
    (if k = en_key e then Some (clone v) else inheritable_abs decl h src k)"
  using assms by (auto simp: inheritable_abs_def set_ok_def entry_ok_def split: option.split)

lemma inheritable_local:
  assumes "set_ok decl h (e # src)" "en_clone e = None"
  shows "inheritable_abs decl h (e # src) = inheritable_abs decl h src"
  using assms by (auto simp: fun_eq_iff inheritable_abs_def set_ok_def entry_ok_def split: option.split)

lemma inheritable_notin:
  "k \<notin> set (map en_key src) \<Longrightarrow> inheritable_abs decl h src k = None"
  by (simp add: inheritable_abs_def ext_abs_notin split: option.splits)

lemma ext_abs_in:
  assumes "set_ok decl h es" "k \<in> set (map en_key es)"
  shows "ext_abs h es k \<noteq> None"
proof -
  have "position (\<lambda>e. en_key e = k) es \<noteq> None" using assms(2) by (auto simp: position_None_iff)
  then obtain i where i: "position (\<lambda>e. en_key e = k) es = Some i" by blast
  from position_Some [OF i] assms(1) have "entry_ok decl h (es ! i)"
    by (auto simp: set_ok_def list_all_length)
  with i show ?thesis by (auto simp: ext_abs_position entry_ok_def)
qed

definition inherits :: "(nat \<Rightarrow> 'v Extension) \<Rightarrow> 'v heap \<Rightarrow> 'v ExtensionSet \<Rightarrow> 'v ExtensionSet \<Rightarrow>
    'v heap \<Rightarrow> 'v ExtensionSet \<Rightarrow> bool" where
  "inherits decl h es src h' es' \<longleftrightarrow>
     set_ok decl h' es' \<and> heap_step h es h' es' \<and>
     (\<forall>k. ext_abs h' es' k =
        (case ext_abs h es k of Some v \<Rightarrow> Some v | None \<Rightarrow> inheritable_abs decl h src k))"

lemma set_ok_tail: "set_ok decl h (e # src) \<Longrightarrow> set_ok decl h src"
  by (simp add: set_ok_def)

lemma inherit_spec:
  "set_ok decl h es \<Longrightarrow> set_ok decl h src \<Longrightarrow> owned src \<inter> owned es = {} \<Longrightarrow>
     \<exists>es' h'. inherit_inheritable_from es src h = Inr (es', h') \<and> inherits decl h es src h' es'"
proof (induction src arbitrary: es h)
  case Nil
  then show ?case by (auto simp: inherits_def inheritable_abs_def split: option.splits)
next
  case (Cons e src)
  note tail = set_ok_tail [OF Cons.prems(2)]
  have disj: "owned src \<inter> owned es = {}" using Cons.prems(3) by (auto simp: owned_def)
  show ?case
  proof (cases "en_clone e")
    case None
    with Cons.IH [OF Cons.prems(1) tail disj] inheritable_local [OF Cons.prems(2) None]
    show ?thesis by (auto simp: inherits_def split: option.split)
  next
    case (Some clone)
    obtain v where v: "hp_cells h (en_value e) = Some (en_basic e, v)"
        "en_basic e = ex_basic (decl (en_key e))" "en_clone e = ex_clone (decl (en_key e))"
      using Cons.prems(2) by (auto simp: set_ok_def entry_ok_def)
    note inh = inheritable_Cons [OF Cons.prems(2) Some v(1)]
    show ?thesis
    proof (cases "en_key e \<in> set (map en_key es)")
      case True
      have "(case ext_abs h es k of Some v \<Rightarrow> Some v | None \<Rightarrow> inheritable_abs decl h src k) =
          (case ext_abs h es k of Some v \<Rightarrow> Some v | None \<Rightarrow> inheritable_abs decl h (e # src) k)" for k
        using ext_abs_in [OF Cons.prems(1) True] inh [of k] by (cases "k = en_key e") (auto split: option.split)
      with True Cons.IH [OF Cons.prems(1) tail disj] Some
      show ?thesis by (auto simp: inherits_def list_ex_iff)
    next
      case False
      let ?new = "\<lparr>en_key = en_key e, en_value = hp_next h, en_basic = ex_basic (decl (en_key e)),
          en_clone = ex_clone (decl (en_key e))\<rparr>"
      let ?h = "snd (box_new (ex_basic (decl (en_key e))) (clone v) h)"
      have no_key: "\<not> list_ex (\<lambda>existing. en_key existing = en_key e) es"
        using False by (auto simp: list_ex_iff image_iff)
      note push = push_spec [OF Cons.prems(1) False refl refl, of "clone v"]
      have heap: "heap_ok ?h" using push(1) by (simp add: set_ok_def)
      have "b < hp_next h" if "b \<in> owned src" for b by (rule owned_live(2) [OF tail that])
      then have disj': "owned src \<inter> owned (es @ [?new]) = {}" using disj by (auto simp: owned_def)
      note src = heap_step_other [OF push(3) tail disj heap]
      from Cons.IH [OF push(1) src(1) disj'] obtain es' h' where
        rec: "inherit_inheritable_from (es @ [?new]) src ?h = Inr (es', h')"
          "inherits decl ?h (es @ [?new]) src h' es'"
        by blast
      have "inheritable_abs decl ?h src k = inheritable_abs decl h src k" for k
        by (simp add: inheritable_abs_def src(2) split: option.split)
      moreover have "en_key e \<notin> set (map en_key src)" using Cons.prems(2) by (auto simp: set_ok_def)
      moreover have "heap_step h es h' es'"
        using rec(2) push(3) Cons.prems(1) by (auto simp: inherits_def set_ok_def intro: heap_step_trans)
      ultimately have "inherits decl h es (e # src) h' es'"
        using rec(2) push(2) inh ext_abs_notin [OF False, of h]
        by (auto simp: inherits_def split: option.splits)
      moreover have "inherit_inheritable_from es (e # src) h = Inr (es', h')"
        using Some v rec(1) no_key by (simp add: read_box_def box_new_def)
      ultimately show ?thesis by blast
    qed
  qed
qed

section \<open>Dropping a set\<close>

lemma drop_spec:
  "set_ok decl h es \<Longrightarrow>
     \<exists>h'. extension_set_drop es h = Inr h' \<and> heap_step h es h' [] \<and> heap_ok h'"
proof (induction es arbitrary: h)
  case Nil
  then show ?case by (auto simp: set_ok_def heap_step_def owned_def)
next
  case (Cons e es)
  let ?h = "h\<lparr>hp_cells := (hp_cells h)(en_value e := None)\<rparr>"
  have step: "drop_boxed_ptr (en_basic e) (en_value e) h = Inr ?h"
    using Cons.prems by (auto simp: set_ok_def entry_ok_def drop_boxed_ptr_def)
  have "en_value e \<notin> en_value ` set es" using Cons.prems by (simp add: set_ok_def)
  then have "en_value x \<noteq> en_value e" if "x \<in> set es" for x using that by (metis imageI)
  then have "set_ok decl ?h es"
    using Cons.prems by (auto simp: set_ok_def heap_ok_def list_all_iff entry_ok_def)
  from Cons.IH [OF this] step obtain h' where
    h': "extension_set_drop (e # es) h = Inr h'" "heap_step ?h es h' []" "heap_ok h'"
    by auto
  have "heap_step h (e # es) h' []"
    using h'(2) by (auto simp: heap_step_def owned_def)
  with h' show ?case by blast
qed

section \<open>Properties\<close>

text \<open>C11: A set behaves as a map from descriptors to values: after \<open>insert\<close> the descriptor reads
  the new value and every other one reads what it did, the value displaced, if any, has been
  freed once and nothing else was, and no step faults.\<close>

theorem extension_insert_get:
  assumes "set_ok decl h es" "declared decl ext"
  shows "\<exists>es' h'. ext_insert ext v es h = Inr (es', h') \<and> set_ok decl h' es' \<and>
    (declared decl ext' \<longrightarrow> ext_get ext' es' h' =
       (if ex_identity ext' = ex_identity ext then Inr (Some v) else ext_get ext' es h)) \<and>
    dom (hp_cells h') = dom (hp_cells h) - owned es \<union> owned es'"
proof -
  obtain es' h' where i: "ext_insert ext v es h = Inr (es', h')" "set_ok decl h' es'"
      "ext_abs h' es' = (ext_abs h es)(ex_identity ext \<mapsto> v)" "heap_step h es h' es'"
    by (rule insert_spec [OF assms])
  have "ext_get ext' es' h' =
      (if ex_identity ext' = ex_identity ext then Inr (Some v) else ext_get ext' es h)"
    if "declared decl ext'"
    using ext_get_abs [OF i(2) that] ext_get_abs [OF assms(1) that] i(3) by simp
  with i show ?thesis by (auto simp: heap_step_def)
qed

definition sample_decl :: "nat \<Rightarrow> nat Extension" where
  "sample_decl k = (if k = 1 then ext_inheritable ''CACHE'' 1 8 Suc else ext_local ''SCRATCH'' k 9)"

definition sample_heap :: "nat heap" where
  "sample_heap = \<lparr>hp_cells = (\<lambda>_. None)(0 \<mapsto> (8, 5)), hp_next = 1\<rparr>"

definition sample_set :: "nat ExtensionSet" where
  "sample_set = [\<lparr>en_key = 1, en_value = 0, en_basic = 8, en_clone = Some Suc\<rparr>]"

lemma sample_set_ok: "set_ok sample_decl sample_heap sample_set" "set_ok sample_decl sample_heap []"
  "declared sample_decl (sample_decl k)"
  by (auto simp: set_ok_def heap_ok_def entry_ok_def sample_decl_def sample_heap_def sample_set_def
      ext_inheritable_def ext_local_def declared_def)

theorem extension_insert_get_witness:
  "\<exists>es' h'. ext_insert (sample_decl 1) 7 sample_set sample_heap = Inr (es', h') \<and>
     ext_get (sample_decl 1) es' h' = Inr (Some 7)"
  using extension_insert_get [OF sample_set_ok(1) sample_set_ok(3) [of 1], of 7 "sample_decl 1"] sample_set_ok(3) [of 1]
  by auto

text \<open>Inheritance and explicit values commute: for a launcher's pending set and a parent's set
  apart from it, \<open>with_extension\<close> then \<open>inherit_from\<close> and the other order both succeed and every
  declared descriptor reads the same in the two results: the explicit value, else the value the
  pending set had, else the parent's value cloned when the descriptor is inheritable.\<close>

theorem explicit_wins_over_inherited:
  assumes "set_ok decl h es" "set_ok decl h src" "owned src \<inter> owned es = {}" "declared decl ext"
    and "declared decl ext'"
  shows "\<exists>r. (\<exists>es1 h1 es2 h2. with_extension ext v es h = Inr (es1, h1) \<and>
      inherit_from src es1 h1 = Inr (es2, h2) \<and> ext_get ext' es2 h2 = Inr r) \<and>
    (\<exists>es1 h1 es2 h2. inherit_from src es h = Inr (es1, h1) \<and>
      with_extension ext v es1 h1 = Inr (es2, h2) \<and> ext_get ext' es2 h2 = Inr r) \<and>
    r = (if ex_identity ext' = ex_identity ext then Some v
         else case ext_abs h es (ex_identity ext') of Some w \<Rightarrow> Some w
            | None \<Rightarrow> inheritable_abs decl h src (ex_identity ext'))"
proof -
  let ?r = "if ex_identity ext' = ex_identity ext then Some v
         else case ext_abs h es (ex_identity ext') of Some w \<Rightarrow> Some w
            | None \<Rightarrow> inheritable_abs decl h src (ex_identity ext')"
  obtain es1 h1 where i: "ext_insert ext v es h = Inr (es1, h1)" "set_ok decl h1 es1"
      "ext_abs h1 es1 = (ext_abs h es)(ex_identity ext \<mapsto> v)" "heap_step h es h1 es1"
    by (rule insert_spec [OF assms(1,4)])
  have heap1: "heap_ok h1" using i(2) by (simp add: set_ok_def)
  note src1 = heap_step_other [OF i(4) assms(2,3) heap1]
  have below: "b < hp_next h" if "b \<in> owned src" for b by (rule owned_live(2) [OF assms(2) that])
  then have disj1: "owned src \<inter> owned es1 = {}" using i(4) assms(3) by (fastforce simp: heap_step_def)
  from inherit_spec [OF i(2) src1(1) disj1] obtain es2 h2 where
    j: "inherit_inheritable_from es1 src h1 = Inr (es2, h2)" "inherits decl h1 es1 src h2 es2"
    by blast
  have "inheritable_abs decl h1 src k = inheritable_abs decl h src k" for k
    by (simp add: inheritable_abs_def src1(2) split: option.split)
  then have "ext_get ext' es2 h2 = Inr ?r"
    using j(2) i(3) ext_get_abs [OF _ assms(5), of h2 es2]
    by (auto simp: inherits_def split: option.split)
  moreover from inherit_spec [OF assms(1-3)] obtain es3 h3 where
    k: "inherit_inheritable_from es src h = Inr (es3, h3)" "inherits decl h es src h3 es3"
    by blast
  moreover from k(2) have "set_ok decl h3 es3" by (simp add: inherits_def)
  from insert_spec [OF this assms(4), of v] obtain es4 h4 where
    l: "ext_insert ext v es3 h3 = Inr (es4, h4)" "set_ok decl h4 es4"
      "ext_abs h4 es4 = (ext_abs h3 es3)(ex_identity ext \<mapsto> v)"
    by metis
  moreover have "ext_get ext' es4 h4 = Inr ?r"
    using l(3) k(2) ext_get_abs [OF l(2) assms(5)] by (auto simp: inherits_def)
  ultimately show ?thesis using i(1) j(1) unfolding with_extension_def inherit_from_def by blast
qed

theorem explicit_wins_over_inherited_witness:
  "\<exists>es1 h1 es2 h2. with_extension (sample_decl 2) 7 [] sample_heap = Inr (es1, h1) \<and>
      inherit_from sample_set es1 h1 = Inr (es2, h2) \<and> ext_get (sample_decl 1) es2 h2 = Inr (Some 6)"
proof -
  have "inheritable_abs sample_decl sample_heap sample_set (ex_identity (sample_decl 1)) = Some 6"
    "ex_identity (sample_decl 1) \<noteq> ex_identity (sample_decl 2)"
    by (simp_all add: inheritable_abs_def sample_decl_def sample_heap_def sample_set_def
        ext_inheritable_def ext_local_def)
  with explicit_wins_over_inherited [OF sample_set_ok(2,1) _ sample_set_ok(3) [of 2] sample_set_ok(3) [of 1], of 7]
  show ?thesis by (auto simp: owned_def)
qed

text \<open>Dropping a set frees each of its values exactly once and nothing else: it never frees a box
  twice or at another type, and afterwards exactly the boxes it did not own are live.\<close>

theorem extension_set_drop_frees:
  assumes "set_ok decl h es"
  shows "\<exists>h'. extension_set_drop es h = Inr h' \<and> dom (hp_cells h') = dom (hp_cells h) - owned es"
  using drop_spec [OF assms] by (auto simp: heap_step_def owned_def)

theorem extension_set_drop_frees_witness:
  "\<exists>h'. extension_set_drop sample_set sample_heap = Inr h' \<and> dom (hp_cells h') = {}"
  using extension_set_drop_frees [OF sample_set_ok(1)]
  by (auto simp: sample_heap_def sample_set_def owned_def)

end
