(* ===== verification/Actor_State.thy ===== *)
theory Actor_State
  imports Lifecycle Sync Mailbox
begin

text \<open>
  The state an actor's run loop shares with its handles: \<open>SharedActorState\<close> and the drop guard
  of \<open>crates/factories_actor/src/actor/state.rs\<close>, the outcomes of \<open>lifecycle.rs\<close>, actor ids and
  termination subscriptions of \<open>supervision.rs\<close>, and the capture events of \<open>capture.rs\<close>. What the
  outside sees of the operations, wakes, capture events, deliveries, is kept in a log.
\<close>

section \<open>Actor ids\<close>

type_synonym actor_id = u64

text \<open>
  \<open>ActorId::new\<close>: \<open>fetch_add\<close> on the counter, which wraps; the \<open>NonZeroUsize\<close> conversion panics on
  zero.
\<close>

definition NEXT_ACTOR_ID :: u64 where "NEXT_ACTOR_ID = 1"

definition actor_id_new :: "u64 \<Rightarrow> (unit, actor_id) outcome \<times> u64" where
  "actor_id_new counter = (if counter = 0 then Inl Panic else Inr counter, counter + 1)"

section \<open>Outcomes\<close>

text \<open>
  A panic payload: a literal, a formatted message, or anything else. The payload is taken at
  most once; the message was copied at capture.
\<close>

datatype payload = StaticStr string | OwnedString string | OtherPayload nat

record CapturedPanic =
  cp_message :: "string option"
  cp_payload :: "payload option"

definition from_unwind_payload :: "payload \<Rightarrow> CapturedPanic" where
  "from_unwind_payload p =
     \<lparr>cp_message = (case p of StaticStr s \<Rightarrow> Some s | OwnedString s \<Rightarrow> Some s | OtherPayload _ \<Rightarrow> None),
      cp_payload = Some p\<rparr>"

definition take_raw :: "CapturedPanic \<Rightarrow> payload option \<times> CapturedPanic" where
  "take_raw p = (cp_payload p, p\<lparr>cp_payload := None\<rparr>)"

definition panic_display :: "CapturedPanic \<Rightarrow> string" where
  "panic_display p = (case cp_message p of Some m \<Rightarrow> m | None \<Rightarrow> ''<non-string panic payload>'')"

datatype 'e TerminationReason = Finished | Failed 'e | Panicked CapturedPanic | Aborted

datatype TerminationKind = KindFinished | KindFailed | KindPanicked | KindAborted

fun kind :: "'e TerminationReason \<Rightarrow> TerminationKind" where
  "kind Finished = KindFinished"
| "kind (Failed _) = KindFailed"
| "kind (Panicked _) = KindPanicked"
| "kind Aborted = KindAborted"

datatype 'e StopReason = StopFinished | StopFailed 'e | StopPanicked CapturedPanic

section \<open>Capture events\<close>

record EventId =
  ev_actor :: actor_id
  ev_seq :: u64

datatype EnvelopeType = TypeTell | TypeAsk

datatype Dispatch = Tell | Ask

fun dispatch_from :: "EnvelopeType \<Rightarrow> Dispatch" where
  "dispatch_from TypeTell = Tell"
| "dispatch_from TypeAsk = Ask"

datatype CaptureEvent =
    EvSpawned EventId string "actor_id option" "EventId option"
  | EvDied EventId string TerminationKind "EventId option"
  | EvMessage EventId "actor_id option" actor_id string Dispatch "EventId option"

fun event_id :: "CaptureEvent \<Rightarrow> EventId" where
  "event_id (EvSpawned i _ _ _) = i"
| "event_id (EvDied i _ _ _) = i"
| "event_id (EvMessage i _ _ _ _ _) = i"

record CaptureFrame =
  cf_actor :: actor_id
  cf_handling :: "EventId option"

record CaptureStamp =
  cs_from :: "actor_id option"
  cs_caused_by :: "EventId option"

text \<open>The thread's current frame is an argument.\<close>

definition current_stamp :: "CaptureFrame option \<Rightarrow> CaptureStamp" where
  "current_stamp current_frame =
     (case current_frame of
        Some f \<Rightarrow> \<lparr>cs_from = Some (cf_actor f), cs_caused_by = cf_handling f\<rparr>
      | None \<Rightarrow> \<lparr>cs_from = None, cs_caused_by = None\<rparr>)"

section \<open>Subscriptions\<close>

datatype WatchDeliveryPolicy = Always | WaitNonblockingOnly | NoWait

record Terminated =
  tm_watched :: actor_id
  tm_rtti :: string
  tm_kind :: TerminationKind
  tm_tag :: u64

text \<open>The watcher is a weak reference, named by the watcher's id.\<close>

record Subscription =
  sub_watcher :: actor_id
  sub_watcher_id :: actor_id
  sub_dispatcher :: nat
  sub_tag :: u64
  sub_delivery_policy :: WatchDeliveryPolicy

type_synonym term_message = "nat \<times> Terminated"

text \<open>The live actors' channels: a weak reference to an actor that is not there upgrades to nothing.\<close>

type_synonym 'q watchers = "actor_id \<Rightarrow> ('q, term_message) multilane option"

datatype delivery = Delivered | DeliveryFailed ActorChannelSendError | WatcherGone | Waiting

definition prepare_signal :: "'q watchers \<Rightarrow> Subscription \<Rightarrow> actor_id \<Rightarrow> string \<Rightarrow> TerminationKind \<Rightarrow>
    (('q, term_message) multilane \<times> term_message) option" where
  "prepare_signal ws sub watched rtti k =
     (case ws (sub_watcher sub) of
        None \<Rightarrow> None
      | Some ch \<Rightarrow> Some (ch, sub_dispatcher sub,
          \<lparr>tm_watched = watched, tm_rtti = rtti, tm_kind = k, tm_tag = sub_tag sub\<rparr>))"

definition delivery_result :: "send_result \<Rightarrow> delivery" where
  "delivery_result r = (case r of Inr _ \<Rightarrow> Delivered | Inl e \<Rightarrow> DeliveryFailed e)"

text \<open>
  One poll of a waiting delivery (asynchronous, or a thread parked in \<open>blocking_send\<close>), and a
  delivery that does not wait. A \<open>Terminated\<close> envelope has no answer sender and is sendable.
\<close>

definition deliver_waiting :: "('q, term_message) mpsc \<Rightarrow> actor_id \<Rightarrow> string \<Rightarrow> TerminationKind \<Rightarrow>
    Subscription \<Rightarrow> 'q watchers \<Rightarrow> delivery \<times> 'q watchers" where
  "deliver_waiting ops watched rtti k sub ws =
     (case prepare_signal ws sub watched rtti k of
        None \<Rightarrow> (WatcherGone, ws)
      | Some (ch, m) \<Rightarrow>
          (case poll_send ops (\<lambda>_. True) ch (prepare_send ch m) of
             (Ready r, ch') \<Rightarrow> (delivery_result r, ws(sub_watcher sub \<mapsto> ch'))
           | (Pending, ch') \<Rightarrow> (Waiting, ws(sub_watcher sub \<mapsto> ch'))))"

definition deliver_nonblocking :: "('q, term_message) mpsc \<Rightarrow> actor_id \<Rightarrow> string \<Rightarrow> TerminationKind \<Rightarrow>
    Subscription \<Rightarrow> 'q watchers \<Rightarrow> delivery \<times> 'q watchers" where
  "deliver_nonblocking ops watched rtti k sub ws =
     (case prepare_signal ws sub watched rtti k of
        None \<Rightarrow> (WatcherGone, ws)
      | Some (ch, m) \<Rightarrow>
          (case try_send ops (\<lambda>_. True) ch (prepare_send ch m) of
             (r, ch') \<Rightarrow> (delivery_result r, ws(sub_watcher sub \<mapsto> ch'))))"

definition deliver :: "('q, term_message) mpsc \<Rightarrow> actor_id \<Rightarrow> string \<Rightarrow> TerminationKind \<Rightarrow>
    Subscription \<Rightarrow> 'q watchers \<Rightarrow> delivery \<times> 'q watchers" where
  "deliver ops watched rtti k sub =
     (case sub_delivery_policy sub of
        Always \<Rightarrow> deliver_waiting ops watched rtti k sub
      | WaitNonblockingOnly \<Rightarrow> deliver_waiting ops watched rtti k sub
      | NoWait \<Rightarrow> deliver_nonblocking ops watched rtti k sub)"

definition deliver_now :: "('q, term_message) mpsc \<Rightarrow> actor_id \<Rightarrow> string \<Rightarrow> TerminationKind \<Rightarrow>
    Subscription \<Rightarrow> 'q watchers \<Rightarrow> delivery \<times> 'q watchers" where
  "deliver_now ops watched rtti k sub =
     (case sub_delivery_policy sub of
        Always \<Rightarrow> deliver_waiting ops watched rtti k sub
      | WaitNonblockingOnly \<Rightarrow> deliver_nonblocking ops watched rtti k sub
      | NoWait \<Rightarrow> deliver_nonblocking ops watched rtti k sub)"

section \<open>The shared state\<close>

datatype trace =
    Woke waker
  | Capture CaptureEvent
  | ObsStarted
  | ObsStopRequested LifecycleState
  | ObsStopHookPanicked CapturedPanic
  | ObsStopped string bool
  | ObsAborted
  | Signal Subscription TerminationKind delivery

record 'e SharedActorState =
  ss_id :: actor_id
  ss_rtti_name :: string
  ss_reason :: "'e TerminationReason OnceCell"
  ss_lifecycle :: LifecycleCell
  ss_subscriptions :: "Subscription list"
  ss_task :: "nat OnceCell"
  ss_capture_sink :: bool
  ss_capture_seq :: u64
  ss_capture_birth :: "CaptureFrame option OnceCell"
  ss_log :: "trace list"

definition shared_new :: "actor_id \<Rightarrow> string \<Rightarrow> bool \<Rightarrow> 'e SharedActorState" where
  "shared_new actor rtti_name captured =
     \<lparr>ss_id = actor, ss_rtti_name = rtti_name, ss_reason = once_new,
      ss_lifecycle = lifecycle_cell_new, ss_subscriptions = [], ss_task = once_new,
      ss_capture_sink = captured, ss_capture_seq = 1, ss_capture_birth = once_new, ss_log = []\<rparr>"

definition emit :: "trace list \<Rightarrow> 'e SharedActorState \<Rightarrow> 'e SharedActorState" where
  "emit ts s = s\<lparr>ss_log := ss_log s @ ts\<rparr>"

definition record_reason :: "'e TerminationReason \<Rightarrow> 'e SharedActorState \<Rightarrow> 'e SharedActorState" where
  "record_reason r s = s\<lparr>ss_reason := snd (once_set r (ss_reason s))\<rparr>"

definition record_failure :: "'e \<Rightarrow> 'e SharedActorState \<Rightarrow> 'e SharedActorState" where
  "record_failure e = record_reason (Failed e)"

definition record_panic :: "CapturedPanic \<Rightarrow> 'e SharedActorState \<Rightarrow> 'e SharedActorState" where
  "record_panic p = record_reason (Panicked p)"

definition mark_finished :: "'e SharedActorState \<Rightarrow> 'e SharedActorState" where
  "mark_finished = record_reason Finished"

definition mark_aborted :: "'e SharedActorState \<Rightarrow> 'e SharedActorState" where
  "mark_aborted = record_reason Aborted"

definition termination_reason :: "'e SharedActorState \<Rightarrow> 'e TerminationReason option" where
  "termination_reason s = once_read (ss_reason s)"

definition failed_error :: "'e SharedActorState \<Rightarrow> 'e option" where
  "failed_error s = (case termination_reason s of Some (Failed e) \<Rightarrow> Some e | _ \<Rightarrow> None)"

definition is_compromised :: "'e SharedActorState \<Rightarrow> bool" where
  "is_compromised s =
     (case termination_reason s of Some (Failed _) \<Rightarrow> True | Some (Panicked _) \<Rightarrow> True | _ \<Rightarrow> False)"

definition add_subscription :: "Subscription \<Rightarrow> 'e SharedActorState \<Rightarrow> 'e SharedActorState" where
  "add_subscription sub s = s\<lparr>ss_subscriptions := ss_subscriptions s @ [sub]\<rparr>"

definition remove_subscriptions :: "actor_id \<Rightarrow> 'e SharedActorState \<Rightarrow> 'e SharedActorState" where
  "remove_subscriptions watcher s =
     s\<lparr>ss_subscriptions := filter (\<lambda>sub. sub_watcher_id sub \<noteq> watcher) (ss_subscriptions s)\<rparr>"

definition take_subscriptions :: "'e SharedActorState \<Rightarrow>
    (TerminationKind \<times> Subscription list) option \<times> 'e SharedActorState" where
  "take_subscriptions s =
     (case termination_reason s of
        None \<Rightarrow> (None, s)
      | Some r \<Rightarrow> (Some (kind r, ss_subscriptions s), s\<lparr>ss_subscriptions := []\<rparr>))"

definition attach_task :: "nat \<Rightarrow> 'e SharedActorState \<Rightarrow> (nat + unit) \<times> 'e SharedActorState" where
  "attach_task t s = (let (r, c) = once_set t (ss_task s) in (r, s\<lparr>ss_task := c\<rparr>))"

definition next_capture_event_id :: "'e SharedActorState \<Rightarrow> EventId \<times> 'e SharedActorState" where
  "next_capture_event_id s =
     (\<lparr>ev_actor = ss_id s, ev_seq = ss_capture_seq s\<rparr>, s\<lparr>ss_capture_seq := ss_capture_seq s + 1\<rparr>)"

definition set_capture_birth :: "CaptureFrame option \<Rightarrow> 'e SharedActorState \<Rightarrow> 'e SharedActorState" where
  "set_capture_birth frame s = s\<lparr>ss_capture_birth := snd (once_set frame (ss_capture_birth s))\<rparr>"

definition capture_birth :: "'e SharedActorState \<Rightarrow> CaptureFrame option" where
  "capture_birth s = (case once_read (ss_capture_birth s) of Some f \<Rightarrow> f | None \<Rightarrow> None)"

definition lifecycle :: "'e SharedActorState \<Rightarrow> LifecycleState" where
  "lifecycle s = cell_state (ss_lifecycle s)"

definition shared_transition :: "(LifecycleCell \<Rightarrow> waker list \<times> LifecycleCell) \<Rightarrow>
    'e SharedActorState \<Rightarrow> 'e SharedActorState" where
  "shared_transition f s =
     (let (ws, c) = f (ss_lifecycle s) in emit (map Woke ws) (s\<lparr>ss_lifecycle := c\<rparr>))"

definition shared_running :: "'e SharedActorState \<Rightarrow> 'e SharedActorState" where
  "shared_running = shared_transition transition_running"

definition shared_draining :: "'e SharedActorState \<Rightarrow> 'e SharedActorState" where
  "shared_draining = shared_transition transition_draining"

definition shared_stopping :: "'e SharedActorState \<Rightarrow> 'e SharedActorState" where
  "shared_stopping s = s\<lparr>ss_lifecycle := transition_stopping (ss_lifecycle s)\<rparr>"

definition shared_dead :: "'e SharedActorState \<Rightarrow> 'e SharedActorState" where
  "shared_dead = shared_transition transition_dead"

definition should_stop :: "'e SharedActorState \<Rightarrow> bool" where
  "should_stop s \<longleftrightarrow> \<not> (lifecycle s = Starting \<or> lifecycle s = Running)"

section \<open>Recording captures\<close>

definition record_spawned :: "'e SharedActorState \<Rightarrow> 'e SharedActorState" where
  "record_spawned s =
     (if ss_capture_sink s then
        (let (i, s') = next_capture_event_id s; origin = capture_birth s' in
         emit [Capture (EvSpawned i (ss_rtti_name s') (map_option cf_actor origin)
                (case origin of None \<Rightarrow> None | Some f \<Rightarrow> cf_handling f))] s')
      else s)"

definition record_died :: "'e SharedActorState \<Rightarrow> 'e SharedActorState" where
  "record_died s =
     (if ss_capture_sink s then
        (let (i, s') = next_capture_event_id s in
         emit [Capture (EvDied i (ss_rtti_name s')
                (case termination_reason s' of Some r \<Rightarrow> kind r | None \<Rightarrow> KindAborted) None)] s')
      else s)"

text \<open>
  \<open>instrument_handler\<close>: the event of a delivery, and the frame the handler runs under; and one
  poll of \<open>WithFrame\<close>, which gives the inner poll the frame and afterwards, also when the inner
  poll panics, puts the thread's frame back.
\<close>

definition instrument_handler :: "CaptureStamp \<Rightarrow> string \<Rightarrow> Dispatch \<Rightarrow> 'e SharedActorState \<Rightarrow>
    CaptureFrame option \<times> 'e SharedActorState" where
  "instrument_handler stamp message_type dispatch s =
     (if ss_capture_sink s then
        (let (i, s') = next_capture_event_id s in
         (Some \<lparr>cf_actor = ev_actor i, cf_handling = Some i\<rparr>,
          emit [Capture (EvMessage i (cs_from stamp) (ev_actor i) message_type dispatch
                  (cs_caused_by stamp))] s'))
      else (None, s))"

definition with_frame_poll :: "CaptureFrame option \<Rightarrow>
    (CaptureFrame option \<Rightarrow> (unit, 'r poll) outcome \<times> CaptureFrame option) \<Rightarrow>
    CaptureFrame option \<Rightarrow> (unit, 'r poll) outcome \<times> CaptureFrame option" where
  "with_frame_poll frame inner current_frame =
     (case inner frame of (r, _) \<Rightarrow> (r, current_frame))"


section \<open>What each operation does to the state\<close>

text \<open>The state's memory is in order: the write-once cells and the lifecycle byte.\<close>

definition shared_ok :: "'e SharedActorState \<Rightarrow> bool" where
  "shared_ok s \<longleftrightarrow> once_ok (ss_reason s) \<and> cell_ok (ss_lifecycle s)"

fun captures :: "trace list \<Rightarrow> CaptureEvent list" where
  "captures [] = []"
| "captures (Capture e # ts) = e # captures ts"
| "captures (_ # ts) = captures ts"

fun signals :: "trace list \<Rightarrow> (Subscription \<times> TerminationKind) list" where
  "signals [] = []"
| "signals (Signal sub k d # ts) = (sub, k) # signals ts"
| "signals (_ # ts) = signals ts"

lemma captures_append [simp]: "captures (ts @ us) = captures ts @ captures us"
  by (induction ts rule: captures.induct) simp_all

lemma signals_append [simp]: "signals (ts @ us) = signals ts @ signals us"
  by (induction ts rule: signals.induct) simp_all

lemma wokes [simp]: "captures (map Woke ws) = []" "signals (map Woke ws) = []"
  by (induction ws) simp_all

lemma shared_new_fields [simp]:
  "shared_ok (shared_new actor name captured)" "lifecycle (shared_new actor name captured) = Starting"
  "termination_reason (shared_new actor name captured) = None"
  "ss_log (shared_new actor name captured) = []" "ss_subscriptions (shared_new actor name captured) = []"
  "ss_capture_seq (shared_new actor name captured) = 1" "ss_id (shared_new actor name captured) = actor"
  "ss_capture_sink (shared_new actor name captured) = captured"
  by (simp_all add: shared_new_def shared_ok_def lifecycle_def termination_reason_def)

lemma emit_fields [simp]:
  "shared_ok (emit ts s) = shared_ok s" "lifecycle (emit ts s) = lifecycle s"
  "termination_reason (emit ts s) = termination_reason s" "ss_log (emit ts s) = ss_log s @ ts"
  "ss_subscriptions (emit ts s) = ss_subscriptions s" "ss_capture_seq (emit ts s) = ss_capture_seq s"
  "ss_id (emit ts s) = ss_id s" "ss_capture_sink (emit ts s) = ss_capture_sink s"
  "capture_birth (emit ts s) = capture_birth s" "ss_rtti_name (emit ts s) = ss_rtti_name s"
  by (simp_all add: emit_def shared_ok_def lifecycle_def termination_reason_def capture_birth_def)

lemma record_reason_fields [simp]:
  "lifecycle (record_reason r s) = lifecycle s" "ss_log (record_reason r s) = ss_log s"
  "ss_subscriptions (record_reason r s) = ss_subscriptions s" "ss_id (record_reason r s) = ss_id s"
  "ss_capture_seq (record_reason r s) = ss_capture_seq s"
  "ss_capture_sink (record_reason r s) = ss_capture_sink s"
  by (simp_all add: record_reason_def lifecycle_def)

text \<open>The write-once contract, for the reason: the first is kept.\<close>

lemma record_reason_ok [simp]:
  assumes "shared_ok s"
  shows "shared_ok (record_reason r s)"
    "termination_reason (record_reason r s) =
       (case termination_reason s of None \<Rightarrow> Some r | Some q \<Rightarrow> Some q)"
  using assms once.set_ok once.get_set
  by (auto simp: record_reason_def shared_ok_def termination_reason_def)

lemmas record_defs = record_failure_def record_panic_def mark_finished_def mark_aborted_def

lemma transition_fields [simp]:
  "termination_reason (shared_transition f s) = termination_reason s"
  "ss_subscriptions (shared_transition f s) = ss_subscriptions s" "ss_id (shared_transition f s) = ss_id s"
  "ss_capture_seq (shared_transition f s) = ss_capture_seq s"
  "ss_capture_sink (shared_transition f s) = ss_capture_sink s"
  "captures (ss_log (shared_transition f s)) = captures (ss_log s)"
  "signals (ss_log (shared_transition f s)) = signals (ss_log s)"
  by (simp_all add: shared_transition_def termination_reason_def emit_def split: prod.splits)

lemma stopping_fields [simp]:
  "termination_reason (shared_stopping s) = termination_reason s"
  "ss_subscriptions (shared_stopping s) = ss_subscriptions s" "ss_id (shared_stopping s) = ss_id s"
  "ss_capture_seq (shared_stopping s) = ss_capture_seq s"
  "ss_capture_sink (shared_stopping s) = ss_capture_sink s" "ss_log (shared_stopping s) = ss_log s"
  by (simp_all add: shared_stopping_def termination_reason_def)

lemma lifecycle_transitions [simp]:
  assumes "shared_ok s"
  shows "lifecycle (shared_running s) = (if lifecycle s = Starting then Running else lifecycle s)"
    "lifecycle (shared_draining s) = (if lifecycle s \<le> Running then Draining else lifecycle s)"
    "lifecycle (shared_stopping s) =
       (if lifecycle s = Running \<or> lifecycle s = Draining then Stopping else lifecycle s)"
    "lifecycle (shared_dead s) = Dead"
    "shared_ok (shared_running s)" "shared_ok (shared_draining s)" "shared_ok (shared_stopping s)"
    "shared_ok (shared_dead s)"
  using assms transition_states [of "ss_lifecycle s"] transition_ok [of "ss_lifecycle s"]
  by (auto simp: shared_running_def shared_draining_def shared_stopping_def shared_dead_def
      shared_transition_def shared_ok_def lifecycle_def emit_def split: prod.splits)

lemma state_transition_fields [simp]:
  "termination_reason (shared_running s) = termination_reason s"
  "termination_reason (shared_draining s) = termination_reason s"
  "termination_reason (shared_dead s) = termination_reason s"
  "ss_subscriptions (shared_running s) = ss_subscriptions s"
  "ss_subscriptions (shared_draining s) = ss_subscriptions s"
  "ss_subscriptions (shared_dead s) = ss_subscriptions s"
  "ss_id (shared_running s) = ss_id s" "ss_id (shared_draining s) = ss_id s"
  "ss_id (shared_dead s) = ss_id s" "ss_capture_seq (shared_running s) = ss_capture_seq s"
  "ss_capture_seq (shared_draining s) = ss_capture_seq s"
  "ss_capture_seq (shared_dead s) = ss_capture_seq s"
  "ss_capture_sink (shared_running s) = ss_capture_sink s"
  "ss_capture_sink (shared_draining s) = ss_capture_sink s"
  "ss_capture_sink (shared_dead s) = ss_capture_sink s"
  "captures (ss_log (shared_running s)) = captures (ss_log s)"
  "captures (ss_log (shared_draining s)) = captures (ss_log s)"
  "captures (ss_log (shared_dead s)) = captures (ss_log s)"
  "signals (ss_log (shared_running s)) = signals (ss_log s)"
  "signals (ss_log (shared_draining s)) = signals (ss_log s)"
  "signals (ss_log (shared_dead s)) = signals (ss_log s)"
  by (simp_all add: shared_running_def shared_draining_def shared_dead_def)

lemmas shared_transition_defs = shared_running_def shared_draining_def shared_dead_def

text \<open>The operations of other threads: they touch neither the reason nor the lifecycle.\<close>

lemma subscription_fields [simp]:
  "shared_ok (add_subscription sub s) = shared_ok s"
  "lifecycle (add_subscription sub s) = lifecycle s"
  "termination_reason (add_subscription sub s) = termination_reason s"
  "ss_log (add_subscription sub s) = ss_log s" "ss_id (add_subscription sub s) = ss_id s"
  "ss_capture_seq (add_subscription sub s) = ss_capture_seq s"
  "ss_capture_sink (add_subscription sub s) = ss_capture_sink s"
  "shared_ok (remove_subscriptions a s) = shared_ok s"
  "lifecycle (remove_subscriptions a s) = lifecycle s"
  "termination_reason (remove_subscriptions a s) = termination_reason s"
  "ss_log (remove_subscriptions a s) = ss_log s" "ss_id (remove_subscriptions a s) = ss_id s"
  "ss_capture_seq (remove_subscriptions a s) = ss_capture_seq s"
  "ss_capture_sink (remove_subscriptions a s) = ss_capture_sink s"
  by (simp_all add: add_subscription_def remove_subscriptions_def shared_ok_def lifecycle_def
      termination_reason_def)

section \<open>The capture sequence\<close>

text \<open>The events one actor has emitted carry its id and count up from one.\<close>

definition event_at :: "'e SharedActorState \<Rightarrow> nat \<Rightarrow> EventId" where
  "event_at s k = \<lparr>ev_actor = ss_id s, ev_seq = of_nat (k + 1)\<rparr>"

definition sequence_ok :: "'e SharedActorState \<Rightarrow> bool" where
  "sequence_ok s \<longleftrightarrow>
     map event_id (captures (ss_log s)) = map (event_at s) [0..<length (captures (ss_log s))] \<and>
     ss_capture_seq s = of_nat (length (captures (ss_log s)) + 1)"

lemma sequence_ok_cong:
  "captures (ss_log s') = captures (ss_log s) \<Longrightarrow> ss_id s' = ss_id s \<Longrightarrow>
     ss_capture_seq s' = ss_capture_seq s \<Longrightarrow> sequence_ok s' = sequence_ok s"
  by (simp add: sequence_ok_def event_at_def [abs_def])

lemma sequence_ok_same [simp]:
  "sequence_ok (shared_transition f s) = sequence_ok s" "sequence_ok (shared_stopping s) = sequence_ok s"
  "sequence_ok (shared_running s) = sequence_ok s" "sequence_ok (shared_draining s) = sequence_ok s"
  "sequence_ok (shared_dead s) = sequence_ok s" "sequence_ok (record_reason r s) = sequence_ok s"
  "captures ts = [] \<Longrightarrow> sequence_ok (emit ts s) = sequence_ok s"
  by (rule sequence_ok_cong; simp)+

lemma sequence_ok_new [simp]: "sequence_ok (shared_new actor name captured)"
  by (simp add: sequence_ok_def)

text \<open>Minting an id and emitting the event that carries it.\<close>

definition minted :: "'e SharedActorState \<Rightarrow> CaptureEvent \<Rightarrow> 'e SharedActorState" where
  "minted s e = emit [Capture e] (snd (next_capture_event_id s))"

lemma minted_fields [simp]:
  "shared_ok (minted s e) = shared_ok s" "lifecycle (minted s e) = lifecycle s"
  "termination_reason (minted s e) = termination_reason s"
  "ss_log (minted s e) = ss_log s @ [Capture e]" "ss_id (minted s e) = ss_id s"
  "ss_subscriptions (minted s e) = ss_subscriptions s"
  "ss_capture_sink (minted s e) = ss_capture_sink s"
  by (simp_all add: minted_def next_capture_event_id_def shared_ok_def lifecycle_def emit_def
      termination_reason_def)

lemma sequence_ok_minted:
  assumes "sequence_ok s" "event_id e = fst (next_capture_event_id s)"
  shows "sequence_ok (minted s e)"
  using assms
  by (auto simp: sequence_ok_def event_at_def minted_def next_capture_event_id_def)

definition spawned_event :: "'e SharedActorState \<Rightarrow> CaptureEvent" where
  "spawned_event s = EvSpawned (fst (next_capture_event_id s)) (ss_rtti_name s)
     (map_option cf_actor (capture_birth s))
     (case capture_birth s of None \<Rightarrow> None | Some f \<Rightarrow> cf_handling f)"

definition died_event :: "'e SharedActorState \<Rightarrow> CaptureEvent" where
  "died_event s = EvDied (fst (next_capture_event_id s)) (ss_rtti_name s)
     (case termination_reason s of Some r \<Rightarrow> kind r | None \<Rightarrow> KindAborted) None"

definition message_event :: "CaptureStamp \<Rightarrow> string \<Rightarrow> Dispatch \<Rightarrow> 'e SharedActorState \<Rightarrow> CaptureEvent" where
  "message_event stamp message_type dispatch s =
     EvMessage (fst (next_capture_event_id s)) (cs_from stamp) (ss_id s) message_type dispatch
       (cs_caused_by stamp)"

lemma record_spawned_minted:
  "record_spawned s = (if ss_capture_sink s then minted s (spawned_event s) else s)"
  by (simp add: record_spawned_def minted_def spawned_event_def next_capture_event_id_def
      capture_birth_def Let_def)

lemma record_died_minted:
  "record_died s = (if ss_capture_sink s then minted s (died_event s) else s)"
  by (simp add: record_died_def minted_def died_event_def next_capture_event_id_def
      termination_reason_def)

lemma instrument_handler_minted:
  "snd (instrument_handler stamp message_type dispatch s) =
     (if ss_capture_sink s then minted s (message_event stamp message_type dispatch s) else s)"
  by (simp add: instrument_handler_def minted_def message_event_def next_capture_event_id_def)

lemma event_ids [simp]:
  "event_id (spawned_event s) = fst (next_capture_event_id s)"
  "event_id (died_event s) = fst (next_capture_event_id s)"
  "event_id (message_event stamp ty d s) = fst (next_capture_event_id s)"
  by (simp_all add: spawned_event_def died_event_def message_event_def)

lemmas capture_minted = record_spawned_minted record_died_minted instrument_handler_minted

end
