(* ===== verification/Run_Loop.thy ===== *)
theory Run_Loop
  imports Actor_State
begin

text \<open>
  The task of an actor (\<open>runtime/loop_support.rs\<close>, \<open>runtime/sequential_loop.rs\<close>,
  \<open>runtime/concurrent_loop.rs\<close>, \<open>actor/event.rs\<close>, the drop guard of \<open>actor/state.rs\<close>): from its first
  poll over the initialiser, the start hook, the pull-and-dispatch loop and the stop hook to the
  termination signals and the guard that announces \<open>Dead\<close>. The actor's own code is data: what a
  hook or a handler asks of its context, where it awaits, and whether it panics. A step of the
  task is one access of the shared state; between two steps other threads send, watch, wait and
  attach, and where the task is suspended it can be aborted.
\<close>

section \<open>The actor's own code\<close>

datatype 'e user_act = AskStop | FailWith 'e | Yields

record 'e work =
  wk_acts :: "'e user_act list"
  wk_panics :: "payload option"

datatype 'e init_result = InitOk | InitErr 'e | InitPanics

record 'p message =
  me_body :: 'p
  me_type :: string
  me_dispatch :: EnvelopeType
  me_stamp :: CaptureStamp

text \<open>
  \<open>ac_handle k m\<close> is what the handler does that was dispatched as the \<open>k\<close>-th. The event driver is
  two functions: what it does when the future of a turn is built, and what a poll of that future
  gives. An initialiser awaits a number of times before it has its result.
\<close>

record ('mb, 'p, 'e) actor_code =
  ac_init :: "nat \<times> 'e init_result"
  ac_on_start :: "'e work"
  ac_handle :: "nat \<Rightarrow> 'p message \<Rightarrow> 'e work"
  ac_on_stop :: "'e StopReason \<Rightarrow> 'e work"
  ac_next :: "'e SharedActorState \<Rightarrow> 'mb \<Rightarrow> 'mb"
  ac_poll :: "'mb \<Rightarrow> ('p message option poll + payload) \<times> 'mb"
  ac_concurrent :: bool

text \<open>The standard driver: close the mailbox if a stop was requested, then receive.\<close>

definition standard_mailbox_next :: "('mb \<Rightarrow> 'mb) \<Rightarrow> 'e SharedActorState \<Rightarrow> 'mb \<Rightarrow> 'mb" where
  "standard_mailbox_next close shared mb = (if should_stop shared then close mb else mb)"

definition standard_mailbox_poll :: "('mb \<Rightarrow> 'p message option poll \<times> 'mb) \<Rightarrow> 'mb \<Rightarrow>
    ('p message option poll + payload) \<times> 'mb" where
  "standard_mailbox_poll receive mb = (case receive mb of (r, mb') \<Rightarrow> (Inl r, mb'))"

text \<open>A handler in flight: it first waits for the lock, then runs.\<close>

datatype ('p, 'e) job = JobAcquire "'p message" "'e work" | JobRunning "'e work"

datatype ('p, 'e) phase =
    Unpolled
  | Initializing nat
  | OnStart "'e work"
  | LoopTop
  | Pulling
  | Handling
  | BreakLoop
  | DrainWork
  | BeginStop
  | OnStop "'e work"
  | TakeSubscribers
  | Notify TerminationKind "Subscription list" bool
  | GuardMark
  | GuardTake
  | GuardNotify TerminationKind "Subscription list" bool
  | GuardDead
  | DropArguments
  | Exited
  | NeverPolled

text \<open>
  The task. The last five fields are history: the messages dispatched, the reasons \<open>on_stop\<close> was
  called with, the subscriptions ever made, those taken for delivery, and whether the task was aborted.
\<close>

record ('q, 'mb, 'p, 'e) task =
  tk_phase :: "('p, 'e) phase"
  tk_shared :: "'e SharedActorState"
  tk_mailbox :: 'mb
  tk_mailbox_dropped :: bool
  tk_watchers :: "'q watchers"
  tk_jobs :: "('p, 'e) job list"
  tk_dispatched :: "'p message list"
  tk_stops :: "'e StopReason list"
  tk_watched :: "Subscription list"
  tk_taken :: "Subscription list"
  tk_aborted :: bool

definition spawn_task :: "'e SharedActorState \<Rightarrow> 'mb \<Rightarrow> 'q watchers \<Rightarrow> ('q, 'mb, 'p, 'e) task" where
  "spawn_task shared mb ws =
     \<lparr>tk_phase = Unpolled, tk_shared = shared, tk_mailbox = mb, tk_mailbox_dropped = False,
      tk_watchers = ws, tk_jobs = [], tk_dispatched = [], tk_stops = [], tk_watched = [], tk_taken = [],
      tk_aborted = False\<rparr>"

section \<open>Work\<close>

fun user_call :: "'e user_act \<Rightarrow> 'e SharedActorState \<Rightarrow> 'e SharedActorState" where
  "user_call AskStop s = shared_draining (emit [ObsStopRequested (lifecycle s)] s)"
| "user_call (FailWith e) s = record_failure e s"
| "user_call Yields s = s"

datatype ('p, 'e) job_poll = GoesOn "('p, 'e) job" | JobDone "CapturedPanic option"

text \<open>A step of a work under \<open>drive_capturing_panics\<close>.\<close>

fun work_step :: "'e work \<Rightarrow> 'e SharedActorState \<Rightarrow> ('e work + CapturedPanic option) \<times> 'e SharedActorState" where
  "work_step w s =
     (case wk_acts w of
        [] \<Rightarrow> (Inr (map_option from_unwind_payload (wk_panics w)), s)
      | a # as \<Rightarrow> (Inl (w\<lparr>wk_acts := as\<rparr>), user_call a s))"

text \<open>
  A step of a dispatched handler: with the lock acquired the delivery is captured, and then the
  handler runs.
\<close>

fun job_step :: "('p, 'e) job \<Rightarrow> 'e SharedActorState \<Rightarrow> ('p, 'e) job_poll \<times> 'e SharedActorState" where
  "job_step (JobAcquire m w) s =
     (GoesOn (JobRunning w),
      snd (instrument_handler (me_stamp m) (me_type m) (dispatch_from (me_dispatch m)) s))"
| "job_step (JobRunning w) s =
     (case work_step w s of
        (Inl w', s') \<Rightarrow> (GoesOn (JobRunning w'), s')
      | (Inr done_with, s') \<Rightarrow> (JobDone done_with, s'))"

definition record_panics :: "CapturedPanic option \<Rightarrow> 'e SharedActorState \<Rightarrow> 'e SharedActorState" where
  "record_panics r s = (case r of None \<Rightarrow> s | Some p \<Rightarrow> record_panic p s)"

section \<open>Initialisation and the start hook\<close>

definition goto_phase :: "('p, 'e) phase \<Rightarrow> ('q, 'mb, 'p, 'e) task \<Rightarrow> ('q, 'mb, 'p, 'e) task" where
  "goto_phase p t = t\<lparr>tk_phase := p\<rparr>"

definition on_shared :: "('e SharedActorState \<Rightarrow> 'e SharedActorState) \<Rightarrow> ('q, 'mb, 'p, 'e) task \<Rightarrow>
    ('q, 'mb, 'p, 'e) task" where
  "on_shared f t = t\<lparr>tk_shared := f (tk_shared t)\<rparr>"

text \<open>\<open>init_or_fail\<close>: an error is recorded; a panic is not captured and unwinds into the guard.\<close>

fun init_or_fail :: "'e init_result \<Rightarrow> 'e work \<Rightarrow> ('q, 'mb, 'p, 'e) task \<Rightarrow> ('q, 'mb, 'p, 'e) task" where
  "init_or_fail InitOk hook t = goto_phase (OnStart hook) t"
| "init_or_fail (InitErr e) hook t = goto_phase GuardMark (on_shared (record_failure e) t)"
| "init_or_fail InitPanics hook t = goto_phase GuardMark t"

text \<open>After the start hook: a compromised actor returns, any other runs.\<close>

definition after_start :: "CapturedPanic option \<Rightarrow> ('q, 'mb, 'p, 'e) task \<Rightarrow> ('q, 'mb, 'p, 'e) task" where
  "after_start r t =
     (let t = on_shared (record_panics r) t in
      if is_compromised (tk_shared t) then goto_phase GuardMark t
      else goto_phase LoopTop
             (on_shared (\<lambda>s. record_spawned (emit [ObsStarted] (shared_running s))) t))"

section \<open>Pulling and dispatching\<close>

datatype 'p pulled = PulledNothing | PulledMessage "'p message" | PulledEnd | PullPanicked CapturedPanic

text \<open>A poll of \<open>next_dispatch\<close>.\<close>

definition next_dispatch :: "('mb, 'p, 'e) actor_code \<Rightarrow> ('q, 'mb, 'p, 'e) task \<Rightarrow>
    'p pulled \<times> ('q, 'mb, 'p, 'e) task" where
  "next_dispatch code t =
     (case ac_poll code (tk_mailbox t) of
        (Inl (Ready (Some m)), mb) \<Rightarrow> (PulledMessage m, t\<lparr>tk_mailbox := mb\<rparr>)
      | (Inl (Ready None), mb) \<Rightarrow> (PulledEnd, t\<lparr>tk_mailbox := mb\<rparr>)
      | (Inl Pending, mb) \<Rightarrow> (PulledNothing, t\<lparr>tk_mailbox := mb\<rparr>)
      | (Inr p, mb) \<Rightarrow> (PullPanicked (from_unwind_payload p), t\<lparr>tk_mailbox := mb\<rparr>))"

definition push_job :: "('mb, 'p, 'e) actor_code \<Rightarrow> 'p message \<Rightarrow> ('q, 'mb, 'p, 'e) task \<Rightarrow>
    ('q, 'mb, 'p, 'e) task" where
  "push_job code m t =
     t\<lparr>tk_jobs := tk_jobs t @ [JobAcquire m (ac_handle code (length (tk_dispatched t)) m)],
       tk_dispatched := tk_dispatched t @ [m]\<rparr>"

text \<open>The top of either loop: a compromised actor pulls no more; otherwise the driver builds its turn.\<close>

definition loop_top :: "('mb, 'p, 'e) actor_code \<Rightarrow> ('q, 'mb, 'p, 'e) task \<Rightarrow> ('q, 'mb, 'p, 'e) task" where
  "loop_top code t =
     (if is_compromised (tk_shared t) then goto_phase (if ac_concurrent code then BreakLoop else BeginStop) t
      else goto_phase Pulling (t\<lparr>tk_mailbox := ac_next code (tk_shared t) (tk_mailbox t)\<rparr>))"

definition poll_pull :: "('mb, 'p, 'e) actor_code \<Rightarrow> ('q, 'mb, 'p, 'e) task \<Rightarrow> ('q, 'mb, 'p, 'e) task" where
  "poll_pull code t =
     (let leave = (if ac_concurrent code then BreakLoop else BeginStop) in
      case next_dispatch code t of
        (PulledNothing, t) \<Rightarrow> t
      | (PulledMessage m, t) \<Rightarrow>
          goto_phase (if ac_concurrent code then LoopTop else Handling) (push_job code m t)
      | (PulledEnd, t) \<Rightarrow> goto_phase leave t
      | (PullPanicked p, t) \<Rightarrow> goto_phase leave (on_shared (record_panic p) t))"

text \<open>
  A step of the job at a position of the work set, in three places: the sequential loop driving
  its one handler, the concurrent loop racing the set against the pull, and its final drain.
\<close>

definition remove_job :: "nat \<Rightarrow> ('q, 'mb, 'p, 'e) task \<Rightarrow> ('q, 'mb, 'p, 'e) task" where
  "remove_job i t = t\<lparr>tk_jobs := take i (tk_jobs t) @ drop (Suc i) (tk_jobs t)\<rparr>"

definition poll_job :: "('q, 'mb, 'p, 'e) task \<Rightarrow> nat \<Rightarrow>
    (CapturedPanic option \<Rightarrow> ('q, 'mb, 'p, 'e) task \<Rightarrow> ('q, 'mb, 'p, 'e) task) \<Rightarrow> ('q, 'mb, 'p, 'e) task" where
  "poll_job t i finish =
     (if i < length (tk_jobs t) then
        (case job_step (tk_jobs t ! i) (tk_shared t) of
           (GoesOn j, s) \<Rightarrow> t\<lparr>tk_shared := s, tk_jobs := (tk_jobs t)[i := j]\<rparr>
         | (JobDone r, s) \<Rightarrow> finish r (remove_job i (t\<lparr>tk_shared := s\<rparr>)))
      else t)"

definition handled :: "CapturedPanic option \<Rightarrow> ('q, 'mb, 'p, 'e) task \<Rightarrow> ('q, 'mb, 'p, 'e) task" where
  "handled r t = goto_phase (if r = None then LoopTop else BeginStop) (on_shared (record_panics r) t)"

definition raced :: "CapturedPanic option \<Rightarrow> ('q, 'mb, 'p, 'e) task \<Rightarrow> ('q, 'mb, 'p, 'e) task" where
  "raced r t = goto_phase (if r = None then LoopTop else BreakLoop) (on_shared (record_panics r) t)"

definition drained :: "CapturedPanic option \<Rightarrow> ('q, 'mb, 'p, 'e) task \<Rightarrow> ('q, 'mb, 'p, 'e) task" where
  "drained r t =
     (if r = None \<and> \<not> is_compromised (tk_shared t) then goto_phase DrainWork t
      else goto_phase BeginStop (on_shared (record_panics r) t))"

section \<open>The stop hook and the signals\<close>

definition stop_reason :: "'e SharedActorState \<Rightarrow> 'e StopReason" where
  "stop_reason s =
     (case termination_reason s of
        Some (Failed e) \<Rightarrow> StopFailed e
      | Some (Panicked p) \<Rightarrow> StopPanicked p
      | _ \<Rightarrow> StopFinished)"

definition begin_stop :: "('mb, 'p, 'e) actor_code \<Rightarrow> ('q, 'mb, 'p, 'e) task \<Rightarrow> ('q, 'mb, 'p, 'e) task" where
  "begin_stop code t =
     (let t = on_shared shared_stopping (t\<lparr>tk_jobs := []\<rparr>); reason = stop_reason (tk_shared t) in
      goto_phase (OnStop (ac_on_stop code reason)) (t\<lparr>tk_stops := tk_stops t @ [reason]\<rparr>))"

definition stop_outcome :: "'e SharedActorState \<Rightarrow> string \<times> bool" where
  "stop_outcome s =
     (case termination_reason s of
        Some (Failed _) \<Rightarrow> (''failed'', True)
      | Some (Panicked _) \<Rightarrow> (''panicked'', True)
      | _ \<Rightarrow> (''finished'', False))"

definition finish_stop :: "CapturedPanic option \<Rightarrow> ('q, 'mb, 'p, 'e) task \<Rightarrow> ('q, 'mb, 'p, 'e) task" where
  "finish_stop r t =
     goto_phase TakeSubscribers
       (on_shared (\<lambda>s.
          let s = (case r of None \<Rightarrow> s | Some p \<Rightarrow> record_panic p (emit [ObsStopHookPanicked p] s));
              s = mark_finished s;
              (outcome, failed) = stop_outcome s
          in record_died (emit [ObsStopped outcome failed] s)) t)"

text \<open>
  The loop over the subscriptions taken, one delivery attempt a step; \<open>True\<close> in the phase says that
  the delivery at hand holds its watcher and waits for room. The mailbox is dropped when the loop
  of the actor returns, before the guard.
\<close>

definition notify_step :: "('q, term_message) mpsc \<Rightarrow> TerminationKind \<Rightarrow> Subscription list \<Rightarrow>
    ('q, 'mb, 'p, 'e) task \<Rightarrow> ('q, 'mb, 'p, 'e) task" where
  "notify_step ops k subs t =
     (case subs of
        [] \<Rightarrow> goto_phase GuardMark (t\<lparr>tk_mailbox_dropped := True\<rparr>)
      | sub # rest \<Rightarrow>
          (case deliver ops (ss_id (tk_shared t)) (ss_rtti_name (tk_shared t)) k sub (tk_watchers t) of
             (Waiting, ws) \<Rightarrow> goto_phase (Notify k subs True) (t\<lparr>tk_watchers := ws\<rparr>)
           | (d, ws) \<Rightarrow> goto_phase (Notify k rest False)
               (on_shared (emit [Signal sub k d]) (t\<lparr>tk_watchers := ws\<rparr>))))"

definition take_step :: "(TerminationKind \<Rightarrow> Subscription list \<Rightarrow> ('p, 'e) phase) \<Rightarrow> ('p, 'e) phase \<Rightarrow>
    ('q, 'mb, 'p, 'e) task \<Rightarrow> ('q, 'mb, 'p, 'e) task" where
  "take_step notify none t =
     (case take_subscriptions (tk_shared t) of
        (None, s) \<Rightarrow> goto_phase none (t\<lparr>tk_shared := s\<rparr>)
      | (Some (k, subs), s) \<Rightarrow>
          goto_phase (notify k subs) (t\<lparr>tk_shared := s, tk_taken := tk_taken t @ subs\<rparr>))"

section \<open>The drop guard\<close>

definition guard_mark :: "'e SharedActorState \<Rightarrow> 'e SharedActorState" where
  "guard_mark s =
     (let s = mark_aborted s in
      case termination_reason s of
        Some Aborted \<Rightarrow> record_died (emit [ObsAborted] s)
      | _ \<Rightarrow> s)"

definition guard_notify_step :: "('q, term_message) mpsc \<Rightarrow> TerminationKind \<Rightarrow> Subscription list \<Rightarrow>
    ('q, 'mb, 'p, 'e) task \<Rightarrow> ('q, 'mb, 'p, 'e) task" where
  "guard_notify_step ops k subs t =
     (case subs of
        [] \<Rightarrow> goto_phase GuardDead t
      | sub # rest \<Rightarrow>
          (case deliver_now ops (ss_id (tk_shared t)) (ss_rtti_name (tk_shared t)) k sub (tk_watchers t) of
             (Waiting, ws) \<Rightarrow> goto_phase (GuardNotify k subs True) (t\<lparr>tk_watchers := ws\<rparr>)
           | (d, ws) \<Rightarrow> goto_phase (GuardNotify k rest False)
               (on_shared (emit [Signal sub k d]) (t\<lparr>tk_watchers := ws\<rparr>))))"

section \<open>One step of the task\<close>

text \<open>
  The choice is the executor's: in the concurrent loop \<open>0\<close> polls the pull and \<open>Suc i\<close> the job at
  \<open>i\<close>; elsewhere there is one thing to poll.
\<close>

fun choose_job :: "nat \<Rightarrow> ('q, 'mb, 'p, 'e) task \<Rightarrow>
    (CapturedPanic option \<Rightarrow> ('q, 'mb, 'p, 'e) task \<Rightarrow> ('q, 'mb, 'p, 'e) task) \<Rightarrow>
    ('q, 'mb, 'p, 'e) task \<Rightarrow> ('q, 'mb, 'p, 'e) task" where
  "choose_job 0 t finish otherwise = otherwise"
| "choose_job (Suc i) t finish otherwise = poll_job t i finish"

definition poll_task :: "('mb, 'p, 'e) actor_code \<Rightarrow> ('q, term_message) mpsc \<Rightarrow> nat \<Rightarrow>
    ('q, 'mb, 'p, 'e) task \<Rightarrow> ('q, 'mb, 'p, 'e) task" where
  "poll_task code ops n t =
     (case tk_phase t of
        Unpolled \<Rightarrow> goto_phase (Initializing (fst (ac_init code))) t
      | Initializing 0 \<Rightarrow> init_or_fail (snd (ac_init code)) (ac_on_start code) t
      | Initializing (Suc k) \<Rightarrow> goto_phase (Initializing k) t
      | OnStart w \<Rightarrow>
          (case work_step w (tk_shared t) of
             (Inl w', s) \<Rightarrow> goto_phase (OnStart w') (t\<lparr>tk_shared := s\<rparr>)
           | (Inr r, s) \<Rightarrow> after_start r (t\<lparr>tk_shared := s\<rparr>))
      | LoopTop \<Rightarrow> loop_top code t
      | Pulling \<Rightarrow>
          (if ac_concurrent code then choose_job n t raced (poll_pull code t) else poll_pull code t)
      | Handling \<Rightarrow> poll_job t 0 handled
      | BreakLoop \<Rightarrow> goto_phase (if is_compromised (tk_shared t) then BeginStop else DrainWork) t
      | DrainWork \<Rightarrow> if tk_jobs t = [] then goto_phase BeginStop t else choose_job n t drained t
      | BeginStop \<Rightarrow> begin_stop code t
      | OnStop w \<Rightarrow>
          (case work_step w (tk_shared t) of
             (Inl w', s) \<Rightarrow> goto_phase (OnStop w') (t\<lparr>tk_shared := s\<rparr>)
           | (Inr r, s) \<Rightarrow> finish_stop r (t\<lparr>tk_shared := s\<rparr>))
      | TakeSubscribers \<Rightarrow> take_step (\<lambda>k subs. Notify k subs False) GuardMark t
      | Notify k subs waiting \<Rightarrow> notify_step ops k subs t
      | GuardMark \<Rightarrow> goto_phase GuardTake (on_shared guard_mark t)
      | GuardTake \<Rightarrow> take_step (\<lambda>k subs. GuardNotify k subs False) GuardDead t
      | GuardNotify k subs waiting \<Rightarrow> guard_notify_step ops k subs t
      | GuardDead \<Rightarrow> goto_phase DropArguments (on_shared shared_dead t)
      | DropArguments \<Rightarrow> goto_phase Exited (t\<lparr>tk_mailbox_dropped := True\<rparr>)
      | Exited \<Rightarrow> t
      | NeverPolled \<Rightarrow> t)"

section \<open>Aborting the task, and the other threads\<close>

text \<open>A work, and a job, that is suspended at an await; the lock is another task's to give.\<close>

fun work_suspended :: "'e work \<Rightarrow> bool" where
  "work_suspended w = (case wk_acts w of Yields # _ \<Rightarrow> True | _ \<Rightarrow> False)"

fun job_suspended :: "('p, 'e) job \<Rightarrow> bool" where
  "job_suspended (JobAcquire m w) = True"
| "job_suspended (JobRunning w) = work_suspended w"

definition suspended :: "('mb, 'p, 'e) actor_code \<Rightarrow> ('q, 'mb, 'p, 'e) task \<Rightarrow> bool" where
  "suspended code t =
     (case tk_phase t of
        Unpolled \<Rightarrow> True
      | Initializing k \<Rightarrow> 0 < k
      | OnStart w \<Rightarrow> work_suspended w
      | Pulling \<Rightarrow> fst (ac_poll code (tk_mailbox t)) = Inl Pending \<and> list_all job_suspended (tk_jobs t)
      | Handling \<Rightarrow> list_all job_suspended (tk_jobs t)
      | DrainWork \<Rightarrow> tk_jobs t \<noteq> [] \<and> list_all job_suspended (tk_jobs t)
      | OnStop w \<Rightarrow> work_suspended w
      | Notify k subs waiting \<Rightarrow> waiting
      | _ \<Rightarrow> False)"

text \<open>
  The executor drops the future of an aborted task at the await it is suspended at. Before the
  first poll the future has not created its guard; after it the guard runs. A task aborted in its
  loop drops the mailbox before the guard, one aborted in its start keeps it until the guard is done.
\<close>

definition abort_task :: "('q, 'mb, 'p, 'e) task \<Rightarrow> ('q, 'mb, 'p, 'e) task" where
  "abort_task t =
     (if tk_phase t = Unpolled
      then t\<lparr>tk_phase := NeverPolled, tk_mailbox_dropped := True, tk_aborted := True\<rparr>
      else t\<lparr>tk_phase := GuardMark, tk_jobs := [], tk_aborted := True,
             tk_mailbox_dropped := (case tk_phase t of Initializing k \<Rightarrow> False | OnStart w \<Rightarrow> False
               | _ \<Rightarrow> True)\<rparr>)"

fun holds_watcher :: "('p, 'e) phase \<Rightarrow> 'q watchers \<Rightarrow> bool" where
  "holds_watcher (Notify k (sub # subs) True) ws \<longleftrightarrow> ws (sub_watcher sub) \<noteq> None"
| "holds_watcher (GuardNotify k (sub # subs) True) ws \<longleftrightarrow> ws (sub_watcher sub) \<noteq> None"
| "holds_watcher _ ws \<longleftrightarrow> True"

text \<open>The tasks that wait on the lifecycle register with it as they are polled.\<close>

definition waits :: "waker \<Rightarrow> 'e SharedActorState \<Rightarrow> 'e SharedActorState" where
  "waits w s =
     s\<lparr>ss_lifecycle := (case poll_terminal w (ss_lifecycle s) of
        Inr (_, c) \<Rightarrow> c | Inl _ \<Rightarrow> ss_lifecycle s)\<rparr>"

definition waits_start :: "waker \<Rightarrow> 'e SharedActorState \<Rightarrow> 'e SharedActorState" where
  "waits_start w s =
     s\<lparr>ss_lifecycle := (case poll_leave_starting w (ss_lifecycle s) of
        Inr (_, c) \<Rightarrow> c | Inl _ \<Rightarrow> ss_lifecycle s)\<rparr>"

definition watch_task :: "Subscription \<Rightarrow> ('q, 'mb, 'p, 'e) task \<Rightarrow> ('q, 'mb, 'p, 'e) task" where
  "watch_task sub t = (on_shared (add_subscription sub) t)\<lparr>tk_watched := tk_watched t @ [sub]\<rparr>"

inductive task_step :: "('mb, 'p, 'e) actor_code \<Rightarrow> ('q, term_message) mpsc \<Rightarrow>
    ('q, 'mb, 'p, 'e) task \<Rightarrow> ('q, 'mb, 'p, 'e) task \<Rightarrow> bool"
  for code :: "('mb, 'p, 'e) actor_code" and ops :: "('q, term_message) mpsc" where
  Poll: "task_step code ops t (poll_task code ops n t)"
| Abort: "suspended code t \<Longrightarrow> task_step code ops t (abort_task t)"
| Send: "task_step code ops t (t\<lparr>tk_mailbox := mb\<rparr>)"
| Watchers: "holds_watcher (tk_phase t) ws \<Longrightarrow> task_step code ops t (t\<lparr>tk_watchers := ws\<rparr>)"
| Watch: "task_step code ops t (watch_task sub t)"
| Unwatch: "task_step code ops t (on_shared (remove_subscriptions a) t)"
| Attach: "task_step code ops t (on_shared (\<lambda>s. snd (attach_task h s)) t)"
| WaitTerminal: "task_step code ops t (on_shared (waits w) t)"
| WaitStart: "task_step code ops t (on_shared (waits_start w) t)"

abbreviation task_steps :: "('mb, 'p, 'e) actor_code \<Rightarrow> ('q, term_message) mpsc \<Rightarrow>
    ('q, 'mb, 'p, 'e) task \<Rightarrow> ('q, 'mb, 'p, 'e) task \<Rightarrow> bool" where
  "task_steps code ops \<equiv> (task_step code ops)\<^sup>*\<^sup>*"

inductive_cases task_stepE: "task_step code ops t t'"

end
