(* ===== verification/Run_Loop_Safety.thy ===== *)
theory Run_Loop_Safety
  imports Run_Loop "HOL-Library.Sublist"
begin

text \<open>
  What holds of an actor's task however its steps, the other threads and an abort interleave: the
  reason is written once and before \<open>Dead\<close>, \<open>Dead\<close> is announced last, the stop hook runs at most
  once, the captured events tell a well-formed story, and each subscription taken is attempted.
\<close>

section \<open>User code and the other threads\<close>

lemma user_call_fields [simp]:
  assumes "shared_ok s"
  shows "shared_ok (user_call a s)"
    "lifecycle (user_call a s) =
      (if a = AskStop \<and> lifecycle s \<le> Running then Draining else lifecycle s)"
    "termination_reason (user_call a s) =
      (case termination_reason s of Some r \<Rightarrow> Some r
       | None \<Rightarrow> (case a of FailWith e \<Rightarrow> Some (Failed e) | _ \<Rightarrow> None))"
proof -
  show "shared_ok (user_call a s)" using assms by (cases a) (simp_all add: record_defs)
  show "lifecycle (user_call a s) =
      (if a = AskStop \<and> lifecycle s \<le> Running then Draining else lifecycle s)"
    using assms by (cases a) (simp_all add: record_defs)
  show "termination_reason (user_call a s) =
      (case termination_reason s of Some r \<Rightarrow> Some r
       | None \<Rightarrow> (case a of FailWith e \<Rightarrow> Some (Failed e) | _ \<Rightarrow> None))"
    using assms by (cases a) (simp_all add: record_defs split: option.splits)
qed

lemma user_call_log [simp]:
  "captures (ss_log (user_call a s)) = captures (ss_log s)"
  "signals (ss_log (user_call a s)) = signals (ss_log s)"
  "ss_id (user_call a s) = ss_id s" "ss_capture_seq (user_call a s) = ss_capture_seq s"
  "ss_capture_sink (user_call a s) = ss_capture_sink s"
  by (cases a; simp add: record_defs)+

lemma record_panics_fields [simp]:
  "lifecycle (record_panics r s) = lifecycle s" "ss_log (record_panics r s) = ss_log s"
  "ss_id (record_panics r s) = ss_id s" "ss_capture_seq (record_panics r s) = ss_capture_seq s"
  "ss_capture_sink (record_panics r s) = ss_capture_sink s"
  "shared_ok s \<Longrightarrow> shared_ok (record_panics r s)"
  "shared_ok s \<Longrightarrow> termination_reason (record_panics r s) =
     (case termination_reason s of Some q \<Rightarrow> Some q | None \<Rightarrow> map_option Panicked r)"
  by (auto simp: record_panics_def record_defs split: option.splits)

lemma waits_fields [simp]:
  "termination_reason (waits w s) = termination_reason s" "ss_log (waits w s) = ss_log s"
  "ss_id (waits w s) = ss_id s" "ss_capture_seq (waits w s) = ss_capture_seq s"
  "ss_capture_sink (waits w s) = ss_capture_sink s"
  "termination_reason (waits_start w s) = termination_reason s" "ss_log (waits_start w s) = ss_log s"
  "ss_id (waits_start w s) = ss_id s" "ss_capture_seq (waits_start w s) = ss_capture_seq s"
  "ss_capture_sink (waits_start w s) = ss_capture_sink s"
  by (simp_all add: waits_def waits_start_def termination_reason_def)

lemma waits_ok:
  assumes "shared_ok s"
  shows "shared_ok (waits w s)" "lifecycle (waits w s) = lifecycle s"
    "shared_ok (waits_start w s)" "lifecycle (waits_start w s) = lifecycle s"
  using assms
  by (auto simp: waits_def waits_start_def shared_ok_def lifecycle_def poll_terminal_def
      poll_leave_starting_def cell_ok_def current_def cell_state_def and_then_def Let_def
      elim!: cell_okE split: sum.splits)


section \<open>What user code can do to the shared state\<close>

fun is_message :: "CaptureEvent \<Rightarrow> bool" where
  "is_message (EvMessage i from_actor to_actor ty d c) = True"
| "is_message _ = False"

definition user_progress :: "CaptureEvent list \<Rightarrow> 'e SharedActorState \<Rightarrow> 'e SharedActorState \<Rightarrow> bool" where
  "user_progress ms s s' \<longleftrightarrow>
     shared_ok s' \<and> (sequence_ok s \<longrightarrow> sequence_ok s') \<and> list_all is_message ms \<and>
     captures (ss_log s') = captures (ss_log s) @ ms \<and> signals (ss_log s') = signals (ss_log s) \<and>
     ss_capture_sink s' = ss_capture_sink s \<and> ss_id s' = ss_id s \<and>
     (lifecycle s' = lifecycle s \<or> lifecycle s \<le> Running \<and> lifecycle s' = Draining) \<and>
     (termination_reason s' = termination_reason s \<or>
      termination_reason s = None \<and>
        (\<exists>e p. termination_reason s' = Some (Failed e) \<or> termination_reason s' = Some (Panicked p)))"

lemma sequence_ok_user [simp]:
  "sequence_ok (user_call a s) = sequence_ok s" "sequence_ok (record_panics r s) = sequence_ok s"
  by (cases a; simp add: record_defs) (simp add: record_panics_def record_defs split: option.splits)

lemma user_progress_refl: "shared_ok s \<Longrightarrow> user_progress [] s s"
  by (simp add: user_progress_def)

lemma user_progress_call: "shared_ok s \<Longrightarrow> user_progress [] s (user_call a s)"
  by (auto simp: user_progress_def split: option.splits user_act.splits)

lemma user_progress_panics: "shared_ok s \<Longrightarrow> user_progress [] s (record_panics r s)"
  by (auto simp: user_progress_def split: option.splits)

lemma user_progress_work:
  "shared_ok s \<Longrightarrow> work_step w s = (r, s') \<Longrightarrow> user_progress [] s s'"
  by (auto simp: user_progress_call user_progress_refl split: list.splits)

lemma user_progress_job:
  assumes "shared_ok s" "job_step j s = (r, s')"
  shows "\<exists>ms. user_progress ms s s'"
proof (cases j)
  case (JobAcquire m w)
  let ?e = "message_event (me_stamp m) (me_type m) (dispatch_from (me_dispatch m)) s"
  have "is_message ?e" by (simp add: message_event_def)
  with assms JobAcquire have "user_progress (if ss_capture_sink s then [?e] else []) s s'"
    by (auto simp: user_progress_def capture_minted sequence_ok_minted)
  then show ?thesis by blast
next
  case (JobRunning w)
  with assms show ?thesis
    by (auto simp del: work_step.simps split: prod.splits sum.splits dest!: user_progress_work)
qed

lemma user_progress_trans:
  assumes "user_progress ms s s'" "user_progress ns s' s''"
  shows "user_progress (ms @ ns) s s''"
proof -
  have "termination_reason s'' = termination_reason s \<or>
      termination_reason s = None \<and>
        (\<exists>e p. termination_reason s'' = Some (Failed e) \<or> termination_reason s'' = Some (Panicked p))"
    using assms by (auto simp: user_progress_def)
  moreover have "lifecycle s'' = lifecycle s \<or> lifecycle s \<le> Running \<and> lifecycle s'' = Draining"
    using assms by (auto simp: user_progress_def)
  ultimately show ?thesis using assms by (auto simp: user_progress_def)
qed

section \<open>Steps of the other threads\<close>

text \<open>All that the invariants speak of is the same.\<close>

definition same_task :: "('q, 'mb, 'p, 'e) task \<Rightarrow> ('q, 'mb, 'p, 'e) task \<Rightarrow> bool" where
  "same_task t t' \<longleftrightarrow>
     tk_phase t' = tk_phase t \<and> tk_mailbox_dropped t' = tk_mailbox_dropped t \<and>
     tk_jobs t' = tk_jobs t \<and> tk_dispatched t' = tk_dispatched t \<and> tk_stops t' = tk_stops t \<and>
     tk_taken t' = tk_taken t \<and> tk_aborted t' = tk_aborted t \<and>
     shared_ok (tk_shared t') \<and> lifecycle (tk_shared t') = lifecycle (tk_shared t) \<and>
     termination_reason (tk_shared t') = termination_reason (tk_shared t) \<and>
     ss_log (tk_shared t') = ss_log (tk_shared t) \<and> ss_id (tk_shared t') = ss_id (tk_shared t) \<and>
     ss_capture_seq (tk_shared t') = ss_capture_seq (tk_shared t) \<and>
     ss_capture_sink (tk_shared t') = ss_capture_sink (tk_shared t)"

lemma attach_fields [simp]:
  "shared_ok (snd (attach_task h s)) = shared_ok s" "lifecycle (snd (attach_task h s)) = lifecycle s"
  "termination_reason (snd (attach_task h s)) = termination_reason s"
  "ss_log (snd (attach_task h s)) = ss_log s" "ss_id (snd (attach_task h s)) = ss_id s"
  "ss_capture_seq (snd (attach_task h s)) = ss_capture_seq s"
  "ss_capture_sink (snd (attach_task h s)) = ss_capture_sink s"
  by (simp_all add: attach_task_def shared_ok_def lifecycle_def termination_reason_def split: prod.splits)

lemma task_step_cases:
  assumes "task_step code ops t t'" "shared_ok (tk_shared t)"
  obtains n where "t' = poll_task code ops n t"
    | "suspended code t" "t' = abort_task t"
    | "same_task t t'"
  using assms(1)
  by (cases rule: task_step.cases)
    (use assms(2) in \<open>auto simp: same_task_def watch_task_def on_shared_def waits_ok intro: that\<close>)


section \<open>The invariant, phase by phase\<close>

fun phase_state :: "('p, 'e) phase \<Rightarrow> LifecycleState \<Rightarrow> bool" where
  "phase_state Unpolled l \<longleftrightarrow> l = Starting"
| "phase_state NeverPolled l \<longleftrightarrow> l = Starting"
| "phase_state (Initializing k) l \<longleftrightarrow> l = Starting"
| "phase_state (OnStart w) l \<longleftrightarrow> l = Starting \<or> l = Draining"
| "phase_state (OnStop w) l \<longleftrightarrow> l = Stopping"
| "phase_state TakeSubscribers l \<longleftrightarrow> l = Stopping"
| "phase_state (Notify k subs b) l \<longleftrightarrow> l = Stopping"
| "phase_state GuardMark l \<longleftrightarrow> l \<noteq> Dead"
| "phase_state GuardTake l \<longleftrightarrow> l \<noteq> Dead"
| "phase_state (GuardNotify k subs b) l \<longleftrightarrow> l \<noteq> Dead"
| "phase_state GuardDead l \<longleftrightarrow> l \<noteq> Dead"
| "phase_state DropArguments l \<longleftrightarrow> l = Dead"
| "phase_state Exited l \<longleftrightarrow> l = Dead"
| "phase_state _ l \<longleftrightarrow> l = Running \<or> l = Draining"

fun phase_reason :: "('p, 'e) phase \<Rightarrow> 'e TerminationReason option \<Rightarrow> bool" where
  "phase_reason Unpolled r \<longleftrightarrow> r = None"
| "phase_reason NeverPolled r \<longleftrightarrow> r = None"
| "phase_reason (Initializing k) r \<longleftrightarrow> r = None"
| "phase_reason TakeSubscribers r \<longleftrightarrow> r \<noteq> None \<and> r \<noteq> Some Aborted"
| "phase_reason (Notify k subs b) r \<longleftrightarrow> (\<exists>q. r = Some q \<and> k = kind q) \<and> r \<noteq> Some Aborted"
| "phase_reason GuardMark r \<longleftrightarrow> r \<noteq> Some Aborted"
| "phase_reason GuardTake r \<longleftrightarrow> r \<noteq> None"
| "phase_reason (GuardNotify k subs b) r \<longleftrightarrow> (\<exists>q. r = Some q \<and> k = kind q)"
| "phase_reason GuardDead r \<longleftrightarrow> r \<noteq> None"
| "phase_reason DropArguments r \<longleftrightarrow> r \<noteq> None"
| "phase_reason Exited r \<longleftrightarrow> r \<noteq> None"
| "phase_reason _ r \<longleftrightarrow> r \<noteq> Some Finished \<and> r \<noteq> Some Aborted"

fun stop_agrees :: "'e StopReason \<Rightarrow> 'e TerminationReason option \<Rightarrow> bool" where
  "stop_agrees (StopFailed e) r \<longleftrightarrow> r = Some (Failed e)"
| "stop_agrees (StopPanicked p) r \<longleftrightarrow> r = Some (Panicked p)"
| "stop_agrees StopFinished r \<longleftrightarrow> True"

fun guarding :: "('p, 'e) phase \<Rightarrow> bool" where
  "guarding GuardMark = True"
| "guarding GuardTake = True"
| "guarding (GuardNotify k subs b) = True"
| "guarding GuardDead = True"
| "guarding DropArguments = True"
| "guarding Exited = True"
| "guarding _ = False"

fun stopped :: "('p, 'e) phase \<Rightarrow> bool" where
  "stopped (OnStop w) = True"
| "stopped TakeSubscribers = True"
| "stopped (Notify k subs b) = True"
| "stopped _ = False"

definition stops_ok :: "('p, 'e) phase \<Rightarrow> 'e StopReason list \<Rightarrow> 'e TerminationReason option \<Rightarrow> bool" where
  "stops_ok p stops r \<longleftrightarrow>
     length stops \<le> (if stopped p \<or> guarding p then 1 else 0) \<and> (stopped p \<longrightarrow> stops \<noteq> []) \<and>
     list_all (\<lambda>st. stop_agrees st r) stops"

lemma stop_agrees_reason: "stop_agrees (stop_reason s) (termination_reason s)"
  by (simp add: stop_reason_def split: option.splits TerminationReason.splits)

section \<open>The memory, the lifecycle, the reason and the stop hook\<close>

definition task_ok :: "('q, 'mb, 'p, 'e) task \<Rightarrow> bool" where
  "task_ok t \<longleftrightarrow>
     shared_ok (tk_shared t) \<and> sequence_ok (tk_shared t) \<and>
     phase_state (tk_phase t) (lifecycle (tk_shared t)) \<and>
     phase_reason (tk_phase t) (termination_reason (tk_shared t)) \<and>
     stops_ok (tk_phase t) (tk_stops t) (termination_reason (tk_shared t))"

lemma same_task_ok: "task_ok t \<Longrightarrow> same_task t t' \<Longrightarrow> task_ok t'"
  by (simp add: task_ok_def same_task_def sequence_ok_cong [of "tk_shared t'" "tk_shared t"])

lemma spawn_task_ok [simp]: "task_ok (spawn_task (shared_new actor name captured) mb ws)"
  by (simp add: task_ok_def spawn_task_def stops_ok_def)

text \<open>Progress of user code keeps it, in the phases where user code runs.\<close>

lemma phase_reason_user:
  "phase_reason p r \<Longrightarrow> r' = r \<or> r = None \<and> (\<exists>e c. r' = Some (Failed e) \<or> r' = Some (Panicked c)) \<Longrightarrow>
     p \<noteq> Unpolled \<Longrightarrow> p \<noteq> NeverPolled \<Longrightarrow> (\<forall>k. p \<noteq> Initializing k) \<Longrightarrow> phase_reason p r'"
  by (cases p) auto

lemma stop_agrees_user:
  "stop_agrees st r \<Longrightarrow> r' = r \<or> r = None \<Longrightarrow> stop_agrees st r'"
  by (cases st) auto

lemma stops_ok_reason:
  "stops_ok p stops r \<Longrightarrow> r' = r \<or> r = None \<Longrightarrow> stops_ok p stops r'"
  by (auto simp: stops_ok_def list_all_iff intro: stop_agrees_user)

lemma phase_state_user:
  "phase_state p l \<Longrightarrow> l' = l \<or> l \<le> Running \<and> l' = Draining \<Longrightarrow>
     p \<noteq> Unpolled \<Longrightarrow> p \<noteq> NeverPolled \<Longrightarrow> (\<forall>k. p \<noteq> Initializing k) \<Longrightarrow> \<not> guarding p \<Longrightarrow> phase_state p l'"
  by (cases p; cases l) auto

lemma user_task_ok:
  assumes "task_ok t" "user_progress ms (tk_shared t) (tk_shared t')"
    and "tk_phase t' = tk_phase t" "tk_stops t' = tk_stops t"
    and "\<not> guarding (tk_phase t)" "tk_phase t \<noteq> Unpolled" "tk_phase t \<noteq> NeverPolled"
    "\<forall>k. tk_phase t \<noteq> Initializing k"
  shows "task_ok t'"
proof -
  have u: "shared_ok (tk_shared t')" "sequence_ok (tk_shared t')"
    "lifecycle (tk_shared t') = lifecycle (tk_shared t) \<or>
       lifecycle (tk_shared t) \<le> Running \<and> lifecycle (tk_shared t') = Draining"
    "termination_reason (tk_shared t') = termination_reason (tk_shared t) \<or>
       termination_reason (tk_shared t) = None \<and> (\<exists>e c. termination_reason (tk_shared t') = Some (Failed e) \<or>
         termination_reason (tk_shared t') = Some (Panicked c))"
    using assms(1,2) by (auto simp: task_ok_def user_progress_def)
  have "phase_reason (tk_phase t) (termination_reason (tk_shared t'))"
    by (rule phase_reason_user [OF _ u(4) assms(6-8)]) (use assms(1) in \<open>simp add: task_ok_def\<close>)
  moreover have "phase_state (tk_phase t) (lifecycle (tk_shared t'))"
    by (rule phase_state_user [OF _ u(3) assms(6-8,5)]) (use assms(1) in \<open>simp add: task_ok_def\<close>)
  moreover have "stops_ok (tk_phase t) (tk_stops t) (termination_reason (tk_shared t'))"
    by (rule stops_ok_reason [of _ _ "termination_reason (tk_shared t)"])
      (use assms(1) u(4) in \<open>auto simp only: task_ok_def\<close>)
  ultimately show ?thesis using u assms(3,4) by (simp add: task_ok_def)
qed


text \<open>A jump to another phase of the same kind: between phases that run, and from any to the guard.\<close>

fun running :: "('p, 'e) phase \<Rightarrow> bool" where
  "running LoopTop = True"
| "running Pulling = True"
| "running Handling = True"
| "running BreakLoop = True"
| "running DrainWork = True"
| "running BeginStop = True"
| "running _ = False"

lemma running_not: "running p \<Longrightarrow> \<not> guarding p \<and> \<not> stopped p"
  by (cases p) simp_all

lemma running_facts:
  assumes "running p"
  shows "phase_state p l \<longleftrightarrow> l = Running \<or> l = Draining"
    "phase_reason p r \<longleftrightarrow> r \<noteq> Some Finished \<and> r \<noteq> Some Aborted"
    "stops_ok p stops r \<longleftrightarrow> stops = []" "\<not> guarding p" "p \<noteq> Unpolled" "p \<noteq> NeverPolled"
    "p \<noteq> Initializing k"
proof -
  show "phase_state p l \<longleftrightarrow> l = Running \<or> l = Draining" using assms by (cases p) simp_all
  show "phase_reason p r \<longleftrightarrow> r \<noteq> Some Finished \<and> r \<noteq> Some Aborted" using assms by (cases p) simp_all
  show "stops_ok p stops r \<longleftrightarrow> stops = []" using running_not [OF assms] by (auto simp: stops_ok_def)
qed (use assms running_not in auto)

lemma goto_fields [simp]:
  "tk_phase (goto_phase p t) = p" "tk_shared (goto_phase p t) = tk_shared t"
  "tk_stops (goto_phase p t) = tk_stops t" "tk_taken (goto_phase p t) = tk_taken t"
  "tk_aborted (goto_phase p t) = tk_aborted t" "tk_jobs (goto_phase p t) = tk_jobs t"
  "tk_dispatched (goto_phase p t) = tk_dispatched t"
  "tk_mailbox_dropped (goto_phase p t) = tk_mailbox_dropped t"
  "tk_mailbox (goto_phase p t) = tk_mailbox t" "tk_watchers (goto_phase p t) = tk_watchers t"
  by (simp_all add: goto_phase_def)

lemma on_shared_fields [simp]:
  "tk_phase (on_shared f t) = tk_phase t" "tk_shared (on_shared f t) = f (tk_shared t)"
  "tk_stops (on_shared f t) = tk_stops t" "tk_taken (on_shared f t) = tk_taken t"
  "tk_aborted (on_shared f t) = tk_aborted t" "tk_jobs (on_shared f t) = tk_jobs t"
  "tk_dispatched (on_shared f t) = tk_dispatched t"
  "tk_mailbox_dropped (on_shared f t) = tk_mailbox_dropped t"
  "tk_mailbox (on_shared f t) = tk_mailbox t" "tk_watchers (on_shared f t) = tk_watchers t"
  by (simp_all add: on_shared_def)

lemma watch_fields [simp]:
  "tk_phase (watch_task sub t) = tk_phase t" "tk_shared (watch_task sub t) = add_subscription sub (tk_shared t)"
  "tk_stops (watch_task sub t) = tk_stops t" "tk_taken (watch_task sub t) = tk_taken t"
  "tk_aborted (watch_task sub t) = tk_aborted t" "tk_jobs (watch_task sub t) = tk_jobs t"
  "tk_dispatched (watch_task sub t) = tk_dispatched t"
  "tk_mailbox_dropped (watch_task sub t) = tk_mailbox_dropped t"
  "tk_mailbox (watch_task sub t) = tk_mailbox t" "tk_watchers (watch_task sub t) = tk_watchers t"
  by (simp_all add: watch_task_def on_shared_def)

text \<open>A running task that user code takes on to a running phase.\<close>

lemma running_task_ok:
  fixes t t' :: "('q, 'mb, 'p, 'e) task"
  assumes "task_ok t" "running (tk_phase t)" "user_progress ms (tk_shared t) (tk_shared t')"
    and "tk_stops t' = tk_stops t" "running (tk_phase t')"
  shows "task_ok t'"
proof -
  have "task_ok (goto_phase (tk_phase t) t')"
    by (rule user_task_ok [OF assms(1), of ms]) (use assms running_facts [OF assms(2)] in auto)
  then show ?thesis
    using running_facts [OF assms(2)] running_facts [OF assms(5)] assms(5) by (simp add: task_ok_def)
qed

text \<open>Where a running task goes: the loop's phases, with progress of the shared state.\<close>

lemma loop_top_running:
  assumes "task_ok t" "tk_phase t = LoopTop"
  shows "user_progress [] (tk_shared t) (tk_shared (loop_top code t)) \<and> running (tk_phase (loop_top code t))
    \<and> tk_stops (loop_top code t) = tk_stops t"
  using assms by (auto simp: loop_top_def task_ok_def user_progress_refl)

lemma poll_pull_running:
  assumes "task_ok t" "tk_phase t = Pulling"
  shows "user_progress [] (tk_shared t) (tk_shared (poll_pull code t)) \<and> running (tk_phase (poll_pull code t))
    \<and> tk_stops (poll_pull code t) = tk_stops t"
proof -
  have "user_progress [] (tk_shared t) (record_panic p (tk_shared t))" for p
    using user_progress_panics [of "tk_shared t" "Some p"] assms by (simp add: record_panics_def task_ok_def)
  then show ?thesis
    using assms user_progress_refl [of "tk_shared t"]
    by (auto simp: poll_pull_def next_dispatch_def push_job_def Let_def task_ok_def
        split: sum.splits poll.splits option.splits prod.splits)
qed

lemma poll_job_running:
  assumes "task_ok t" "running (tk_phase t)"
    and "\<And>r t'. \<exists>q. tk_shared (finish r t') = record_panics q (tk_shared t')"
    and "\<And>r t'. running (tk_phase (finish r t'))" "\<And>r t'. tk_stops (finish r t') = tk_stops t'"
  shows "\<exists>ms. user_progress ms (tk_shared t) (tk_shared (poll_job t i finish)) \<and>
    running (tk_phase (poll_job t i finish)) \<and> tk_stops (poll_job t i finish) = tk_stops t"
proof -
  obtain r s where j: "job_step (tk_jobs t ! i) (tk_shared t) = (r, s)" by (cases "job_step (tk_jobs t ! i) (tk_shared t)")
  have ok: "shared_ok (tk_shared t)" using assms(1) by (simp add: task_ok_def)
  from user_progress_job [OF ok j] obtain ms where ms: "user_progress ms (tk_shared t) s" ..
  have "user_progress ms (tk_shared t) (record_panics q s)" for q
    using user_progress_trans [OF ms user_progress_panics [of s q]] ms by (simp add: user_progress_def)
  then have done_with: "\<exists>ms. user_progress ms (tk_shared t) (tk_shared (finish r' t'))"
    if "tk_shared t' = s" for r' t'
    using assms(3) [of r' t'] that by (auto intro: exI [of _ ms])
  show ?thesis
  proof (cases "i < length (tk_jobs t)")
    case True
    show ?thesis
    proof (cases r)
      case (GoesOn j')
      with True j ms assms(2) show ?thesis by (auto simp: poll_job_def)
    next
      case (JobDone r')
      have "poll_job t i finish = finish r' (remove_job i (t\<lparr>tk_shared := s\<rparr>))"
        using True j JobDone by (simp add: poll_job_def)
      moreover have "tk_shared (remove_job i (t\<lparr>tk_shared := s\<rparr>)) = s"
        "tk_stops (remove_job i (t\<lparr>tk_shared := s\<rparr>)) = tk_stops t"
        by (simp_all add: remove_job_def)
      ultimately show ?thesis using done_with assms(4,5) by simp
    qed
  next
    case False
    then show ?thesis using assms(2) user_progress_refl [OF ok] by (auto simp: poll_job_def)
  qed
qed


section \<open>Every step keeps the invariant\<close>

lemma goto_guard_ok:
  assumes "task_ok t" "\<not> phase_reason (tk_phase t) (Some Aborted) \<or> tk_phase t = GuardMark"
    "lifecycle (tk_shared t) \<noteq> Dead"
  shows "task_ok (goto_phase GuardMark t)"
  using assms by (auto simp: task_ok_def stops_ok_def split: if_splits)

lemma init_task_ok:
  assumes "task_ok t" "tk_phase t = Initializing 0"
  shows "task_ok (init_or_fail r hook t)"
proof (cases r)
  case (InitErr e)
  with assms show ?thesis by (simp add: task_ok_def stops_ok_def record_defs)
qed (use assms in \<open>simp_all add: task_ok_def stops_ok_def\<close>)

lemma after_start_ok:
  assumes "task_ok t" "tk_phase t = OnStart w"
  shows "task_ok (after_start r t)"
proof -
  let ?t = "on_shared (record_panics r) t"
  have t: "task_ok ?t" "tk_phase ?t = OnStart w"
    using user_task_ok [OF assms(1), of "[]" ?t] assms user_progress_panics [of "tk_shared t" r]
    by (auto simp: task_ok_def)
  then have ok: "shared_ok (tk_shared ?t)" and seq: "sequence_ok (tk_shared ?t)"
    and l: "lifecycle (tk_shared ?t) = Starting \<or> lifecycle (tk_shared ?t) = Draining"
    and r: "termination_reason (tk_shared ?t) \<noteq> Some Finished" "termination_reason (tk_shared ?t) \<noteq> Some Aborted"
    and st: "tk_stops ?t = []"
    by (simp_all add: task_ok_def stops_ok_def)
  let ?s = "emit [ObsStarted] (shared_running (tk_shared ?t))"
  have "sequence_ok ?s" using seq by simp
  then have "sequence_ok (record_spawned ?s)" by (simp add: capture_minted sequence_ok_minted)
  moreover have "shared_ok (record_spawned ?s)" "lifecycle (record_spawned ?s) = lifecycle (shared_running (tk_shared ?t))"
    "termination_reason (record_spawned ?s) = termination_reason (tk_shared ?t)"
    using ok by (simp_all add: capture_minted)
  ultimately show ?thesis
    using t ok seq l r st
    by (auto simp: after_start_def Let_def task_ok_def stops_ok_def)
qed

lemma begin_stop_ok:
  assumes "task_ok t" "tk_phase t = BeginStop"
  shows "task_ok (begin_stop code t)"
  using assms stop_agrees_reason [of "shared_stopping (tk_shared t)"]
  by (auto simp: begin_stop_def Let_def task_ok_def stops_ok_def)

lemma finish_stop_ok:
  assumes "task_ok t" "tk_phase t = OnStop w"
  shows "task_ok (finish_stop r t)"
proof -
  define s1 where "s1 = (case r of None \<Rightarrow> tk_shared t | Some p \<Rightarrow> record_panic p (emit [ObsStopHookPanicked p] (tk_shared t)))"
  define s2 where "s2 = mark_finished s1"
  have ok: "shared_ok s1" "sequence_ok s1" "lifecycle s1 = Stopping"
    and r1: "termination_reason s1 = termination_reason (tk_shared t) \<or> termination_reason (tk_shared t) = None"
    "termination_reason s1 \<noteq> Some Aborted"
    using assms
    by (auto simp: s1_def task_ok_def record_defs split: option.splits)
  then have ok2: "shared_ok s2" "sequence_ok s2" "lifecycle s2 = Stopping"
    and r2: "termination_reason s2 = termination_reason (tk_shared t) \<or> termination_reason (tk_shared t) = None"
    "termination_reason s2 \<noteq> Some Aborted" "termination_reason s2 \<noteq> None"
    using ok r1 by (auto simp: s2_def record_defs split: option.splits)
  have f: "tk_shared (finish_stop r t) = record_died (emit [ObsStopped (fst (stop_outcome s2)) (snd (stop_outcome s2))] s2)"
    "tk_phase (finish_stop r t) = TakeSubscribers" "tk_stops (finish_stop r t) = tk_stops t"
    by (simp_all add: finish_stop_def s1_def s2_def Let_def split: prod.splits)
  have "sequence_ok (tk_shared (finish_stop r t))" using ok2(2)
    unfolding f by (simp add: capture_minted sequence_ok_minted)
  moreover have "stops_ok TakeSubscribers (tk_stops t) (termination_reason s2)"
    using assms stops_ok_reason [of "OnStop w" "tk_stops t" _ "termination_reason s2"] r2
    by (auto simp: task_ok_def stops_ok_def)
  ultimately show ?thesis
    using ok2 r2 f by (simp add: task_ok_def capture_minted)
qed


lemma notify_ok:
  assumes "task_ok t" "tk_phase t = Notify k subs b"
  shows "task_ok (notify_step ops k subs t)"
  using assms
  by (auto simp: notify_step_def task_ok_def stops_ok_def split: list.splits prod.splits delivery.splits)

lemma guard_notify_ok:
  assumes "task_ok t" "tk_phase t = GuardNotify k subs b"
  shows "task_ok (guard_notify_step ops k subs t)"
  using assms
  by (auto simp: guard_notify_step_def task_ok_def stops_ok_def
      split: list.splits prod.splits delivery.splits)

lemma take_fields:
  "take_subscriptions s = (r, s') \<Longrightarrow>
     s' = (if termination_reason s = None then s else s\<lparr>ss_subscriptions := []\<rparr>) \<and>
     r = (case termination_reason s of None \<Rightarrow> None | Some q \<Rightarrow> Some (kind q, ss_subscriptions s))"
  by (auto simp: take_subscriptions_def split: option.splits)

lemma no_subscriptions_fields [simp]:
  "shared_ok (s\<lparr>ss_subscriptions := xs\<rparr>) = shared_ok s" "lifecycle (s\<lparr>ss_subscriptions := xs\<rparr>) = lifecycle s"
  "termination_reason (s\<lparr>ss_subscriptions := xs\<rparr>) = termination_reason s"
  "sequence_ok (s\<lparr>ss_subscriptions := xs\<rparr>) = sequence_ok s"
  by (simp_all add: shared_ok_def lifecycle_def termination_reason_def sequence_ok_def event_at_def [abs_def])

lemma take_ok:
  assumes "task_ok t" "tk_phase t = TakeSubscribers"
  shows "task_ok (take_step (\<lambda>k subs. Notify k subs False) none t)"
  using assms
  by (auto simp: take_step_def task_ok_def stops_ok_def split: prod.splits option.splits dest!: take_fields)

lemma guard_take_ok:
  assumes "task_ok t" "tk_phase t = GuardTake"
  shows "task_ok (take_step (\<lambda>k subs. GuardNotify k subs False) none t)"
  using assms
  by (auto simp: take_step_def task_ok_def stops_ok_def split: prod.splits option.splits dest!: take_fields)

lemma guard_mark_reason:
  assumes "shared_ok s"
  shows "shared_ok (guard_mark s)" "lifecycle (guard_mark s) = lifecycle s"
    "termination_reason (guard_mark s) =
      (case termination_reason s of None \<Rightarrow> Some Aborted | Some r \<Rightarrow> Some r)"
    "sequence_ok s \<Longrightarrow> sequence_ok (guard_mark s)"
  using assms
  by (auto simp: guard_mark_def record_defs Let_def capture_minted sequence_ok_minted
      split: option.splits TerminationReason.splits)

lemma guard_mark_ok:
  assumes "task_ok t" "tk_phase t = GuardMark"
  shows "task_ok (goto_phase GuardTake (on_shared guard_mark t))"
proof -
  have "stop_agrees st (termination_reason (guard_mark (tk_shared t)))"
    if "stop_agrees st (termination_reason (tk_shared t))" for st
    using that guard_mark_reason(3) [of "tk_shared t"] assms(1)
    by (cases st) (auto simp: task_ok_def split: option.splits)
  with assms guard_mark_reason [of "tk_shared t"] show ?thesis
    by (auto simp: task_ok_def stops_ok_def list_all_iff split: option.splits)
qed

lemma work_phase_ok:
  assumes "task_ok t" "tk_phase t = OnStart w \<or> tk_phase t = OnStop w" "work_step w (tk_shared t) = (r, s)"
  shows "task_ok (t\<lparr>tk_shared := s\<rparr>)"
  by (rule user_task_ok [OF assms(1), of "[]"])
    (use assms user_progress_work [OF _ assms(3)] in \<open>auto simp: task_ok_def\<close>)

lemma finish_fields:
  assumes "finish = handled \<or> finish = raced \<or> finish = drained"
  shows "tk_shared (finish r t) = record_panics r (tk_shared t)" "running (tk_phase (finish r t))"
    "tk_stops (finish r t) = tk_stops t" "tk_taken (finish r t) = tk_taken t"
    "tk_aborted (finish r t) = tk_aborted t" "tk_dispatched (finish r t) = tk_dispatched t"
    "tk_jobs (finish r t) = tk_jobs t" "tk_mailbox_dropped (finish r t) = tk_mailbox_dropped t"
  using assms by (elim disjE; simp add: handled_def raced_def drained_def record_panics_def)+

lemma poll_task_ok:
  assumes "task_ok t"
  shows "task_ok (poll_task code ops n t)"
proof (cases "running (tk_phase t)")
  case True
  have job: "task_ok (poll_job t i finish)"
    if "finish = handled \<or> finish = raced \<or> finish = drained" for i finish
    using poll_job_running [OF assms True, of finish i] finish_fields [OF that]
      running_task_ok [OF assms True] by metis
  show ?thesis
  proof (cases "tk_phase t")
    case LoopTop
    from running_task_ok [OF assms True, of "[]" "loop_top code t"] loop_top_running [OF assms LoopTop, of code]
    show ?thesis using LoopTop by (simp add: poll_task_def)
  next
    case Pulling
    have "task_ok (poll_pull code t)"
      using running_task_ok [OF assms True] poll_pull_running [OF assms Pulling, of code] by metis
    with Pulling job show ?thesis by (cases n) (simp_all add: poll_task_def)
  next
    case Handling
    with job show ?thesis by (simp add: poll_task_def)
  next
    case BreakLoop
    with assms show ?thesis by (simp add: poll_task_def task_ok_def stops_ok_def)
  next
    case DrainWork
    with job assms show ?thesis by (cases n) (simp_all add: poll_task_def task_ok_def stops_ok_def)
  next
    case BeginStop
    with begin_stop_ok [OF assms] show ?thesis by (simp add: poll_task_def)
  qed (use True in simp_all)
next
  case False
  show ?thesis
  proof (cases "tk_phase t")
    case Unpolled
    with assms show ?thesis by (simp add: poll_task_def task_ok_def stops_ok_def)
  next
    case (Initializing k)
    with init_task_ok [OF assms] assms show ?thesis
      by (cases k) (simp_all add: poll_task_def task_ok_def stops_ok_def)
  next
    case (OnStart w)
    obtain r s where w: "work_step w (tk_shared t) = (r, s)" by (cases "work_step w (tk_shared t)")
    with work_phase_ok [OF assms _ w] OnStart have "task_ok (t\<lparr>tk_shared := s\<rparr>)" by blast
    moreover from this have "task_ok (goto_phase (OnStart w') (t\<lparr>tk_shared := s\<rparr>))" for w'
      using OnStart by (simp add: task_ok_def stops_ok_def)
    ultimately show ?thesis
      using OnStart w after_start_ok [of "t\<lparr>tk_shared := s\<rparr>"]
      by (cases r) (simp_all add: poll_task_def del: work_step.simps)
  next
    case (OnStop w)
    obtain r s where w: "work_step w (tk_shared t) = (r, s)" by (cases "work_step w (tk_shared t)")
    with work_phase_ok [OF assms _ w] OnStop have "task_ok (t\<lparr>tk_shared := s\<rparr>)" by blast
    moreover from this have "task_ok (goto_phase (OnStop w') (t\<lparr>tk_shared := s\<rparr>))" for w'
      using OnStop by (simp add: task_ok_def stops_ok_def)
    ultimately show ?thesis
      using OnStop w finish_stop_ok [of "t\<lparr>tk_shared := s\<rparr>"]
      by (cases r) (simp_all add: poll_task_def del: work_step.simps)
  next
    case TakeSubscribers
    with take_ok [OF assms] show ?thesis by (simp add: poll_task_def)
  next
    case (Notify k subs b)
    with notify_ok [OF assms] show ?thesis by (simp add: poll_task_def)
  next
    case GuardMark
    with guard_mark_ok [OF assms] show ?thesis by (simp add: poll_task_def)
  next
    case GuardTake
    with guard_take_ok [OF assms] show ?thesis by (simp add: poll_task_def)
  next
    case (GuardNotify k subs b)
    with guard_notify_ok [OF assms] show ?thesis by (simp add: poll_task_def)
  next
    case GuardDead
    with assms show ?thesis by (simp add: poll_task_def task_ok_def stops_ok_def)
  next
    case DropArguments
    with assms show ?thesis by (simp add: poll_task_def task_ok_def stops_ok_def)
  qed (use assms False in \<open>simp_all add: poll_task_def\<close>)
qed

lemma abort_task_ok:
  assumes "task_ok t" "suspended code t"
  shows "task_ok (abort_task t)"
  using assms
  by (cases "tk_phase t") (auto simp: abort_task_def suspended_def task_ok_def stops_ok_def)

lemma task_step_ok:
  assumes "task_step code ops t t'" "task_ok t"
  shows "task_ok t'"
proof -
  have "shared_ok (tk_shared t)" using assms(2) by (simp add: task_ok_def)
  from assms(1) this show ?thesis
    by (cases rule: task_step_cases)
      (use assms(2) poll_task_ok abort_task_ok same_task_ok in blast)+
qed

lemma task_steps_ok: "task_steps code ops t t' \<Longrightarrow> task_ok t \<Longrightarrow> task_ok t'"
  by (induction rule: rtranclp_induct) (auto dest: task_step_ok)

end
