(* ===== verification/Run_Loop_Story.thy ===== *)
theory Run_Loop_Story
  imports Run_Loop_Safety "HOL-Library.Multiset"
begin

text \<open>
  The story a run of the task leaves behind: how the reason and the lifecycle move from step to
  step, which events are captured in which order, and which termination signals go out.
\<close>

section \<open>Forward steps\<close>

definition moves_on :: "'e SharedActorState \<Rightarrow> 'e SharedActorState \<Rightarrow> bool" where
  "moves_on s s' \<longleftrightarrow>
     lifecycle s \<le> lifecycle s' \<and>
     (termination_reason s \<noteq> None \<longrightarrow> termination_reason s' = termination_reason s) \<and>
     ss_capture_sink s' = ss_capture_sink s \<and> ss_id s' = ss_id s"

lemma moves_on_refl [simp]: "moves_on s s"
  by (simp add: moves_on_def)

lemma moves_on_trans: "moves_on s s' \<Longrightarrow> moves_on s' s'' \<Longrightarrow> moves_on s s''"
  by (auto simp: moves_on_def)

lemma le_Draining: "l \<le> Running \<Longrightarrow> l \<le> Draining"
  by (cases l) (simp_all add: state_order)

lemma user_moves_on: "user_progress ms s s' \<Longrightarrow> moves_on s s'"
  by (auto simp: user_progress_def moves_on_def le_Draining)

lemma record_moves_on:
  "shared_ok s \<Longrightarrow> moves_on s (record_reason r s)"
  by (auto simp: moves_on_def split: option.splits)

lemma captured_moves_on [simp]:
  "moves_on s (emit ts s)" "moves_on s (record_died s)" "moves_on s (record_spawned s)"
  "moves_on s (s\<lparr>ss_subscriptions := xs\<rparr>)"
  by (simp_all add: moves_on_def capture_minted)

lemma moves_on_more [intro!]:
  "moves_on s s' \<Longrightarrow> moves_on s (emit ts s')" "moves_on s s' \<Longrightarrow> moves_on s (record_died s')"
  "moves_on s s' \<Longrightarrow> moves_on s (record_spawned s')"
  "shared_ok s' \<Longrightarrow> moves_on s s' \<Longrightarrow> moves_on s (record_reason r s')"
  by (rule moves_on_trans, assumption, simp add: record_moves_on)+

lemma transition_moves_on:
  assumes "shared_ok s"
  shows "moves_on s (shared_running s)" "moves_on s (shared_stopping s)" "moves_on s (shared_dead s)"
  using assms by (cases "lifecycle s"; simp add: moves_on_def state_order)+

lemma work_moves_on: "shared_ok s \<Longrightarrow> work_step w s = (r, s') \<Longrightarrow> moves_on s s' \<and> shared_ok s'"
  by (frule (1) user_progress_work) (simp add: user_moves_on, simp add: user_progress_def del: work_step.simps)

lemma panics_move_on: "shared_ok s \<Longrightarrow> moves_on s (record_panics r s)"
  by (auto simp: record_panics_def record_defs record_moves_on split: option.splits)

lemma after_start_moves_on:
  assumes "shared_ok (tk_shared t)"
  shows "moves_on (tk_shared t) (tk_shared (after_start r t))"
proof -
  let ?s = "record_panics r (tk_shared t)"
  have "moves_on ?s (shared_running ?s)"
    using assms transition_moves_on(1) [of ?s] by simp
  with panics_move_on [OF assms, of r] have "moves_on (tk_shared t) (shared_running ?s)"
    by (rule moves_on_trans)
  with panics_move_on [OF assms, of r] show ?thesis by (auto simp: after_start_def Let_def)
qed

lemma finish_stop_moves_on:
  assumes "shared_ok (tk_shared t)"
  shows "moves_on (tk_shared t) (tk_shared (finish_stop r t))"
proof -
  define s1 where "s1 = (case r of None \<Rightarrow> tk_shared t | Some p \<Rightarrow> record_panic p (emit [ObsStopHookPanicked p] (tk_shared t)))"
  have "moves_on (tk_shared t) s1" "shared_ok s1"
    using assms by (auto simp: s1_def record_defs split: option.splits)
  then have "moves_on (tk_shared t) (record_died (emit ts (mark_finished s1)))" for ts
    by (auto simp: record_defs)
  then show ?thesis by (auto simp: finish_stop_def s1_def Let_def split: prod.splits)
qed

lemma guard_mark_moves_on: "shared_ok s \<Longrightarrow> moves_on s (guard_mark s)"
  by (auto simp: guard_mark_def Let_def record_defs split: option.splits TerminationReason.splits)

lemma poll_task_moves_on:
  assumes "task_ok t"
  shows "moves_on (tk_shared t) (tk_shared (poll_task code ops n t))"
proof -
  have ok: "shared_ok (tk_shared t)" using assms by (simp add: task_ok_def)
  have job: "moves_on (tk_shared t) (tk_shared (poll_job t i finish))"
    if "running (tk_phase t)" "finish = handled \<or> finish = raced \<or> finish = drained" for i finish
    using poll_job_running [OF assms that(1), of finish i] finish_fields [OF that(2)] user_moves_on by metis
  show ?thesis
  proof (cases "tk_phase t")
    case (Initializing k)
    then show ?thesis
      using ok by (cases k; cases "snd (ac_init code)")
        (simp_all add: poll_task_def record_defs record_moves_on)
  next
    case (OnStart w)
    obtain r s where w: "work_step w (tk_shared t) = (r, s)" by (cases "work_step w (tk_shared t)")
    with work_moves_on [OF ok w] OnStart after_start_moves_on [of "t\<lparr>tk_shared := s\<rparr>"] show ?thesis
      by (cases r) (auto simp: poll_task_def simp del: work_step.simps intro: moves_on_trans)
  next
    case (OnStop w)
    obtain r s where w: "work_step w (tk_shared t) = (r, s)" by (cases "work_step w (tk_shared t)")
    with work_moves_on [OF ok w] OnStop finish_stop_moves_on [of "t\<lparr>tk_shared := s\<rparr>"] show ?thesis
      by (cases r) (auto simp: poll_task_def simp del: work_step.simps intro: moves_on_trans)
  next
    case LoopTop
    with loop_top_running [OF assms LoopTop, of code] show ?thesis by (auto simp: poll_task_def user_moves_on)
  next
    case Pulling
    with poll_pull_running [OF assms Pulling, of code] job show ?thesis
      by (cases n) (auto simp: poll_task_def user_moves_on)
  next
    case DrainWork
    with job show ?thesis by (cases n) (simp_all add: poll_task_def)
  next
    case (Notify k subs b)
    then show ?thesis
      by (auto simp: poll_task_def notify_step_def split: list.splits prod.splits delivery.splits)
  next
    case (GuardNotify k subs b)
    then show ?thesis
      by (auto simp: poll_task_def guard_notify_step_def split: list.splits prod.splits delivery.splits)
  qed (use ok job transition_moves_on [OF ok] guard_mark_moves_on [OF ok] in
      \<open>auto simp: poll_task_def begin_stop_def take_step_def Let_def dest!: take_fields
        split: prod.splits option.splits\<close>)
qed

lemma same_task_moves_on: "same_task t t' \<Longrightarrow> moves_on (tk_shared t) (tk_shared t')"
  by (simp add: same_task_def moves_on_def)

lemma task_steps_move_on:
  "task_steps code ops t t' \<Longrightarrow> task_ok t \<Longrightarrow> moves_on (tk_shared t) (tk_shared t')"
proof (induction rule: rtranclp_induct)
  case (step t' t'')
  then have ok: "task_ok t'" using task_steps_ok by blast
  then have "shared_ok (tk_shared t')" by (simp add: task_ok_def)
  from step.hyps(2) this have "moves_on (tk_shared t') (tk_shared t'')"
    by (cases rule: task_step_cases)
      (use ok in \<open>auto simp: poll_task_moves_on same_task_moves_on abort_task_def\<close>)
  with step.IH [OF step.prems] show ?case by (rule moves_on_trans)
qed simp


section \<open>The captured events\<close>

fun is_spawned :: "CaptureEvent \<Rightarrow> bool" where
  "is_spawned (EvSpawned i ty parent c) = True"
| "is_spawned _ = False"

fun is_died :: "TerminationKind \<Rightarrow> CaptureEvent \<Rightarrow> bool" where
  "is_died k (EvDied i ty k' c) \<longleftrightarrow> k' = k"
| "is_died k _ \<longleftrightarrow> False"

definition open_story :: "CaptureEvent list \<Rightarrow> bool" where
  "open_story es \<longleftrightarrow> (case es of [] \<Rightarrow> False | e # ms \<Rightarrow> is_spawned e \<and> list_all is_message ms)"

definition closed_story :: "TerminationKind \<Rightarrow> CaptureEvent list \<Rightarrow> bool" where
  "closed_story k es \<longleftrightarrow> es \<noteq> [] \<and> open_story (butlast es) \<and> is_died k (last es)"

lemma open_story_more: "open_story es \<Longrightarrow> list_all is_message ms \<Longrightarrow> open_story (es @ ms)"
  by (auto simp: open_story_def split: list.splits)

lemma open_story_new: "is_spawned e \<Longrightarrow> open_story [e]"
  by (simp add: open_story_def)

lemma closed_story_new: "open_story es \<Longrightarrow> is_died k e \<Longrightarrow> closed_story k (es @ [e])"
  by (simp add: closed_story_def)

lemma spawned_died_events [simp]:
  "is_spawned (spawned_event s)"
  "is_died k (died_event s) \<longleftrightarrow>
     k = (case termination_reason s of Some r \<Rightarrow> kind r | None \<Rightarrow> KindAborted)"
  by (auto simp: spawned_event_def died_event_def split: option.splits)

text \<open>What has been captured when the guard has made its mark, for a reason and for a task aborted or not.\<close>

definition compromising :: "'e TerminationReason \<Rightarrow> bool" where
  "compromising r \<longleftrightarrow> kind r = KindFailed \<or> kind r = KindPanicked"

lemma compromising_iff: "compromising r \<longleftrightarrow> r \<noteq> Finished \<and> r \<noteq> Aborted"
  by (cases r) (simp_all add: compromising_def)

lemma is_compromised_iff: "is_compromised s \<longleftrightarrow> (\<exists>q. termination_reason s = Some q \<and> compromising q)"
  by (auto simp: is_compromised_def compromising_iff split: option.splits TerminationReason.splits)

definition over_story :: "'e TerminationReason \<Rightarrow> bool \<Rightarrow> bool \<Rightarrow> CaptureEvent list \<Rightarrow> bool" where
  "over_story r aborted hooked es \<longleftrightarrow>
     r = Aborted \<and> (\<exists>us d. es = us @ [d] \<and> is_died KindAborted d \<and> (us = [] \<or> open_story us)) \<or>
     r \<noteq> Aborted \<and> closed_story (kind r) es \<and> hooked \<or>
     compromising r \<and> (es = [] \<and> \<not> hooked \<or> open_story es \<and> aborted)"

text \<open>\<open>hooked\<close>: the stop hook was called.\<close>

fun captures_ok :: "('p, 'e) phase \<Rightarrow> CaptureEvent list \<Rightarrow> 'e TerminationReason option \<Rightarrow> bool \<Rightarrow> bool \<Rightarrow> bool" where
  "captures_ok Unpolled es r aborted hooked \<longleftrightarrow> es = [] \<and> \<not> hooked"
| "captures_ok NeverPolled es r aborted hooked \<longleftrightarrow> es = [] \<and> \<not> hooked"
| "captures_ok (Initializing k) es r aborted hooked \<longleftrightarrow> es = [] \<and> \<not> hooked"
| "captures_ok (OnStart w) es r aborted hooked \<longleftrightarrow> es = [] \<and> \<not> hooked"
| "captures_ok TakeSubscribers es r aborted hooked \<longleftrightarrow>
     (\<exists>q. r = Some q \<and> q \<noteq> Aborted \<and> closed_story (kind q) es \<and> hooked)"
| "captures_ok (Notify k subs b) es r aborted hooked \<longleftrightarrow>
     (\<exists>q. r = Some q \<and> q \<noteq> Aborted \<and> closed_story (kind q) es \<and> hooked)"
| "captures_ok GuardMark es r aborted hooked \<longleftrightarrow>
     (es = [] \<and> \<not> hooked \<or> open_story es \<and> aborted) \<and> (case r of None \<Rightarrow> True | Some q \<Rightarrow> compromising q) \<or>
     (\<exists>q. r = Some q \<and> q \<noteq> Aborted \<and> closed_story (kind q) es \<and> hooked)"
| "captures_ok GuardTake es r aborted hooked \<longleftrightarrow> (\<exists>q. r = Some q \<and> over_story q aborted hooked es)"
| "captures_ok (GuardNotify k subs b) es r aborted hooked \<longleftrightarrow> (\<exists>q. r = Some q \<and> over_story q aborted hooked es)"
| "captures_ok GuardDead es r aborted hooked \<longleftrightarrow> (\<exists>q. r = Some q \<and> over_story q aborted hooked es)"
| "captures_ok DropArguments es r aborted hooked \<longleftrightarrow> (\<exists>q. r = Some q \<and> over_story q aborted hooked es)"
| "captures_ok Exited es r aborted hooked \<longleftrightarrow> (\<exists>q. r = Some q \<and> over_story q aborted hooked es)"
| "captures_ok _ es r aborted hooked \<longleftrightarrow> open_story es"

section \<open>The signals, and the mailbox\<close>

fun remaining :: "('p, 'e) phase \<Rightarrow> Subscription list" where
  "remaining (Notify k subs b) = subs"
| "remaining (GuardNotify k subs b) = subs"
| "remaining _ = []"

fun notifying :: "('p, 'e) phase \<Rightarrow> bool" where
  "notifying (Notify k subs b) = True"
| "notifying _ = False"

definition tagged :: "'e TerminationReason \<Rightarrow> Subscription list \<Rightarrow> (Subscription \<times> TerminationKind) list" where
  "tagged q subs = map (\<lambda>sub. (sub, kind q)) subs"

lemma tagged_simps [simp]:
  "tagged q [] = []" "tagged q (sub # subs) = (sub, kind q) # tagged q subs"
  "tagged q (xs @ ys) = tagged q xs @ tagged q ys"
  by (simp_all add: tagged_def)

definition signals_ok :: "('p, 'e) phase \<Rightarrow> (Subscription \<times> TerminationKind) list \<Rightarrow> Subscription list \<Rightarrow>
    'e TerminationReason option \<Rightarrow> bool \<Rightarrow> bool" where
  "signals_ok p sent taken r aborted \<longleftrightarrow>
     (\<not> notifying p \<and> \<not> guarding p \<or> r = None \<longrightarrow> sent = [] \<and> taken = []) \<and>
     (case r of None \<Rightarrow> True
      | Some q \<Rightarrow> subseq (sent @ tagged q (remaining p)) (tagged q taken) \<and>
          (\<not> aborted \<longrightarrow> sent @ tagged q (remaining p) = tagged q taken))"

lemma silent_signals:
  "\<not> notifying p \<Longrightarrow> \<not> guarding p \<Longrightarrow> signals_ok p sent taken r aborted \<longleftrightarrow> sent = [] \<and> taken = []"
  by (cases p) (auto simp: signals_ok_def split: option.splits)

fun dropped_ok :: "('p, 'e) phase \<Rightarrow> bool \<Rightarrow> bool" where
  "dropped_ok Exited dropped \<longleftrightarrow> dropped"
| "dropped_ok NeverPolled dropped \<longleftrightarrow> dropped"
| "dropped_ok _ dropped \<longleftrightarrow> True"

definition story_ok :: "('q, 'mb, 'p, 'e) task \<Rightarrow> bool" where
  "story_ok t \<longleftrightarrow>
     (ss_capture_sink (tk_shared t) \<longrightarrow>
        captures_ok (tk_phase t) (captures (ss_log (tk_shared t))) (termination_reason (tk_shared t)) (tk_aborted t)
          (tk_stops t \<noteq> [])) \<and>
     signals_ok (tk_phase t) (signals (ss_log (tk_shared t))) (tk_taken t) (termination_reason (tk_shared t))
       (tk_aborted t) \<and>
     dropped_ok (tk_phase t) (tk_mailbox_dropped t)"

lemma same_story_ok: "story_ok t \<Longrightarrow> same_task t t' \<Longrightarrow> story_ok t'"
  by (simp add: story_ok_def same_task_def)

lemma spawn_story_ok [simp]: "story_ok (spawn_task (shared_new actor name captured) mb ws)"
  by (simp add: story_ok_def spawn_task_def signals_ok_def)

lemma running_story:
  assumes "running p"
  shows "captures_ok p es r aborted hooked \<longleftrightarrow> open_story es" "signals_ok p sent taken r aborted \<longleftrightarrow> sent = [] \<and> taken = []"
    "dropped_ok p dropped"
  using assms by (cases p; auto simp: signals_ok_def split: option.splits)+

lemma running_story_ok:
  fixes t t' :: "('q, 'mb, 'p, 'e) task"
  assumes "story_ok t" "running (tk_phase t)" "user_progress ms (tk_shared t) (tk_shared t')"
    and "running (tk_phase t')" "tk_taken t' = tk_taken t"
  shows "story_ok t'"
  using assms running_story [OF assms(2)] running_story [OF assms(4)]
  by (auto simp: story_ok_def user_progress_def open_story_more)


section \<open>Every step keeps the story\<close>

lemma after_start_story:
  assumes "task_ok t" "story_ok t" "tk_phase t = OnStart w"
  shows "story_ok (after_start r t)"
proof -
  have "shared_ok (tk_shared t)" using assms(1) by (simp add: task_ok_def)
  with assms(2,3) show ?thesis
    by (auto simp: after_start_def Let_def story_ok_def capture_minted signals_ok_def open_story_new
        is_compromised_iff compromising_iff split: option.splits)
qed

lemma poll_job_taken [simp]:
  assumes "finish = handled \<or> finish = raced \<or> finish = drained"
  shows "tk_taken (poll_job t i finish) = tk_taken t"
  using finish_fields [OF assms]
  by (auto simp: poll_job_def remove_job_def split: job_poll.splits prod.splits)

lemma loop_taken [simp]:
  "tk_taken (loop_top code t) = tk_taken t" "tk_taken (poll_pull code t) = tk_taken t"
  by (auto simp: loop_top_def poll_pull_def next_dispatch_def push_job_def Let_def
      split: prod.splits sum.splits poll.splits option.splits)

lemma poll_running_story:
  assumes "task_ok t" "story_ok t" "running (tk_phase t)" "tk_phase t \<noteq> BeginStop"
  shows "story_ok (poll_task code ops n t)"
proof -
  have job: "story_ok (poll_job t i finish)"
    if "finish = handled \<or> finish = raced \<or> finish = drained" for i finish
    using poll_job_running [OF assms(1,3), of finish i] finish_fields [OF that]
      running_story_ok [OF assms(2,3)] poll_job_taken [OF that] by metis
  show ?thesis
  proof (cases "tk_phase t")
    case LoopTop
    with running_story_ok [OF assms(2,3)] loop_top_running [OF assms(1) LoopTop, of code] show ?thesis
      by (auto simp: poll_task_def)
  next
    case Pulling
    have "story_ok (poll_pull code t)"
      using poll_pull_running [OF assms(1) Pulling, of code]
      by (intro running_story_ok [OF assms(2,3), of "[]"]) simp_all
    with Pulling job show ?thesis by (cases n) (simp_all add: poll_task_def)
  next
    case BreakLoop
    with assms(2) show ?thesis by (auto simp: poll_task_def story_ok_def silent_signals)
  next
    case DrainWork
    with assms(2) have "story_ok (goto_phase BeginStop t)" by (auto simp: story_ok_def silent_signals)
    with DrainWork job assms(2) show ?thesis by (cases n) (simp_all add: poll_task_def)
  qed (use job assms in \<open>simp_all add: poll_task_def\<close>)
qed

lemma work_story:
  assumes "task_ok t" "story_ok t" "tk_phase t = OnStart w \<or> tk_phase t = OnStop w"
    and "work_step w (tk_shared t) = (r, s)"
  shows "story_ok (t\<lparr>tk_shared := s\<rparr>)"
  using assms user_progress_work [OF _ assms(4)]
  by (auto simp: task_ok_def story_ok_def user_progress_def silent_signals simp del: work_step.simps)

lemma finish_stop_story:
  assumes "task_ok t" "story_ok t" "tk_phase t = OnStop w"
  shows "story_ok (finish_stop r t)"
proof -
  define s1 where "s1 = (case r of None \<Rightarrow> tk_shared t | Some p \<Rightarrow> record_panic p (emit [ObsStopHookPanicked p] (tk_shared t)))"
  define s2 where "s2 = mark_finished s1"
  have s1: "shared_ok s1" "captures (ss_log s1) = captures (ss_log (tk_shared t))"
    "signals (ss_log s1) = signals (ss_log (tk_shared t))" "ss_capture_sink s1 = ss_capture_sink (tk_shared t)"
    "termination_reason s1 \<noteq> Some Aborted"
    using assms(1,3) by (auto simp: s1_def task_ok_def record_defs split: option.splits)
  then obtain q where q: "termination_reason s2 = Some q" "q \<noteq> Aborted"
    by (cases "termination_reason s1") (auto simp: s2_def record_defs)
  have s2: "captures (ss_log s2) = captures (ss_log (tk_shared t))"
    "signals (ss_log s2) = signals (ss_log (tk_shared t))" "ss_capture_sink s2 = ss_capture_sink (tk_shared t)"
    using s1 by (simp_all add: s2_def record_defs)
  have f: "tk_shared (finish_stop r t) = record_died (emit [ObsStopped (fst (stop_outcome s2)) (snd (stop_outcome s2))] s2)"
    "tk_phase (finish_stop r t) = TakeSubscribers" "tk_taken (finish_stop r t) = tk_taken t"
    "tk_stops (finish_stop r t) = tk_stops t"
    by (simp_all add: finish_stop_def s1_def s2_def Let_def split: prod.splits)
  have hooked: "tk_stops t \<noteq> []" using assms(1,3) by (auto simp: task_ok_def stops_ok_def)
  show ?thesis
    using assms s2 q f hooked
    by (auto simp: story_ok_def signals_ok_def capture_minted closed_story_new split: option.splits)
qed

lemma notify_story:
  assumes "task_ok t" "story_ok t" "tk_phase t = Notify k subs b"
  shows "story_ok (notify_step ops k subs t)"
proof -
  obtain q where q: "termination_reason (tk_shared t) = Some q" "k = kind q"
    using assms by (auto simp: task_ok_def)
  with assms(2,3) show ?thesis
    by (auto simp: notify_step_def story_ok_def signals_ok_def
        split: list.splits prod.splits delivery.splits)
qed

lemma guard_notify_story:
  assumes "task_ok t" "story_ok t" "tk_phase t = GuardNotify k subs b"
  shows "story_ok (guard_notify_step ops k subs t)"
proof -
  obtain q where q: "termination_reason (tk_shared t) = Some q" "k = kind q"
    using assms by (auto simp: task_ok_def)
  with assms(2,3) show ?thesis
    by (auto simp: guard_notify_step_def story_ok_def signals_ok_def
        split: list.splits prod.splits delivery.splits)
qed

lemma guard_mark_story:
  assumes "task_ok t" "story_ok t" "tk_phase t = GuardMark"
  shows "story_ok (goto_phase GuardTake (on_shared guard_mark t))"
proof -
  have ok: "shared_ok (tk_shared t)" and r: "termination_reason (tk_shared t) \<noteq> Some Aborted"
    using assms by (simp_all add: task_ok_def)
  show ?thesis
  proof (cases "termination_reason (tk_shared t)")
    case None
    then have "guard_mark (tk_shared t) =
        record_died (emit [ObsAborted] (mark_aborted (tk_shared t)))"
      "termination_reason (mark_aborted (tk_shared t)) = Some Aborted"
      using ok by (simp_all add: guard_mark_def record_defs)
    with None assms(2,3) show ?thesis
      by (auto simp: story_ok_def signals_ok_def capture_minted over_story_def record_defs
          closed_story_new)
  next
    case (Some q)
    then have "termination_reason (guard_mark (tk_shared t)) = Some q" "guard_mark (tk_shared t) = mark_aborted (tk_shared t)"
      using ok r by (auto simp: guard_mark_def record_defs Let_def split: TerminationReason.splits)
    with Some assms(2,3) show ?thesis
      by (auto simp: story_ok_def signals_ok_def over_story_def record_defs)
  qed
qed

lemma take_story:
  assumes "task_ok t" "story_ok t"
    and "tk_phase t = TakeSubscribers \<and> notify = (\<lambda>k subs. Notify k subs False) \<or>
      tk_phase t = GuardTake \<and> notify = (\<lambda>k subs. GuardNotify k subs False)"
  shows "story_ok (take_step notify none t)"
proof -
  obtain q where q: "termination_reason (tk_shared t) = Some q"
    using assms(1,3) by (auto simp: task_ok_def)
  then have "take_step notify none t = goto_phase (notify (kind q) (ss_subscriptions (tk_shared t)))
      (t\<lparr>tk_shared := (tk_shared t)\<lparr>ss_subscriptions := []\<rparr>,
         tk_taken := tk_taken t @ ss_subscriptions (tk_shared t)\<rparr>)"
    by (simp add: take_step_def take_subscriptions_def)
  then show ?thesis
    using assms(2,3) q
    by (auto simp: story_ok_def signals_ok_def intro: list_emb_append_mono)
qed

lemma poll_task_story:
  assumes "task_ok t" "story_ok t"
  shows "story_ok (poll_task code ops n t)"
proof (cases "running (tk_phase t) \<and> tk_phase t \<noteq> BeginStop")
  case True
  with poll_running_story [OF assms] show ?thesis by blast
next
  case False
  show ?thesis
  proof (cases "tk_phase t")
    case (Initializing k)
    with assms show ?thesis
      by (cases k; cases "snd (ac_init code)")
        (auto simp: poll_task_def task_ok_def story_ok_def signals_ok_def record_defs compromising_iff)
  next
    case (OnStart w)
    obtain r s where w: "work_step w (tk_shared t) = (r, s)" by (cases "work_step w (tk_shared t)")
    with work_story [OF assms _ w] work_phase_ok [OF assms(1) _ w] OnStart
    have s: "story_ok (t\<lparr>tk_shared := s\<rparr>)" "task_ok (t\<lparr>tk_shared := s\<rparr>)" by blast+
    then have "story_ok (goto_phase (OnStart w') (t\<lparr>tk_shared := s\<rparr>))" for w'
      using OnStart by (auto simp: story_ok_def silent_signals)
    with OnStart w s after_start_story [of "t\<lparr>tk_shared := s\<rparr>"] show ?thesis
      by (cases r) (simp_all add: poll_task_def del: work_step.simps)
  next
    case (OnStop w)
    obtain r s where w: "work_step w (tk_shared t) = (r, s)" by (cases "work_step w (tk_shared t)")
    with work_story [OF assms _ w] work_phase_ok [OF assms(1) _ w] OnStop
    have s: "story_ok (t\<lparr>tk_shared := s\<rparr>)" "task_ok (t\<lparr>tk_shared := s\<rparr>)" by blast+
    then have "story_ok (goto_phase (OnStop w') (t\<lparr>tk_shared := s\<rparr>))" for w'
      using OnStop by (auto simp: story_ok_def silent_signals)
    with OnStop w s finish_stop_story [of "t\<lparr>tk_shared := s\<rparr>"] show ?thesis
      by (cases r) (simp_all add: poll_task_def del: work_step.simps)
  next
    case BeginStop
    with assms show ?thesis
      by (auto simp: poll_task_def begin_stop_def Let_def story_ok_def silent_signals task_ok_def)
  next
    case TakeSubscribers
    with take_story [OF assms] show ?thesis by (simp add: poll_task_def)
  next
    case (Notify k subs b)
    with notify_story [OF assms] show ?thesis by (simp add: poll_task_def)
  next
    case GuardMark
    with guard_mark_story [OF assms] show ?thesis by (simp add: poll_task_def)
  next
    case GuardTake
    with take_story [OF assms] show ?thesis by (simp add: poll_task_def)
  next
    case (GuardNotify k subs b)
    with guard_notify_story [OF assms] show ?thesis by (simp add: poll_task_def)
  next
    case Unpolled
    with assms show ?thesis by (simp add: poll_task_def story_ok_def silent_signals)
  next
    case GuardDead
    with assms show ?thesis
      by (auto simp: poll_task_def story_ok_def signals_ok_def split: option.splits)
  next
    case DropArguments
    with assms show ?thesis
      by (auto simp: poll_task_def story_ok_def signals_ok_def split: option.splits)
  qed (use assms False in \<open>simp_all add: poll_task_def\<close>)
qed

lemma subseq_prefix: "subseq (xs @ ys) zs \<Longrightarrow> subseq xs zs"
  using subseq_order.trans [of xs "xs @ ys" zs] by (simp add: subseq_rev_drop_many)

lemma abort_task_story:
  assumes "task_ok t" "story_ok t" "suspended code t"
  shows "story_ok (abort_task t)"
  using assms
  by (cases "tk_phase t")
    (auto simp: abort_task_def suspended_def story_ok_def task_ok_def signals_ok_def compromising_iff
      split: option.splits intro: subseq_prefix)

lemma task_steps_story:
  "task_steps code ops t t' \<Longrightarrow> task_ok t \<Longrightarrow> story_ok t \<Longrightarrow> story_ok t'"
proof (induction rule: rtranclp_induct)
  case (step t' t'')
  then have ok: "task_ok t'" "story_ok t'" using task_steps_ok by blast+
  then have "shared_ok (tk_shared t')" by (simp add: task_ok_def)
  from step.hyps(2) this show ?case
    by (cases rule: task_step_cases)
      (use ok poll_task_story abort_task_story same_story_ok in blast)+
qed


section \<open>Subscriptions\<close>

text \<open>
  A subscription is taken for delivery at most as often as it was made, and a signal is logged when its
  delivery is settled.
\<close>

definition ledger :: "('q, 'mb, 'p, 'e) task \<Rightarrow> Subscription multiset" where
  "ledger t = mset (tk_taken t) + mset (ss_subscriptions (tk_shared t))"

fun settled :: "trace \<Rightarrow> bool" where
  "settled (Signal sub k d) \<longleftrightarrow> d \<noteq> Waiting"
| "settled _ \<longleftrightarrow> True"

definition loose :: "'e SharedActorState \<Rightarrow> trace list" where
  "loose s = filter (\<lambda>x. \<not> settled x) (ss_log s)"

lemma settled_woken [simp]: "filter (\<lambda>x. \<not> settled x) (map Woke ws) = []"
  by (induction ws) simp_all

lemma loose_kept [simp]:
  "loose (emit ts s) = loose s @ filter (\<lambda>x. \<not> settled x) ts" "loose (record_reason r s) = loose s"
  "loose (shared_transition f s) = loose s" "loose (record_panics q s) = loose s"
  "loose (record_spawned s) = loose s" "loose (record_died s) = loose s"
  "loose (snd (instrument_handler stamp ty d s)) = loose s" "loose (s\<lparr>ss_subscriptions := xs\<rparr>) = loose s"
  "loose (s\<lparr>ss_lifecycle := c\<rparr>) = loose s"
  by (simp_all add: loose_def emit_def shared_transition_def record_panics_def record_defs
      record_spawned_def record_died_def instrument_handler_def next_capture_event_id_def Let_def
      split: prod.splits option.splits)

lemma subscriptions_kept [simp]:
  "ss_subscriptions (emit ts s) = ss_subscriptions s" "ss_subscriptions (record_reason r s) = ss_subscriptions s"
  "ss_subscriptions (shared_transition f s) = ss_subscriptions s"
  "ss_subscriptions (record_panics q s) = ss_subscriptions s"
  "ss_subscriptions (record_spawned s) = ss_subscriptions s" "ss_subscriptions (record_died s) = ss_subscriptions s"
  "ss_subscriptions (snd (instrument_handler stamp ty d s)) = ss_subscriptions s"
  "ss_subscriptions (snd (attach_task h s)) = ss_subscriptions s"
  "ss_subscriptions (waits w s) = ss_subscriptions s" "ss_subscriptions (waits_start w s) = ss_subscriptions s"
  by (simp_all add: emit_def shared_transition_def record_panics_def record_defs record_spawned_def record_died_def
      instrument_handler_def next_capture_event_id_def attach_task_def waits_def waits_start_def Let_def
      split: prod.splits option.splits)

lemma transitions_subscriptions [simp]:
  "ss_subscriptions (shared_running s) = ss_subscriptions s" "ss_subscriptions (shared_draining s) = ss_subscriptions s"
  "ss_subscriptions (shared_stopping s) = ss_subscriptions s" "ss_subscriptions (shared_dead s) = ss_subscriptions s"
  "loose (shared_running s) = loose s" "loose (shared_draining s) = loose s"
  "loose (shared_stopping s) = loose s" "loose (shared_dead s) = loose s"
  by (simp_all add: shared_running_def shared_draining_def shared_stopping_def shared_dead_def)

lemma user_subscriptions [simp]:
  "ss_subscriptions (user_call a s) = ss_subscriptions s" "loose (user_call a s) = loose s"
  by (cases a; simp add: record_defs)+

lemma work_subscriptions: "work_step w s = (r, s') \<Longrightarrow> ss_subscriptions s' = ss_subscriptions s \<and> loose s' = loose s"
  by (auto split: list.splits)

lemma job_subscriptions: "job_step j s = (r, s') \<Longrightarrow> ss_subscriptions s' = ss_subscriptions s \<and> loose s' = loose s"
  by (cases j) (auto split: list.splits prod.splits sum.splits simp del: work_step.simps dest: work_subscriptions)

definition books :: "('q, 'mb, 'p, 'e) task \<Rightarrow> Subscription multiset \<times> Subscription list \<times> trace list" where
  "books t = (ledger t, tk_watched t, loose (tk_shared t))"

lemma books_simps [simp]:
  "books (goto_phase p t) = books t" "books (t\<lparr>tk_mailbox := mb\<rparr>) = books t" "books (t\<lparr>tk_jobs := js\<rparr>) = books t"
  "books (t\<lparr>tk_watchers := ws\<rparr>) = books t" "books (t\<lparr>tk_mailbox_dropped := b\<rparr>) = books t"
  "ss_subscriptions (f (tk_shared t)) = ss_subscriptions (tk_shared t) \<Longrightarrow> loose (f (tk_shared t)) = loose (tk_shared t) \<Longrightarrow> books (on_shared f t) = books t"
  "ss_subscriptions s = ss_subscriptions (tk_shared t) \<Longrightarrow> loose s = loose (tk_shared t) \<Longrightarrow> books (t\<lparr>tk_shared := s\<rparr>) = books t"
  "ss_subscriptions s = ss_subscriptions (tk_shared t) \<Longrightarrow> loose s = loose (tk_shared t) \<Longrightarrow> books (t\<lparr>tk_shared := s, tk_jobs := js\<rparr>) = books t"
  by (simp_all add: books_def ledger_def goto_phase_def on_shared_def)

lemma poll_job_books:
  assumes "finish = handled \<or> finish = raced \<or> finish = drained"
  shows "books (poll_job t i finish) = books t"
proof -
  have done_with: "books (finish r t') = books t'" for r t'
    using assms by (elim disjE; simp add: handled_def raced_def drained_def)
  obtain r s where j: "job_step (tk_jobs t ! i) (tk_shared t) = (r, s)" by (cases "job_step (tk_jobs t ! i) (tk_shared t)")
  with job_subscriptions [OF j] done_with show ?thesis
    by (simp add: poll_job_def remove_job_def split: job_poll.splits)
qed

lemma loop_books:
  "books (loop_top code t) = books t" "books (poll_pull code t) = books t" "books (begin_stop code t) = books t"
  by (simp_all add: loop_top_def)
    (auto simp: poll_pull_def next_dispatch_def push_job_def begin_stop_def books_def ledger_def goto_phase_def
      on_shared_def record_defs Let_def split: prod.splits sum.splits poll.splits option.splits)

lemma guard_mark_subscriptions [simp]:
  "ss_subscriptions (guard_mark s) = ss_subscriptions s" "loose (guard_mark s) = loose s"
  by (simp_all add: guard_mark_def record_defs Let_def split: option.splits TerminationReason.splits)

lemma take_step_books: "books (take_step notify none t) = books t"
  by (simp add: take_step_def take_subscriptions_def books_def ledger_def goto_phase_def split: option.splits)

lemma hook_books:
  assumes "work_step w (tk_shared t) = (r, s)"
  shows "books (t\<lparr>tk_shared := s\<rparr>) = books t" "books (after_start r' (t\<lparr>tk_shared := s\<rparr>)) = books t"
    "books (finish_stop r' (t\<lparr>tk_shared := s\<rparr>)) = books t"
  using work_subscriptions [OF assms]
  by (simp_all add: after_start_def finish_stop_def record_defs Let_def split: prod.splits option.splits)

lemma poll_task_books: "books (poll_task code ops n t) = books t"
proof (cases "tk_phase t")
  case (Initializing k)
  then show ?thesis by (cases k; cases "snd (ac_init code)") (simp_all add: poll_task_def record_defs)
next
  case (OnStart w)
  then show ?thesis
    by (cases "work_step w (tk_shared t)"; cases "fst (work_step w (tk_shared t))")
      (simp_all add: poll_task_def hook_books del: work_step.simps)
next
  case (OnStop w)
  then show ?thesis
    by (cases "work_step w (tk_shared t)"; cases "fst (work_step w (tk_shared t))")
      (simp_all add: poll_task_def hook_books del: work_step.simps)
next
  case Pulling
  then show ?thesis by (cases n) (simp_all add: poll_task_def loop_books poll_job_books)
next
  case DrainWork
  then show ?thesis by (cases n) (simp_all add: poll_task_def poll_job_books)
next
  case (Notify k subs b)
  then show ?thesis
    by (auto simp: poll_task_def notify_step_def books_def ledger_def goto_phase_def on_shared_def
        split: list.splits prod.splits delivery.splits)
next
  case (GuardNotify k subs b)
  then show ?thesis
    by (auto simp: poll_task_def guard_notify_step_def books_def ledger_def goto_phase_def on_shared_def
        split: list.splits prod.splits delivery.splits)
qed (simp_all add: poll_task_def loop_books poll_job_books take_step_books)

lemma abort_task_books: "books (abort_task t) = books t"
  by (simp add: abort_task_def books_def ledger_def)

lemma task_step_ledger:
  assumes "task_step code ops t t'"
  shows "(\<exists>new. tk_watched t' = tk_watched t @ new \<and> ledger t' \<subseteq># ledger t + mset new) \<and>
    loose (tk_shared t') = loose (tk_shared t)"
  using assms
proof cases
  case (Poll n)
  with poll_task_books [of code ops n t] show ?thesis by (simp add: books_def)
next
  case Abort
  with abort_task_books [of t] show ?thesis by (simp add: books_def)
next
  case (Unwatch a)
  then show ?thesis
    by (simp add: ledger_def on_shared_def remove_subscriptions_def multiset_filter_subset)
qed (simp_all add: ledger_def watch_task_def on_shared_def add_subscription_def loose_def attach_task_def waits_def waits_start_def
    split: prod.splits)

lemma task_steps_ledger:
  assumes "task_steps code ops t t'"
  shows "(\<exists>new. tk_watched t' = tk_watched t @ new \<and> ledger t' \<subseteq># ledger t + mset new) \<and>
    loose (tk_shared t') = loose (tk_shared t)"
  using assms
proof (induction rule: rtranclp_induct)
  case base
  show ?case by (intro conjI exI [of _ "[]"]) simp_all
next
  case (step t' t'')
  then obtain new where new: "tk_watched t' = tk_watched t @ new" "ledger t' \<subseteq># ledger t + mset new" by blast
  from task_step_ledger [OF step.hyps(2)] obtain more where
    more: "tk_watched t'' = tk_watched t' @ more" "ledger t'' \<subseteq># ledger t' + mset more" by blast
  have "ledger t'' \<subseteq># ledger t + mset (new @ more)"
    using subset_mset.order_trans [OF more(2) subset_mset.add_right_mono [OF new(2), of "mset more"]]
    by (simp add: ac_simps)
  with new(1) more(1) task_step_ledger [OF step.hyps(2)] step.IH show ?case by auto
qed

end
