(* ===== verification/Run_Loop_Drain.thy ===== *)
theory Run_Loop_Drain
  imports Run_Loop_Story
begin

text \<open>
  The sequential loop running to its end: an actor that was asked to stop, or whose handles are
  gone, handles what its mailbox still holds, in order, and finishes. The loop is a client of the
  contract of mailboxes.
\<close>

section \<open>Running alone\<close>

definition alone :: "('mb, 'p, 'e) actor_code \<Rightarrow> ('q, term_message) mpsc \<Rightarrow> nat \<Rightarrow>
    ('q, 'mb, 'p, 'e) task \<Rightarrow> ('q, 'mb, 'p, 'e) task" where
  "alone code ops n = poll_task code ops 0 ^^ n"

lemma alone_0 [simp]: "alone code ops 0 t = t"
  by (simp add: alone_def)

lemma alone_Suc: "alone code ops (Suc n) t = alone code ops n (poll_task code ops 0 t)"
  by (simp add: alone_def funpow_swap1)

lemma alone_add: "alone code ops (m + n) t = alone code ops n (alone code ops m t)"
  by (simp add: alone_def add.commute [of m n] funpow_add)

lemma alone_steps: "task_steps code ops t (alone code ops n t)"
  by (induction n) (auto simp: alone_def intro: rtranclp.rtrancl_into_rtrancl task_step.Poll)

lemma alone_ok: "task_ok t \<Longrightarrow> task_ok (alone code ops n t)"
  using alone_steps task_steps_ok by blast

lemma stop_persists:
  assumes "task_ok t" "should_stop (tk_shared t)"
  shows "should_stop (tk_shared (alone code ops n t))"
  using task_steps_move_on [OF alone_steps assms(1), of code ops n] assms(2)
  by (cases "lifecycle (tk_shared t)"; cases "lifecycle (tk_shared (alone code ops n t))")
    (auto simp: should_stop_def moves_on_def state_order)

text \<open>Work that neither fails nor panics.\<close>

definition benign :: "'e work \<Rightarrow> bool" where
  "benign w \<longleftrightarrow> wk_panics w = None \<and> list_all (\<lambda>a. case a of FailWith e \<Rightarrow> False | _ \<Rightarrow> True) (wk_acts w)"

text \<open>What a run over user code leaves as it was.\<close>

definition keeps :: "('q, 'mb, 'p, 'e) task \<Rightarrow> ('q, 'mb, 'p, 'e) task \<Rightarrow> bool" where
  "keeps t t' \<longleftrightarrow> tk_mailbox t' = tk_mailbox t \<and> tk_dispatched t' = tk_dispatched t \<and>
     tk_stops t' = tk_stops t \<and> termination_reason (tk_shared t') = termination_reason (tk_shared t)"

lemma keeps_trans: "keeps t t' \<Longrightarrow> keeps t' t'' \<Longrightarrow> keeps t t''"
  by (simp add: keeps_def)

lemma benign_call:
  "shared_ok s \<Longrightarrow> (case a of FailWith e \<Rightarrow> False | _ \<Rightarrow> True) \<Longrightarrow>
     termination_reason (user_call a s) = termination_reason s"
  by (auto split: user_act.splits option.splits)

lemma benign_job_runs:
  assumes "task_ok t" "tk_phase t = Handling" "tk_jobs t = [JobRunning w]" "benign w"
  shows "\<exists>n. keeps t (alone code ops n t) \<and> tk_phase (alone code ops n t) = LoopTop \<and>
    tk_jobs (alone code ops n t) = []"
  using assms
proof (induction "wk_acts w" arbitrary: w t)
  case Nil
  then have "keeps t (poll_task code ops 0 t) \<and> tk_phase (poll_task code ops 0 t) = LoopTop \<and>
      tk_jobs (poll_task code ops 0 t) = []"
    by (auto simp: poll_task_def poll_job_def remove_job_def handled_def keeps_def benign_def
        record_panics_def)
  then show ?case by (intro exI [of _ 1]) (simp add: alone_Suc)
next
  case (Cons a as)
  let ?t = "poll_task code ops 0 t"
  have "task_ok ?t" by (rule poll_task_ok [OF Cons.prems(1)])
  moreover have t: "tk_phase ?t = Handling" "tk_jobs ?t = [JobRunning (w\<lparr>wk_acts := as\<rparr>)]"
    "tk_mailbox ?t = tk_mailbox t" "tk_dispatched ?t = tk_dispatched t" "tk_stops ?t = tk_stops t"
    "tk_shared ?t = user_call a (tk_shared t)"
    using Cons.prems Cons.hyps(2) by (auto simp: poll_task_def poll_job_def split: list.splits)
  moreover have a: "case a of FailWith e \<Rightarrow> False | _ \<Rightarrow> True" "benign (w\<lparr>wk_acts := as\<rparr>)"
    using Cons.prems(4) by (simp_all add: benign_def Cons.hyps(2) [symmetric])
  ultimately obtain n where "keeps ?t (alone code ops n ?t)" "tk_phase (alone code ops n ?t) = LoopTop"
    "tk_jobs (alone code ops n ?t) = []"
    using Cons.hyps(1) [of "w\<lparr>wk_acts := as\<rparr>" ?t] by auto
  moreover have "keeps t ?t"
    using t benign_call [OF _ a(1), of "tk_shared t"] Cons.prems(1) by (simp add: keeps_def task_ok_def)
  ultimately show ?case by (intro exI [of _ "Suc n"]) (auto simp: alone_Suc intro: keeps_trans)
qed

lemma acquired_job_runs:
  assumes "task_ok t" "tk_phase t = Handling" "tk_jobs t = [JobAcquire m w]" "benign w"
  shows "\<exists>n. keeps t (alone code ops n t) \<and> tk_phase (alone code ops n t) = LoopTop \<and>
    tk_jobs (alone code ops n t) = []"
proof -
  let ?t = "poll_task code ops 0 t"
  have "task_ok ?t" by (rule poll_task_ok [OF assms(1)])
  moreover have t: "tk_phase ?t = Handling" "tk_jobs ?t = [JobRunning w]" "keeps t ?t"
    using assms by (auto simp: poll_task_def poll_job_def keeps_def capture_minted)
  ultimately obtain n where "keeps ?t (alone code ops n ?t)" "tk_phase (alone code ops n ?t) = LoopTop"
    "tk_jobs (alone code ops n ?t) = []"
    using benign_job_runs [of ?t w code ops] assms(4) by auto
  with t(3) show ?thesis by (intro exI [of _ "Suc n"]) (auto simp: alone_Suc intro: keeps_trans)
qed

lemma benign_stop_runs:
  assumes "task_ok t" "tk_phase t = OnStop w" "benign w"
  shows "\<exists>n. tk_mailbox (alone code ops n t) = tk_mailbox t \<and> tk_dispatched (alone code ops n t) = tk_dispatched t \<and>
    tk_stops (alone code ops n t) = tk_stops t \<and> tk_phase (alone code ops n t) = TakeSubscribers \<and>
    termination_reason (tk_shared (alone code ops n t)) =
      (case termination_reason (tk_shared t) of None \<Rightarrow> Some Finished | Some r \<Rightarrow> Some r)"
  using assms
proof (induction "wk_acts w" arbitrary: w t)
  case Nil
  then have "tk_mailbox (poll_task code ops 0 t) = tk_mailbox t"
    "tk_dispatched (poll_task code ops 0 t) = tk_dispatched t"
    "tk_stops (poll_task code ops 0 t) = tk_stops t" "tk_phase (poll_task code ops 0 t) = TakeSubscribers"
    "termination_reason (tk_shared (poll_task code ops 0 t)) =
      (case termination_reason (tk_shared t) of None \<Rightarrow> Some Finished | Some r \<Rightarrow> Some r)"
    by (auto simp: poll_task_def finish_stop_def Let_def benign_def capture_minted record_defs task_ok_def
        split: prod.splits option.splits)
  then show ?case by (intro exI [of _ 1]) (simp add: alone_Suc)
next
  case (Cons a as)
  let ?t = "poll_task code ops 0 t"
  have "task_ok ?t" by (rule poll_task_ok [OF Cons.prems(1)])
  moreover have t: "tk_phase ?t = OnStop (w\<lparr>wk_acts := as\<rparr>)" "tk_mailbox ?t = tk_mailbox t"
    "tk_dispatched ?t = tk_dispatched t" "tk_stops ?t = tk_stops t" "tk_shared ?t = user_call a (tk_shared t)"
    using Cons.prems Cons.hyps(2) by (auto simp: poll_task_def split: list.splits)
  moreover have a: "case a of FailWith e \<Rightarrow> False | _ \<Rightarrow> True" "benign (w\<lparr>wk_acts := as\<rparr>)"
    using Cons.prems(3) by (simp_all add: benign_def Cons.hyps(2) [symmetric])
  moreover have "termination_reason (tk_shared ?t) = termination_reason (tk_shared t)"
    using t benign_call [OF _ a(1), of "tk_shared t"] Cons.prems(1) by (simp add: task_ok_def)
  ultimately obtain n where "tk_mailbox (alone code ops n ?t) = tk_mailbox t"
    "tk_dispatched (alone code ops n ?t) = tk_dispatched t" "tk_stops (alone code ops n ?t) = tk_stops t"
    "tk_phase (alone code ops n ?t) = TakeSubscribers"
    "termination_reason (tk_shared (alone code ops n ?t)) =
      (case termination_reason (tk_shared t) of None \<Rightarrow> Some Finished | Some r \<Rightarrow> Some r)"
    using Cons.hyps(1) [of "w\<lparr>wk_acts := as\<rparr>" ?t] by auto
  then show ?case by (intro exI [of _ "Suc n"]) (simp add: alone_Suc)
qed

section \<open>The loop over a mailbox that keeps its contract\<close>

locale message_mailbox = actor_mailbox receive close backlog refuses
  for receive :: "'mb \<Rightarrow> 'p message option poll \<times> 'mb" and close backlog refuses
begin

text \<open>A turn of the loop: at the top, over the driver's close, to the pull.\<close>

lemma pull_turn:
  assumes "ac_next code = standard_mailbox_next close" "ac_poll code = standard_mailbox_poll receive"
    and "\<not> ac_concurrent code" "tk_phase t = LoopTop" "termination_reason (tk_shared t) = None"
    and "should_stop (tk_shared t) \<or> refuses (tk_mailbox t)" "tk_jobs t = []"
  shows "\<exists>mb. refuses mb \<and>
    (case backlog (tk_mailbox t) of
       [] \<Rightarrow> backlog mb = [] \<and> alone code ops 2 t = t\<lparr>tk_phase := BeginStop, tk_mailbox := mb\<rparr>
     | m # ms \<Rightarrow> backlog mb = ms \<and> alone code ops 2 t = t\<lparr>tk_phase := Handling, tk_mailbox := mb,
         tk_jobs := [JobAcquire m (ac_handle code (length (tk_dispatched t)) m)],
         tk_dispatched := tk_dispatched t @ [m]\<rparr>)"
proof -
  let ?mb = "if should_stop (tk_shared t) then close (tk_mailbox t) else tk_mailbox t"
  have mb: "backlog ?mb = backlog (tk_mailbox t)" "refuses ?mb"
    using assms(6) by (auto simp: close_backlog close_refuses)
  have top: "alone code ops 2 t = poll_task code ops 0 (t\<lparr>tk_mailbox := ?mb, tk_phase := Pulling\<rparr>)"
    using assms by (simp add: numeral_2_eq_2 alone_Suc poll_task_def loop_top_def is_compromised_def
        standard_mailbox_next_def goto_phase_def)
  show ?thesis
  proof (cases "backlog (tk_mailbox t)")
    case Nil
    with receive_empty [of ?mb] mb obtain mb' where "receive ?mb = (Ready None, mb')" "backlog mb' = []"
      "refuses mb'" by auto
    with top assms(2,3) Nil show ?thesis
      by (intro exI [of _ mb']) (simp add: poll_task_def poll_pull_def next_dispatch_def
          standard_mailbox_poll_def goto_phase_def)
  next
    case (Cons m ms)
    with receive_next [of ?mb m ms] mb obtain mb' where "receive ?mb = (Ready (Some m), mb')"
      "backlog mb' = ms" "refuses mb'" by auto
    with top assms(2,3,7) Cons show ?thesis
      by (intro exI [of _ mb']) (simp add: poll_task_def poll_pull_def next_dispatch_def
          standard_mailbox_poll_def goto_phase_def push_job_def)
  qed
qed

text \<open>A closed or closing mailbox is drained in order.\<close>

lemma loop_drains:
  assumes "ac_next code = standard_mailbox_next close" "ac_poll code = standard_mailbox_poll receive"
    and "\<not> ac_concurrent code" "\<And>k m. benign (ac_handle code k m)"
    and "task_ok t" "tk_phase t = LoopTop" "termination_reason (tk_shared t) = None"
    and "should_stop (tk_shared t) \<or> refuses (tk_mailbox t)" "tk_jobs t = []"
  shows "\<exists>n. tk_phase (alone code ops n t) = BeginStop \<and>
    tk_dispatched (alone code ops n t) = tk_dispatched t @ backlog (tk_mailbox t) \<and>
    tk_stops (alone code ops n t) = tk_stops t \<and> termination_reason (tk_shared (alone code ops n t)) = None"
  using assms(5-)
proof (induction "backlog (tk_mailbox t)" arbitrary: t)
  case Nil
  with pull_turn [OF assms(1-3) Nil.prems(2-5), of ops] show ?case by (auto intro!: exI [of _ 2])
next
  case (Cons m ms)
  let ?t = "alone code ops 2 t"
  from pull_turn [OF assms(1-3) Cons.prems(2-5), of ops] Cons.hyps(2) [symmetric]
  obtain mb where mb: "refuses mb" "backlog mb = ms"
    "?t = t\<lparr>tk_phase := Handling, tk_mailbox := mb,
       tk_jobs := [JobAcquire m (ac_handle code (length (tk_dispatched t)) m)],
       tk_dispatched := tk_dispatched t @ [m]\<rparr>" by auto
  have "task_ok ?t" by (rule alone_ok [OF Cons.prems(1)])
  then obtain k where k: "keeps ?t (alone code ops k ?t)" "tk_phase (alone code ops k ?t) = LoopTop"
    "tk_jobs (alone code ops k ?t) = []"
    using acquired_job_runs [of ?t m "ac_handle code (length (tk_dispatched t)) m" code ops] mb(3) assms(4)
    by auto
  let ?u = "alone code ops k ?t"
  have u: "task_ok ?u" "tk_mailbox ?u = mb" "tk_dispatched ?u = tk_dispatched t @ [m]"
    "tk_stops ?u = tk_stops t" "termination_reason (tk_shared ?u) = None"
    using k(1) mb(3) Cons.prems(3) alone_ok [OF \<open>task_ok ?t\<close>] by (simp_all add: keeps_def)
  from Cons.hyps(1) [of ?u] u k mb obtain n where "tk_phase (alone code ops n ?u) = BeginStop"
    "tk_dispatched (alone code ops n ?u) = tk_dispatched t @ m # ms"
    "tk_stops (alone code ops n ?u) = tk_stops t" "termination_reason (tk_shared (alone code ops n ?u)) = None"
    by auto
  with Cons.hyps(2) show ?case
    by (intro exI [of _ "2 + k + n"]) (simp only: alone_add simp_thms)
qed

text \<open>Then the stop hook runs once, told that the actor finished, and the reason is that it finished.\<close>

lemma drains_and_finishes:
  assumes "ac_next code = standard_mailbox_next close" "ac_poll code = standard_mailbox_poll receive"
    and "\<not> ac_concurrent code" "\<And>k m. benign (ac_handle code k m)" "\<And>r. benign (ac_on_stop code r)"
    and "task_ok t" "tk_phase t = LoopTop" "termination_reason (tk_shared t) = None"
    and "should_stop (tk_shared t) \<or> refuses (tk_mailbox t)" "tk_jobs t = []"
  shows "\<exists>n. tk_phase (alone code ops n t) = TakeSubscribers \<and>
    tk_dispatched (alone code ops n t) = tk_dispatched t @ backlog (tk_mailbox t) \<and>
    tk_stops (alone code ops n t) = [StopFinished] \<and>
    termination_reason (tk_shared (alone code ops n t)) = Some Finished"
proof -
  from loop_drains [OF assms(1-4,6-10), of ops] obtain n where n: "tk_phase (alone code ops n t) = BeginStop"
    "tk_dispatched (alone code ops n t) = tk_dispatched t @ backlog (tk_mailbox t)"
    "tk_stops (alone code ops n t) = tk_stops t" "termination_reason (tk_shared (alone code ops n t)) = None"
    by blast
  let ?t = "alone code ops n t"
  let ?u = "poll_task code ops 0 ?t"
  have st: "tk_stops t = []" using assms(6,7) by (simp add: task_ok_def stops_ok_def)
  have u: "tk_phase ?u = OnStop (ac_on_stop code StopFinished)" "tk_dispatched ?u = tk_dispatched ?t"
    "tk_stops ?u = [StopFinished]" "termination_reason (tk_shared ?u) = None"
    using n st by (simp_all add: poll_task_def begin_stop_def Let_def stop_reason_def)
  have "task_ok ?u" by (intro poll_task_ok alone_ok assms(6))
  from benign_stop_runs [OF this u(1) assms(5), of code ops] u obtain k where
    "tk_phase (alone code ops k ?u) = TakeSubscribers"
    "tk_dispatched (alone code ops k ?u) = tk_dispatched t @ backlog (tk_mailbox t)"
    "tk_stops (alone code ops k ?u) = [StopFinished]"
    "termination_reason (tk_shared (alone code ops k ?u)) = Some Finished"
    using n by auto
  then show ?thesis
    by (intro exI [of _ "n + Suc k"]) (simp only: alone_add alone_Suc simp_thms)
qed

end

text \<open>The framework's own channel keeps the contract over every queue that keeps tokio's.\<close>

lemma channel_mailbox:
  assumes "mpsc_queue ops contents closed capacity"
  shows "message_mailbox (poll_receive ops) (close_mailbox ops) (lanes_backlog contents) (lanes_refuse closed)"
  by (intro message_mailbox.intro mpsc_queue.mailbox_contract [OF assms])

interpretation fifo_loop: message_mailbox "poll_receive fifo_mpsc" "close_mailbox fifo_mpsc"
  "lanes_backlog ff_items" "lanes_refuse ff_closed"
  by (rule channel_mailbox [OF fifo.mpsc_queue_axioms])

end
