(* ===== verification/Run_Loop_Properties.thy ===== *)
theory Run_Loop_Properties
  imports Run_Loop_Drain
begin

text \<open>
  The properties of an actor's task, from its spawn to its exit, with concrete actors that reach
  the states they speak of.
\<close>

section \<open>No handler after a failure, and the subscriptions taken\<close>

lemma init_fields [simp]:
  "tk_dispatched (init_or_fail r hook t) = tk_dispatched t" "tk_taken (init_or_fail r hook t) = tk_taken t"
  by (cases r; simp)+

lemma poll_dispatches:
  assumes "tk_dispatched (poll_task code ops n t) \<noteq> tk_dispatched t"
  shows "tk_phase t = Pulling"
proof (rule ccontr)
  assume "tk_phase t \<noteq> Pulling"
  moreover have "tk_dispatched (poll_job t i finish) = tk_dispatched t"
    if "finish = handled \<or> finish = raced \<or> finish = drained" for i finish
    using finish_fields(6) [OF that]
    by (auto simp: poll_job_def remove_job_def split: job_poll.splits prod.splits)
  moreover have "tk_dispatched (choose_job n t drained t) = tk_dispatched t"
    using calculation(2) by (cases n) simp_all
  ultimately show False
    using assms
    by (cases "tk_phase t")
      (auto simp: poll_task_def after_start_def Let_def loop_top_def begin_stop_def finish_stop_def
        take_step_def notify_step_def guard_notify_step_def
        split: nat.splits prod.splits option.splits sum.splits list.splits delivery.splits if_splits)
qed


lemma poll_taken:
  "prefix (tk_taken t) (tk_taken (poll_task code ops n t))"
proof -
  have "tk_taken (choose_job n t drained t) = tk_taken t" "tk_taken (choose_job n t raced (poll_pull code t)) = tk_taken t"
    by (cases n; simp)+
  then show ?thesis
    by (cases "tk_phase t")
      (auto simp: poll_task_def after_start_def Let_def begin_stop_def finish_stop_def
        take_step_def notify_step_def guard_notify_step_def
        split: nat.splits prod.splits option.splits sum.splits list.splits delivery.splits if_splits)
qed

lemma steps_taken:
  "task_steps code ops t t' \<Longrightarrow> prefix (tk_taken t) (tk_taken t')"
proof (induction rule: rtranclp_induct)
  case (step t' t'')
  from step.hyps(2) have "prefix (tk_taken t') (tk_taken t'')"
    by (cases rule: task_step.cases) (simp_all add: poll_taken abort_task_def)
  with step.IH show ?case using prefix_order.trans by blast
qed simp

text \<open>In the sequential loop nothing has failed while a message is pulled.\<close>

definition pulls_sound :: "('mb, 'p, 'e) actor_code \<Rightarrow> ('q, 'mb, 'p, 'e) task \<Rightarrow> bool" where
  "pulls_sound code t \<longleftrightarrow> (tk_phase t = Pulling \<and> \<not> ac_concurrent code \<longrightarrow> \<not> is_compromised (tk_shared t))"

lemma poll_pulls_sound:
  assumes "task_ok t" "pulls_sound code t"
  shows "pulls_sound code (poll_task code ops n t)"
proof (cases "ac_concurrent code")
  case False
  have "tk_phase t = LoopTop \<or> tk_phase t = Pulling" if "tk_phase (poll_task code ops n t) = Pulling"
  proof (rule ccontr)
    assume no: "\<not> (tk_phase t = LoopTop \<or> tk_phase t = Pulling)"
    have "tk_phase (poll_job t 0 handled) \<noteq> Pulling \<or> tk_phase t \<noteq> Handling"
      by (auto simp: poll_job_def handled_def remove_job_def split: job_poll.splits prod.splits)
    moreover have "tk_phase (choose_job n t drained t) \<noteq> Pulling \<or> tk_phase t \<noteq> DrainWork"
      by (cases n) (auto simp: poll_job_def drained_def remove_job_def split: job_poll.splits prod.splits)
    moreover have "tk_phase (init_or_fail r hook t) \<noteq> Pulling" for r hook by (cases r) simp_all
    ultimately show False
      using no that
      by (cases "tk_phase t")
        (auto simp: poll_task_def after_start_def Let_def begin_stop_def finish_stop_def
          take_step_def notify_step_def guard_notify_step_def
          split: nat.splits prod.splits option.splits sum.splits list.splits delivery.splits if_splits)
  qed
  moreover have "\<not> is_compromised (tk_shared (poll_task code ops n t))"
    if "tk_phase t = LoopTop" "tk_phase (poll_task code ops n t) = Pulling"
    using that by (auto simp: poll_task_def loop_top_def split: if_splits)
  moreover have "\<not> is_compromised (tk_shared (poll_task code ops n t))"
    if "tk_phase t = Pulling" "tk_phase (poll_task code ops n t) = Pulling"
    using that assms(2) False
    by (auto simp: pulls_sound_def poll_task_def poll_pull_def next_dispatch_def
        split: prod.splits sum.splits poll.splits option.splits)
  ultimately show ?thesis by (auto simp: pulls_sound_def)
qed (simp add: pulls_sound_def)

lemma steps_pulls_sound:
  "task_steps code ops t t' \<Longrightarrow> task_ok t \<Longrightarrow> pulls_sound code t \<Longrightarrow> pulls_sound code t'"
proof (induction rule: rtranclp_induct)
  case (step t' t'')
  then have ok: "task_ok t'" "pulls_sound code t'" using task_steps_ok by blast+
  then have sok: "shared_ok (tk_shared t')" by (simp add: task_ok_def)
  have same: "pulls_sound code t''" if "same_task t' t''"
    using that ok(2) by (simp add: pulls_sound_def same_task_def is_compromised_def)
  have "pulls_sound code (abort_task t')" by (simp add: pulls_sound_def abort_task_def)
  with step.hyps(2) sok same poll_pulls_sound [OF ok] show ?case
    by (cases rule: task_step_cases) auto
qed simp

lemma compromised_stays:
  assumes "task_steps code ops t t'" "task_ok t" "is_compromised (tk_shared t)"
  shows "is_compromised (tk_shared t')"
  using task_steps_move_on [OF assms(1,2)] assms(3) by (auto simp: moves_on_def is_compromised_iff)

lemma no_dispatch_when_compromised:
  assumes "task_steps code ops t t'" "task_ok t" "pulls_sound code t" "\<not> ac_concurrent code"
    and "is_compromised (tk_shared t)"
  shows "tk_dispatched t' = tk_dispatched t"
  using assms(1)
proof (induction rule: rtranclp_induct)
  case (step t' t'')
  have t': "pulls_sound code t'" "is_compromised (tk_shared t')"
    using steps_pulls_sound [OF step.hyps(1) assms(2,3)] compromised_stays [OF step.hyps(1) assms(2,5)] by auto
  from step.hyps(2) have "tk_dispatched t'' = tk_dispatched t'"
  proof (cases rule: task_step.cases)
    case (Poll n)
    with poll_dispatches [of code ops n t'] t' assms(4) show ?thesis by (auto simp: pulls_sound_def)
  qed (simp_all add: abort_task_def)
  with step.IH show ?case by simp
qed simp


section \<open>Concrete actors\<close>

text \<open>A task with a mailbox of the framework's channel over a queue, and an actor of four works.\<close>

type_synonym sample_mailbox = "(nat message fifo, nat message) multilane"
type_synonym sample_task = "(term_message fifo, sample_mailbox, nat, string) task"

definition sample_message :: "nat \<Rightarrow> nat message" where
  "sample_message n = \<lparr>me_body = n, me_type = ''Add'', me_dispatch = TypeTell,
     me_stamp = \<lparr>cs_from = None, cs_caused_by = None\<rparr>\<rparr>"

definition sample_mailbox :: "nat message list \<Rightarrow> bool \<Rightarrow> sample_mailbox" where
  "sample_mailbox ms closed =
     \<lparr>ml_lanes = [BoundedLane \<lparr>ff_items = ms, ff_closed = closed, ff_capacity = Some 64\<rparr>],
      ml_priority = no_priority_router\<rparr>"

definition sample_code :: "nat \<Rightarrow> string work \<Rightarrow> string work \<Rightarrow> (sample_mailbox, nat, string) actor_code" where
  "sample_code yields handler stop_hook =
     \<lparr>ac_init = (yields, InitOk), ac_on_start = \<lparr>wk_acts = [], wk_panics = None\<rparr>,
      ac_handle = (\<lambda>k m. handler), ac_on_stop = (\<lambda>r. stop_hook),
      ac_next = standard_mailbox_next (close_mailbox fifo_mpsc),
      ac_poll = standard_mailbox_poll (poll_receive fifo_mpsc), ac_concurrent = False\<rparr>"

abbreviation quiet :: "'e work" where
  "quiet \<equiv> \<lparr>wk_acts = [], wk_panics = None\<rparr>"

definition sample_spawn :: "nat message list \<Rightarrow> bool \<Rightarrow> term_message fifo watchers \<Rightarrow> sample_task" where
  "sample_spawn ms closed ws =
     spawn_task (shared_new 1 ''Counter'' True) (sample_mailbox ms closed) ws"

lemmas sample_defs = sample_code_def sample_spawn_def sample_mailbox_def sample_message_def
  spawn_task_def shared_new_def

lemmas eval_task = poll_task_def goto_phase_def on_shared_def after_start_def loop_top_def
  poll_pull_def next_dispatch_def push_job_def poll_job_def remove_job_def handled_def
  begin_stop_def stop_reason_def finish_stop_def stop_outcome_def take_step_def
  notify_step_def guard_notify_step_def guard_mark_def record_panics_def record_defs
  record_reason_def termination_reason_def is_compromised_def should_stop_def lifecycle_def
  shared_transition_defs shared_transition_def shared_stopping_def transition_defs emit_def
  record_spawned_def record_died_def instrument_handler_def next_capture_event_id_def
  capture_birth_def take_subscriptions_def once_new_def once_set_def once_read_def once_get_def
  assume_init_ref_def EMPTY_def FULL_def lifecycle_cell_new_def cell_state_def current_def
  standard_mailbox_next_def standard_mailbox_poll_def poll_receive_def close_mailbox_def
  fifo_mpsc_def deliver_def deliver_now_def deliver_waiting_def deliver_nonblocking_def
  prepare_signal_def

lemma first_mark: "lc_state c = as_u8 Starting \<Longrightarrow> cell_state c = Starting"
  by simp

text \<open>A clean run to the end: two messages queued, the handles gone.\<close>

definition clean_code :: "(sample_mailbox, nat, string) actor_code" where
  "clean_code = sample_code 1 \<lparr>wk_acts = [Yields], wk_panics = None\<rparr> quiet"

definition clean_task :: sample_task where
  "clean_task = sample_spawn [sample_message 3, sample_message 4] True (\<lambda>_. None)"

definition clean_end :: sample_task where
  "clean_end = alone clean_code fifo_mpsc 25 clean_task"

lemma clean_end_facts:
  "tk_phase clean_end = Exited" "termination_reason (tk_shared clean_end) = Some Finished"
  "ss_capture_sink (tk_shared clean_end)" "\<not> tk_aborted clean_end"
  by (simp_all add: clean_end_def clean_code_def clean_task_def sample_defs eval_nat_numeral alone_Suc
      eval_task Let_def)

lemma clean_steps: "task_steps clean_code fifo_mpsc clean_task clean_end"
  by (simp add: clean_end_def alone_steps)

lemmas sample_task_forms = clean_task_def sample_spawn_def

section \<open>The properties\<close>

text \<open>C12: Whatever interleaves with it, an actor is \<open>Dead\<close> exactly when its task has run the last
  line of its drop guard; by then a termination reason has been recorded, so whoever observes
  \<open>Dead\<close> sees one, and when the task has exited its mailbox is gone.\<close>

theorem dead_is_announced_last:
  assumes "task_steps code ops (spawn_task (shared_new actor name captured) mb ws) t"
  shows "(lifecycle (tk_shared t) = Dead \<longleftrightarrow> tk_phase t = DropArguments \<or> tk_phase t = Exited) \<and>
    (lifecycle (tk_shared t) = Dead \<longrightarrow> termination_reason (tk_shared t) \<noteq> None) \<and>
    (tk_phase t = Exited \<longrightarrow> tk_mailbox_dropped t)"
proof -
  have "task_ok t" "story_ok t"
    using task_steps_ok [OF assms] task_steps_story [OF assms] by simp_all
  then show ?thesis by (cases "tk_phase t") (auto simp: task_ok_def story_ok_def)
qed

theorem dead_is_announced_last_witness:
  "lifecycle (tk_shared clean_end) = Dead \<and> termination_reason (tk_shared clean_end) \<noteq> None \<and>
    tk_mailbox_dropped clean_end"
  using dead_is_announced_last [OF clean_steps [unfolded sample_task_forms]] clean_end_facts(1) by simp

text \<open>The termination reason is written once: whatever was recorded first, a failure, a panic, the
  clean end or the abort, is what every later state shows, and the lifecycle only moves forward.\<close>

theorem reason_is_written_once:
  assumes "task_steps code ops (spawn_task (shared_new actor name captured) mb ws) t"
    and "task_steps code ops t t'"
  shows "lifecycle (tk_shared t) \<le> lifecycle (tk_shared t') \<and>
    (termination_reason (tk_shared t) = Some r \<longrightarrow> termination_reason (tk_shared t') = Some r)"
  using task_steps_move_on [OF assms(2)] task_steps_ok [OF assms(1)] by (auto simp: moves_on_def)

theorem reason_is_written_once_witness:
  "termination_reason (tk_shared (alone clean_code fifo_mpsc 4 clean_end)) = Some Finished"
  using reason_is_written_once [OF clean_steps [unfolded sample_task_forms]
      alone_steps [of clean_code fifo_mpsc clean_end 4]] clean_end_facts(2) by blast

text \<open>\<open>on_stop\<close> runs at most once, never for an actor that did not come through its start hook, and
  it is told the truth: a failure or a panic it is called with is the reason the actor dies with.\<close>

theorem stop_hook_runs_once:
  assumes "task_steps code ops (spawn_task (shared_new actor name captured) mb ws) t"
  shows "length (tk_stops t) \<le> 1 \<and>
    list_all (\<lambda>st. stop_agrees st (termination_reason (tk_shared t))) (tk_stops t) \<and>
    (\<not> stopped (tk_phase t) \<and> \<not> guarding (tk_phase t) \<longrightarrow> tk_stops t = [])"
proof -
  have "task_ok t" using task_steps_ok [OF assms] by simp
  then show ?thesis by (auto simp: task_ok_def stops_ok_def split: if_splits)
qed

theorem stop_hook_runs_once_witness:
  "length (tk_stops clean_end) \<le> 1 \<and> tk_phase clean_end = Exited"
  using stop_hook_runs_once [OF clean_steps [unfolded sample_task_forms]] clean_end_facts(1) by simp

text \<open>C13: The captured events of an actor tell its story, aborts included. They are numbered 1, 2, 3, without a gap.
  Once its task has exited they are, for an actor that finished, a \<open>Spawned\<close>, the messages it handled, and
  one \<open>Died\<close>, last, with the kind of the reason; for one recorded as aborted, whatever was captured and then
  one \<open>Died\<close>, also when it never got to its \<open>Spawned\<close>; for one that failed or panicked, the whole story with
  its \<open>Died\<close> if the stop hook was called, and nothing if it was not, for its start failed. Only if such an
  actor is aborted may its \<open>Died\<close> be missing.\<close>

theorem captured_story:
  assumes "task_steps code ops (spawn_task (shared_new actor name True) mb ws) t" and "tk_phase t = Exited"
  shows "\<exists>q. termination_reason (tk_shared t) = Some q \<and>
    (let es = captures (ss_log (tk_shared t)) in
      (case q of
         Aborted \<Rightarrow> \<exists>us d. es = us @ [d] \<and> is_died KindAborted d \<and> (us = [] \<or> open_story us)
       | Finished \<Rightarrow> closed_story KindFinished es
       | _ \<Rightarrow> tk_aborted t \<and> open_story es \<or> (if tk_stops t = [] then es = [] else closed_story (kind q) es)) \<and>
      map event_id es = map (\<lambda>k. \<lparr>ev_actor = actor, ev_seq = of_nat (k + 1)\<rparr>) [0..<length es])"
proof -
  have ok: "task_ok t" "story_ok t"
    using task_steps_ok [OF assms(1)] task_steps_story [OF assms(1)] by simp_all
  have shared: "ss_id (tk_shared t) = actor" "ss_capture_sink (tk_shared t)"
    using task_steps_move_on [OF assms(1) spawn_task_ok] by (simp_all add: moves_on_def spawn_task_def)
  with ok assms(2) obtain q where q: "termination_reason (tk_shared t) = Some q"
    "over_story q (tk_aborted t) (tk_stops t \<noteq> []) (captures (ss_log (tk_shared t)))"
    by (auto simp: story_ok_def)
  have "map event_id (captures (ss_log (tk_shared t))) =
      map (\<lambda>k. \<lparr>ev_actor = actor, ev_seq = of_nat (k + 1)\<rparr>) [0..<length (captures (ss_log (tk_shared t)))]"
    using ok(1) shared by (simp add: task_ok_def sequence_ok_def event_at_def [abs_def])
  with q show ?thesis
    by (intro exI [of _ q]) (cases q; auto simp: over_story_def compromising_def Let_def)
qed

theorem captured_story_witness:
  "closed_story KindFinished (captures (ss_log (tk_shared clean_end))) \<and>
    map event_id (captures (ss_log (tk_shared clean_end))) =
      map (\<lambda>k. \<lparr>ev_actor = 1, ev_seq = of_nat (k + 1)\<rparr>) [0..<length (captures (ss_log (tk_shared clean_end)))]"
  using captured_story [OF clean_steps [unfolded sample_task_forms] clean_end_facts(1)] clean_end_facts(2)
  by (auto simp: Let_def)

text \<open>C14: Every watcher still subscribed when the stop hook has run is sent one signal, if the task is not
  aborted: by the time it has exited, a delivery to each subscription taken has been attempted and settled,
  once, in the order of watching, with the kind of the recorded reason. Nobody is signalled twice: after
  those, a signal goes only to watchers that subscribed later, and to each at most once a subscription.\<close>

theorem watchers_are_signalled:
  assumes "task_steps code ops (spawn_task (shared_new actor name captured) mb ws) t"
    and "tk_phase t = TakeSubscribers" "task_steps code ops (poll_task code ops n t) t'"
    and "tk_phase t' = Exited" "\<not> tk_aborted t'"
  shows "\<exists>q late new. termination_reason (tk_shared t') = Some q \<and>
    signals (ss_log (tk_shared t')) = map (\<lambda>sub. (sub, kind q)) (ss_subscriptions (tk_shared t) @ late) \<and>
    tk_watched t' = tk_watched t @ new \<and> mset late \<subseteq># mset new \<and> list_all settled (ss_log (tk_shared t'))"
proof -
  have ok: "task_ok t" "story_ok t" using task_steps_ok [OF assms(1)] task_steps_story [OF assms(1)] by simp_all
  obtain r where r: "termination_reason (tk_shared t) = Some r" using ok(1) assms(2) by (auto simp: task_ok_def)
  have "tk_taken t = []" using ok(2) assms(2) by (simp add: story_ok_def signals_ok_def)
  with r assms(2) have taken: "tk_taken (poll_task code ops n t) = ss_subscriptions (tk_shared t)"
    "ss_subscriptions (tk_shared (poll_task code ops n t)) = []"
    by (simp_all add: poll_task_def take_step_def take_subscriptions_def goto_phase_def)
  with steps_taken [OF assms(3)] obtain late where
    late: "tk_taken t' = ss_subscriptions (tk_shared t) @ late" by (auto simp: prefix_def)
  have watched: "tk_watched (poll_task code ops n t) = tk_watched t"
    using poll_task_books [of code ops n t] by (simp add: books_def)
  from task_steps_ledger [OF assms(3)] obtain new where new: "tk_watched t' = tk_watched t @ new"
    "ledger t' \<subseteq># ledger (poll_task code ops n t) + mset new"
    by (auto simp: watched)
  then have "mset late + mset (ss_subscriptions (tk_shared t')) \<subseteq># mset new"
    by (simp add: ledger_def taken late)
  then have "mset late \<subseteq># mset new" by (rule subset_mset.order_trans [rotated]) simp
  moreover have all: "task_steps code ops (spawn_task (shared_new actor name captured) mb ws) t'"
    using assms(1,3) task_step.Poll [of code ops t n] by (meson rtranclp.rtrancl_into_rtrancl rtranclp_trans)
  moreover from task_steps_ledger [OF all] have "list_all settled (ss_log (tk_shared t'))"
    by (simp add: loose_def spawn_task_def shared_new_def filter_empty_conv list_all_iff)
  moreover have "task_ok t'" "story_ok t'"
    using task_steps_ok [OF all] task_steps_story [OF all] by simp_all
  ultimately show ?thesis
    using assms(4,5) late new(1)
    by (auto simp: task_ok_def story_ok_def signals_ok_def tagged_def)
qed


text \<open>An actor watched by another, whose mailbox has room for so many signals.\<close>

definition sample_watch :: "WatchDeliveryPolicy \<Rightarrow> Subscription" where
  "sample_watch policy = \<lparr>sub_watcher = 7, sub_watcher_id = 7, sub_dispatcher = 1, sub_tag = 42,
     sub_delivery_policy = policy\<rparr>"

definition sample_watcher :: "nat \<Rightarrow> term_message list \<Rightarrow> term_message fifo watchers" where
  "sample_watcher capacity queued =
     [7 \<mapsto> \<lparr>ml_lanes = [BoundedLane \<lparr>ff_items = queued, ff_closed = False, ff_capacity = Some capacity\<rparr>],
            ml_priority = no_priority_router\<rparr>]"

definition watched_task :: sample_task where
  "watched_task = watch_task (sample_watch Always) (sample_spawn [] True (sample_watcher 2 []))"

definition watched_stopped :: sample_task where
  "watched_stopped = alone clean_code fifo_mpsc 8 watched_task"

definition watched_end :: sample_task where
  "watched_end = alone clean_code fifo_mpsc 9 (poll_task clean_code fifo_mpsc 0 watched_stopped)"

lemmas watched_defs = watch_task_def watched_task_def watched_stopped_def watched_end_def sample_watch_def
  sample_watcher_def clean_code_def

lemma watched_facts:
  "tk_phase watched_stopped = TakeSubscribers" "tk_phase watched_end = Exited" "\<not> tk_aborted watched_end"
  "ss_subscriptions (tk_shared watched_stopped) = [sample_watch Always]"
  by (simp_all add: watched_defs sample_defs eval_nat_numeral alone_Suc eval_task Let_def
      add_subscription_def poll_send_def prepare_send_def no_priority_router_def set_lane_def
      delivery_result_def has_room_def)

lemma watched_steps: "task_steps clean_code fifo_mpsc (sample_spawn [] True (sample_watcher 2 [])) watched_stopped"
  unfolding watched_stopped_def watched_task_def
  by (rule converse_rtranclp_into_rtranclp [OF task_step.Watch alone_steps])

theorem watchers_are_signalled_witness:
  "\<exists>q late new. signals (ss_log (tk_shared watched_end)) =
     map (\<lambda>sub. (sub, kind (q :: string TerminationReason))) ([sample_watch Always] @ late) \<and>
     tk_watched watched_end = tk_watched watched_stopped @ new \<and> mset late \<subseteq># mset new"
  using watchers_are_signalled [OF watched_steps [unfolded sample_spawn_def] watched_facts(1)
      alone_steps [of clean_code fifo_mpsc "poll_task clean_code fifo_mpsc 0 watched_stopped" 9,
        folded watched_end_def] watched_facts(2,3)] watched_facts(4)
  by auto

text \<open>C15: An actor that was asked to stop, or whose handles are gone, drains and finishes: running alone,
  the sequential loop over the framework's channel dispatches exactly the messages queued, in the
  order of their lanes, and, when no handler fails, calls \<open>on_stop\<close> once with \<open>Finished\<close> and records
  \<open>Finished\<close>, after finitely many steps.\<close>

theorem clean_stop_drains:
  fixes ops :: "('c, 'p message) mpsc"
  assumes "mpsc_queue ops contents closed capacity"
    and "ac_next code = standard_mailbox_next (close_mailbox ops)"
    "ac_poll code = standard_mailbox_poll (poll_receive ops)" "\<not> ac_concurrent code"
    and "\<And>k m. benign (ac_handle code k m)" "\<And>r. benign (ac_on_stop code r)"
    and "task_steps code wops (spawn_task (shared_new actor name captured) mb ws) t"
    and "tk_phase t = LoopTop" "tk_jobs t = []" "termination_reason (tk_shared t) = None"
    and "should_stop (tk_shared t) \<or> lanes_refuse closed (tk_mailbox t)"
  shows "\<exists>n. tk_phase (alone code wops n t) = TakeSubscribers \<and>
    tk_dispatched (alone code wops n t) = tk_dispatched t @ lanes_backlog contents (tk_mailbox t) \<and>
    tk_stops (alone code wops n t) = [StopFinished] \<and>
    termination_reason (tk_shared (alone code wops n t)) = Some Finished"
  by (rule message_mailbox.drains_and_finishes [OF channel_mailbox [OF assms(1)] assms(2-6) _ assms(8,10,11,9)])
    (use task_steps_ok [OF assms(7)] in simp)

definition clean_running :: sample_task where
  "clean_running = alone clean_code fifo_mpsc 4 clean_task"

lemma clean_running_facts:
  "tk_phase clean_running = LoopTop" "tk_jobs clean_running = []"
  "termination_reason (tk_shared clean_running) = None" "lanes_refuse ff_closed (tk_mailbox clean_running)"
  "lanes_backlog ff_items (tk_mailbox clean_running) = [sample_message 3, sample_message 4]"
  "tk_dispatched clean_running = []"
  by (simp_all add: clean_running_def clean_code_def clean_task_def sample_defs eval_nat_numeral alone_Suc
      eval_task Let_def lanes_refuse_def lanes_backlog_def)

theorem clean_stop_drains_witness:
  "\<exists>n. tk_dispatched (alone clean_code fifo_mpsc n clean_running) = [sample_message 3, sample_message 4] \<and>
    termination_reason (tk_shared (alone clean_code fifo_mpsc n clean_running)) = Some Finished"
proof -
  have run: "task_steps clean_code fifo_mpsc clean_task clean_running"
    by (simp add: clean_running_def alone_steps)
  have code: "ac_next clean_code = standard_mailbox_next (close_mailbox fifo_mpsc)"
    "ac_poll clean_code = standard_mailbox_poll (poll_receive fifo_mpsc)" "\<not> ac_concurrent clean_code"
    "benign (ac_handle clean_code k m)" "benign (ac_on_stop clean_code r)" for k m r
    by (simp_all add: clean_code_def sample_code_def benign_def)
  from clean_stop_drains [OF fifo.mpsc_queue_axioms code run [unfolded sample_task_forms] clean_running_facts(1-3)
      disjI2 [OF clean_running_facts(4)]]
  show ?thesis by (auto simp: clean_running_facts)
qed


text \<open>C16: After a failure or a captured panic the sequential loop dispatches no further message: whatever
  follows, the messages dispatched are those dispatched before.\<close>

theorem no_dispatch_after_failure:
  assumes "task_steps code ops (spawn_task (shared_new actor name captured) mb ws) t"
    and "task_steps code ops t t'" "\<not> ac_concurrent code" "is_compromised (tk_shared t)"
  shows "tk_dispatched t' = tk_dispatched t \<and> is_compromised (tk_shared t')"
proof -
  have ok: "task_ok t" using task_steps_ok [OF assms(1)] by simp
  have "pulls_sound code t"
    by (rule steps_pulls_sound [OF assms(1) spawn_task_ok]) (simp add: pulls_sound_def spawn_task_def)
  with ok show ?thesis
    using no_dispatch_when_compromised [OF assms(2) ok _ assms(3,4)] compromised_stays [OF assms(2) ok assms(4)]
    by blast
qed

text \<open>An actor whose handler fails on the first of two messages, and whose stop hook awaits.\<close>

definition failing_code :: "(sample_mailbox, nat, string) actor_code" where
  "failing_code = sample_code 0 \<lparr>wk_acts = [FailWith ''broken''], wk_panics = None\<rparr>
     \<lparr>wk_acts = [Yields], wk_panics = None\<rparr>"

definition failed_task :: sample_task where
  "failed_task = alone failing_code fifo_mpsc 7 clean_task"

definition failing_stop :: sample_task where
  "failing_stop = alone failing_code fifo_mpsc 3 failed_task"

lemmas failing_defs = failed_task_def failing_stop_def failing_code_def clean_task_def sample_defs

lemma failed_facts:
  "is_compromised (tk_shared failed_task)" "\<not> ac_concurrent failing_code"
  "tk_dispatched failed_task = [sample_message 3]"
  by (simp_all add: failing_defs eval_nat_numeral alone_Suc eval_task Let_def)

theorem no_dispatch_after_failure_witness:
  "tk_dispatched (alone failing_code fifo_mpsc 20 failed_task) = [sample_message 3]"
proof -
  have "task_steps failing_code fifo_mpsc clean_task failed_task" by (simp add: failed_task_def alone_steps)
  from no_dispatch_after_failure [OF this [unfolded sample_task_forms]
      alone_steps [of failing_code fifo_mpsc failed_task 20] failed_facts(2,1)]
  show ?thesis by (simp add: failed_facts(3))
qed

section \<open>What an abort can lose\<close>

lemma never_polled_step:
  "task_step code ops t t' \<Longrightarrow> tk_phase t = NeverPolled \<Longrightarrow> tk_phase t' = NeverPolled"
  by (induction rule: task_step.induct) (simp_all add: poll_task_def suspended_def)

lemma never_polled_steps:
  "task_steps code ops t t' \<Longrightarrow> tk_phase t = NeverPolled \<Longrightarrow> tk_phase t' = NeverPolled"
  by (induction rule: rtranclp_induct) (auto dest: never_polled_step)

text \<open>C17: An actor whose task is aborted before its first poll never dies: the guard is created by the
  first poll, so the task is gone and its mailbox with it while the lifecycle stays \<open>Starting\<close> and no
  reason is ever recorded; whoever waits for the actor to die waits for ever.\<close>

theorem aborted_before_first_poll_never_dies:
  "\<exists>t. task_step code ops (spawn_task (shared_new actor name captured) mb ws) t \<and> tk_mailbox_dropped t \<and>
     tk_aborted t \<and> (\<forall>t'. task_steps code ops t t' \<longrightarrow>
       lifecycle (tk_shared t') = Starting \<and> termination_reason (tk_shared t') = None)"
proof -
  let ?s = "spawn_task (shared_new actor name captured) mb ws"
  have step: "task_step code ops ?s (abort_task ?s)"
    by (rule task_step.Abort) (simp add: suspended_def spawn_task_def)
  have "lifecycle (tk_shared t') = Starting \<and> termination_reason (tk_shared t') = None"
    if "task_steps code ops (abort_task ?s) t'" for t'
  proof -
    have "task_ok t'" by (rule task_steps_ok [OF that task_step_ok [OF step spawn_task_ok]])
    moreover have "tk_phase t' = NeverPolled"
      by (rule never_polled_steps [OF that]) (simp add: abort_task_def spawn_task_def)
    ultimately show ?thesis by (simp add: task_ok_def)
  qed
  with step show ?thesis by (intro exI [of _ "abort_task ?s"]) (simp add: abort_task_def spawn_task_def)
qed

theorem aborted_before_first_poll_never_dies_witness:
  "\<exists>t. task_step clean_code fifo_mpsc (spawn_task (shared_new 5 ''Counter'' True) (sample_mailbox [] False) (\<lambda>_. None)) t \<and>
     tk_mailbox_dropped t \<and> lifecycle (tk_shared t) = Starting"
  using aborted_before_first_poll_never_dies [of clean_code fifo_mpsc 5 "''Counter''" True
      "sample_mailbox [] False" "\<lambda>_. None"]
  by blast


text \<open>The death of a captured actor can go unrecorded: an actor that failed, and whose task is aborted
  while its stop hook awaits, exits with its \<open>Spawned\<close> and its message captured and no \<open>Died\<close>, since
  the guard emits one only for the reason \<open>Aborted\<close>.\<close>

theorem death_not_captured:
  "\<exists>t. task_steps failing_code fifo_mpsc clean_task t \<and> tk_phase t = Exited \<and>
     ss_capture_sink (tk_shared t) \<and> termination_reason (tk_shared t) = Some (Failed ''broken'') \<and>
     length (captures (ss_log (tk_shared t))) = 2 \<and>
     list_all (\<lambda>e. \<not> is_died KindFailed e \<and> \<not> is_died KindAborted e) (captures (ss_log (tk_shared t)))"
proof -
  let ?t = "alone failing_code fifo_mpsc 5 (abort_task failing_stop)"
  have "suspended failing_code failing_stop"
    by (simp add: failing_defs eval_nat_numeral alone_Suc eval_task Let_def suspended_def)
  then have "task_steps failing_code fifo_mpsc failing_stop ?t"
    by (rule converse_rtranclp_into_rtranclp [OF task_step.Abort alone_steps])
  moreover have "task_steps failing_code fifo_mpsc clean_task failing_stop"
    unfolding failing_stop_def failed_task_def by (rule rtranclp_trans [OF alone_steps alone_steps])
  ultimately have "task_steps failing_code fifo_mpsc clean_task ?t" by (rule rtranclp_trans [rotated])
  moreover have "tk_phase ?t = Exited \<and> ss_capture_sink (tk_shared ?t) \<and>
      termination_reason (tk_shared ?t) = Some (Failed ''broken'') \<and>
      length (captures (ss_log (tk_shared ?t))) = 2 \<and>
      list_all (\<lambda>e. \<not> is_died KindFailed e \<and> \<not> is_died KindAborted e) (captures (ss_log (tk_shared ?t)))"
    by (simp add: failing_defs eval_nat_numeral alone_Suc eval_task Let_def abort_task_def)
  ultimately show ?thesis by blast
qed

text \<open>A watcher can be left without its signal: a task aborted while it waits for room in a watcher's
  mailbox has already taken the subscriptions, so the guard finds none and the actor dies with a
  clean reason, the watcher subscribed and alive, and nothing sent, whatever the delivery policy.\<close>

theorem signal_lost_on_abort:
  "\<exists>t0 t. task_steps clean_code fifo_mpsc (sample_spawn [] True (sample_watcher 1 [(0, tm)])) t0 \<and>
     ss_subscriptions (tk_shared t0) = [sample_watch Always] \<and>
     task_steps clean_code fifo_mpsc t0 t \<and> tk_phase t = Exited \<and>
     termination_reason (tk_shared t) = Some Finished \<and> tk_watchers t 7 \<noteq> None \<and>
     signals (ss_log (tk_shared t)) = []"
proof -
  let ?s = "sample_spawn [] True (sample_watcher 1 [(0, tm)])"
  let ?begun = "watch_task (sample_watch Always) ?s"
  let ?waiting = "alone clean_code fifo_mpsc 10 ?begun"
  let ?t = "alone clean_code fifo_mpsc 5 (abort_task ?waiting)"
  note eval = watched_defs sample_defs eval_nat_numeral alone_Suc eval_task Let_def
    add_subscription_def poll_send_def prepare_send_def no_priority_router_def set_lane_def
    delivery_result_def has_room_def suspended_def abort_task_def
  have "suspended clean_code ?waiting" by (simp add: eval)
  then have "task_steps clean_code fifo_mpsc ?waiting ?t"
    by (rule converse_rtranclp_into_rtranclp [OF task_step.Abort alone_steps])
  then have "task_steps clean_code fifo_mpsc ?begun ?t"
    by (rule rtranclp_trans [OF alone_steps])
  moreover have "task_steps clean_code fifo_mpsc ?s ?begun" by (rule r_into_rtranclp, rule task_step.Watch)
  moreover have "ss_subscriptions (tk_shared ?begun) = [sample_watch Always]" "tk_phase ?t = Exited"
    "termination_reason (tk_shared ?t) = Some Finished" "tk_watchers ?t 7 \<noteq> None"
    "signals (ss_log (tk_shared ?t)) = []"
    by (simp_all add: eval)
  ultimately show ?thesis by blast
qed

end
