(* ===== verification/Capture_Sink.thy ===== *)
theory Capture_Sink
  imports Actor_State Segment_Times Stream
begin

text \<open>
  The reference capture sink, \<open>crates/factories_capture_sink/src\<close>: the mapping of capture events
  onto encoder calls (\<open>encode.rs\<close>), a thread's segment under construction with its flush policy
  (\<open>buffer.rs\<close>), the clock (\<open>clock.rs\<close>), the shared writer (\<open>writer.rs\<close>) and the sink itself
  with its thread-local slots (\<open>sink.rs\<close>). What the hardware and the operating system return for
  a reading of the clock is an argument, and so is the \<open>Write\<close> the sink is created over.
\<close>

section \<open>Events onto encoder calls\<close>

text \<open>
  A \<open>usize\<close> is as wide as a \<open>u64\<close> here, so the conversion of an actor id is the identity and its
  assertion is not compiled in.
\<close>

definition actor_nz :: "actor_id \<Rightarrow> nz_u64" where
  "actor_nz a = a"

definition event_ref :: "EventId \<Rightarrow> EventRef" where
  "event_ref i = \<lparr>er_actor = actor_nz (ev_actor i), er_seq = ev_seq i\<rparr>"

fun dispatch_tag :: "Dispatch \<Rightarrow> u8" where
  "dispatch_tag Tell = 0"
| "dispatch_tag Ask = 1"

fun termination_tag :: "TerminationKind \<Rightarrow> u8" where
  "termination_tag KindFinished = 0"
| "termination_tag KindFailed = 1"
| "termination_tag KindAborted = 2"
| "termination_tag KindPanicked = 3"

definition str_bytes :: "string \<Rightarrow> rust_str" where
  "str_bytes s = map (\<lambda>c. of_nat (of_char c)) s"

fun encode_event :: "SegmentEncoder \<Rightarrow> u64 \<Rightarrow> CaptureEvent \<Rightarrow> SegmentEncoder" where
  "encode_event e tick (EvSpawned i actor_type parent caused_by) =
     spawned e tick (ev_seq i) (actor_nz (ev_actor i)) (str_bytes actor_type)
       (map_option actor_nz parent) (map_option event_ref caused_by)"
| "encode_event e tick (EvDied i actor_type reason caused_by) =
     died e tick (ev_seq i) (actor_nz (ev_actor i)) (str_bytes actor_type)
       (termination_tag reason) (map_option event_ref caused_by)"
| "encode_event e tick (EvMessage i from_actor to_actor message_type dispatch caused_by) =
     message e tick (ev_seq i) (actor_nz (ev_actor i)) (map_option actor_nz from_actor)
       (str_bytes message_type) (dispatch_tag dispatch) (map_option event_ref caused_by) []"

text \<open>What an event says on the wire, with the tick it was recorded at.\<close>

fun event_call :: "u64 \<Rightarrow> CaptureEvent \<Rightarrow> EncoderCall" where
  "event_call tick (EvSpawned i actor_type parent caused_by) =
     CallSpawned tick (ev_seq i) (ev_actor i) (str_bytes actor_type) parent (map_option event_ref caused_by)"
| "event_call tick (EvDied i actor_type reason caused_by) =
     CallDied tick (ev_seq i) (ev_actor i) (str_bytes actor_type) (termination_tag reason)
       (map_option event_ref caused_by)"
| "event_call tick (EvMessage i from_actor to_actor message_type dispatch caused_by) =
     CallMessage tick (ev_seq i) (ev_actor i) from_actor (str_bytes message_type)
       (dispatch_tag dispatch) (map_option event_ref caused_by) []"

text \<open>
  What the framework guarantees of an event: an actor id is never zero, the type names are
  UTF-8, a message is recorded by the actor it is sent to.
\<close>

definition ref_wf :: "EventId option \<Rightarrow> bool" where
  "ref_wf c \<longleftrightarrow> (case c of None \<Rightarrow> True | Some i \<Rightarrow> ev_actor i \<noteq> 0)"

fun event_wf :: "CaptureEvent \<Rightarrow> bool" where
  "event_wf (EvSpawned i t p c) \<longleftrightarrow>
     ev_actor i \<noteq> 0 \<and> p \<noteq> Some 0 \<and> ref_wf c \<and> utf8_valid (str_bytes t)"
| "event_wf (EvDied i t r c) \<longleftrightarrow> ev_actor i \<noteq> 0 \<and> ref_wf c \<and> utf8_valid (str_bytes t)"
| "event_wf (EvMessage i f to_actor t d c) \<longleftrightarrow>
     ev_actor i \<noteq> 0 \<and> f \<noteq> Some 0 \<and> to_actor = ev_actor i \<and> ref_wf c \<and> utf8_valid (str_bytes t)"

lemma map_actor_nz [simp]: "map_option actor_nz x = x"
  by (simp add: actor_nz_def option.map_ident_strong)

lemma encode_event_call: "encode_event e tick ev = apply_call (event_call tick ev) e"
  by (cases ev) (simp_all add: actor_nz_def option.map_ident)

lemma event_call_tick [simp]: "call_tick (event_call tick ev) = tick"
  by (cases ev) simp_all

lemma event_call_wf: "event_wf ev \<Longrightarrow> call_wf (event_call tick ev)"
  by (cases ev) (auto simp: ref_wf_def cause_wf_def event_ref_def actor_nz_def split: option.splits)

text \<open>The wire keeps every field of a well-formed event: two events with the same call are the same.\<close>

lemma tags_inject [simp]:
  "dispatch_tag d = dispatch_tag d' \<longleftrightarrow> d = d'"
  "termination_tag k = termination_tag k' \<longleftrightarrow> k = k'"
  by (cases d; cases d'; simp) (cases k; cases k'; simp)

lemma str_bytes_inject [simp]: "str_bytes s = str_bytes t \<longleftrightarrow> s = t"
proof -
  have "unat (of_nat (of_char c) :: u8) = of_char c" for c
    by (simp add: unat_of_nat take_bit_eq_mod)
  then have "inj (\<lambda>c. of_nat (of_char c) :: u8)"
    by (intro injI) (metis of_char_eq_iff)
  then show ?thesis by (simp add: str_bytes_def inj_map_eq_map)
qed

lemma event_call_inject:
  "event_wf ev \<Longrightarrow> event_wf ev' \<Longrightarrow> event_call tick ev = event_call tick' ev' \<longleftrightarrow> tick = tick' \<and> ev = ev'"
proof -
  have "event_ref i = event_ref j \<longleftrightarrow> i = j" for i j
    by (auto simp: event_ref_def actor_nz_def intro: EventId.equality)
  then have ref: "inj event_ref" by (intro injI) simp
  show "event_wf ev \<Longrightarrow> event_wf ev' \<Longrightarrow> ?thesis"
    by (cases ev; cases ev')
      (auto simp: inj_eq [OF option.inj_map [OF ref]] intro: EventId.equality)
qed

section \<open>The segment buffer\<close>

record SegmentBuffer =
  sb_encoder :: "SegmentEncoder option"
  sb_open_tick :: u64
  sb_size_threshold :: nat
  sb_max_age_ticks :: u64

definition buffer_new :: "nat \<Rightarrow> u64 \<Rightarrow> SegmentBuffer" where
  "buffer_new size_threshold max_age_ticks =
     \<lparr>sb_encoder = None, sb_open_tick = 0, sb_size_threshold = size_threshold,
      sb_max_age_ticks = max_age_ticks\<rparr>"

definition buffer_is_open :: "SegmentBuffer \<Rightarrow> bool" where
  "buffer_is_open b = (case sb_encoder b of Some _ \<Rightarrow> True | None \<Rightarrow> False)"

definition buffer_open :: "SegmentAnchor \<Rightarrow> SegmentBuffer \<Rightarrow> SegmentBuffer" where
  "buffer_open anchor b = b\<lparr>sb_open_tick := sa_tick anchor, sb_encoder := Some (encoder_new anchor)\<rparr>"

text \<open>
  \<open>encoder_mut\<close> lends the encoder out: what the borrower makes of it is the argument. A closed
  buffer panics here and in \<open>take\<close>.
\<close>

definition encoder_mut :: "(SegmentEncoder \<Rightarrow> SegmentEncoder) \<Rightarrow> SegmentBuffer \<Rightarrow> (unit, SegmentBuffer) outcome" where
  "encoder_mut f b =
     (case sb_encoder b of
        None \<Rightarrow> Inl Panic
      | Some e \<Rightarrow> Inr (b\<lparr>sb_encoder := Some (f e)\<rparr>))"

definition should_flush :: "SegmentBuffer \<Rightarrow> u64 \<Rightarrow> bool" where
  "should_flush b tick =
     (case sb_encoder b of
        None \<Rightarrow> False
      | Some e \<Rightarrow> sb_size_threshold b \<le> encoded_len e \<or>
                  sb_max_age_ticks b \<le> saturating_sub tick (sb_open_tick b))"

definition buffer_take :: "u64 \<Rightarrow> u64 \<Rightarrow> SegmentBuffer \<Rightarrow> (unit, u8 list \<times> SegmentBuffer) outcome" where
  "buffer_take close_mono_micros close_tick b =
     (case sb_encoder b of
        None \<Rightarrow> Inl Panic
      | Some e \<Rightarrow> Inr (finish e close_mono_micros close_tick, b\<lparr>sb_encoder := None\<rparr>))"

section \<open>The clock\<close>

text \<open>
  What a reading returns: the micros since the Unix epoch (none for a system clock set before
  it), the monotonic instant in nanoseconds, and the two architectural counters. The target and
  the \<open>arch-clock\<close> feature are of the build.
\<close>

datatype Arch = X86_64 | Aarch64 | OtherArch

record Build =
  bd_arch :: Arch
  bd_arch_clock :: bool

record Reading =
  rd_unix_micros :: "nat option"
  rd_instant :: nat
  rd_tsc :: u64
  rd_cntvct :: u64

record Clock =
  ck_mode :: ClockMode
  ck_epoch :: nat

definition clock_monotonic :: "Reading \<Rightarrow> Clock" where
  "clock_monotonic r = \<lparr>ck_mode = Monotonic, ck_epoch = rd_instant r\<rparr>"

definition clock_detect :: "Build \<Rightarrow> bool \<Rightarrow> Reading \<Rightarrow> Clock" where
  "clock_detect bd invariant_tsc r =
     \<lparr>ck_mode = (if bd_arch_clock bd \<and> bd_arch bd = X86_64 \<and> invariant_tsc then Tsc
                 else if bd_arch_clock bd \<and> bd_arch bd = Aarch64 then Cntvct
                 else Monotonic),
      ck_epoch = rd_instant r\<rparr>"

definition elapsed_nanos :: "Clock \<Rightarrow> Reading \<Rightarrow> nat" where
  "elapsed_nanos c r = rd_instant r - ck_epoch c"

definition clock_now :: "Build \<Rightarrow> Clock \<Rightarrow> Reading \<Rightarrow> u64" where
  "clock_now bd c r =
     (if ck_mode c = Tsc \<and> bd_arch_clock bd \<and> bd_arch bd = X86_64 then rd_tsc r
      else if ck_mode c = Cntvct \<and> bd_arch_clock bd \<and> bd_arch bd = Aarch64 then rd_cntvct r
      else of_nat (elapsed_nanos c r))"

text \<open>The three readings of \<open>anchors\<close> are taken one after the other.\<close>

definition clock_anchors :: "Build \<Rightarrow> Clock \<Rightarrow> Reading \<Rightarrow> Reading \<Rightarrow> Reading \<Rightarrow> u64 \<times> u64 \<times> u64" where
  "clock_anchors bd c r1 r2 r3 =
     (case rd_unix_micros r1 of Some us \<Rightarrow> of_nat us | None \<Rightarrow> 0,
      of_nat (elapsed_nanos c r2 div 1000),
      clock_now bd c r3)"

section \<open>The shared writer\<close>

text \<open>
  The writer is a \<open>BufWriter\<close> over the user's \<open>Write\<close>, any state with two operations; each
  returns whether it succeeded, and the sink ignores it. The lock is recovered when poisoned, so
  it never fails.
\<close>

record 'w writer_ops =
  wo_write_all :: "u8 list \<Rightarrow> 'w \<Rightarrow> bool \<times> 'w"
  wo_flush :: "'w \<Rightarrow> bool \<times> 'w"

definition sink_writer_new :: "'w writer_ops \<Rightarrow> 'w \<Rightarrow> 'w" where
  "sink_writer_new io w = snd (wo_write_all io (write_stream_header []) w)"

definition write_segment :: "'w writer_ops \<Rightarrow> u8 list \<Rightarrow> 'w \<Rightarrow> 'w" where
  "write_segment io bytes w = snd (wo_write_all io bytes w)"

definition writer_flush :: "'w writer_ops \<Rightarrow> 'w \<Rightarrow> 'w" where
  "writer_flush io w = snd (wo_flush io w)"

section \<open>The sink\<close>

text \<open>
  The sinks of a process share the counter of their ids; each owns a writer, named by its place
  in the list of writers. A thread keeps one slot per sink it has recorded to.
\<close>

definition DEFAULT_SIZE_THRESHOLD :: nat where
  "DEFAULT_SIZE_THRESHOLD = 64 * 1024"

record BufferedCaptureSink =
  bs_id :: u64
  bs_clock :: Clock
  bs_writer :: nat
  bs_size_threshold :: nat
  bs_max_age_ticks :: u64

record ThreadSlot =
  ts_sink_id :: u64
  ts_buffer :: SegmentBuffer
  ts_writer :: nat
  ts_clock :: Clock

type_synonym thread = nat

record 'w capture_world =
  cw_next_id :: u64
  cw_sinks :: "BufferedCaptureSink list"
  cw_writers :: "'w list"
  cw_slots :: "thread \<Rightarrow> ThreadSlot list"

definition capture_start :: "'w capture_world" where
  "capture_start = \<lparr>cw_next_id = 0, cw_sinks = [], cw_writers = [], cw_slots = (\<lambda>_. [])\<rparr>"

definition with_thresholds :: "Build \<Rightarrow> 'w writer_ops \<Rightarrow> bool \<Rightarrow> Reading \<Rightarrow> 'w \<Rightarrow> nat \<Rightarrow> u64 \<Rightarrow>
    'w capture_world \<Rightarrow> 'w capture_world" where
  "with_thresholds bd io invariant_tsc r writer size_threshold max_age_ticks w =
     w\<lparr>cw_next_id := cw_next_id w + 1,
       cw_sinks := cw_sinks w @
         [\<lparr>bs_id = cw_next_id w, bs_clock = clock_detect bd invariant_tsc r,
           bs_writer = length (cw_writers w), bs_size_threshold = size_threshold,
           bs_max_age_ticks = max_age_ticks\<rparr>],
       cw_writers := cw_writers w @ [sink_writer_new io writer]\<rparr>"

definition sink_new :: "Build \<Rightarrow> 'w writer_ops \<Rightarrow> bool \<Rightarrow> Reading \<Rightarrow> 'w \<Rightarrow> 'w capture_world \<Rightarrow> 'w capture_world" where
  "sink_new bd io invariant_tsc r writer =
     with_thresholds bd io invariant_tsc r writer DEFAULT_SIZE_THRESHOLD (- 1)"

definition open_anchor :: "Build \<Rightarrow> BufferedCaptureSink \<Rightarrow> Reading \<Rightarrow> Reading \<Rightarrow> Reading \<Rightarrow> SegmentAnchor" where
  "open_anchor bd sink r1 r2 r3 =
     (case clock_anchors bd (bs_clock sink) r1 r2 r3 of
        (unix_micros, mono_micros, tick) \<Rightarrow>
          \<lparr>sa_mode = ck_mode (bs_clock sink), sa_unix_micros = unix_micros,
           sa_mono_micros = mono_micros, sa_tick = tick\<rparr>)"

definition append_to :: "'w writer_ops \<Rightarrow> nat \<Rightarrow> u8 list \<Rightarrow> 'w list \<Rightarrow> 'w list" where
  "append_to io i bytes ws = ws[i := write_segment io bytes (ws ! i)]"

text \<open>Finishing a slot's open segment with the readings of the close, and writing it.\<close>

definition close_segment :: "Build \<Rightarrow> 'w writer_ops \<Rightarrow> Clock \<Rightarrow> nat \<Rightarrow> (nat \<Rightarrow> Reading) \<Rightarrow>
    SegmentBuffer \<Rightarrow> 'w list \<Rightarrow> (unit, SegmentBuffer \<times> 'w list) outcome" where
  "close_segment bd io c writer rd b ws =
     (case clock_anchors bd c (rd 0) (rd 1) (rd 2) of
        (_, close_mono, close_tick) \<Rightarrow>
          and_then (buffer_take close_mono close_tick b)
            (\<lambda>(bytes, b'). Inr (b', append_to io writer bytes ws)))"

text \<open>
  The slot of a sink on a thread: the first with its id, or one pushed at the end.
\<close>

definition find_slot :: "BufferedCaptureSink \<Rightarrow> ThreadSlot list \<Rightarrow> nat option" where
  "find_slot sink slots = position (\<lambda>slot. ts_sink_id slot = bs_id sink) slots"

definition slot_or_push :: "BufferedCaptureSink \<Rightarrow> ThreadSlot list \<Rightarrow> nat \<times> ThreadSlot list" where
  "slot_or_push sink slots =
     (case find_slot sink slots of
        Some i \<Rightarrow> (i, slots)
      | None \<Rightarrow> (length slots, slots @
          [\<lparr>ts_sink_id = bs_id sink,
            ts_buffer = buffer_new (bs_size_threshold sink) (bs_max_age_ticks sink),
            ts_writer = bs_writer sink, ts_clock = bs_clock sink\<rparr>]))"

text \<open>
  What \<open>record\<close> does with the slot. Reading 0 is the event's tick, 1 to 3 are those of the
  anchor, where a segment is opened, and 4 to 6 those of the close.
\<close>

definition record_into :: "Build \<Rightarrow> 'w writer_ops \<Rightarrow> BufferedCaptureSink \<Rightarrow> CaptureEvent \<Rightarrow>
    (nat \<Rightarrow> Reading) \<Rightarrow> ThreadSlot \<Rightarrow> 'w list \<Rightarrow> (unit, ThreadSlot \<times> 'w list) outcome" where
  "record_into bd io sink event rd slot ws =
     (let tick = clock_now bd (bs_clock sink) (rd 0);
          b = (if buffer_is_open (ts_buffer slot) then ts_buffer slot
               else buffer_open (open_anchor bd sink (rd 1) (rd 2) (rd 3)) (ts_buffer slot))
      in and_then (encoder_mut (\<lambda>e. encode_event e tick event) b) (\<lambda>b1.
           if should_flush b1 tick
           then and_then (close_segment bd io (bs_clock sink) (bs_writer sink) (\<lambda>i. rd (i + 4)) b1 ws)
                  (\<lambda>(b2, ws'). Inr (slot\<lparr>ts_buffer := b2\<rparr>, ws'))
           else Inr (slot\<lparr>ts_buffer := b1\<rparr>, ws)))"

definition sink_record :: "Build \<Rightarrow> 'w writer_ops \<Rightarrow> thread \<Rightarrow> BufferedCaptureSink \<Rightarrow> CaptureEvent \<Rightarrow>
    (nat \<Rightarrow> Reading) \<Rightarrow> 'w capture_world \<Rightarrow> (unit, 'w capture_world) outcome" where
  "sink_record bd io thr sink event rd w =
     (case slot_or_push sink (cw_slots w thr) of
        (i, slots) \<Rightarrow>
          and_then (record_into bd io sink event rd (slots ! i) (cw_writers w))
            (\<lambda>(slot, ws). Inr (w\<lparr>cw_writers := ws, cw_slots := (cw_slots w)(thr := slots[i := slot])\<rparr>)))"

definition sink_flush :: "Build \<Rightarrow> 'w writer_ops \<Rightarrow> thread \<Rightarrow> BufferedCaptureSink \<Rightarrow>
    (nat \<Rightarrow> Reading) \<Rightarrow> 'w capture_world \<Rightarrow> (unit, 'w capture_world) outcome" where
  "sink_flush bd io thr sink rd w =
     and_then
       (case find_slot sink (cw_slots w thr) of
          Some i \<Rightarrow>
            (let slot = cw_slots w thr ! i
             in if buffer_is_open (ts_buffer slot)
                then and_then (close_segment bd io (bs_clock sink) (bs_writer sink) rd (ts_buffer slot)
                         (cw_writers w))
                       (\<lambda>(b, ws). Inr (w\<lparr>cw_writers := ws,
                          cw_slots := (cw_slots w)(thr := (cw_slots w thr)[i := slot\<lparr>ts_buffer := b\<rparr>])\<rparr>))
                else Inr w)
        | None \<Rightarrow> Inr w)
       (\<lambda>w'. Inr (w'\<lparr>cw_writers := (cw_writers w')[bs_writer sink := writer_flush io (cw_writers w' ! bs_writer sink)]\<rparr>))"

text \<open>A thread's exit drops its slots in order; the drop of an open one flushes it.\<close>

definition slot_drop :: "Build \<Rightarrow> 'w writer_ops \<Rightarrow> (nat \<Rightarrow> Reading) \<Rightarrow> ThreadSlot \<Rightarrow> 'w list \<Rightarrow>
    (unit, 'w list) outcome" where
  "slot_drop bd io rd slot ws =
     (if buffer_is_open (ts_buffer slot)
      then and_then (close_segment bd io (ts_clock slot) (ts_writer slot) rd (ts_buffer slot) ws)
             (\<lambda>(b, ws'). Inr ws')
      else Inr ws)"

fun drop_slots :: "Build \<Rightarrow> 'w writer_ops \<Rightarrow> (nat \<Rightarrow> Reading) \<Rightarrow> ThreadSlot list \<Rightarrow> 'w list \<Rightarrow>
    (unit, 'w list) outcome" where
  "drop_slots bd io rd [] ws = Inr ws"
| "drop_slots bd io rd (slot # slots) ws =
     and_then (slot_drop bd io rd slot ws) (drop_slots bd io (\<lambda>i. rd (i + 3)) slots)"

definition thread_exit :: "Build \<Rightarrow> 'w writer_ops \<Rightarrow> thread \<Rightarrow> (nat \<Rightarrow> Reading) \<Rightarrow> 'w capture_world \<Rightarrow>
    (unit, 'w capture_world) outcome" where
  "thread_exit bd io thr rd w =
     and_then (drop_slots bd io rd (cw_slots w thr) (cw_writers w))
       (\<lambda>ws. Inr (w\<lparr>cw_writers := ws, cw_slots := (cw_slots w)(thr := [])\<rparr>))"

text \<open>A run of the process: threads record to the sinks, flush them and exit, in any order.\<close>

datatype capture_act =
    RecordEvent thread nat CaptureEvent "nat \<Rightarrow> Reading"
  | FlushSink thread nat "nat \<Rightarrow> Reading"
  | ThreadExit thread "nat \<Rightarrow> Reading"

fun capture_step :: "Build \<Rightarrow> 'w writer_ops \<Rightarrow> capture_act \<Rightarrow> 'w capture_world \<Rightarrow>
    (unit, 'w capture_world) outcome" where
  "capture_step bd io (RecordEvent thr k event rd) w = sink_record bd io thr (cw_sinks w ! k) event rd w"
| "capture_step bd io (FlushSink thr k rd) w = sink_flush bd io thr (cw_sinks w ! k) rd w"
| "capture_step bd io (ThreadExit thr rd) w = thread_exit bd io thr rd w"

fun capture_run :: "Build \<Rightarrow> 'w writer_ops \<Rightarrow> capture_act list \<Rightarrow> 'w capture_world \<Rightarrow>
    (unit, 'w capture_world) outcome" where
  "capture_run bd io [] w = Inr w"
| "capture_run bd io (a # as) w = and_then (capture_step bd io a w) (capture_run bd io as)"

end
