(* ===== verification/Capture_Story.thy ===== *)
theory Capture_Story
  imports Capture_Sink
begin

text \<open>
  The capture sink against its abstract machine: per sink the finished segments in the order of
  the stream, each with the thread that recorded it, and per thread and sink the segment under
  construction. \<open>world_ok\<close> relates the slots and writers to it, the lemmas on \<open>sink_record\<close>,
  \<open>sink_flush\<close> and \<open>thread_exit\<close> are the simulation, and \<open>history\<close> is what one thread told one
  sink, which only grows by what it records.
\<close>

section \<open>The writer's contract\<close>

text \<open>
  A writer that keeps all it is given: \<open>contents\<close> are the bytes handed over so far, wherever they
  are, in the buffer or below it.
\<close>

locale byte_writer =
  fixes io :: "'w writer_ops" and contents :: "'w \<Rightarrow> u8 list"
  assumes contents_write_all: "contents (snd (wo_write_all io bs w)) = contents w @ bs"
    and contents_flush: "contents (snd (wo_flush io w)) = contents w"
begin

lemma contents_new: "contents (sink_writer_new io w) = contents w @ write_stream_header []"
  by (simp add: sink_writer_new_def contents_write_all)

lemma contents_segment: "contents (write_segment io bs w) = contents w @ bs"
  by (simp add: write_segment_def contents_write_all)

lemma contents_writer_flush: "contents (writer_flush io w) = contents w"
  by (simp add: writer_flush_def contents_flush)

end

text \<open>
  \<open>BufWriter\<close> over a byte vector: a write that fits the spare capacity is copied, a longer one
  first pushes the buffer down, and is written through where it would fill the whole buffer.
\<close>

record BufWriter =
  bw_inner :: "u8 list"
  bw_buf :: "u8 list"
  bw_capacity :: nat

definition flush_buf :: "BufWriter \<Rightarrow> BufWriter" where
  "flush_buf w = w\<lparr>bw_inner := bw_inner w @ bw_buf w, bw_buf := []\<rparr>"

definition buf_write_all :: "u8 list \<Rightarrow> BufWriter \<Rightarrow> bool \<times> BufWriter" where
  "buf_write_all bs w =
     (if length bs < bw_capacity w - length (bw_buf w) then (True, w\<lparr>bw_buf := bw_buf w @ bs\<rparr>)
      else (let w' = (if bw_capacity w < length (bw_buf w) + length bs then flush_buf w else w)
            in if bw_capacity w' \<le> length bs
               then (True, w'\<lparr>bw_inner := bw_inner w' @ bs\<rparr>)
               else (True, w'\<lparr>bw_buf := bw_buf w' @ bs\<rparr>)))"

definition vec_writer :: "BufWriter writer_ops" where
  "vec_writer = \<lparr>wo_write_all = buf_write_all, wo_flush = (\<lambda>w. (True, flush_buf w))\<rparr>"

definition vec_contents :: "BufWriter \<Rightarrow> u8 list" where
  "vec_contents w = bw_inner w @ bw_buf w"

definition vec_new :: "nat \<Rightarrow> BufWriter" where
  "vec_new capacity = \<lparr>bw_inner = [], bw_buf = [], bw_capacity = capacity\<rparr>"

interpretation vec: byte_writer vec_writer vec_contents
proof
  fix bs :: "u8 list" and w :: BufWriter
  have "bw_buf w = []" if "\<not> bw_capacity w < length (bw_buf w) + length bs" "bw_capacity w \<le> length bs"
    using that by (cases "bw_buf w") auto
  then show "vec_contents (snd (wo_write_all vec_writer bs w)) = vec_contents w @ bs"
    by (auto simp: vec_contents_def vec_writer_def buf_write_all_def flush_buf_def Let_def)
  show "vec_contents (snd (wo_flush vec_writer w)) = vec_contents w"
    by (simp add: vec_contents_def vec_writer_def flush_buf_def)
qed

section \<open>The abstract machine\<close>

record capture_ghost =
  cg_done :: "nat \<Rightarrow> (thread \<times> SegmentSpec) list"
  cg_open :: "thread \<Rightarrow> nat \<Rightarrow> (SegmentAnchor \<times> EncoderCall list) option"

definition ghost_start :: capture_ghost where
  "ghost_start = \<lparr>cg_done = (\<lambda>_. []), cg_open = (\<lambda>_ _. None)\<rparr>"

fun built :: "SegmentAnchor \<times> EncoderCall list \<Rightarrow> SegmentEncoder" where
  "built (a, cs) = run_ops (map Call cs) (encoder_new a)"

fun spec_calls :: "SegmentSpec \<Rightarrow> EncoderCall list" where
  "spec_calls (a, ops, cm, ct) = ops_calls ops"

definition open_calls :: "(SegmentAnchor \<times> EncoderCall list) option \<Rightarrow> EncoderCall list" where
  "open_calls x = (case x of None \<Rightarrow> [] | Some (a, cs) \<Rightarrow> cs)"

definition of_thread :: "thread \<Rightarrow> (thread \<times> SegmentSpec) list \<Rightarrow> EncoderCall list" where
  "of_thread thr done_segs = concat (map (spec_calls \<circ> snd) (filter (\<lambda>x. fst x = thr) done_segs))"

definition history :: "capture_ghost \<Rightarrow> thread \<Rightarrow> nat \<Rightarrow> EncoderCall list" where
  "history g thr k = of_thread thr (cg_done g k) @ open_calls (cg_open g thr k)"

definition ghost_add :: "thread \<Rightarrow> nat \<Rightarrow> SegmentAnchor \<Rightarrow> EncoderCall \<Rightarrow> capture_ghost \<Rightarrow> capture_ghost" where
  "ghost_add thr k a c g =
     g\<lparr>cg_open := (cg_open g)(thr := (cg_open g thr)(k :=
         Some (case cg_open g thr k of None \<Rightarrow> (a, [c]) | Some (a', cs) \<Rightarrow> (a', cs @ [c]))))\<rparr>"

definition ghost_close :: "thread \<Rightarrow> nat \<Rightarrow> u64 \<Rightarrow> u64 \<Rightarrow> capture_ghost \<Rightarrow> capture_ghost" where
  "ghost_close thr k cm ct g =
     (case cg_open g thr k of
        None \<Rightarrow> g
      | Some (a, cs) \<Rightarrow>
          g\<lparr>cg_done := (cg_done g)(k := cg_done g k @ [(thr, (a, map Call cs, cm, ct))]),
            cg_open := (cg_open g)(thr := (cg_open g thr)(k := None))\<rparr>)"

lemma ops_calls_map_Call [simp]: "ops_calls (map Call cs) = cs"
  by (induction cs) auto

lemma of_thread_simps [simp]:
  "of_thread thr [] = []"
  "of_thread thr (xs @ [(thr', spec)]) = of_thread thr xs @ (if thr' = thr then spec_calls spec else [])"
  by (simp_all add: of_thread_def)

lemma open_calls_simps [simp]: "open_calls None = []" "open_calls (Some (a, cs)) = cs"
  by (simp_all add: open_calls_def)

lemma history_start [simp]: "history ghost_start thr k = []"
  by (simp add: history_def ghost_start_def)

lemma history_add:
  "history (ghost_add thr k a c g) thr' k' =
     history g thr' k' @ (if thr' = thr \<and> k' = k then [c] else [])"
  by (auto simp: history_def ghost_add_def open_calls_def split: option.split)

lemma history_close [simp]: "history (ghost_close thr k cm ct g) = history g"
  by (intro ext) (auto simp: history_def ghost_close_def split: option.split)

lemma run_ops_single [simp]: "run_ops [op] e = apply_op op e"
  by (simp add: run_ops_def)

lemma built_snoc: "built (a, cs @ [c]) = apply_call c (built (a, cs))"
  by simp

section \<open>The flush policy\<close>

text \<open>
  A segment under construction has a call, and stays under the threshold until its last: with
  \<open>small\<close> for all its calls it is still open, with \<open>small\<close> for all but the last it is finished.
\<close>

definition small :: "nat \<Rightarrow> SegmentAnchor \<Rightarrow> EncoderCall list \<Rightarrow> bool" where
  "small threshold a cs \<longleftrightarrow> cs = [] \<or> encoded_len (built (a, cs)) < threshold"

fun segment_policy :: "nat \<Rightarrow> SegmentSpec \<Rightarrow> bool" where
  "segment_policy threshold (a, ops, cm, ct) \<longleftrightarrow>
     (\<exists>cs c. ops = map Call (cs @ [c]) \<and> small threshold a cs \<and> list_all call_wf (cs @ [c]))"

definition open_policy :: "nat \<Rightarrow> (SegmentAnchor \<times> EncoderCall list) option \<Rightarrow> bool" where
  "open_policy threshold x \<longleftrightarrow>
     (case x of None \<Rightarrow> True | Some (a, cs) \<Rightarrow> cs \<noteq> [] \<and> small threshold a cs \<and> list_all call_wf cs)"

text \<open>Between the call that fills a segment and its flush only the calls before are under the threshold.\<close>

definition filling_policy :: "nat \<Rightarrow> (SegmentAnchor \<times> EncoderCall list) option \<Rightarrow> bool" where
  "filling_policy threshold x \<longleftrightarrow>
     (case x of None \<Rightarrow> True | Some (a, cs) \<Rightarrow>
        \<exists>cs' c. cs = cs' @ [c] \<and> small threshold a cs' \<and> list_all call_wf cs)"

lemma encoded_len_call: "encoded_len e \<le> encoded_len (apply_call c e)"
  by (simp add: encoded_len_def apply_call_fields)

lemma small_butlast: "small n a (cs @ [c]) \<Longrightarrow> small n a cs"
  using encoded_len_call [of "built (a, cs)" c] by (simp add: small_def)

lemma open_filling: "open_policy n x \<Longrightarrow> filling_policy n x"
proof (cases x)
  case (Some y)
  assume "open_policy n x"
  moreover obtain a cs where y: "y = (a, cs)" by (cases y)
  ultimately have *: "cs \<noteq> []" "small n a cs" "list_all call_wf cs"
    using Some by (simp_all add: open_policy_def)
  obtain cs' c where "cs = cs' @ [c]" using *(1) by (cases cs rule: rev_cases) auto
  then show ?thesis using * Some y small_butlast by (auto simp: filling_policy_def)
qed (simp add: filling_policy_def)

lemma filling_add:
  "open_policy n (cg_open g thr k) \<Longrightarrow> call_wf c \<Longrightarrow>
     filling_policy n (cg_open (ghost_add thr k a c g) thr k)"
  by (auto simp: filling_policy_def open_policy_def ghost_add_def small_def split: option.splits)

section \<open>The simulation relation\<close>

definition sinks_ok :: "BufferedCaptureSink list \<Rightarrow> bool" where
  "sinks_ok sinks \<longleftrightarrow>
     (\<forall>k < length sinks. unat (bs_id (sinks ! k)) = k \<and> bs_writer (sinks ! k) = k)"

definition slot_ok :: "BufferedCaptureSink list \<Rightarrow> (nat \<Rightarrow> (SegmentAnchor \<times> EncoderCall list) option) \<Rightarrow>
    ThreadSlot \<Rightarrow> bool" where
  "slot_ok sinks opn slot \<longleftrightarrow>
     (let k = unat (ts_sink_id slot)
      in k < length sinks \<and> ts_writer slot = k \<and> ts_clock slot = bs_clock (sinks ! k) \<and>
         sb_size_threshold (ts_buffer slot) = bs_size_threshold (sinks ! k) \<and>
         sb_encoder (ts_buffer slot) = map_option built (opn k))"

definition slots_ok :: "BufferedCaptureSink list \<Rightarrow> (nat \<Rightarrow> (SegmentAnchor \<times> EncoderCall list) option) \<Rightarrow>
    ThreadSlot list \<Rightarrow> bool" where
  "slots_ok sinks opn slots \<longleftrightarrow>
     distinct (map ts_sink_id slots) \<and> list_all (slot_ok sinks opn) slots \<and>
     (\<forall>k. opn k \<noteq> None \<longrightarrow> k \<in> unat ` ts_sink_id ` set slots)"

lemma find_slot_None:
  assumes "sinks_ok sinks" "k < length sinks" "slots_ok sinks opn slots"
    and "find_slot (sinks ! k) slots = None"
  shows "k \<notin> unat ` ts_sink_id ` set slots" "opn k = None"
proof -
  have "unat (bs_id (sinks ! k)) = k" using assms(1,2) by (simp add: sinks_ok_def)
  then show "k \<notin> unat ` ts_sink_id ` set slots"
    using assms(4) unfolding find_slot_def position_None_iff by (metis (no_types, lifting) imageE unsigned_word_eqI)
  then show "opn k = None" using assms(3) unfolding slots_ok_def by blast
qed

lemma find_slot_Some:
  assumes "sinks_ok sinks" "k < length sinks" "find_slot (sinks ! k) slots = Some i"
  shows "i < length slots" "unat (ts_sink_id (slots ! i)) = k"
  using assms by (auto simp: find_slot_def sinks_ok_def dest: position_Some)

lemma slots_ok_push:
  assumes "sinks_ok sinks" "k < length sinks" "slots_ok sinks opn slots"
    and "slot_or_push (sinks ! k) slots = (i, slots')"
  shows "slots_ok sinks opn slots'" "i < length slots'" "unat (ts_sink_id (slots' ! i)) = k"
proof -
  have id: "unat (bs_id (sinks ! k)) = k" "bs_writer (sinks ! k) = k"
    using assms(1,2) by (simp_all add: sinks_ok_def)
  show "slots_ok sinks opn slots'" "i < length slots'" "unat (ts_sink_id (slots' ! i)) = k"
    using assms(3,4) find_slot_Some [OF assms(1,2)] find_slot_None [OF assms(1-3)] id assms(2)
    by (auto simp: slot_or_push_def slots_ok_def slot_ok_def buffer_new_def Let_def
        split: option.splits)
qed

lemma slots_ok_update:
  assumes "slots_ok sinks opn slots" "i < length slots" "unat (ts_sink_id (slots ! i)) = k"
    and "sb_encoder b = map_option built x"
    and "sb_size_threshold b = sb_size_threshold (ts_buffer (slots ! i))"
  shows "slots_ok sinks (opn(k := x)) (slots[i := (slots ! i)\<lparr>ts_buffer := b\<rparr>])"
proof -
  let ?slots = "slots[i := (slots ! i)\<lparr>ts_buffer := b\<rparr>]"
  have ids: "map ts_sink_id ?slots = map ts_sink_id slots"
    using assms(2) by (simp add: map_update list_update_same_conv)
  have "slot_ok sinks (opn(k := x)) (?slots ! j)" if "j < length slots" for j
  proof (cases "j = i")
    case True
    with assms that have "slot_ok sinks opn (slots ! i)" by (simp add: slots_ok_def list_all_length)
    with True assms that show ?thesis by (auto simp: slot_ok_def Let_def)
  next
    case False
    with assms(1,2) that have "ts_sink_id (slots ! j) \<noteq> ts_sink_id (slots ! i)"
      by (simp add: slots_ok_def distinct_conv_nth)
    with assms(3) have "unat (ts_sink_id (slots ! j)) \<noteq> k" by (metis unsigned_word_eqI)
    with False assms(1) that show ?thesis by (simp add: slots_ok_def slot_ok_def list_all_length Let_def)
  qed
  moreover have "unat ` ts_sink_id ` set ?slots = unat ` ts_sink_id ` set slots"
    using arg_cong [OF ids, of set] by (simp only: set_map) 
  moreover have "k \<in> unat ` ts_sink_id ` set slots" using assms(2,3) by force
  ultimately show ?thesis
    using assms(1) ids by (simp add: slots_ok_def list_all_length)
qed

definition world_ok :: "('w \<Rightarrow> u8 list) \<Rightarrow> 'w capture_world \<Rightarrow> capture_ghost \<Rightarrow> bool" where
  "world_ok contents w g \<longleftrightarrow>
     sinks_ok (cw_sinks w) \<and> length (cw_writers w) = length (cw_sinks w) \<and>
     (\<forall>k < length (cw_sinks w).
        contents (cw_writers w ! k) =
          write_stream_header [] @ concat (map (spec_bytes \<circ> snd) (cg_done g k))) \<and>
     (\<forall>thr. slots_ok (cw_sinks w) (cg_open g thr) (cw_slots w thr))"

definition policy_ok :: "'w capture_world \<Rightarrow> capture_ghost \<Rightarrow> bool" where
  "policy_ok w g \<longleftrightarrow>
     (\<forall>k. list_all (segment_policy (bs_size_threshold (cw_sinks w ! k)) \<circ> snd) (cg_done g k) \<and>
        (\<forall>thr. open_policy (bs_size_threshold (cw_sinks w ! k)) (cg_open g thr k)))"

lemma slots_ok_none:
  "slots_ok sinks opn slots \<Longrightarrow> i < length slots \<Longrightarrow> unat (ts_sink_id (slots ! i)) = k \<Longrightarrow>
     k < length sinks \<and> sb_encoder (ts_buffer (slots ! i)) = map_option built (opn k) \<and>
     sb_size_threshold (ts_buffer (slots ! i)) = bs_size_threshold (sinks ! k) \<and>
     ts_writer (slots ! i) = k \<and> ts_clock (slots ! i) = bs_clock (sinks ! k)"
  by (auto simp: slots_ok_def slot_ok_def list_all_length Let_def)

text \<open>Closing a segment that is open in the abstract machine.\<close>

lemma filling_segment:
  "filling_policy n (cg_open g thr k) \<Longrightarrow> list_all (segment_policy n \<circ> snd) (cg_done g k) \<Longrightarrow>
     list_all (segment_policy n \<circ> snd) (cg_done (ghost_close thr k cm ct g) k)"
  by (auto simp: ghost_close_def filling_policy_def list_all_iff split: option.splits)

lemma ghost_close_other [simp]:
  "k' \<noteq> k \<Longrightarrow> cg_done (ghost_close thr k cm ct g) k' = cg_done g k'"
  "cg_open (ghost_close thr k cm ct g) thr k = None"
  "cg_open (ghost_close thr k cm ct g) thr = (cg_open g thr)(k := None)"
  "thr' \<noteq> thr \<Longrightarrow> cg_open (ghost_close thr k cm ct g) thr' = cg_open g thr'"
  by (auto simp: ghost_close_def split: option.split)

lemma ghost_add_simps [simp]:
  "cg_done (ghost_add thr k a c g) = cg_done g"
  "thr' \<noteq> thr \<Longrightarrow> cg_open (ghost_add thr k a c g) thr' = cg_open g thr'"
  "k' \<noteq> k \<Longrightarrow> cg_open (ghost_add thr k a c g) thr k' = cg_open g thr k'"
  by (auto simp: ghost_add_def)

text \<open>
  One slot with the writer of its sink, and a step of the abstract machine that touches no other
  slot and no other stream.
\<close>

definition slot_state :: "('w \<Rightarrow> u8 list) \<Rightarrow> nat \<Rightarrow> thread \<Rightarrow> nat \<Rightarrow> capture_ghost \<Rightarrow> SegmentBuffer \<Rightarrow>
    'w list \<Rightarrow> bool" where
  "slot_state contents n thr k g b ws \<longleftrightarrow>
     sb_encoder b = map_option built (cg_open g thr k) \<and> sb_size_threshold b = n \<and> k < length ws \<and>
     contents (ws ! k) = write_stream_header [] @ concat (map (spec_bytes \<circ> snd) (cg_done g k)) \<and>
     list_all (segment_policy n \<circ> snd) (cg_done g k)"

definition only_touches :: "thread \<Rightarrow> nat \<Rightarrow> capture_ghost \<times> 'w list \<Rightarrow> capture_ghost \<times> 'w list \<Rightarrow> bool" where
  "only_touches thr k = (\<lambda>(g, ws) (g', ws').
     length ws' = length ws \<and> (\<forall>k'. k' \<noteq> k \<longrightarrow> ws' ! k' = ws ! k' \<and> cg_done g' k' = cg_done g k') \<and>
     (\<forall>thr' k'. (thr', k') \<noteq> (thr, k) \<longrightarrow> cg_open g' thr' k' = cg_open g thr' k'))"

lemma only_touches_trans:
  "only_touches thr k x y \<Longrightarrow> only_touches thr k y z \<Longrightarrow> only_touches thr k x z"
  by (auto simp: only_touches_def)

lemma world_ok_slot:
  assumes "world_ok contents w g" "policy_ok w g" "k < length (cw_sinks w)"
    and "i < length (cw_slots w thr)" "unat (ts_sink_id (cw_slots w thr ! i)) = k"
  shows "slot_state contents (bs_size_threshold (cw_sinks w ! k)) thr k g
    (ts_buffer (cw_slots w thr ! i)) (cw_writers w)"
    "ts_writer (cw_slots w thr ! i) = k" "bs_writer (cw_sinks w ! k) = k"
  using assms slots_ok_none [OF _ assms(4,5), of "cw_sinks w" "cg_open g thr"]
  by (auto simp: world_ok_def policy_ok_def slot_state_def sinks_ok_def)

lemma world_ok_update:
  assumes "world_ok contents w g" "policy_ok w g" "k < length (cw_sinks w)"
    and "i < length (cw_slots w thr)" "unat (ts_sink_id (cw_slots w thr ! i)) = k"
    and "only_touches thr k (g, cw_writers w) (g', ws')"
    and "slot_state contents (bs_size_threshold (cw_sinks w ! k)) thr k g' b ws'"
    and "open_policy (bs_size_threshold (cw_sinks w ! k)) (cg_open g' thr k)"
    and "w' = w\<lparr>cw_writers := ws', cw_slots := (cw_slots w)(thr :=
           (cw_slots w thr)[i := (cw_slots w thr ! i)\<lparr>ts_buffer := b\<rparr>])\<rparr>"
  shows "world_ok contents w' g'" "policy_ok w' g'"
proof -
  have others: "k' \<noteq> k \<Longrightarrow> ws' ! k' = cw_writers w ! k'" "k' \<noteq> k \<Longrightarrow> cg_done g' k' = cg_done g k'"
      "(thr', k') \<noteq> (thr, k) \<Longrightarrow> cg_open g' thr' k' = cg_open g thr' k'"
      "length ws' = length (cw_writers w)" for thr' k'
    using assms(6) by (auto simp: only_touches_def)
  have opn: "cg_open g' thr = (cg_open g thr)(k := cg_open g' thr k)"
    "thr' \<noteq> thr \<Longrightarrow> cg_open g' thr' = cg_open g thr'" for thr'
    using others(3) by (auto intro!: ext)
  have "slots_ok (cw_sinks w) ((cg_open g thr)(k := cg_open g' thr k))
      ((cw_slots w thr)[i := (cw_slots w thr ! i)\<lparr>ts_buffer := b\<rparr>])"
  proof (rule slots_ok_update [OF _ assms(4,5)])
    show "slots_ok (cw_sinks w) (cg_open g thr) (cw_slots w thr)"
      using assms(1) by (simp add: world_ok_def)
    then show "sb_size_threshold b = sb_size_threshold (ts_buffer (cw_slots w thr ! i))"
      using slots_ok_none [OF _ assms(4,5)] assms(7) by (simp add: slot_state_def)
    show "sb_encoder b = map_option built (cg_open g' thr k)"
      using assms(7) by (simp add: slot_state_def)
  qed
  moreover have "contents (ws' ! k') =
      write_stream_header [] @ concat (map (spec_bytes \<circ> snd) (cg_done g' k'))"
    if "k' < length (cw_sinks w)" for k'
    using assms(1,7) others(1,2) that by (cases "k' = k") (auto simp: world_ok_def slot_state_def)
  ultimately show "world_ok contents w' g'"
    using assms(1,9) others(4) opn by (auto simp: world_ok_def)
  show "policy_ok w' g'"
    unfolding policy_ok_def
  proof (intro allI conjI)
    fix k' thr'
    show "list_all (segment_policy (bs_size_threshold (cw_sinks w' ! k')) \<circ> snd) (cg_done g' k')"
      using assms(2,7,9) others(2) by (cases "k' = k") (auto simp: policy_ok_def slot_state_def)
    show "open_policy (bs_size_threshold (cw_sinks w' ! k')) (cg_open g' thr' k')"
      using assms(2,8,9) others(3) by (cases "(thr', k') = (thr, k)") (auto simp: policy_ok_def)
  qed
qed

text \<open>A slot that is not open can go.\<close>

lemma world_ok_remove:
  assumes "world_ok contents w g" "policy_ok w g" "cw_slots w thr = slot # slots"
    and "cg_open g thr (unat (ts_sink_id slot)) = None"
  shows "world_ok contents (w\<lparr>cw_slots := (cw_slots w)(thr := slots)\<rparr>) g"
    "policy_ok (w\<lparr>cw_slots := (cw_slots w)(thr := slots)\<rparr>) g"
proof -
  have "slots_ok (cw_sinks w) (cg_open g thr) (slot # slots)"
    using assms(1,3) unfolding world_ok_def by metis
  then have "slots_ok (cw_sinks w) (cg_open g thr) slots"
    using assms(4) by (simp add: slots_ok_def) (metis option.distinct(1))
  then show "world_ok contents (w\<lparr>cw_slots := (cw_slots w)(thr := slots)\<rparr>) g"
    using assms(1) by (auto simp: world_ok_def)
  show "policy_ok (w\<lparr>cw_slots := (cw_slots w)(thr := slots)\<rparr>) g"
    using assms(2) by (simp add: policy_ok_def)
qed

lemma world_ok_no_slots: "world_ok contents w g \<Longrightarrow> cw_slots w thr = [] \<Longrightarrow> cg_open g thr k = None"
  unfolding world_ok_def slots_ok_def by (metis image_is_empty empty_iff list.set(1))

context byte_writer
begin

text \<open>Closing an open slot: what was filling becomes a finished segment of the stream.\<close>

lemma close_slot:
  assumes "slot_state contents n thr k g b ws" "sb_encoder b \<noteq> None"
    and "filling_policy n (cg_open g thr k)"
  shows "\<exists>g' b' ws'. close_segment bd io c k rd b ws = Inr (b', ws') \<and>
    slot_state contents n thr k g' b' ws' \<and> only_touches thr k (g, ws) (g', ws') \<and>
    cg_open g' thr k = None \<and> history g' = history g"
proof -
  obtain us cm ct where anchors: "clock_anchors bd c (rd 0) (rd 1) (rd 2) = (us, cm, ct)"
    by (cases "clock_anchors bd c (rd 0) (rd 1) (rd 2)")
  from assms(1,2) obtain a cs where opn: "cg_open g thr k = Some (a, cs)"
    by (auto simp: slot_state_def)
  let ?g = "ghost_close thr k cm ct g" and ?b = "b\<lparr>sb_encoder := None\<rparr>"
  let ?ws = "append_to io k (finish (built (a, cs)) cm ct) ws"
  have "close_segment bd io c k rd b ws = Inr (?b, ?ws)"
    using anchors assms(1) opn by (simp add: close_segment_def buffer_take_def slot_state_def)
  moreover have "slot_state contents n thr k ?g ?b ?ws"
    using assms(1) opn filling_segment [OF assms(3), of cm ct]
    by (auto simp: slot_state_def append_to_def contents_segment ghost_close_def)
  moreover have "only_touches thr k (g, ws) (?g, ?ws)"
    by (auto simp: only_touches_def append_to_def ghost_close_def split: option.split)
  ultimately show ?thesis
    by (intro exI [of _ ?g] exI [of _ ?b] exI [of _ ?ws]) simp
qed

lemma encode_slot:
  assumes "slot_state contents n thr k g b ws" "open_policy n (cg_open g thr k)" "event_wf ev"
    and "b' = (if buffer_is_open b then b else buffer_open a b)"
  shows "\<exists>b1. encoder_mut (\<lambda>e. encode_event e tick ev) b' = Inr b1 \<and>
    slot_state contents n thr k (ghost_add thr k a (event_call tick ev) g) b1 ws \<and> sb_encoder b1 \<noteq> None \<and>
    (\<not> should_flush b1 tick \<longrightarrow>
       open_policy n (cg_open (ghost_add thr k a (event_call tick ev) g) thr k))"
proof (cases "cg_open g thr k")
  case None
  then show ?thesis
    using assms
    by (auto simp: slot_state_def buffer_is_open_def buffer_open_def encoder_mut_def encode_event_call
        ghost_add_def should_flush_def open_policy_def small_def event_call_wf)
next
  case (Some ac)
  then show ?thesis
    using assms
    by (cases ac)
      (auto simp: slot_state_def buffer_is_open_def buffer_open_def encoder_mut_def encode_event_call
        ghost_add_def should_flush_def open_policy_def small_def event_call_wf)
qed

lemma record_into_ok:
  assumes "slot_state contents n thr k g (ts_buffer slot) ws" "open_policy n (cg_open g thr k)" "event_wf ev"
    and "bs_writer sink = k" "tick = clock_now bd (bs_clock sink) (rd 0)"
  shows "\<exists>g' b' ws'. record_into bd io sink ev rd slot ws = Inr (slot\<lparr>ts_buffer := b'\<rparr>, ws') \<and>
    slot_state contents n thr k g' b' ws' \<and> only_touches thr k (g, ws) (g', ws') \<and>
    open_policy n (cg_open g' thr k) \<and>
    (\<forall>thr' k'. history g' thr' k' =
       history g thr' k' @ (if thr' = thr \<and> k' = k then [event_call tick ev] else []))"
proof -
  let ?a = "open_anchor bd sink (rd 1) (rd 2) (rd 3)"
  let ?g = "ghost_add thr k ?a (event_call tick ev) g"
  obtain b1 where b1: "encoder_mut (\<lambda>e. encode_event e tick ev)
        (if buffer_is_open (ts_buffer slot) then ts_buffer slot else buffer_open ?a (ts_buffer slot)) = Inr b1"
      "slot_state contents n thr k ?g b1 ws" "sb_encoder b1 \<noteq> None"
      "\<not> should_flush b1 tick \<Longrightarrow> open_policy n (cg_open ?g thr k)"
    using encode_slot [OF assms(1-3) refl, where a = ?a and tick = tick] by blast
  have touch: "only_touches thr k (g, ws) (?g, ws)" by (auto simp: only_touches_def ghost_add_def)
  show ?thesis
  proof (cases "should_flush b1 tick")
    case False
    with b1 touch assms(5) show ?thesis
      by (intro exI [of _ ?g] exI [of _ b1] exI [of _ ws]) (simp add: record_into_def Let_def history_add)
  next
    case True
    obtain g' b' ws' where close: "close_segment bd io (bs_clock sink) k (\<lambda>i. rd (i + 4)) b1 ws = Inr (b', ws')"
        "slot_state contents n thr k g' b' ws'" "only_touches thr k (?g, ws) (g', ws')"
        "cg_open g' thr k = None" "history g' = history ?g"
      using close_slot [OF b1(2,3) filling_add [OF assms(2) event_call_wf [OF assms(3)]]] by blast
    with b1(1) True assms(4,5) only_touches_trans [OF touch close(3)] show ?thesis
      by (intro exI [of _ g'] exI [of _ b'] exI [of _ ws'])
        (simp add: record_into_def Let_def history_add open_policy_def)
  qed
qed

text \<open>The simulation: each operation of the sink succeeds and keeps the relation.\<close>

lemma sink_record_ok:
  assumes ok: "world_ok contents w g" "policy_ok w g" and k: "k < length (cw_sinks w)" and "event_wf ev"
  shows "\<exists>w' g'. sink_record bd io thr (cw_sinks w ! k) ev rd w = Inr w' \<and>
    world_ok contents w' g' \<and> policy_ok w' g' \<and> cw_sinks w' = cw_sinks w \<and>
    (\<forall>thr' k'. history g' thr' k' = history g thr' k' @
       (if thr' = thr \<and> k' = k then [event_call (clock_now bd (bs_clock (cw_sinks w ! k)) (rd 0)) ev] else []))"
proof -
  obtain i slots where push: "slot_or_push (cw_sinks w ! k) (cw_slots w thr) = (i, slots)" by fastforce
  define v where "v = w\<lparr>cw_slots := (cw_slots w)(thr := slots)\<rparr>"
  have "sinks_ok (cw_sinks w)" "slots_ok (cw_sinks w) (cg_open g thr) (cw_slots w thr)"
    using ok(1) by (simp_all add: world_ok_def)
  note pushed = slots_ok_push [OF this(1) k this(2) push]
  have v: "world_ok contents v g" "policy_ok v g" "k < length (cw_sinks v)"
      "i < length (cw_slots v thr)" "unat (ts_sink_id (cw_slots v thr ! i)) = k"
    using ok k pushed by (auto simp: v_def world_ok_def policy_ok_def)
  note slot = world_ok_slot [OF v]
  from v(2) have "open_policy (bs_size_threshold (cw_sinks v ! k)) (cg_open g thr k)"
    by (simp add: policy_ok_def)
  from record_into_ok [OF slot(1) this assms(4) slot(3) refl, where bd = bd and rd = rd]
  obtain g' b' ws' where rec: "record_into bd io (cw_sinks w ! k) ev rd (slots ! i) (cw_writers w) =
        Inr ((slots ! i)\<lparr>ts_buffer := b'\<rparr>, ws')"
      "slot_state contents (bs_size_threshold (cw_sinks v ! k)) thr k g' b' ws'"
      "only_touches thr k (g, cw_writers v) (g', ws')"
      "open_policy (bs_size_threshold (cw_sinks v ! k)) (cg_open g' thr k)"
      "\<forall>thr' k'. history g' thr' k' = history g thr' k' @
        (if thr' = thr \<and> k' = k then [event_call (clock_now bd (bs_clock (cw_sinks w ! k)) (rd 0)) ev] else [])"
    by (auto simp: v_def)
  note updated = world_ok_update [OF v rec(3,2,4) refl]
  show ?thesis
    using push rec(1,5) updated by (auto simp: sink_record_def v_def)
qed

lemma writer_flush_ok:
  assumes "world_ok contents w g" "policy_ok w g"
  shows "world_ok contents (w\<lparr>cw_writers := (cw_writers w)[j := writer_flush io (cw_writers w ! j)]\<rparr>) g"
    and "policy_ok (w\<lparr>cw_writers := (cw_writers w)[j := writer_flush io (cw_writers w ! j)]\<rparr>) g"
proof -
  have "contents ((cw_writers w)[j := writer_flush io (cw_writers w ! j)] ! k) = contents (cw_writers w ! k)"
    if "k < length (cw_writers w)" for k
    using that by (cases "j = k") (simp_all add: contents_writer_flush)
  then show "world_ok contents (w\<lparr>cw_writers := (cw_writers w)[j := writer_flush io (cw_writers w ! j)]\<rparr>) g"
    and "policy_ok (w\<lparr>cw_writers := (cw_writers w)[j := writer_flush io (cw_writers w ! j)]\<rparr>) g"
    using assms by (auto simp: world_ok_def policy_ok_def)
qed

lemma sink_flush_ok:
  assumes ok: "world_ok contents w g" "policy_ok w g" and k: "k < length (cw_sinks w)"
  shows "\<exists>w' g'. sink_flush bd io thr (cw_sinks w ! k) rd w = Inr w' \<and>
    world_ok contents w' g' \<and> policy_ok w' g' \<and> cw_sinks w' = cw_sinks w \<and> history g' = history g \<and>
    cg_open g' thr k = None"
proof -
  let ?sink = "cw_sinks w ! k"
  have sinks: "sinks_ok (cw_sinks w)" "slots_ok (cw_sinks w) (cg_open g thr) (cw_slots w thr)"
    using ok(1) by (simp_all add: world_ok_def)
  consider (absent) "find_slot ?sink (cw_slots w thr) = None"
    | (closed) i where "find_slot ?sink (cw_slots w thr) = Some i"
        "\<not> buffer_is_open (ts_buffer (cw_slots w thr ! i))"
    | (opened) i where "find_slot ?sink (cw_slots w thr) = Some i"
        "buffer_is_open (ts_buffer (cw_slots w thr ! i))"
    by (cases "find_slot ?sink (cw_slots w thr)") auto
  then show ?thesis
  proof cases
    case absent
    with writer_flush_ok [OF ok] find_slot_None(2) [OF sinks(1) k sinks(2)] show ?thesis
      by (auto simp: sink_flush_def)
  next
    case closed
    note slot = world_ok_slot [OF ok k find_slot_Some [OF sinks(1) k closed(1)]]
    have "cg_open g thr k = None"
      using slot(1) closed(2) by (auto simp: slot_state_def buffer_is_open_def split: option.splits)
    with writer_flush_ok [OF ok] closed show ?thesis by (auto simp: sink_flush_def)
  next
    case opened
    note i = find_slot_Some [OF sinks(1) k opened(1)]
    note slot = world_ok_slot [OF ok k i]
    have "sb_encoder (ts_buffer (cw_slots w thr ! i)) \<noteq> None"
      using opened(2) by (auto simp: buffer_is_open_def split: option.splits)
    moreover have "filling_policy (bs_size_threshold ?sink) (cg_open g thr k)"
      using ok(2) by (intro open_filling) (simp add: policy_ok_def)
    ultimately obtain g' b' ws' where close:
        "close_segment bd io (bs_clock ?sink) k rd (ts_buffer (cw_slots w thr ! i)) (cw_writers w) = Inr (b', ws')"
        "slot_state contents (bs_size_threshold ?sink) thr k g' b' ws'"
        "only_touches thr k (g, cw_writers w) (g', ws')"
        "cg_open g' thr k = None" "history g' = history g"
      using close_slot [OF slot(1)] by blast
    have "open_policy (bs_size_threshold ?sink) (cg_open g' thr k)"
      using close(4) by (simp add: open_policy_def)
    note updated = world_ok_update [OF ok k i close(3,2) this refl]
    show ?thesis
      using opened close(1,4,5) slot(3) writer_flush_ok [OF updated] by (auto simp: sink_flush_def Let_def)
  qed
qed

lemma slot_drop_ok:
  assumes ok: "world_ok contents w g" "policy_ok w g" and slots: "cw_slots w thr = slot # slots"
  shows "\<exists>ws' g'. slot_drop bd io rd slot (cw_writers w) = Inr ws' \<and>
    world_ok contents (w\<lparr>cw_writers := ws', cw_slots := (cw_slots w)(thr := slots)\<rparr>) g' \<and>
    policy_ok (w\<lparr>cw_writers := ws', cw_slots := (cw_slots w)(thr := slots)\<rparr>) g' \<and> history g' = history g"
proof -
  define k where "k = unat (ts_sink_id slot)"
  have i: "0 < length (cw_slots w thr)" "unat (ts_sink_id (cw_slots w thr ! 0)) = k"
    using slots by (simp_all add: k_def)
  have k: "k < length (cw_sinks w)"
    using ok(1) slots_ok_none [OF _ i, of "cw_sinks w" "cg_open g thr"] by (simp add: world_ok_def)
  note slot = world_ok_slot [OF ok k i]
  show ?thesis
  proof (cases "buffer_is_open (ts_buffer slot)")
    case False
    then have "cg_open g thr k = None"
      using slot(1) slots by (auto simp: slot_state_def buffer_is_open_def split: option.splits)
    with False world_ok_remove [OF ok slots] show ?thesis by (auto simp: slot_drop_def k_def)
  next
    case True
    have state: "slot_state contents (bs_size_threshold (cw_sinks w ! k)) thr k g (ts_buffer slot) (cw_writers w)"
      using slot(1) slots by simp
    from True have "sb_encoder (ts_buffer slot) \<noteq> None" by (auto simp: buffer_is_open_def split: option.splits)
    moreover have "filling_policy (bs_size_threshold (cw_sinks w ! k)) (cg_open g thr k)"
      using ok(2) by (intro open_filling) (simp add: policy_ok_def)
    ultimately obtain g' b' ws' where close:
        "close_segment bd io (ts_clock slot) k rd (ts_buffer slot) (cw_writers w) = Inr (b', ws')"
        "slot_state contents (bs_size_threshold (cw_sinks w ! k)) thr k g' b' ws'"
        "only_touches thr k (g, cw_writers w) (g', ws')"
        "cg_open g' thr k = None" "history g' = history g"
      using close_slot [OF state] by blast
    have "open_policy (bs_size_threshold (cw_sinks w ! k)) (cg_open g' thr k)"
      using close(4) by (simp add: open_policy_def)
    note updated = world_ok_update [OF ok k i close(3,2) this refl]
    have "world_ok contents (w\<lparr>cw_writers := ws', cw_slots := (cw_slots w)(thr := slots)\<rparr>) g'"
      "policy_ok (w\<lparr>cw_writers := ws', cw_slots := (cw_slots w)(thr := slots)\<rparr>) g'"
      using world_ok_remove [OF updated, of thr "slot\<lparr>ts_buffer := b'\<rparr>" slots] close(4) slots
      by (simp_all add: k_def)
    with True close(1,5) slot(2) slots show ?thesis by (auto simp: slot_drop_def)
  qed
qed

lemma drop_slots_ok:
  "world_ok contents w g \<Longrightarrow> policy_ok w g \<Longrightarrow> cw_slots w thr = slots \<Longrightarrow>
     \<exists>ws' g'. drop_slots bd io rd slots (cw_writers w) = Inr ws' \<and>
       world_ok contents (w\<lparr>cw_writers := ws', cw_slots := (cw_slots w)(thr := [])\<rparr>) g' \<and>
       policy_ok (w\<lparr>cw_writers := ws', cw_slots := (cw_slots w)(thr := [])\<rparr>) g' \<and> history g' = history g"
proof (induction slots arbitrary: rd w g)
  case Nil
  then have "(cw_slots w)(thr := []) = cw_slots w" by (simp add: fun_upd_idem)
  then have w: "w\<lparr>cw_writers := cw_writers w, cw_slots := (cw_slots w)(thr := [])\<rparr> = w" by simp
  show ?case
    by (intro exI [of _ "cw_writers w"] exI [of _ g]) (simp only: w Nil drop_slots.simps simp_thms)
next
  case (Cons slot slots)
  from slot_drop_ok [OF Cons.prems, where bd = bd and rd = rd] obtain ws1 g1 where drop:
      "slot_drop bd io rd slot (cw_writers w) = Inr ws1"
      "world_ok contents (w\<lparr>cw_writers := ws1, cw_slots := (cw_slots w)(thr := slots)\<rparr>) g1"
      "policy_ok (w\<lparr>cw_writers := ws1, cw_slots := (cw_slots w)(thr := slots)\<rparr>) g1"
      "history g1 = history g"
    by blast
  have "cw_slots (w\<lparr>cw_writers := ws1, cw_slots := (cw_slots w)(thr := slots)\<rparr>) thr = slots" by simp
  from Cons.IH [OF drop(2,3) this, where rd = "\<lambda>i. rd (i + 3)"] drop(1,4) show ?case
    by (auto simp del: fun_upd_apply)
qed

lemma thread_exit_ok:
  assumes "world_ok contents w g" "policy_ok w g"
  shows "\<exists>w' g'. thread_exit bd io thr rd w = Inr w' \<and> world_ok contents w' g' \<and> policy_ok w' g' \<and>
    cw_sinks w' = cw_sinks w \<and> history g' = history g \<and> (\<forall>k. cg_open g' thr k = None)"
proof -
  from drop_slots_ok [OF assms refl, where bd = bd and rd = rd and thr = thr] obtain ws' g' where
      "drop_slots bd io rd (cw_slots w thr) (cw_writers w) = Inr ws'"
      "world_ok contents (w\<lparr>cw_writers := ws', cw_slots := (cw_slots w)(thr := [])\<rparr>) g'"
      "policy_ok (w\<lparr>cw_writers := ws', cw_slots := (cw_slots w)(thr := [])\<rparr>) g'"
      "history g' = history g"
    by blast
  with world_ok_no_slots [OF this(2), of thr] show ?thesis by (auto simp: thread_exit_def)
qed

end

section \<open>Runs\<close>

text \<open>What a run records: the events of a thread for a sink, each with the tick it was read at.\<close>

fun recorded :: "Build \<Rightarrow> BufferedCaptureSink list \<Rightarrow> thread \<Rightarrow> nat \<Rightarrow> capture_act list \<Rightarrow> EncoderCall list" where
  "recorded bd sinks thr k [] = []"
| "recorded bd sinks thr k (RecordEvent thr' k' ev rd # acts) =
     (if thr = thr' \<and> k = k' then [event_call (clock_now bd (bs_clock (sinks ! k)) (rd 0)) ev] else []) @
     recorded bd sinks thr k acts"
| "recorded bd sinks thr k (_ # acts) = recorded bd sinks thr k acts"

fun act_ok :: "nat \<Rightarrow> capture_act \<Rightarrow> bool" where
  "act_ok n (RecordEvent thr k ev rd) \<longleftrightarrow> k < n \<and> event_wf ev"
| "act_ok n (FlushSink thr k rd) \<longleftrightarrow> k < n"
| "act_ok n (ThreadExit thr rd) \<longleftrightarrow> True"

text \<open>The sinks are created before: each with its writer, thresholds and the probe of its clock.\<close>

type_synonym 'w sink_config = "bool \<times> Reading \<times> 'w \<times> nat \<times> u64"

fun create_sinks :: "Build \<Rightarrow> 'w writer_ops \<Rightarrow> 'w sink_config list \<Rightarrow> 'w capture_world \<Rightarrow> 'w capture_world" where
  "create_sinks bd io [] w = w"
| "create_sinks bd io ((invariant_tsc, r, writer, threshold, age) # cfgs) w =
     create_sinks bd io cfgs (with_thresholds bd io invariant_tsc r writer threshold age w)"

definition config_empty :: "('w \<Rightarrow> u8 list) \<Rightarrow> 'w sink_config \<Rightarrow> bool" where
  "config_empty contents cfg \<longleftrightarrow> (case cfg of (_, _, writer, _, _) \<Rightarrow> contents writer = [])"

context byte_writer
begin

lemma capture_step_ok:
  assumes "world_ok contents w g" "policy_ok w g" "act_ok (length (cw_sinks w)) act"
  shows "\<exists>w' g'. capture_step bd io act w = Inr w' \<and> world_ok contents w' g' \<and> policy_ok w' g' \<and>
    cw_sinks w' = cw_sinks w \<and>
    (\<forall>thr k. history g' thr k = history g thr k @ recorded bd (cw_sinks w) thr k [act])"
proof (cases act)
  case (RecordEvent thr k ev rd)
  with assms sink_record_ok [OF assms(1,2), of k ev bd thr rd] show ?thesis by fastforce
next
  case (FlushSink thr k rd)
  with assms(3) have "k < length (cw_sinks w)" by simp
  from sink_flush_ok [OF assms(1,2) this, of bd thr rd] FlushSink show ?thesis
    by (elim exE, intro exI) auto
next
  case (ThreadExit thr rd)
  with thread_exit_ok [OF assms(1,2), of bd thr rd] show ?thesis
    by (elim exE, intro exI) auto
qed

lemma capture_run_ok:
  "world_ok contents w g \<Longrightarrow> policy_ok w g \<Longrightarrow> list_all (act_ok (length (cw_sinks w))) acts \<Longrightarrow>
     \<exists>w' g'. capture_run bd io acts w = Inr w' \<and> world_ok contents w' g' \<and> policy_ok w' g' \<and>
       cw_sinks w' = cw_sinks w \<and>
       (\<forall>thr k. history g' thr k = history g thr k @ recorded bd (cw_sinks w) thr k acts)"
proof (induction acts arbitrary: w g)
  case Nil
  then show ?case by auto
next
  case (Cons act acts)
  then obtain w1 g1 where step: "capture_step bd io act w = Inr w1" "world_ok contents w1 g1"
      "policy_ok w1 g1" "cw_sinks w1 = cw_sinks w"
      "\<And>thr k. history g1 thr k = history g thr k @ recorded bd (cw_sinks w) thr k [act]"
    using capture_step_ok [of w g act bd] by auto
  from Cons.IH [OF step(2,3)] Cons.prems(3) step(4) obtain w2 g2 where
      "capture_run bd io acts w1 = Inr w2" "world_ok contents w2 g2" "policy_ok w2 g2"
      "cw_sinks w2 = cw_sinks w"
      "\<And>thr k. history g2 thr k = history g1 thr k @ recorded bd (cw_sinks w) thr k acts"
    by auto
  moreover have "recorded bd sinks thr k (act # acts) = recorded bd sinks thr k [act] @ recorded bd sinks thr k acts"
    for sinks thr k by (cases act) auto
  ultimately show ?case using step by auto
qed

lemma create_sinks_ok:
  "world_ok contents w ghost_start \<Longrightarrow> unat (cw_next_id w) = length (cw_sinks w) \<Longrightarrow>
     (\<forall>thr. cw_slots w thr = []) \<Longrightarrow> length (cw_sinks w) + length cfgs < 2 ^ 64 \<Longrightarrow>
     list_all (config_empty contents) cfgs \<Longrightarrow>
     world_ok contents (create_sinks bd io cfgs w) ghost_start \<and>
     length (cw_sinks (create_sinks bd io cfgs w)) = length (cw_sinks w) + length cfgs"
proof (induction cfgs arbitrary: w)
  case Nil
  then show ?case by simp
next
  case (Cons cfg cfgs)
  obtain inv r writer threshold age where cfg: "cfg = (inv, r, writer, threshold, age)" by (cases cfg)
  let ?w = "with_thresholds bd io inv r writer threshold age w"
  have "unat (cw_next_id w + 1) = Suc (length (cw_sinks w))"
    using Cons.prems(2,4) by (simp add: unat_word_ariths)
  moreover have "world_ok contents ?w ghost_start"
    using Cons.prems cfg
    by (auto simp: world_ok_def with_thresholds_def sinks_ok_def slots_ok_def ghost_start_def
        nth_append contents_new config_empty_def less_Suc_eq)
  ultimately show ?case
    using Cons.IH [of ?w] Cons.prems cfg by (simp add: with_thresholds_def)
qed

end

lemma capture_start_ok: "world_ok contents capture_start ghost_start"
  by (simp add: world_ok_def capture_start_def sinks_ok_def slots_ok_def ghost_start_def)

lemma policy_ok_start: "policy_ok w ghost_start"
  by (simp add: policy_ok_def ghost_start_def open_policy_def)

section \<open>What the stream of a sink says\<close>

definition all_flushed :: "'w capture_world \<Rightarrow> nat \<Rightarrow> bool" where
  "all_flushed w k \<longleftrightarrow>
     (\<forall>thr. list_all (\<lambda>slot. unat (ts_sink_id slot) = k \<longrightarrow> \<not> buffer_is_open (ts_buffer slot)) (cw_slots w thr))"

lemma all_flushed_closed:
  assumes "world_ok contents w g" "all_flushed w k"
  shows "cg_open g thr k = None"
proof (rule ccontr)
  assume opn: "cg_open g thr k \<noteq> None"
  have slots: "slots_ok (cw_sinks w) (cg_open g thr) (cw_slots w thr)"
    using assms(1) by (simp add: world_ok_def)
  with opn obtain slot where slot: "slot \<in> set (cw_slots w thr)" "unat (ts_sink_id slot) = k"
    unfolding slots_ok_def by blast
  with slots opn have "buffer_is_open (ts_buffer slot)"
    by (auto simp: slots_ok_def slot_ok_def list_all_iff buffer_is_open_def Let_def)
  with slot assms(2) show False by (auto simp: all_flushed_def list_all_iff)
qed

lemma spec_ok_policy:
  assumes "list_all (segment_policy n \<circ> snd) segs"
    and "length (concat (map (spec_bytes \<circ> snd) segs)) < 2 ^ 32"
  shows "list_all spec_ok (map snd segs)"
  using assms
proof (induction segs)
  case (Cons seg segs)
  obtain thr a ops cm ct where "seg = (thr, (a, ops, cm, ct))" by (cases seg) auto
  with Cons show ?case by (auto simp: finish_def Let_def le_bytes_u32_def list_all_iff)
qed simp

context byte_writer
begin

lemma capture_stream:
  assumes "length cfgs < 2 ^ 64" "list_all (config_empty contents) cfgs"
    and "list_all (act_ok (length cfgs)) acts"
  shows "\<exists>w g. capture_run bd io acts (create_sinks bd io cfgs capture_start) = Inr w \<and>
    world_ok contents w g \<and> policy_ok w g \<and>
    cw_sinks w = cw_sinks (create_sinks bd io cfgs capture_start) \<and> length (cw_sinks w) = length cfgs \<and>
    (\<forall>thr k. history g thr k = recorded bd (cw_sinks w) thr k acts)"
proof -
  let ?w = "create_sinks bd io cfgs capture_start"
  have start: "world_ok contents ?w ghost_start" "length (cw_sinks ?w) = length cfgs"
    using create_sinks_ok [OF capture_start_ok _ _ _ assms(2)] assms(1) by (simp_all add: capture_start_def)
  from capture_run_ok [OF start(1) policy_ok_start] start(2) assms(3) show ?thesis by fastforce
qed

lemma capture_decodes:
  assumes "world_ok contents w g" "policy_ok w g" "all_flushed w k" "k < length (cw_sinks w)"
    and "length (contents (cw_writers w ! k)) < 2 ^ 32"
  shows "\<exists>items. and_then (read_stream_header (contents (cw_writers w ! k)))
        (\<lambda>body. collect_segments oc (segments body)) = Inr items \<and>
      list_all2 spec_decodes (map snd (cg_done g k)) items"
proof -
  have stream: "contents (cw_writers w ! k) =
      write_stream_header [] @ concat (map (spec_bytes \<circ> snd) (cg_done g k))"
    using assms(1,4) by (simp add: world_ok_def)
  have "list_all spec_ok (map snd (cg_done g k))"
    using assms(2,5) stream by (intro spec_ok_policy) (auto simp: policy_ok_def)
  from collect_segments_specs [OF this, of oc] show ?thesis
    unfolding stream by (simp add: read_write_stream_header segments_def)
qed

end

end
