(* ===== verification/Capture_Properties.thy ===== *)
theory Capture_Properties
  imports Capture_Story
begin

text \<open>
  The properties of the capture sink: what any interleaving of recording threads leaves in the
  stream is read back whole, and how the decoded ticks relate to those recorded.
\<close>

section \<open>Recording and reading back\<close>

text \<open>C18: Whatever threads record to the sinks, flush and exit in whatever order, over any writer
  that keeps the bytes it is handed, nothing panics; and once no thread holds an open segment of a
  sink, reading its stream yields its segments, in which every thread's events stand in the order
  and with the ticks they were recorded, none lost and none twice; no segment is empty, and each
  was under the size threshold until its last event.\<close>

theorem capture_roundtrip:
  assumes "byte_writer io contents"
    and "length cfgs < 2 ^ 64" "list_all (config_empty contents) cfgs"
    and "list_all (act_ok (length cfgs)) acts" "k < length cfgs"
  shows "\<exists>w. capture_run bd io acts (create_sinks bd io cfgs capture_start) = Inr w \<and>
    (all_flushed w k \<and> length (contents (cw_writers w ! k)) < 2 ^ 32 \<longrightarrow>
      (\<exists>segs items.
        and_then (read_stream_header (contents (cw_writers w ! k)))
          (\<lambda>body. collect_segments oc (segments body)) = Inr items \<and>
        list_all2 spec_decodes (map snd segs) items \<and>
        (\<forall>thr. of_thread thr segs = recorded bd (cw_sinks w) thr k acts) \<and>
        list_all (segment_policy (bs_size_threshold (cw_sinks w ! k)) \<circ> snd) segs))"
proof -
  obtain w g where w: "capture_run bd io acts (create_sinks bd io cfgs capture_start) = Inr w"
      "world_ok contents w g" "policy_ok w g" "length (cw_sinks w) = length cfgs"
      "\<And>thr k. history g thr k = recorded bd (cw_sinks w) thr k acts"
    using byte_writer.capture_stream [OF assms(1-4)] by blast
  have "\<exists>segs items.
        and_then (read_stream_header (contents (cw_writers w ! k)))
          (\<lambda>body. collect_segments oc (segments body)) = Inr items \<and>
        list_all2 spec_decodes (map snd segs) items \<and>
        (\<forall>thr. of_thread thr segs = recorded bd (cw_sinks w) thr k acts) \<and>
        list_all (segment_policy (bs_size_threshold (cw_sinks w ! k)) \<circ> snd) segs"
    if flushed: "all_flushed w k" and len: "length (contents (cw_writers w ! k)) < 2 ^ 32"
  proof -
    have "k < length (cw_sinks w)" using w(4) assms(5) by simp
    from byte_writer.capture_decodes [OF assms(1) w(2,3) flushed this len, of oc]
    obtain items where "and_then (read_stream_header (contents (cw_writers w ! k)))
          (\<lambda>body. collect_segments oc (segments body)) = Inr items"
        "list_all2 spec_decodes (map snd (cg_done g k)) items"
      by blast
    moreover have "of_thread thr (cg_done g k) = recorded bd (cw_sinks w) thr k acts" for thr
      using w(5) [of thr k] all_flushed_closed [OF w(2) flushed, of thr] by (simp add: history_def)
    ultimately show ?thesis using w(3) unfolding policy_ok_def by blast
  qed
  with w(1) show ?thesis by blast
qed

definition sample_reading :: "nat \<Rightarrow> Reading" where
  "sample_reading t = \<lparr>rd_unix_micros = Some 1000, rd_instant = t, rd_tsc = 0, rd_cntvct = 0\<rparr>"

definition sample_build :: Build where
  "sample_build = \<lparr>bd_arch = OtherArch, bd_arch_clock = False\<rparr>"

definition sample_configs :: "BufWriter sink_config list" where
  "sample_configs = [(False, sample_reading 100, vec_new 16, 20, 5000)]"

definition sample_acts :: "capture_act list" where
  "sample_acts =
     [RecordEvent 0 0 (EvSpawned \<lparr>ev_actor = 1, ev_seq = 1\<rparr> ''A'' None None) (\<lambda>i. sample_reading (200 + 10 * i)),
      RecordEvent 1 0 (EvMessage \<lparr>ev_actor = 2, ev_seq = 4\<rparr> (Some 1) 2 ''M'' Ask (Some \<lparr>ev_actor = 1, ev_seq = 1\<rparr>))
        (\<lambda>i. sample_reading (300 + 10 * i)),
      RecordEvent 0 0 (EvDied \<lparr>ev_actor = 1, ev_seq = 2\<rparr> ''A'' KindFailed None) (\<lambda>i. sample_reading (400 + 10 * i)),
      FlushSink 1 0 (\<lambda>i. sample_reading (500 + 10 * i)),
      ThreadExit 0 (\<lambda>i. sample_reading (600 + 10 * i))]"

lemmas capture_eval = sample_acts_def sample_configs_def sample_build_def sample_reading_def
  capture_start_def with_thresholds_def clock_detect_def clock_now_def clock_anchors_def
  elapsed_nanos_def vec_new_def sink_writer_new_def vec_writer_def buf_write_all_def flush_buf_def
  write_stream_header_def MAGIC_def VERSION_def to_le_bytes_u16_def Let_def
  sink_record_def sink_flush_def thread_exit_def slot_drop_def close_segment_def append_to_def
  write_segment_def writer_flush_def record_into_def slot_or_push_def find_slot_def open_anchor_def
  buffer_new_def buffer_is_open_def buffer_open_def encoder_mut_def should_flush_def buffer_take_def
  encoded_len_def finish_def le_bytes_u32_def encoder_new_def spawned_def died_def
  message_def delta_def intern_def saturating_sub_def write_blob_table_def write_blob_def
  write_uvarint.simps map_or_zero_def segment_body_def str_bytes_def event_ref_def actor_nz_def

definition sample_world :: "BufWriter capture_world" where
  "sample_world =
     \<lparr>cw_next_id = 1,
      cw_sinks = [\<lparr>bs_id = 0, bs_clock = \<lparr>ck_mode = Monotonic, ck_epoch = 100\<rparr>,
        bs_writer = 0, bs_size_threshold = 20, bs_max_age_ticks = 5000\<rparr>],
      cw_writers = [\<lparr>bw_inner =
          [70, 67, 65, 80, 1, 0, 0, 0, 24, 0, 0, 0, 2, 232, 7, 0, 230, 1, 0, 164, 3, 1, 1, 77, 0, 0,
           TAG_MESSAGE, 0, 4, 2, 1, 0, 1, 1, 1, 0, 29, 0, 0, 0, 2, 232, 7, 0, 130, 1, 0, 136, 4, 1, 1,
           65, 0, 0, TAG_SPAWNED, 0, 1, 1, 0, 0, 0, TAG_DIED, 200, 1, 2, 1, 0, 1, 0],
        bw_buf = [], bw_capacity = 16\<rparr>],
      cw_slots = (\<lambda>_. [])
        (Suc 0 := [\<lparr>ts_sink_id = 0,
           ts_buffer = \<lparr>sb_encoder = None, sb_open_tick = 230, sb_size_threshold = 20, sb_max_age_ticks = 5000\<rparr>,
           ts_writer = 0, ts_clock = \<lparr>ck_mode = Monotonic, ck_epoch = 100\<rparr>\<rparr>],
         0 := [])\<rparr>"

lemma sample_run:
  "capture_run sample_build vec_writer sample_acts
     (create_sinks sample_build vec_writer sample_configs capture_start) = Inr sample_world"
  by (simp add: capture_eval sample_world_def)

theorem capture_roundtrip_witness:
  "\<exists>segs items.
    and_then (read_stream_header (vec_contents (cw_writers sample_world ! 0)))
      (\<lambda>body. collect_segments True (segments body)) = Inr items \<and>
    list_all2 spec_decodes (map snd segs) items \<and>
    (\<forall>thr. of_thread thr segs = recorded sample_build (cw_sinks sample_world) thr 0 sample_acts)"
proof -
  have "list_all (config_empty vec_contents) sample_configs" "length sample_configs < 2 ^ 64" "0 < length sample_configs"
    by (simp_all add: sample_configs_def config_empty_def vec_contents_def vec_new_def)
  moreover have "list_all (act_ok (length sample_configs)) sample_acts"
    by (simp add: sample_acts_def sample_configs_def ref_wf_def str_bytes_def)
  moreover have "all_flushed sample_world 0" "length (vec_contents (cw_writers sample_world ! 0)) < 2 ^ 32"
    by (simp_all add: all_flushed_def sample_world_def buffer_is_open_def vec_contents_def)
  ultimately show ?thesis
    using capture_roundtrip [OF vec.byte_writer_axioms, of sample_configs sample_acts 0 sample_build True]
    by (auto simp: sample_run)
qed

section \<open>The ticks of a segment\<close>

lemma saturating_shift:
  "a \<le> b \<Longrightarrow> unat b + unat d < 2 ^ 64 \<Longrightarrow> saturating_add (a + d) (saturating_sub b a) = (b :: u64) + d"
proof -
  assume ab: "a \<le> b" "unat b + unat d < 2 ^ 64"
  then have "unat (a + d) = unat a + unat d"
    by (simp add: unat_word_ariths word_le_nat_alt)
  moreover have "unat (b - a) = unat b - unat a" using ab(1) by (rule unat_sub)
  moreover have "unat a \<le> unat b" using ab(1) by (simp add: word_le_nat_alt)
  ultimately show ?thesis
    using ab by (simp add: saturating_sub_def saturating_add_def)
qed

lemma abs_ticks_shift:
  "map (resolve ss) rs = deltas prev cs \<Longrightarrow> call_ticks_sorted prev cs \<Longrightarrow>
     (\<forall>c \<in> set cs. unat (call_tick c) + unat d < 2 ^ 64) \<Longrightarrow>
     abs_ticks (prev + d) rs = map (\<lambda>c. call_tick c + d) cs"
proof (induction cs arbitrary: prev rs)
  case Nil
  then show ?case by simp
next
  case (Cons c cs)
  from Cons.prems(1) obtain r rs' where rs: "rs = r # rs'"
    and r: "resolve ss r = with_tick (saturating_sub (call_tick c) prev) c"
    and rs': "map (resolve ss) rs' = deltas (call_tick c) cs"
    by (cases rs) auto
  from r have "ts_delta r = saturating_sub (call_tick c) prev"
    using ts_delta_resolve [of ss r] by simp
  with Cons.prems(2,3) rs Cons.IH [OF rs'] show ?case by (simp add: saturating_shift)
qed

text \<open>The tick of the event that opens a segment is read before the segment's anchor is; its delta
  saturates to zero, and every event of the segment decodes that much later than it was
  recorded: the first at the anchor, the others as far behind it as they were behind the first.\<close>

theorem segment_ticks_are_late:
  assumes "decodes_to (open_anchor bd sink r1 r2 r3)
      (map Call (event_call (clock_now bd (bs_clock sink) r0) event # cs)) cm ct seg"
    and "clock_now bd (bs_clock sink) r0 \<le> clock_now bd (bs_clock sink) r3"
    and "call_ticks_sorted (clock_now bd (bs_clock sink) r0) cs"
    and "d = clock_now bd (bs_clock sink) r3 - clock_now bd (bs_clock sink) r0"
    and "list_all (\<lambda>c. unat (call_tick c) + unat d < 2 ^ 64) cs"
  shows "abs_ticks (sa_tick (sg_anchor seg)) (sg_records seg) =
    clock_now bd (bs_clock sink) r3 # map (\<lambda>c. call_tick c + d) cs"
proof -
  let ?t = "clock_now bd (bs_clock sink) r0" and ?a = "clock_now bd (bs_clock sink) r3"
  have anchor: "sa_tick (sg_anchor seg) = ?a"
    using assms(1) by (simp add: decodes_to_def open_anchor_def clock_anchors_def)
  have "map (resolve (sg_strings seg)) (sg_records seg) =
      with_tick (saturating_sub ?t ?a) (event_call ?t event) # deltas ?t cs"
    using assms(1) by (simp add: decodes_to_def open_anchor_def clock_anchors_def)
  then obtain r rs where rs: "sg_records seg = r # rs"
    and r: "resolve (sg_strings seg) r = with_tick (saturating_sub ?t ?a) (event_call ?t event)"
    and rest: "map (resolve (sg_strings seg)) rs = deltas ?t cs"
    by (cases "sg_records seg") auto
  have "saturating_sub ?t ?a = 0" using assms(2) by (auto simp: saturating_sub_def)
  then have "ts_delta r = 0"
    using ts_delta_resolve [of "sg_strings seg" r] r by simp
  moreover have "?t + d = ?a" using assms(4) by simp
  ultimately show ?thesis
    using abs_ticks_shift [OF rest assms(3), of d] assms(5) anchor rs unat_lt2p_64 [of ?a]
    by (simp add: list_all_iff saturating_add_def)
qed

definition late_segment :: Segment where
  "late_segment =
     \<lparr>sg_anchor = open_anchor sample_build (cw_sinks sample_world ! 0) (sample_reading 210)
        (sample_reading 220) (sample_reading 230),
      sg_close_mono_micros = 0, sg_close_tick = 320, sg_strings = [[65]], sg_interpretations = [],
      sg_schemas = [], sg_records = [Spawned 0 1 1 0 None None, Died 200 2 1 0 1 None]\<rparr>"

theorem segment_ticks_are_late_witness:
  "abs_ticks (sa_tick (sg_anchor late_segment)) (sg_records late_segment) = [130, 330] \<and>
   sg_close_tick late_segment = 320"
proof -
  have late: "decodes_to (open_anchor sample_build (cw_sinks sample_world ! 0) (sample_reading 210)
        (sample_reading 220) (sample_reading 230))
      (map Call (event_call (clock_now sample_build (bs_clock (cw_sinks sample_world ! 0)) (sample_reading 200))
         (EvSpawned \<lparr>ev_actor = 1, ev_seq = 1\<rparr> ''A'' None None) # [CallDied 300 2 1 [65] 1 None]))
      0 320 late_segment"
    by (simp add: decodes_to_def late_segment_def sample_world_def capture_eval)
  show ?thesis
    using segment_ticks_are_late [OF late, of 30]
    by (simp add: sample_world_def capture_eval late_segment_def saturating_add_def)
qed

end
