(* ===== verification/Lock.thy ===== *)
theory Lock
  imports Run_Loop_Safety
begin

text \<open>
  The lock of an actor's state: \<open>crates/factories_actor/src/runtime/lock.rs\<close>. The unguarded lock is a
  flag that only detects overlap. Here it is alone, under threads, each of whose atomic accesses is a
  step, and as the lock strategy of a task: a dispatched handler acquires the lock with its first
  poll and holds the guard until it completes or is dropped.
\<close>

section \<open>The lock alone\<close>

record 'a UnguardedLock =
  ul_borrowed :: bool
  ul_state :: 'a

definition unguarded_new :: "'a \<Rightarrow> 'a UnguardedLock" where
  "unguarded_new a = \<lparr>ul_borrowed = False, ul_state = a\<rparr>"

definition unguarded_into_inner :: "'a UnguardedLock \<Rightarrow> 'a" where
  "unguarded_into_inner l = ul_state l"

text \<open>The swap sets the flag in either case; the guard is the exclusive reference to the state.\<close>

definition unguarded_acquire :: "'a UnguardedLock \<Rightarrow> (unit, unit) outcome \<times> 'a UnguardedLock" where
  "unguarded_acquire l = (if ul_borrowed l then Inl Panic else Inr (), l\<lparr>ul_borrowed := True\<rparr>)"

definition guard_deref_mut :: "('a \<Rightarrow> 'a) \<Rightarrow> 'a UnguardedLock \<Rightarrow> 'a UnguardedLock" where
  "guard_deref_mut f l = l\<lparr>ul_state := f (ul_state l)\<rparr>"

definition guard_drop :: "'a UnguardedLock \<Rightarrow> 'a UnguardedLock" where
  "guard_drop l = l\<lparr>ul_borrowed := False\<rparr>"

section \<open>Under threads\<close>

text \<open>
  A thread swaps the flag, then makes the reference, then uses it; a use is two steps, its beginning
  and its end, so that a use by another thread in between shows. A thread that panics ends its use
  with whatever it had made of the state and drops its guard while it unwinds.
\<close>

datatype 'a lock_thread = NoGuard | Swapped | Guarded | Using 'a | Overlapped

datatype 'a lock_access = TrySwap | MakeReference | BeginUse | EndUse "'a \<Rightarrow> 'a" | DropGuard

datatype aliasing = Aliased

text \<open>\<open>ls_uses\<close> remembers what was done to the state, in order.\<close>

record 'a lock_system =
  ls_lock :: "'a UnguardedLock"
  ls_threads :: "'a lock_thread list"
  ls_uses :: "('a \<Rightarrow> 'a) list"

fun has_reference :: "'a lock_thread \<Rightarrow> bool" where
  "has_reference Guarded = True"
| "has_reference (Using a) = True"
| "has_reference _ = False"

fun owns_flag :: "'a lock_thread \<Rightarrow> bool" where
  "owns_flag Swapped = True"
| "owns_flag Guarded = True"
| "owns_flag (Using a) = True"
| "owns_flag _ = False"

definition others_have_reference :: "nat \<Rightarrow> 'a lock_thread list \<Rightarrow> bool" where
  "others_have_reference i ts \<longleftrightarrow> (\<exists>j < length ts. j \<noteq> i \<and> has_reference (ts ! j))"

definition set_thread :: "nat \<Rightarrow> 'a lock_thread \<Rightarrow> 'a lock_system \<Rightarrow> 'a lock_system" where
  "set_thread i t s = s\<lparr>ls_threads := (ls_threads s)[i := t]\<rparr>"

text \<open>
  A step of thread \<open>i\<close>; one that its code does not take where it is changes nothing. Two exclusive
  references to the state at once are undefined behaviour.
\<close>

definition lock_act :: "nat \<Rightarrow> 'a lock_access \<Rightarrow> 'a lock_system \<Rightarrow> (aliasing, 'a lock_system) outcome" where
  "lock_act i a s =
     (case (ls_threads s ! i, a) of
        (NoGuard, TrySwap) \<Rightarrow>
          (case unguarded_acquire (ls_lock s) of
             (Inr _, l) \<Rightarrow> Inr (set_thread i Swapped (s\<lparr>ls_lock := l\<rparr>))
           | (Inl _, l) \<Rightarrow> Inr (set_thread i Overlapped (s\<lparr>ls_lock := l\<rparr>)))
      | (Swapped, MakeReference) \<Rightarrow>
          if others_have_reference i (ls_threads s) then Inl (Error Aliased)
          else Inr (set_thread i Guarded s)
      | (Guarded, BeginUse) \<Rightarrow>
          if others_have_reference i (ls_threads s) then Inl (Error Aliased)
          else Inr (set_thread i (Using (ul_state (ls_lock s))) s)
      | (Using seen, EndUse f) \<Rightarrow>
          if others_have_reference i (ls_threads s) then Inl (Error Aliased)
          else Inr (set_thread i Guarded
            (s\<lparr>ls_lock := guard_deref_mut (\<lambda>_. f seen) (ls_lock s), ls_uses := ls_uses s @ [f]\<rparr>))
      | (Guarded, DropGuard) \<Rightarrow> Inr (set_thread i NoGuard (s\<lparr>ls_lock := guard_drop (ls_lock s)\<rparr>))
      | _ \<Rightarrow> Inr s)"

fun lock_run :: "(nat \<times> 'a lock_access) list \<Rightarrow> 'a lock_system \<Rightarrow> (aliasing, 'a lock_system) outcome" where
  "lock_run [] s = Inr s"
| "lock_run ((i, a) # as) s =
     (if i < length (ls_threads s) then and_then (lock_act i a s) (lock_run as) else lock_run as s)"

definition lock_start :: "'a \<Rightarrow> nat \<Rightarrow> 'a lock_system" where
  "lock_start a n = \<lparr>ls_lock = unguarded_new a, ls_threads = replicate n NoGuard, ls_uses = []\<rparr>"

text \<open>
  The invariant: the flag is set exactly while one thread owns it, no other thread does, the state
  is what the uses made of it, and the owner in the middle of a use has seen the latest state.
\<close>

definition lock_ok :: "'a \<Rightarrow> nat \<Rightarrow> nat option \<Rightarrow> 'a lock_system \<Rightarrow> bool" where
  "lock_ok a n owner s \<longleftrightarrow>
     length (ls_threads s) = n \<and> ul_borrowed (ls_lock s) = (owner \<noteq> None) \<and>
     (\<forall>j < n. owns_flag (ls_threads s ! j) \<longleftrightarrow> owner = Some j) \<and> (\<forall>j. owner = Some j \<longrightarrow> j < n) \<and>
     ul_state (ls_lock s) = fold (\<lambda>f. f) (ls_uses s) a \<and>
     (\<forall>j < n. \<forall>seen. ls_threads s ! j = Using seen \<longrightarrow> seen = ul_state (ls_lock s))"

lemma lock_start_ok: "lock_ok a n None (lock_start a n)"
  by (simp add: lock_ok_def lock_start_def unguarded_new_def)

lemma reference_owns: "has_reference t \<Longrightarrow> owns_flag t"
  by (cases t) simp_all

lemma owner_is_alone:
  assumes "lock_ok a n owner s" "i < n" "owns_flag (ls_threads s ! i)"
  shows "\<not> others_have_reference i (ls_threads s)" "owner = Some i"
  using assms reference_owns by (auto simp: lock_ok_def others_have_reference_def)

text \<open>What one step of a thread, to what it becomes, does to the invariant.\<close>

lemma lock_ok_thread:
  assumes "lock_ok a n owner s" "i < n"
    and "owner' = (if owns_flag t then Some i else None)" "owner = None \<or> owner = Some i"
    and "ul_borrowed l = owns_flag t" "ul_state l = fold (\<lambda>f. f) us a"
    and "\<And>seen. t = Using seen \<Longrightarrow> seen = ul_state l"
  shows "lock_ok a n owner' (set_thread i t (s\<lparr>ls_lock := l, ls_uses := us\<rparr>))"
proof -
  have "\<not> owns_flag (ls_threads s ! j)" if "j < n" "j \<noteq> i" for j using assms(1,4) that by (auto simp: lock_ok_def)
  moreover from this have "ls_threads s ! j \<noteq> Using seen" if "j < n" "j \<noteq> i" for j seen using that by fastforce
  ultimately show ?thesis using assms by (auto simp: lock_ok_def set_thread_def nth_list_update)
qed

lemma lock_ok_overlapped:
  "lock_ok a n owner s \<Longrightarrow> i < n \<Longrightarrow> ls_threads s ! i = NoGuard \<Longrightarrow> lock_ok a n owner (set_thread i Overlapped s)"
  by (fastforce simp: lock_ok_def set_thread_def nth_list_update)

lemma lock_act_ok:
  assumes ok: "lock_ok a n owner s" and i: "i < n"
  shows "\<exists>s' owner'. lock_act i x s = Inr s' \<and> lock_ok a n owner' s'"
proof -
  note facts = ok [unfolded lock_ok_def]
  show ?thesis
  proof (cases "ls_threads s ! i")
    case NoGuard
    with facts i have not_i: "owner \<noteq> Some i" by auto
    show ?thesis
    proof (cases x)
      case TrySwap
      show ?thesis
      proof (cases "owner = None")
        case True
        have "lock_ok a n (Some i) (set_thread i Swapped (s\<lparr>ls_lock := (ls_lock s)\<lparr>ul_borrowed := True\<rparr>, ls_uses := ls_uses s\<rparr>))"
          by (rule lock_ok_thread [OF ok i]) (use facts True in auto)
        with True NoGuard TrySwap facts show ?thesis by (auto simp: lock_act_def unguarded_acquire_def)
      next
        case False
        with facts have borrowed: "ul_borrowed (ls_lock s)" by simp
        then have "unguarded_acquire (ls_lock s) = (Inl Panic, ls_lock s)" by (simp add: unguarded_acquire_def)
        with False NoGuard TrySwap lock_ok_overlapped [OF ok i NoGuard] show ?thesis
          by (auto simp: lock_act_def)
      qed
    qed (use NoGuard ok in \<open>auto simp: lock_act_def\<close>)
  next
    case Swapped
    then have owner: "owns_flag (ls_threads s ! i)" by simp
    note alone = owner_is_alone [OF ok i owner]
    have "lock_ok a n (Some i) (set_thread i Guarded (s\<lparr>ls_lock := ls_lock s, ls_uses := ls_uses s\<rparr>))"
      by (rule lock_ok_thread [OF ok i]) (use facts alone in auto)
    with Swapped alone ok show ?thesis by (cases x) (auto simp: lock_act_def)
  next
    case Guarded
    then have owner: "owns_flag (ls_threads s ! i)" by simp
    note alone = owner_is_alone [OF ok i owner]
    have "lock_ok a n (Some i) (set_thread i (Using (ul_state (ls_lock s))) (s\<lparr>ls_lock := ls_lock s, ls_uses := ls_uses s\<rparr>))"
      by (rule lock_ok_thread [OF ok i]) (use facts alone in auto)
    moreover have "lock_ok a n None (set_thread i NoGuard (s\<lparr>ls_lock := guard_drop (ls_lock s), ls_uses := ls_uses s\<rparr>))"
      by (rule lock_ok_thread [OF ok i]) (use facts alone in \<open>auto simp: guard_drop_def\<close>)
    ultimately show ?thesis using Guarded alone ok by (cases x) (auto simp: lock_act_def)
  next
    case (Using seen)
    then have owner: "owns_flag (ls_threads s ! i)" by simp
    note alone = owner_is_alone [OF ok i owner]
    have "seen = ul_state (ls_lock s)" using Using facts i by blast
    then have "lock_ok a n (Some i) (set_thread i Guarded
        (s\<lparr>ls_lock := (ls_lock s)\<lparr>ul_state := f seen\<rparr>, ls_uses := ls_uses s @ [f]\<rparr>))" for f
      by (intro lock_ok_thread [OF ok i]) (use facts alone in auto)
    with Using alone ok show ?thesis by (cases x) (auto simp: lock_act_def guard_deref_mut_def)
  next
    case Overlapped
    with ok show ?thesis by (cases x) (auto simp: lock_act_def)
  qed
qed

lemma lock_run_ok:
  "lock_ok a n owner s \<Longrightarrow> \<exists>s' owner'. lock_run as s = Inr s' \<and> lock_ok a n owner' s'"
proof (induction as arbitrary: owner s)
  case Nil
  then show ?case by auto
next
  case (Cons ix as)
  obtain i x where ix: "ix = (i, x)" by (cases ix)
  show ?case
  proof (cases "i < length (ls_threads s)")
    case True
    with Cons.prems have "i < n" by (simp add: lock_ok_def)
    from lock_act_ok [OF Cons.prems this, of x] Cons.IH True ix show ?thesis by fastforce
  next
    case False
    with Cons ix show ?thesis by simp
  qed
qed

end
