(* ===== verification/Lock_Properties.thy ===== *)
theory Lock_Properties
  imports Lock Run_Loop_Properties
begin

text \<open>
  The properties of the unguarded lock: alone under threads, and as the lock strategy of a task, over
  the contract every exclusive lock strategy keeps.
\<close>

section \<open>Lock strategies\<close>

text \<open>
  What a dispatch needs of \<open>ExclusiveLockStrategy\<close>: an acquire, here the first poll of its future, and
  the drop of its guard. The strategies over tokio's locks only forward to them.
\<close>

record 'l strategy =
  st_acquire :: "'l \<Rightarrow> (unit, unit) outcome \<times> 'l"
  st_release :: "'l \<Rightarrow> 'l"

locale exclusive_lock =
  fixes strategy :: "'l strategy" and free :: "'l \<Rightarrow> bool"
  assumes acquire_free: "free l \<Longrightarrow> \<exists>l'. st_acquire strategy l = (Inr (), l') \<and> \<not> free l'"
    and release_frees: "free (st_release strategy l)"

definition unguarded_strategy :: "'a UnguardedLock strategy" where
  "unguarded_strategy = \<lparr>st_acquire = unguarded_acquire, st_release = guard_drop\<rparr>"

interpretation unguarded: exclusive_lock unguarded_strategy "\<lambda>l. \<not> ul_borrowed l"
  by unfold_locales (simp_all add: unguarded_strategy_def unguarded_acquire_def guard_drop_def)

section \<open>A task and its lock\<close>

text \<open>
  The job a poll of the task polls, if it polls one. Its first poll acquires the lock; a job that
  completes, panics or is dropped drops its guard.
\<close>

definition polled_job :: "('mb, 'p, 'e) actor_code \<Rightarrow> nat \<Rightarrow> ('q, 'mb, 'p, 'e) task \<Rightarrow> nat option" where
  "polled_job code n t =
     (let chosen = (case n of 0 \<Rightarrow> None | Suc i \<Rightarrow> if i < length (tk_jobs t) then Some i else None) in
      case tk_phase t of
        Handling \<Rightarrow> if tk_jobs t = [] then None else Some 0
      | Pulling \<Rightarrow> if ac_concurrent code then chosen else None
      | DrainWork \<Rightarrow> chosen
      | _ \<Rightarrow> None)"

fun has_guard :: "('p, 'e) job \<Rightarrow> bool" where
  "has_guard (JobAcquire m w) = False"
| "has_guard (JobRunning w) = True"

definition drop_guards :: "'l strategy \<Rightarrow> ('p, 'e) job list \<Rightarrow> 'l \<Rightarrow> 'l" where
  "drop_guards strategy jobs l = fold (\<lambda>j. if has_guard j then st_release strategy else (\<lambda>l. l)) jobs l"

fun poll_job_lock :: "'l strategy \<Rightarrow> ('p, 'e) job \<Rightarrow> 'e SharedActorState \<Rightarrow> 'l \<Rightarrow> (unit, unit) outcome \<times> 'l" where
  "poll_job_lock strategy (JobAcquire m w) s l = st_acquire strategy l"
| "poll_job_lock strategy (JobRunning w) s l =
     (Inr (), case fst (job_step (JobRunning w :: ('p, 'e) job) s) of GoesOn _ \<Rightarrow> l | JobDone _ \<Rightarrow> st_release strategy l)"

definition poll_locked :: "'l strategy \<Rightarrow> ('mb, 'p, 'e) actor_code \<Rightarrow> ('q, term_message) mpsc \<Rightarrow> nat \<Rightarrow>
    ('q, 'mb, 'p, 'e) task \<times> 'l \<Rightarrow> (unit, ('q, 'mb, 'p, 'e) task \<times> 'l) outcome" where
  "poll_locked strategy code ops n st =
     (let (t, l) = st in
      case polled_job code n t of
        Some i \<Rightarrow>
          (case poll_job_lock strategy (tk_jobs t ! i) (tk_shared t) l of
             (Inl f, l') \<Rightarrow> Inl f
           | (Inr _, l') \<Rightarrow> Inr (poll_task code ops n t, l'))
      | None \<Rightarrow>
          Inr (poll_task code ops n t,
            if tk_phase t = BeginStop then drop_guards strategy (tk_jobs t) l else l))"

text \<open>The steps of the task with its lock; what the other threads do is not to the jobs.\<close>

inductive locked_step :: "'l strategy \<Rightarrow> ('mb, 'p, 'e) actor_code \<Rightarrow> ('q, term_message) mpsc \<Rightarrow>
    ('q, 'mb, 'p, 'e) task \<times> 'l \<Rightarrow> ('q, 'mb, 'p, 'e) task \<times> 'l \<Rightarrow> bool"
  for strategy :: "'l strategy" and code :: "('mb, 'p, 'e) actor_code" and ops :: "('q, term_message) mpsc" where
  LockedPoll: "poll_locked strategy code ops n st = Inr st' \<Longrightarrow> locked_step strategy code ops st st'"
| LockedAbort: "suspended code t \<Longrightarrow>
    locked_step strategy code ops (t, l) (abort_task t, drop_guards strategy (tk_jobs t) l)"
| LockedOther: "task_step code ops t t' \<Longrightarrow> tk_phase t' = tk_phase t \<Longrightarrow> tk_jobs t' = tk_jobs t \<Longrightarrow>
    locked_step strategy code ops (t, l) (t', l)"

abbreviation locked_steps :: "'l strategy \<Rightarrow> ('mb, 'p, 'e) actor_code \<Rightarrow> ('q, term_message) mpsc \<Rightarrow>
    ('q, 'mb, 'p, 'e) task \<times> 'l \<Rightarrow> ('q, 'mb, 'p, 'e) task \<times> 'l \<Rightarrow> bool" where
  "locked_steps strategy code ops \<equiv> (locked_step strategy code ops)\<^sup>*\<^sup>*"

text \<open>A sequential task has at most one job, and has it only while it handles it.\<close>

definition one_job :: "('q, 'mb, 'p, 'e) task \<Rightarrow> bool" where
  "one_job t \<longleftrightarrow> tk_jobs t = [] \<or> tk_phase t = Handling \<and> (\<exists>j. tk_jobs t = [j])"

lemma one_job_finish:
  "tk_jobs (handled r t) = tk_jobs t" "tk_jobs (remove_job 0 t) = tl (tk_jobs t)"
  by (simp_all add: handled_def remove_job_def drop_Suc)

lemma one_job_handling:
  assumes "tk_jobs t = [j]" "tk_phase t = Handling"
  shows "poll_task code ops n t =
    (case job_step j (tk_shared t) of
       (GoesOn j', s) \<Rightarrow> t\<lparr>tk_shared := s, tk_jobs := [j']\<rparr>
     | (JobDone r, s) \<Rightarrow> handled r (t\<lparr>tk_shared := s, tk_jobs := []\<rparr>))"
  using assms by (simp add: poll_task_def poll_job_def remove_job_def split: prod.splits job_poll.splits)

lemma idle_task_jobs:
  assumes "tk_jobs t = []" "\<not> ac_concurrent code"
  shows "tk_jobs (poll_task code ops n t) = [] \<or>
    tk_phase t = Pulling \<and> tk_phase (poll_task code ops n t) = Handling \<and>
    (\<exists>m w. tk_jobs (poll_task code ops n t) = [JobAcquire m w])"
proof (cases "tk_phase t")
  case (Initializing k)
  with assms show ?thesis
    by (cases k; cases "snd (ac_init code)") (simp_all add: poll_task_def)
next
  case (OnStart w)
  with assms show ?thesis
    by (auto simp: poll_task_def after_start_def Let_def simp del: work_step.simps split: prod.splits sum.splits)
next
  case Pulling
  with assms show ?thesis
    by (auto simp: poll_task_def poll_pull_def next_dispatch_def push_job_def Let_def
        split: prod.splits sum.splits poll.splits option.splits)
next
  case (OnStop w)
  with assms show ?thesis
    by (auto simp: poll_task_def finish_stop_def simp del: work_step.simps split: prod.splits sum.splits)
next
  case (Notify k subs waiting)
  with assms show ?thesis
    by (auto simp: poll_task_def notify_step_def split: list.splits prod.splits delivery.splits)
next
  case (GuardNotify k subs waiting)
  with assms show ?thesis
    by (auto simp: poll_task_def guard_notify_step_def split: list.splits prod.splits delivery.splits)
qed (use assms in \<open>auto simp: poll_task_def loop_top_def begin_stop_def poll_job_def take_step_def Let_def
    split: prod.splits option.splits\<close>)


definition lock_agrees :: "('l \<Rightarrow> bool) \<Rightarrow> ('q, 'mb, 'p, 'e) task \<Rightarrow> 'l \<Rightarrow> bool" where
  "lock_agrees free t l \<longleftrightarrow> one_job t \<and> (free l \<longleftrightarrow> list_all (\<lambda>j. \<not> has_guard j) (tk_jobs t))"

lemma lock_agrees_idle: "lock_agrees free t l \<Longrightarrow> tk_jobs t = [] \<Longrightarrow> free l"
  by (simp add: lock_agrees_def)

context exclusive_lock
begin

lemma drop_guards_frees:
  assumes "one_job t" "free l \<longleftrightarrow> list_all (\<lambda>j. \<not> has_guard j) (tk_jobs t)"
  shows "free (drop_guards strategy (tk_jobs t) l)"
  using assms release_frees by (auto simp: one_job_def drop_guards_def)

text \<open>The one job of a sequential task finds the lock free, and gives it back.\<close>

lemma poll_job_agrees:
  assumes agrees: "lock_agrees free t l" and job: "tk_jobs t = [j]" "tk_phase t = Handling"
  shows "\<exists>l'. poll_job_lock strategy j (tk_shared t) l = (Inr (), l') \<and> lock_agrees free (poll_task code ops n t) l'"
proof (cases j)
  case (JobAcquire m w)
  with agrees job have "free l" by (simp add: lock_agrees_def)
  from acquire_free [OF this] obtain l' where l': "st_acquire strategy l = (Inr (), l')" "\<not> free l'" by blast
  have "tk_jobs (poll_task code ops n t) = [JobRunning w]" "tk_phase (poll_task code ops n t) = Handling"
    using one_job_handling [OF job, of code ops n] JobAcquire job(2) by simp_all
  with l' JobAcquire show ?thesis by (simp add: lock_agrees_def one_job_def)
next
  case (JobRunning w)
  with agrees job have busy: "\<not> free l" by (simp add: lock_agrees_def)
  obtain r s where step: "job_step j (tk_shared t) = (r, s)" by (cases "job_step j (tk_shared t)")
  show ?thesis
  proof (cases r)
    case (GoesOn j')
    with step JobRunning have "has_guard j'" by (auto simp del: work_step.simps split: prod.splits sum.splits)
    with one_job_handling [OF job, of code ops n] step GoesOn JobRunning busy job(2) show ?thesis
      by (simp add: lock_agrees_def one_job_def del: job_step.simps)
  next
    case (JobDone r')
    with one_job_handling [OF job, of code ops n] step JobRunning release_frees show ?thesis
      by (simp add: lock_agrees_def one_job_def one_job_finish del: job_step.simps)
  qed
qed

lemma poll_agrees:
  assumes agrees: "lock_agrees free t l" and sequential: "\<not> ac_concurrent code"
  shows "\<exists>l'. poll_locked strategy code ops n (t, l) = Inr (poll_task code ops n t, l') \<and>
    lock_agrees free (poll_task code ops n t) l'"
proof (cases "tk_jobs t = []")
  case True
  then have "free l" by (rule lock_agrees_idle [OF agrees])
  moreover have "polled_job code n t = None"
    using True sequential by (auto simp: polled_job_def Let_def split: phase.splits nat.splits)
  ultimately show ?thesis
    using idle_task_jobs [OF True sequential, of ops n] True
    by (auto simp: poll_locked_def lock_agrees_def one_job_def drop_guards_def)
next
  case False
  with agrees obtain j where job: "tk_jobs t = [j]" "tk_phase t = Handling"
    by (auto simp: lock_agrees_def one_job_def)
  from poll_job_agrees [OF agrees job, of code ops n] job show ?thesis
    by (auto simp: poll_locked_def polled_job_def Let_def)
qed

lemma locked_step_agrees:
  assumes "locked_step strategy code ops st st'" "\<not> ac_concurrent code" "lock_agrees free (fst st) (snd st)"
  shows "lock_agrees free (fst st') (snd st')"
  using assms(1)
proof (cases rule: locked_step.cases)
  case (LockedPoll n)
  with poll_agrees [OF assms(3,2), of ops n] show ?thesis by auto
next
  case (LockedAbort t l)
  then have "tk_jobs (abort_task t) = []"
    using assms(3) by (auto simp: abort_task_def lock_agrees_def one_job_def)
  with LockedAbort assms(3) drop_guards_frees [of t l] show ?thesis by (simp add: lock_agrees_def one_job_def)
next
  case (LockedOther t t' l)
  with assms(3) show ?thesis by (simp add: lock_agrees_def one_job_def)
qed

lemma locked_steps_agree:
  assumes "locked_steps strategy code ops st st'" "\<not> ac_concurrent code" "lock_agrees free (fst st) (snd st)"
  shows "lock_agrees free (fst st') (snd st')"
  using assms(1) by (induction rule: rtranclp_induct) (use assms(2,3) locked_step_agrees in blast)+

text \<open>Every run of the sequential task is one with its lock.\<close>

lemma task_steps_locked:
  assumes "task_steps code ops t t'" "\<not> ac_concurrent code" "lock_agrees free t l"
  shows "\<exists>l'. locked_steps strategy code ops (t, l) (t', l') \<and> lock_agrees free t' l'"
  using assms(1)
proof (induction rule: rtranclp_induct)
  case base
  with assms(3) show ?case by blast
next
  case (step t1 t2)
  then obtain l1 where run: "locked_steps strategy code ops (t, l) (t1, l1)" and ok: "lock_agrees free t1 l1" by blast
  have "\<exists>l2. locked_step strategy code ops (t1, l1) (t2, l2)"
    using step.hyps(2)
  proof (cases rule: task_step.cases)
    case (Poll n)
    with poll_agrees [OF ok assms(2), of ops n] LockedPoll show ?thesis by blast
  next
    case Abort
    with LockedAbort [of code t1 strategy ops l1] show ?thesis by auto
  qed (use LockedOther [OF step.hyps(2), of strategy l1] in \<open>auto simp: on_shared_def\<close>)
  then obtain l2 where one: "locked_step strategy code ops (t1, l1) (t2, l2)" ..
  from locked_step_agrees [OF one assms(2)] ok have "lock_agrees free t2 l2" by simp
  with run one show ?case by (meson rtranclp.rtrancl_into_rtrancl)
qed

lemma spawn_agrees: "free l \<Longrightarrow> lock_agrees free (spawn_task shared mb ws) l"
  by (simp add: lock_agrees_def one_job_def spawn_task_def)

end

section \<open>The properties\<close>

lemma one_owner_count:
  assumes "length ts = n" "\<And>i. i < n \<Longrightarrow> P (ts ! i) \<Longrightarrow> owner = Some i"
  shows "length (filter P ts) \<le> 1"
proof (rule ccontr)
  assume "\<not> length (filter P ts) \<le> 1"
  then have two: "Suc 0 < card {i. i < length ts \<and> P (ts ! i)}" by (simp add: length_filter_conv_card)
  have "{i. i < length ts \<and> P (ts ! i)} \<subseteq> set_option owner" using assms by auto
  then have "card {i. i < length ts \<and> P (ts ! i)} \<le> card (set_option owner)" by (intro card_mono) auto
  moreover have "card (set_option owner) \<le> 1" by (cases owner) simp_all
  ultimately show False using two by linarith
qed

text \<open>C27: The unguarded lock never hands out aliased state. For any number of threads and any
  interleaving of their swaps, references, uses and drops, no thread makes or uses a reference while
  another has one; the state is what the uses made of it one after the other; and an acquire panics
  exactly when another guard is live at its swap.\<close>

theorem unguarded_lock_exclusive:
  "\<exists>s. lock_run accesses (lock_start a n) = Inr s \<and> length (filter has_reference (ls_threads s)) \<le> 1 \<and>
     unguarded_into_inner (ls_lock s) = fold (\<lambda>f. f) (ls_uses s) a \<and>
     list_all (\<lambda>i. \<exists>s'. lock_act i TrySwap s = Inr s' \<and>
         ls_threads s' ! i = (if list_ex owns_flag (ls_threads s) then Overlapped else Swapped))
       (filter (\<lambda>i. ls_threads s ! i = NoGuard) [0..<n])"
proof -
  obtain s owner where s: "lock_run accesses (lock_start a n) = Inr s" "lock_ok a n owner s"
    using lock_run_ok [OF lock_start_ok [of a n], of accesses] by blast
  note facts = s(2) [unfolded lock_ok_def]
  have "length (filter has_reference (ls_threads s)) \<le> 1"
    by (rule one_owner_count [of _ n _ owner]) (use facts reference_owns in auto)
  moreover have "ul_borrowed (ls_lock s) = list_ex owns_flag (ls_threads s)"
    using facts by (auto simp: list_ex_length)
  ultimately show ?thesis using s(1) facts
    by (auto simp: unguarded_into_inner_def list_all_iff lock_act_def unguarded_acquire_def set_thread_def)
qed

text \<open>C28: A sequential loop keeps its promise of serialized dispatch. Every run of its task, with other
  threads and an abort at any point, is a run of the task with its unguarded lock, and wherever such a
  run is, the next poll does not find the lock taken; when the stop hook gets the actor back from the
  lock, no guard is live.\<close>

theorem serialized_dispatch_never_overlaps:
  fixes a :: 'a
  assumes "task_steps code ops (spawn_task shared mb ws) t" "\<not> ac_concurrent code"
  shows "(\<exists>l. locked_steps unguarded_strategy code ops (spawn_task shared mb ws, unguarded_new a) (t, l)) \<and>
    (\<forall>l n. locked_steps unguarded_strategy code ops (spawn_task shared mb ws, unguarded_new a) (t, l) \<longrightarrow>
      (\<exists>l'. poll_locked unguarded_strategy code ops n (t, l) = Inr (poll_task code ops n t, l')) \<and>
      (\<forall>w. tk_phase t = OnStop w \<longrightarrow> \<not> ul_borrowed l))"
proof -
  have start: "lock_agrees (\<lambda>l. \<not> ul_borrowed l) (spawn_task shared mb ws) (unguarded_new a)"
    by (rule unguarded.spawn_agrees) (simp add: unguarded_new_def)
  have "(\<exists>l'. poll_locked unguarded_strategy code ops n (t, l) = Inr (poll_task code ops n t, l')) \<and>
      (\<forall>w. tk_phase t = OnStop w \<longrightarrow> \<not> ul_borrowed l)"
    if "locked_steps unguarded_strategy code ops (spawn_task shared mb ws, unguarded_new a) (t, l)" for l n
  proof -
    from unguarded.locked_steps_agree [OF that assms(2)] start
    have agrees: "lock_agrees (\<lambda>l. \<not> ul_borrowed l) t l" by simp
    from unguarded.poll_agrees [OF this assms(2), of ops n] lock_agrees_idle [OF agrees] agrees
    show ?thesis by (auto simp: lock_agrees_def one_job_def)
  qed
  with unguarded.task_steps_locked [OF assms start] show ?thesis by blast
qed

theorem serialized_dispatch_never_overlaps_witness:
  "\<exists>l. locked_steps unguarded_strategy clean_code fifo_mpsc (clean_task, unguarded_new (7 :: nat)) (clean_running, l) \<and>
    (\<exists>l'. poll_locked unguarded_strategy clean_code fifo_mpsc 0 (clean_running, l) =
      Inr (poll_task clean_code fifo_mpsc 0 clean_running, l'))"
proof -
  have "task_steps clean_code fifo_mpsc clean_task clean_running" by (simp add: clean_running_def alone_steps)
  note run = this [unfolded sample_task_forms]
  have "\<not> ac_concurrent clean_code" by (simp add: clean_code_def sample_code_def)
  from serialized_dispatch_never_overlaps [OF run this, of "7 :: nat"] show ?thesis
    unfolding sample_task_forms by blast
qed

section \<open>Why the bound on the loop is there\<close>

text \<open>Under a concurrent loop two handlers in flight do overlap, and the flag detects it.\<close>

fun locked_polls :: "'l strategy \<Rightarrow> ('mb, 'p, 'e) actor_code \<Rightarrow> ('q, term_message) mpsc \<Rightarrow> nat list \<Rightarrow>
    ('q, 'mb, 'p, 'e) task \<times> 'l \<Rightarrow> (unit, ('q, 'mb, 'p, 'e) task \<times> 'l) outcome" where
  "locked_polls strategy code ops [] st = Inr st"
| "locked_polls strategy code ops (n # ns) st =
     and_then (poll_locked strategy code ops n st) (locked_polls strategy code ops ns)"

lemma locked_polls_steps:
  "locked_polls strategy code ops ns st = Inr st' \<Longrightarrow> locked_steps strategy code ops st st'"
  by (induction ns arbitrary: st)
    (auto simp: outcome_simps intro: converse_rtranclp_into_rtranclp LockedPoll)

definition eager_code :: "(sample_mailbox, nat, string) actor_code" where
  "eager_code = clean_code\<lparr>ac_concurrent := True\<rparr>"

lemmas eval_locked = eager_code_def clean_code_def clean_task_def sample_defs eval_task poll_locked_def
  polled_job_def raced_def unguarded_strategy_def unguarded_acquire_def unguarded_new_def Let_def

lemma concurrent_dispatch_overlaps:
  "\<exists>st. locked_steps unguarded_strategy eager_code fifo_mpsc (clean_task, unguarded_new (7 :: nat)) st \<and>
     poll_locked unguarded_strategy eager_code fifo_mpsc 2 st = Inl Panic"
proof -
  let ?run = "\<lambda>ns. locked_polls unguarded_strategy eager_code fifo_mpsc ns (clean_task, unguarded_new (7 :: nat))"
  have "\<exists>st. ?run [0, 0, 0, 0, 0, 0, 0, 1, 0, 0] = Inr st \<and>
      poll_locked unguarded_strategy eager_code fifo_mpsc 2 st = Inl Panic"
    by (simp add: eval_locked)
  then obtain st where "?run [0, 0, 0, 0, 0, 0, 0, 1, 0, 0] = Inr st"
      "poll_locked unguarded_strategy eager_code fifo_mpsc 2 st = Inl Panic"
    by blast
  with locked_polls_steps [OF this(1)] show ?thesis by blast
qed

end
