(* ===== verification/Envelope.thy ===== *)
theory Envelope
  imports Factories_Prelude
begin

unbundle bit_operations_syntax

text \<open>
  The message envelope, \<open>crates/factories_actor/src/message/envelope.rs\<close>, with the type
  information it works by (\<open>crates/factories_rtti/src/rtti.rs\<close>): a cache line that holds a message,
  and for an ask the answer sender, inline or behind a box, under a tagged pointer to the
  message's RTTI. The code is unsafe: what it assumes of a data area is checked at every access
  here, and a violation is the error \<open>ub\<close>. Sizes are those of a 64-bit target.
\<close>

section \<open>Objects and memory\<close>

text \<open>
  A value of some Rust type: its type, which object it is, and what it holds. A data area is
  uninitialised, holds a value, or holds a pointer to a box.
\<close>

record obj =
  ob_type :: nat
  ob_id :: nat
  ob_value :: nat

datatype data_area = Uninit | Inline obj | Boxed nat

datatype ub = ReadUninit | WrongType | BadPointer | WrongVariant | TooLarge | Misaligned

text \<open>The boxes on the heap, and the objects whose drop glue ran.\<close>

record memory =
  me_boxes :: "nat \<rightharpoonup> obj"
  me_next :: nat
  me_dropped :: "obj list"

section \<open>Type information\<close>

record BasicTypeRtti =
  bt_size :: nat
  bt_type :: nat

text \<open>\<open>clone_info\<close> and the two \<open>Send\<close> flags are what the specialisation resolved.\<close>

record MessageRtti =
  mr_message_info :: BasicTypeRtti
  mr_answer_sender_info :: BasicTypeRtti
  mr_clone_info :: bool
  mr_send :: bool
  mr_answer_sender_send :: bool

text \<open>The statics by address; \<open>repr(align(8))\<close> keeps the low bits of an address zero.\<close>

type_synonym statics = "u64 \<Rightarrow> MessageRtti"

definition aligned :: "u64 \<Rightarrow> bool" where
  "aligned a \<longleftrightarrow> a AND 7 = 0"

text \<open>Reading a pointer to an object of a type, running its drop glue in place or through its box.\<close>

definition typed :: "nat \<Rightarrow> obj \<Rightarrow> (ub, obj) outcome" where
  "typed ty v = (if ob_type v = ty then Inr v else Inl (Error WrongType))"

definition deref_box :: "nat \<Rightarrow> nat \<Rightarrow> memory \<Rightarrow> (ub, obj) outcome" where
  "deref_box ty p m =
     (case me_boxes m p of None \<Rightarrow> Inl (Error BadPointer) | Some v \<Rightarrow> typed ty v)"

definition read_pointer :: "data_area \<Rightarrow> (ub, nat) outcome" where
  "read_pointer area =
     (case area of
        Uninit \<Rightarrow> Inl (Error ReadUninit)
      | Inline _ \<Rightarrow> Inl (Error WrongType)
      | Boxed p \<Rightarrow> Inr p)"

definition read_inline :: "nat \<Rightarrow> data_area \<Rightarrow> (ub, obj) outcome" where
  "read_inline ty area =
     (case area of
        Uninit \<Rightarrow> Inl (Error ReadUninit)
      | Inline v \<Rightarrow> typed ty v
      | Boxed _ \<Rightarrow> Inl (Error WrongType))"

definition box_new :: "obj \<Rightarrow> memory \<Rightarrow> nat \<times> memory" where
  "box_new v m = (me_next m, m\<lparr>me_boxes := (me_boxes m)(me_next m \<mapsto> v), me_next := me_next m + 1\<rparr>)"

definition box_free :: "nat \<Rightarrow> memory \<Rightarrow> memory" where
  "box_free p m = m\<lparr>me_boxes := (me_boxes m)(p := None)\<rparr>"

definition run_drop :: "obj \<Rightarrow> memory \<Rightarrow> memory" where
  "run_drop v m = m\<lparr>me_dropped := me_dropped m @ [v]\<rparr>"

definition drop_in_place :: "BasicTypeRtti \<Rightarrow> data_area \<Rightarrow> memory \<Rightarrow> (ub, memory) outcome" where
  "drop_in_place info area m =
     and_then (read_inline (bt_type info) area) (\<lambda>v. Inr (run_drop v m))"

definition drop_boxed_ptr :: "BasicTypeRtti \<Rightarrow> nat \<Rightarrow> memory \<Rightarrow> (ub, memory) outcome" where
  "drop_boxed_ptr info p m =
     and_then (deref_box (bt_type info) p m) (\<lambda>v. Inr (run_drop v (box_free p m)))"

text \<open>
  Cloning through the type information; \<open>clones\<close> is the message's \<open>Clone\<close>, which may panic. The
  destination is not initialised in the one use of \<open>clone_into\<close>.
\<close>

definition clone_into :: "(obj \<Rightarrow> obj option) \<Rightarrow> obj \<Rightarrow> (ub, data_area) outcome" where
  "clone_into clones v = (case clones v of None \<Rightarrow> Inl Panic | Some v' \<Rightarrow> Inr (Inline v'))"

definition clone_into_box :: "(obj \<Rightarrow> obj option) \<Rightarrow> obj \<Rightarrow> memory \<Rightarrow> (ub, nat \<times> memory) outcome" where
  "clone_into_box clones v m = (case clones v of None \<Rightarrow> Inl Panic | Some v' \<Rightarrow> Inr (box_new v' m))"

section \<open>The header\<close>

type_synonym PackedEnvelopeHeader = u64

definition header_new :: "u64 \<Rightarrow> bool \<Rightarrow> PackedEnvelopeHeader" where
  "header_new rtti with_answer = (if with_answer then rtti + 1 else rtti)"

definition header_rtti :: "PackedEnvelopeHeader \<Rightarrow> u64" where
  "header_rtti h = h AND NOT 1"

definition expects_answer :: "PackedEnvelopeHeader \<Rightarrow> bool" where
  "expects_answer h \<longleftrightarrow> h AND 1 \<noteq> 0"

datatype EnvelopeKind = KindTell | KindAsk

section \<open>The envelope\<close>

definition CACHE_LINE_SIZE :: nat where "CACHE_LINE_SIZE = 64"
definition TELL_SIZE :: nat where "TELL_SIZE = CACHE_LINE_SIZE - 8"
definition ASK_SIZE :: nat where "ASK_SIZE = CACHE_LINE_SIZE - 8 - 8"
definition ANSWER_SIZE :: nat where "ANSWER_SIZE = 8"

text \<open>The union: \<open>AskPayload\<close> has the message's area and the answer sender's.\<close>

datatype MessageEnvelopePayload = TellPayload data_area | AskPayload data_area data_area

record MessageEnvelope =
  en_header :: PackedEnvelopeHeader
  en_payload :: MessageEnvelopePayload

definition as_tell :: "MessageEnvelopePayload \<Rightarrow> (ub, data_area) outcome" where
  "as_tell p = (case p of TellPayload a \<Rightarrow> Inr a | AskPayload _ _ \<Rightarrow> Inl (Error WrongVariant))"

definition as_ask :: "MessageEnvelopePayload \<Rightarrow> (ub, data_area \<times> data_area) outcome" where
  "as_ask p = (case p of TellPayload _ \<Rightarrow> Inl (Error WrongVariant) | AskPayload a s \<Rightarrow> Inr (a, s))"

text \<open>
  Data areas. \<open>cap\<close> is the area's \<open>PAYLOAD_SIZE\<close>, and \<open>info\<close> the size and type of \<open>T\<close>, or of what the
  RTTI says is in there.
\<close>

definition pack_or_box_into :: "nat \<Rightarrow> BasicTypeRtti \<Rightarrow> obj \<Rightarrow> memory \<Rightarrow> data_area \<times> memory" where
  "pack_or_box_into cap info v m =
     (if bt_size info \<le> cap then (Inline v, m)
      else (case box_new v m of (p, m') \<Rightarrow> (Boxed p, m')))"

definition unpack_or_unbox :: "nat \<Rightarrow> BasicTypeRtti \<Rightarrow> data_area \<Rightarrow> memory \<Rightarrow> (ub, obj \<times> memory) outcome" where
  "unpack_or_unbox cap info area m =
     (if bt_size info \<le> cap then and_then (read_inline (bt_type info) area) (\<lambda>v. Inr (v, m))
      else and_then (read_pointer area) (\<lambda>p.
           and_then (deref_box (bt_type info) p m) (\<lambda>v. Inr (v, box_free p m))))"

definition drop_data_area :: "nat \<Rightarrow> BasicTypeRtti \<Rightarrow> data_area \<Rightarrow> memory \<Rightarrow> (ub, memory) outcome" where
  "drop_data_area cap info area m =
     (if bt_size info \<le> cap then drop_in_place info area m
      else and_then (read_pointer area) (\<lambda>p. drop_boxed_ptr info p m))"

definition unwrap_payload_ref :: "nat \<Rightarrow> BasicTypeRtti \<Rightarrow> data_area \<Rightarrow> memory \<Rightarrow> (ub, obj) outcome" where
  "unwrap_payload_ref cap info area m =
     (if bt_size info \<le> cap then read_inline (bt_type info) area
      else and_then (read_pointer area) (\<lambda>p. deref_box (bt_type info) p m))"

text \<open>A mutable reference is what the borrower makes of the value behind it.\<close>

definition unwrap_payload_mut :: "nat \<Rightarrow> BasicTypeRtti \<Rightarrow> (obj \<Rightarrow> obj) \<Rightarrow> data_area \<Rightarrow> memory \<Rightarrow>
    (ub, data_area \<times> memory) outcome" where
  "unwrap_payload_mut cap info f area m =
     (if bt_size info \<le> cap then and_then (read_inline (bt_type info) area) (\<lambda>v. Inr (Inline (f v), m))
      else and_then (read_pointer area) (\<lambda>p.
           and_then (deref_box (bt_type info) p m)
             (\<lambda>v. Inr (area, m\<lparr>me_boxes := (me_boxes m)(p \<mapsto> f v)\<rparr>))))"

definition envelope_new :: "statics \<Rightarrow> u64 \<Rightarrow> obj \<Rightarrow> obj option \<Rightarrow> memory \<Rightarrow> MessageEnvelope \<times> memory" where
  "envelope_new st rtti message answer_sender m =
     (let header = header_new rtti (answer_sender \<noteq> None); info = mr_message_info (st rtti)
      in case answer_sender of
           None \<Rightarrow>
             (case pack_or_box_into TELL_SIZE info message m of
                (a, m') \<Rightarrow> (\<lparr>en_header = header, en_payload = TellPayload a\<rparr>, m'))
         | Some sender \<Rightarrow>
             (case pack_or_box_into ANSWER_SIZE (mr_answer_sender_info (st rtti)) sender m of
                (s, m1) \<Rightarrow>
                  (case pack_or_box_into ASK_SIZE info message m1 of
                     (a, m2) \<Rightarrow> (\<lparr>en_header = header, en_payload = AskPayload a s\<rparr>, m2))))"

definition envelope_rtti :: "MessageEnvelope \<Rightarrow> u64" where
  "envelope_rtti e = header_rtti (en_header e)"

definition envelope_ty :: "MessageEnvelope \<Rightarrow> EnvelopeKind" where
  "envelope_ty e = (if expects_answer (en_header e) then KindAsk else KindTell)"

text \<open>The \<open>unchecked\<close> operations assert the type in a build with debug assertions.\<close>

definition debug_assert_type :: "bool \<Rightarrow> u64 \<Rightarrow> MessageEnvelope \<Rightarrow> (ub, unit) outcome" where
  "debug_assert_type debug t e = (if debug \<and> t \<noteq> envelope_rtti e then Inl Panic else Inr ())"

definition payload_unchecked :: "bool \<Rightarrow> statics \<Rightarrow> u64 \<Rightarrow> MessageEnvelope \<Rightarrow> memory \<Rightarrow> (ub, obj) outcome" where
  "payload_unchecked debug st t e m =
     and_then (debug_assert_type debug t e) (\<lambda>_.
       case envelope_ty e of
         KindTell \<Rightarrow> and_then (as_tell (en_payload e))
           (\<lambda>a. unwrap_payload_ref TELL_SIZE (mr_message_info (st t)) a m)
       | KindAsk \<Rightarrow> and_then (as_ask (en_payload e))
           (\<lambda>(a, s). unwrap_payload_ref ASK_SIZE (mr_message_info (st t)) a m))"

definition payload :: "bool \<Rightarrow> statics \<Rightarrow> u64 \<Rightarrow> MessageEnvelope \<Rightarrow> memory \<Rightarrow> (ub, obj option) outcome" where
  "payload debug st t e m =
     (if t \<noteq> envelope_rtti e then Inr None
      else and_then (payload_unchecked debug st t e m) (\<lambda>v. Inr (Some v)))"

definition payload_mut_unchecked :: "bool \<Rightarrow> statics \<Rightarrow> u64 \<Rightarrow> (obj \<Rightarrow> obj) \<Rightarrow> MessageEnvelope \<Rightarrow> memory \<Rightarrow>
    (ub, MessageEnvelope \<times> memory) outcome" where
  "payload_mut_unchecked debug st t f e m =
     and_then (debug_assert_type debug t e) (\<lambda>_.
       case envelope_ty e of
         KindTell \<Rightarrow> and_then (as_tell (en_payload e)) (\<lambda>a.
           and_then (unwrap_payload_mut TELL_SIZE (mr_message_info (st t)) f a m)
             (\<lambda>(a', m'). Inr (e\<lparr>en_payload := TellPayload a'\<rparr>, m')))
       | KindAsk \<Rightarrow> and_then (as_ask (en_payload e)) (\<lambda>(a, s).
           and_then (unwrap_payload_mut ASK_SIZE (mr_message_info (st t)) f a m)
             (\<lambda>(a', m'). Inr (e\<lparr>en_payload := AskPayload a' s\<rparr>, m'))))"

definition payload_mut :: "bool \<Rightarrow> statics \<Rightarrow> u64 \<Rightarrow> (obj \<Rightarrow> obj) \<Rightarrow> MessageEnvelope \<Rightarrow> memory \<Rightarrow>
    (ub, bool \<times> MessageEnvelope \<times> memory) outcome" where
  "payload_mut debug st t f e m =
     (if t \<noteq> envelope_rtti e then Inr (False, e, m)
      else and_then (payload_mut_unchecked debug st t f e m) (\<lambda>x. Inr (True, x)))"

definition unwrap_unchecked :: "bool \<Rightarrow> statics \<Rightarrow> u64 \<Rightarrow> MessageEnvelope \<Rightarrow> memory \<Rightarrow>
    (ub, (obj \<times> obj option) \<times> memory) outcome" where
  "unwrap_unchecked debug st t e m =
     and_then (debug_assert_type debug t e) (\<lambda>_.
       case envelope_ty e of
         KindTell \<Rightarrow> and_then (as_tell (en_payload e)) (\<lambda>a.
           and_then (unpack_or_unbox TELL_SIZE (mr_message_info (st t)) a m) (\<lambda>(v, m'). Inr ((v, None), m')))
       | KindAsk \<Rightarrow> and_then (as_ask (en_payload e)) (\<lambda>(a, s).
           and_then (unpack_or_unbox ASK_SIZE (mr_message_info (st t)) a m) (\<lambda>(v, m1).
           and_then (unpack_or_unbox ANSWER_SIZE (mr_answer_sender_info (st t)) s m1) (\<lambda>(r, m2).
             Inr ((v, Some r), m2)))))"

text \<open>\<open>Err(self)\<close> is \<open>None\<close>: the envelope stays with the caller.\<close>

definition unwrap_envelope :: "bool \<Rightarrow> statics \<Rightarrow> u64 \<Rightarrow> MessageEnvelope \<Rightarrow> memory \<Rightarrow>
    (ub, (obj \<times> obj option) option \<times> memory) outcome" where
  "unwrap_envelope debug st t e m =
     (if t \<noteq> envelope_rtti e then Inr (None, m)
      else and_then (unwrap_unchecked debug st t e m) (\<lambda>(x, m'). Inr (Some x, m')))"

definition is_sendable :: "statics \<Rightarrow> MessageEnvelope \<Rightarrow> bool" where
  "is_sendable st e =
     (if \<not> mr_send (st (envelope_rtti e)) then False
      else (case envelope_ty e of KindTell \<Rightarrow> True | KindAsk \<Rightarrow> mr_answer_sender_send (st (envelope_rtti e))))"

definition payload_ptr :: "statics \<Rightarrow> MessageEnvelope \<Rightarrow> (ub, data_area \<times> bool) outcome" where
  "payload_ptr st e =
     (let message_size = bt_size (mr_message_info (st (envelope_rtti e)))
      in case envelope_ty e of
           KindTell \<Rightarrow> and_then (as_tell (en_payload e)) (\<lambda>a. Inr (a, TELL_SIZE < message_size))
         | KindAsk \<Rightarrow> and_then (as_ask (en_payload e)) (\<lambda>(a, s). Inr (a, ASK_SIZE < message_size)))"

definition envelope_drop :: "statics \<Rightarrow> MessageEnvelope \<Rightarrow> memory \<Rightarrow> (ub, memory) outcome" where
  "envelope_drop st e m =
     (let rtti = st (envelope_rtti e)
      in case envelope_ty e of
           KindTell \<Rightarrow> and_then (as_tell (en_payload e)) (\<lambda>a. drop_data_area TELL_SIZE (mr_message_info rtti) a m)
         | KindAsk \<Rightarrow> and_then (as_ask (en_payload e)) (\<lambda>(a, s).
             and_then (drop_data_area ANSWER_SIZE (mr_answer_sender_info rtti) s m)
               (drop_data_area ASK_SIZE (mr_message_info rtti) a)))"

text \<open>
  The payload behind \<open>payload_ptr\<close>, as the clone reads it. The new envelope is built around an
  uninitialised area before the message is cloned: when the clone panics, unwinding drops it.
\<close>

definition payload_object :: "statics \<Rightarrow> MessageEnvelope \<Rightarrow> memory \<Rightarrow> (ub, obj) outcome" where
  "payload_object st e m =
     and_then (payload_ptr st e) (\<lambda>(a, is_boxed).
       if is_boxed then and_then (read_pointer a) (\<lambda>p. deref_box (bt_type (mr_message_info (st (envelope_rtti e)))) p m)
       else read_inline (bt_type (mr_message_info (st (envelope_rtti e)))) a)"

definition unwinding :: "statics \<Rightarrow> MessageEnvelope \<Rightarrow> memory \<Rightarrow> (ub, 'a) outcome" where
  "unwinding st e m = and_then (envelope_drop st e m) (\<lambda>_. Inl Panic)"

definition try_clone_as_tell :: "statics \<Rightarrow> (obj \<Rightarrow> obj option) \<Rightarrow> MessageEnvelope \<Rightarrow> memory \<Rightarrow>
    (ub, MessageEnvelope option \<times> memory) outcome" where
  "try_clone_as_tell st clones e m =
     (let rtti = st (envelope_rtti e);
          new_envelope = \<lparr>en_header = header_new (envelope_rtti e) False, en_payload = TellPayload Uninit\<rparr>
      in if \<not> mr_clone_info rtti then Inr (None, m)
         else and_then (payload_object st e m) (\<lambda>v.
           if TELL_SIZE < bt_size (mr_message_info rtti) then
             (case clone_into_box clones v m of
                Inl _ \<Rightarrow> unwinding st new_envelope m
              | Inr (p, m') \<Rightarrow> Inr (Some (new_envelope\<lparr>en_payload := TellPayload (Boxed p)\<rparr>), m'))
           else
             (case clone_into clones v of
                Inl _ \<Rightarrow> unwinding st new_envelope m
              | Inr a \<Rightarrow> Inr (Some (new_envelope\<lparr>en_payload := TellPayload a\<rparr>), m))))"

definition try_clone :: "statics \<Rightarrow> (obj \<Rightarrow> obj option) \<Rightarrow> MessageEnvelope \<Rightarrow> memory \<Rightarrow>
    (ub, MessageEnvelope option \<times> memory) outcome" where
  "try_clone st clones e m =
     (if envelope_ty e \<noteq> KindTell then Inr (None, m) else try_clone_as_tell st clones e m)"

text \<open>A sendable envelope is an envelope behind a check; \<open>Err\<close> gives the envelope back.\<close>

type_synonym SendableEnvelope = MessageEnvelope

definition try_from_envelope :: "statics \<Rightarrow> MessageEnvelope \<Rightarrow> MessageEnvelope + SendableEnvelope" where
  "try_from_envelope st e = (if is_sendable st e then Inr e else Inl e)"

end
