(* ===== verification/Task_Handle.thy ===== *)
theory Task_Handle
  imports Envelope
begin

text \<open>
  Task handles, \<open>crates/factories_actor/src/actor/task.rs\<close>: a pointer-sized word that holds the runtime's
  task value itself, if it fits, or a box of it, and three function pointers that must read the word
  the way it was written. The memory and its checked accesses are those of \<open>Envelope\<close>.
\<close>

section \<open>The handle\<close>

text \<open>A trampoline is instantiated at the type of the value or at the box of it.\<close>

datatype trampoline = At nat | AtBox nat

record ActorTaskHandle =
  th_handle :: data_area
  th_abort :: trampoline
  th_wait_for_termination :: trampoline
  th_drop :: trampoline

definition task_from_raw :: "data_area \<Rightarrow> trampoline \<Rightarrow> trampoline \<Rightarrow> trampoline \<Rightarrow> ActorTaskHandle" where
  "task_from_raw word abort wait dropper =
     \<lparr>th_handle = word, th_abort = abort, th_wait_for_termination = wait, th_drop = dropper\<rparr>"

text \<open>\<open>layout\<close> is the size and the alignment of a type; a pointer has eight and eight.\<close>

definition pointer_layout :: "nat \<times> nat" where
  "pointer_layout = (8, 8)"

definition fits_word :: "nat \<times> nat \<Rightarrow> bool" where
  "fits_word layout \<longleftrightarrow> fst layout \<le> fst pointer_layout \<and> snd layout \<le> snd pointer_layout"

text \<open>
  The handle is a variable of a pointer's size and alignment. To write through its address a value that is
  larger, or that needs a stricter alignment, is undefined behaviour.
\<close>

definition write_word :: "(nat \<Rightarrow> nat \<times> nat) \<Rightarrow> obj \<Rightarrow> (ub, data_area) outcome" where
  "write_word layout v =
     (if fst pointer_layout < fst (layout (ob_type v)) then Inl (Error TooLarge)
      else if snd pointer_layout < snd (layout (ob_type v)) then Inl (Error Misaligned)
      else Inr (Inline v))"

definition from_vtable :: "(nat \<Rightarrow> nat \<times> nat) \<Rightarrow> obj \<Rightarrow> memory \<Rightarrow> (ub, ActorTaskHandle \<times> memory) outcome" where
  "from_vtable layout v m =
     (if fits_word (layout (ob_type v)) then
        and_then (write_word layout v) (\<lambda>word.
          Inr (\<lparr>th_handle = word, th_abort = At (ob_type v), th_wait_for_termination = At (ob_type v),
            th_drop = At (ob_type v)\<rparr>, m))
      else
        (case box_new v m of
           (p, m') \<Rightarrow>
             Inr (\<lparr>th_handle = Boxed p, th_abort = AtBox (ob_type v), th_wait_for_termination = AtBox (ob_type v),
               th_drop = AtBox (ob_type v)\<rparr>, m')))"

text \<open>The value a trampoline reads out of the word; a box forwards to what it holds.\<close>

definition vtable_ref :: "trampoline \<Rightarrow> data_area \<Rightarrow> memory \<Rightarrow> (ub, obj) outcome" where
  "vtable_ref tr word m =
     (case tr of
        At ty \<Rightarrow> read_inline ty word
      | AtBox ty \<Rightarrow> and_then (read_pointer word) (\<lambda>p. deref_box ty p m))"

definition vtable_drop_trampoline :: "trampoline \<Rightarrow> data_area \<Rightarrow> memory \<Rightarrow> (ub, memory) outcome" where
  "vtable_drop_trampoline tr word m =
     (case tr of
        At ty \<Rightarrow> drop_in_place \<lparr>bt_size = 8, bt_type = ty\<rparr> word m
      | AtBox ty \<Rightarrow> and_then (read_pointer word) (\<lambda>p. drop_boxed_ptr \<lparr>bt_size = 8, bt_type = ty\<rparr> p m))"

section \<open>Handles in use\<close>

datatype task_call = CalledAbort | CalledWait

text \<open>The handles, those already dropped as \<open>None\<close>, the memory, and the calls that reached a value.\<close>

record task_table =
  tt_handles :: "ActorTaskHandle option list"
  tt_memory :: memory
  tt_calls :: "(task_call \<times> obj) list"

datatype task_op = NewTask obj | AbortTask nat | WaitTask nat | DropTask nat

definition call_task :: "task_call \<Rightarrow> trampoline \<Rightarrow> data_area \<Rightarrow> task_table \<Rightarrow> (ub, task_table) outcome" where
  "call_task c tr word s =
     and_then (vtable_ref tr word (tt_memory s)) (\<lambda>v. Inr (s\<lparr>tt_calls := tt_calls s @ [(c, v)]\<rparr>))"

text \<open>A handle is used only while it lives, which ownership sees to.\<close>

definition live_handle :: "nat \<Rightarrow> task_table \<Rightarrow> ActorTaskHandle option" where
  "live_handle i s = (if i < length (tt_handles s) then tt_handles s ! i else None)"

fun task_table_op :: "(nat \<Rightarrow> nat \<times> nat) \<Rightarrow> task_op \<Rightarrow> task_table \<Rightarrow> (ub, task_table) outcome" where
  "task_table_op layout (NewTask v) s =
     and_then (from_vtable layout v (tt_memory s)) (\<lambda>(h, m).
       Inr (s\<lparr>tt_handles := tt_handles s @ [Some h], tt_memory := m\<rparr>))"
| "task_table_op layout (AbortTask i) s =
     (case live_handle i s of
        None \<Rightarrow> Inr s
      | Some h \<Rightarrow> call_task CalledAbort (th_abort h) (th_handle h) s)"
| "task_table_op layout (WaitTask i) s =
     (case live_handle i s of
        None \<Rightarrow> Inr s
      | Some h \<Rightarrow> call_task CalledWait (th_wait_for_termination h) (th_handle h) s)"
| "task_table_op layout (DropTask i) s =
     (case live_handle i s of
        None \<Rightarrow> Inr s
      | Some h \<Rightarrow>
          and_then (vtable_drop_trampoline (th_drop h) (th_handle h) (tt_memory s)) (\<lambda>m.
            Inr (s\<lparr>tt_handles := (tt_handles s)[i := None], tt_memory := m\<rparr>)))"

fun task_table_run :: "(nat \<Rightarrow> nat \<times> nat) \<Rightarrow> task_op list \<Rightarrow> task_table \<Rightarrow> (ub, task_table) outcome" where
  "task_table_run layout [] s = Inr s"
| "task_table_run layout (x # xs) s = and_then (task_table_op layout x s) (task_table_run layout xs)"

section \<open>What a handle stands for\<close>

text \<open>The specification: a handle is the value itself, wherever it is kept.\<close>

record owned_tasks =
  ot_values :: "obj option list"
  ot_calls :: "(task_call \<times> obj) list"
  ot_dropped :: "obj list"

definition owned_value :: "nat \<Rightarrow> owned_tasks \<Rightarrow> obj option" where
  "owned_value i s = (if i < length (ot_values s) then ot_values s ! i else None)"

fun owned_op :: "task_op \<Rightarrow> owned_tasks \<Rightarrow> owned_tasks" where
  "owned_op (NewTask v) s = s\<lparr>ot_values := ot_values s @ [Some v]\<rparr>"
| "owned_op (AbortTask i) s =
     (case owned_value i s of None \<Rightarrow> s | Some v \<Rightarrow> s\<lparr>ot_calls := ot_calls s @ [(CalledAbort, v)]\<rparr>)"
| "owned_op (WaitTask i) s =
     (case owned_value i s of None \<Rightarrow> s | Some v \<Rightarrow> s\<lparr>ot_calls := ot_calls s @ [(CalledWait, v)]\<rparr>)"
| "owned_op (DropTask i) s =
     (case owned_value i s of
        None \<Rightarrow> s
      | Some v \<Rightarrow> s\<lparr>ot_values := (ot_values s)[i := None], ot_dropped := ot_dropped s @ [v]\<rparr>)"

definition no_tasks :: owned_tasks where
  "no_tasks = \<lparr>ot_values = [], ot_calls = [], ot_dropped = []\<rparr>"

definition table_new :: task_table where
  "table_new = \<lparr>tt_handles = [], tt_memory = \<lparr>me_boxes = Map.empty, me_next = 0, me_dropped = []\<rparr>, tt_calls = []\<rparr>"

text \<open>A handle holds a value, all three trampolines reading the word the way it was written.\<close>

definition handle_holds :: "memory \<Rightarrow> ActorTaskHandle \<Rightarrow> obj \<Rightarrow> bool" where
  "handle_holds m h v \<longleftrightarrow>
     (case th_handle h of
        Inline w \<Rightarrow> w = v \<and> th_abort h = At (ob_type v) \<and> th_wait_for_termination h = At (ob_type v) \<and>
          th_drop h = At (ob_type v)
      | Boxed p \<Rightarrow> me_boxes m p = Some v \<and> p < me_next m \<and> th_abort h = AtBox (ob_type v) \<and>
          th_wait_for_termination h = AtBox (ob_type v) \<and> th_drop h = AtBox (ob_type v)
      | Uninit \<Rightarrow> False)"

fun box_of :: "ActorTaskHandle option \<Rightarrow> nat option" where
  "box_of None = None"
| "box_of (Some h) = (case th_handle h of Boxed p \<Rightarrow> Some p | _ \<Rightarrow> None)"

text \<open>
  The refinement: same values, same calls, same drops; the boxes on the heap are those of the live
  handles, each of one handle.
\<close>

definition table_refines :: "task_table \<Rightarrow> owned_tasks \<Rightarrow> bool" where
  "table_refines s a \<longleftrightarrow>
     length (ot_values a) = length (tt_handles s) \<and>
     (\<forall>i < length (tt_handles s). rel_option (handle_holds (tt_memory s)) (tt_handles s ! i) (ot_values a ! i)) \<and>
     tt_calls s = ot_calls a \<and> me_dropped (tt_memory s) = ot_dropped a \<and>
     (\<forall>p. p \<in> dom (me_boxes (tt_memory s)) \<longleftrightarrow> (\<exists>i < length (tt_handles s). box_of (tt_handles s ! i) = Some p)) \<and>
     (\<forall>i < length (tt_handles s). \<forall>j < length (tt_handles s). \<forall>p.
       box_of (tt_handles s ! i) = Some p \<longrightarrow> box_of (tt_handles s ! j) = Some p \<longrightarrow> i = j) \<and>
     (\<forall>p. p \<in> dom (me_boxes (tt_memory s)) \<longrightarrow> p < me_next (tt_memory s))"


lemma table_new_refines: "table_refines table_new no_tasks"
  by (simp add: table_refines_def table_new_def no_tasks_def)

lemma live_handle_refines:
  assumes "table_refines s a"
  shows "case live_handle i s of
      None \<Rightarrow> owned_value i a = None
    | Some h \<Rightarrow> \<exists>v. owned_value i a = Some v \<and> handle_holds (tt_memory s) h v \<and>
        i < length (tt_handles s) \<and> tt_handles s ! i = Some h"
proof (cases "i < length (tt_handles s)")
  case True
  with assms have "rel_option (handle_holds (tt_memory s)) (tt_handles s ! i) (ot_values a ! i)"
      "length (tt_handles s) = length (ot_values a)"
    by (simp_all add: table_refines_def)
  with True show ?thesis
    by (cases "tt_handles s ! i"; cases "ot_values a ! i") (simp_all add: live_handle_def owned_value_def)
next
  case False
  with assms show ?thesis by (simp add: live_handle_def owned_value_def table_refines_def)
qed

text \<open>What a handle holds is what its trampolines read, and what its drop drops.\<close>

lemma holds_ref:
  assumes "handle_holds m h v"
  shows "vtable_ref (th_abort h) (th_handle h) m = Inr v"
    "vtable_ref (th_wait_for_termination h) (th_handle h) m = Inr v"
    "vtable_drop_trampoline (th_drop h) (th_handle h) m =
      Inr (run_drop v (case box_of (Some h) of None \<Rightarrow> m | Some p \<Rightarrow> box_free p m))"
  using assms
  by (auto simp: handle_holds_def vtable_ref_def vtable_drop_trampoline_def read_inline_def read_pointer_def
      typed_def deref_box_def drop_in_place_def drop_boxed_ptr_def split: data_area.splits)

lemma holds_other:
  assumes "handle_holds m h v" "\<And>p. box_of (Some h) = Some p \<Longrightarrow> me_boxes m' p = me_boxes m p"
    and "me_next m \<le> me_next m'"
  shows "handle_holds m' h v"
  using assms by (auto simp: handle_holds_def split: data_area.splits)

lemma fits_word_writes: "fits_word (layout (ob_type v)) \<Longrightarrow> write_word layout v = Inr (Inline v)"
  by (simp add: fits_word_def write_word_def)

lemma from_vtable_returns: "\<exists>h m'. from_vtable layout v m = Inr (h, m')"
  by (simp add: from_vtable_def fits_word_writes split: prod.split)

lemma from_vtable_holds:
  assumes "from_vtable layout v m = Inr (h, m')"
  shows "handle_holds m' h v"
    "m' = (if fits_word (layout (ob_type v)) then m else snd (box_new v m))"
    "box_of (Some h) = (if fits_word (layout (ob_type v)) then None else Some (me_next m))"
  using assms by (auto simp: from_vtable_def handle_holds_def box_new_def fits_word_writes split: if_splits)


lemma table_refinesD:
  assumes "table_refines s a"
  shows "length (ot_values a) = length (tt_handles s)"
    "i < length (tt_handles s) \<Longrightarrow> rel_option (handle_holds (tt_memory s)) (tt_handles s ! i) (ot_values a ! i)"
    "tt_calls s = ot_calls a" "me_dropped (tt_memory s) = ot_dropped a"
    "p \<in> dom (me_boxes (tt_memory s)) \<longleftrightarrow> (\<exists>i < length (tt_handles s). box_of (tt_handles s ! i) = Some p)"
    "i < length (tt_handles s) \<Longrightarrow> j < length (tt_handles s) \<Longrightarrow> box_of (tt_handles s ! i) = Some p \<Longrightarrow>
      box_of (tt_handles s ! j) = Some p \<Longrightarrow> i = j"
    "p \<in> dom (me_boxes (tt_memory s)) \<Longrightarrow> p < me_next (tt_memory s)"
  using assms unfolding table_refines_def by blast+

lemma new_task_refines:
  assumes s: "table_refines s a" and new: "from_vtable layout v (tt_memory s) = Inr (h, m)"
  shows "table_refines (s\<lparr>tt_handles := tt_handles s @ [Some h], tt_memory := m\<rparr>)
    (a\<lparr>ot_values := ot_values a @ [Some v]\<rparr>)"
proof -
  note facts = table_refinesD [OF s] and made = from_vtable_holds [OF new]
  let ?n = "me_next (tt_memory s)" and ?hs = "tt_handles s"
  have fresh: "box_of (?hs ! i) \<noteq> Some ?n" if "i < length ?hs" for i
    using facts(5) [of ?n] facts(7) [of ?n] that by blast
  have keep: "handle_holds m g w" if "handle_holds (tt_memory s) g w" "?hs ! i = Some g" "i < length ?hs" for g w i
    by (rule holds_other [OF that(1)]) (use fresh [OF that(3)] that(2) made(2) in \<open>auto simp: box_new_def\<close>)
  have "rel_option (handle_holds m) (?hs ! i) (ot_values a ! i)" if "i < length ?hs" for i
    using facts(2) [OF that] keep that by (cases "?hs ! i"; cases "ot_values a ! i") simp_all
  then have "\<forall>i < length (?hs @ [Some h]). rel_option (handle_holds m) ((?hs @ [Some h]) ! i) ((ot_values a @ [Some v]) ! i)"
    using facts(1) made(1) by (auto simp: nth_append less_Suc_eq)
  moreover have "\<forall>p. p \<in> dom (me_boxes m) \<longleftrightarrow> (\<exists>i < length (?hs @ [Some h]). box_of ((?hs @ [Some h]) ! i) = Some p)"
    using facts(5) made(2,3) by (auto simp: nth_append less_Suc_eq box_new_def split: if_splits)
  moreover have "\<forall>i < length (?hs @ [Some h]). \<forall>j < length (?hs @ [Some h]). \<forall>p.
       box_of ((?hs @ [Some h]) ! i) = Some p \<longrightarrow> box_of ((?hs @ [Some h]) ! j) = Some p \<longrightarrow> i = j"
    using facts(6) fresh made(3) by (auto simp: nth_append less_Suc_eq split: if_splits)
  moreover have "\<forall>p. p \<in> dom (me_boxes m) \<longrightarrow> p < me_next m"
    using facts(7) made(2) by (auto simp: box_new_def less_Suc_eq)
  moreover have "me_dropped m = ot_dropped a" using facts(4) made(2) by (simp add: box_new_def)
  ultimately show ?thesis using facts(1,3) by (simp add: table_refines_def)
qed

lemma drop_task_refines:
  assumes s: "table_refines s a" and i: "i < length (tt_handles s)" "tt_handles s ! i = Some h"
    and holds: "handle_holds (tt_memory s) h v"
    and m: "m = run_drop v (case box_of (Some h) of None \<Rightarrow> tt_memory s | Some p \<Rightarrow> box_free p (tt_memory s))"
  shows "table_refines (s\<lparr>tt_handles := (tt_handles s)[i := None], tt_memory := m\<rparr>)
    (a\<lparr>ot_values := (ot_values a)[i := None], ot_dropped := ot_dropped a @ [v]\<rparr>)"
proof -
  note facts = table_refinesD [OF s]
  let ?hs = "tt_handles s" and ?hs' = "(tt_handles s)[i := None]"
  have boxes: "me_boxes m = (\<lambda>p. if box_of (Some h) = Some p then None else me_boxes (tt_memory s) p)"
    "me_next m = me_next (tt_memory s)" "me_dropped m = ot_dropped a @ [v]"
    using m facts(4) by (auto simp: run_drop_def box_free_def split: option.splits)
  have other: "box_of (?hs ! j) \<noteq> box_of (Some h)" if "j < length ?hs" "j \<noteq> i" "box_of (?hs ! j) = Some p" for j p
    using facts(6) [OF that(1) i(1) that(3)] that i(2) by metis
  have keep: "handle_holds m g w" if "handle_holds (tt_memory s) g w" "?hs ! j = Some g" "j < length ?hs" "j \<noteq> i" for g w j
    by (rule holds_other [OF that(1)]) (use other [OF that(3,4)] that(2) boxes in auto)
  have "rel_option (handle_holds m) (?hs' ! j) ((ot_values a)[i := None] ! j)" if "j < length ?hs'" for j
    using facts(1) facts(2) [of j] keep [of _ _ j] that i(1)
    by (cases "?hs ! j"; cases "ot_values a ! j") (simp_all add: nth_list_update)
  moreover have "p \<in> dom (me_boxes m) \<longleftrightarrow> (\<exists>j < length ?hs'. box_of (?hs' ! j) = Some p)" for p
  proof -
    have "p \<in> dom (me_boxes m) \<longleftrightarrow> box_of (Some h) \<noteq> Some p \<and> (\<exists>j < length ?hs. box_of (?hs ! j) = Some p)"
      using facts(5) [of p] boxes(1) by (auto simp: domIff)
    also have "\<dots> \<longleftrightarrow> (\<exists>j < length ?hs. j \<noteq> i \<and> box_of (?hs ! j) = Some p)"
      using other i by metis
    also have "\<dots> \<longleftrightarrow> (\<exists>j < length ?hs'. box_of (?hs' ! j) = Some p)"
      using i(1) by (auto simp: nth_list_update split: if_splits)
    finally show ?thesis .
  qed
  moreover have "\<forall>j < length ?hs'. \<forall>k < length ?hs'. \<forall>p.
      box_of (?hs' ! j) = Some p \<longrightarrow> box_of (?hs' ! k) = Some p \<longrightarrow> j = k"
    using facts(6) i(1) by (simp add: nth_list_update)
  moreover have "p \<in> dom (me_boxes m) \<longrightarrow> p < me_next m" for p
    using facts(7) [of p] boxes by (auto simp: domIff)
  ultimately show ?thesis using facts(1,3) boxes(3) by (simp add: table_refines_def)
qed

lemma call_refines:
  "table_refines s a \<Longrightarrow> table_refines (s\<lparr>tt_calls := tt_calls s @ [c]\<rparr>) (a\<lparr>ot_calls := ot_calls a @ [c]\<rparr>)"
  by (simp add: table_refines_def)

lemma task_table_op_refines:
  assumes "table_refines s a"
  shows "\<exists>s'. task_table_op layout x s = Inr s' \<and> table_refines s' (owned_op x a)"
proof (cases x)
  case (NewTask v)
  obtain h m where new: "from_vtable layout v (tt_memory s) = Inr (h, m)"
    using from_vtable_returns by blast
  with new_task_refines [OF assms new] NewTask show ?thesis by simp
next
  case (AbortTask i)
  with live_handle_refines [OF assms, of i] call_refines [OF assms] assms show ?thesis
    by (auto simp: call_task_def holds_ref split: option.splits)
next
  case (WaitTask i)
  with live_handle_refines [OF assms, of i] call_refines [OF assms] assms show ?thesis
    by (auto simp: call_task_def holds_ref split: option.splits)
next
  case (DropTask i)
  show ?thesis
  proof (cases "live_handle i s")
    case None
    with DropTask live_handle_refines [OF assms, of i] assms show ?thesis by simp
  next
    case (Some h)
    with live_handle_refines [OF assms, of i] obtain v where v: "owned_value i a = Some v"
        "handle_holds (tt_memory s) h v" "i < length (tt_handles s)" "tt_handles s ! i = Some h"
      by auto
    from drop_task_refines [OF assms v(3,4,2) refl] Some v DropTask show ?thesis
      by (simp add: holds_ref(3) del: box_of.simps)
  qed
qed

lemma task_table_run_refines:
  "table_refines s a \<Longrightarrow> \<exists>s'. task_table_run layout xs s = Inr s' \<and> table_refines s' (fold owned_op xs a)"
proof (induction xs arbitrary: s a)
  case Nil
  then show ?case by auto
next
  case (Cons x xs)
  from task_table_op_refines [OF Cons.prems, of layout x] Cons.IH show ?case by fastforce
qed

section \<open>The property\<close>

text \<open>C29: A task handle is its value. For every layout of the values' types and every sequence of
  creations, aborts, waits and drops of any number of handles: no value is written into a word that is too
  small or not aligned for it, no trampoline reads the word as what it does not hold, and no freed box is touched; exactly the calls that the owners of the values would make
  reach exactly those values, in that order, and each value is dropped when its handle is; and the
  boxes left on the heap are those of the live handles, so none once all handles are dropped.\<close>

theorem task_handle_is_its_value:
  "\<exists>s. task_table_run layout xs table_new = Inr s \<and>
     tt_calls s = ot_calls (fold owned_op xs no_tasks) \<and>
     me_dropped (tt_memory s) = ot_dropped (fold owned_op xs no_tasks) \<and>
     dom (me_boxes (tt_memory s)) = {p. list_ex (\<lambda>h. box_of h = Some p) (tt_handles s)} \<and>
     map (\<lambda>h. h = None) (tt_handles s) = map (\<lambda>v. v = None) (ot_values (fold owned_op xs no_tasks))"
proof -
  from task_table_run_refines [OF table_new_refines, of layout xs] obtain s where
      run: "task_table_run layout xs table_new = Inr s" and ok: "table_refines s (fold owned_op xs no_tasks)"
    by blast
  note facts = table_refinesD [OF ok]
  have "dom (me_boxes (tt_memory s)) = {p. list_ex (\<lambda>h. box_of h = Some p) (tt_handles s)}"
    using facts(5) by (auto simp: list_ex_length)
  moreover have "map (\<lambda>h. h = None) (tt_handles s) = map (\<lambda>v. v = None) (ot_values (fold owned_op xs no_tasks))"
  proof (rule nth_equalityI)
    fix i assume "i < length (map (\<lambda>h. h = None) (tt_handles s))"
    then show "map (\<lambda>h. h = None) (tt_handles s) ! i = map (\<lambda>v. v = None) (ot_values (fold owned_op xs no_tasks)) ! i"
      using facts(1) facts(2) [of i]
      by (cases "tt_handles s ! i"; cases "ot_values (fold owned_op xs no_tasks) ! i") simp_all
  qed (use facts(1) in simp)
  ultimately show ?thesis using run facts(3,4) by blast
qed

end
