(* ===== verification/Capture_Schema.thy ===== *)
theory Capture_Schema
  imports Extension
begin

text \<open>
  The capture schema, \<open>crates/factories_capture_schema/src\<close> and what its derive macro generates
  (\<open>crates/factories_capture_schema_macro/src/lib.rs\<close>): a value pushes its structure into a visitor,
  each field of a struct only if its predicate admits it. A reader of the events is given here, which
  shows that the push protocol is unambiguous and what it reveals.
\<close>

section \<open>Configurations and predicates\<close>

text \<open>A config borrows an extension set, here with the heap its values live on.\<close>

record 'v CaptureConfig =
  cc_verbosity :: u8
  cc_extensions :: "'v ExtensionSet"
  cc_heap :: "'v heap"

definition config_new :: "u8 \<Rightarrow> 'v heap \<Rightarrow> 'v CaptureConfig" where
  "config_new v h = \<lparr>cc_verbosity = v, cc_extensions = extension_set_new, cc_heap = h\<rparr>"

definition config_with_extensions :: "u8 \<Rightarrow> 'v ExtensionSet \<Rightarrow> 'v heap \<Rightarrow> 'v CaptureConfig" where
  "config_with_extensions v es h = \<lparr>cc_verbosity = v, cc_extensions = es, cc_heap = h\<rparr>"

definition config_get :: "'v Extension \<Rightarrow> 'v CaptureConfig \<Rightarrow> (unit, 'v option) outcome" where
  "config_get ext config = ext_get ext (cc_extensions config) (cc_heap config)"

type_synonym 'v admits = "'v CaptureConfig \<Rightarrow> bool"

definition min_verbosity :: "u8 \<Rightarrow> 'v admits" where
  "min_verbosity level = (\<lambda>config. level \<le> cc_verbosity config)"

definition has_extension :: "'v Extension \<Rightarrow> 'v admits" where
  "has_extension ext = (\<lambda>config. case config_get ext config of Inr (Some _) \<Rightarrow> True | _ \<Rightarrow> False)"

definition pred_and :: "'v admits \<Rightarrow> 'v admits \<Rightarrow> 'v admits" where
  "pred_and a b = (\<lambda>config. a config \<and> b config)"

definition pred_or :: "'v admits \<Rightarrow> 'v admits \<Rightarrow> 'v admits" where
  "pred_or a b = (\<lambda>config. a config \<or> b config)"

definition pred_not :: "'v admits \<Rightarrow> 'v admits" where
  "pred_not a = (\<lambda>config. \<not> a config)"

section \<open>Interpretations and the visitor\<close>

text \<open>A float is its bit pattern.\<close>

type_synonym f64 = u64

datatype Scalar = ScUint u64 | ScInt u64 | ScFloat f64 | ScBool bool | ScStr string

record Interpretation =
  ip_name :: string
  ip_params :: "(string \<times> Scalar) list"

definition interpretation_none :: Interpretation where
  "interpretation_none = \<lparr>ip_name = [], ip_params = []\<rparr>"

definition interpretation_is_none :: "Interpretation \<Rightarrow> bool" where
  "interpretation_is_none i \<longleftrightarrow> ip_name i = []"

record 's FieldVisitor =
  fv_uint :: "u64 \<Rightarrow> 's \<Rightarrow> 's"
  fv_int :: "u64 \<Rightarrow> 's \<Rightarrow> 's"
  fv_float :: "f64 \<Rightarrow> 's \<Rightarrow> 's"
  fv_boolean :: "bool \<Rightarrow> 's \<Rightarrow> 's"
  fv_string :: "string \<Rightarrow> 's \<Rightarrow> 's"
  fv_begin_struct :: "string \<Rightarrow> 's \<Rightarrow> 's"
  fv_field :: "string \<Rightarrow> Interpretation \<Rightarrow> 's \<Rightarrow> 's"
  fv_end_struct :: "'s \<Rightarrow> 's"
  fv_begin_seq :: "nat \<Rightarrow> 's \<Rightarrow> 's"
  fv_end_seq :: "'s \<Rightarrow> 's"
  fv_some :: "'s \<Rightarrow> 's"
  fv_none :: "'s \<Rightarrow> 's"

section \<open>What a derived struct says of its fields\<close>

text \<open>
  The arguments of one \<open>capture\<close> attribute, in the order written: the later of two of a kind wins, as
  it does across the attributes of a field. An \<open>interpret\<close> expression is its value on the struct.
\<close>

datatype 'v capture_arg = ArgSkip | ArgRename string | ArgIf "'v admits" | ArgInterpret Interpretation

record 'v CaptureArgs =
  ca_skip :: bool
  ca_rename :: "string option"
  ca_when :: "'v admits option"
  ca_interpret :: "Interpretation option"

definition default_args :: "'v CaptureArgs" where
  "default_args = \<lparr>ca_skip = False, ca_rename = None, ca_when = None, ca_interpret = None\<rparr>"

fun parse_arg :: "'v capture_arg \<Rightarrow> 'v CaptureArgs \<Rightarrow> 'v CaptureArgs" where
  "parse_arg ArgSkip args = args\<lparr>ca_skip := True\<rparr>"
| "parse_arg (ArgRename s) args = args\<lparr>ca_rename := Some s\<rparr>"
| "parse_arg (ArgIf p) args = args\<lparr>ca_when := Some p\<rparr>"
| "parse_arg (ArgInterpret i) args = args\<lparr>ca_interpret := Some i\<rparr>"

definition parse_args :: "'v capture_arg list \<Rightarrow> 'v CaptureArgs" where
  "parse_args items = fold parse_arg items default_args"

definition merge_args :: "'v CaptureArgs \<Rightarrow> 'v CaptureArgs \<Rightarrow> 'v CaptureArgs" where
  "merge_args args parsed =
     \<lparr>ca_skip = (ca_skip args \<or> ca_skip parsed),
      ca_rename = (if ca_rename parsed \<noteq> None then ca_rename parsed else ca_rename args),
      ca_when = (if ca_when parsed \<noteq> None then ca_when parsed else ca_when args),
      ca_interpret = (if ca_interpret parsed \<noteq> None then ca_interpret parsed else ca_interpret args)\<rparr>"

definition field_args :: "'v capture_arg list list \<Rightarrow> 'v CaptureArgs" where
  "field_args attrs = fold (\<lambda>items args. merge_args args (parse_args items)) attrs default_args"

section \<open>Values and their capture\<close>

text \<open>
  A value of a type that implements \<open>CaptureSchema\<close>: the primitives, the containers, and the structs
  that derive it, with the identifier and the attributes of each field.
\<close>

datatype 'v schema_value =
    U8 u8 | U16 u16 | U32 u32 | U64 u64 | Usize u64
  | I8 u8 | I16 u16 | I32 u32 | I64 u64 | Isize u64
  | F64 f64
  | Boolean bool
  | Str string
  | OwnedString string
  | Reference "'v schema_value"
  | Vector "'v schema_value list"
  | Optional "'v schema_value option"
  | Struct string "'v struct_field list"
and 'v struct_field = StructField string "'v capture_arg list list" "'v schema_value"

definition admitted :: "'v CaptureConfig \<Rightarrow> 'v CaptureArgs \<Rightarrow> bool" where
  "admitted config args \<longleftrightarrow>
     \<not> ca_skip args \<and> (case ca_when args of None \<Rightarrow> True | Some p \<Rightarrow> p config)"

definition field_name :: "string \<Rightarrow> 'v CaptureArgs \<Rightarrow> string" where
  "field_name ident args = (case ca_rename args of Some name \<Rightarrow> name | None \<Rightarrow> ident)"

definition field_interpretation :: "'v CaptureArgs \<Rightarrow> Interpretation" where
  "field_interpretation args = (case ca_interpret args of Some i \<Rightarrow> i | None \<Rightarrow> interpretation_none)"

text \<open>What the derive emits for one field; \<open>push\<close> is the capture of its value.\<close>

definition capture_push :: "'s FieldVisitor \<Rightarrow> 'v CaptureConfig \<Rightarrow> string \<Rightarrow> 'v CaptureArgs \<Rightarrow> ('s \<Rightarrow> 's) \<Rightarrow> 's \<Rightarrow> 's" where
  "capture_push vis config ident args push s =
     (if admitted config args
      then push (fv_field vis (field_name ident args) (field_interpretation args) s)
      else s)"

fun capture :: "'s FieldVisitor \<Rightarrow> 'v CaptureConfig \<Rightarrow> 'v schema_value \<Rightarrow> 's \<Rightarrow> 's"
and capture_field :: "'s FieldVisitor \<Rightarrow> 'v CaptureConfig \<Rightarrow> 'v struct_field \<Rightarrow> 's \<Rightarrow> 's" where
  "capture vis config (U8 n) s = fv_uint vis (ucast n) s"
| "capture vis config (U16 n) s = fv_uint vis (ucast n) s"
| "capture vis config (U32 n) s = fv_uint vis (ucast n) s"
| "capture vis config (U64 n) s = fv_uint vis n s"
| "capture vis config (Usize n) s = fv_uint vis n s"
| "capture vis config (I8 n) s = fv_int vis (scast n) s"
| "capture vis config (I16 n) s = fv_int vis (scast n) s"
| "capture vis config (I32 n) s = fv_int vis (scast n) s"
| "capture vis config (I64 n) s = fv_int vis n s"
| "capture vis config (Isize n) s = fv_int vis n s"
| "capture vis config (F64 x) s = fv_float vis x s"
| "capture vis config (Boolean b) s = fv_boolean vis b s"
| "capture vis config (Str x) s = fv_string vis x s"
| "capture vis config (OwnedString x) s = fv_string vis x s"
| "capture vis config (Reference v) s = capture vis config v s"
| "capture vis config (Vector vs) s =
     fv_end_seq vis (fold (capture vis config) vs (fv_begin_seq vis (length vs) s))"
| "capture vis config (Optional None) s = fv_none vis s"
| "capture vis config (Optional (Some v)) s = capture vis config v (fv_some vis s)"
| "capture vis config (Struct name fs) s =
     fv_end_struct vis (fold (capture_field vis config) fs (fv_begin_struct vis name s))"
| "capture_field vis config (StructField ident attrs v) s =
     capture_push vis config ident (field_args attrs) (capture vis config v) s"

section \<open>The events\<close>

datatype visit_event =
    EvUint u64 | EvInt u64 | EvFloat f64 | EvBool bool | EvString string
  | EvBeginStruct string | EvField string Interpretation | EvEndStruct
  | EvBeginSeq nat | EvEndSeq | EvSome | EvNone

fun visit :: "'s FieldVisitor \<Rightarrow> visit_event \<Rightarrow> 's \<Rightarrow> 's" where
  "visit vis (EvUint n) s = fv_uint vis n s"
| "visit vis (EvInt n) s = fv_int vis n s"
| "visit vis (EvFloat x) s = fv_float vis x s"
| "visit vis (EvBool b) s = fv_boolean vis b s"
| "visit vis (EvString x) s = fv_string vis x s"
| "visit vis (EvBeginStruct n) s = fv_begin_struct vis n s"
| "visit vis (EvField n i) s = fv_field vis n i s"
| "visit vis EvEndStruct s = fv_end_struct vis s"
| "visit vis (EvBeginSeq n) s = fv_begin_seq vis n s"
| "visit vis EvEndSeq s = fv_end_seq vis s"
| "visit vis EvSome s = fv_some vis s"
| "visit vis EvNone s = fv_none vis s"

text \<open>The recorder of the crate's tests: a visitor that keeps the events.\<close>

definition recorder :: "visit_event list FieldVisitor" where
  "recorder =
     \<lparr>fv_uint = (\<lambda>n s. s @ [EvUint n]), fv_int = (\<lambda>n s. s @ [EvInt n]), fv_float = (\<lambda>x s. s @ [EvFloat x]),
      fv_boolean = (\<lambda>b s. s @ [EvBool b]), fv_string = (\<lambda>x s. s @ [EvString x]),
      fv_begin_struct = (\<lambda>n s. s @ [EvBeginStruct n]), fv_field = (\<lambda>n i s. s @ [EvField n i]),
      fv_end_struct = (\<lambda>s. s @ [EvEndStruct]), fv_begin_seq = (\<lambda>n s. s @ [EvBeginSeq n]),
      fv_end_seq = (\<lambda>s. s @ [EvEndSeq]), fv_some = (\<lambda>s. s @ [EvSome]), fv_none = (\<lambda>s. s @ [EvNone])\<rparr>"

definition recording :: "'v CaptureConfig \<Rightarrow> 'v schema_value \<Rightarrow> visit_event list" where
  "recording config v = capture recorder config v []"

section \<open>Reading the events back\<close>

text \<open>
  What a reader should learn of a value, from what is written on its fields and not from the generated code:
  a field with a \<open>skip\<close> anywhere is omitted; of the other arguments the last of a kind counts, in the order they
  stand in, over all attributes of the field: without an \<open>if\<close> the field is always shown, and without a
  \<open>rename\<close> under its identifier.
\<close>

definition last_written :: "('x \<Rightarrow> 'y option) \<Rightarrow> 'x list \<Rightarrow> 'y option" where
  "last_written f xs = (case List.map_filter f (rev xs) of [] \<Rightarrow> None | y # ys \<Rightarrow> Some y)"

fun says_skip :: "'v capture_arg \<Rightarrow> bool" where
  "says_skip ArgSkip = True"
| "says_skip _ = False"

fun says_rename :: "'v capture_arg \<Rightarrow> string option" where
  "says_rename (ArgRename n) = Some n"
| "says_rename _ = None"

fun says_if :: "'v capture_arg \<Rightarrow> 'v admits option" where
  "says_if (ArgIf p) = Some p"
| "says_if _ = None"

fun says_interpret :: "'v capture_arg \<Rightarrow> Interpretation option" where
  "says_interpret (ArgInterpret i) = Some i"
| "says_interpret _ = None"

definition shows_field :: "'v CaptureConfig \<Rightarrow> 'v capture_arg list \<Rightarrow> bool" where
  "shows_field config items \<longleftrightarrow>
     \<not> list_ex says_skip items \<and> (case last_written says_if items of None \<Rightarrow> True | Some p \<Rightarrow> p config)"

datatype revealed =
    RvUint u64 | RvInt u64 | RvFloat f64 | RvBool bool | RvString string
  | RvSeq "revealed list"
  | RvOptional "revealed option"
  | RvStruct string "(string \<times> Interpretation \<times> revealed) list"

fun reveal :: "'v CaptureConfig \<Rightarrow> 'v schema_value \<Rightarrow> revealed"
and reveal_field :: "'v CaptureConfig \<Rightarrow> 'v struct_field \<Rightarrow> (string \<times> Interpretation \<times> revealed) list" where
  "reveal config (U8 n) = RvUint (ucast n)"
| "reveal config (U16 n) = RvUint (ucast n)"
| "reveal config (U32 n) = RvUint (ucast n)"
| "reveal config (U64 n) = RvUint n"
| "reveal config (Usize n) = RvUint n"
| "reveal config (I8 n) = RvInt (scast n)"
| "reveal config (I16 n) = RvInt (scast n)"
| "reveal config (I32 n) = RvInt (scast n)"
| "reveal config (I64 n) = RvInt n"
| "reveal config (Isize n) = RvInt n"
| "reveal config (F64 x) = RvFloat x"
| "reveal config (Boolean b) = RvBool b"
| "reveal config (Str x) = RvString x"
| "reveal config (OwnedString x) = RvString x"
| "reveal config (Reference v) = reveal config v"
| "reveal config (Vector vs) = RvSeq (map (reveal config) vs)"
| "reveal config (Optional None) = RvOptional None"
| "reveal config (Optional (Some v)) = RvOptional (Some (reveal config v))"
| "reveal config (Struct name fs) = RvStruct name (concat (map (reveal_field config) fs))"
| "reveal_field config (StructField ident attrs v) =
     (let items = concat attrs in
      if shows_field config items
      then [(case last_written says_rename items of None \<Rightarrow> ident | Some name \<Rightarrow> name,
             case last_written says_interpret items of None \<Rightarrow> interpretation_none | Some i \<Rightarrow> i,
             reveal config v)]
      else [])"

text \<open>
  The reader: a stack of what is open, innermost first. A value that ends fills the innermost; a
  sequence that announced its length must have it when it ends.
\<close>

datatype open_frame =
    OpenSeq nat "revealed list"
  | OpenSome
  | OpenStruct string "(string \<times> Interpretation \<times> revealed) list"
  | OpenField string Interpretation

record reader =
  rd_stack :: "open_frame list"
  rd_value :: "revealed option"

fun fill :: "revealed \<Rightarrow> open_frame list \<Rightarrow> reader option" where
  "fill v [] = Some \<lparr>rd_stack = [], rd_value = Some v\<rparr>"
| "fill v (OpenSeq n vs # st) = Some \<lparr>rd_stack = OpenSeq n (vs @ [v]) # st, rd_value = None\<rparr>"
| "fill v (OpenSome # st) = fill (RvOptional (Some v)) st"
| "fill v (OpenField f i # OpenStruct name fs # st) =
     Some \<lparr>rd_stack = OpenStruct name (fs @ [(f, i, v)]) # st, rd_value = None\<rparr>"
| "fill v _ = None"

definition open_value :: "open_frame \<Rightarrow> reader \<Rightarrow> reader option" where
  "open_value frame r = (if rd_value r = None then Some (r\<lparr>rd_stack := frame # rd_stack r\<rparr>) else None)"

definition fill_value :: "revealed \<Rightarrow> reader \<Rightarrow> reader option" where
  "fill_value v r = (if rd_value r = None then fill v (rd_stack r) else None)"

fun read_event :: "visit_event \<Rightarrow> reader \<Rightarrow> reader option" where
  "read_event (EvUint n) r = fill_value (RvUint n) r"
| "read_event (EvInt n) r = fill_value (RvInt n) r"
| "read_event (EvFloat x) r = fill_value (RvFloat x) r"
| "read_event (EvBool b) r = fill_value (RvBool b) r"
| "read_event (EvString x) r = fill_value (RvString x) r"
| "read_event (EvBeginStruct name) r = open_value (OpenStruct name []) r"
| "read_event (EvField f i) r =
     (case rd_stack r of OpenStruct name fs # st \<Rightarrow> open_value (OpenField f i) r | _ \<Rightarrow> None)"
| "read_event EvEndStruct r =
     (case rd_stack r of
        OpenStruct name fs # st \<Rightarrow> fill_value (RvStruct name fs) (r\<lparr>rd_stack := st\<rparr>) | _ \<Rightarrow> None)"
| "read_event (EvBeginSeq n) r = open_value (OpenSeq n []) r"
| "read_event EvEndSeq r =
     (case rd_stack r of
        OpenSeq n vs # st \<Rightarrow> if length vs = n then fill_value (RvSeq vs) (r\<lparr>rd_stack := st\<rparr>) else None
      | _ \<Rightarrow> None)"
| "read_event EvSome r = open_value OpenSome r"
| "read_event EvNone r = fill_value (RvOptional None) r"

fun read_events :: "visit_event list \<Rightarrow> reader \<Rightarrow> reader option" where
  "read_events [] r = Some r"
| "read_events (e # es) r = Option.bind (read_event e r) (read_events es)"

definition read_value :: "visit_event list \<Rightarrow> revealed option" where
  "read_value es =
     (case read_events es \<lparr>rd_stack = [], rd_value = None\<rparr> of
        Some r \<Rightarrow> (case rd_stack r of [] \<Rightarrow> rd_value r | _ \<Rightarrow> None)
      | None \<Rightarrow> None)"

section \<open>Any visitor sees the recorded events\<close>

definition push_events :: "'s FieldVisitor \<Rightarrow> visit_event list \<Rightarrow> 's \<Rightarrow> 's" where
  "push_events vis es s = fold (visit vis) es s"

text \<open>The events of a value, written out.\<close>

fun events_of :: "'v CaptureConfig \<Rightarrow> 'v schema_value \<Rightarrow> visit_event list"
and events_of_field :: "'v CaptureConfig \<Rightarrow> 'v struct_field \<Rightarrow> visit_event list" where
  "events_of config (U8 n) = [EvUint (ucast n)]"
| "events_of config (U16 n) = [EvUint (ucast n)]"
| "events_of config (U32 n) = [EvUint (ucast n)]"
| "events_of config (U64 n) = [EvUint n]"
| "events_of config (Usize n) = [EvUint n]"
| "events_of config (I8 n) = [EvInt (scast n)]"
| "events_of config (I16 n) = [EvInt (scast n)]"
| "events_of config (I32 n) = [EvInt (scast n)]"
| "events_of config (I64 n) = [EvInt n]"
| "events_of config (Isize n) = [EvInt n]"
| "events_of config (F64 x) = [EvFloat x]"
| "events_of config (Boolean b) = [EvBool b]"
| "events_of config (Str x) = [EvString x]"
| "events_of config (OwnedString x) = [EvString x]"
| "events_of config (Reference v) = events_of config v"
| "events_of config (Vector vs) =
     EvBeginSeq (length vs) # concat (map (events_of config) vs) @ [EvEndSeq]"
| "events_of config (Optional None) = [EvNone]"
| "events_of config (Optional (Some v)) = EvSome # events_of config v"
| "events_of config (Struct name fs) =
     EvBeginStruct name # concat (map (events_of_field config) fs) @ [EvEndStruct]"
| "events_of_field config (StructField ident attrs v) =
     (let args = field_args attrs in
      if admitted config args
      then EvField (field_name ident args) (field_interpretation args) # events_of config v
      else [])"

text \<open>The generated code finds in the attributes what is written in them.\<close>

lemma last_written_snoc: "last_written f (xs @ [x]) = (case f x of None \<Rightarrow> last_written f xs | Some y \<Rightarrow> Some y)"
  by (simp add: last_written_def List.map_filter_simps split: option.split)

lemma last_written_Nil [simp]: "last_written f [] = None"
  by (simp add: last_written_def List.map_filter_simps)

lemma last_written_append:
  "last_written f (xs @ ys) = (case last_written f ys of None \<Rightarrow> last_written f xs | Some y \<Rightarrow> Some y)"
proof (induction ys rule: rev_induct)
  case (snoc y ys)
  then show ?case by (simp add: last_written_snoc flip: append_assoc split: option.split)
qed simp

definition written_args :: "'v capture_arg list \<Rightarrow> 'v CaptureArgs" where
  "written_args items = \<lparr>ca_skip = list_ex says_skip items, ca_rename = last_written says_rename items,
     ca_when = last_written says_if items, ca_interpret = last_written says_interpret items\<rparr>"

lemma parse_args_written: "parse_args items = written_args items"
  unfolding parse_args_def
proof (induction items rule: rev_induct)
  case Nil
  show ?case by (simp add: written_args_def default_args_def)
next
  case (snoc x items)
  then show ?case by (cases x) (simp_all add: written_args_def last_written_snoc)
qed

lemma field_args_written: "field_args attrs = written_args (concat attrs)"
  unfolding field_args_def
proof (induction attrs rule: rev_induct)
  case Nil
  show ?case by (simp add: written_args_def default_args_def)
next
  case (snoc items attrs)
  then show ?case
    by (auto simp: written_args_def merge_args_def parse_args_written last_written_append split: option.split)
qed

lemma admitted_written: "admitted config (field_args attrs) \<longleftrightarrow> shows_field config (concat attrs)"
  by (simp add: admitted_def field_args_written written_args_def shows_field_def)

lemma reveal_field_args:
  "reveal_field config (StructField ident attrs v) =
     (if admitted config (field_args attrs)
      then [(field_name ident (field_args attrs), field_interpretation (field_args attrs), reveal config v)] else [])"
  unfolding reveal_field.simps admitted_written Let_def
  by (simp add: field_name_def field_interpretation_def field_args_written written_args_def)

lemma fold_push:
  "(\<And>x s. x \<in> set xs \<Longrightarrow> f x s = fold g (h x) s) \<Longrightarrow> fold f xs s = fold g (concat (map h xs)) s"
  by (induction xs arbitrary: s) simp_all

lemma capture_events:
  "capture vis config v s = fold (visit vis) (events_of config v) s"
  "capture_field vis config f s = fold (visit vis) (events_of_field config f) s"
proof (induction vis config v s and vis config f s rule: capture_capture_field.induct)
  case (16 vis config vs s)
  then have "fold (capture vis config) vs t = fold (visit vis) (concat (map (events_of config) vs)) t" for t
    by (intro fold_push) simp
  then show ?case by simp
next
  case (19 vis config name fs s)
  then have "fold (capture_field vis config) fs t = fold (visit vis) (concat (map (events_of_field config) fs)) t" for t
    by (intro fold_push) simp
  then show ?case by simp
qed (simp_all add: Let_def capture_push_def)

lemma fold_recorder: "fold (visit recorder) es s = s @ es"
proof (induction es arbitrary: s)
  case (Cons e es)
  then show ?case by (cases e) (simp_all add: recorder_def)
qed simp

lemma recorded_events: "recording config v = events_of config v"
  by (simp add: recording_def capture_events fold_recorder)

end
