(* ===== verification/Capture_Schema_Properties.thy ===== *)
theory Capture_Schema_Properties
  imports Capture_Schema
begin

text \<open>
  The properties of the capture schema: its events read back to what the config admits, and what it
  does not admit leaves no trace in them.
\<close>

section \<open>The reader undoes the capture\<close>

abbreviation reading :: "open_frame list \<Rightarrow> reader" where
  "reading st \<equiv> \<lparr>rd_stack = st, rd_value = None\<rparr>"

lemma read_events_append: "read_events (es @ fs) r = Option.bind (read_events es r) (read_events fs)"
  by (induction es arbitrary: r) (simp_all split: bind_split)

lemma reading_fields:
  assumes "\<And>f acc. f \<in> set fs \<Longrightarrow> read_events (events_of_field config f) (reading (OpenStruct name acc # st)) =
      Some (reading (OpenStruct name (acc @ reveal_field config f) # st))"
  shows "read_events (concat (map (events_of_field config) fs)) (reading (OpenStruct name acc # st)) =
    Some (reading (OpenStruct name (acc @ concat (map (reveal_field config) fs)) # st))"
  using assms by (induction fs arbitrary: acc) (simp_all add: read_events_append)

lemma reading_elements:
  assumes "\<And>v acc. v \<in> set vs \<Longrightarrow> read_events (events_of config v) (reading (OpenSeq n acc # st)) =
      Some (reading (OpenSeq n (acc @ [reveal config v]) # st))"
  shows "read_events (concat (map (events_of config) vs)) (reading (OpenSeq n acc # st)) =
    Some (reading (OpenSeq n (acc @ map (reveal config) vs) # st))"
  using assms by (induction vs arbitrary: acc) (simp_all add: read_events_append)

lemma read_events_of:
  "read_events (events_of config v) (reading st) = fill (reveal config v) st"
  "read_events (events_of_field config f) (reading (OpenStruct name acc # st)) =
    Some (reading (OpenStruct name (acc @ reveal_field config f) # st))"
proof (induction config v and config f arbitrary: st and name acc st rule: events_of_events_of_field.induct)
  case (16 config vs)
  have "read_events (concat (map (events_of config) vs)) (reading (OpenSeq (length vs) [] # st)) =
      Some (reading (OpenSeq (length vs) ([] @ map (reveal config) vs) # st))"
    by (rule reading_elements) (use 16 in simp)
  then show ?case by (simp add: read_events_append open_value_def fill_value_def split: bind_split)
next
  case (19 config name fs)
  have "read_events (concat (map (events_of_field config) fs)) (reading (OpenStruct name [] # st)) =
      Some (reading (OpenStruct name ([] @ concat (map (reveal_field config) fs)) # st))"
    by (rule reading_fields) (use 19 in simp)
  then show ?case by (simp add: read_events_append open_value_def fill_value_def split: bind_split)
next
  case (20 config ident attrs v)
  then show ?case
    unfolding reveal_field_args by (simp add: Let_def read_events_append open_value_def fill_value_def)
qed (simp_all add: Let_def read_events_append open_value_def fill_value_def split: bind_split)

text \<open>C31: The push protocol is unambiguous and shows exactly what the config admits. Any visitor that
  a value is captured into is folded over the same events, and these events read back to the value's
  structure: every leaf widened to its kind, every sequence with the length it announced, and of every
  struct exactly the fields on which no \<open>skip\<close> is written and whose last \<open>if\<close>, if there is one, admits them,
  each under the last \<open>rename\<close> and \<open>interpret\<close> written on it, and its own name and none without.\<close>

theorem capture_reads_back:
  "capture vis config v s = push_events vis (recording config v) s \<and>
   read_value (recording config v) = Some (reveal config v)"
  by (simp add: push_events_def capture_events recorded_events read_value_def read_events_of)

section \<open>What is withheld leaves no trace\<close>

text \<open>
  Two values of a type that differ only in what the config withholds. The interpretation of a field
  that is shown may read its siblings, also withheld ones: it has to be the same.
\<close>

inductive agrees :: "'v CaptureConfig \<Rightarrow> 'v schema_value \<Rightarrow> 'v schema_value \<Rightarrow> bool"
  and agrees_field :: "'v CaptureConfig \<Rightarrow> 'v struct_field \<Rightarrow> 'v struct_field \<Rightarrow> bool"
  for config :: "'v CaptureConfig" where
  Same: "agrees config v v"
| Reference: "agrees config v w \<Longrightarrow> agrees config (Reference v) (Reference w)"
| Vector: "list_all2 (agrees config) vs ws \<Longrightarrow> agrees config (Vector vs) (Vector ws)"
| Present: "agrees config v w \<Longrightarrow> agrees config (Optional (Some v)) (Optional (Some w))"
| Struct: "list_all2 (agrees_field config) fs gs \<Longrightarrow> agrees config (Struct name fs) (Struct name gs)"
| Shown: "agrees config v w \<Longrightarrow> agrees_field config (StructField i a v) (StructField i a w)"
| Withheld: "\<not> admitted config (field_args a) \<Longrightarrow> \<not> admitted config (field_args b) \<Longrightarrow>
    agrees_field config (StructField i a v) (StructField j b w)"

lemma list_all2_map_eq: "list_all2 (\<lambda>x y. R x y \<and> f x = f y) xs ys \<Longrightarrow> map f xs = map f ys"
  by (induction rule: list_all2_induct) simp_all

lemma agrees_events:
  "agrees config v w \<Longrightarrow> events_of config v = events_of config w"
  "agrees_field config f g \<Longrightarrow> events_of_field config f = events_of_field config g"
proof (induction rule: agrees_agrees_field.inducts)
  case (Vector vs ws)
  from list_all2_map_eq [OF this] list_all2_lengthD [OF this] show ?case by simp
next
  case (Struct fs gs name)
  from list_all2_map_eq [OF this] show ?case by simp
qed (simp_all add: Let_def)

text \<open>What a config withholds leaves no trace. Two values that differ only inside fields that are
  skipped or whose predicate refuses them, at any depth, make the same calls on every visitor.\<close>

theorem withheld_leaves_no_trace:
  assumes "agrees config v w"
  shows "capture vis config v s = capture vis config w s"
  using agrees_events(1) [OF assms] by (simp add: capture_events)

text \<open>A frame whose samples need verbosity 1, as in the crate's tests, at verbosity 0.\<close>

definition sample_frame :: "u32 list \<Rightarrow> nat schema_value" where
  "sample_frame samples = Struct ''Frame''
     [StructField ''id'' [] (U32 1),
      StructField ''samples'' [[ArgIf (min_verbosity 1), ArgInterpret \<lparr>ip_name = ''audio'', ip_params = []\<rparr>]]
        (Vector (map U32 samples)),
      StructField ''secret'' [[ArgSkip]] (U32 3),
      StructField ''note'' [[ArgRename ''remark'']] (Optional None)]"

definition quiet_config :: "nat CaptureConfig" where
  "quiet_config = config_new 0 \<lparr>hp_cells = Map.empty, hp_next = 0\<rparr>"

lemma sample_frames_agree: "agrees quiet_config (sample_frame [9]) (sample_frame [7, 8])"
  by (simp add: sample_frame_def quiet_config_def config_new_def agrees_agrees_field.intros admitted_def
      field_args_def parse_args_def merge_args_def default_args_def min_verbosity_def)

theorem withheld_leaves_no_trace_witness:
  "recording quiet_config (sample_frame [9]) = recording quiet_config (sample_frame [7, 8]) \<and>
   recording quiet_config (sample_frame [9]) =
     [EvBeginStruct ''Frame'', EvField ''id'' interpretation_none, EvUint 1,
      EvField ''remark'' interpretation_none, EvNone, EvEndStruct]"
proof -
  have "recording quiet_config (sample_frame [9]) = recording quiet_config (sample_frame [7, 8])"
    unfolding recording_def by (rule withheld_leaves_no_trace [OF sample_frames_agree])
  then show ?thesis
    by (simp add: recorded_events sample_frame_def quiet_config_def config_new_def admitted_def field_args_def
        parse_args_def merge_args_def default_args_def min_verbosity_def field_name_def
        field_interpretation_def)
qed

end
