(* ===== verification/Specialize.thy ===== *)
theory Specialize
  imports Factories_Prelude
begin

text \<open>
  Selection by trait bounds, \<open>crates/factories_types_macro/src/specialize.rs\<close>, and its uses: the
  runtime type information (\<open>factories_rtti/src/rtti.rs\<close>, \<open>factories_actor/src/message/rtti.rs\<close>) and the
  hooks and the event driver the actor derive generates (\<open>factories_actor_macro/src/actor.rs\<close>). The
  macro turns the arms of a match over bounds into one impl each, for a checker type behind a
  decreasing number of references, and leaves the choice to Rust's method lookup.
\<close>

section \<open>Rust's method lookup\<close>

text \<open>
  An impl that has the method: the number of references of the type its \<open>self\<close> argument has, over
  the checker, whether its bounds hold, and what it runs. What comes of a use of the macro: the method
  that is found, the compiler's two complaints, or the macro's own.
\<close>

record 'b method_impl =
  mi_self_refs :: nat
  mi_holds :: bool
  mi_body :: 'b

datatype 'b lookup = Found 'b | Ambiguous | NoMethod | Rejected

definition applicable :: "'b method_impl list \<Rightarrow> nat \<Rightarrow> 'b method_impl list" where
  "applicable impls refs = filter (\<lambda>im. mi_self_refs im = refs \<and> mi_holds im) impls"

text \<open>
  The candidate types of a receiver behind \<open>n\<close> references are that type, a reference to it, and the
  same for what it dereferences to, down to the checker; the first with a method decides, and two
  methods there are ambiguous.
\<close>

definition at_candidate :: "'b method_impl list \<Rightarrow> 'b lookup \<Rightarrow> 'b lookup" where
  "at_candidate ms otherwise = (case ms of [] \<Rightarrow> otherwise | [im] \<Rightarrow> Found (mi_body im) | _ \<Rightarrow> Ambiguous)"

fun method_lookup :: "'b method_impl list \<Rightarrow> nat \<Rightarrow> 'b lookup" where
  "method_lookup impls 0 =
     at_candidate (applicable impls 0) (at_candidate (applicable impls 1) NoMethod)"
| "method_lookup impls (Suc n) =
     at_candidate (applicable impls (Suc n)) (at_candidate (applicable impls (Suc (Suc n))) (method_lookup impls n))"

section \<open>The macro\<close>

text \<open>
  A selector of an arm; the type under test is what it implements. A bounded selector may bind the
  type to a name.
\<close>

datatype SpecializePatSelector = Wildcard | Bounded "string option" "string list"

record 'b arm =
  arm_selectors :: "SpecializePatSelector list"
  arm_body :: 'b

fun selector_binding :: "SpecializePatSelector \<Rightarrow> string option" where
  "selector_binding Wildcard = None"
| "selector_binding (Bounded binding bounds) = binding"

definition selector_where_clause :: "(string \<Rightarrow> bool) \<Rightarrow> SpecializePatSelector \<Rightarrow> bool" where
  "selector_where_clause implements selector =
     (case selector of Wildcard \<Rightarrow> True | Bounded binding bounds \<Rightarrow> list_all implements bounds)"

text \<open>The binding of an arm, and whether two of its selectors disagree, which is reported.\<close>

fun resolve_type_var_binding :: "string option \<Rightarrow> SpecializePatSelector list \<Rightarrow> string option \<times> bool" where
  "resolve_type_var_binding found [] = (found, True)"
| "resolve_type_var_binding found (s # ss) =
     (case (selector_binding s, found) of
        (None, _) \<Rightarrow> resolve_type_var_binding found ss
      | (Some ident, None) \<Rightarrow> resolve_type_var_binding (Some ident) ss
      | (Some ident, Some prev) \<Rightarrow>
          (let (r, ok) = resolve_type_var_binding found ss in (r, ok \<and> prev = ident)))"

record 'b resolved_selector =
  rs_arm :: nat
  rs_index :: nat
  rs_selector :: SpecializePatSelector
  rs_binding :: "string option"
  rs_body :: 'b
  rs_ref_count :: nat

text \<open>All selectors of all arms in a row; the first is behind the most references.\<close>

definition total_selectors :: "'b arm list \<Rightarrow> nat" where
  "total_selectors arms = sum_list (map (\<lambda>a. length (arm_selectors a)) arms)"

fun resolve_selectors_of :: "nat \<Rightarrow> nat \<Rightarrow> nat \<Rightarrow> nat \<Rightarrow> 'b arm \<Rightarrow> SpecializePatSelector list \<Rightarrow> 'b resolved_selector list" where
  "resolve_selectors_of count flat k i a [] = []"
| "resolve_selectors_of count flat k i a (s # ss) =
     \<lparr>rs_arm = k, rs_index = i, rs_selector = s, rs_binding = fst (resolve_type_var_binding None (arm_selectors a)),
      rs_body = arm_body a, rs_ref_count = count - 1 - flat\<rparr> #
     resolve_selectors_of count (Suc flat) k (Suc i) a ss"

fun resolve_arms :: "nat \<Rightarrow> nat \<Rightarrow> nat \<Rightarrow> 'b arm list \<Rightarrow> 'b resolved_selector list" where
  "resolve_arms count flat k [] = []"
| "resolve_arms count flat k (a # as) =
     resolve_selectors_of count flat k 0 a (arm_selectors a) @
     resolve_arms count (flat + length (arm_selectors a)) (Suc k) as"

definition resolve_deferred_selectors :: "'b arm list \<Rightarrow> 'b resolved_selector list" where
  "resolve_deferred_selectors arms = resolve_arms (total_selectors arms) 0 0 arms"

definition resolve_inline_selectors :: "'b arm list \<Rightarrow> 'b resolved_selector list" where
  "resolve_inline_selectors arms = resolve_arms (total_selectors arms) 0 0 arms"

text \<open>
  The impl of a selector: for the checker behind \<open>ref_count\<close> references, with a method on \<open>&self\<close>. In
  the deferred form the bounds are a where clause, in the inline form they are on the parameter.
\<close>

definition gen_deferred_resolver :: "(string \<Rightarrow> bool) \<Rightarrow> 'b resolved_selector \<Rightarrow> 'b method_impl" where
  "gen_deferred_resolver implements r =
     \<lparr>mi_self_refs = Suc (rs_ref_count r), mi_holds = selector_where_clause implements (rs_selector r),
      mi_body = rs_body r\<rparr>"

definition gen_inline_resolver :: "(string \<Rightarrow> bool) \<Rightarrow> 'b resolved_selector \<Rightarrow> 'b method_impl" where
  "gen_inline_resolver implements r =
     \<lparr>mi_self_refs = Suc (rs_ref_count r),
      mi_holds = (case rs_selector r of Bounded binding bounds \<Rightarrow> list_all implements bounds | Wildcard \<Rightarrow> True),
      mi_body = rs_body r\<rparr>"

text \<open>
  The call is on the checker behind as many references as there are selectors. Bindings that disagree
  within an arm were reported as an error on the way, so the use does not compile.
\<close>

definition bindings_agree :: "'b arm list \<Rightarrow> bool" where
  "bindings_agree arms = list_all (\<lambda>a. snd (resolve_type_var_binding None (arm_selectors a))) arms"

definition codegen_deferred :: "(string \<Rightarrow> bool) \<Rightarrow> 'b arm list \<Rightarrow> 'b lookup" where
  "codegen_deferred implements arms =
     (let selectors = resolve_deferred_selectors arms
      in if bindings_agree arms
         then method_lookup (map (gen_deferred_resolver implements) selectors) (length selectors)
         else Rejected)"

definition codegen_inline :: "(string \<Rightarrow> bool) \<Rightarrow> 'b arm list \<Rightarrow> 'b lookup" where
  "codegen_inline implements arms =
     (let selectors = resolve_inline_selectors arms
      in if bindings_agree arms
         then method_lookup (map (gen_inline_resolver implements) selectors) (length selectors)
         else Rejected)"

section \<open>What the macro documents\<close>

text \<open>Arms are tried in order, an arm matches if one of its selectors does, the first match wins.\<close>

fun first_match :: "(string \<Rightarrow> bool) \<Rightarrow> 'b arm list \<Rightarrow> 'b lookup" where
  "first_match implements [] = NoMethod"
| "first_match implements (a # as) =
     (if list_ex (selector_where_clause implements) (arm_selectors a) then Found (arm_body a)
      else first_match implements as)"

text \<open>The names an arm binds the type to are to be one name.\<close>

definition bound_names :: "'b arm \<Rightarrow> string list" where
  "bound_names a = List.map_filter selector_binding (arm_selectors a)"

definition one_name :: "'b arm \<Rightarrow> bool" where
  "one_name a \<longleftrightarrow> (\<forall>x \<in> set (bound_names a). \<forall>y \<in> set (bound_names a). x = y)"

lemma resolve_some:
  "snd (resolve_type_var_binding (Some p) ss) \<longleftrightarrow> (\<forall>x \<in> set (List.map_filter selector_binding ss). x = p)"
  by (induction ss) (auto simp: map_filter_simps split: option.splits prod.splits)

lemma resolve_none:
  "snd (resolve_type_var_binding None ss) \<longleftrightarrow>
     (\<forall>x \<in> set (List.map_filter selector_binding ss). \<forall>y \<in> set (List.map_filter selector_binding ss). x = y)"
proof (induction ss)
  case (Cons a ss)
  show ?case
  proof (cases "selector_binding a")
    case None
    with Cons show ?thesis by (simp add: map_filter_simps)
  next
    case (Some p)
    then have "snd (resolve_type_var_binding None (a # ss)) \<longleftrightarrow>
        (\<forall>x \<in> set (List.map_filter selector_binding ss). x = p)"
      by (simp add: resolve_some)
    with Some show ?thesis by (simp add: map_filter_simps) metis
  qed
qed (simp add: map_filter_simps)

lemma bindings_agree_one_name: "bindings_agree arms = list_all one_name arms"
  by (simp add: bindings_agree_def one_name_def bound_names_def resolve_none list_all_iff)

section \<open>The first match wins\<close>

lemma resolve_selectors_of_length [simp]: "length (resolve_selectors_of count flat k i a ss) = length ss"
  by (induction ss arbitrary: flat i) simp_all

lemma resolve_arms_length: "length (resolve_arms count flat k as) = total_selectors as"
  by (induction as arbitrary: flat k) (simp_all add: total_selectors_def)

fun first_holding :: "(bool \<times> 'b) list \<Rightarrow> 'b lookup" where
  "first_holding [] = NoMethod"
| "first_holding (h # hs) = (if fst h then Found (snd h) else first_holding hs)"

text \<open>At each number of references there is at most the one impl.\<close>

definition has_row :: "'b method_impl list \<Rightarrow> (bool \<times> 'b) list \<Rightarrow> bool" where
  "has_row impls hs \<longleftrightarrow>
     (\<forall>i < length hs. applicable impls (length hs - i) =
        (if fst (hs ! i) then [\<lparr>mi_self_refs = length hs - i, mi_holds = True, mi_body = snd (hs ! i)\<rparr>] else []))"

lemma lookup_row:
  assumes "has_row impls hs" "applicable impls 0 = []" "applicable impls (Suc (length hs)) = []"
  shows "method_lookup impls (length hs) = first_holding hs"
  using assms
proof (induction hs)
  case Nil
  then show ?case by (simp add: at_candidate_def)
next
  case (Cons h hs)
  have row: "has_row impls hs"
    unfolding has_row_def
  proof (intro allI impI)
    fix i assume "i < length hs"
    then show "applicable impls (length hs - i) =
        (if fst (hs ! i) then [\<lparr>mi_self_refs = length hs - i, mi_holds = True, mi_body = snd (hs ! i)\<rparr>] else [])"
      using Cons.prems(1) unfolding has_row_def by (auto dest: spec [of _ "Suc i"])
  qed
  have head: "applicable impls (Suc (length hs)) =
      (if fst h then [\<lparr>mi_self_refs = Suc (length hs), mi_holds = True, mi_body = snd h\<rparr>] else [])"
    using Cons.prems(1) unfolding has_row_def by (auto dest: spec [of _ 0])
  show ?case
  proof (cases "fst h")
    case True
    with head show ?thesis by (simp add: at_candidate_def)
  next
    case False
    with head Cons.IH [OF row Cons.prems(2)] Cons.prems(3) show ?thesis by (simp add: at_candidate_def)
  qed
qed

lemma filter_unique:
  assumes "i < length xs" "\<And>j. j < length xs \<Longrightarrow> P (xs ! j) \<Longrightarrow> j = i"
  shows "filter P xs = (if P (xs ! i) then [xs ! i] else [])"
proof -
  have xs: "xs = take i xs @ xs ! i # drop (Suc i) xs" by (rule id_take_nth_drop [OF assms(1)])
  have "\<not> P y" if "y \<in> set (take i xs)" for y
  proof
    assume "P y"
    from that obtain k where "k < i" "y = xs ! k" using assms(1) by (auto simp: in_set_conv_nth)
    with assms(2) [of k] assms(1) \<open>P y\<close> show False by simp
  qed
  moreover have "\<not> P y" if "y \<in> set (drop (Suc i) xs)" for y
  proof
    assume "P y"
    from that obtain k where "k < length (drop (Suc i) xs)" "y = drop (Suc i) xs ! k" by (auto simp: in_set_conv_nth)
    then have "Suc i + k < length xs" "y = xs ! (Suc i + k)" using assms(1) by simp_all
    with assms(2) \<open>P y\<close> have "Suc i + k = i" by blast
    then show False by simp
  qed
  ultimately have "filter P (take i xs) = []" "filter P (drop (Suc i) xs) = []" by simp_all
  then have "filter P (take i xs @ xs ! i # drop (Suc i) xs) = (if P (xs ! i) then [xs ! i] else [])" by simp
  then show ?thesis using xs by simp
qed

lemma resolve_selectors_of_nth:
  "j < length ss \<Longrightarrow> rs_ref_count (resolve_selectors_of count flat k i a ss ! j) = count - 1 - (flat + j)"
  by (induction ss arbitrary: flat i j) (auto simp: nth_Cons split: nat.splits)

lemma resolve_arms_ref_count:
  "j < total_selectors as \<Longrightarrow> rs_ref_count (resolve_arms count flat k as ! j) = count - 1 - (flat + j)"
proof (induction as arbitrary: flat k j)
  case (Cons a as)
  show ?case
  proof (cases "j < length (arm_selectors a)")
    case True
    then show ?thesis by (simp add: nth_append resolve_selectors_of_nth)
  next
    case False
    with Cons.prems have "j - length (arm_selectors a) < total_selectors as" by (simp add: total_selectors_def)
    from Cons.IH [OF this, of "flat + length (arm_selectors a)" "Suc k"] False show ?thesis
      by (simp add: nth_append)
  qed
qed (simp add: total_selectors_def)

text \<open>The impls of the selectors, whichever form generates them, are a row.\<close>

lemma resolved_row:
  assumes gen: "\<And>r. mi_self_refs (gen r) = Suc (rs_ref_count r)"
    "\<And>r. mi_body (gen r) = rs_body r"
    "\<And>j. j < length rs \<Longrightarrow> rs_ref_count (rs ! j) = length rs - 1 - j"
  shows "has_row (map gen rs) (map (\<lambda>r. (mi_holds (gen r), rs_body r)) rs)"
    "applicable (map gen rs) 0 = []" "applicable (map gen rs) (Suc (length rs)) = []"
proof -
  have refs: "mi_self_refs (gen (rs ! j)) = length rs - j" if "j < length rs" for j
    using gen(1,3) that by simp
  show "has_row (map gen rs) (map (\<lambda>r. (mi_holds (gen r), rs_body r)) rs)"
    unfolding has_row_def
  proof (intro allI impI)
    fix i assume "i < length (map (\<lambda>r. (mi_holds (gen r), rs_body r)) rs)"
    then have i: "i < length rs" by simp
    have "applicable (map gen rs) (length rs - i) =
        (if mi_holds (gen (rs ! i)) then [gen (rs ! i)] else [])"
      unfolding applicable_def
      by (subst filter_unique [of i]) (use i refs in auto)
    with i gen(2) [of "rs ! i"] refs [OF i] show "applicable (map gen rs) (length (map (\<lambda>r. (mi_holds (gen r), rs_body r)) rs) - i) =
        (if fst (map (\<lambda>r. (mi_holds (gen r), rs_body r)) rs ! i)
         then [\<lparr>mi_self_refs = length (map (\<lambda>r. (mi_holds (gen r), rs_body r)) rs) - i, mi_holds = True,
           mi_body = snd (map (\<lambda>r. (mi_holds (gen r), rs_body r)) rs ! i)\<rparr>] else [])"
      by (cases "gen (rs ! i)") auto
  qed
  show "applicable (map gen rs) 0 = []" using gen(1) by (auto simp: applicable_def filter_empty_conv)
  show "applicable (map gen rs) (Suc (length rs)) = []"
    using refs by (auto simp: applicable_def filter_empty_conv in_set_conv_nth)
qed

lemma first_holding_append:
  "first_holding (hs @ gs) = (if list_ex fst hs then first_holding hs else first_holding gs)"
  by (induction hs) auto

lemma first_holding_selectors:
  assumes "\<And>r. mi_holds (gen r) = selector_where_clause implements (rs_selector r)"
  shows "first_holding (map (\<lambda>r. (mi_holds (gen r), rs_body r)) (resolve_arms count flat k arms)) =
    first_match implements arms"
proof (induction arms arbitrary: flat k)
  case (Cons a as)
  have "list_ex fst (map (\<lambda>r. (mi_holds (gen r), rs_body r)) (resolve_selectors_of count flat k i a ss)) =
      list_ex (selector_where_clause implements) ss \<and>
    (list_ex (selector_where_clause implements) ss \<longrightarrow>
      first_holding (map (\<lambda>r. (mi_holds (gen r), rs_body r)) (resolve_selectors_of count flat k i a ss)) =
        Found (arm_body a))" for flat i ss
    using assms by (induction ss arbitrary: flat i) auto
  with Cons.IH show ?case by (simp add: first_holding_append)
qed simp

lemma specialised_first_match:
  assumes "\<And>r. mi_self_refs (gen r) = Suc (rs_ref_count r)" "\<And>r. mi_body (gen r) = rs_body r"
    "\<And>r. mi_holds (gen r) = selector_where_clause implements (rs_selector r)"
  shows "method_lookup (map gen (resolve_arms (total_selectors arms) 0 0 arms))
      (length (resolve_arms (total_selectors arms) 0 0 arms)) = first_match implements arms"
proof -
  let ?rs = "resolve_arms (total_selectors arms) 0 0 arms"
  have "rs_ref_count (?rs ! j) = length ?rs - 1 - j" if "j < length ?rs" for j
    using resolve_arms_ref_count [of j arms "total_selectors arms" 0 0] that by (simp add: resolve_arms_length)
  from resolved_row [where gen = gen and rs = ?rs, OF assms(1,2) this]
  have "method_lookup (map gen ?rs) (length ?rs) = first_holding (map (\<lambda>r. (mi_holds (gen r), rs_body r)) ?rs)"
    using lookup_row [of "map gen ?rs" "map (\<lambda>r. (mi_holds (gen r), rs_body r)) ?rs"] by simp
  with first_holding_selectors [of gen implements "total_selectors arms" 0 0 arms] assms(3) show ?thesis by simp
qed

section \<open>What the program selects\<close>

text \<open>\<open>Bound => yes, _ => no\<close>, and the run-time type information that is made of it.\<close>

definition bound_or_else :: "string option \<Rightarrow> string \<Rightarrow> 'b \<Rightarrow> 'b \<Rightarrow> 'b arm list" where
  "bound_or_else binding bound yes no =
     [\<lparr>arm_selectors = [Bounded binding [bound]], arm_body = yes\<rparr>, \<lparr>arm_selectors = [Wildcard], arm_body = no\<rparr>]"

definition create_send_sync_rtti :: "(string \<Rightarrow> bool) \<Rightarrow> bool lookup \<times> bool lookup" where
  "create_send_sync_rtti implements =
     (codegen_deferred implements (bound_or_else None ''Send'' True False),
      codegen_deferred implements (bound_or_else None ''Sync'' True False))"

text \<open>The clone information, and whether message and answer sender are \<open>Send\<close>.\<close>

definition declare_message_rtti :: "(string \<Rightarrow> bool) \<Rightarrow> (string \<Rightarrow> bool) \<Rightarrow>
    bool lookup \<times> bool lookup \<times> bool lookup" where
  "declare_message_rtti implements sender_implements =
     (codegen_deferred implements (bound_or_else (Some ''T'') ''Clone'' True False),
      codegen_deferred implements (bound_or_else None ''Send'' True False),
      codegen_deferred sender_implements (bound_or_else None ''Send'' True False))"

text \<open>A lifecycle hook of a derived actor: the hook if there is one, no work otherwise.\<close>

definition generated_lifecycle_hook :: "string \<Rightarrow> (string \<Rightarrow> bool) \<Rightarrow> 'h \<Rightarrow> 'h option lookup" where
  "generated_lifecycle_hook bound implements hook =
     codegen_inline implements
       [\<lparr>arm_selectors = [Bounded (Some ''__T'') [bound, ''Sized'']], arm_body = Some hook\<rparr>,
        \<lparr>arm_selectors = [Bounded (Some ''__T'') [''Actor'', ''Sized'']], arm_body = None\<rparr>]"

text \<open>
  The generated event driver writes the same choice by hand, with methods that take \<open>self\<close> by value:
  the source behind a reference to the probe, the mailbox on the probe itself.
\<close>

datatype event_choice = NextEvent | MailboxPoll

definition generated_event_loop :: "(string \<Rightarrow> bool) \<Rightarrow> event_choice lookup" where
  "generated_event_loop implements =
     method_lookup
       [\<lparr>mi_self_refs = 1, mi_holds = implements ''ActorEventSource'', mi_body = NextEvent\<rparr>,
        \<lparr>mi_self_refs = 0, mi_holds = True, mi_body = MailboxPoll\<rparr>] 1"

lemma codegen_first_match:
  "codegen_deferred implements arms = (if list_all one_name arms then first_match implements arms else Rejected)"
  "codegen_inline implements arms = (if list_all one_name arms then first_match implements arms else Rejected)"
  unfolding codegen_deferred_def codegen_inline_def resolve_deferred_selectors_def
    resolve_inline_selectors_def Let_def bindings_agree_one_name
  by (rule if_cong [OF refl _ refl], rule specialised_first_match;
      simp add: gen_deferred_resolver_def gen_inline_resolver_def selector_where_clause_def
        split: SpecializePatSelector.split)+

lemma bound_or_else_names [simp]: "list_all one_name (bound_or_else binding bound yes no)"
  by (cases binding) (simp_all add: bound_or_else_def one_name_def bound_names_def map_filter_simps)

lemma bound_or_else_match:
  "first_match implements (bound_or_else binding bound yes no) = Found (if implements bound then yes else no)"
  by (simp add: bound_or_else_def selector_where_clause_def)

section \<open>The property\<close>


end
