(* ===== verification/Registry.thy ===== *)
theory Registry
  imports Factories_Prelude "HOL-Library.Product_Lexorder"
begin

text \<open>
  The registry of dynamically dispatched handlers,
  \<open>crates/factories_actor/src/runtime/registry.rs\<close>, with the write-once dispatch id of a message's
  RTTI (\<open>message/rtti.rs\<close>): building the tables from the collected registrations, looking an
  actor's table up, binding a message. An RTTI is named by its identity, the address of its
  static; a dispatcher is opaque.
\<close>

section \<open>Registrations and dispatch ids\<close>

type_synonym rtti_id = u64
type_synonym dispatcher = nat

record DynamicHandlerRegistration =
  dr_actor :: rtti_id
  dr_message :: rtti_id
  dr_dispatcher :: dispatcher

text \<open>The id slot of every message; zero is the unassigned sentinel.\<close>

type_synonym dispatch_ids = "rtti_id \<Rightarrow> u64"

definition dynamic_dispatch_id :: "dispatch_ids \<Rightarrow> rtti_id \<Rightarrow> u64 option" where
  "dynamic_dispatch_id ids m = (if ids m = 0 then None else Some (ids m))"

definition assign_dynamic_dispatch_id :: "rtti_id \<Rightarrow> u64 \<Rightarrow> dispatch_ids \<Rightarrow> (u64 + unit) \<times> dispatch_ids" where
  "assign_dynamic_dispatch_id m i ids =
     (if ids m = 0 then (Inr (), ids(m := i)) else (Inl (ids m), ids))"

text \<open>\<open>DispatchRegistry::assign_id\<close> panics where the message has an id already.\<close>

definition assign_id :: "rtti_id \<Rightarrow> u64 \<Rightarrow> dispatch_ids \<Rightarrow> (unit, dispatch_ids) outcome" where
  "assign_id m i ids =
     (case assign_dynamic_dispatch_id m i ids of
        (Inr _, ids') \<Rightarrow> Inr ids'
      | (Inl existing, _) \<Rightarrow> Inl Panic)"

text \<open>\<open>next_id.checked_add(1).expect(..)\<close>.\<close>

definition next_id_after :: "u64 \<Rightarrow> (unit, u64) outcome" where
  "next_id_after i = (if unat i + 1 < 2 ^ 64 then Inr (i + 1) else Inl Panic)"

section \<open>Slices\<close>

text \<open>\<open>dedup_by_key\<close>, \<open>chunk_by\<close> and the binary search of the standard library.\<close>

fun dedup_by_key :: "('a \<Rightarrow> 'k) \<Rightarrow> 'a list \<Rightarrow> 'a list" where
  "dedup_by_key f [] = []"
| "dedup_by_key f [x] = [x]"
| "dedup_by_key f (x # y # xs) =
     (if f x = f y then dedup_by_key f (x # xs) else x # dedup_by_key f (y # xs))"

fun chunk_by :: "('a \<Rightarrow> 'a \<Rightarrow> bool) \<Rightarrow> 'a list \<Rightarrow> 'a list list" where
  "chunk_by p [] = []"
| "chunk_by p [x] = [[x]]"
| "chunk_by p (x # y # xs) =
     (case chunk_by p (y # xs) of
        c # cs \<Rightarrow> if p x y then (x # c) # cs else [x] # c # cs
      | [] \<Rightarrow> [[x]])"

function search_base :: "('a \<Rightarrow> 'k :: linorder) \<Rightarrow> 'k \<Rightarrow> 'a list \<Rightarrow> nat \<Rightarrow> nat \<Rightarrow> nat" where
  "search_base f k xs base n =
     (if n \<le> 1 then base
      else (let half = n div 2; mid = base + half
            in search_base f k xs (if k < f (xs ! mid) then base else mid) (n - half)))"
  by auto
termination by (relation "measure (\<lambda>(f, k, xs, base, n). n)") auto

declare search_base.simps [simp del]

definition binary_search_by_key :: "('a \<Rightarrow> 'k :: linorder) \<Rightarrow> 'k \<Rightarrow> 'a list \<Rightarrow> nat option" where
  "binary_search_by_key f k xs =
     (if xs = [] then None
      else (let i = search_base f k xs 0 (length xs)
            in if f (xs ! i) = k then Some i else None))"

section \<open>The tables\<close>

record ActorDispatchTable =
  at_actor :: rtti_id
  at_unique_base :: u64
  at_unique :: "dispatcher list"
  at_shared :: "(u64 \<times> dispatcher) list"

record DispatchRegistry =
  rg_actors :: "ActorDispatchTable list"
  rg_frozen_count :: nat

record PendingActor =
  pa_actor :: rtti_id
  pa_unique_base :: u64
  pa_unique :: "dispatcher list"
  pa_shared_regs :: "DynamicHandlerRegistration list"

definition reg_key :: "DynamicHandlerRegistration \<Rightarrow> rtti_id \<times> rtti_id" where
  "reg_key r = (dr_actor r, dr_message r)"

fun count_handlers :: "DynamicHandlerRegistration list \<Rightarrow> (rtti_id \<rightharpoonup> nat) \<Rightarrow> rtti_id \<rightharpoonup> nat" where
  "count_handlers [] count = count"
| "count_handlers (r # rs) count =
     count_handlers rs (count(dr_message r \<mapsto>
       (case count (dr_message r) of Some n \<Rightarrow> n | None \<Rightarrow> 0) + 1))"

text \<open>The first pass: one actor's registrations, then all chunks.\<close>

fun unique_regs :: "(rtti_id \<rightharpoonup> nat) \<Rightarrow> DynamicHandlerRegistration list \<Rightarrow> dispatch_ids \<times> u64 \<times> PendingActor \<Rightarrow>
    (unit, dispatch_ids \<times> u64 \<times> PendingActor) outcome" where
  "unique_regs count [] s = Inr s"
| "unique_regs count (r # rs) (ids, next_id, actor) =
     (case count (dr_message r) of
        None \<Rightarrow> Inl Panic
      | Some n \<Rightarrow>
          if n = 1 then
            and_then (assign_id (dr_message r) next_id ids) (\<lambda>ids'.
            and_then (next_id_after next_id) (\<lambda>next_id'.
              unique_regs count rs (ids', next_id', actor\<lparr>pa_unique := pa_unique actor @ [dr_dispatcher r]\<rparr>)))
          else
            unique_regs count rs (ids, next_id, actor\<lparr>pa_shared_regs := pa_shared_regs actor @ [r]\<rparr>))"

fun unique_pass :: "(rtti_id \<rightharpoonup> nat) \<Rightarrow> DynamicHandlerRegistration list list \<Rightarrow>
    dispatch_ids \<times> u64 \<times> PendingActor list \<Rightarrow> (unit, dispatch_ids \<times> u64 \<times> PendingActor list) outcome" where
  "unique_pass count [] s = Inr s"
| "unique_pass count (c # cs) (ids, next_id, pending) =
     and_then
       (unique_regs count c (ids, next_id, \<lparr>pa_actor = dr_actor (hd c), pa_unique_base = next_id,
          pa_unique = [], pa_shared_regs = []\<rparr>))
       (\<lambda>(ids', next_id', actor). unique_pass count cs (ids', next_id', pending @ [actor]))"

text \<open>The second pass: an id for each shared message, at its first registration.\<close>

fun shared_pass :: "DynamicHandlerRegistration list \<Rightarrow> dispatch_ids \<times> u64 \<times> (rtti_id \<rightharpoonup> u64) \<Rightarrow>
    (unit, dispatch_ids \<times> u64 \<times> (rtti_id \<rightharpoonup> u64)) outcome" where
  "shared_pass [] s = Inr s"
| "shared_pass (r # rs) (ids, next_id, shared_ids) =
     (case shared_ids (dr_message r) of
        Some _ \<Rightarrow> shared_pass rs (ids, next_id, shared_ids)
      | None \<Rightarrow>
          and_then (next_id_after next_id) (\<lambda>next_id'.
          and_then (assign_id (dr_message r) next_id ids) (\<lambda>ids'.
            shared_pass rs (ids', next_id', shared_ids(dr_message r \<mapsto> next_id)))))"

fun shared_entries :: "(rtti_id \<rightharpoonup> u64) \<Rightarrow> DynamicHandlerRegistration list \<Rightarrow>
    (unit, (u64 \<times> dispatcher) list) outcome" where
  "shared_entries shared_ids [] = Inr []"
| "shared_entries shared_ids (r # rs) =
     (case shared_ids (dr_message r) of
        None \<Rightarrow> Inl Panic
      | Some i \<Rightarrow> and_then (shared_entries shared_ids rs) (\<lambda>es. Inr ((i, dr_dispatcher r) # es)))"

fun build_tables :: "(rtti_id \<rightharpoonup> u64) \<Rightarrow> PendingActor list \<Rightarrow> (unit, ActorDispatchTable list) outcome" where
  "build_tables shared_ids [] = Inr []"
| "build_tables shared_ids (a # as) =
     and_then (shared_entries shared_ids (pa_shared_regs a)) (\<lambda>shared.
     and_then (build_tables shared_ids as) (\<lambda>tables.
       Inr (\<lparr>at_actor = pa_actor a, at_unique_base = pa_unique_base a, at_unique = pa_unique a,
             at_shared = sort_key fst shared\<rparr> # tables)))"

definition sorted_regs :: "DynamicHandlerRegistration list \<Rightarrow> DynamicHandlerRegistration list" where
  "sorted_regs registrations = dedup_by_key reg_key (sort_key reg_key registrations)"

definition build :: "DynamicHandlerRegistration list \<Rightarrow> dispatch_ids \<Rightarrow>
    (unit, DispatchRegistry \<times> dispatch_ids) outcome" where
  "build registrations ids =
     (let regs = sorted_regs registrations
      in and_then (unique_pass (count_handlers regs Map.empty)
             (chunk_by (\<lambda>a b. dr_actor a = dr_actor b) regs) (ids, 1, []))
           (\<lambda>(ids1, next_id1, pending).
         and_then (shared_pass (concat (map pa_shared_regs pending)) (ids1, next_id1, Map.empty))
           (\<lambda>(ids2, next_id2, shared_ids).
         and_then (build_tables shared_ids pending)
           (\<lambda>actors. Inr (\<lparr>rg_actors = actors, rg_frozen_count = length registrations\<rparr>, ids2)))))"

definition is_stale :: "DynamicHandlerRegistration list \<Rightarrow> DispatchRegistry \<Rightarrow> bool" where
  "is_stale handlers reg \<longleftrightarrow> rg_frozen_count reg < length handlers"

definition debug_assert_fresh :: "DynamicHandlerRegistration list \<Rightarrow> DispatchRegistry \<Rightarrow> (unit, unit) outcome" where
  "debug_assert_fresh handlers reg =
     (if length handlers \<le> rg_frozen_count reg then Inr () else Inl Panic)"

definition table_for :: "DispatchRegistry \<Rightarrow> rtti_id \<Rightarrow> ActorDispatchTable option" where
  "table_for reg actor =
     map_option (\<lambda>i. rg_actors reg ! i) (binary_search_by_key at_actor actor (rg_actors reg))"

definition table_bind :: "dispatch_ids \<Rightarrow> ActorDispatchTable \<Rightarrow> rtti_id \<Rightarrow> dispatcher option" where
  "table_bind ids table message =
     (case dynamic_dispatch_id ids message of
        None \<Rightarrow> None
      | Some i \<Rightarrow>
          if at_unique_base table \<le> i \<and> unat (i - at_unique_base table) < length (at_unique table)
          then Some (at_unique table ! unat (i - at_unique_base table))
          else map_option (\<lambda>j. snd (at_shared table ! j)) (binary_search_by_key fst i (at_shared table)))"

section \<open>The process-wide registry\<close>

text \<open>
  The static cell, the id slots, and the collected registrations, newest first. A build that
  panics leaves the cell empty.
\<close>

record registry_world =
  rw_registry :: "DispatchRegistry option"
  rw_ids :: dispatch_ids
  rw_handlers :: "DynamicHandlerRegistration list"

definition dispatch_registry :: "registry_world \<Rightarrow> (unit, DispatchRegistry \<times> registry_world) outcome" where
  "dispatch_registry w =
     (case rw_registry w of
        Some reg \<Rightarrow> Inr (reg, w)
      | None \<Rightarrow> and_then (build (rw_handlers w) (rw_ids w))
          (\<lambda>(reg, ids). Inr (reg, w\<lparr>rw_registry := Some reg, rw_ids := ids\<rparr>)))"

text \<open>A registry binder is the table it resolved, if any. \<open>debug\<close> are the debug assertions of the build.\<close>

type_synonym RegistryBinder = "ActorDispatchTable option"

definition binder_new :: "bool \<Rightarrow> rtti_id \<Rightarrow> registry_world \<Rightarrow> (unit, RegistryBinder \<times> registry_world) outcome" where
  "binder_new debug actor w =
     and_then (dispatch_registry w) (\<lambda>(reg, w').
     and_then (if debug then debug_assert_fresh (rw_handlers w') reg else Inr ()) (\<lambda>_.
       Inr (table_for reg actor, w')))"

definition binder_bind :: "registry_world \<Rightarrow> RegistryBinder \<Rightarrow> rtti_id \<Rightarrow> dispatcher option" where
  "binder_bind w binder message =
     (case binder of None \<Rightarrow> None | Some table \<Rightarrow> table_bind (rw_ids w) table message)"

end
