(* ===== verification/Registry_Slices.thy ===== *)
theory Registry_Slices
  imports Registry
begin

text \<open>
  The slice functions of the registry: what \<open>dedup_by_key\<close> keeps, how \<open>chunk_by\<close> splits, and that
  the binary search finds what is there.
\<close>

section \<open>Deduplication\<close>

lemma find_filter: "find p xs = (case filter p xs of [] \<Rightarrow> None | x # _ \<Rightarrow> Some x)"
  by (induction xs) auto

lemma find_sort_key: "find (\<lambda>x. f x = k) (sort_key f xs) = find (\<lambda>x. f x = k) xs"
  using sort_key_stable [of f k xs] by (simp add: find_filter)

lemma find_dedup_by_key: "find (\<lambda>x. f x = k) (dedup_by_key f xs) = find (\<lambda>x. f x = k) xs"
  by (induction f xs rule: dedup_by_key.induct) auto

lemma set_dedup_by_key: "set (dedup_by_key f xs) \<subseteq> set xs"
  by (induction f xs rule: dedup_by_key.induct) auto

lemma keys_dedup_by_key: "f ` set (dedup_by_key f xs) = f ` set xs"
  by (induction f xs rule: dedup_by_key.induct) auto

lemma strict_dedup_by_key:
  "sorted (map f xs) \<Longrightarrow> sorted_wrt (<) (map f (dedup_by_key f xs))"
proof (induction f xs rule: dedup_by_key.induct)
  case (3 f x y xs)
  show ?case
  proof (cases "f x = f y")
    case True
    with 3 show ?thesis by simp
  next
    case False
    with 3 have IH: "sorted_wrt (<) (map f (dedup_by_key f (y # xs)))" by simp
    have "f x < f z" if "z \<in> set (dedup_by_key f (y # xs))" for z
    proof -
      from that have "z \<in> set (y # xs)" by (rule subsetD [OF set_dedup_by_key])
      with "3.prems" have "f y \<le> f z" by (auto simp: le_less)
      moreover have "f x < f y" using False "3.prems" by (simp add: le_less)
      ultimately show ?thesis by (rule less_le_trans [rotated])
    qed
    with False IH show ?thesis by simp
  qed
qed auto

lemma strict_sorted_distinct: "sorted_wrt (<) (map f xs) \<Longrightarrow> distinct (map (f :: 'a \<Rightarrow> 'k :: linorder) xs)"
  by (simp add: strict_sorted_iff)

section \<open>Chunks\<close>

lemma chunk_by_shape:
  "concat (chunk_by p xs) = xs" "[] \<notin> set (chunk_by p xs)" "chunk_by p xs = [] \<longleftrightarrow> xs = []"
proof -
  have "concat (chunk_by p xs) = xs \<and> [] \<notin> set (chunk_by p xs) \<and> (chunk_by p xs = [] \<longleftrightarrow> xs = [])"
    by (induction p xs rule: chunk_by.induct) (auto split: list.splits)
  then show "concat (chunk_by p xs) = xs" "[] \<notin> set (chunk_by p xs)" "chunk_by p xs = [] \<longleftrightarrow> xs = []"
    by auto
qed

text \<open>Chunks of equal keys of a sorted list: each holds one key, and the keys of the chunks ascend.\<close>

lemma chunk_by_sorted:
  fixes f :: "'a \<Rightarrow> 'k :: linorder"
  assumes "sorted (map f xs)"
  shows "(\<forall>c \<in> set (chunk_by (\<lambda>a b. f a = f b) xs). \<forall>x \<in> set c. f x = f (hd c)) \<and>
    sorted_wrt (<) (map (f \<circ> hd) (chunk_by (\<lambda>a b. f a = f b) xs)) \<and>
    (xs \<noteq> [] \<longrightarrow> hd (concat (chunk_by (\<lambda>a b. f a = f b) xs)) = hd xs)"
  using assms
proof (induction xs)
  case (Cons x ys)
  note prems = Cons
  show ?case
  proof (cases ys)
    case (Cons y xs)
    obtain c cs where chunks: "chunk_by (\<lambda>a b. f a = f b) (y # xs) = c # cs"
      using chunk_by_shape(3) [of "\<lambda>a b. f a = f b" "y # xs"] by (cases "chunk_by (\<lambda>a b. f a = f b) (y # xs)") auto
    have "c \<noteq> []" using chunk_by_shape(2) [of "\<lambda>a b. f a = f b" "y # xs"] chunks by auto
    moreover from this have "hd c = y"
      using chunk_by_shape(1) [of "\<lambda>a b. f a = f b" "y # xs"] chunks by (cases c) auto
    moreover have "sorted (map f ys)" using prems(2) by simp
    from prems(1) [OF this] have "(\<forall>c \<in> set (c # cs). \<forall>x \<in> set c. f x = f (hd c)) \<and>
        sorted_wrt (<) (map (f \<circ> hd) (c # cs))"
      unfolding Cons chunks by (elim conjE) (intro conjI)
    ultimately have hd: "c \<noteq> []" "hd c = y" "\<forall>x \<in> set c. f x = f y"
        "\<forall>c \<in> set cs. \<forall>x \<in> set c. f x = f (hd c)" "sorted_wrt (<) (map (f \<circ> hd) (c # cs))"
      by auto
    have "f x \<le> f y" using prems(2) Cons by simp
    then show ?thesis
    proof (cases "f x = f y")
      case True
      with hd chunks Cons show ?thesis by (simp add: comp_def)
    next
      case False
      with \<open>f x \<le> f y\<close> have less: "f x < f y" by simp
      moreover have "f x < f (hd d)" if "d \<in> set cs" for d
      proof -
        have "f y < f (hd d)" using hd(2,5) that by simp
        with less show ?thesis by (rule less_trans)
      qed
      ultimately show ?thesis using hd chunks Cons False by (simp add: comp_def)
    qed
  qed simp
qed simp

section \<open>Binary search\<close>

lemma search_base_range: "0 < n \<Longrightarrow> base \<le> search_base f k xs base n \<and> search_base f k xs base n < base + n"
proof (induction f k xs base n rule: search_base.induct)
  case (1 f k xs base n)
  show ?case
  proof (cases "n \<le> 1")
    case True
    with 1 show ?thesis by (simp add: search_base.simps)
  next
    case False
    define b where "b = (if k < f (xs ! (base + n div 2)) then base else base + n div 2)"
    have "base \<le> b" "b + (n - n div 2) \<le> base + n" by (auto simp: b_def)
    moreover have "b \<le> search_base f k xs b (n - n div 2) \<and>
        search_base f k xs b (n - n div 2) < b + (n - n div 2)"
      using "1.IH" [OF False refl refl] False by (auto simp: b_def)
    moreover have "search_base f k xs base n = search_base f k xs b (n - n div 2)"
      using False by (simp add: search_base.simps [of f k xs base n] b_def Let_def)
    ultimately show ?thesis by auto
  qed
qed

lemma search_base_finds:
  assumes "sorted_wrt (<) (map f xs)"
  shows "base + n \<le> length xs \<Longrightarrow> base \<le> j \<Longrightarrow> j < base + n \<Longrightarrow> f (xs ! j) = k \<Longrightarrow>
    search_base f k xs base n = j"
proof (induction n arbitrary: base rule: less_induct)
  case (less n)
  have mono: "f (xs ! i) < f (xs ! i')" if "i < i'" "i' < length xs" for i i'
    using assms that by (simp add: sorted_wrt_iff_nth_less)
  show ?case
  proof (cases "n \<le> 1")
    case True
    with less.prems show ?thesis by (simp add: search_base.simps)
  next
    case False
    define b where "b = (if k < f (xs ! (base + n div 2)) then base else base + n div 2)"
    have "b \<le> j \<and> j < b + (n - n div 2) \<and> b + (n - n div 2) \<le> length xs"
    proof (cases "k < f (xs ! (base + n div 2))")
      case True
      have "j < base + n div 2"
      proof (rule ccontr)
        assume "\<not> j < base + n div 2"
        then have "f (xs ! (base + n div 2)) \<le> f (xs ! j)"
          using mono [of "base + n div 2" j] less.prems by (cases "j = base + n div 2") auto
        with True less.prems(4) show False by simp
      qed
      with True less.prems False show ?thesis by (auto simp: b_def)
    next
      case geq: False
      have "base + n div 2 \<le> j"
      proof (rule ccontr)
        assume "\<not> base + n div 2 \<le> j"
        then have "f (xs ! j) < f (xs ! (base + n div 2))" using mono less.prems(1) False by simp
        with geq less.prems(4) show False by simp
      qed
      with geq less.prems False show ?thesis by (auto simp: b_def)
    qed
    moreover have "n - n div 2 < n" using False by simp
    ultimately have "search_base f k xs b (n - n div 2) = j" using less.IH less.prems(4) by blast
    with False show ?thesis by (simp add: search_base.simps [of f k xs base n] b_def Let_def)
  qed
qed

lemma binary_search_Some:
  assumes "sorted_wrt (<) (map f xs)" "j < length xs" "f (xs ! j) = k"
  shows "binary_search_by_key f k xs = Some j"
  using search_base_finds [OF assms(1), of 0 "length xs" j k] assms(2,3)
  by (auto simp: binary_search_by_key_def)

lemma binary_search_None:
  assumes "k \<notin> f ` set xs"
  shows "binary_search_by_key f k xs = None"
proof (cases "xs = []")
  case False
  then have "search_base f k xs 0 (length xs) < length xs"
    using search_base_range [of "length xs" 0 f k xs] by simp
  then have "f (xs ! search_base f k xs 0 (length xs)) \<in> f ` set xs" by simp
  with assms have "f (xs ! search_base f k xs 0 (length xs)) \<noteq> k" by metis
  then show ?thesis by (simp add: binary_search_by_key_def Let_def)
qed (simp add: binary_search_by_key_def)

text \<open>Searching a strictly sorted slice is looking the key up.\<close>

lemma binary_search_find:
  assumes "sorted_wrt (<) (map f xs)"
  shows "map_option ((!) xs) (binary_search_by_key f k xs) = find (\<lambda>x. f x = k) xs"
proof (cases "k \<in> f ` set xs")
  case True
  then obtain j where j: "j < length xs" "f (xs ! j) = k" by (auto simp: in_set_conv_nth)
  have "i = j" if "i < length xs" "f (xs ! i) = k" for i
  proof (rule linorder_cases)
    assume "i < j"
    with assms j(1) have "f (xs ! i) < f (xs ! j)" by (simp add: sorted_wrt_iff_nth_less)
    with that j show ?thesis by simp
  next
    assume "j < i"
    with assms that(1) have "f (xs ! j) < f (xs ! i)" by (simp add: sorted_wrt_iff_nth_less)
    with that j show ?thesis by simp
  qed
  then have "\<forall>i < j. f (xs ! i) \<noteq> k" using j(1) by (metis less_trans less_irrefl)
  with j have "find (\<lambda>x. f x = k) xs = Some (xs ! j)" unfolding find_Some_iff by blast
  with binary_search_Some [OF assms j] show ?thesis by simp
next
  case False
  then have "find (\<lambda>x. f x = k) xs = None" by (auto simp: find_None_iff)
  with binary_search_None [OF False] show ?thesis by simp
qed

end
