(* ===== verification/Registry_Build.thy ===== *)
theory Registry_Build
  imports Registry_Slices
begin

text \<open>
  The registry's build is correct: every registered message gets one id of its own, the unique
  messages of an actor consecutive ones, and a lookup through the built tables is the lookup in
  the list of registrations.
\<close>

section \<open>Assigning ids\<close>

text \<open>\<open>A\<close> are the messages that got an id in this build.\<close>

definition ids_ok :: "dispatch_ids \<Rightarrow> dispatch_ids \<Rightarrow> u64 \<Rightarrow> rtti_id set \<Rightarrow> bool" where
  "ids_ok ids0 ids next_id A \<longleftrightarrow>
     0 < unat next_id \<and> inj_on ids A \<and> (\<forall>m. m \<notin> A \<longrightarrow> ids m = ids0 m) \<and>
     (\<forall>m \<in> A. ids0 m = 0 \<and> 0 < unat (ids m) \<and> unat (ids m) < unat next_id)"

definition grows :: "dispatch_ids \<Rightarrow> dispatch_ids \<Rightarrow> bool" where
  "grows ids ids' \<longleftrightarrow> (\<forall>m. ids m \<noteq> 0 \<longrightarrow> ids' m = ids m)"

lemma grows_refl [simp]: "grows ids ids"
  by (simp add: grows_def)

lemma grows_trans: "grows a b \<Longrightarrow> grows b c \<Longrightarrow> grows a c"
  by (simp add: grows_def)

lemma assign_id_Inr_iff: "assign_id m i ids = Inr ids' \<longleftrightarrow> ids m = 0 \<and> ids' = ids(m := i)"
  by (auto simp: assign_id_def assign_dynamic_dispatch_id_def)

lemma next_id_after_Inr_iff: "next_id_after i = Inr j \<longleftrightarrow> unat i + 1 < 2 ^ 64 \<and> j = i + 1"
  by (auto simp: next_id_after_def)

lemma unat_next: "unat i + 1 < 2 ^ 64 \<Longrightarrow> unat (i + 1 :: u64) = unat i + 1"
  by (simp add: unat_word_ariths)

lemma ids_ok_assign:
  assumes "ids_ok ids0 ids next_id A" "assign_id m next_id ids = Inr ids'" "next_id_after next_id = Inr next_id'"
  shows "ids_ok ids0 ids' next_id' (insert m A)" "grows ids ids'" "m \<notin> A" "ids' m = next_id"
    "unat next_id' = unat next_id + 1" "ids m = 0" "next_id \<noteq> 0"
proof -
  have ids': "ids m = 0" "ids' = ids(m := next_id)" using assms(2) by (simp_all add: assign_id_Inr_iff)
  have n: "unat next_id' = unat next_id + 1"
    using assms(3) by (auto simp: next_id_after_Inr_iff unat_next)
  show m: "m \<notin> A" using ids'(1) assms(1) by (auto simp: ids_ok_def)
  have less: "\<forall>x \<in> A. unat (ids x) < unat next_id" using assms(1) by (simp add: ids_ok_def)
  then have "next_id \<notin> ids ` A" by auto
  then have "inj_on ids' (insert m A)"
    using m assms(1) ids'(2) by (auto simp: ids_ok_def inj_on_def)
  then show "ids_ok ids0 ids' next_id' (insert m A)"
    using assms(1) m ids' n less by (auto simp: ids_ok_def)
  show "grows ids ids'" "ids' m = next_id" "unat next_id' = unat next_id + 1" "ids m = 0"
    using ids' n by (simp_all add: grows_def)
  show "next_id \<noteq> 0" using assms(1) by (auto simp: ids_ok_def)
qed

section \<open>The first pass\<close>

definition is_unique :: "(rtti_id \<rightharpoonup> nat) \<Rightarrow> DynamicHandlerRegistration \<Rightarrow> bool" where
  "is_unique count r \<longleftrightarrow> count (dr_message r) = Some 1"

text \<open>Consecutive ids from a base.\<close>

definition numbered :: "dispatch_ids \<Rightarrow> u64 \<Rightarrow> DynamicHandlerRegistration list \<Rightarrow> bool" where
  "numbered ids base rs \<longleftrightarrow>
     0 < unat base \<and> unat base + length rs < 2 ^ 64 \<and>
     (\<forall>i < length rs. ids (dr_message (rs ! i)) = base + of_nat i)"

lemma unat_plus_of_nat: "unat base + n < 2 ^ 64 \<Longrightarrow> unat (base + of_nat n :: u64) = unat base + n"
  by (simp add: unat_word_ariths unat_of_nat take_bit_nat_eq_self)

lemma numbered_grows:
  assumes "numbered ids base rs" "grows ids ids'"
  shows "numbered ids' base rs"
proof -
  have "ids (dr_message (rs ! i)) \<noteq> 0" if "i < length rs" for i
  proof -
    have "unat (base + of_nat i) = unat base + i"
      using assms(1) that by (intro unat_plus_of_nat) (simp add: numbered_def)
    with assms(1) that show ?thesis by (auto simp: numbered_def)
  qed
  with assms show ?thesis by (auto simp: numbered_def grows_def)
qed

lemma numbered_Cons:
  assumes "ids (dr_message r) = base" "0 < unat base" "unat base + 1 < 2 ^ 64" "numbered ids (base + 1) rs"
  shows "numbered ids base (r # rs)"
proof -
  have "unat (base + 1) = unat base + 1" using assms(3) by (rule unat_next)
  with assms show ?thesis
    by (auto simp: numbered_def nth_Cons ac_simps split: nat.split)
qed

lemma unique_regs_spec:
  "unique_regs count rs (ids, next_id, actor) = Inr (ids', next_id', actor') \<Longrightarrow> ids_ok ids0 ids next_id A \<Longrightarrow>
     ids_ok ids0 ids' next_id' (A \<union> dr_message ` set (filter (is_unique count) rs)) \<and> grows ids ids' \<and>
     pa_actor actor' = pa_actor actor \<and> pa_unique_base actor' = pa_unique_base actor \<and>
     pa_unique actor' = pa_unique actor @ map dr_dispatcher (filter (is_unique count) rs) \<and>
     pa_shared_regs actor' = pa_shared_regs actor @ filter (\<lambda>r. \<not> is_unique count r) rs \<and>
     numbered ids' next_id (filter (is_unique count) rs) \<and>
     unat next_id' = unat next_id + length (filter (is_unique count) rs)"
proof (induction rs arbitrary: ids next_id actor A)
  case Nil
  then show ?case using unsigned_less [of next_id] by (auto simp: ids_ok_def numbered_def)
next
  case (Cons r rs)
  show ?case
  proof (cases "is_unique count r")
    case False
    with Cons.prems(1) obtain n where "count (dr_message r) = Some n" "n \<noteq> 1"
      by (auto simp: is_unique_def split: option.splits)
    with Cons False show ?thesis by fastforce
  next
    case True
    with Cons.prems(1) obtain ids1 next1 where step: "assign_id (dr_message r) next_id ids = Inr ids1"
        "next_id_after next_id = Inr next1"
        "unique_regs count rs (ids1, next1, actor\<lparr>pa_unique := pa_unique actor @ [dr_dispatcher r]\<rparr>) =
           Inr (ids', next_id', actor')"
      by (auto simp: is_unique_def outcome_simps)
    note one = ids_ok_assign [OF Cons.prems(2) step(1,2)]
    note IH = Cons.IH [OF step(3) one(1)]
    have "ids' (dr_message r) = next_id"
      using IH one(4,7) by (simp add: grows_def)
    moreover have "next1 = next_id + 1" "unat next_id + 1 < 2 ^ 64"
      using step(2) by (simp_all add: next_id_after_Inr_iff)
    moreover have "0 < unat next_id" using Cons.prems(2) by (simp add: ids_ok_def)
    ultimately have "numbered ids' next_id (r # filter (is_unique count) rs)"
      using IH by (intro numbered_Cons) simp_all
    moreover have "A \<union> dr_message ` set (filter (is_unique count) (r # rs)) =
        insert (dr_message r) A \<union> dr_message ` set (filter (is_unique count) rs)"
      using True by auto
    ultimately show ?thesis
      using IH True one(5) grows_trans [OF one(2)] by simp
  qed
qed

definition pending_ok :: "dispatch_ids \<Rightarrow> (rtti_id \<rightharpoonup> nat) \<Rightarrow> DynamicHandlerRegistration list \<Rightarrow> PendingActor \<Rightarrow> bool" where
  "pending_ok ids count c q \<longleftrightarrow>
     pa_actor q = dr_actor (hd c) \<and> pa_unique q = map dr_dispatcher (filter (is_unique count) c) \<and>
     pa_shared_regs q = filter (\<lambda>r. \<not> is_unique count r) c \<and>
     numbered ids (pa_unique_base q) (filter (is_unique count) c)"

lemma pending_ok_grows: "pending_ok ids count c q \<Longrightarrow> grows ids ids' \<Longrightarrow> pending_ok ids' count c q"
  by (auto simp: pending_ok_def intro: numbered_grows)

lemma unique_pass_spec:
  "unique_pass count cs (ids, next_id, pending) = Inr (ids', next_id', pending') \<Longrightarrow> ids_ok ids0 ids next_id A \<Longrightarrow>
     ids_ok ids0 ids' next_id' (A \<union> dr_message ` set (filter (is_unique count) (concat cs))) \<and> grows ids ids' \<and>
     unat next_id' = unat next_id + length (filter (is_unique count) (concat cs)) \<and>
     (\<exists>qs. pending' = pending @ qs \<and> list_all2 (pending_ok ids' count) cs qs)"
proof (induction cs arbitrary: ids next_id pending A)
  case Nil
  then show ?case by auto
next
  case (Cons c cs)
  let ?a = "\<lparr>pa_actor = dr_actor (hd c), pa_unique_base = next_id, pa_unique = [], pa_shared_regs = []\<rparr>"
  from Cons.prems(1) obtain ids1 next1 actor where step:
      "unique_regs count c (ids, next_id, ?a) = Inr (ids1, next1, actor)"
      "unique_pass count cs (ids1, next1, pending @ [actor]) = Inr (ids', next_id', pending')"
    by (auto simp: outcome_simps)
  note one = unique_regs_spec [OF step(1) Cons.prems(2)]
  then have "ids_ok ids0 ids1 next1 (A \<union> dr_message ` set (filter (is_unique count) c))" by blast
  from Cons.IH [OF step(2) this] obtain qs where IH:
      "ids_ok ids0 ids' next_id' (A \<union> dr_message ` set (filter (is_unique count) c) \<union>
         dr_message ` set (filter (is_unique count) (concat cs)))"
      "grows ids1 ids'" "unat next_id' = unat next1 + length (filter (is_unique count) (concat cs))"
      "pending' = (pending @ [actor]) @ qs" "list_all2 (pending_ok ids' count) cs qs"
    by blast
  have "pending_ok ids1 count c actor" using one by (simp add: pending_ok_def)
  then have "pending_ok ids' count c actor" using IH(2) by (rule pending_ok_grows)
  moreover have "A \<union> dr_message ` set (filter (is_unique count) (concat (c # cs))) =
      A \<union> dr_message ` set (filter (is_unique count) c) \<union> dr_message ` set (filter (is_unique count) (concat cs))"
    by (simp add: image_Un Un_assoc)
  ultimately show ?case using IH one grows_trans by auto
qed

section \<open>The second pass\<close>

definition shared_ok :: "dispatch_ids \<Rightarrow> (rtti_id \<rightharpoonup> u64) \<Rightarrow> bool" where
  "shared_ok ids shared_ids \<longleftrightarrow> (\<forall>m i. shared_ids m = Some i \<longrightarrow> ids m = i \<and> i \<noteq> 0)"

lemma shared_pass_spec:
  "shared_pass rs (ids, next_id, shared_ids) = Inr (ids', next_id', shared_ids') \<Longrightarrow>
     ids_ok ids0 ids next_id A \<Longrightarrow> shared_ok ids shared_ids \<Longrightarrow> dom shared_ids \<subseteq> A \<Longrightarrow>
     ids_ok ids0 ids' next_id' (A \<union> dr_message ` set rs) \<and> grows ids ids' \<and> shared_ok ids' shared_ids' \<and>
     dom shared_ids' = dom shared_ids \<union> dr_message ` set rs"
proof (induction rs arbitrary: ids next_id shared_ids A)
  case Nil
  then show ?case by simp
next
  case (Cons r rs)
  show ?case
  proof (cases "shared_ids (dr_message r)")
    case (Some i)
    then have "dr_message r \<in> dom shared_ids" "dr_message r \<in> A" using Cons.prems(4) by auto
    with Cons Some show ?thesis by (auto simp: insert_absorb)
  next
    case None
    with Cons.prems(1) obtain ids1 next1 where step: "next_id_after next_id = Inr next1"
        "assign_id (dr_message r) next_id ids = Inr ids1"
        "shared_pass rs (ids1, next1, shared_ids(dr_message r \<mapsto> next_id)) = Inr (ids', next_id', shared_ids')"
      by (auto simp: outcome_simps)
    note one = ids_ok_assign [OF Cons.prems(2) step(2,1)]
    have "shared_ok ids1 (shared_ids(dr_message r \<mapsto> next_id))"
      using Cons.prems(3) one(2,4,7) by (auto simp: shared_ok_def grows_def)
    moreover have "dom (shared_ids(dr_message r \<mapsto> next_id)) \<subseteq> insert (dr_message r) A"
      using Cons.prems(4) by auto
    ultimately have "ids_ok ids0 ids' next_id' (insert (dr_message r) A \<union> dr_message ` set rs) \<and>
        grows ids1 ids' \<and> shared_ok ids' shared_ids' \<and>
        dom shared_ids' = dom (shared_ids(dr_message r \<mapsto> next_id)) \<union> dr_message ` set rs"
      using Cons.IH [OF step(3) one(1)] by blast
    then show ?thesis using grows_trans [OF one(2)] by auto
  qed
qed

lemma shared_entries_spec:
  "shared_ok ids shared_ids \<Longrightarrow> shared_entries shared_ids rs = Inr es \<Longrightarrow>
     es = map (\<lambda>r. (ids (dr_message r), dr_dispatcher r)) rs"
  by (induction rs arbitrary: es) (auto simp: outcome_simps shared_ok_def split: option.splits)

section \<open>The tables\<close>

definition table_ok :: "dispatch_ids \<Rightarrow> (rtti_id \<rightharpoonup> nat) \<Rightarrow> DynamicHandlerRegistration list \<Rightarrow> ActorDispatchTable \<Rightarrow> bool" where
  "table_ok ids count c t \<longleftrightarrow>
     at_actor t = dr_actor (hd c) \<and> at_unique t = map dr_dispatcher (filter (is_unique count) c) \<and>
     numbered ids (at_unique_base t) (filter (is_unique count) c) \<and>
     at_shared t = sort_key fst
       (map (\<lambda>r. (ids (dr_message r), dr_dispatcher r)) (filter (\<lambda>r. \<not> is_unique count r) c))"

lemma build_tables_spec:
  "build_tables shared_ids qs = Inr ts \<Longrightarrow> shared_ok ids shared_ids \<Longrightarrow> list_all2 (pending_ok ids count) cs qs \<Longrightarrow>
     list_all2 (table_ok ids count) cs ts"
proof (induction qs arbitrary: cs ts)
  case Nil
  then show ?case by simp
next
  case (Cons q qs)
  then obtain c cs' where cs: "cs = c # cs'" "pending_ok ids count c q" "list_all2 (pending_ok ids count) cs' qs"
    by (cases cs) auto
  from Cons.prems(1) obtain es ts' where ts: "shared_entries shared_ids (pa_shared_regs q) = Inr es"
      "build_tables shared_ids qs = Inr ts'"
      "ts = \<lparr>at_actor = pa_actor q, at_unique_base = pa_unique_base q, at_unique = pa_unique q,
             at_shared = sort_key fst es\<rparr> # ts'"
    by (auto simp: outcome_simps)
  from shared_entries_spec [OF Cons.prems(2) ts(1)] cs ts Cons.IH [OF ts(2) Cons.prems(2) cs(3)] show ?case
    by (simp add: table_ok_def pending_ok_def)
qed

text \<open>The lookup of a message in the table of its chunk.\<close>

lemma find_map: "find p (map f xs) = map_option f (find (\<lambda>x. p (f x)) xs)"
  by (induction xs) auto

lemma find_cong_set: "(\<And>x. x \<in> set xs \<Longrightarrow> p x = q x) \<Longrightarrow> find p xs = find q xs"
  by (induction xs) auto

lemma find_unique_key:
  "distinct (map f xs) \<Longrightarrow> x \<in> set xs \<Longrightarrow> find (\<lambda>y. f y = f x) xs = Some x"
  by (induction xs) force+

lemma find_filter_none:
  "(\<And>x. x \<in> set xs \<Longrightarrow> p x \<Longrightarrow> q x) \<Longrightarrow> find p (filter q xs) = find p xs"
  by (induction xs) auto

lemma table_bind_chunk:
  assumes "table_ok ids count c t" "inj_on ids A" "ids m \<noteq> 0 \<Longrightarrow> m \<in> A"
    and "\<forall>r \<in> set c. ids (dr_message r) \<noteq> 0" "dr_message ` set c \<subseteq> A" "distinct (map dr_message c)"
  shows "table_bind ids t m = map_option dr_dispatcher (find (\<lambda>r. dr_message r = m) c)"
proof (cases "ids m = 0")
  case True
  with assms(4) have "find (\<lambda>r. dr_message r = m) c = None" by (auto simp: find_None_iff)
  with True show ?thesis by (simp add: table_bind_def dynamic_dispatch_id_def)
next
  case False
  let ?us = "filter (is_unique count) c" and ?ss = "filter (\<lambda>r. \<not> is_unique count r) c"
  let ?b = "at_unique_base t" and ?j = "unat (ids m - at_unique_base t)"
  have same: "ids (dr_message r) = ids m \<longleftrightarrow> dr_message r = m" if "r \<in> set c" for r
    using inj_onD [OF assms(2), of "dr_message r" m] assms(3,5) False that by auto
  note t = assms(1) [unfolded table_ok_def]
  show ?thesis
  proof (cases "?b \<le> ids m \<and> ?j < length (at_unique t)")
    case True
    then have j: "?j < length ?us" using t by simp
    have "ids (dr_message (?us ! ?j)) = ?b + of_nat ?j" using t j by (simp add: numbered_def)
    then have "ids (dr_message (?us ! ?j)) = ids m" by simp
    moreover have r: "?us ! ?j \<in> set c" using nth_mem [OF j] by simp
    ultimately have "dr_message (?us ! ?j) = m" using same by blast
    with find_unique_key [OF assms(6) r] have "find (\<lambda>r. dr_message r = m) c = Some (?us ! ?j)" by simp
    with True False t j show ?thesis by (simp add: table_bind_def dynamic_dispatch_id_def)
  next
    case out: False
    let ?es = "map (\<lambda>r. (ids (dr_message r), dr_dispatcher r)) ?ss"
    have "dr_message r \<noteq> m" if r: "r \<in> set ?us" for r
    proof
      assume m: "dr_message r = m"
      obtain i where i: "i < length ?us" "?us ! i = r" using r unfolding in_set_conv_nth by blast
      from t i(1) have "ids (dr_message (?us ! i)) = ?b + of_nat i" by (simp add: numbered_def)
      then have "ids m = ?b + of_nat i" by (simp only: i(2) m)
      moreover have "unat (?b + of_nat i) = unat ?b + i"
        using t i(1) by (intro unat_plus_of_nat) (simp add: numbered_def)
      moreover have "unat (of_nat i :: u64) = i"
        using t i(1) by (simp add: numbered_def unat_of_nat take_bit_nat_eq_self)
      ultimately have "?b \<le> ids m" "?j = i"
        by (simp_all add: word_le_nat_alt)
      with out i(1) t show False by simp
    qed
    then have ss: "find (\<lambda>r. dr_message r = m) ?ss = find (\<lambda>r. dr_message r = m) c"
      by (intro find_filter_none) auto
    have "distinct (map dr_message ?ss)" using assms(6) by (rule distinct_map_filter)
    moreover have "inj_on ids (dr_message ` set ?ss)"
      by (rule inj_on_subset [OF assms(2)]) (use assms(5) in auto)
    ultimately have "distinct (map ids (map dr_message ?ss))"
      by (simp only: distinct_map set_map simp_thms)
    then have "distinct (map fst ?es)" by (simp add: comp_def)
    then have "distinct (map fst (sort_key fst ?es))" by (simp only: distinct_map distinct_sort set_sort simp_thms)
    then have "sorted_wrt (<) (map fst (sort_key fst ?es))" by (simp add: strict_sorted_iff)
    from binary_search_find [OF this, of "ids m"]
    have search: "map_option ((!) (at_shared t)) (binary_search_by_key fst (ids m) (at_shared t)) =
        find (\<lambda>e. fst e = ids m) ?es"
      using t by (simp add: find_sort_key)
    have ids: "find (\<lambda>r. ids (dr_message r) = ids m) ?ss = find (\<lambda>r. dr_message r = m) ?ss"
      by (rule find_cong_set) (simp add: same)
    have "map_option (\<lambda>j. snd (at_shared t ! j)) (binary_search_by_key fst (ids m) (at_shared t)) =
        map_option snd (map_option ((!) (at_shared t)) (binary_search_by_key fst (ids m) (at_shared t)))"
      by (simp add: option.map_comp comp_def)
    also have "\<dots> = map_option dr_dispatcher (find (\<lambda>r. dr_message r = m) ?ss)"
      unfolding search find_map fst_conv ids by (simp add: option.map_comp comp_def)
    finally have "map_option (\<lambda>j. snd (at_shared t ! j)) (binary_search_by_key fst (ids m) (at_shared t)) =
        map_option dr_dispatcher (find (\<lambda>r. dr_message r = m) ?ss)" .
    with out False ss show ?thesis by (auto simp: table_bind_def dynamic_dispatch_id_def)
  qed
qed

section \<open>The sorted registrations\<close>

lemma count_handlers_eq:
  "count_handlers rs count m =
     (let n = length (filter (\<lambda>r. dr_message r = m) rs)
      in if n = 0 then count m else Some ((case count m of Some k \<Rightarrow> k | None \<Rightarrow> 0) + n))"
  by (induction rs arbitrary: count) (auto simp: Let_def)

lemma sorted_regs_strict: "sorted_wrt (<) (map reg_key (sorted_regs regs))"
  unfolding sorted_regs_def by (rule strict_dedup_by_key) simp

lemma sorted_regs_actors: "sorted (map dr_actor (sorted_regs regs))"
proof -
  have "sorted_wrt (\<lambda>r r'. reg_key r < reg_key r') (sorted_regs regs)"
    using sorted_regs_strict by (simp add: sorted_wrt_map)
  then have "sorted_wrt (\<lambda>r r'. dr_actor r \<le> dr_actor r') (sorted_regs regs)"
    by (rule sorted_wrt_mono_rel [rotated]) (auto simp: reg_key_def less_prod_def')
  then show ?thesis by (simp add: sorted_wrt_map)
qed

lemma sorted_regs_find:
  "find (\<lambda>r. dr_actor r = a \<and> dr_message r = m) (sorted_regs regs) =
   find (\<lambda>r. dr_actor r = a \<and> dr_message r = m) regs"
proof -
  have "(\<lambda>r. dr_actor r = a \<and> dr_message r = m) = (\<lambda>r. reg_key r = (a, m))"
    by (auto simp: reg_key_def)
  then show ?thesis by (simp add: sorted_regs_def find_dedup_by_key find_sort_key)
qed

lemma sorted_regs_messages: "dr_message ` set (sorted_regs regs) = dr_message ` set regs"
proof -
  have "snd ` reg_key ` set (sorted_regs regs) = snd ` reg_key ` set regs"
    unfolding sorted_regs_def keys_dedup_by_key by simp
  then show ?thesis by (simp add: reg_key_def image_image)
qed

definition actor_chunks :: "DynamicHandlerRegistration list \<Rightarrow> DynamicHandlerRegistration list list" where
  "actor_chunks regs = chunk_by (\<lambda>a b. dr_actor a = dr_actor b) (sorted_regs regs)"

lemma actor_chunks_concat: "concat (actor_chunks regs) = sorted_regs regs"
  by (simp add: actor_chunks_def chunk_by_shape)

lemma actor_chunks_shape:
  "c \<in> set (actor_chunks regs) \<Longrightarrow> c \<noteq> []"
  "c \<in> set (actor_chunks regs) \<Longrightarrow> r \<in> set c \<Longrightarrow> dr_actor r = dr_actor (hd c)"
  "sorted_wrt (<) (map (\<lambda>c. dr_actor (hd c)) (actor_chunks regs))"
  using chunk_by_sorted [OF sorted_regs_actors, of regs] chunk_by_shape(2) [of _ "sorted_regs regs"]
  unfolding actor_chunks_def comp_def by metis+

lemma actor_chunks_messages:
  assumes "c \<in> set (actor_chunks regs)"
  shows "distinct (map dr_message c)" "dr_message ` set c \<subseteq> dr_message ` set regs"
proof -
  obtain xs ys where "actor_chunks regs = xs @ c # ys" using assms by (meson split_list)
  then have L: "sorted_regs regs = concat xs @ c @ concat ys"
    using actor_chunks_concat [of regs] by simp
  have "distinct (map reg_key (sorted_regs regs))"
    using sorted_regs_strict by (rule strict_sorted_distinct)
  then have "distinct (map reg_key c)" unfolding L by simp
  moreover have "reg_key r = (dr_actor (hd c), dr_message r)" if "r \<in> set c" for r
    using actor_chunks_shape(2) [OF assms that] by (simp add: reg_key_def)
  ultimately show "distinct (map dr_message c)"
    by (simp add: distinct_map inj_on_def)
  have "dr_message ` set c \<subseteq> dr_message ` set (sorted_regs regs)" unfolding L by auto
  then show "dr_message ` set c \<subseteq> dr_message ` set regs" by (simp only: sorted_regs_messages)
qed

text \<open>Looking a pair up is finding the actor's chunk and the message in it.\<close>

lemma find_append: "find p (xs @ ys) = (case find p xs of None \<Rightarrow> find p ys | Some x \<Rightarrow> Some x)"
  by (induction xs) auto

lemma find_concat_chunks:
  "(\<forall>c \<in> set cs. \<forall>r \<in> set c. f r = f (hd c)) \<Longrightarrow> distinct (map (\<lambda>c. f (hd c)) cs) \<Longrightarrow>
     find (\<lambda>r. f r = a \<and> g r = m) (concat cs) =
       (case find (\<lambda>c. f (hd c) = a) cs of None \<Rightarrow> None | Some c \<Rightarrow> find (\<lambda>r. g r = m) c)"
proof (induction cs)
  case (Cons c cs)
  show ?case
  proof (cases "f (hd c) = a")
    case True
    then have "find (\<lambda>r. f r = a \<and> g r = m) c = find (\<lambda>r. g r = m) c"
      using Cons.prems(1) by (intro find_cong_set) auto
    moreover have "f (hd d) \<noteq> a" if "d \<in> set cs" for d
    proof
      assume a: "f (hd d) = a"
      have "f (hd d) \<in> (\<lambda>c. f (hd c)) ` set cs" using that by (rule imageI)
      then have "a \<in> (\<lambda>c. f (hd c)) ` set cs" by (simp only: a)
      with Cons.prems(2) True show False by simp
    qed
    then have "find (\<lambda>c. f (hd c) = a) cs = None" by (auto simp: find_None_iff)
    ultimately show ?thesis using Cons True by (simp add: find_append split: option.split)
  next
    case False
    then have "find (\<lambda>r. f r = a \<and> g r = m) c = None" using Cons.prems(1) by (auto simp: find_None_iff)
    with Cons False show ?thesis by (simp add: find_append)
  qed
qed simp

section \<open>The build\<close>

lemma find_list_all2:
  assumes "list_all2 R xs ys" "\<And>x y. R x y \<Longrightarrow> p x = q y"
  shows "rel_option R (find p xs) (find q ys)"
  using assms by (induction rule: list_all2_induct) auto

text \<open>What a successful build leaves: ids for exactly the registered messages, a table per actor.\<close>

lemma build_spec:
  assumes "build regs ids0 = Inr (reg, ids)"
  shows "\<exists>next_id count. ids_ok ids0 ids next_id (dr_message ` set regs) \<and>
    list_all2 (table_ok ids count) (actor_chunks regs) (rg_actors reg) \<and> rg_frozen_count reg = length regs"
proof -
  define count where "count = count_handlers (sorted_regs regs) Map.empty"
  from assms obtain ids1 next1 qs next2 shared_ids where passes:
      "unique_pass count (actor_chunks regs) (ids0, 1, []) = Inr (ids1, next1, qs)"
      "shared_pass (concat (map pa_shared_regs qs)) (ids1, next1, Map.empty) = Inr (ids, next2, shared_ids)"
      "build_tables shared_ids qs = Inr (rg_actors reg)" "rg_frozen_count reg = length regs"
    by (auto simp: build_def outcome_simps count_def actor_chunks_def Let_def)
  have "ids_ok ids0 ids0 1 {}" by (simp add: ids_ok_def)
  from unique_pass_spec [OF passes(1) this] have one:
      "ids_ok ids0 ids1 next1 (dr_message ` set (filter (is_unique count) (sorted_regs regs)))"
      "list_all2 (pending_ok ids1 count) (actor_chunks regs) qs"
    by (auto simp: actor_chunks_concat)
  have "map pa_shared_regs qs = map (filter (\<lambda>r. \<not> is_unique count r)) (actor_chunks regs)"
    using one(2) by (induction rule: list_all2_induct) (auto simp: pending_ok_def)
  then have shared: "concat (map pa_shared_regs qs) = filter (\<lambda>r. \<not> is_unique count r) (sorted_regs regs)"
    by (simp add: filter_concat actor_chunks_concat [symmetric])
  have "shared_ok ids1 Map.empty" by (simp add: shared_ok_def)
  from shared_pass_spec [OF passes(2) one(1) this] have two:
      "ids_ok ids0 ids next2 (dr_message ` set (filter (is_unique count) (sorted_regs regs)) \<union>
         dr_message ` set (concat (map pa_shared_regs qs)))" "grows ids1 ids" "shared_ok ids shared_ids"
    by auto
  have "dr_message ` set (filter (is_unique count) (sorted_regs regs)) \<union>
         dr_message ` set (concat (map pa_shared_regs qs)) = dr_message ` set (sorted_regs regs)"
    unfolding shared by auto
  with two(1) have "ids_ok ids0 ids next2 (dr_message ` set regs)"
    by (simp only: sorted_regs_messages)
  moreover have "list_all2 (pending_ok ids count) (actor_chunks regs) qs"
    using one(2) by (rule list_all2_mono) (rule pending_ok_grows [OF _ two(2)])
  then have "list_all2 (table_ok ids count) (actor_chunks regs) (rg_actors reg)"
    by (rule build_tables_spec [OF passes(3) two(3)])
  ultimately show ?thesis using passes(4) by blast
qed

lemma build_lookup:
  assumes "build regs ids0 = Inr (reg, ids)" "ids0 m = 0"
  shows "(case table_for reg a of None \<Rightarrow> None | Some t \<Rightarrow> table_bind ids t m) =
    map_option dr_dispatcher (find (\<lambda>r. dr_actor r = a \<and> dr_message r = m) regs)"
proof -
  obtain next_id count where ok: "ids_ok ids0 ids next_id (dr_message ` set regs)"
      "list_all2 (table_ok ids count) (actor_chunks regs) (rg_actors reg)"
    using build_spec [OF assms(1)] by blast
  have actors: "map at_actor (rg_actors reg) = map (\<lambda>c. dr_actor (hd c)) (actor_chunks regs)"
    using ok(2) by (induction rule: list_all2_induct) (auto simp: table_ok_def)
  have "table_for reg a = find (\<lambda>t. at_actor t = a) (rg_actors reg)"
    using binary_search_find [of at_actor "rg_actors reg" a] actors actor_chunks_shape(3) [of regs]
    by (simp add: table_for_def)
  then have rel: "rel_option (table_ok ids count) (find (\<lambda>c. dr_actor (hd c) = a) (actor_chunks regs)) (table_for reg a)"
    using find_list_all2 [OF ok(2), of "\<lambda>c. dr_actor (hd c) = a" "\<lambda>t. at_actor t = a"]
    by (simp add: table_ok_def)
  have split: "find (\<lambda>r. dr_actor r = a \<and> dr_message r = m) regs =
      (case find (\<lambda>c. dr_actor (hd c) = a) (actor_chunks regs) of None \<Rightarrow> None
       | Some c \<Rightarrow> find (\<lambda>r. dr_message r = m) c)"
    using find_concat_chunks [of "actor_chunks regs" dr_actor a dr_message m] actor_chunks_shape(2)
      strict_sorted_distinct [OF actor_chunks_shape(3)] sorted_regs_find [of a m regs]
    by (simp add: actor_chunks_concat)
  show ?thesis
  proof (cases "find (\<lambda>c. dr_actor (hd c) = a) (actor_chunks regs)")
    case None
    with rel split show ?thesis by simp
  next
    case (Some c)
    with rel obtain t where t: "table_for reg a = Some t" "table_ok ids count c t"
      by (auto simp: option_rel_Some1)
    have c: "c \<in> set (actor_chunks regs)" using Some by (auto simp: find_Some_iff)
    have "table_bind ids t m = map_option dr_dispatcher (find (\<lambda>r. dr_message r = m) c)"
    proof (rule table_bind_chunk [OF t(2)])
      show "inj_on ids (dr_message ` set regs)" using ok(1) by (simp add: ids_ok_def)
      show "m \<in> dr_message ` set regs" if "ids m \<noteq> 0"
        using ok(1) that assms(2) by (auto simp: ids_ok_def)
      show "\<forall>r \<in> set c. ids (dr_message r) \<noteq> 0"
      proof
        fix r
        assume "r \<in> set c"
        then have "dr_message r \<in> dr_message ` set regs" using actor_chunks_messages(2) [OF c] by blast
        with ok(1) have "0 < unat (ids (dr_message r))" unfolding ids_ok_def by blast
        then show "ids (dr_message r) \<noteq> 0" by auto
      qed
    qed (use actor_chunks_messages [OF c] in auto)
    with Some t split show ?thesis by simp
  qed
qed

section \<open>The build succeeds\<close>

lemma next_id_after_ok: "unat i + 1 < 2 ^ 64 \<Longrightarrow> next_id_after i = Inr (i + 1)"
  by (simp add: next_id_after_def)

lemma assign_id_ok: "ids m = 0 \<Longrightarrow> assign_id m i ids = Inr (ids(m := i))"
  by (simp add: assign_id_def assign_dynamic_dispatch_id_def)

lemma unique_regs_total:
  "\<forall>r \<in> set rs. count (dr_message r) \<noteq> None \<Longrightarrow> distinct (map dr_message (filter (is_unique count) rs)) \<Longrightarrow>
     \<forall>r \<in> set (filter (is_unique count) rs). ids (dr_message r) = 0 \<Longrightarrow>
     unat next_id + length (filter (is_unique count) rs) < 2 ^ 64 \<Longrightarrow>
     \<exists>result. unique_regs count rs (ids, next_id, actor) = Inr result"
proof (induction rs arbitrary: ids next_id actor)
  case (Cons r rs)
  show ?case
  proof (cases "is_unique count r")
    case False
    then obtain n where "count (dr_message r) = Some n" "n \<noteq> 1"
      using Cons.prems(1) by (auto simp: is_unique_def)
    with Cons False show ?thesis by simp
  next
    case True
    have n: "unat next_id + 1 < 2 ^ 64" using Cons.prems(4) True by simp
    note n = n unat_next [OF n]
    have "\<forall>r' \<in> set (filter (is_unique count) rs). (ids(dr_message r := next_id)) (dr_message r') = 0"
    proof
      fix r'
      assume r': "r' \<in> set (filter (is_unique count) rs)"
      then have "dr_message r' \<in> dr_message ` set (filter (is_unique count) rs)" by (rule imageI)
      with Cons.prems(2) True have "dr_message r' \<noteq> dr_message r" by auto
      with Cons.prems(3) r' show "(ids(dr_message r := next_id)) (dr_message r') = 0" by simp
    qed
    then obtain result where "unique_regs count rs (ids(dr_message r := next_id), next_id + 1,
        actor\<lparr>pa_unique := pa_unique actor @ [dr_dispatcher r]\<rparr>) = Inr result"
      using Cons.IH [of "ids(dr_message r := next_id)" "next_id + 1"] Cons.prems True n by fastforce
    with True n Cons.prems(3) show ?thesis
      by (cases result) (simp add: is_unique_def next_id_after_ok assign_id_ok)
  qed
qed simp

lemma unique_pass_total:
  "ids_ok ids0 ids next_id A \<Longrightarrow> \<forall>r \<in> set (concat cs). count (dr_message r) \<noteq> None \<and> ids0 (dr_message r) = 0 \<Longrightarrow>
     distinct (map dr_message (filter (is_unique count) (concat cs))) \<Longrightarrow>
     \<forall>r \<in> set (filter (is_unique count) (concat cs)). dr_message r \<notin> A \<Longrightarrow>
     unat next_id + length (filter (is_unique count) (concat cs)) < 2 ^ 64 \<Longrightarrow>
     \<exists>result. unique_pass count cs (ids, next_id, pending) = Inr result"
proof (induction cs arbitrary: ids next_id pending A)
  case (Cons c cs)
  let ?a = "\<lparr>pa_actor = dr_actor (hd c), pa_unique_base = next_id, pa_unique = [], pa_shared_regs = []\<rparr>"
  have "\<forall>r \<in> set (filter (is_unique count) c). ids (dr_message r) = 0"
    using Cons.prems(1,2,4) by (auto simp: ids_ok_def)
  then obtain ids1 next1 actor where step: "unique_regs count c (ids, next_id, ?a) = Inr (ids1, next1, actor)"
    using unique_regs_total [of c count ids next_id ?a] Cons.prems(2,3,5) by force
  note one = unique_regs_spec [OF step Cons.prems(1)]
  have "\<forall>r \<in> set (filter (is_unique count) (concat cs)).
      dr_message r \<notin> A \<union> dr_message ` set (filter (is_unique count) c)"
    using Cons.prems(3,4) by auto
  moreover have "unat next1 + length (filter (is_unique count) (concat cs)) < 2 ^ 64"
    using one Cons.prems(5) by simp
  ultimately obtain result where "unique_pass count cs (ids1, next1, pending @ [actor]) = Inr result"
    using Cons.IH [of ids1 next1 "A \<union> dr_message ` set (filter (is_unique count) c)" "pending @ [actor]"]
      one Cons.prems(2,3) by auto
  with step show ?case by (cases result) simp
qed simp

lemma shared_pass_total:
  "\<forall>r \<in> set rs. shared_ids (dr_message r) = None \<longrightarrow> ids (dr_message r) = 0 \<Longrightarrow>
     unat next_id + length rs < 2 ^ 64 \<Longrightarrow> \<exists>result. shared_pass rs (ids, next_id, shared_ids) = Inr result"
proof (induction rs arbitrary: ids next_id shared_ids)
  case (Cons r rs)
  show ?case
  proof (cases "shared_ids (dr_message r)")
    case (Some i)
    with Cons show ?thesis by simp
  next
    case None
    have n: "unat next_id + 1 < 2 ^ 64" using Cons.prems(2) by simp
    note n = n unat_next [OF n]
    let ?shared = "shared_ids(dr_message r \<mapsto> next_id)" and ?ids = "ids(dr_message r := next_id)"
    have "\<forall>r' \<in> set rs. ?shared (dr_message r') = None \<longrightarrow> ?ids (dr_message r') = 0"
      using Cons.prems(1) by simp
    moreover have "unat (next_id + 1) + length rs < 2 ^ 64" using n Cons.prems(2) by simp
    ultimately obtain result where "shared_pass rs (?ids, next_id + 1, ?shared) = Inr result"
      using Cons.IH by blast
    with Cons.prems(1) None n(1) show ?thesis
      by (cases result) (simp add: next_id_after_ok assign_id_ok)
  qed
qed simp

lemma shared_entries_total:
  "\<forall>r \<in> set rs. shared_ids (dr_message r) \<noteq> None \<Longrightarrow> \<exists>es. shared_entries shared_ids rs = Inr es"
  by (induction rs) auto

lemma build_tables_total:
  "\<forall>q \<in> set qs. \<forall>r \<in> set (pa_shared_regs q). shared_ids (dr_message r) \<noteq> None \<Longrightarrow>
     \<exists>ts. build_tables shared_ids qs = Inr ts"
proof (induction qs)
  case (Cons q qs)
  then obtain es ts where "shared_entries shared_ids (pa_shared_regs q) = Inr es" "build_tables shared_ids qs = Inr ts"
    using shared_entries_total [of "pa_shared_regs q" shared_ids] by auto
  then show ?case by simp
qed simp

lemma distinct_single_keys:
  "\<forall>x \<in> set (filter p xs). length (filter (\<lambda>y. f y = f x) xs) \<le> 1 \<Longrightarrow> distinct (map f (filter p xs))"
proof (induction xs)
  case (Cons x xs)
  have "\<forall>y \<in> set (filter p xs). length (filter (\<lambda>z. f z = f y) xs) \<le> 1"
    using Cons.prems by (auto split: if_splits)
  moreover have "f x \<notin> f ` set xs" if "p x"
  proof -
    have "filter (\<lambda>y. f y = f x) xs = []" using Cons.prems that by simp
    then show ?thesis by (force simp: filter_empty_conv)
  qed
  ultimately show ?case using Cons.IH by auto
qed simp

lemma length_dedup_by_key: "length (dedup_by_key f xs) \<le> length xs"
  by (induction f xs rule: dedup_by_key.induct) auto

lemma build_total:
  assumes "\<forall>r \<in> set regs. ids0 (dr_message r) = 0" "length regs + 1 < 2 ^ 64"
  shows "\<exists>reg ids. build regs ids0 = Inr (reg, ids)"
proof -
  let ?L = "sorted_regs regs"
  define count where "count = count_handlers ?L Map.empty"
  have L: "\<forall>r \<in> set ?L. ids0 (dr_message r) = 0"
  proof
    fix r
    assume "r \<in> set ?L"
    then have "dr_message r \<in> dr_message ` set ?L" by (rule imageI)
    then have "dr_message r \<in> dr_message ` set regs" by (simp only: sorted_regs_messages)
    with assms(1) show "ids0 (dr_message r) = 0" by auto
  qed
  have some: "\<forall>r \<in> set ?L. count (dr_message r) \<noteq> None"
    by (auto simp: count_def count_handlers_eq Let_def filter_empty_conv)
  have len: "length ?L \<le> length regs"
    unfolding sorted_regs_def using length_dedup_by_key [of reg_key "sort_key reg_key regs"] by simp
  have once: "length (filter (\<lambda>y. dr_message y = dr_message x) ?L) \<le> 1" if "is_unique count x" for x
    using that by (auto simp: is_unique_def count_def count_handlers_eq Let_def split: if_splits)
  have distinct: "distinct (map dr_message (filter (is_unique count) ?L))"
    by (rule distinct_single_keys) (use once in simp)
  have start: "ids_ok ids0 ids0 1 {}" by (simp add: ids_ok_def)
  have "length (filter (is_unique count) ?L) \<le> length ?L" by (rule length_filter_le)
  with len assms(2) have room: "1 + length (filter (is_unique count) ?L) < 2 ^ 64" by linarith
  from unique_pass_total [OF start, of "actor_chunks regs" count "[]"] L some distinct room
  obtain ids1 next1 qs where one: "unique_pass count (actor_chunks regs) (ids0, 1, []) = Inr (ids1, next1, qs)"
    by (auto simp: actor_chunks_concat)
  note spec = unique_pass_spec [OF one start]
  have qs: "list_all2 (pending_ok ids1 count) (actor_chunks regs) qs" using spec by auto
  have "map pa_shared_regs qs = map (filter (\<lambda>r. \<not> is_unique count r)) (actor_chunks regs)"
    using qs by (induction rule: list_all2_induct) (auto simp: pending_ok_def)
  then have shared: "concat (map pa_shared_regs qs) = filter (\<lambda>r. \<not> is_unique count r) ?L"
    by (simp add: filter_concat actor_chunks_concat [symmetric])
  have "\<forall>r \<in> set (concat (map pa_shared_regs qs)). ids1 (dr_message r) = 0"
  proof
    fix r
    assume "r \<in> set (concat (map pa_shared_regs qs))"
    then have r: "r \<in> set ?L" "\<not> is_unique count r" unfolding shared by auto
    then have "dr_message r \<notin> dr_message ` set (filter (is_unique count) ?L)"
      by (auto simp: is_unique_def)
    with spec L r show "ids1 (dr_message r) = 0" by (auto simp: ids_ok_def actor_chunks_concat)
  qed
  moreover have "length (filter (is_unique count) ?L) + length (filter (\<lambda>r. \<not> is_unique count r) ?L) = length ?L"
    by (rule sum_length_filter_compl)
  then have "unat next1 + length (concat (map pa_shared_regs qs)) < 2 ^ 64"
    using spec len assms(2) unfolding shared by (simp add: actor_chunks_concat)
  ultimately obtain ids2 next2 shared_ids where two:
      "shared_pass (concat (map pa_shared_regs qs)) (ids1, next1, Map.empty) = Inr (ids2, next2, shared_ids)"
    using shared_pass_total [of "concat (map pa_shared_regs qs)" Map.empty ids1 next1] by auto
  have "shared_ok ids1 Map.empty" "dom Map.empty \<subseteq> {} \<union> dr_message ` set (filter (is_unique count) (concat (actor_chunks regs)))"
    by (simp_all add: shared_ok_def)
  with shared_pass_spec [OF two conjunct1 [OF spec]]
  have "dom shared_ids = dom Map.empty \<union> dr_message ` set (concat (map pa_shared_regs qs))" by blast
  then have "dr_message r \<in> dom shared_ids" if "q \<in> set qs" "r \<in> set (pa_shared_regs q)" for q r
    using that by auto
  then have "\<forall>q \<in> set qs. \<forall>r \<in> set (pa_shared_regs q). shared_ids (dr_message r) \<noteq> None"
    by (auto simp: domIff)
  then obtain ts where "build_tables shared_ids qs = Inr ts" using build_tables_total by blast
  with one two show ?thesis
    by (simp add: build_def count_def actor_chunks_def Let_def)
qed

text \<open>Whatever fails is a panic.\<close>

lemma assign_id_faults: "faults (\<lambda>f. f = Panic) (assign_id m i ids)"
  by (simp add: faults_def assign_id_def split: prod.splits sum.splits)

lemma next_id_after_faults: "faults (\<lambda>f. f = Panic) (next_id_after i)"
  by (simp add: faults_def next_id_after_def)

lemma unique_regs_faults: "faults (\<lambda>f. f = Panic) (unique_regs count rs s)"
  by (induction count rs s rule: unique_regs.induct)
    (auto split: option.split intro!: faults_and_then assign_id_faults next_id_after_faults)

lemma unique_pass_faults: "faults (\<lambda>f. f = Panic) (unique_pass count cs s)"
  by (induction count cs s rule: unique_pass.induct)
    (auto intro!: faults_and_then unique_regs_faults)

lemma shared_pass_faults: "faults (\<lambda>f. f = Panic) (shared_pass rs s)"
  by (induction rs s rule: shared_pass.induct)
    (auto split: option.split intro!: faults_and_then assign_id_faults next_id_after_faults)

lemma shared_entries_faults: "faults (\<lambda>f. f = Panic) (shared_entries shared_ids rs)"
  by (induction shared_ids rs rule: shared_entries.induct) (auto split: option.split intro!: faults_and_then)

lemma build_tables_faults: "faults (\<lambda>f. f = Panic) (build_tables shared_ids qs)"
  by (induction shared_ids qs rule: build_tables.induct)
    (auto intro!: faults_and_then shared_entries_faults)

lemma build_faults: "faults (\<lambda>f. f = Panic) (build regs ids)"
  by (auto simp: build_def Let_def
      intro!: faults_and_then unique_pass_faults shared_pass_faults build_tables_faults)

end
