(* ===== verification/Registry_Properties.thy ===== *)
theory Registry_Properties
  imports Registry_Build
begin

text \<open>
  The properties of the dispatch registry: binding is looking the pair up in the registrations
  that were frozen, ids are unique, the build succeeds unless an id was assigned from outside,
  and the order of the registrations does not matter.
\<close>

definition sample_regs :: "DynamicHandlerRegistration list" where
  "sample_regs =
     [\<lparr>dr_actor = 20, dr_message = 8, dr_dispatcher = 1\<rparr>, \<lparr>dr_actor = 10, dr_message = 16, dr_dispatcher = 2\<rparr>,
      \<lparr>dr_actor = 10, dr_message = 8, dr_dispatcher = 3\<rparr>, \<lparr>dr_actor = 10, dr_message = 24, dr_dispatcher = 4\<rparr>,
      \<lparr>dr_actor = 20, dr_message = 8, dr_dispatcher = 1\<rparr>]"

definition sample_registry :: DispatchRegistry where
  "sample_registry =
     \<lparr>rg_actors = [\<lparr>at_actor = 10, at_unique_base = 1, at_unique = [2, 4], at_shared = [(3, 3)]\<rparr>,
        \<lparr>at_actor = 20, at_unique_base = 3, at_unique = [], at_shared = [(3, 1)]\<rparr>],
      rg_frozen_count = 5\<rparr>"

definition sample_ids :: dispatch_ids where
  "sample_ids = (\<lambda>_. 0)(16 := 1, 24 := 2, 8 := 3)"

lemma less_key: "(a, b) < (c, d) \<longleftrightarrow> a < c \<or> a = c \<and> b < (d :: u64)" for a c :: u64
  by (auto simp: less_prod_def')

lemma le_key: "(a, b) \<le> (c, d) \<longleftrightarrow> a < c \<or> a = c \<and> b \<le> (d :: u64)" for a c :: u64
  by (auto simp: less_eq_prod_def)

lemmas registry_eval = build_def sorted_regs_def reg_key_def assign_id_def
  assign_dynamic_dispatch_id_def next_id_after_def Let_def

lemma sample_build: "build sample_regs (\<lambda>_. 0) = Inr (sample_registry, sample_ids)"
  by (simp add: sample_regs_def sample_registry_def sample_ids_def registry_eval)

text \<open>C19: Once the registry is frozen, a binder for an actor finds, for every message without an id
  from outside, the dispatcher of the first registration of that actor and message, and nothing
  where the pair was not registered; registrations that arrive later are never bound, and make
  every later binder of a build with debug assertions panic.\<close>

theorem binder_finds_handler:
  assumes "rw_registry w = None" "dispatch_registry w = Inr (reg, w1)" "rw_ids w m = 0"
  shows "let w2 = w1\<lparr>rw_handlers := late @ rw_handlers w1\<rparr>
    in (\<exists>b. binder_new False a w2 = Inr (b, w2) \<and>
          binder_bind w2 b m =
            map_option dr_dispatcher (find (\<lambda>r. dr_actor r = a \<and> dr_message r = m) (rw_handlers w))) \<and>
       (binder_new True a w2 = Inl Panic \<longleftrightarrow> late \<noteq> [])"
proof -
  from assms(1,2) obtain ids where b: "build (rw_handlers w) (rw_ids w) = Inr (reg, ids)"
      and w1: "w1 = w\<lparr>rw_registry := Some reg, rw_ids := ids\<rparr>"
    by (auto simp: dispatch_registry_def outcome_simps)
  have "rg_frozen_count reg = length (rw_handlers w)" using build_spec [OF b] by blast
  with build_lookup [OF b assms(3), of a] w1 show ?thesis
    by (cases late)
      (simp_all add: Let_def binder_new_def dispatch_registry_def debug_assert_fresh_def
        binder_bind_def split: option.splits)
qed

theorem binder_finds_handler_witness:
  "let w = \<lparr>rw_registry = Some sample_registry, rw_ids = sample_ids,
       rw_handlers = \<lparr>dr_actor = 30, dr_message = 32, dr_dispatcher = 9\<rparr> # sample_regs\<rparr>
   in (\<exists>b. binder_new False 10 w = Inr (b, w) \<and> binder_bind w b 8 = Some 3) \<and>
      binder_new True 10 w = Inl Panic"
proof -
  let ?w = "\<lparr>rw_registry = None, rw_ids = (\<lambda>_. 0), rw_handlers = sample_regs\<rparr>"
  have "dispatch_registry ?w = Inr (sample_registry, ?w\<lparr>rw_registry := Some sample_registry, rw_ids := sample_ids\<rparr>)"
    by (simp add: dispatch_registry_def sample_build)
  from binder_finds_handler [OF _ this, of 8 "[\<lparr>dr_actor = 30, dr_message = 32, dr_dispatcher = 9\<rparr>]" 10]
  show ?thesis by (simp add: Let_def) (simp add: sample_regs_def)
qed

text \<open>C20: The build fails only by the panic over an id that a registered message already had; and
  when it succeeds every registered message has an id of its own, no other message is touched.\<close>

theorem build_outcome:
  assumes "length regs + 1 < 2 ^ 64"
  shows "case build regs ids0 of
      Inl f \<Rightarrow> f = Panic \<and> \<not> list_all (\<lambda>r. ids0 (dr_message r) = 0) regs
    | Inr (reg, ids) \<Rightarrow> list_all (\<lambda>r. ids0 (dr_message r) = 0 \<and> ids (dr_message r) \<noteq> 0) regs \<and>
        inj_on ids (dr_message ` set regs) \<and> (\<forall>m \<in> - dr_message ` set regs. ids m = ids0 m)"
proof (cases "build regs ids0")
  case (Inl f)
  then have "\<not> (\<forall>r \<in> set regs. ids0 (dr_message r) = 0)" using build_total [OF _ assms] by fastforce
  moreover have "f = Panic" using build_faults [of regs ids0] Inl by (simp add: faults_def)
  ultimately show ?thesis using Inl by (simp add: list_all_iff)
next
  case (Inr x)
  then obtain reg ids where x: "x = (reg, ids)" by (cases x)
  with build_spec [of regs ids0 reg ids] Inr show ?thesis
    by (auto simp: ids_ok_def list_all_iff)
qed

theorem build_outcome_witness:
  "build [\<lparr>dr_actor = 20, dr_message = 8, dr_dispatcher = 1\<rparr>] (\<lambda>_. 7) = Inl Panic"
  using build_outcome [of "[\<lparr>dr_actor = 20, dr_message = 8, dr_dispatcher = 1\<rparr>]" "\<lambda>_. 7"]
  by (auto split: sum.splits)

text \<open>The order in which constructors registered the handlers is irrelevant, and so are duplicates
  of a pair with one dispatcher: the same set of registrations gives the same tables and ids.\<close>

theorem build_order_irrelevant:
  assumes "set regs = set regs'"
    and "\<forall>r \<in> set regs. \<forall>r' \<in> set regs. reg_key r = reg_key r' \<longrightarrow> r = r'"
  shows "and_then (build regs ids) (\<lambda>(reg, ids'). Inr (rg_actors reg, ids')) =
    and_then (build regs' ids) (\<lambda>(reg, ids'). Inr (rg_actors reg, ids'))"
proof -
  have key_set: "set (sorted_regs rs) = set rs" if "inj_on reg_key (set rs)" for rs
  proof -
    have "reg_key ` set (sorted_regs rs) = reg_key ` set rs"
      unfolding sorted_regs_def keys_dedup_by_key by simp
    moreover have "set (sorted_regs rs) \<subseteq> set rs"
      unfolding sorted_regs_def using set_dedup_by_key [of reg_key "sort_key reg_key rs"] by simp
    ultimately show ?thesis using inj_on_image_eq_iff [OF that] by blast
  qed
  have inj: "inj_on reg_key (set regs)" using assms(2) by (auto simp: inj_on_def)
  then have sets: "set (sorted_regs regs) = set (sorted_regs regs')"
    using assms(1) key_set by simp
  then have "map reg_key (sorted_regs regs) = map reg_key (sorted_regs regs')"
    by (intro strict_sorted_equal sorted_regs_strict) simp
  moreover have "inj_on reg_key (set (sorted_regs regs) \<union> set (sorted_regs regs'))"
    using inj sets key_set by simp
  ultimately have "sorted_regs regs = sorted_regs regs'"
    by (rule map_inj_on)
  then show ?thesis by (simp add: build_def Let_def and_then_assoc case_prod_beta)
qed

theorem build_order_irrelevant_witness:
  "and_then (build (rev sample_regs) (\<lambda>_. 0)) (\<lambda>(reg, ids). Inr (rg_actors reg, ids)) =
     Inr (rg_actors sample_registry, sample_ids)"
proof -
  have "and_then (build sample_regs (\<lambda>_. 0)) (\<lambda>(reg, ids'). Inr (rg_actors reg, ids')) =
      and_then (build (rev sample_regs) (\<lambda>_. 0)) (\<lambda>(reg, ids'). Inr (rg_actors reg, ids'))"
    by (rule build_order_irrelevant) (simp, simp add: sample_regs_def reg_key_def)
  then show ?thesis by (simp add: sample_build)
qed

end
