(* ===== verification/Collect.thy ===== *)
theory Collect
  imports Factories_Prelude
begin

text \<open>
  The lock-free collection that gathers the handler registrations at load time,
  \<open>crates/factories_collect/src/lib.rs\<close>: entries with a link and an initialized flag, the push of
  \<open>register\<close>, the iterator. The sequential functions come first, then the same code as programs
  of atomic accesses under interleaving.
\<close>

section \<open>Entries and the collection\<close>

text \<open>An entry is a static, named by its address.\<close>

type_synonym entry_id = nat

record 'v GlobalCollectionEntry =
  ge_value :: 'v
  ge_next :: "entry_id option"
  ge_initialized :: bool

record 'v GlobalCollection =
  gc_head :: "entry_id option"
  gc_entries :: "entry_id \<Rightarrow> 'v GlobalCollectionEntry"

definition entry_new :: "'v \<Rightarrow> 'v GlobalCollectionEntry" where
  "entry_new v = \<lparr>ge_value = v, ge_next = None, ge_initialized = False\<rparr>"

definition collection_new :: "(entry_id \<Rightarrow> 'v) \<Rightarrow> 'v GlobalCollection" where
  "collection_new values = \<lparr>gc_head = None, gc_entries = (\<lambda>e. entry_new (values e))\<rparr>"

definition set_initialized :: "entry_id \<Rightarrow> 'v GlobalCollection \<Rightarrow> 'v GlobalCollection" where
  "set_initialized e c = c\<lparr>gc_entries := (gc_entries c)(e := (gc_entries c e)\<lparr>ge_initialized := True\<rparr>)\<rparr>"

definition write_next :: "entry_id \<Rightarrow> entry_id option \<Rightarrow> 'v GlobalCollection \<Rightarrow> 'v GlobalCollection" where
  "write_next e h c = c\<lparr>gc_entries := (gc_entries c)(e := (gc_entries c e)\<lparr>ge_next := h\<rparr>)\<rparr>"

text \<open>\<open>register\<close> with no other thread about: the exchange succeeds at once.\<close>

definition register_entry :: "entry_id \<Rightarrow> 'v GlobalCollection \<Rightarrow> 'v GlobalCollection" where
  "register_entry e c =
     (if ge_initialized (gc_entries c e) then set_initialized e c
      else (write_next e (gc_head c) (set_initialized e c))\<lparr>gc_head := Some e\<rparr>)"

section \<open>The iterator\<close>

datatype GlobalCollectionIter = IterUninitialized | Iterating entry_id | IterDone

fun iter_load :: "'v GlobalCollection \<Rightarrow> GlobalCollectionIter" where
  "iter_load c = (case gc_head c of None \<Rightarrow> IterDone | Some e \<Rightarrow> Iterating e)"

definition iter_read :: "entry_id \<Rightarrow> 'v GlobalCollection \<Rightarrow> 'v \<times> GlobalCollectionIter" where
  "iter_read e c =
     (ge_value (gc_entries c e),
      case ge_next (gc_entries c e) of None \<Rightarrow> IterDone | Some n \<Rightarrow> Iterating n)"

fun iter_next :: "'v GlobalCollection \<Rightarrow> GlobalCollectionIter \<Rightarrow> 'v option \<times> GlobalCollectionIter" where
  "iter_next c IterUninitialized =
     (case iter_load c of
        Iterating e \<Rightarrow> map_prod Some id (iter_read e c)
      | it \<Rightarrow> (None, it))"
| "iter_next c (Iterating e) = map_prod Some id (iter_read e c)"
| "iter_next c IterDone = (None, IterDone)"

text \<open>A \<open>for\<close> loop over the iterator; the fuel bounds its rounds.\<close>

fun iter_collect :: "nat \<Rightarrow> 'v GlobalCollection \<Rightarrow> GlobalCollectionIter \<Rightarrow> 'v list option" where
  "iter_collect 0 c it = None"
| "iter_collect (Suc n) c it =
     (case iter_next c it of
        (None, _) \<Rightarrow> Some []
      | (Some v, it') \<Rightarrow> map_option ((#) v) (iter_collect n c it'))"

section \<open>Programs\<close>

text \<open>Where a thread is in \<open>register\<close>; the argument is its local \<open>head\<close>.\<close>

datatype register_pc =
    Swap
  | LoadHead
  | WriteNext "entry_id option"
  | Exchange "entry_id option"
  | Returned

fun register_act :: "entry_id \<Rightarrow> register_pc \<Rightarrow> 'v GlobalCollection \<Rightarrow> register_pc \<times> 'v GlobalCollection" where
  "register_act e Swap c =
     (if ge_initialized (gc_entries c e) then Returned else LoadHead, set_initialized e c)"
| "register_act e LoadHead c = (WriteNext (gc_head c), c)"
| "register_act e (WriteNext h) c = (Exchange h, write_next e h c)"
| "register_act e (Exchange h) c =
     (if gc_head c = h then (Returned, c\<lparr>gc_head := Some e\<rparr>) else (WriteNext (gc_head c), c))"
| "register_act e Returned c = (Returned, c)"

text \<open>A thread registers an entry, or iterates and has seen some values.\<close>

datatype 'v collect_thread =
    Registering entry_id register_pc
  | Reading GlobalCollectionIter "'v list"

fun collect_act :: "'v collect_thread \<Rightarrow> 'v GlobalCollection \<Rightarrow> 'v collect_thread \<times> 'v GlobalCollection" where
  "collect_act (Registering e p) c = (case register_act e p c of (p', c') \<Rightarrow> (Registering e p', c'))"
| "collect_act (Reading IterUninitialized seen) c = (Reading (iter_load c) seen, c)"
| "collect_act (Reading (Iterating e) seen) c =
     (case iter_read e c of (v, it) \<Rightarrow> (Reading it (seen @ [v]), c))"
| "collect_act (Reading IterDone seen) c = (Reading IterDone seen, c)"

type_synonym 'v collect_system = "'v collect_thread list \<times> 'v GlobalCollection"

fun collect_step :: "nat \<Rightarrow> 'v collect_system \<Rightarrow> 'v collect_system" where
  "collect_step i (ts, c) =
     (if i < length ts then (case collect_act (ts ! i) c of (t, c') \<Rightarrow> (ts[i := t], c')) else (ts, c))"

definition collect_run :: "nat list \<Rightarrow> 'v collect_system \<Rightarrow> 'v collect_system" where
  "collect_run schedule s = fold collect_step schedule s"

text \<open>The function is the program run alone.\<close>

lemma register_alone:
  "(register_act e Swap c = (Returned, register_entry e c)) \<or>
   (\<exists>c1 c2. register_act e Swap c = (LoadHead, c1) \<and> register_act e LoadHead c1 = (WriteNext (gc_head c1), c1) \<and>
      register_act e (WriteNext (gc_head c1)) c1 = (Exchange (gc_head c1), c2) \<and>
      register_act e (Exchange (gc_head c1)) c2 = (Returned, register_entry e c))"
  by (simp add: register_entry_def set_initialized_def write_next_def)

section \<open>The chain\<close>

fun chain :: "'v GlobalCollection \<Rightarrow> entry_id option \<Rightarrow> entry_id list \<Rightarrow> bool" where
  "chain c h [] \<longleftrightarrow> h = None"
| "chain c h (e # es) \<longleftrightarrow> h = Some e \<and> chain c (ge_next (gc_entries c e)) es"

definition values_of :: "'v GlobalCollection \<Rightarrow> entry_id list \<Rightarrow> 'v list" where
  "values_of c es = map (\<lambda>e. ge_value (gc_entries c e)) es"

lemma chain_set_initialized [simp]: "chain (set_initialized e c) h es = chain c h es"
  by (induction es arbitrary: h) (auto simp: set_initialized_def)

lemma chain_write_next [simp]: "e \<notin> set es \<Longrightarrow> chain (write_next e h' c) h es = chain c h es"
  by (induction es arbitrary: h) (auto simp: write_next_def)

lemma chain_set_head [simp]: "chain (c\<lparr>gc_head := h'\<rparr>) h es = chain c h es"
  by (induction es arbitrary: h) auto

lemma chain_append: "chain c h (xs @ e # ys) \<Longrightarrow> chain c (Some e) (e # ys)"
  by (induction xs arbitrary: h) auto

lemma iter_collect_chain:
  "chain c h es \<Longrightarrow> length es < n \<Longrightarrow>
     iter_collect n c (case h of None \<Rightarrow> IterDone | Some e \<Rightarrow> Iterating e) = Some (values_of c es)"
proof (induction es arbitrary: h n)
  case Nil
  then show ?case by (cases n) (auto simp: values_of_def)
next
  case (Cons e es)
  then obtain k where n: "n = Suc k" by (cases n) auto
  with Cons show ?case by (auto simp: iter_read_def values_of_def)
qed

lemma iter_collect_all:
  assumes "chain c (gc_head c) es" "length es < n"
  shows "iter_collect n c IterUninitialized = Some (values_of c es)"
proof -
  obtain k where n: "n = Suc k" using assms(2) by (cases n) auto
  have "iter_collect n c IterUninitialized = iter_collect n c (iter_load c)"
    unfolding n by (auto split: option.split)
  with iter_collect_chain [OF assms] show ?thesis by simp
qed

end
