(* ===== verification/Collect_Threads.thy ===== *)
theory Collect_Threads
  imports Collect
begin

text \<open>
  The collection under interleaving: the chain from the head holds every published entry once, an
  entry between its claim and its publication belongs to one thread, a reader walks the chain it
  found at its load. And what follows for the finished system.
\<close>

section \<open>The invariant\<close>

definition owns :: "'v collect_thread \<Rightarrow> entry_id \<Rightarrow> bool" where
  "owns t e \<longleftrightarrow>
     (case t of Registering e' p \<Rightarrow> e' = e \<and> p \<noteq> Swap \<and> p \<noteq> Returned | Reading _ _ \<Rightarrow> False)"

lemma owns_simps [simp]:
  "owns (Registering e p) e' \<longleftrightarrow> e = e' \<and> p \<noteq> Swap \<and> p \<noteq> Returned"
  "\<not> owns (Reading it seen) e'"
  by (simp_all add: owns_def)

definition thread_ok :: "'v GlobalCollection \<Rightarrow> entry_id list \<Rightarrow> 'v collect_thread \<Rightarrow> bool" where
  "thread_ok c es t \<longleftrightarrow>
     (case t of
        Registering e p \<Rightarrow>
          (p \<noteq> Swap \<longrightarrow> ge_initialized (gc_entries c e)) \<and> (owns t e \<longrightarrow> e \<notin> set es) \<and>
          (\<forall>h. p = Exchange h \<longrightarrow> ge_next (gc_entries c e) = h)
      | Reading IterUninitialized seen \<Rightarrow> seen = []
      | Reading (Iterating e) seen \<Rightarrow> \<exists>new pre rest. es = new @ pre @ e # rest \<and> seen = values_of c pre
      | Reading IterDone seen \<Rightarrow> \<exists>new old. es = new @ old \<and> seen = values_of c old)"

fun target :: "'v collect_thread \<Rightarrow> entry_id option" where
  "target (Registering e p) = Some e"
| "target (Reading it seen) = None"

definition registers :: "'v collect_thread list \<Rightarrow> entry_id set" where
  "registers ts = {e. Some e \<in> set (map target ts)}"

definition collect_ok :: "'v collect_system \<Rightarrow> entry_id list \<Rightarrow> bool" where
  "collect_ok s es \<longleftrightarrow>
     (case s of (ts, c) \<Rightarrow>
        chain c (gc_head c) es \<and> distinct es \<and> list_all (thread_ok c es) ts \<and>
        (\<forall>i j e. i < length ts \<longrightarrow> j < length ts \<longrightarrow> owns (ts ! i) e \<longrightarrow> owns (ts ! j) e \<longrightarrow> i = j) \<and>
        (\<forall>e. ge_initialized (gc_entries c e) \<longleftrightarrow> e \<in> set es \<or> (\<exists>j < length ts. owns (ts ! j) e)) \<and>
        set es \<subseteq> registers ts)"

lemma values_of_simps [simp]:
  "values_of c [] = []" "values_of c (e # es) = ge_value (gc_entries c e) # values_of c es"
  "values_of c (es @ es') = values_of c es @ values_of c es'"
  "values_of (set_initialized e' c) es = values_of c es" "values_of (write_next e' h c) es = values_of c es"
  "values_of (c\<lparr>gc_head := h\<rparr>) es = values_of c es"
  by (simp_all add: values_of_def set_initialized_def write_next_def)

lemma entries_simps [simp]:
  "ge_initialized (gc_entries (set_initialized e c) e') = (e' = e \<or> ge_initialized (gc_entries c e'))"
  "ge_next (gc_entries (set_initialized e c) e') = ge_next (gc_entries c e')"
  "gc_head (set_initialized e c) = gc_head c"
  "ge_initialized (gc_entries (write_next e h c) e') = ge_initialized (gc_entries c e')"
  "ge_next (gc_entries (write_next e h c) e') = (if e' = e then h else ge_next (gc_entries c e'))"
  "gc_head (write_next e h c) = gc_head c"
  by (simp_all add: set_initialized_def write_next_def)

text \<open>A thread whose own entry is not touched stays as it was, whatever is pushed in front.\<close>

lemma thread_ok_push:
  assumes "thread_ok c es t" "\<not> owns t e"
  shows "thread_ok c (e # es) t"
proof (cases t)
  case (Registering e' p)
  with assms show ?thesis by (auto simp: thread_ok_def owns_def)
next
  case (Reading it seen)
  have "e # xs @ ys = (e # xs) @ ys" for xs ys :: "entry_id list" by simp
  with assms(1) Reading show ?thesis
    by (auto simp: thread_ok_def split: GlobalCollectionIter.splits) (metis append_Cons)+
qed

lemma thread_ok_change:
  assumes "thread_ok c es t"
    and "\<And>e. ge_initialized (gc_entries c e) \<Longrightarrow> ge_initialized (gc_entries c' e)"
    and "\<And>e. owns t e \<Longrightarrow> ge_next (gc_entries c' e) = ge_next (gc_entries c e)"
    and "\<And>xs. values_of c' xs = values_of c xs"
  shows "thread_ok c' es t"
  using assms by (cases t) (auto simp: thread_ok_def owns_def split: GlobalCollectionIter.splits)

lemma registers_update:
  assumes "i < length ts" "target t = target (ts ! i)"
  shows "registers (ts[i := t]) = registers ts"
proof -
  have "map target (ts[i := t]) = map target ts"
    using assms by (metis list_update_id map_update)
  then show ?thesis by (simp only: registers_def)
qed

lemma collect_ok_update:
  assumes ok: "collect_ok (ts, c) es" and i: "i < length ts" and t: "ts ! i = t" "target t' = target t"
    and chain: "chain c' (gc_head c') es'" "distinct es'"
    and self: "thread_ok c' es' t'"
    and others: "\<And>j. j < length ts \<Longrightarrow> j \<noteq> i \<Longrightarrow> thread_ok c' es' (ts ! j)"
    and own: "\<And>e. owns t' e \<Longrightarrow> owns t e \<or> \<not> ge_initialized (gc_entries c e)"
    and init: "\<And>e. ge_initialized (gc_entries c' e) \<longleftrightarrow>
        e \<in> set es' \<or> owns t' e \<or> (\<exists>j < length ts. j \<noteq> i \<and> owns (ts ! j) e)"
    and sub: "set es' \<subseteq> registers ts"
  shows "collect_ok (ts[i := t'], c') es'"
proof -
  have owners: "(\<exists>j < length (ts[i := t']). owns (ts[i := t'] ! j) e) \<longleftrightarrow>
      owns t' e \<or> (\<exists>j < length ts. j \<noteq> i \<and> owns (ts ! j) e)" for e
    using i by (metis length_list_update nth_list_update_eq nth_list_update_neq)
  have old: "owns (ts ! j) e \<Longrightarrow> ge_initialized (gc_entries c e)" if "j < length ts" for j e
    using ok that unfolding collect_ok_def by auto
  have "j = k" if "j < length ts" "k < length ts" "owns (ts[i := t'] ! j) e" "owns (ts[i := t'] ! k) e" for j k e
  proof (rule ccontr)
    assume neq: "j \<noteq> k"
    have uniq: "owns (ts ! j') e \<Longrightarrow> owns (ts ! k') e \<Longrightarrow> j' < length ts \<Longrightarrow> k' < length ts \<Longrightarrow> j' = k'" for j' k'
      using ok unfolding collect_ok_def by blast
    consider "j = i" "k \<noteq> i" | "k = i" "j \<noteq> i" | "j \<noteq> i" "k \<noteq> i" using neq by blast
    then show False
    proof cases
      case 1
      then show False using that own [of e] old [of k e] uniq [of i k] t(1) by auto
    next
      case 2
      then show False using that own [of e] old [of j e] uniq [of i j] t(1) by auto
    next
      case 3
      then show False using that uniq [of j k] neq by simp
    qed
  qed
  moreover have "list_all (thread_ok c' es') (ts[i := t'])"
    using self others i by (simp add: list_all_length nth_list_update)
  ultimately show ?thesis
    using chain init owners sub registers_update [OF i, of t'] t
    unfolding collect_ok_def by auto
qed

lemma collect_okD:
  assumes "collect_ok (ts, c) es"
  shows "chain c (gc_head c) es" "distinct es" "set es \<subseteq> registers ts"
    "i < length ts \<Longrightarrow> thread_ok c es (ts ! i)"
    "i < length ts \<Longrightarrow> j < length ts \<Longrightarrow> owns (ts ! i) e \<Longrightarrow> owns (ts ! j) e \<Longrightarrow> i = j"
    "ge_initialized (gc_entries c e) \<longleftrightarrow> e \<in> set es \<or> (\<exists>j < length ts. owns (ts ! j) e)"
  using assms by (auto simp: collect_ok_def list_all_length)

lemma init_split:
  assumes "collect_ok (ts, c) es" "i < length ts"
  shows "ge_initialized (gc_entries c e) \<longleftrightarrow>
    e \<in> set es \<or> owns (ts ! i) e \<or> (\<exists>j < length ts. j \<noteq> i \<and> owns (ts ! j) e)"
  using collect_okD(6) [OF assms(1)] assms(2) by blast

section \<open>Steps\<close>

lemma reading_step:
  assumes ok: "collect_ok (ts, c) es" and i: "i < length ts" "ts ! i = Reading it seen"
  shows "collect_ok (collect_step i (ts, c)) es"
proof -
  have t: "thread_ok c es (Reading it seen)" using collect_okD(4) [OF ok i(1)] i(2) by simp
  note chain = collect_okD(1) [OF ok]
  obtain it' seen' where act: "collect_act (Reading it seen) c = (Reading it' seen', c)"
    by (cases it) (auto simp: iter_read_def)
  have "thread_ok c es (Reading it' seen')"
  proof (cases it)
    case IterUninitialized
    then have "it' = iter_load c" "seen' = []" using act t by (auto simp: thread_ok_def)
    moreover have "\<exists>new pre rest. e # xs = new @ pre @ e # rest \<and> [] = values_of c pre" for e xs
      by (intro exI [of _ "[]"] exI [of _ xs]) simp
    ultimately show ?thesis using chain by (cases es) (auto simp: thread_ok_def)
  next
    case (Iterating e)
    then obtain new pre rest where es: "es = new @ pre @ e # rest" "seen = values_of c pre"
      using t by (auto simp: thread_ok_def)
    have "chain c (Some e) (e # rest)" using chain_append [of c "gc_head c" "new @ pre" e rest] chain es by simp
    then consider (last) "rest = []" "it' = IterDone" | (more) n rest' where "rest = n # rest'" "it' = Iterating n"
      using act Iterating by (cases rest) (auto simp: iter_read_def)
    moreover have seen: "seen' = values_of c (pre @ [e])" using act Iterating es by (auto simp: iter_read_def)
    moreover have "es = new @ (pre @ [e]) @ rest" using es by simp
    ultimately show ?thesis
      by cases (simp_all only: thread_ok_def collect_thread.case GlobalCollectionIter.case append_Nil2, blast+)
  next
    case IterDone
    then show ?thesis using act t by simp
  qed
  moreover have "owns (Reading it' seen') e = owns (ts ! i) e" for e using i(2) by (simp add: owns_def)
  ultimately have "collect_ok (ts[i := Reading it' seen'], c) es"
    using collect_okD [OF ok] init_split [OF ok i(1)]
    by (intro collect_ok_update [OF ok i]) auto
  then show ?thesis using act i by simp
qed

lemma registering_step:
  assumes ok: "collect_ok (ts, c) es" and i: "i < length ts" "ts ! i = Registering e p"
  shows "\<exists>new. collect_ok (collect_step i (ts, c)) (new @ es)"
proof -
  note D = collect_okD [OF ok] and init = init_split [OF ok i(1)]
  have t: "thread_ok c es (Registering e p)" using D(4) [OF i(1)] i(2) by simp
  have mine: "\<not> owns (ts ! j) e" if "owns (ts ! i) e" "j < length ts" "j \<noteq> i" for j
  proof
    assume j: "owns (ts ! j) e"
    from D(5) [OF i(1) that(2,1) j] that(3) show False by simp
  qed
  show ?thesis
  proof (cases p)
    case Swap
    let ?p = "if ge_initialized (gc_entries c e) then Returned else LoadHead"
    have "e \<notin> set es" if "\<not> ge_initialized (gc_entries c e)" using that D(6) [of e] by simp
    then have "thread_ok (set_initialized e c) es (Registering e ?p)"
      by (auto simp: thread_ok_def owns_def)
    moreover have "thread_ok (set_initialized e c) es (ts ! j)" if "j < length ts" for j
      using D(4) [OF that] by (rule thread_ok_change) simp_all
    ultimately have "collect_ok (ts[i := Registering e ?p], set_initialized e c) es"
      using D(1-3) init i(2) Swap
      by (cases "ge_initialized (gc_entries c e)"; intro collect_ok_update [OF ok i]) auto
    then show ?thesis using i Swap by (intro exI [of _ "[]"]) simp
  next
    case LoadHead
    then have "thread_ok c es (Registering e (WriteNext (gc_head c)))"
      using t by (auto simp: thread_ok_def owns_def)
    then have "collect_ok (ts[i := Registering e (WriteNext (gc_head c))], c) es"
      using D(1-4) init i(2) LoadHead
      by (intro collect_ok_update [OF ok i]) auto
    then show ?thesis using i LoadHead by (intro exI [of _ "[]"]) simp
  next
    case (WriteNext h)
    then have own: "owns (ts ! i) e" using i(2) by (simp add: owns_def)
    then have e: "e \<notin> set es" using t i(2) by (auto simp: thread_ok_def)
    have "thread_ok (write_next e h c) es (Registering e (Exchange h))"
      using t WriteNext by (auto simp: thread_ok_def owns_def)
    moreover have "thread_ok (write_next e h c) es (ts ! j)" if "j < length ts" "j \<noteq> i" for j
      using D(4) [OF that(1)] by (rule thread_ok_change) (use mine [OF own that] in auto)
    ultimately have "collect_ok (ts[i := Registering e (Exchange h)], write_next e h c) es"
      using D(1-3) init i(2) WriteNext e
      by (intro collect_ok_update [OF ok i]) auto
    then show ?thesis using i WriteNext by (intro exI [of _ "[]"]) simp
  next
    case (Exchange h)
    then have own: "owns (ts ! i) e" using i(2) by (simp add: owns_def)
    then have e: "e \<notin> set es" "ge_next (gc_entries c e) = h"
      using t Exchange i(2) by (auto simp: thread_ok_def)
    show ?thesis
    proof (cases "gc_head c = h")
      case False
      have "thread_ok c es (Registering e (WriteNext (gc_head c)))"
        using t Exchange by (auto simp: thread_ok_def owns_def)
      then have "collect_ok (ts[i := Registering e (WriteNext (gc_head c))], c) es"
        using D(1-4) init i(2) Exchange
        by (intro collect_ok_update [OF ok i]) auto
      then show ?thesis using i Exchange False by (intro exI [of _ "[]"]) simp
    next
      case True
      let ?c = "c\<lparr>gc_head := Some e\<rparr>"
      have "thread_ok ?c (e # es) (Registering e Returned)"
        using t Exchange by (auto simp: thread_ok_def owns_def)
      moreover have "thread_ok ?c (e # es) (ts ! j)" if "j < length ts" "j \<noteq> i" for j
      proof (rule thread_ok_push)
        show "thread_ok ?c es (ts ! j)" using D(4) [OF that(1)] by (rule thread_ok_change) simp_all
        show "\<not> owns (ts ! j) e" by (rule mine [OF own that])
      qed
      moreover have "e \<in> registers ts"
        using i nth_mem [OF i(1)] by (force simp: registers_def)
      ultimately have "collect_ok (ts[i := Registering e Returned], ?c) (e # es)"
        using D(1-3) init i(2) Exchange e True
        by (intro collect_ok_update [OF ok i]) auto
      then show ?thesis using i Exchange True by (intro exI [of _ "[e]"]) simp
    qed
  next
    case Returned
    then have "ts[i := Registering e Returned] = ts" using i(2) list_update_id [of ts i] by simp
    with Returned show ?thesis using ok i by (intro exI [of _ "[]"]) simp
  qed
qed

lemma collect_step_ok:
  assumes "collect_ok s es"
  shows "\<exists>new. collect_ok (collect_step i s) (new @ es)"
proof (cases s)
  case (Pair ts c)
  show ?thesis
  proof (cases "i < length ts")
    case False
    with assms Pair show ?thesis by (intro exI [of _ "[]"]) simp
  next
    case True
    with assms Pair registering_step [of ts c es i] reading_step [of ts c es i] show ?thesis
      by (cases "ts ! i") (auto intro: exI [of _ "[]"])
  qed
qed

lemma collect_run_ok:
  "collect_ok s es \<Longrightarrow> \<exists>new. collect_ok (collect_run schedule s) (new @ es)"
proof (induction schedule arbitrary: s es)
  case Nil
  then show ?case by (intro exI [of _ "[]"]) (simp add: collect_run_def)
next
  case (Cons i schedule)
  then obtain new where "collect_ok (collect_step i s) (new @ es)" using collect_step_ok by blast
  from Cons.IH [OF this] obtain new' where "collect_ok (collect_run schedule (collect_step i s)) (new' @ new @ es)"
    by blast
  then show ?case by (intro exI [of _ "new' @ new"]) (simp add: collect_run_def)
qed

lemma collect_run_threads:
  "length (fst (collect_run schedule s)) = length (fst s)"
  "map target (fst (collect_run schedule s)) = map target (fst s)"
proof -
  have act: "target (fst (collect_act t c)) = target t" for t :: "'a collect_thread" and c
    by (cases "(t, c)" rule: collect_act.cases) (auto split: prod.splits)
  have step: "map target (fst (collect_step i s)) = map target (fst s)" for i and s :: "'a collect_system"
  proof (cases s)
    case (Pair ts c)
    obtain t c' where "collect_act (ts ! i) c = (t, c')" by fastforce
    moreover from this have "target t = target (ts ! i)" using act [of "ts ! i" c] by simp
    ultimately show ?thesis using Pair by (simp add: map_update) (metis list_update_id map_update)
  qed
  show "map target (fst (collect_run schedule s)) = map target (fst s)"
    by (induction schedule arbitrary: s) (simp_all add: collect_run_def step)
  then show "length (fst (collect_run schedule s)) = length (fst s)"
    by (metis length_map)
qed

section \<open>The finished system\<close>

fun at_start :: "'v collect_thread \<Rightarrow> bool" where
  "at_start (Registering e p) \<longleftrightarrow> p = Swap"
| "at_start (Reading it seen) \<longleftrightarrow> it = IterUninitialized \<and> seen = []"

fun at_end :: "'v collect_thread \<Rightarrow> bool" where
  "at_end (Registering e p) \<longleftrightarrow> p = Returned"
| "at_end (Reading it seen) \<longleftrightarrow> it = IterDone"

lemma collect_ok_start:
  assumes "list_all at_start ts"
  shows "collect_ok (ts, collection_new values) []"
proof -
  have "thread_ok (collection_new values) [] t \<and> \<not> owns t e" if "at_start t" for t e
    using that by (cases t) (auto simp: thread_ok_def)
  with assms show ?thesis
    by (auto simp: collect_ok_def collection_new_def entry_new_def list_all_length)
qed

lemma registers_run: "registers (fst (collect_run schedule s)) = registers (fst s)"
  by (simp only: registers_def collect_run_threads(2))

text \<open>When every registration has returned, the chain holds each registered entry once.\<close>

lemma finished_chain:
  assumes "collect_ok (ts, c) es" "list_all at_end ts"
  shows "set es = registers ts"
proof
  show "set es \<subseteq> registers ts" by (rule collect_okD(3) [OF assms(1)])
  show "registers ts \<subseteq> set es"
  proof
    fix e
    assume "e \<in> registers ts"
    then obtain t where t: "t \<in> set ts" "target t = Some e" by (auto simp: registers_def)
    then obtain i where i: "i < length ts" "ts ! i = t" by (auto simp: in_set_conv_nth)
    obtain p where "t = Registering e p" using t(2) by (cases t) auto
    moreover have "at_end t" using assms(2) t(1) by (auto simp: list_all_iff)
    ultimately have "ts ! i = Registering e Returned" using i(2) by simp
    then have "ge_initialized (gc_entries c e)"
      using collect_okD(4) [OF assms(1) i(1)] by (simp add: thread_ok_def)
    moreover have "\<not> owns (ts ! j) e" if "j < length ts" for j
      using assms(2) that by (cases "ts ! j") (auto simp: list_all_length)
    ultimately show "e \<in> set es" using collect_okD(6) [OF assms(1), of e] by blast
  qed
qed

end
