(* ===== verification/Collect_Properties.thy ===== *)
theory Collect_Properties
  imports Collect_Threads "HOL-Library.Sublist"
begin

text \<open>
  The property of the lock-free collection: nothing registered is lost or doubled under any
  interleaving, readers see a consistent snapshot, later registrations come in front.
\<close>

lemma collect_values:
  "ge_value (gc_entries (snd (collect_run schedule s)) e) = ge_value (gc_entries (snd s) e)"
proof -
  have register: "ge_value (gc_entries (snd (register_act e' p c)) e) = ge_value (gc_entries c e)" for e' p and c :: "'a GlobalCollection"
    by (cases p) (simp_all add: set_initialized_def write_next_def)
  then have register': "register_act e' p c = (p', c') \<Longrightarrow> ge_value (gc_entries c' e) = ge_value (gc_entries c e)"
    for e' p p' and c c' :: "'a GlobalCollection"
    by (metis snd_conv)
  have act: "ge_value (gc_entries (snd (collect_act t c)) e) = ge_value (gc_entries c e)" for t and c :: "'a GlobalCollection"
    by (cases "(t, c)" rule: collect_act.cases) (auto split: prod.splits dest: register')
  have "ge_value (gc_entries (snd (collect_step i s)) e) = ge_value (gc_entries (snd s) e)" for i and s :: "'a collect_system"
    using act [of "fst s ! i" "snd s"] by (cases s) (auto split: prod.splits)
  then show ?thesis
    by (induction schedule arbitrary: s) (simp_all add: collect_run_def)
qed

lemma collect_values_of:
  "values_of (snd (collect_run schedule (ts, collection_new vs))) es = map vs es"
  by (simp add: values_of_def collect_values collection_new_def entry_new_def)

lemma collect_run_append: "collect_run (s1 @ s2) s = collect_run s2 (collect_run s1 s)"
  by (simp add: collect_run_def)

text \<open>C21: However the registering and reading threads interleave, also when several register one
  entry, the links from the head form a finite list without repetition of registered entries;
  what is registered later stands in front of it; a reader that ran to its end saw the values
  of the list that stood when it began; and once all threads are through, the list holds every
  registered entry exactly once and a loop over it yields each value.\<close>

theorem collect_every_entry_once:
  assumes "list_all at_start ts"
    and "collect_run schedule (ts, collection_new vs) = (ts1, c1)"
    and "collect_run later (ts1, c1) = (ts2, c2)"
  shows "\<exists>es new. chain c1 (gc_head c1) es \<and> chain c2 (gc_head c2) (new @ es) \<and>
    distinct (new @ es) \<and> set (new @ es) \<subseteq> registers ts \<and>
    (\<forall>seen. Reading IterDone seen \<in> set ts2 \<longrightarrow> (\<exists>old. suffix old (new @ es) \<and> seen = map vs old)) \<and>
    (list_all at_end ts2 \<longrightarrow> set (new @ es) = registers ts \<and>
      iter_collect (Suc (card (registers ts))) c2 IterUninitialized = Some (map vs (new @ es)))"
proof -
  obtain es where es: "collect_ok (ts1, c1) es"
    using collect_run_ok [OF collect_ok_start [OF assms(1), of vs], of schedule] assms(2) by auto
  obtain new where new: "collect_ok (ts2, c2) (new @ es)"
    using collect_run_ok [OF es, of later] assms(3) by auto
  have run: "collect_run (schedule @ later) (ts, collection_new vs) = (ts2, c2)"
    using assms(2,3) by (simp add: collect_run_append)
  have registers: "registers ts2 = registers ts"
    using registers_run [of "schedule @ later" "(ts, collection_new vs)"] run by simp
  have vals: "values_of c2 xs = map vs xs" for xs
    using collect_values_of [of "schedule @ later" ts vs xs] run by simp
  have seen: "\<exists>old. suffix old (new @ es) \<and> seen = map vs old" if "Reading IterDone seen \<in> set ts2" for seen
  proof -
    from that obtain i where "i < length ts2" "ts2 ! i = Reading IterDone seen" by (auto simp: in_set_conv_nth)
    with collect_okD(4) [OF new, of i] obtain front old where "new @ es = front @ old" "seen = values_of c2 old"
      by (auto simp: thread_ok_def)
    then show ?thesis by (auto simp: suffix_def vals)
  qed
  have finished: "set (new @ es) = registers ts \<and>
      iter_collect (Suc (card (registers ts))) c2 IterUninitialized = Some (map vs (new @ es))"
    if "list_all at_end ts2"
  proof -
    have set: "set (new @ es) = registers ts" using finished_chain [OF new that] registers by simp
    then have "length (new @ es) = card (registers ts)"
      using distinct_card [OF collect_okD(2) [OF new]] by simp
    with set iter_collect_all [OF collect_okD(1) [OF new], of "Suc (card (registers ts))"] show ?thesis
      by (simp add: vals)
  qed
  show ?thesis
    using collect_okD(1) [OF es] collect_okD(1-3) [OF new] registers seen finished by blast
qed

definition sample_threads :: "string collect_thread list" where
  "sample_threads =
     [Registering 1 Swap, Registering 2 Swap, Reading IterUninitialized [], Registering 1 Swap]"

definition sample_values :: "nat \<Rightarrow> string" where
  "sample_values e = (if e = 1 then ''a'' else ''b'')"

theorem collect_every_entry_once_witness:
  "\<exists>es c. snd (collect_run [0, 1, 0, 1, 0, 1, 1, 2, 0, 3, 0, 2, 0] (sample_threads, collection_new sample_values)) = c \<and>
     chain c (gc_head c) es \<and> set es = {1, 2} \<and>
     iter_collect 3 c IterUninitialized = Some (map sample_values es)"
proof -
  let ?s = "collect_run [0, 1, 0, 1, 0, 1, 1, 2] (sample_threads, collection_new sample_values)"
  obtain ts1 c1 where one: "?s = (ts1, c1)" by fastforce
  obtain ts2 c2 where two: "collect_run [0, 3, 0, 2, 0] (ts1, c1) = (ts2, c2)" by fastforce
  have run: "collect_run [0, 1, 0, 1, 0, 1, 1, 2, 0, 3, 0, 2, 0] (sample_threads, collection_new sample_values) = (ts2, c2)"
    using one two by (simp add: collect_run_def)
  then have "list_all at_end ts2"
    by (auto simp: collect_run_def sample_threads_def collection_new_def entry_new_def set_initialized_def
        write_next_def iter_read_def)
  moreover have "registers sample_threads = {1, 2}" by (auto simp: registers_def sample_threads_def)
  moreover have "list_all at_start sample_threads" by (simp add: sample_threads_def)
  ultimately obtain es where "chain c2 (gc_head c2) es" "set es = {1, 2}"
      "iter_collect 3 c2 IterUninitialized = Some (map sample_values es)"
    using collect_every_entry_once [OF _ one two] by (auto simp: eval_nat_numeral)
  with run show ?thesis by auto
qed

end
