(* ===== verification/Envelope_Safety.thy ===== *)
theory Envelope_Safety
  imports Envelope "HOL-Library.Multiset"
begin

unbundle bit_operations_syntax

text \<open>
  The envelope against what it stands for, a message type, a message and perhaps an answer
  sender: every operation finds the areas the way it expects them, touches its own boxes only,
  and hands each object out or drops it once.
\<close>

section \<open>The header\<close>

lemma aligned_even: "aligned a \<Longrightarrow> \<not> bit a 0"
proof -
  assume "aligned a"
  then have "bit (a AND 7) 0 = bit (0 :: u64) 0" by (simp add: aligned_def)
  then show ?thesis by (simp add: bit_simps)
qed

lemma header_ask: "aligned a \<Longrightarrow> header_new a True = a OR 1"
  unfolding header_new_def
  by (simp, rule disjunctive_add) (auto simp: bit_1_iff intro!: gr0I dest: aligned_even)

lemma header_roundtrip [simp]:
  assumes "aligned a"
  shows "header_rtti (header_new a b) = a" "expects_answer (header_new a b) = b"
proof -
  note even = aligned_even [OF assms]
  have "bit (a AND NOT 1) n = bit a n" "bit ((a OR 1) AND NOT 1) n = bit a n" if "n < 64" for n
    using even that by (cases n; simp add: bit_and_iff bit_or_iff bit_not_iff_eq bit_1_iff del: bit_0)+
  then have rtti: "a AND NOT 1 = a" "(a OR 1) AND NOT 1 = a"
    by (auto intro!: bit_word_eqI simp del: bit_0)
  have "bit (a AND 1) n = bit (0 :: u64) n" "bit ((a OR 1) AND 1) n = bit (1 :: u64) n" if "n < 64" for n
    using even that by (cases n; simp add: bit_and_iff bit_or_iff bit_1_iff del: bit_0)+
  then have "a AND 1 = 0" "(a OR 1) AND 1 = 1"
    by (auto intro!: bit_word_eqI simp del: bit_0)
  then show "header_rtti (header_new a b) = a" "expects_answer (header_new a b) = b"
    using rtti header_ask [OF assms]
    by (cases b; simp add: header_rtti_def expects_answer_def header_new_def)+
qed

section \<open>Data areas\<close>

definition holds :: "(nat \<rightharpoonup> obj) \<Rightarrow> nat \<Rightarrow> BasicTypeRtti \<Rightarrow> data_area \<Rightarrow> obj \<Rightarrow> bool" where
  "holds boxes cap info area v \<longleftrightarrow>
     ob_type v = bt_type info \<and>
     (if bt_size info \<le> cap then area = Inline v else (\<exists>p. area = Boxed p \<and> boxes p = Some v))"

fun area_boxes :: "data_area \<Rightarrow> nat list" where
  "area_boxes (Boxed p) = [p]"
| "area_boxes _ = []"

definition memory_ok :: "memory \<Rightarrow> bool" where
  "memory_ok m \<longleftrightarrow> (\<forall>p v. me_boxes m p = Some v \<longrightarrow> p < me_next m)"

lemma holds_frame:
  "holds boxes cap info area v \<Longrightarrow> (\<And>p. p \<in> set (area_boxes area) \<Longrightarrow> boxes' p = boxes p) \<Longrightarrow>
     holds boxes' cap info area v"
  by (auto simp: holds_def split: if_splits)

lemma holds_boxes: "holds boxes cap info area v \<Longrightarrow> set (area_boxes area) \<subseteq> dom boxes"
  by (auto simp: holds_def split: if_splits)

lemma pack_holds:
  assumes "pack_or_box_into cap info v m = (area, m')" "memory_ok m" "ob_type v = bt_type info"
  shows "holds (me_boxes m') cap info area v" "memory_ok m'"
    "dom (me_boxes m') = dom (me_boxes m) \<union> set (area_boxes area)"
    "set (area_boxes area) \<inter> dom (me_boxes m) = {}" "distinct (area_boxes area)"
    "\<And>p. p \<in> dom (me_boxes m) \<Longrightarrow> me_boxes m' p = me_boxes m p" "me_dropped m' = me_dropped m"
  using assms
  by (auto simp: pack_or_box_into_def box_new_def holds_def memory_ok_def less_Suc_eq split: if_splits)

lemma unwrap_ref_holds: "holds (me_boxes m) cap info area v \<Longrightarrow> unwrap_payload_ref cap info area m = Inr v"
  by (auto simp: holds_def unwrap_payload_ref_def read_inline_def read_pointer_def deref_box_def typed_def split: if_splits)

text \<open>What an operation that empties an area leaves: its boxes are gone, the others are as they were.\<close>

definition frees :: "nat list \<Rightarrow> memory \<Rightarrow> memory \<Rightarrow> bool" where
  "frees ps m m' \<longleftrightarrow>
     me_next m' = me_next m \<and> me_boxes m' = (\<lambda>p. if p \<in> set ps then None else me_boxes m p)"

lemma frees_trans: "frees ps m m' \<Longrightarrow> frees qs m' m'' \<Longrightarrow> frees (ps @ qs) m m''"
  by (auto simp: frees_def)

lemma frees_dom: "frees ps m m' \<Longrightarrow> dom (me_boxes m') = dom (me_boxes m) - set ps"
  by (auto simp: frees_def split: if_splits)

lemma frees_memory_ok: "frees ps m m' \<Longrightarrow> memory_ok m \<Longrightarrow> memory_ok m'"
  by (auto simp: frees_def memory_ok_def)

lemma unpack_holds:
  "holds (me_boxes m) cap info area v \<Longrightarrow>
     \<exists>m'. unpack_or_unbox cap info area m = Inr (v, m') \<and> frees (area_boxes area) m m' \<and> me_dropped m' = me_dropped m"
  by (auto simp: holds_def unpack_or_unbox_def read_inline_def read_pointer_def deref_box_def typed_def
      box_free_def frees_def fun_eq_iff split: if_splits)

lemma drop_area_holds:
  "holds (me_boxes m) cap info area v \<Longrightarrow>
     \<exists>m'. drop_data_area cap info area m = Inr m' \<and> frees (area_boxes area) m m' \<and>
       me_dropped m' = me_dropped m @ [v]"
  by (auto simp: holds_def drop_data_area_def drop_in_place_def drop_boxed_ptr_def read_inline_def
      read_pointer_def deref_box_def typed_def box_free_def run_drop_def frees_def fun_eq_iff split: if_splits)

lemma unwrap_mut_holds:
  assumes "holds (me_boxes m) cap info area v" "ob_type (f v) = ob_type v"
  shows "\<exists>area' m'. unwrap_payload_mut cap info f area m = Inr (area', m') \<and>
    holds (me_boxes m') cap info area' (f v) \<and> area_boxes area' = area_boxes area \<and>
    dom (me_boxes m') = dom (me_boxes m) \<and> me_next m' = me_next m \<and> me_dropped m' = me_dropped m \<and>
    (\<forall>p. p \<notin> set (area_boxes area) \<longrightarrow> me_boxes m' p = me_boxes m p)"
  using assms
  by (auto simp: holds_def unwrap_payload_mut_def read_inline_def read_pointer_def deref_box_def typed_def
      split: if_splits)

section \<open>Envelopes\<close>

text \<open>What an envelope stands for.\<close>

type_synonym letter = "u64 \<times> obj \<times> obj option"

definition envelope_holds :: "statics \<Rightarrow> (nat \<rightharpoonup> obj) \<Rightarrow> MessageEnvelope \<Rightarrow> letter \<Rightarrow> bool" where
  "envelope_holds st boxes e l \<longleftrightarrow>
     (case l of (t, v, s) \<Rightarrow>
        aligned t \<and> en_header e = header_new t (s \<noteq> None) \<and>
        (case s of
           None \<Rightarrow> (\<exists>a. en_payload e = TellPayload a \<and> holds boxes TELL_SIZE (mr_message_info (st t)) a v)
         | Some r \<Rightarrow> (\<exists>a b. en_payload e = AskPayload a b \<and> holds boxes ASK_SIZE (mr_message_info (st t)) a v \<and>
             holds boxes ANSWER_SIZE (mr_answer_sender_info (st t)) b r)))"

fun payload_boxes :: "MessageEnvelopePayload \<Rightarrow> nat list" where
  "payload_boxes (TellPayload a) = area_boxes a"
| "payload_boxes (AskPayload a s) = area_boxes s @ area_boxes a"

abbreviation envelope_boxes :: "MessageEnvelope \<Rightarrow> nat list" where
  "envelope_boxes e \<equiv> payload_boxes (en_payload e)"

fun letter_objs :: "letter \<Rightarrow> obj list" where
  "letter_objs (t, v, None) = [v]"
| "letter_objs (t, v, Some s) = [s, v]"

lemma envelope_holds_frame:
  assumes "envelope_holds st boxes e l" "\<And>p. p \<in> set (envelope_boxes e) \<Longrightarrow> boxes' p = boxes p"
  shows "envelope_holds st boxes' e l"
proof -
  obtain t v s where "l = (t, v, s)" by (cases l)
  with assms show ?thesis
    by (cases s) (auto simp: envelope_holds_def intro!: holds_frame [of boxes])
qed

lemma envelope_holds_boxes: "envelope_holds st boxes e l \<Longrightarrow> set (envelope_boxes e) \<subseteq> dom boxes"
  by (auto simp: envelope_holds_def split: prod.splits option.splits dest: subsetD [OF holds_boxes])

lemma envelope_holds_views:
  assumes "envelope_holds st boxes e (t, v, s)"
  shows "envelope_rtti e = t" "envelope_ty e = (if s = None then KindTell else KindAsk)"
  using assms by (auto simp: envelope_holds_def envelope_rtti_def envelope_ty_def)

lemma envelope_new_holds:
  assumes "envelope_new st t v s m = (e, m')" "memory_ok m" "aligned t"
    and "ob_type v = bt_type (mr_message_info (st t))"
    and "\<forall>r. s = Some r \<longrightarrow> ob_type r = bt_type (mr_answer_sender_info (st t))"
  shows "envelope_holds st (me_boxes m') e (t, v, s)" "memory_ok m'"
    "dom (me_boxes m') = dom (me_boxes m) \<union> set (envelope_boxes e)"
    "set (envelope_boxes e) \<inter> dom (me_boxes m) = {}" "distinct (envelope_boxes e)"
    "\<And>p. p \<in> dom (me_boxes m) \<Longrightarrow> me_boxes m' p = me_boxes m p" "me_dropped m' = me_dropped m"
proof -
  have "envelope_holds st (me_boxes m') e (t, v, s) \<and> memory_ok m' \<and>
    dom (me_boxes m') = dom (me_boxes m) \<union> set (envelope_boxes e) \<and>
    set (envelope_boxes e) \<inter> dom (me_boxes m) = {} \<and> distinct (envelope_boxes e) \<and>
    (\<forall>p \<in> dom (me_boxes m). me_boxes m' p = me_boxes m p) \<and> me_dropped m' = me_dropped m"
  proof (cases s)
    case None
    obtain a m1 where pack: "pack_or_box_into TELL_SIZE (mr_message_info (st t)) v m = (a, m1)" by fastforce
    with pack_holds [OF pack assms(2,4)] assms(1,3) None show ?thesis
      by (auto simp: envelope_new_def envelope_holds_def Let_def)
  next
    case (Some r)
    obtain b m1 where pack1: "pack_or_box_into ANSWER_SIZE (mr_answer_sender_info (st t)) r m = (b, m1)" by fastforce
    obtain a m2 where pack2: "pack_or_box_into ASK_SIZE (mr_message_info (st t)) v m1 = (a, m2)" by fastforce
    note one = pack_holds [OF pack1 assms(2) assms(5) [rule_format, OF Some]]
    note two = pack_holds [OF pack2 one(2) assms(4)]
    have "holds (me_boxes m2) ANSWER_SIZE (mr_answer_sender_info (st t)) b r"
      by (rule holds_frame [OF one(1)]) (use two(6) one(3) in auto)
    moreover have e: "e = \<lparr>en_header = header_new t True, en_payload = AskPayload a b\<rparr>" "m' = m2"
      using assms(1) Some pack1 pack2 by (simp_all add: envelope_new_def Let_def)
    ultimately have "envelope_holds st (me_boxes m') e (t, v, s)"
      using two(1) assms(3) Some by (simp add: envelope_holds_def)
    moreover have "set (envelope_boxes e) \<inter> dom (me_boxes m) = {}" "distinct (envelope_boxes e)"
      "dom (me_boxes m') = dom (me_boxes m) \<union> set (envelope_boxes e)"
      using one(3,4,5) two(3,4,5) e by auto
    moreover have "\<forall>p \<in> dom (me_boxes m). me_boxes m' p = me_boxes m p"
      using one(3,6) two(6) e(2) by simp
    ultimately show ?thesis using one(7) two(2,7) e(2) by simp
  qed
  then show "envelope_holds st (me_boxes m') e (t, v, s)" "memory_ok m'"
    "dom (me_boxes m') = dom (me_boxes m) \<union> set (envelope_boxes e)"
    "set (envelope_boxes e) \<inter> dom (me_boxes m) = {}" "distinct (envelope_boxes e)"
    "\<And>p. p \<in> dom (me_boxes m) \<Longrightarrow> me_boxes m' p = me_boxes m p" "me_dropped m' = me_dropped m"
    by blast+
qed

section \<open>Operations\<close>

lemma payload_holds:
  assumes "envelope_holds st (me_boxes m) e (t, v, s)"
  shows "payload debug st t' e m = Inr (if t' = t then Some v else None)"
proof -
  note views = envelope_holds_views [OF assms]
  have "payload_unchecked debug st t e m = Inr v"
    using assms views
    by (cases s) (auto simp: payload_unchecked_def debug_assert_type_def envelope_holds_def as_tell_def
        as_ask_def unwrap_ref_holds)
  then show ?thesis using views(1) by (simp add: payload_def)
qed

lemma payload_object_holds:
  assumes "envelope_holds st (me_boxes m) e (t, v, s)"
  shows "payload_object st e m = Inr v"
proof -
  have read: "(if cap < bt_size info then and_then (read_pointer a) (\<lambda>p. deref_box (bt_type info) p m)
      else read_inline (bt_type info) a) = Inr v" if "holds (me_boxes m) cap info a v" for cap info a
    using unwrap_ref_holds [OF that] by (cases "bt_size info \<le> cap") (auto simp: unwrap_payload_ref_def)
  show ?thesis
    using assms envelope_holds_views [OF assms]
    by (cases s) (auto simp: payload_object_def payload_ptr_def envelope_holds_def as_tell_def as_ask_def
        read Let_def)
qed

lemma payload_mut_holds:
  assumes "envelope_holds st (me_boxes m) e (t, v, s)" "ob_type (f v) = ob_type v" "distinct (envelope_boxes e)"
  shows "\<exists>e' m'. payload_mut debug st t' f e m = Inr (t' = t, e', m') \<and>
    envelope_holds st (me_boxes m') e' (t, if t' = t then f v else v, s) \<and>
    envelope_boxes e' = envelope_boxes e \<and> dom (me_boxes m') = dom (me_boxes m) \<and>
    me_next m' = me_next m \<and> me_dropped m' = me_dropped m \<and>
    (\<forall>p. p \<notin> set (envelope_boxes e) \<longrightarrow> me_boxes m' p = me_boxes m p)"
proof (cases "t' = t")
  case False
  with assms(1) envelope_holds_views(1) [OF assms(1)] show ?thesis
    by (intro exI [of _ e] exI [of _ m]) (simp add: payload_mut_def)
next
  case True
  note views = envelope_holds_views [OF assms(1)]
  have "\<exists>e' m'. payload_mut_unchecked debug st t f e m = Inr (e', m') \<and>
    envelope_holds st (me_boxes m') e' (t, f v, s) \<and>
    envelope_boxes e' = envelope_boxes e \<and> dom (me_boxes m') = dom (me_boxes m) \<and>
    me_next m' = me_next m \<and> me_dropped m' = me_dropped m \<and>
    (\<forall>p. p \<notin> set (envelope_boxes e) \<longrightarrow> me_boxes m' p = me_boxes m p)"
  proof (cases s)
    case None
    with assms(1) obtain a where a: "en_payload e = TellPayload a"
        "holds (me_boxes m) TELL_SIZE (mr_message_info (st t)) a v"
      by (auto simp: envelope_holds_def)
    from unwrap_mut_holds [where f = f, OF a(2) assms(2)] obtain a' m' where mut:
        "unwrap_payload_mut TELL_SIZE (mr_message_info (st t)) f a m = Inr (a', m')"
        "holds (me_boxes m') TELL_SIZE (mr_message_info (st t)) a' (f v)" "area_boxes a' = area_boxes a"
        "dom (me_boxes m') = dom (me_boxes m)" "me_next m' = me_next m" "me_dropped m' = me_dropped m"
        "\<forall>p. p \<notin> set (area_boxes a) \<longrightarrow> me_boxes m' p = me_boxes m p"
      by blast
    with assms(1) None a views show ?thesis
      by (intro exI [of _ "e\<lparr>en_payload := TellPayload a'\<rparr>"] exI [of _ m'])
        (auto simp: payload_mut_unchecked_def debug_assert_type_def as_tell_def envelope_holds_def)
  next
    case (Some r)
    with assms(1) obtain a b where a: "en_payload e = AskPayload a b"
        "holds (me_boxes m) ASK_SIZE (mr_message_info (st t)) a v"
        "holds (me_boxes m) ANSWER_SIZE (mr_answer_sender_info (st t)) b r"
      by (auto simp: envelope_holds_def)
    from unwrap_mut_holds [where f = f, OF a(2) assms(2)] obtain a' m' where mut:
        "unwrap_payload_mut ASK_SIZE (mr_message_info (st t)) f a m = Inr (a', m')"
        "holds (me_boxes m') ASK_SIZE (mr_message_info (st t)) a' (f v)" "area_boxes a' = area_boxes a"
        "dom (me_boxes m') = dom (me_boxes m)" "me_next m' = me_next m" "me_dropped m' = me_dropped m"
        "\<forall>p. p \<notin> set (area_boxes a) \<longrightarrow> me_boxes m' p = me_boxes m p"
      by blast
    have "holds (me_boxes m') ANSWER_SIZE (mr_answer_sender_info (st t)) b r"
      by (rule holds_frame [OF a(3)]) (use mut(7) assms(3) a(1) in auto)
    with mut assms(1) Some a views show ?thesis
      by (intro exI [of _ "e\<lparr>en_payload := AskPayload a' b\<rparr>"] exI [of _ m'])
        (auto simp: payload_mut_unchecked_def debug_assert_type_def as_ask_def envelope_holds_def)
  qed
  with True views(1) show ?thesis by (auto simp: payload_mut_def)
qed

lemma holds_after_frees:
  "holds (me_boxes m) cap info area v \<Longrightarrow> frees ps m m' \<Longrightarrow> set ps \<inter> set (area_boxes area) = {} \<Longrightarrow>
     holds (me_boxes m') cap info area v"
  by (erule holds_frame) (auto simp: frees_def)

lemma unwrap_holds:
  assumes "envelope_holds st (me_boxes m) e (t, v, s)" "distinct (envelope_boxes e)"
  shows "t' \<noteq> t \<Longrightarrow> unwrap_envelope debug st t' e m = Inr (None, m)"
    "\<exists>m' ps. unwrap_envelope debug st t e m = Inr (Some (v, s), m') \<and> frees ps m m' \<and>
      set ps = set (envelope_boxes e) \<and> me_dropped m' = me_dropped m"
proof -
  note views = envelope_holds_views [OF assms(1)]
  show "t' \<noteq> t \<Longrightarrow> unwrap_envelope debug st t' e m = Inr (None, m)"
    using views(1) by (simp add: unwrap_envelope_def)
  show "\<exists>m' ps. unwrap_envelope debug st t e m = Inr (Some (v, s), m') \<and> frees ps m m' \<and>
      set ps = set (envelope_boxes e) \<and> me_dropped m' = me_dropped m"
  proof (cases s)
    case None
    with assms(1) obtain a where a: "en_payload e = TellPayload a"
        "holds (me_boxes m) TELL_SIZE (mr_message_info (st t)) a v"
      by (auto simp: envelope_holds_def)
    from unpack_holds [OF a(2)] None a(1) views show ?thesis
      by (auto simp: unwrap_envelope_def unwrap_unchecked_def debug_assert_type_def as_tell_def)
  next
    case (Some r)
    with assms(1) obtain a b where a: "en_payload e = AskPayload a b"
        "holds (me_boxes m) ASK_SIZE (mr_message_info (st t)) a v"
        "holds (me_boxes m) ANSWER_SIZE (mr_answer_sender_info (st t)) b r"
      by (auto simp: envelope_holds_def)
    from unpack_holds [OF a(2)] obtain m1 where one:
        "unpack_or_unbox ASK_SIZE (mr_message_info (st t)) a m = Inr (v, m1)" "frees (area_boxes a) m m1"
        "me_dropped m1 = me_dropped m"
      by blast
    have "holds (me_boxes m1) ANSWER_SIZE (mr_answer_sender_info (st t)) b r"
      by (rule holds_after_frees [OF a(3) one(2)]) (use assms(2) a(1) in auto)
    from unpack_holds [OF this] obtain m2 where two:
        "unpack_or_unbox ANSWER_SIZE (mr_answer_sender_info (st t)) b m1 = Inr (r, m2)" "frees (area_boxes b) m1 m2"
        "me_dropped m2 = me_dropped m1"
      by blast
    from one two frees_trans [OF one(2) two(2)] Some a(1) views show ?thesis
      by (intro exI [of _ m2] exI [of _ "area_boxes a @ area_boxes b"])
        (auto simp: unwrap_envelope_def unwrap_unchecked_def debug_assert_type_def as_ask_def)
  qed
qed

lemma envelope_drop_holds:
  assumes "envelope_holds st (me_boxes m) e (t, v, s)" "distinct (envelope_boxes e)"
  shows "\<exists>m' ps. envelope_drop st e m = Inr m' \<and> frees ps m m' \<and> set ps = set (envelope_boxes e) \<and>
    me_dropped m' = me_dropped m @ letter_objs (t, v, s)"
proof -
  note views = envelope_holds_views [OF assms(1)]
  show ?thesis
  proof (cases s)
    case None
    with assms(1) obtain a where a: "en_payload e = TellPayload a"
        "holds (me_boxes m) TELL_SIZE (mr_message_info (st t)) a v"
      by (auto simp: envelope_holds_def)
    from drop_area_holds [OF a(2)] None a(1) views show ?thesis
      by (auto simp: envelope_drop_def as_tell_def Let_def)
  next
    case (Some r)
    with assms(1) obtain a b where a: "en_payload e = AskPayload a b"
        "holds (me_boxes m) ASK_SIZE (mr_message_info (st t)) a v"
        "holds (me_boxes m) ANSWER_SIZE (mr_answer_sender_info (st t)) b r"
      by (auto simp: envelope_holds_def)
    from drop_area_holds [OF a(3)] obtain m1 where one:
        "drop_data_area ANSWER_SIZE (mr_answer_sender_info (st t)) b m = Inr m1" "frees (area_boxes b) m m1"
        "me_dropped m1 = me_dropped m @ [r]"
      by blast
    have "holds (me_boxes m1) ASK_SIZE (mr_message_info (st t)) a v"
      by (rule holds_after_frees [OF a(2) one(2)]) (use assms(2) a(1) in auto)
    from drop_area_holds [OF this] obtain m2 where two:
        "drop_data_area ASK_SIZE (mr_message_info (st t)) a m1 = Inr m2" "frees (area_boxes a) m1 m2"
        "me_dropped m2 = me_dropped m1 @ [v]"
      by blast
    from one two frees_trans [OF one(2) two(2)] Some a(1) views show ?thesis
      by (intro exI [of _ m2] exI [of _ "area_boxes b @ area_boxes a"])
        (auto simp: envelope_drop_def as_ask_def Let_def)
  qed
qed

text \<open>A clone that does not panic is a tell envelope of its own.\<close>

lemma clone_as_tell_holds:
  assumes "envelope_holds st (me_boxes m) e (t, v, s)" "memory_ok m"
    and "clones v = Some v'" "ob_type v' = ob_type v"
  shows "if mr_clone_info (st t)
    then \<exists>e'. try_clone_as_tell st clones e m = Inr (Some e', snd (envelope_new st t v' None m)) \<and>
      e' = fst (envelope_new st t v' None m)
    else try_clone_as_tell st clones e m = Inr (None, m)"
  using envelope_holds_views(1) [OF assms(1)] payload_object_holds [OF assms(1)] assms(3)
  by (auto simp: try_clone_as_tell_def envelope_new_def pack_or_box_into_def clone_into_def
      clone_into_box_def box_new_def Let_def)

text \<open>A clone that panics drops the envelope it was building, whose area was never written.\<close>

lemma clone_panics:
  assumes "envelope_holds st (me_boxes m) e (t, v, s)" "mr_clone_info (st t)" "clones v = None"
  shows "try_clone_as_tell st clones e m = Inl (Error ReadUninit)"
proof -
  have t: "aligned t" using assms(1) by (simp add: envelope_holds_def)
  have "envelope_drop st \<lparr>en_header = header_new t False, en_payload = TellPayload Uninit\<rparr> m = Inl (Error ReadUninit)"
    using t by (simp add: envelope_drop_def envelope_ty_def as_tell_def drop_data_area_def drop_in_place_def
        read_inline_def read_pointer_def Let_def)
  then show ?thesis
    using envelope_holds_views(1) [OF assms(1)] payload_object_holds [OF assms(1)] assms(2,3)
    by (simp add: try_clone_as_tell_def clone_into_def clone_into_box_def unwinding_def Let_def)
qed

end
