(* ===== verification/Envelope_Properties.thy ===== *)
theory Envelope_Properties
  imports Envelope_Safety
begin

text \<open>
  The properties of the message envelope: what is put in comes out, every object is in one place,
  handed out or dropped once and no box leaks, whatever sequence of operations runs on whatever
  envelopes; and the clone that panics.
\<close>

section \<open>Sequences of operations\<close>

text \<open>
  The envelopes that are alive, with the memory; the objects that went in or came of a clone, and
  those that were unwrapped.
\<close>

record post_office =
  po_memory :: memory
  po_envelopes :: "MessageEnvelope list"
  po_created :: "obj list"
  po_out :: "obj list"

definition office_new :: post_office where
  "office_new = \<lparr>po_memory = \<lparr>me_boxes = Map.empty, me_next = 0, me_dropped = []\<rparr>, po_envelopes = [],
     po_created = [], po_out = []\<rparr>"

datatype envelope_act =
    NewEnvelope u64 obj "obj option"
  | ReadPayload nat u64
  | ChangePayload nat u64 "nat \<Rightarrow> nat"
  | CloneEnvelope nat
  | CloneAsTell nat
  | UnwrapEnvelope nat u64
  | DropEnvelope nat

definition remove_nth :: "nat \<Rightarrow> 'a list \<Rightarrow> 'a list" where
  "remove_nth i xs = take i xs @ drop (Suc i) xs"

definition add_envelope :: "MessageEnvelope \<Rightarrow> memory \<Rightarrow> obj list \<Rightarrow> post_office \<Rightarrow> post_office" where
  "add_envelope e m objs po =
     po\<lparr>po_memory := m, po_envelopes := po_envelopes po @ [e], po_created := po_created po @ objs\<rparr>"

definition out_objs :: "obj \<times> obj option \<Rightarrow> obj list" where
  "out_objs x = (case x of (v, None) \<Rightarrow> [v] | (v, Some s) \<Rightarrow> [s, v])"

definition store_clone :: "statics \<Rightarrow> (ub, MessageEnvelope option \<times> memory) outcome \<Rightarrow> post_office \<Rightarrow>
    (ub, post_office) outcome" where
  "store_clone st result po =
     and_then result (\<lambda>(e, m). case e of
       None \<Rightarrow> Inr po
     | Some e' \<Rightarrow> and_then (payload_object st e' m) (\<lambda>v. Inr (add_envelope e' m [v] po)))"

fun envelope_step :: "bool \<Rightarrow> statics \<Rightarrow> (obj \<Rightarrow> obj option) \<Rightarrow> envelope_act \<Rightarrow> post_office \<Rightarrow>
    (ub, post_office) outcome" where
  "envelope_step debug st clones (NewEnvelope t v s) po =
     (case envelope_new st t v s (po_memory po) of
        (e, m) \<Rightarrow> Inr (add_envelope e m (out_objs (v, s)) po))"
| "envelope_step debug st clones (ReadPayload i t) po =
     and_then (payload debug st t (po_envelopes po ! i) (po_memory po)) (\<lambda>_. Inr po)"
| "envelope_step debug st clones (ChangePayload i t g) po =
     and_then (payload_mut debug st t (\<lambda>v. v\<lparr>ob_value := g (ob_value v)\<rparr>) (po_envelopes po ! i) (po_memory po))
       (\<lambda>(_, e, m). Inr (po\<lparr>po_memory := m, po_envelopes := (po_envelopes po)[i := e]\<rparr>))"
| "envelope_step debug st clones (CloneEnvelope i) po =
     store_clone st (try_clone st clones (po_envelopes po ! i) (po_memory po)) po"
| "envelope_step debug st clones (CloneAsTell i) po =
     store_clone st (try_clone_as_tell st clones (po_envelopes po ! i) (po_memory po)) po"
| "envelope_step debug st clones (UnwrapEnvelope i t) po =
     and_then (unwrap_envelope debug st t (po_envelopes po ! i) (po_memory po)) (\<lambda>(x, m). case x of
       None \<Rightarrow> Inr po
     | Some parts \<Rightarrow> Inr (po\<lparr>po_memory := m, po_envelopes := remove_nth i (po_envelopes po),
         po_out := po_out po @ out_objs parts\<rparr>))"
| "envelope_step debug st clones (DropEnvelope i) po =
     and_then (envelope_drop st (po_envelopes po ! i) (po_memory po)) (\<lambda>m.
       Inr (po\<lparr>po_memory := m, po_envelopes := remove_nth i (po_envelopes po)\<rparr>))"

text \<open>An operation on an envelope that is not there is not a step of a program.\<close>

fun envelope_index :: "envelope_act \<Rightarrow> nat option" where
  "envelope_index (NewEnvelope t v s) = None"
| "envelope_index (ReadPayload i t) = Some i"
| "envelope_index (ChangePayload i t g) = Some i"
| "envelope_index (CloneEnvelope i) = Some i"
| "envelope_index (CloneAsTell i) = Some i"
| "envelope_index (UnwrapEnvelope i t) = Some i"
| "envelope_index (DropEnvelope i) = Some i"

fun envelope_run :: "bool \<Rightarrow> statics \<Rightarrow> (obj \<Rightarrow> obj option) \<Rightarrow> envelope_act list \<Rightarrow> post_office \<Rightarrow>
    (ub, post_office) outcome" where
  "envelope_run debug st clones [] po = Inr po"
| "envelope_run debug st clones (a # as) po =
     (if (case envelope_index a of Some i \<Rightarrow> i < length (po_envelopes po) | None \<Rightarrow> True)
      then and_then (envelope_step debug st clones a po) (envelope_run debug st clones as)
      else envelope_run debug st clones as po)"

text \<open>What the type system guarantees of a call of \<open>MessageEnvelope::new\<close>.\<close>

fun envelope_act_ok :: "statics \<Rightarrow> envelope_act \<Rightarrow> bool" where
  "envelope_act_ok st (NewEnvelope t v s) \<longleftrightarrow>
     aligned t \<and> ob_type v = bt_type (mr_message_info (st t)) \<and>
     (case s of None \<Rightarrow> True | Some r \<Rightarrow> ob_type r = bt_type (mr_answer_sender_info (st t)))"
| "envelope_act_ok st _ \<longleftrightarrow> True"

section \<open>The invariant\<close>

definition ids :: "obj list \<Rightarrow> nat multiset" where
  "ids vs = mset (map ob_id vs)"

lemma ids_simps [simp]: "ids [] = {#}" "ids (vs @ ws) = ids vs + ids ws" "ids (v # vs) = add_mset (ob_id v) (ids vs)"
  by (simp_all add: ids_def)

definition office_ok :: "statics \<Rightarrow> post_office \<Rightarrow> letter list \<Rightarrow> bool" where
  "office_ok st po ls \<longleftrightarrow>
     list_all2 (envelope_holds st (me_boxes (po_memory po))) (po_envelopes po) ls \<and>
     distinct (concat (map envelope_boxes (po_envelopes po))) \<and>
     set (concat (map envelope_boxes (po_envelopes po))) = dom (me_boxes (po_memory po)) \<and>
     memory_ok (po_memory po) \<and>
     ids (po_created po) = ids (concat (map letter_objs ls)) + ids (me_dropped (po_memory po)) + ids (po_out po)"

lemma holds_elsewhere:
  assumes "list_all2 (envelope_holds st boxes) es ks"
    and "\<And>p. p \<in> set (concat (map envelope_boxes es)) \<Longrightarrow> boxes' p = boxes p"
  shows "list_all2 (envelope_holds st boxes') es ks"
  using assms by (induction rule: list_all2_induct) (auto intro: envelope_holds_frame)

lemma out_objs_letter: "out_objs (v, s) = letter_objs (t, v, s)"
  by (cases s) (simp_all add: out_objs_def)

lemma office_ok_new:
  assumes "office_ok st po ls" "envelope_act_ok st (NewEnvelope t v s)"
    and "envelope_new st t v s (po_memory po) = (e, m)"
  shows "office_ok st (add_envelope e m (out_objs (v, s)) po) (ls @ [(t, v, s)])"
proof -
  have mem: "memory_ok (po_memory po)" using assms(1) by (simp add: office_ok_def)
  have types: "aligned t" "ob_type v = bt_type (mr_message_info (st t))"
    "\<forall>r. s = Some r \<longrightarrow> ob_type r = bt_type (mr_answer_sender_info (st t))"
    using assms(2) by auto
  note holds = envelope_new_holds [OF assms(3) mem types]
  have old: "list_all2 (envelope_holds st (me_boxes (po_memory po))) (po_envelopes po) ls"
      "distinct (concat (map envelope_boxes (po_envelopes po)))"
      "set (concat (map envelope_boxes (po_envelopes po))) = dom (me_boxes (po_memory po))"
      "ids (po_created po) = ids (concat (map letter_objs ls)) + ids (me_dropped (po_memory po)) + ids (po_out po)"
    using assms(1) by (simp_all add: office_ok_def)
  have "list_all2 (envelope_holds st (me_boxes m)) (po_envelopes po) ls"
  proof (rule holds_elsewhere [OF old(1)])
    fix p
    assume "p \<in> set (concat (map envelope_boxes (po_envelopes po)))"
    then have "p \<in> dom (me_boxes (po_memory po))" unfolding old(3) .
    then show "me_boxes m p = me_boxes (po_memory po) p" by (rule holds(6))
  qed
  then have "list_all2 (envelope_holds st (me_boxes m)) (po_envelopes po @ [e]) (ls @ [(t, v, s)])"
    using holds(1) by (simp add: list_all2_appendI)
  moreover have "distinct (concat (map envelope_boxes (po_envelopes po @ [e])))"
    using old(2,3) holds(4,5) by (simp add: Int_commute)
  moreover have "set (concat (map envelope_boxes (po_envelopes po @ [e]))) = dom (me_boxes m)"
    using old(3) holds(3) by simp
  ultimately show ?thesis
    using old(4) holds(2,7) out_objs_letter [of v s t] by (simp add: office_ok_def add_envelope_def)
qed

text \<open>One envelope in the middle of the others.\<close>

lemma office_split:
  assumes "office_ok st po ls" "i < length (po_envelopes po)"
  shows "\<exists>es e es' ks t v s ks'. po_envelopes po = es @ e # es' \<and> ls = ks @ (t, v, s) # ks' \<and> length es = i \<and>
    length ks = i \<and> envelope_holds st (me_boxes (po_memory po)) e (t, v, s) \<and> distinct (envelope_boxes e) \<and>
    list_all2 (envelope_holds st (me_boxes (po_memory po))) (es @ es') (ks @ ks') \<and>
    set (envelope_boxes e) \<inter> set (concat (map envelope_boxes (es @ es'))) = {}"
proof -
  define es e es' where parts: "es = take i (po_envelopes po)" "e = po_envelopes po ! i" "es' = drop (Suc i) (po_envelopes po)"
  have env: "po_envelopes po = es @ e # es'" using assms(2) by (simp add: parts id_take_nth_drop)
  with assms(1) obtain ks l ks' where "ls = ks @ l # ks'" "list_all2 (envelope_holds st (me_boxes (po_memory po))) es ks"
      "envelope_holds st (me_boxes (po_memory po)) e l" "list_all2 (envelope_holds st (me_boxes (po_memory po))) es' ks'"
    by (auto simp: office_ok_def list_all2_append1 list_all2_Cons1)
  moreover obtain t v s where "l = (t, v, s)" by (cases l)
  moreover have "length es = i" using assms(2) by (simp add: parts)
  ultimately show ?thesis
    using assms(1) env
    by (intro exI [of _ es] exI [of _ e] exI [of _ es'] exI [of _ ks] exI [of _ t] exI [of _ v] exI [of _ s]
        exI [of _ ks']) (auto simp: office_ok_def list_all2_appendI dest: list_all2_lengthD)
qed

lemma office_ok_remove:
  assumes ok: "office_ok st po ls" and env: "po_envelopes po = es @ e # es'" and ls: "ls = ks @ l # ks'"
    and rest: "list_all2 (envelope_holds st (me_boxes (po_memory po))) (es @ es') (ks @ ks')"
    and frees: "frees ps (po_memory po) m" "set ps = set (envelope_boxes e)"
    and gone: "ids (letter_objs l) + ids (me_dropped (po_memory po)) + ids (po_out po) = ids (me_dropped m) + ids out"
  shows "office_ok st (po\<lparr>po_memory := m, po_envelopes := es @ es', po_out := out\<rparr>) (ks @ ks')"
proof -
  have disj: "set (envelope_boxes e) \<inter> set (concat (map envelope_boxes (es @ es'))) = {}"
    using ok env by (auto simp: office_ok_def)
  have "list_all2 (envelope_holds st (me_boxes m)) (es @ es') (ks @ ks')"
    by (rule holds_elsewhere [OF rest]) (use disj frees in \<open>auto simp: frees_def\<close>)
  moreover have "set (concat (map envelope_boxes (es @ es'))) = dom (me_boxes m)"
    using ok env disj frees_dom [OF frees(1)] frees(2) by (auto simp: office_ok_def)
  moreover have "memory_ok m" using frees_memory_ok [OF frees(1)] ok by (simp add: office_ok_def)
  ultimately show ?thesis
    using ok env ls gone by (auto simp: office_ok_def ac_simps)
qed


section \<open>Every operation keeps it\<close>

text \<open>A clone keeps the message's type.\<close>

definition clones_ok :: "(obj \<Rightarrow> obj option) \<Rightarrow> bool" where
  "clones_ok clones \<longleftrightarrow> (\<forall>v. case clones v of None \<Rightarrow> False | Some v' \<Rightarrow> ob_type v' = ob_type v)"

lemma clones_okD:
  assumes "clones_ok clones"
  shows "\<exists>v'. clones v = Some v' \<and> ob_type v' = ob_type v"
  using assms by (auto simp: clones_ok_def split: option.splits dest: spec [of _ v])

lemma remove_nth_append: "length es = i \<Longrightarrow> remove_nth i (es @ e # es') = es @ es'"
  by (auto simp: remove_nth_def)

lemma list_update_append_length: "length es = i \<Longrightarrow> (es @ e # es')[i := x] = es @ x # es'"
  by (auto simp: list_update_append)

lemma office_envelope:
  assumes "office_ok st po ls" "i < length (po_envelopes po)"
  obtains t v s where "envelope_holds st (me_boxes (po_memory po)) (po_envelopes po ! i) (t, v, s)"
    "distinct (envelope_boxes (po_envelopes po ! i))"
  using office_split [OF assms] by (metis nth_append_length)

lemma store_clone_ok:
  assumes ok: "office_ok st po ls" and i: "i < length (po_envelopes po)" and clones: "clones_ok clones"
    and result: "result = Inr (None, po_memory po) \<or>
      result = try_clone_as_tell st clones (po_envelopes po ! i) (po_memory po)"
  shows "\<exists>po' ls'. store_clone st result po = Inr po' \<and> office_ok st po' ls'"
proof -
  obtain t v s where e: "envelope_holds st (me_boxes (po_memory po)) (po_envelopes po ! i) (t, v, s)"
    using office_envelope [OF ok i] by blast
  obtain v' where v': "clones v = Some v'" "ob_type v' = ob_type v" using clones_okD [OF clones] by blast
  have mem: "memory_ok (po_memory po)" using ok by (simp add: office_ok_def)
  note clone = clone_as_tell_holds [where clones = clones and v' = v', OF e mem v']
  show ?thesis
  proof (cases "result = Inr (None, po_memory po)")
    case True
    with ok show ?thesis by (auto simp: store_clone_def)
  next
    case False
    with result have result: "result = try_clone_as_tell st clones (po_envelopes po ! i) (po_memory po)" by simp
    with False clone have info: "mr_clone_info (st t)" by (auto split: if_splits)
    obtain e' m' where new: "envelope_new st t v' None (po_memory po) = (e', m')" by fastforce
    with clone info result have r: "result = Inr (Some e', m')" by simp
    have "ob_type v = bt_type (mr_message_info (st t))"
      using e by (auto simp: envelope_holds_def holds_def split: option.splits)
    moreover have "aligned t" using e by (simp add: envelope_holds_def)
    ultimately have act: "envelope_act_ok st (NewEnvelope t v' None)" using v'(2) by simp
    have "envelope_holds st (me_boxes m') e' (t, v', None)"
      by (rule envelope_new_holds(1) [OF new mem]) (use act in auto)
    then have "payload_object st e' m' = Inr v'" by (rule payload_object_holds)
    with r have "store_clone st result po = Inr (add_envelope e' m' (out_objs (v', None)) po)"
      by (simp add: store_clone_def out_objs_def)
    with office_ok_new [OF ok act new] show ?thesis by blast
  qed
qed

lemma change_ok:
  assumes ok: "office_ok st po ls" and i: "i < length (po_envelopes po)"
  shows "\<exists>po' ls'. envelope_step debug st clones (ChangePayload i t' g) po = Inr po' \<and> office_ok st po' ls'"
proof -
  from office_split [OF assms] obtain es e es' ks t v s ks' where
      env: "po_envelopes po = es @ e # es'" and ls: "ls = ks @ (t, v, s) # ks'" and len: "length es = i" "length ks = i"
      and e: "envelope_holds st (me_boxes (po_memory po)) e (t, v, s)" "distinct (envelope_boxes e)"
      and rest: "list_all2 (envelope_holds st (me_boxes (po_memory po))) (es @ es') (ks @ ks')"
      and disj: "set (envelope_boxes e) \<inter> set (concat (map envelope_boxes (es @ es'))) = {}"
    by blast
  define f where "f = (\<lambda>v :: obj. v\<lparr>ob_value := g (ob_value v)\<rparr>)"
  have "ob_type (f v) = ob_type v" by (simp add: f_def)
  from payload_mut_holds [where f = f and t' = t' and debug = debug, OF e(1) this e(2)]
  obtain e1 m1 where mut: "payload_mut debug st t' f e (po_memory po) = Inr (t' = t, e1, m1)"
      "envelope_holds st (me_boxes m1) e1 (t, if t' = t then f v else v, s)" "envelope_boxes e1 = envelope_boxes e"
      "dom (me_boxes m1) = dom (me_boxes (po_memory po))" "me_next m1 = me_next (po_memory po)"
      "me_dropped m1 = me_dropped (po_memory po)"
      "\<forall>p. p \<notin> set (envelope_boxes e) \<longrightarrow> me_boxes m1 p = me_boxes (po_memory po) p"
    by blast
  have step: "envelope_step debug st clones (ChangePayload i t' g) po =
      Inr (po\<lparr>po_memory := m1, po_envelopes := es @ e1 # es'\<rparr>)"
    using mut(1) env len(1) by (simp add: f_def [symmetric] nth_append_length list_update_append_length [OF len(1)] flip: len(1))
  have "list_all2 (envelope_holds st (me_boxes m1)) (es @ es') (ks @ ks')"
    by (rule holds_elsewhere [OF rest]) (use disj mut(7) in blast)
  with len mut(2) have "list_all2 (envelope_holds st (me_boxes m1)) (es @ e1 # es')
      (ks @ (t, if t' = t then f v else v, s) # ks')"
    by (simp add: list_all2_append)
  moreover have "memory_ok m1"
    using ok mut(4,5) unfolding office_ok_def memory_ok_def by (metis domI domD)
  moreover have "ids (letter_objs (t, if t' = t then f v else v, s)) = ids (letter_objs (t, v, s))"
    by (cases s) (simp_all add: f_def)
  ultimately have "office_ok st (po\<lparr>po_memory := m1, po_envelopes := es @ e1 # es'\<rparr>)
      (ks @ (t, if t' = t then f v else v, s) # ks')"
    using ok env ls mut(3,4,6) by (simp add: office_ok_def)
  with step show ?thesis by blast
qed

lemma unwrap_ok:
  assumes ok: "office_ok st po ls" and i: "i < length (po_envelopes po)"
  shows "\<exists>po' ls'. envelope_step debug st clones (UnwrapEnvelope i t') po = Inr po' \<and> office_ok st po' ls'"
proof -
  from office_split [OF assms] obtain es e es' ks t v s ks' where
      env: "po_envelopes po = es @ e # es'" and ls: "ls = ks @ (t, v, s) # ks'" and len: "length es = i" "length ks = i"
      and e: "envelope_holds st (me_boxes (po_memory po)) e (t, v, s)" "distinct (envelope_boxes e)"
      and rest: "list_all2 (envelope_holds st (me_boxes (po_memory po))) (es @ es') (ks @ ks')"
    by blast
  have ith: "po_envelopes po ! i = e" using env len(1) by (simp add: nth_append)
  show ?thesis
  proof (cases "t' = t")
    case False
    with unwrap_holds(1) [OF e, of t' debug] ith ok show ?thesis by auto
  next
    case True
    from unwrap_holds(2) [OF e, of debug] obtain m ps where out:
        "unwrap_envelope debug st t e (po_memory po) = Inr (Some (v, s), m)" "frees ps (po_memory po) m"
        "set ps = set (envelope_boxes e)" "me_dropped m = me_dropped (po_memory po)"
      by blast
    have "office_ok st (po\<lparr>po_memory := m, po_envelopes := es @ es', po_out := po_out po @ out_objs (v, s)\<rparr>) (ks @ ks')"
      by (rule office_ok_remove [OF ok env ls rest out(2,3)]) (simp add: out(4) out_objs_letter [of v s t])
    with True ith out(1) env remove_nth_append [OF len(1)] show ?thesis by auto
  qed
qed

lemma drop_ok:
  assumes ok: "office_ok st po ls" and i: "i < length (po_envelopes po)"
  shows "\<exists>po' ls'. envelope_step debug st clones (DropEnvelope i) po = Inr po' \<and> office_ok st po' ls'"
proof -
  from office_split [OF assms] obtain es e es' ks t v s ks' where
      env: "po_envelopes po = es @ e # es'" and ls: "ls = ks @ (t, v, s) # ks'" and len: "length es = i" "length ks = i"
      and e: "envelope_holds st (me_boxes (po_memory po)) e (t, v, s)" "distinct (envelope_boxes e)"
      and rest: "list_all2 (envelope_holds st (me_boxes (po_memory po))) (es @ es') (ks @ ks')"
    by blast
  have ith: "po_envelopes po ! i = e" using env len(1) by (simp add: nth_append)
  from envelope_drop_holds [OF e] obtain m ps where out: "envelope_drop st e (po_memory po) = Inr m" "frees ps (po_memory po) m"
      "set ps = set (envelope_boxes e)" "me_dropped m = me_dropped (po_memory po) @ letter_objs (t, v, s)"
    by blast
  have "office_ok st (po\<lparr>po_memory := m, po_envelopes := es @ es', po_out := po_out po\<rparr>) (ks @ ks')"
    by (rule office_ok_remove [OF ok env ls rest out(2,3)]) (simp add: out(4))
  with ith out(1) env remove_nth_append [OF len(1)] show ?thesis by auto
qed

lemma envelope_step_ok:
  assumes ok: "office_ok st po ls" and act: "envelope_act_ok st a" and clones: "clones_ok clones"
    and i: "case envelope_index a of Some i \<Rightarrow> i < length (po_envelopes po) | None \<Rightarrow> True"
  shows "\<exists>po' ls'. envelope_step debug st clones a po = Inr po' \<and> office_ok st po' ls'"
proof (cases a)
  case (NewEnvelope t v s)
  obtain e m where new: "envelope_new st t v s (po_memory po) = (e, m)" by fastforce
  with office_ok_new [OF ok act [unfolded NewEnvelope] new] NewEnvelope show ?thesis by auto
next
  case (ReadPayload j t)
  with i have "j < length (po_envelopes po)" by simp
  then obtain t0 v s where "envelope_holds st (me_boxes (po_memory po)) (po_envelopes po ! j) (t0, v, s)"
    by (rule office_envelope [OF ok])
  from payload_holds [OF this, of debug t] ReadPayload ok show ?thesis by auto
next
  case (ChangePayload j t g)
  with i change_ok [OF ok] show ?thesis by simp
next
  case (CloneEnvelope j)
  with i have j: "j < length (po_envelopes po)" by simp
  have "try_clone st clones (po_envelopes po ! j) (po_memory po) = Inr (None, po_memory po) \<or>
      try_clone st clones (po_envelopes po ! j) (po_memory po) =
        try_clone_as_tell st clones (po_envelopes po ! j) (po_memory po)"
    by (simp add: try_clone_def)
  from store_clone_ok [OF ok j clones this] CloneEnvelope show ?thesis by simp
next
  case (CloneAsTell j)
  with i have j: "j < length (po_envelopes po)" by simp
  from store_clone_ok [OF ok j clones] CloneAsTell show ?thesis by simp
next
  case (UnwrapEnvelope j t)
  with i unwrap_ok [OF ok] show ?thesis by simp
next
  case (DropEnvelope j)
  with i drop_ok [OF ok] show ?thesis by simp
qed

lemma envelope_run_ok:
  "office_ok st po ls \<Longrightarrow> \<forall>a \<in> set as. envelope_act_ok st a \<Longrightarrow> clones_ok clones \<Longrightarrow>
     \<exists>po' ls'. envelope_run debug st clones as po = Inr po' \<and> office_ok st po' ls'"
proof (induction as arbitrary: po ls)
  case (Cons a as)
  show ?case
  proof (cases "case envelope_index a of Some i \<Rightarrow> i < length (po_envelopes po) | None \<Rightarrow> True")
    case True
    from Cons.prems(2) have "envelope_act_ok st a" by simp
    from envelope_step_ok [OF Cons.prems(1) this Cons.prems(3) True, of debug] obtain po1 ls1 where
        "envelope_step debug st clones a po = Inr po1" "office_ok st po1 ls1"
      by blast
    with Cons.IH [of po1 ls1] Cons.prems(2,3) True show ?thesis by auto
  next
    case False
    with Cons.IH [OF Cons.prems(1)] Cons.prems(2,3) show ?thesis by auto
  qed
qed auto

lemma office_ok_nothing: "office_ok st office_new []"
  by (simp add: office_ok_def office_new_def memory_ok_def)


section \<open>The properties\<close>

text \<open>C22: whatever sequence of creating, reading, changing, cloning, unwrapping and dropping envelopes
  runs, of whatever types the calls ask, in debug or release builds, provided that no \<open>Clone\<close>
  implementation of a message panics (\<open>clones_ok\<close>; a panic there is undefined behaviour, C23): no data
  area is read as what it does not hold, no freed or foreign box is touched and no assertion fails; afterwards every
  message and answer sender that was put in or cloned is in exactly one place, in the envelope that
  holds it, dropped, or handed out, and the boxes on the heap are exactly the live envelopes'.
\<close>

theorem envelope_accounting:
  assumes "list_all (envelope_act_ok st) as" and "clones_ok clones"
  shows "\<exists>po ls. envelope_run debug st clones as office_new = Inr po \<and>
    list_all2 (envelope_holds st (me_boxes (po_memory po))) (po_envelopes po) ls \<and>
    ids (po_created po) = ids (concat (map letter_objs ls)) + ids (me_dropped (po_memory po)) + ids (po_out po) \<and>
    distinct (concat (map envelope_boxes (po_envelopes po))) \<and>
    dom (me_boxes (po_memory po)) = set (concat (map envelope_boxes (po_envelopes po)))"
proof -
  from assms(1) have "\<forall>a \<in> set as. envelope_act_ok st a" by (simp add: list_all_iff)
  from envelope_run_ok [OF office_ok_nothing this assms(2), of debug] show ?thesis
    unfolding office_ok_def by (elim exE conjE) (intro exI conjI; assumption?; simp)
qed

text \<open>Statics of the witnesses: a small and a large message, both with a boxed sender or without.\<close>

definition sample_statics :: statics where
  "sample_statics a =
     \<lparr>mr_message_info = \<lparr>bt_size = (if a = 8 then 16 else 128), bt_type = unat a\<rparr>,
      mr_answer_sender_info = \<lparr>bt_size = 8, bt_type = 1\<rparr>,
      mr_clone_info = True, mr_send = True, mr_answer_sender_send = False\<rparr>"

abbreviation sample_obj :: "nat \<Rightarrow> nat \<Rightarrow> obj" where
  "sample_obj ty i \<equiv> \<lparr>ob_type = ty, ob_id = i, ob_value = 0\<rparr>"

theorem envelope_accounting_witness:
  "\<exists>po ls. envelope_run True sample_statics Some
      [NewEnvelope 16 (sample_obj 16 0) (Some (sample_obj 1 1)), CloneAsTell 0, ChangePayload 1 16 Suc,
       UnwrapEnvelope 1 8, UnwrapEnvelope 1 16, DropEnvelope 0] office_new = Inr po \<and>
    list_all2 (envelope_holds sample_statics (me_boxes (po_memory po))) (po_envelopes po) ls \<and>
    ids (po_created po) = ids (concat (map letter_objs ls)) + ids (me_dropped (po_memory po)) + ids (po_out po) \<and>
    distinct (concat (map envelope_boxes (po_envelopes po))) \<and>
    dom (me_boxes (po_memory po)) = set (concat (map envelope_boxes (po_envelopes po)))"
  by (rule envelope_accounting) (simp_all add: sample_statics_def aligned_def clones_ok_def)

text \<open>an envelope gives back what was put into it, inline or boxed, with or without an answer
  sender: its type information, its kind, its message to a reader of the right type and to no other,
  and, unwrapped as the right type, message and sender, leaving the heap as it was before; unwrapped
  as another type it stays as it is.
\<close>

theorem envelope_roundtrip:
  assumes "envelope_new st t v s m = (e, m')" and "memory_ok m" and "envelope_act_ok st (NewEnvelope t v s)"
  shows "envelope_rtti e = t \<and> (envelope_ty e = KindAsk) = (s \<noteq> None) \<and>
    payload debug st t' e m' = Inr (if t' = t then Some v else None) \<and>
    (\<exists>m''. unwrap_envelope debug st t' e m' = Inr (if t' = t then Some (v, s) else None, m'') \<and>
      me_boxes m'' = (if t' = t then me_boxes m else me_boxes m') \<and> me_dropped m'' = me_dropped m)"
proof -
  have types: "aligned t" "ob_type v = bt_type (mr_message_info (st t))"
    "\<forall>r. s = Some r \<longrightarrow> ob_type r = bt_type (mr_answer_sender_info (st t))"
    using assms(3) by auto
  note new = envelope_new_holds [OF assms(1,2) types]
  note views = envelope_holds_views [OF new(1)]
  obtain m'' ps where out: "unwrap_envelope debug st t e m' = Inr (Some (v, s), m'')" "frees ps m' m''"
      "set ps = set (envelope_boxes e)" "me_dropped m'' = me_dropped m'"
    using unwrap_holds(2) [OF new(1,5)] by blast
  have "me_boxes m'' p = me_boxes m p" for p
  proof (cases "p \<in> set (envelope_boxes e)")
    case True
    with new(4) have "p \<notin> dom (me_boxes m)" by blast
    with True out(2,3) show ?thesis by (simp add: frees_def domIff)
  next
    case False
    with out(2,3) have same: "me_boxes m'' p = me_boxes m' p" by (simp add: frees_def)
    show ?thesis
    proof (cases "p \<in> dom (me_boxes m)")
      case True
      with new(6) same show ?thesis by simp
    next
      case no: False
      with False new(3) have "p \<notin> dom (me_boxes m')" by simp
      with no same show ?thesis by (simp add: domIff)
    qed
  qed
  then have "me_boxes m'' = me_boxes m" by (rule ext)
  with out new(7) views payload_holds [OF new(1)] unwrap_holds(1) [OF new(1,5)] show ?thesis
    by (cases "t' = t") auto
qed

theorem envelope_roundtrip_witness:
  "\<exists>m''. unwrap_envelope True sample_statics 16
      (fst (envelope_new sample_statics 16 (sample_obj 16 7) (Some (sample_obj 1 9)) (po_memory office_new)))
      (snd (envelope_new sample_statics 16 (sample_obj 16 7) (Some (sample_obj 1 9)) (po_memory office_new))) =
    Inr (Some (sample_obj 16 7, Some (sample_obj 1 9)), m'') \<and> me_boxes m'' = Map.empty"
  using envelope_roundtrip [where st = sample_statics and t = 16 and v = "sample_obj 16 7" and
      s = "Some (sample_obj 1 9)" and m = "po_memory office_new" and debug = True and t' = 16, OF surjective_pairing]
  by (simp add: sample_statics_def aligned_def memory_ok_def office_new_def) blast

text \<open>C23: a message whose \<open>Clone\<close> panics takes the memory safety of a cloned envelope with it. The
  clone builds the new envelope around an area that is not yet written, and when the message's
  clone unwinds, the new envelope's drop runs on that area: it reads uninitialised memory as a
  message, or as the pointer to one.
\<close>

theorem clone_panic_drops_uninit:
  assumes "envelope_holds st (me_boxes m) e (t, v, s)" and "mr_clone_info (st t)" and "clones v = None"
  shows "try_clone_as_tell st clones e m = Inl (Error ReadUninit) \<and>
    try_clone st clones e m = (if s = None then Inl (Error ReadUninit) else Inr (None, m))"
  using clone_panics [where clones = clones, OF assms] envelope_holds_views(2) [OF assms(1)] by (simp add: try_clone_def)

theorem clone_panic_drops_uninit_witness:
  "try_clone sample_statics (\<lambda>_. None)
      (fst (envelope_new sample_statics 8 (sample_obj 8 7) None (po_memory office_new))) (po_memory office_new) =
    Inl (Error ReadUninit)"
proof -
  have "envelope_holds sample_statics (me_boxes (po_memory office_new))
      (fst (envelope_new sample_statics 8 (sample_obj 8 7) None (po_memory office_new))) (8, sample_obj 8 7, None)"
    by (simp add: envelope_new_def envelope_holds_def holds_def pack_or_box_into_def sample_statics_def TELL_SIZE_def
        CACHE_LINE_SIZE_def aligned_def Let_def)
  from clone_panic_drops_uninit [where clones = "\<lambda>_. None", OF this] show ?thesis
    by (simp add: sample_statics_def)
qed

end
