(* ===== verification/Calls.thy ===== *)
theory Calls
  imports Mailbox
begin

text \<open>
  Handles and calls: \<open>crates/factories_actor/src/actor/handle.rs\<close>, \<open>actor/protocol.rs\<close>, \<open>actor/identity.rs\<close>,
  \<open>actor/dispatch.rs\<close> and \<open>message/channel.rs\<close>. A handle is typed, erased, or a protocol; it turns a
  message into one tagged with a dispatcher and sends it through the actor's channel; an ask also
  waits for the answer. An envelope is what it holds (\<open>Envelope_Properties\<close>): the address of the
  message's RTTI, the message, and the number of the answer channel whose sender it carries.
\<close>

section \<open>The answer channel\<close>

text \<open>
  Tokio's oneshot channel is a parameter: \<open>os_send\<close> gives the answer back to a sender whose
  receiver is gone; one poll of the receiver; the loss of either end.
\<close>

record ('o, 'a) oneshot =
  os_channel :: 'o
  os_send :: "'o \<Rightarrow> 'a \<Rightarrow> ('a + unit) \<times> 'o"
  os_poll :: "'o \<Rightarrow> (unit + 'a) poll \<times> 'o"
  os_drop_sender :: "'o \<Rightarrow> 'o"
  os_drop_receiver :: "'o \<Rightarrow> 'o"

datatype 'a answer_state = Open | Answered 'a | Abandoned | Deaf

locale oneshot_channel =
  fixes ops :: "('o, 'a) oneshot"
    and state :: "'o \<Rightarrow> 'a answer_state"
  assumes channel_open: "state (os_channel ops) = Open"
    and send_open: "state c = Open \<Longrightarrow> \<exists>c'. os_send ops c a = (Inr (), c') \<and> state c' = Answered a"
    and send_deaf: "state c = Deaf \<Longrightarrow> \<exists>c'. os_send ops c a = (Inl a, c') \<and> state c' = Deaf"
    and poll_open: "state c = Open \<Longrightarrow> \<exists>c'. os_poll ops c = (Pending, c') \<and> state c' = Open"
    and poll_answered: "state c = Answered a \<Longrightarrow> \<exists>c'. os_poll ops c = (Ready (Inr a), c')"
    and poll_abandoned: "state c = Abandoned \<Longrightarrow> \<exists>c'. os_poll ops c = (Ready (Inl ()), c')"
    and drop_sender: "state c = Open \<Longrightarrow> state (os_drop_sender ops c) = Abandoned"
      "state c = Deaf \<Longrightarrow> state (os_drop_sender ops c) = Deaf"
    and drop_receiver: "state (os_drop_receiver ops c) = Deaf"

definition answer_send :: "('o, 'a) oneshot \<Rightarrow> 'o \<Rightarrow> 'a \<Rightarrow> ('a + unit) \<times> 'o" where
  "answer_send ops sender answer = os_send ops sender answer"

definition answer_poll :: "('o, 'a) oneshot \<Rightarrow> 'o \<Rightarrow> 'a option poll \<times> 'o" where
  "answer_poll ops receiver =
     (case os_poll ops receiver of
        (Pending, c) \<Rightarrow> (Pending, c)
      | (Ready (Inl _), c) \<Rightarrow> (Ready None, c)
      | (Ready (Inr a), c) \<Rightarrow> (Ready (Some a), c))"

section \<open>Identities and handles\<close>

text \<open>
  An actor or message type is the address of its RTTI. The dispatcher is the function the
  declaration macro generates for a pair of actor and message type.
\<close>

datatype ActorMessageDispatcher = Dispatcher u64 u64

record ActorRtti =
  ar_channel_send :: bool
  ar_channel_sync :: bool
  ar_error_send :: bool
  ar_error_sync :: bool

record 'v DispatchedActorMessage =
  dm_dispatcher :: ActorMessageDispatcher
  dm_rtti :: u64
  dm_payload :: 'v
  dm_answer :: "nat option"

record ('q, 'v) ActorIdentity =
  ai_rtti :: u64
  ai_channel :: "('q, 'v DispatchedActorMessage) multilane"
  ai_binder :: "u64 \<Rightarrow> ActorMessageDispatcher option"

text \<open>What the compiler knows: the RTTI of the actor types and which actor handles which message.\<close>

record program =
  pg_rtti :: "u64 \<Rightarrow> ActorRtti"
  pg_handles :: "u64 \<Rightarrow> u64 \<Rightarrow> bool"

datatype handle =
    TypedActorHandle u64 nat
  | AnyActorHandle nat
  | AnyLocalActorHandle nat
  | ProtocolHandle bool "(u64 \<times> ActorMessageDispatcher) list" nat

fun identity :: "handle \<Rightarrow> nat" where
  "identity (TypedActorHandle A i) = i"
| "identity (AnyActorHandle i) = i"
| "identity (AnyLocalActorHandle i) = i"
| "identity (ProtocolHandle shared table i) = i"

definition static_dispatcher :: "u64 \<Rightarrow> u64 \<Rightarrow> ActorMessageDispatcher" where
  "static_dispatcher A M = Dispatcher A M"

definition is_shareable :: "ActorRtti \<Rightarrow> bool" where
  "is_shareable rtti \<longleftrightarrow>
     ar_channel_send rtti \<and> ar_channel_sync rtti \<and> ar_error_send rtti \<and> ar_error_sync rtti"

text \<open>
  A conversion that the type system refuses, or that returns the handle it was given, has no
  result. \<open>rtti_of\<close> is what \<open>identity().rtti()\<close> reads.
\<close>

type_synonym ('q, 'v) actors = "('q, 'v) ActorIdentity list"

definition rtti_of :: "('q, 'v) actors \<Rightarrow> handle \<Rightarrow> u64" where
  "rtti_of actors h = ai_rtti (actors ! identity h)"

definition bind_dispatcher :: "('q, 'v) actors \<Rightarrow> handle \<Rightarrow> u64 \<Rightarrow> ActorMessageDispatcher option" where
  "bind_dispatcher actors h message = ai_binder (actors ! identity h) message"

fun erase_type_local :: "handle \<Rightarrow> handle option" where
  "erase_type_local (TypedActorHandle A i) = Some (AnyLocalActorHandle i)"
| "erase_type_local _ = None"

fun erase_type :: "program \<Rightarrow> handle \<Rightarrow> handle option" where
  "erase_type pg (TypedActorHandle A i) =
     (if is_shareable (pg_rtti pg A) then Some (AnyActorHandle i) else None)"
| "erase_type pg _ = None"

fun into_shared :: "program \<Rightarrow> ('q, 'v) actors \<Rightarrow> handle \<Rightarrow> handle option" where
  "into_shared pg actors (AnyLocalActorHandle i) =
     (if is_shareable (pg_rtti pg (ai_rtti (actors ! i))) then Some (AnyActorHandle i) else None)"
| "into_shared pg actors _ = None"

fun into_local :: "handle \<Rightarrow> handle option" where
  "into_local (AnyActorHandle i) = Some (AnyLocalActorHandle i)"
| "into_local _ = None"

definition downcast :: "('q, 'v) actors \<Rightarrow> u64 \<Rightarrow> handle \<Rightarrow> handle option" where
  "downcast actors A h =
     (if rtti_of actors h \<noteq> A then None else Some (TypedActorHandle A (identity h)))"

text \<open>
  A protocol handle, shared or local, keeps one dispatcher for each of its messages: from a typed
  handle the static ones, from an erased handle those the actor's binder has, if it has them all.
\<close>

definition protocol_from :: "program \<Rightarrow> bool \<Rightarrow> u64 list \<Rightarrow> handle \<Rightarrow> handle option" where
  "protocol_from pg shared messages h =
     (case h of
        TypedActorHandle A i \<Rightarrow>
          (if list_all (pg_handles pg A) messages \<and> (shared \<longrightarrow> is_shareable (pg_rtti pg A))
           then Some (ProtocolHandle shared (map (\<lambda>M. (M, static_dispatcher A M)) messages) i)
           else None)
      | _ \<Rightarrow> None)"

definition erased_as :: "bool \<Rightarrow> handle \<Rightarrow> bool" where
  "erased_as shared h =
     (case h of AnyActorHandle i \<Rightarrow> shared | AnyLocalActorHandle i \<Rightarrow> \<not> shared | _ \<Rightarrow> False)"

fun bind_all :: "('q, 'v) actors \<Rightarrow> handle \<Rightarrow> u64 list \<Rightarrow> (u64 \<times> ActorMessageDispatcher) list option" where
  "bind_all actors h [] = Some []"
| "bind_all actors h (M # Ms) =
     (case bind_dispatcher actors h M of
        None \<Rightarrow> None
      | Some d \<Rightarrow> map_option (Cons (M, d)) (bind_all actors h Ms))"

definition try_bind :: "('q, 'v) actors \<Rightarrow> bool \<Rightarrow> u64 list \<Rightarrow> handle \<Rightarrow> handle option" where
  "try_bind actors shared messages h =
     (if erased_as shared h
      then map_option (\<lambda>table. ProtocolHandle shared table (identity h)) (bind_all actors h messages)
      else None)"

section \<open>Preparing a send\<close>

definition dispatched :: "ActorMessageDispatcher \<Rightarrow> u64 \<Rightarrow> 'v \<Rightarrow> nat option \<Rightarrow> 'v DispatchedActorMessage" where
  "dispatched d M v answer = \<lparr>dm_dispatcher = d, dm_rtti = M, dm_payload = v, dm_answer = answer\<rparr>"

abbreviation channel_of :: "('q, 'v) actors \<Rightarrow> nat \<Rightarrow> ('q, 'v DispatchedActorMessage) multilane" where
  "channel_of actors i \<equiv> ai_channel (actors ! i)"

text \<open>A send of a message the actor type does not handle is not a program.\<close>

definition typed_prepare_send :: "program \<Rightarrow> ('q, 'v) actors \<Rightarrow> u64 \<Rightarrow> nat \<Rightarrow> u64 \<Rightarrow> 'v \<Rightarrow> nat option \<Rightarrow>
    'v DispatchedActorMessage sendable option" where
  "typed_prepare_send pg actors A i M v answer =
     (if pg_handles pg A M
      then Some (prepare_send (channel_of actors i) (dispatched (static_dispatcher A M) M v answer))
      else None)"

definition prepare_send_dynamic :: "('q, 'v) actors \<Rightarrow> handle \<Rightarrow> u64 \<Rightarrow> 'v \<Rightarrow> nat option \<Rightarrow>
    'v DispatchedActorMessage sendable option" where
  "prepare_send_dynamic actors h M v answer =
     (case bind_dispatcher actors h M of
        None \<Rightarrow> None
      | Some d \<Rightarrow> Some (prepare_send (channel_of actors (identity h)) (dispatched d M v answer)))"

definition erased_sendable :: "('q, 'v) actors \<Rightarrow> (u64 \<times> ActorMessageDispatcher) list \<Rightarrow> nat \<Rightarrow> u64 \<Rightarrow> 'v \<Rightarrow>
    nat option \<Rightarrow> 'v DispatchedActorMessage sendable option" where
  "erased_sendable actors table i M v answer =
     (case map_of table M of
        None \<Rightarrow> None
      | Some d \<Rightarrow> Some (prepare_send (channel_of actors i) (dispatched d M v answer)))"

definition prepare_call :: "program \<Rightarrow> ('q, 'v) actors \<Rightarrow> handle \<Rightarrow> u64 \<Rightarrow> 'v \<Rightarrow> nat option \<Rightarrow>
    'v DispatchedActorMessage sendable option" where
  "prepare_call pg actors h M v answer =
     (case h of
        TypedActorHandle A i \<Rightarrow> typed_prepare_send pg actors A i M v answer
      | ProtocolHandle shared table i \<Rightarrow> erased_sendable actors table i M v answer
      | _ \<Rightarrow> prepare_send_dynamic actors h M v answer)"

section \<open>The futures of a call\<close>

datatype AskError = SendFailed ActorChannelSendError | NoReply

text \<open>
  The future of a tell; the \<open>async\<close> exchange of a typed handle, suspended at its first or second
  await; and the state machine \<open>ErasedAsk\<close> of a protocol call.
\<close>

datatype 'v call_future =
    TellSending "'v DispatchedActorMessage sendable"
  | ExchangeSending "'v DispatchedActorMessage sendable" nat
  | ExchangeReceiving nat
  | ErasedSending "'v DispatchedActorMessage sendable" "nat option"
  | ErasedReceiving nat
  | CallDone

text \<open>The parameters of the system.\<close>

record ('q, 'o, 'v, 'a) machine =
  mc_queue :: "('q, 'v DispatchedActorMessage) mpsc"
  mc_oneshot :: "('o, 'a) oneshot"
  mc_sendable :: "'v DispatchedActorMessage \<Rightarrow> bool"
  mc_program :: program

text \<open>
  Dropping a message drops its envelope, and with it the sender of the answer. A failed send drops
  the message, the end of the call drops the receiver.
\<close>

definition drop_message :: "('o, 'a) oneshot \<Rightarrow> 'v DispatchedActorMessage \<Rightarrow> 'o list \<Rightarrow> 'o list" where
  "drop_message ops d answers =
     (case dm_answer d of None \<Rightarrow> answers | Some a \<Rightarrow> answers[a := os_drop_sender ops (answers ! a)])"

definition hang_up :: "('o, 'a) oneshot \<Rightarrow> nat \<Rightarrow> 'o list \<Rightarrow> 'o list" where
  "hang_up ops a answers = answers[a := os_drop_receiver ops (answers ! a)]"

text \<open>Polling the receiver, \<open>recv().await.ok_or(AskError::NoReply)\<close>.\<close>

definition poll_reply :: "('o, 'a) oneshot \<Rightarrow> nat \<Rightarrow> 'o list \<Rightarrow> (AskError + 'a) poll \<times> 'o list" where
  "poll_reply ops a answers =
     (case answer_poll ops (answers ! a) of
        (Pending, c) \<Rightarrow> (Pending, answers[a := c])
      | (Ready None, c) \<Rightarrow> (Ready (Inl NoReply), hang_up ops a (answers[a := c]))
      | (Ready (Some v), c) \<Rightarrow> (Ready (Inr v), hang_up ops a (answers[a := c])))"

text \<open>One poll: what it yields, the future after it, the channel and the answer channels.\<close>

type_synonym ('q, 'o, 'v, 'a) polled =
  "(AskError + 'a option) poll \<times> 'v call_future \<times> ('q, 'v DispatchedActorMessage) multilane \<times> 'o list"

definition exchange_receiving :: "('q, 'o, 'v, 'a) machine \<Rightarrow> nat \<Rightarrow>
    ('q, 'v DispatchedActorMessage) multilane \<Rightarrow> 'o list \<Rightarrow> ('q, 'o, 'v, 'a) polled" where
  "exchange_receiving mc a ch answers =
     (case poll_reply (mc_oneshot mc) a answers of
        (Pending, answers') \<Rightarrow> (Pending, ExchangeReceiving a, ch, answers')
      | (Ready r, answers') \<Rightarrow> (Ready (map_sum id Some r), CallDone, ch, answers'))"

definition erased_receiving :: "('q, 'o, 'v, 'a) machine \<Rightarrow> nat \<Rightarrow>
    ('q, 'v DispatchedActorMessage) multilane \<Rightarrow> 'o list \<Rightarrow> ('q, 'o, 'v, 'a) polled" where
  "erased_receiving mc a ch answers =
     (case poll_reply (mc_oneshot mc) a answers of
        (Pending, answers') \<Rightarrow> (Pending, ErasedReceiving a, ch, answers')
      | (Ready r, answers') \<Rightarrow> (Ready (map_sum id Some r), CallDone, ch, answers'))"

fun poll_call :: "('q, 'o, 'v, 'a) machine \<Rightarrow> 'v call_future \<Rightarrow>
    ('q, 'v DispatchedActorMessage) multilane \<Rightarrow> 'o list \<Rightarrow> (unit, ('q, 'o, 'v, 'a) polled) outcome" where
  "poll_call mc (TellSending s) ch answers =
     (case poll_send (mc_queue mc) (mc_sendable mc) ch s of
        (Pending, ch') \<Rightarrow> Inr (Pending, TellSending s, ch', answers)
      | (Ready (Inl e), ch') \<Rightarrow>
          Inr (Ready (Inl (SendFailed e)), CallDone, ch', drop_message (mc_oneshot mc) (sd_message s) answers)
      | (Ready (Inr _), ch') \<Rightarrow> Inr (Ready (Inr None), CallDone, ch', answers))"
| "poll_call mc (ExchangeSending s a) ch answers =
     (case poll_send (mc_queue mc) (mc_sendable mc) ch s of
        (Pending, ch') \<Rightarrow> Inr (Pending, ExchangeSending s a, ch', answers)
      | (Ready (Inl e), ch') \<Rightarrow>
          Inr (Ready (Inl (SendFailed e)), CallDone, ch',
            hang_up (mc_oneshot mc) a (drop_message (mc_oneshot mc) (sd_message s) answers))
      | (Ready (Inr _), ch') \<Rightarrow> Inr (exchange_receiving mc a ch' answers))"
| "poll_call mc (ExchangeReceiving a) ch answers = Inr (exchange_receiving mc a ch answers)"
| "poll_call mc (ErasedSending s receiver) ch answers =
     (case poll_send (mc_queue mc) (mc_sendable mc) ch s of
        (Pending, ch') \<Rightarrow> Inr (Pending, ErasedSending s receiver, ch', answers)
      | (Ready (Inl e), ch') \<Rightarrow>
          Inr (Ready (Inl (SendFailed e)), CallDone, ch',
            (let answers' = drop_message (mc_oneshot mc) (sd_message s) answers
             in case receiver of None \<Rightarrow> answers' | Some a \<Rightarrow> hang_up (mc_oneshot mc) a answers'))
      | (Ready (Inr _), ch') \<Rightarrow>
          (case receiver of
             None \<Rightarrow> Inl Panic
           | Some a \<Rightarrow> Inr (erased_receiving mc a ch' answers)))"
| "poll_call mc (ErasedReceiving a) ch answers = Inr (erased_receiving mc a ch answers)"
| "poll_call mc CallDone ch answers = Inl Panic"

text \<open>Dropping a future before it is done.\<close>

fun drop_call :: "('o, 'a) oneshot \<Rightarrow> 'v call_future \<Rightarrow> 'o list \<Rightarrow> 'o list" where
  "drop_call ops (TellSending s) answers = drop_message ops (sd_message s) answers"
| "drop_call ops (ExchangeSending s a) answers = hang_up ops a (drop_message ops (sd_message s) answers)"
| "drop_call ops (ExchangeReceiving a) answers = hang_up ops a answers"
| "drop_call ops (ErasedSending s receiver) answers =
     (let answers' = drop_message ops (sd_message s) answers
      in case receiver of None \<Rightarrow> answers' | Some a \<Rightarrow> hang_up ops a answers')"
| "drop_call ops (ErasedReceiving a) answers = hang_up ops a answers"
| "drop_call ops CallDone answers = answers"

section \<open>Dispatching\<close>

datatype confusion = TypeConfusion

text \<open>
  A dispatcher casts the context to its own actor's and the envelope to its own message, unchecked:
  on any other it is undefined behaviour.
\<close>

definition dispatch_onto_loop :: "u64 \<Rightarrow> 'v DispatchedActorMessage \<Rightarrow> (confusion, 'v DispatchedActorMessage) outcome" where
  "dispatch_onto_loop A d =
     (case dm_dispatcher d of Dispatcher A' M \<Rightarrow>
        if A' = A \<and> dm_rtti d = M then Inr d else Inl (Error TypeConfusion))"

section \<open>The system\<close>

record 'v call =
  ca_actor :: nat
  ca_future :: "'v call_future"

text \<open>
  The actors, the handles and calls of all callers, the answer channels, the messages whose handlers
  run, and what handlers kept beyond their end: a message with its answer sender, or just the sender,
  in the actor's state or wherever it was moved. The last four fields only remember: the ask each
  answer channel belongs to, the messages pulled, the answers sent and the results asks yielded.
\<close>

record ('q, 'o, 'v, 'a) switchboard =
  sb_actors :: "('q, 'v) actors"
  sb_handles :: "handle list"
  sb_answers :: "'o list"
  sb_calls :: "'v call list"
  sb_handling :: "(nat \<times> 'v DispatchedActorMessage) list"
  sb_kept :: "(nat \<times> 'v DispatchedActorMessage) list"
  sb_asked :: "(nat \<times> 'v DispatchedActorMessage) list"
  sb_pulled :: "(nat \<times> 'v DispatchedActorMessage) list"
  sb_replies :: "(nat \<times> 'a) list"
  sb_results :: "(nat \<times> (AskError + 'a)) list"

datatype ('v, 'a) call_act =
    Erase nat | EraseLocal nat | IntoShared nat | IntoLocal nat | Downcast nat u64
  | ProtocolFrom nat bool "u64 list" | TryBind nat bool "u64 list"
  | Tell nat u64 'v | TryTell nat u64 'v | Ask nat u64 'v
  | PollCall nat | DropCall nat
  | Receive nat | Discard nat | CloseMailbox nat
  | Reply nat 'a | Ignore nat
  | Keep nat | ReplyKept nat 'a | DropKept nat | Forward nat nat 'v

definition set_channel :: "nat \<Rightarrow> ('q, 'v DispatchedActorMessage) multilane \<Rightarrow> ('q, 'o, 'v, 'a) switchboard \<Rightarrow>
    ('q, 'o, 'v, 'a) switchboard" where
  "set_channel i ch sb = sb\<lparr>sb_actors := (sb_actors sb)[i := (sb_actors sb ! i)\<lparr>ai_channel := ch\<rparr>]\<rparr>"

definition add_handle :: "handle option \<Rightarrow> ('q, 'o, 'v, 'a) switchboard \<Rightarrow> ('q, 'o, 'v, 'a) switchboard" where
  "add_handle h sb = (case h of None \<Rightarrow> sb | Some h' \<Rightarrow> sb\<lparr>sb_handles := sb_handles sb @ [h']\<rparr>)"

definition add_call :: "nat \<Rightarrow> 'v call_future \<Rightarrow> ('q, 'o, 'v, 'a) switchboard \<Rightarrow> ('q, 'o, 'v, 'a) switchboard" where
  "add_call i f sb = sb\<lparr>sb_calls := sb_calls sb @ [\<lparr>ca_actor = i, ca_future = f\<rparr>]\<rparr>"

definition start_tell :: "('q, 'o, 'v, 'a) machine \<Rightarrow> handle \<Rightarrow> u64 \<Rightarrow> 'v \<Rightarrow> ('q, 'o, 'v, 'a) switchboard \<Rightarrow>
    ('q, 'o, 'v, 'a) switchboard" where
  "start_tell mc h M v sb =
     (case prepare_call (mc_program mc) (sb_actors sb) h M v None of
        None \<Rightarrow> sb
      | Some s \<Rightarrow> add_call (identity h) (TellSending s) sb)"

text \<open>\<open>try_tell\<close> sends at once; a refused message is dropped.\<close>

definition try_tell :: "('q, 'o, 'v, 'a) machine \<Rightarrow> handle \<Rightarrow> u64 \<Rightarrow> 'v \<Rightarrow> ('q, 'o, 'v, 'a) switchboard \<Rightarrow>
    send_result option \<times> ('q, 'o, 'v, 'a) switchboard" where
  "try_tell mc h M v sb =
     (case prepare_call (mc_program mc) (sb_actors sb) h M v None of
        None \<Rightarrow> (None, sb)
      | Some s \<Rightarrow>
          (case try_send (mc_queue mc) (mc_sendable mc) (channel_of (sb_actors sb) (identity h)) s of
             (r, ch) \<Rightarrow> (Some r, set_channel (identity h) ch sb)))"

text \<open>An ask makes an answer channel and puts its sender into the envelope.\<close>

definition start_ask :: "('q, 'o, 'v, 'a) machine \<Rightarrow> handle \<Rightarrow> u64 \<Rightarrow> 'v \<Rightarrow> ('q, 'o, 'v, 'a) switchboard \<Rightarrow>
    ('q, 'o, 'v, 'a) switchboard" where
  "start_ask mc h M v sb =
     (let a = length (sb_answers sb) in
      case prepare_call (mc_program mc) (sb_actors sb) h M v (Some a) of
        None \<Rightarrow> sb
      | Some s \<Rightarrow>
          add_call (identity h)
            (case h of ProtocolHandle shared table i \<Rightarrow> ErasedSending s (Some a) | _ \<Rightarrow> ExchangeSending s a)
            (sb\<lparr>sb_answers := sb_answers sb @ [os_channel (mc_oneshot mc)],
                sb_asked := sb_asked sb @ [(identity h, sd_message s)]\<rparr>))"

fun receiver_of :: "'v call_future \<Rightarrow> nat option" where
  "receiver_of (ExchangeSending s a) = Some a"
| "receiver_of (ExchangeReceiving a) = Some a"
| "receiver_of (ErasedSending s receiver) = receiver"
| "receiver_of (ErasedReceiving a) = Some a"
| "receiver_of _ = None"

definition log_result :: "'v call_future \<Rightarrow> (AskError + 'a option) poll \<Rightarrow> ('q, 'o, 'v, 'a) switchboard \<Rightarrow>
    ('q, 'o, 'v, 'a) switchboard" where
  "log_result f r sb =
     (case (receiver_of f, r) of
        (Some a, Ready (Inl e)) \<Rightarrow> sb\<lparr>sb_results := sb_results sb @ [(a, Inl e)]\<rparr>
      | (Some a, Ready (Inr (Some v))) \<Rightarrow> sb\<lparr>sb_results := sb_results sb @ [(a, Inr v)]\<rparr>
      | _ \<Rightarrow> sb)"

definition poll_call_at :: "('q, 'o, 'v, 'a) machine \<Rightarrow> nat \<Rightarrow> ('q, 'o, 'v, 'a) switchboard \<Rightarrow>
    (unit, ('q, 'o, 'v, 'a) switchboard) outcome" where
  "poll_call_at mc j sb =
     (let c = sb_calls sb ! j; i = ca_actor c in
      and_then (poll_call mc (ca_future c) (channel_of (sb_actors sb) i) (sb_answers sb))
        (\<lambda>(r, f, ch, answers).
           Inr (log_result (ca_future c) r
             ((set_channel i ch sb)\<lparr>sb_calls := (sb_calls sb)[j := c\<lparr>ca_future := f\<rparr>], sb_answers := answers\<rparr>))))"

definition drop_call_at :: "('q, 'o, 'v, 'a) machine \<Rightarrow> nat \<Rightarrow> ('q, 'o, 'v, 'a) switchboard \<Rightarrow>
    ('q, 'o, 'v, 'a) switchboard" where
  "drop_call_at mc j sb =
     (let c = sb_calls sb ! j in
      sb\<lparr>sb_calls := (sb_calls sb)[j := c\<lparr>ca_future := CallDone\<rparr>],
         sb_answers := drop_call (mc_oneshot mc) (ca_future c) (sb_answers sb)\<rparr>)"

text \<open>
  The actor pulls a message and dispatches it; a loop that ends drops what it pulled or still has
  queued.
\<close>

definition receive_at :: "('q, 'o, 'v, 'a) machine \<Rightarrow> nat \<Rightarrow> ('q, 'o, 'v, 'a) switchboard \<Rightarrow>
    (confusion, ('q, 'o, 'v, 'a) switchboard) outcome" where
  "receive_at mc i sb =
     (case poll_receive (mc_queue mc) (channel_of (sb_actors sb) i) of
        (Ready (Some d), ch) \<Rightarrow>
          and_then (dispatch_onto_loop (ai_rtti (sb_actors sb ! i)) d) (\<lambda>d.
            Inr ((set_channel i ch sb)\<lparr>sb_handling := sb_handling sb @ [(i, d)], sb_pulled := sb_pulled sb @ [(i, d)]\<rparr>))
      | (_, ch) \<Rightarrow> Inr (set_channel i ch sb))"

definition discard_at :: "('q, 'o, 'v, 'a) machine \<Rightarrow> nat \<Rightarrow> ('q, 'o, 'v, 'a) switchboard \<Rightarrow>
    ('q, 'o, 'v, 'a) switchboard" where
  "discard_at mc i sb =
     (case poll_receive (mc_queue mc) (channel_of (sb_actors sb) i) of
        (Ready (Some d), ch) \<Rightarrow>
          (set_channel i ch sb)\<lparr>sb_answers := drop_message (mc_oneshot mc) d (sb_answers sb)\<rparr>
      | (_, ch) \<Rightarrow> set_channel i ch sb)"

definition drop_nth :: "nat \<Rightarrow> 'b list \<Rightarrow> 'b list" where
  "drop_nth k xs = take k xs @ drop (Suc k) xs"

text \<open>
  A sender answers at most once, it is consumed. A handler answers, drops its sender unused (also
  when it is itself dropped), or keeps what \<open>into_parts\<close> gave it; whoever has that now answers
  later, drops it, or forwards it to another actor, as the sealed envelope it was or in a new one
  for the same message type. The future of that send is a tell's, but the sender travels inside.
\<close>

definition answer_with :: "('q, 'o, 'v, 'a) machine \<Rightarrow> 'v DispatchedActorMessage \<Rightarrow> 'a \<Rightarrow>
    ('q, 'o, 'v, 'a) switchboard \<Rightarrow> ('q, 'o, 'v, 'a) switchboard" where
  "answer_with mc d v sb =
     (case dm_answer d of
        None \<Rightarrow> sb
      | Some a \<Rightarrow>
          (case answer_send (mc_oneshot mc) (sb_answers sb ! a) v of
             (_, c) \<Rightarrow> sb\<lparr>sb_answers := (sb_answers sb)[a := c], sb_replies := sb_replies sb @ [(a, v)]\<rparr>))"

definition drop_unanswered :: "('q, 'o, 'v, 'a) machine \<Rightarrow> 'v DispatchedActorMessage \<Rightarrow>
    ('q, 'o, 'v, 'a) switchboard \<Rightarrow> ('q, 'o, 'v, 'a) switchboard" where
  "drop_unanswered mc d sb = sb\<lparr>sb_answers := drop_message (mc_oneshot mc) d (sb_answers sb)\<rparr>"

definition end_handler :: "nat \<Rightarrow> ('q, 'o, 'v, 'a) switchboard \<Rightarrow> ('q, 'o, 'v, 'a) switchboard" where
  "end_handler k sb = sb\<lparr>sb_handling := drop_nth k (sb_handling sb)\<rparr>"

definition release_kept :: "nat \<Rightarrow> ('q, 'o, 'v, 'a) switchboard \<Rightarrow> ('q, 'o, 'v, 'a) switchboard" where
  "release_kept k sb = sb\<lparr>sb_kept := drop_nth k (sb_kept sb)\<rparr>"

definition reply_at :: "('q, 'o, 'v, 'a) machine \<Rightarrow> nat \<Rightarrow> 'a \<Rightarrow> ('q, 'o, 'v, 'a) switchboard \<Rightarrow>
    ('q, 'o, 'v, 'a) switchboard" where
  "reply_at mc k v sb = answer_with mc (snd (sb_handling sb ! k)) v (end_handler k sb)"

definition ignore_at :: "('q, 'o, 'v, 'a) machine \<Rightarrow> nat \<Rightarrow> ('q, 'o, 'v, 'a) switchboard \<Rightarrow>
    ('q, 'o, 'v, 'a) switchboard" where
  "ignore_at mc k sb = drop_unanswered mc (snd (sb_handling sb ! k)) (end_handler k sb)"

definition keep_at :: "nat \<Rightarrow> ('q, 'o, 'v, 'a) switchboard \<Rightarrow> ('q, 'o, 'v, 'a) switchboard" where
  "keep_at k sb = (end_handler k sb)\<lparr>sb_kept := sb_kept sb @ [sb_handling sb ! k]\<rparr>"

definition reply_kept_at :: "('q, 'o, 'v, 'a) machine \<Rightarrow> nat \<Rightarrow> 'a \<Rightarrow> ('q, 'o, 'v, 'a) switchboard \<Rightarrow>
    ('q, 'o, 'v, 'a) switchboard" where
  "reply_kept_at mc k v sb = answer_with mc (snd (sb_kept sb ! k)) v (release_kept k sb)"

definition drop_kept_at :: "('q, 'o, 'v, 'a) machine \<Rightarrow> nat \<Rightarrow> ('q, 'o, 'v, 'a) switchboard \<Rightarrow>
    ('q, 'o, 'v, 'a) switchboard" where
  "drop_kept_at mc k sb = drop_unanswered mc (snd (sb_kept sb ! k)) (release_kept k sb)"

text \<open>
  A protocol handle takes no envelope and no sender; a typed one sends only what its actor handles;
  an erased one drops the envelope when the actor's binder does not know the message.
\<close>

definition forward_at :: "('q, 'o, 'v, 'a) machine \<Rightarrow> nat \<Rightarrow> handle \<Rightarrow> 'v \<Rightarrow> ('q, 'o, 'v, 'a) switchboard \<Rightarrow>
    ('q, 'o, 'v, 'a) switchboard" where
  "forward_at mc k h v sb =
     (let d = snd (sb_kept sb ! k);
          send = (\<lambda>s. add_call (identity h) (TellSending s) (release_kept k sb))
      in case h of
           TypedActorHandle A i \<Rightarrow>
             (case typed_prepare_send (mc_program mc) (sb_actors sb) A i (dm_rtti d) v (dm_answer d) of
                None \<Rightarrow> sb
              | Some s \<Rightarrow> send s)
         | ProtocolHandle shared table i \<Rightarrow> sb
         | _ \<Rightarrow>
             (case prepare_send_dynamic (sb_actors sb) h (dm_rtti d) v (dm_answer d) of
                None \<Rightarrow> drop_kept_at mc k sb
              | Some s \<Rightarrow> send s))"

definition close_at :: "('q, 'o, 'v, 'a) machine \<Rightarrow> nat \<Rightarrow> ('q, 'o, 'v, 'a) switchboard \<Rightarrow>
    ('q, 'o, 'v, 'a) switchboard" where
  "close_at mc i sb = set_channel i (close_mailbox (mc_queue mc) (channel_of (sb_actors sb) i)) sb"

definition no_error :: "(unit, 'b) outcome \<Rightarrow> (confusion, 'b) outcome" where
  "no_error r = (case r of Inr x \<Rightarrow> Inr x | Inl _ \<Rightarrow> Inl Panic)"

fun call_step :: "('q, 'o, 'v, 'a) machine \<Rightarrow> ('v, 'a) call_act \<Rightarrow> ('q, 'o, 'v, 'a) switchboard \<Rightarrow>
    (confusion, ('q, 'o, 'v, 'a) switchboard) outcome" where
  "call_step mc (Erase n) sb = Inr (add_handle (erase_type (mc_program mc) (sb_handles sb ! n)) sb)"
| "call_step mc (EraseLocal n) sb = Inr (add_handle (erase_type_local (sb_handles sb ! n)) sb)"
| "call_step mc (IntoShared n) sb =
     Inr (add_handle (into_shared (mc_program mc) (sb_actors sb) (sb_handles sb ! n)) sb)"
| "call_step mc (IntoLocal n) sb = Inr (add_handle (into_local (sb_handles sb ! n)) sb)"
| "call_step mc (Downcast n A) sb = Inr (add_handle (downcast (sb_actors sb) A (sb_handles sb ! n)) sb)"
| "call_step mc (ProtocolFrom n shared Ms) sb =
     Inr (add_handle (protocol_from (mc_program mc) shared Ms (sb_handles sb ! n)) sb)"
| "call_step mc (TryBind n shared Ms) sb =
     Inr (add_handle (try_bind (sb_actors sb) shared Ms (sb_handles sb ! n)) sb)"
| "call_step mc (Tell n M v) sb = Inr (start_tell mc (sb_handles sb ! n) M v sb)"
| "call_step mc (TryTell n M v) sb = Inr (snd (try_tell mc (sb_handles sb ! n) M v sb))"
| "call_step mc (Ask n M v) sb = Inr (start_ask mc (sb_handles sb ! n) M v sb)"
| "call_step mc (PollCall j) sb = no_error (poll_call_at mc j sb)"
| "call_step mc (DropCall j) sb = Inr (drop_call_at mc j sb)"
| "call_step mc (Receive i) sb = receive_at mc i sb"
| "call_step mc (Discard i) sb = Inr (discard_at mc i sb)"
| "call_step mc (CloseMailbox i) sb = Inr (close_at mc i sb)"
| "call_step mc (Reply k v) sb = Inr (reply_at mc k v sb)"
| "call_step mc (Ignore k) sb = Inr (ignore_at mc k sb)"
| "call_step mc (Keep k) sb = Inr (keep_at k sb)"
| "call_step mc (ReplyKept k v) sb = Inr (reply_kept_at mc k v sb)"
| "call_step mc (DropKept k) sb = Inr (drop_kept_at mc k sb)"
| "call_step mc (Forward k n v) sb = Inr (forward_at mc k (sb_handles sb ! n) v sb)"

text \<open>
  Steps on a handle, an actor, a running handler, something kept or an unfinished call that is there; a future
  that is done is not polled again.
\<close>

fun call_enabled :: "('v, 'a) call_act \<Rightarrow> ('q, 'o, 'v, 'a) switchboard \<Rightarrow> bool" where
  "call_enabled (Erase n) sb = (n < length (sb_handles sb))"
| "call_enabled (EraseLocal n) sb = (n < length (sb_handles sb))"
| "call_enabled (IntoShared n) sb = (n < length (sb_handles sb))"
| "call_enabled (IntoLocal n) sb = (n < length (sb_handles sb))"
| "call_enabled (Downcast n A) sb = (n < length (sb_handles sb))"
| "call_enabled (ProtocolFrom n shared Ms) sb = (n < length (sb_handles sb))"
| "call_enabled (TryBind n shared Ms) sb = (n < length (sb_handles sb))"
| "call_enabled (Tell n M v) sb = (n < length (sb_handles sb))"
| "call_enabled (TryTell n M v) sb = (n < length (sb_handles sb))"
| "call_enabled (Ask n M v) sb = (n < length (sb_handles sb))"
| "call_enabled (PollCall j) sb = (j < length (sb_calls sb) \<and> ca_future (sb_calls sb ! j) \<noteq> CallDone)"
| "call_enabled (DropCall j) sb = (j < length (sb_calls sb))"
| "call_enabled (Receive i) sb = (i < length (sb_actors sb))"
| "call_enabled (Discard i) sb = (i < length (sb_actors sb))"
| "call_enabled (CloseMailbox i) sb = (i < length (sb_actors sb))"
| "call_enabled (Reply k v) sb = (k < length (sb_handling sb))"
| "call_enabled (Ignore k) sb = (k < length (sb_handling sb))"
| "call_enabled (Keep k) sb = (k < length (sb_handling sb))"
| "call_enabled (ReplyKept k v) sb = (k < length (sb_kept sb))"
| "call_enabled (DropKept k) sb = (k < length (sb_kept sb))"
| "call_enabled (Forward k n v) sb = (k < length (sb_kept sb) \<and> n < length (sb_handles sb))"

fun call_run :: "('q, 'o, 'v, 'a) machine \<Rightarrow> ('v, 'a) call_act list \<Rightarrow> ('q, 'o, 'v, 'a) switchboard \<Rightarrow>
    (confusion, ('q, 'o, 'v, 'a) switchboard) outcome" where
  "call_run mc [] sb = Inr sb"
| "call_run mc (x # xs) sb =
     (if call_enabled x sb then and_then (call_step mc x sb) (call_run mc xs) else call_run mc xs sb)"

end
