(* ===== verification/Calls_Desk.thy ===== *)
theory Calls_Desk
  imports Calls "HOL-Library.Multiset"
begin

text \<open>
  What calls promise, as a machine without channels and futures: a message is offered by its ask,
  waits, is held by a handler or whoever that handler left it to, and is gone, or waits again because
  it was forwarded; an answer channel is open, answered, abandoned, or nobody listens.
\<close>

type_synonym 'v parcel = "nat \<times> 'v DispatchedActorMessage"

record ('v, 'a) desk =
  dk_asking :: "'v parcel multiset"
  dk_waiting :: "'v parcel multiset"
  dk_handling :: "'v parcel multiset"
  dk_answers :: "'a answer_state list"
  dk_asked :: "'v parcel list"
  dk_pulled :: "'v parcel list"
  dk_replies :: "(nat \<times> 'a) list"
  dk_results :: "(nat \<times> (AskError + 'a)) list"

abbreviation parcel_answer :: "'v parcel \<Rightarrow> nat option" where
  "parcel_answer x \<equiv> dm_answer (snd x)"

text \<open>What the loss of a sender does, and an answer.\<close>

fun abandon_state :: "'a answer_state \<Rightarrow> 'a answer_state" where
  "abandon_state Deaf = Deaf"
| "abandon_state _ = Abandoned"

fun answer_state :: "'a \<Rightarrow> 'a answer_state \<Rightarrow> 'a answer_state" where
  "answer_state v Deaf = Deaf"
| "answer_state v _ = Answered v"

definition abandon :: "'v parcel \<Rightarrow> 'a answer_state list \<Rightarrow> 'a answer_state list" where
  "abandon x answers =
     (case parcel_answer x of None \<Rightarrow> answers | Some a \<Rightarrow> answers[a := abandon_state (answers ! a)])"

inductive desk_step :: "('v parcel \<Rightarrow> bool) \<Rightarrow> ('v, 'a) desk \<Rightarrow> ('v, 'a) desk \<Rightarrow> bool" for ok where
  tell: "ok x \<Longrightarrow> parcel_answer x = None \<Longrightarrow> desk_step ok dk (dk\<lparr>dk_waiting := add_mset x (dk_waiting dk)\<rparr>)"
| ask: "ok x \<Longrightarrow> parcel_answer x = Some (length (dk_answers dk)) \<Longrightarrow>
    desk_step ok dk (dk\<lparr>dk_asking := add_mset x (dk_asking dk), dk_answers := dk_answers dk @ [Open],
      dk_asked := dk_asked dk @ [x]\<rparr>)"
| post: "dk_asking dk = add_mset x w \<Longrightarrow>
    desk_step ok dk (dk\<lparr>dk_asking := w, dk_waiting := add_mset x (dk_waiting dk)\<rparr>)"
| refuse: "dk_asking dk = add_mset x w \<Longrightarrow> parcel_answer x = Some a \<Longrightarrow> dk_answers dk ! a \<noteq> Deaf \<Longrightarrow>
    desk_step ok dk (dk\<lparr>dk_asking := w, dk_answers := (dk_answers dk)[a := Deaf],
      dk_results := dk_results dk @ [(a, Inl (SendFailed e))]\<rparr>)"
| withdraw: "dk_asking dk = add_mset x w \<Longrightarrow>
    desk_step ok dk (dk\<lparr>dk_asking := w, dk_answers := abandon x (dk_answers dk)\<rparr>)"
| discard: "dk_waiting dk = add_mset x w \<Longrightarrow>
    desk_step ok dk (dk\<lparr>dk_waiting := w, dk_answers := abandon x (dk_answers dk)\<rparr>)"
| pull: "dk_waiting dk = add_mset x w \<Longrightarrow>
    desk_step ok dk (dk\<lparr>dk_waiting := w, dk_handling := add_mset x (dk_handling dk),
      dk_pulled := dk_pulled dk @ [x]\<rparr>)"
| reply: "dk_handling dk = add_mset x w \<Longrightarrow> parcel_answer x = Some a \<Longrightarrow>
    desk_step ok dk (dk\<lparr>dk_handling := w, dk_answers := (dk_answers dk)[a := answer_state v (dk_answers dk ! a)],
      dk_replies := dk_replies dk @ [(a, v)]\<rparr>)"
| ignore: "dk_handling dk = add_mset x w \<Longrightarrow>
    desk_step ok dk (dk\<lparr>dk_handling := w, dk_answers := abandon x (dk_answers dk)\<rparr>)"
| forward: "dk_handling dk = add_mset x w \<Longrightarrow> ok y \<Longrightarrow> parcel_answer y = parcel_answer x \<Longrightarrow>
    desk_step ok dk (dk\<lparr>dk_handling := w, dk_waiting := add_mset y (dk_waiting dk)\<rparr>)"
| take: "a < length (dk_answers dk) \<Longrightarrow> dk_answers dk ! a = Answered v \<Longrightarrow>
    desk_step ok dk (dk\<lparr>dk_answers := (dk_answers dk)[a := Deaf], dk_results := dk_results dk @ [(a, Inr v)]\<rparr>)"
| no_reply: "a < length (dk_answers dk) \<Longrightarrow> dk_answers dk ! a = Abandoned \<Longrightarrow>
    desk_step ok dk (dk\<lparr>dk_answers := (dk_answers dk)[a := Deaf], dk_results := dk_results dk @ [(a, Inl NoReply)]\<rparr>)"
| hang_up: "a < length (dk_answers dk) \<Longrightarrow>
    desk_step ok dk (dk\<lparr>dk_answers := (dk_answers dk)[a := Deaf]\<rparr>)"

section \<open>The invariant\<close>

definition dk_alive :: "('v, 'a) desk \<Rightarrow> 'v parcel multiset" where
  "dk_alive dk = dk_asking dk + dk_waiting dk + dk_handling dk"

definition replied :: "('v, 'a) desk \<Rightarrow> nat set" where
  "replied dk = fst ` set (dk_replies dk)"

lemma desk_update_simps [simp]:
  "dk_alive (dk\<lparr>dk_answers := answers\<rparr>) = dk_alive dk" "dk_alive (dk\<lparr>dk_results := results\<rparr>) = dk_alive dk"
  "replied (dk\<lparr>dk_answers := answers\<rparr>) = replied dk" "replied (dk\<lparr>dk_results := results\<rparr>) = replied dk"
  by (simp_all add: dk_alive_def replied_def)

text \<open>
  The parcels that carry the sender of the answer channel \<open>a\<close>. There is at most one: a message that
  is forwarded is another parcel, but the sender is the same.
\<close>

definition carriers :: "nat \<Rightarrow> 'v parcel multiset \<Rightarrow> 'v parcel multiset" where
  "carriers a M = filter_mset (\<lambda>x. parcel_answer x = Some a) M"

lemma carriers_simps [simp]:
  "carriers a {#} = {#}" "carriers a (M + N) = carriers a M + carriers a N"
  "carriers a (add_mset x M) = (if parcel_answer x = Some a then add_mset x (carriers a M) else carriers a M)"
  by (simp_all add: carriers_def)

lemma in_carriers: "x \<in># carriers a M \<longleftrightarrow> x \<in># M \<and> parcel_answer x = Some a"
  by (simp add: carriers_def)

definition pulled_for :: "('v, 'a) desk \<Rightarrow> nat \<Rightarrow> bool" where
  "pulled_for dk a \<longleftrightarrow> (\<exists>y \<in> set (dk_pulled dk). parcel_answer y = Some a)"

text \<open>How a parcel and its answer channel agree.\<close>

definition parcel_ok :: "('v parcel \<Rightarrow> bool) \<Rightarrow> ('v, 'a) desk \<Rightarrow> 'v parcel \<Rightarrow> bool" where
  "parcel_ok ok dk x \<longleftrightarrow> ok x \<and> (\<forall>a. parcel_answer x = Some a \<longrightarrow> a < length (dk_answers dk))"

definition fate_ok :: "('v, 'a) desk \<Rightarrow> nat \<Rightarrow> bool" where
  "fate_ok dk a \<longleftrightarrow>
     parcel_answer (dk_asked dk ! a) = Some a \<and>
     size (carriers a (dk_alive dk)) \<le> 1 \<and>
     (\<forall>x \<in># carriers a (dk_asking dk). x = dk_asked dk ! a \<and> \<not> pulled_for dk a) \<and>
     (\<forall>x \<in># carriers a (dk_waiting dk). x = dk_asked dk ! a \<or> dk_asked dk ! a \<in> set (dk_pulled dk)) \<and>
     (carriers a (dk_handling dk) \<noteq> {#} \<longrightarrow> dk_asked dk ! a \<in> set (dk_pulled dk)) \<and>
     (carriers a (dk_alive dk) \<noteq> {#} \<longrightarrow> a \<notin> replied dk \<and> (dk_answers dk ! a = Open \<or> dk_answers dk ! a = Deaf)) \<and>
     (carriers a (dk_alive dk) = {#} \<longrightarrow> dk_answers dk ! a \<noteq> Open) \<and>
     (\<forall>v. dk_answers dk ! a = Answered v \<longrightarrow> (a, v) \<in> set (dk_replies dk)) \<and>
     (dk_answers dk ! a = Abandoned \<longrightarrow> a \<notin> replied dk) \<and>
     (a \<in> replied dk \<longrightarrow> dk_asked dk ! a \<in> set (dk_pulled dk))"

definition result_ok :: "('v, 'a) desk \<Rightarrow> nat \<times> (AskError + 'a) \<Rightarrow> bool" where
  "result_ok dk ar \<longleftrightarrow>
     fst ar < length (dk_answers dk) \<and> dk_answers dk ! fst ar = Deaf \<and> carriers (fst ar) (dk_alive dk) = {#} \<and>
     (case snd ar of
        Inr v \<Rightarrow> (fst ar, v) \<in> set (dk_replies dk)
      | Inl NoReply \<Rightarrow> fst ar \<notin> replied dk
      | Inl (SendFailed e) \<Rightarrow> fst ar \<notin> replied dk \<and> \<not> pulled_for dk (fst ar))"

definition desk_ok :: "('v parcel \<Rightarrow> bool) \<Rightarrow> ('v, 'a) desk \<Rightarrow> bool" where
  "desk_ok ok dk \<longleftrightarrow>
     length (dk_asked dk) = length (dk_answers dk) \<and>
     (\<forall>x. x \<in># dk_alive dk \<longrightarrow> parcel_ok ok dk x) \<and>
     (\<forall>x \<in> set (dk_pulled dk). parcel_ok ok dk x) \<and>
     (\<forall>a < length (dk_answers dk). fate_ok dk a) \<and>
     replied dk \<subseteq> {..<length (dk_answers dk)} \<and> distinct (map fst (dk_replies dk)) \<and>
     (\<forall>ar \<in> set (dk_results dk). result_ok dk ar) \<and> distinct (map fst (dk_results dk))"

lemma abandon_length [simp]: "length (abandon x answers) = length answers"
  by (simp add: abandon_def split: option.splits)

lemma abandon_nth:
  "b < length answers \<Longrightarrow>
     abandon x answers ! b = (if parcel_answer x = Some b then abandon_state (answers ! b) else answers ! b)"
  by (auto simp: abandon_def nth_list_update split: option.splits)

lemma abandon_state_cases: "s = Open \<or> s = Deaf \<Longrightarrow> abandon_state s = (if s = Deaf then Deaf else Abandoned)"
  by auto

text \<open>A step that concerns one answer channel leaves the others as they were.\<close>

definition same_fate :: "('v, 'a) desk \<Rightarrow> ('v, 'a) desk \<Rightarrow> nat \<Rightarrow> bool" where
  "same_fate dk dk' b \<longleftrightarrow>
     dk_asked dk' ! b = dk_asked dk ! b \<and> dk_answers dk' ! b = dk_answers dk ! b \<and>
     carriers b (dk_asking dk') = carriers b (dk_asking dk) \<and>
     carriers b (dk_waiting dk') = carriers b (dk_waiting dk) \<and>
     carriers b (dk_handling dk') = carriers b (dk_handling dk) \<and>
     (\<forall>y. parcel_answer y = Some b \<longrightarrow> y \<in> set (dk_pulled dk') \<longleftrightarrow> y \<in> set (dk_pulled dk)) \<and>
     (\<forall>v. (b, v) \<in> set (dk_replies dk') \<longleftrightarrow> (b, v) \<in> set (dk_replies dk))"

lemma same_fate_ok:
  assumes "same_fate dk dk' b"
  shows "fate_ok dk b \<Longrightarrow> fate_ok dk' b"
    "fst ar = b \<Longrightarrow> length (dk_answers dk) \<le> length (dk_answers dk') \<Longrightarrow> result_ok dk ar \<Longrightarrow> result_ok dk' ar"
proof -
  have "b \<in> replied dk' \<longleftrightarrow> b \<in> replied dk"
    using assms by (auto simp: same_fate_def replied_def image_iff)
  moreover have "pulled_for dk' b = pulled_for dk b"
    using assms by (auto simp: same_fate_def pulled_for_def)
  moreover have "carriers b (dk_alive dk') = carriers b (dk_alive dk)"
    using assms by (simp add: same_fate_def dk_alive_def)
  moreover note assms [unfolded same_fate_def]
  ultimately have same: "b \<in> replied dk' \<longleftrightarrow> b \<in> replied dk" "pulled_for dk' b = pulled_for dk b"
    "carriers b (dk_alive dk') = carriers b (dk_alive dk)" "dk_asked dk' ! b = dk_asked dk ! b"
    "dk_answers dk' ! b = dk_answers dk ! b" "carriers b (dk_asking dk') = carriers b (dk_asking dk)"
    "carriers b (dk_waiting dk') = carriers b (dk_waiting dk)"
    "carriers b (dk_handling dk') = carriers b (dk_handling dk)"
    "\<And>v. (b, v) \<in> set (dk_replies dk') \<longleftrightarrow> (b, v) \<in> set (dk_replies dk)"
    by blast+
  show "fate_ok dk' b" if fate: "fate_ok dk b"
  proof -
    have "parcel_answer (dk_asked dk ! b) = Some b" using fate by (simp add: fate_ok_def)
    with assms have "dk_asked dk ! b \<in> set (dk_pulled dk') \<longleftrightarrow> dk_asked dk ! b \<in> set (dk_pulled dk)"
      unfolding same_fate_def by blast
    with fate show ?thesis unfolding fate_ok_def same by simp
  qed
  show "result_ok dk' ar" if "fst ar = b" "length (dk_answers dk) \<le> length (dk_answers dk')" "result_ok dk ar"
    using that(2,3) unfolding result_ok_def that(1) same by simp
qed

text \<open>
  So a step that touches at most the answer channel \<open>a\<close> keeps the invariant if it keeps it of \<open>a\<close>, and
  of the result it may add.
\<close>

lemma desk_ok_touch:
  assumes ok: "desk_ok ok dk"
    and len: "dk_asked dk' = dk_asked dk" "length (dk_answers dk') = length (dk_answers dk)"
    and alive: "\<And>x. x \<in># dk_alive dk' \<Longrightarrow> parcel_ok ok dk x"
    and pulled: "set (dk_pulled dk') \<subseteq> set (dk_pulled dk) \<union> set_mset (dk_alive dk)"
    and others: "\<forall>b < length (dk_answers dk). a \<noteq> Some b \<longrightarrow> same_fate dk dk' b"
    and touched: "\<forall>b. a = Some b \<longrightarrow> b < length (dk_answers dk) \<longrightarrow> fate_ok dk' b"
    and replies: "replied dk' \<subseteq> {..<length (dk_answers dk)}" "distinct (map fst (dk_replies dk'))"
    and results: "dk_results dk' = dk_results dk @ new"
      "\<forall>ar \<in> set (dk_results dk). a = Some (fst ar) \<longrightarrow> result_ok dk' ar" "distinct (map fst (dk_results dk'))"
      "\<forall>ar \<in> set new. result_ok dk' ar"
  shows "desk_ok ok dk'"
proof -
  have old: "\<forall>x. x \<in># dk_alive dk \<longrightarrow> parcel_ok ok dk x" "\<forall>x \<in> set (dk_pulled dk). parcel_ok ok dk x"
    "\<forall>a < length (dk_answers dk). fate_ok dk a" "\<forall>ar \<in> set (dk_results dk). result_ok dk ar"
    using ok unfolding desk_ok_def by blast+
  have "parcel_ok ok dk' x = parcel_ok ok dk x" for x using len by (simp add: parcel_ok_def)
  with old(1,2) alive pulled have "\<forall>x. x \<in># dk_alive dk' \<longrightarrow> parcel_ok ok dk' x"
      "\<forall>x \<in> set (dk_pulled dk'). parcel_ok ok dk' x"
    by blast+
  moreover have "fate_ok dk' b" if "b < length (dk_answers dk)" for b
  proof (cases "a = Some b")
    case True
    with touched that show ?thesis by blast
  next
    case False
    with others that have "same_fate dk dk' b" by blast
    with same_fate_ok(1) old(3) that show ?thesis by blast
  qed
  moreover have "result_ok dk' ar" if ar: "ar \<in> set (dk_results dk')" for ar
  proof (cases "ar \<in> set new")
    case True
    with results(4) show ?thesis by blast
  next
    case False
    with ar results(1) have mem: "ar \<in> set (dk_results dk)" by auto
    show ?thesis
    proof (cases "a = Some (fst ar)")
      case True
      with results(2) mem show ?thesis by blast
    next
      case False
      from old(4) mem have "result_ok dk ar" by blast
      then have "fst ar < length (dk_answers dk)" by (simp add: result_ok_def)
      with others False have "same_fate dk dk' (fst ar)" by blast
      from same_fate_ok(2) [OF this refl] \<open>result_ok dk ar\<close> len(2) show ?thesis by simp
    qed
  qed
  ultimately show ?thesis
    using ok len replies results(3) unfolding desk_ok_def by auto
qed

section \<open>Every step keeps it\<close>

lemma distinct_fst_append:
  assumes "distinct (map fst xs)" "distinct (map fst ys)" "\<forall>y \<in> set ys. fst y \<notin> fst ` set xs"
  shows "distinct (map fst (xs @ ys))"
proof -
  have "fst ` set xs \<inter> fst ` set ys = {}"
  proof (rule equals0I)
    fix a
    assume "a \<in> fst ` set xs \<inter> fst ` set ys"
    then have "a \<in> fst ` set xs" "a \<in> fst ` set ys" by simp_all
    from this(2) obtain y where "y \<in> set ys" "a = fst y" by (rule imageE)
    with assms(3) \<open>a \<in> fst ` set xs\<close> show False by simp
  qed
  with assms(1,2) show ?thesis by simp
qed

text \<open>What is known of a parcel in hand.\<close>

lemma alive_ok: "desk_ok ok dk \<Longrightarrow> x \<in># dk_alive dk \<Longrightarrow> parcel_ok ok dk x"
  unfolding desk_ok_def by blast

lemma parcel_facts:
  assumes ok: "desk_ok ok dk" and x: "x \<in># dk_alive dk" "parcel_answer x = Some a"
  shows "a < length (dk_answers dk)" "fate_ok dk a" "carriers a (dk_alive dk) = {#x#}"
    "dk_answers dk ! a = Open \<or> dk_answers dk ! a = Deaf" "a \<notin> replied dk"
    "\<forall>ar \<in> set (dk_results dk). fst ar \<noteq> a"
proof -
  show a: "a < length (dk_answers dk)" using alive_ok [OF ok x(1)] x(2) by (simp add: parcel_ok_def)
  with ok show fate: "fate_ok dk a" by (simp add: desk_ok_def)
  have mem: "x \<in># carriers a (dk_alive dk)" using x by (simp add: in_carriers)
  then obtain M where "carriers a (dk_alive dk) = add_mset x M" by (blast dest: multi_member_split)
  with fate show one: "carriers a (dk_alive dk) = {#x#}" by (simp add: fate_ok_def)
  with fate show "dk_answers dk ! a = Open \<or> dk_answers dk ! a = Deaf" "a \<notin> replied dk"
    by (simp_all add: fate_ok_def)
  show "\<forall>ar \<in> set (dk_results dk). fst ar \<noteq> a"
  proof
    fix ar
    assume "ar \<in> set (dk_results dk)"
    with ok have "result_ok dk ar" by (simp add: desk_ok_def)
    with one show "fst ar \<noteq> a" by (auto simp: result_ok_def)
  qed
qed

lemma parcel_typed_ok: "desk_ok ok dk \<Longrightarrow> x \<in># dk_alive dk \<Longrightarrow> ok x"
  using alive_ok by (fastforce simp: parcel_ok_def)

text \<open>A parcel that leaves, unanswered or refused.\<close>

lemma leave_ok:
  assumes ok: "desk_ok ok dk" and alive: "dk_alive dk = add_mset x (dk_alive dk')"
    and parts: "\<And>b. parcel_answer x \<noteq> Some b \<Longrightarrow> carriers b (dk_asking dk') = carriers b (dk_asking dk) \<and>
      carriers b (dk_waiting dk') = carriers b (dk_waiting dk) \<and> carriers b (dk_handling dk') = carriers b (dk_handling dk)"
    and same: "dk_asked dk' = dk_asked dk" "dk_pulled dk' = dk_pulled dk" "dk_replies dk' = dk_replies dk"
    and len: "length (dk_answers dk') = length (dk_answers dk)"
    and answers: "\<forall>b < length (dk_answers dk). parcel_answer x \<noteq> Some b \<longrightarrow> dk_answers dk' ! b = dk_answers dk ! b"
      "\<forall>a. parcel_answer x = Some a \<longrightarrow> dk_answers dk' ! a = Deaf \<or> dk_answers dk' ! a = Abandoned"
    and results: "dk_results dk' = dk_results dk @ new"
      "\<forall>ar \<in> set new. parcel_answer x = Some (fst ar) \<and> dk_answers dk' ! fst ar = Deaf \<and>
        (\<exists>e. snd ar = Inl (SendFailed e)) \<and> x \<in># dk_asking dk"
      "distinct (map fst new)"
  shows "desk_ok ok dk'"
proof -
  have x: "x \<in># dk_alive dk" using alive by simp
  have gone: "carriers a (dk_alive dk') = {#}" if "parcel_answer x = Some a" for a
    using parcel_facts(3) [OF ok x that] alive that by simp
  have replied: "replied dk' = replied dk" by (simp add: replied_def same)
  have pulled: "pulled_for dk' = pulled_for dk" by (simp add: fun_eq_iff pulled_for_def same)
  have news: "\<forall>ar \<in> set new. result_ok dk' ar \<and> fst ar \<notin> fst ` set (dk_results dk)"
  proof
    fix ar
    assume "ar \<in> set new"
    with results(2) obtain e where ar: "parcel_answer x = Some (fst ar)" "dk_answers dk' ! fst ar = Deaf"
        "snd ar = Inl (SendFailed e)" "x \<in># dk_asking dk"
      by blast
    note facts = parcel_facts [OF ok x ar(1)]
    have "x \<in># carriers (fst ar) (dk_asking dk)" using ar by (simp add: in_carriers)
    with facts(2) have "\<not> pulled_for dk (fst ar)" by (auto simp: fate_ok_def)
    then have "result_ok dk' ar"
      using ar facts(1,5) gone [OF ar(1)] same len replied pulled by (simp add: result_ok_def)
    with facts(6) show "result_ok dk' ar \<and> fst ar \<notin> fst ` set (dk_results dk)" by auto
  qed
  show ?thesis
  proof (rule desk_ok_touch [OF ok same(1) len, where a = "parcel_answer x" and new = new])
    show "\<And>y. y \<in># dk_alive dk' \<Longrightarrow> parcel_ok ok dk y" using alive alive_ok [OF ok] by simp
    show "set (dk_pulled dk') \<subseteq> set (dk_pulled dk) \<union> set_mset (dk_alive dk)" by (simp add: same)
    show "\<forall>b<length (dk_answers dk). parcel_answer x \<noteq> Some b \<longrightarrow> same_fate dk dk' b"
      using parts answers(1) same by (simp add: same_fate_def)
    show "\<forall>b. parcel_answer x = Some b \<longrightarrow> b < length (dk_answers dk) \<longrightarrow> fate_ok dk' b"
    proof (intro allI impI)
      fix b
      assume b: "parcel_answer x = Some b" "b < length (dk_answers dk)"
      note facts = parcel_facts [OF ok x b(1)]
      note gone_b = gone [OF b(1), unfolded dk_alive_def carriers_simps]
      from answers(2) b(1) consider "dk_answers dk' ! b = Deaf" | "dk_answers dk' ! b = Abandoned" by blast
      then show "fate_ok dk' b"
        using b facts(2,5) gone [OF b(1)] gone_b by cases (simp_all add: fate_ok_def same replied)
    qed
    show "replied dk' \<subseteq> {..<length (dk_answers dk)}" "distinct (map fst (dk_replies dk'))"
      using ok replied same(3) by (simp_all add: desk_ok_def)
    show "dk_results dk' = dk_results dk @ new" by (rule results(1))
    show "\<forall>ar\<in>set (dk_results dk). parcel_answer x = Some (fst ar) \<longrightarrow> result_ok dk' ar"
      using parcel_facts(6) [OF ok x] by blast
    show "distinct (map fst (dk_results dk'))"
      unfolding results(1)
    proof (rule distinct_fst_append)
      show "distinct (map fst (dk_results dk))" using ok unfolding desk_ok_def by blast
      show "distinct (map fst new)" by (rule results(3))
      show "\<forall>y\<in>set new. fst y \<notin> fst ` set (dk_results dk)" using news by simp
    qed
    show "\<forall>ar\<in>set new. result_ok dk' ar" using news by blast
  qed
qed

text \<open>A sender that answers.\<close>

lemma reply_ok:
  assumes ok: "desk_ok ok dk" and w: "dk_handling dk = add_mset x w" and a: "parcel_answer x = Some a"
  shows "desk_ok ok (dk\<lparr>dk_handling := w, dk_answers := (dk_answers dk)[a := answer_state v (dk_answers dk ! a)],
      dk_replies := dk_replies dk @ [(a, v)]\<rparr>)" (is "desk_ok ok ?dk")
proof -
  have x: "x \<in># dk_alive dk" using w by (simp add: dk_alive_def)
  note facts = parcel_facts [OF ok x a]
  have alive: "dk_alive dk = add_mset x (dk_alive ?dk)" by (simp add: dk_alive_def w)
  with facts(3) a have gone: "carriers a (dk_alive ?dk) = {#}" by simp
  have parts: "carriers a (dk_asking dk) = {#}" "carriers a (dk_waiting dk) = {#}" "carriers a w = {#}"
    using gone by (simp_all add: dk_alive_def)
  have pulled: "dk_asked dk ! a \<in> set (dk_pulled dk)" using facts(2) a by (simp add: fate_ok_def w)
  have replied: "replied ?dk = insert a (replied dk)" by (simp add: replied_def)
  show ?thesis
  proof (rule desk_ok_touch [OF ok, where a = "Some a" and new = "[]"])
    show "\<And>y. y \<in># dk_alive ?dk \<Longrightarrow> parcel_ok ok dk y" using alive alive_ok [OF ok] by simp
    show "\<forall>b<length (dk_answers dk). Some a \<noteq> Some b \<longrightarrow> same_fate dk ?dk b"
      using a by (auto simp: same_fate_def w)
    show "\<forall>b. Some a = Some b \<longrightarrow> b < length (dk_answers dk) \<longrightarrow> fate_ok ?dk b"
      using facts(1,2,4) gone parts pulled by (auto simp: fate_ok_def replied)
    show "replied ?dk \<subseteq> {..<length (dk_answers dk)}" using ok facts(1) replied by (simp add: desk_ok_def)
    show "distinct (map fst (dk_replies ?dk))" using ok facts(5) by (simp add: desk_ok_def replied_def)
    show "\<forall>ar\<in>set (dk_results dk). Some a = Some (fst ar) \<longrightarrow> result_ok ?dk ar" using facts(6) by auto
    show "distinct (map fst (dk_results ?dk))" using ok by (simp add: desk_ok_def)
  qed simp_all
qed

text \<open>
  A parcel that moves: it is posted, pulled, or forwarded as another parcel with the same sender.
\<close>

lemma move_ok:
  assumes ok: "desk_ok ok dk" and alive: "dk_alive dk = add_mset x M" "dk_alive dk' = add_mset y M"
    and y: "ok y" "parcel_answer y = parcel_answer x"
    and parts: "\<And>b. parcel_answer x \<noteq> Some b \<Longrightarrow> carriers b (dk_asking dk') = carriers b (dk_asking dk) \<and>
      carriers b (dk_waiting dk') = carriers b (dk_waiting dk) \<and> carriers b (dk_handling dk') = carriers b (dk_handling dk)"
    and same: "dk_asked dk' = dk_asked dk" "dk_answers dk' = dk_answers dk" "dk_replies dk' = dk_replies dk"
      "dk_results dk' = dk_results dk"
    and pulled: "dk_pulled dk' = dk_pulled dk @ new" "\<forall>z \<in> set new. z = x"
    and asking: "\<And>a. parcel_answer x = Some a \<Longrightarrow> carriers a (dk_asking dk') = {#}"
    and waiting: "\<And>a. parcel_answer x = Some a \<Longrightarrow> fate_ok dk a \<Longrightarrow>
      (carriers a (dk_waiting dk') = {#} \<or> carriers a (dk_waiting dk') = {#y#} \<and>
        (y = dk_asked dk ! a \<or> dk_asked dk ! a \<in> set (dk_pulled dk'))) \<and>
      (carriers a (dk_handling dk') \<noteq> {#} \<longrightarrow> dk_asked dk ! a \<in> set (dk_pulled dk'))"
  shows "desk_ok ok dk'"
proof -
  have x: "x \<in># dk_alive dk" using alive(1) by simp
  have replied: "replied dk' = replied dk" by (simp add: replied_def same)
  show ?thesis
  proof (rule desk_ok_touch [OF ok, where a = "parcel_answer x" and new = "[]"])
    have "parcel_ok ok dk y" using alive_ok [OF ok x] y by (simp add: parcel_ok_def)
    then show "\<And>z. z \<in># dk_alive dk' \<Longrightarrow> parcel_ok ok dk z"
      using alive alive_ok [OF ok] by auto
    show "set (dk_pulled dk') \<subseteq> set (dk_pulled dk) \<union> set_mset (dk_alive dk)" using pulled x by auto
    show "\<forall>b<length (dk_answers dk). parcel_answer x \<noteq> Some b \<longrightarrow> same_fate dk dk' b"
      using parts pulled same by (auto simp: same_fate_def)
    show "\<forall>b. parcel_answer x = Some b \<longrightarrow> b < length (dk_answers dk) \<longrightarrow> fate_ok dk' b"
    proof (intro allI impI)
      fix b
      assume b: "parcel_answer x = Some b"
      note facts = parcel_facts [OF ok x b]
      have one: "carriers b (dk_alive dk') = {#y#}" using facts(3) alive y(2) b by simp
      note new_waiting = waiting [OF b facts(2)] and new_asking = asking [OF b]
      have "\<forall>z \<in># carriers b (dk_waiting dk'). z = dk_asked dk ! b \<or> dk_asked dk ! b \<in> set (dk_pulled dk')"
        using new_waiting by auto
      with new_waiting new_asking facts(1,2,4,5) one show "fate_ok dk' b"
        unfolding fate_ok_def same replied by auto
    qed
    show "\<forall>ar\<in>set (dk_results dk). parcel_answer x = Some (fst ar) \<longrightarrow> result_ok dk' ar"
      using parcel_facts(6) [OF ok x] by blast
  qed (use ok in \<open>simp_all add: desk_ok_def replied same\<close>)
qed

lemma post_ok:
  assumes ok: "desk_ok ok dk" and w: "dk_asking dk = add_mset x w"
  shows "desk_ok ok (dk\<lparr>dk_asking := w, dk_waiting := add_mset x (dk_waiting dk)\<rparr>)" (is "desk_ok ok ?dk")
proof -
  have x: "x \<in># dk_alive dk" using w by (simp add: dk_alive_def)
  note facts = parcel_facts [OF ok x]
  show ?thesis
  proof (rule move_ok [OF ok, where x = x and y = x and M = "w + dk_waiting dk + dk_handling dk" and new = "[]"])
    show "carriers a (dk_asking ?dk) = {#}" if "parcel_answer x = Some a" for a
      using facts(3) [OF that] that by (simp add: dk_alive_def w)
    show "(carriers a (dk_waiting ?dk) = {#} \<or> carriers a (dk_waiting ?dk) = {#x#} \<and>
        (x = dk_asked dk ! a \<or> dk_asked dk ! a \<in> set (dk_pulled ?dk))) \<and>
      (carriers a (dk_handling ?dk) \<noteq> {#} \<longrightarrow> dk_asked dk ! a \<in> set (dk_pulled ?dk))"
      if "parcel_answer x = Some a" "fate_ok dk a" for a
      using facts(3) [OF that(1)] that by (auto simp: dk_alive_def w fate_ok_def)
  qed (use parcel_typed_ok [OF ok x] in \<open>simp_all add: dk_alive_def w\<close>)
qed

lemma pull_ok:
  assumes ok: "desk_ok ok dk" and w: "dk_waiting dk = add_mset x w"
  shows "desk_ok ok (dk\<lparr>dk_waiting := w, dk_handling := add_mset x (dk_handling dk),
      dk_pulled := dk_pulled dk @ [x]\<rparr>)" (is "desk_ok ok ?dk")
proof -
  have x: "x \<in># dk_alive dk" using w by (simp add: dk_alive_def)
  note facts = parcel_facts [OF ok x]
  show ?thesis
  proof (rule move_ok [OF ok, where x = x and y = x and M = "dk_asking dk + w + dk_handling dk" and new = "[x]"])
    show "carriers a (dk_asking ?dk) = {#}" if "parcel_answer x = Some a" for a
      using facts(3) [OF that] that by (simp add: dk_alive_def w)
    show "(carriers a (dk_waiting ?dk) = {#} \<or> carriers a (dk_waiting ?dk) = {#x#} \<and>
        (x = dk_asked dk ! a \<or> dk_asked dk ! a \<in> set (dk_pulled ?dk))) \<and>
      (carriers a (dk_handling ?dk) \<noteq> {#} \<longrightarrow> dk_asked dk ! a \<in> set (dk_pulled ?dk))"
      if "parcel_answer x = Some a" "fate_ok dk a" for a
      using facts(3) [OF that(1)] that by (auto simp: dk_alive_def w fate_ok_def)
  qed (use parcel_typed_ok [OF ok x] in \<open>simp_all add: dk_alive_def w\<close>)
qed

lemma forward_ok:
  assumes ok: "desk_ok ok dk" and w: "dk_handling dk = add_mset x w" and y: "ok y" "parcel_answer y = parcel_answer x"
  shows "desk_ok ok (dk\<lparr>dk_handling := w, dk_waiting := add_mset y (dk_waiting dk)\<rparr>)" (is "desk_ok ok ?dk")
proof -
  have x: "x \<in># dk_alive dk" using w by (simp add: dk_alive_def)
  note facts = parcel_facts [OF ok x]
  show ?thesis
  proof (rule move_ok [OF ok, where x = x and y = y and M = "dk_asking dk + dk_waiting dk + w" and new = "[]"])
    show "carriers a (dk_asking ?dk) = {#}" if "parcel_answer x = Some a" for a
      using facts(3) [OF that] that by (simp add: dk_alive_def w)
    show "(carriers a (dk_waiting ?dk) = {#} \<or> carriers a (dk_waiting ?dk) = {#y#} \<and>
        (y = dk_asked dk ! a \<or> dk_asked dk ! a \<in> set (dk_pulled ?dk))) \<and>
      (carriers a (dk_handling ?dk) \<noteq> {#} \<longrightarrow> dk_asked dk ! a \<in> set (dk_pulled ?dk))"
      if "parcel_answer x = Some a" "fate_ok dk a" for a
      using facts(3) [OF that(1)] that y(2) by (auto simp: dk_alive_def w fate_ok_def)
  qed (use y in \<open>simp_all add: dk_alive_def w\<close>)
qed

text \<open>A receiver that takes what there is, or hangs up.\<close>

lemma deafen_ok:
  assumes ok: "desk_ok ok dk" and a: "a < length (dk_answers dk)"
    and new: "new = [] \<or> (\<exists>v. dk_answers dk ! a = Answered v \<and> new = [(a, Inr v)]) \<or>
      dk_answers dk ! a = Abandoned \<and> new = [(a, Inl NoReply)]"
  shows "desk_ok ok (dk\<lparr>dk_answers := (dk_answers dk)[a := Deaf], dk_results := dk_results dk @ new\<rparr>)"
    (is "desk_ok ok ?dk")
proof -
  have fate: "fate_ok dk a" using ok a by (simp add: desk_ok_def)
  have news: "\<forall>ar \<in> set new. result_ok ?dk ar \<and> fst ar \<notin> fst ` set (dk_results dk)"
  proof
    fix ar
    assume "ar \<in> set new"
    with new have ar: "fst ar = a" "dk_answers dk ! a \<noteq> Deaf" "dk_answers dk ! a \<noteq> Open" by auto
    with fate have "carriers a (dk_alive dk) = {#}" by (auto simp: fate_ok_def)
    with \<open>ar \<in> set new\<close> new fate a have "result_ok ?dk ar"
      by (auto simp: result_ok_def fate_ok_def)
    moreover have "a \<notin> fst ` set (dk_results dk)"
      using ok ar(2) by (auto simp: desk_ok_def result_ok_def)
    ultimately show "result_ok ?dk ar \<and> fst ar \<notin> fst ` set (dk_results dk)" using ar(1) by simp
  qed
  show ?thesis
  proof (rule desk_ok_touch [OF ok, where a = "Some a" and new = new])
    show "\<forall>b<length (dk_answers dk). Some a \<noteq> Some b \<longrightarrow> same_fate dk ?dk b" by (simp add: same_fate_def)
    show "\<And>y. y \<in># dk_alive ?dk \<Longrightarrow> parcel_ok ok dk y" using alive_ok [OF ok] by (simp add: dk_alive_def)
    show "\<forall>b. Some a = Some b \<longrightarrow> b < length (dk_answers dk) \<longrightarrow> fate_ok ?dk b"
      using fate by (auto simp: fate_ok_def dk_alive_def pulled_for_def replied_def)
    show "\<forall>ar\<in>set (dk_results dk). Some a = Some (fst ar) \<longrightarrow> result_ok ?dk ar"
    proof (intro ballI impI)
      fix ar
      assume "ar \<in> set (dk_results dk)" "Some a = Some (fst ar)"
      moreover from this(1) ok have "result_ok dk ar" unfolding desk_ok_def by blast
      ultimately show "result_ok ?dk ar" using a by (simp add: result_ok_def dk_alive_def pulled_for_def replied_def split: sum.splits AskError.splits)
    qed
    show "distinct (map fst (dk_results ?dk))" proof -
      have "distinct (map fst (dk_results dk))" using ok unfolding desk_ok_def by blast
      moreover have "distinct (map fst new)" using new by auto
      moreover have "\<forall>y\<in>set new. fst y \<notin> fst ` set (dk_results dk)" using news by simp
      ultimately have "distinct (map fst (dk_results dk @ new))" by (rule distinct_fst_append)
      then show ?thesis by simp
    qed
    show "\<forall>ar\<in>set new. result_ok ?dk ar" using news by blast
  qed (use ok in \<open>simp_all add: desk_ok_def\<close>)
qed


text \<open>A new message, with an answer channel of its own if it is an ask.\<close>

lemma tell_ok:
  assumes ok: "desk_ok ok dk" and x: "ok x" "parcel_answer x = None"
  shows "desk_ok ok (dk\<lparr>dk_waiting := add_mset x (dk_waiting dk)\<rparr>)" (is "desk_ok ok ?dk")
proof (rule desk_ok_touch [OF ok, where a = None and new = "[]"])
  show "\<And>y. y \<in># dk_alive ?dk \<Longrightarrow> parcel_ok ok dk y"
    using alive_ok [OF ok] x by (auto simp: dk_alive_def parcel_ok_def)
  show "\<forall>b<length (dk_answers dk). None \<noteq> Some b \<longrightarrow> same_fate dk ?dk b" using x by (simp add: same_fate_def)
qed (use ok in \<open>simp_all add: desk_ok_def replied_def\<close>)

lemma ask_ok:
  assumes ok: "desk_ok ok dk" and x: "ok x" "parcel_answer x = Some (length (dk_answers dk))"
  shows "desk_ok ok (dk\<lparr>dk_asking := add_mset x (dk_asking dk), dk_answers := dk_answers dk @ [Open],
      dk_asked := dk_asked dk @ [x]\<rparr>)" (is "desk_ok ok ?dk")
proof -
  let ?n = "length (dk_answers dk)"
  have len: "length (dk_asked dk) = ?n" using ok unfolding desk_ok_def by blast
  have alive: "dk_alive ?dk = add_mset x (dk_alive dk)" by (simp add: dk_alive_def)
  have replied: "replied ?dk = replied dk" by (simp add: replied_def)
  have fresh: "\<not> parcel_ok ok dk y" if "parcel_answer y = Some ?n" for y using that by (simp add: parcel_ok_def)
  have none: "carriers ?n (dk_alive dk) = {#}"
  proof (rule ccontr)
    assume "carriers ?n (dk_alive dk) \<noteq> {#}"
    then obtain y where "y \<in># carriers ?n (dk_alive dk)" by blast
    then have y: "y \<in># dk_alive dk" "parcel_answer y = Some ?n" by (simp_all add: in_carriers)
    from fresh [OF y(2)] alive_ok [OF ok y(1)] show False by blast
  qed
  have unpulled: "\<not> pulled_for dk ?n" using ok fresh unfolding desk_ok_def pulled_for_def by blast
  have rep: "replied dk \<subseteq> {..<?n}" using ok unfolding desk_ok_def by blast
  then have norep: "?n \<notin> replied dk" by auto
  have same: "same_fate dk ?dk b" if "b < ?n" for b
    using x(2) that len by (simp add: same_fate_def nth_append)
  have fates: "fate_ok ?dk b" if "b < length (dk_answers ?dk)" for b
  proof (cases "b < ?n")
    case True
    from same_fate_ok(1) [OF same [OF True]] ok True show ?thesis unfolding desk_ok_def by blast
  next
    case False
    with that have b: "b = ?n" by simp
    have "(dk_asked dk @ [x]) ! ?n = x" using len by (metis nth_append_length)
    with b x(2) none unpulled norep show ?thesis
      by (simp add: fate_ok_def alive replied dk_alive_def pulled_for_def)
  qed
  have results: "result_ok ?dk ar" if "ar \<in> set (dk_results dk)" for ar
  proof -
    from that ok have r: "result_ok dk ar" unfolding desk_ok_def by blast
    then have "fst ar < ?n" by (simp add: result_ok_def)
    from same_fate_ok(2) [OF same [OF this] refl _ r] show ?thesis by simp
  qed
  have old: "parcel_ok ok ?dk y" if "parcel_ok ok dk y" for y
    using that by (auto simp: parcel_ok_def)
  moreover have "parcel_ok ok ?dk x" using x by (simp add: parcel_ok_def)
  ultimately have "\<forall>y. y \<in># dk_alive ?dk \<longrightarrow> parcel_ok ok ?dk y" "\<forall>y\<in>set (dk_pulled ?dk). parcel_ok ok ?dk y"
    using ok unfolding desk_ok_def alive by auto
  moreover have "replied ?dk \<subseteq> {..<length (dk_answers ?dk)}" using rep replied by auto
  ultimately show ?thesis
    using ok len fates results unfolding desk_ok_def by simp
qed

theorem desk_step_ok:
  assumes "desk_step ok dk dk'" "desk_ok ok dk"
  shows "desk_ok ok dk'"
  using assms(1)
proof cases
  case (refuse x w a e)
  then have "a < length (dk_answers dk)"
    using parcel_facts(1) [OF assms(2), of x a] by (simp add: dk_alive_def)
  with refuse show ?thesis
    by (intro leave_ok [OF assms(2), where x = x and new = "[(a, Inl (SendFailed e))]"])
      (auto simp: dk_alive_def)
next
  case (withdraw x w)
  show ?thesis
  proof (rule leave_ok [OF assms(2), where x = x and new = "[]"])
    show "\<forall>a. parcel_answer x = Some a \<longrightarrow> dk_answers dk' ! a = Deaf \<or> dk_answers dk' ! a = Abandoned"
      using parcel_facts(1,4) [OF assms(2), of x] withdraw by (auto simp: abandon_nth dk_alive_def)
  qed (use withdraw in \<open>auto simp: dk_alive_def abandon_nth\<close>)
next
  case (discard x w)
  show ?thesis
  proof (rule leave_ok [OF assms(2), where x = x and new = "[]"])
    show "\<forall>a. parcel_answer x = Some a \<longrightarrow> dk_answers dk' ! a = Deaf \<or> dk_answers dk' ! a = Abandoned"
      using parcel_facts(1,4) [OF assms(2), of x] discard by (auto simp: abandon_nth dk_alive_def)
  qed (use discard in \<open>auto simp: dk_alive_def abandon_nth\<close>)
next
  case (ignore x w)
  show ?thesis
  proof (rule leave_ok [OF assms(2), where x = x and new = "[]"])
    show "\<forall>a. parcel_answer x = Some a \<longrightarrow> dk_answers dk' ! a = Deaf \<or> dk_answers dk' ! a = Abandoned"
      using parcel_facts(1,4) [OF assms(2), of x] ignore by (auto simp: abandon_nth dk_alive_def)
  qed (use ignore in \<open>auto simp: dk_alive_def abandon_nth\<close>)
next
  case (take a v)
  with deafen_ok [OF assms(2), of a "[(a, Inr v)]"] show ?thesis by simp
next
  case (no_reply a)
  with deafen_ok [OF assms(2), of a "[(a, Inl NoReply)]"] show ?thesis by simp
next
  case (hang_up a)
  with deafen_ok [OF assms(2), of a "[]"] show ?thesis by simp
qed (use tell_ok [OF assms(2)] ask_ok [OF assms(2)] post_ok [OF assms(2)] pull_ok [OF assms(2)]
    reply_ok [OF assms(2)] forward_ok [OF assms(2)] in simp_all)

lemma desk_steps_ok: "(desk_step ok)\<^sup>*\<^sup>* dk dk' \<Longrightarrow> desk_ok ok dk \<Longrightarrow> desk_ok ok dk'"
  by (induction rule: rtranclp_induct) (auto intro: desk_step_ok)

end
