(* ===== verification/Calls_Safety.thy ===== *)
theory Calls_Safety
  imports Calls_Desk
begin

text \<open>
  Calls as the code makes them are a desk: what is still in a future or queued waits, and every step
  of the system is at most two steps of the desk.
\<close>

section \<open>Channels as multisets of messages\<close>

lemma lanes_backlog_lanes:
  "lanes_backlog contents ch = concat (map (lane_contents contents ch) [0..<length (ml_lanes ch)])"
  unfolding lanes_backlog_def lane_contents_def
  by (rule arg_cong [of _ _ concat]) (auto intro: nth_equalityI)

lemma mset_concat_upt:
  "mset (concat (map f [0..<n])) = (\<Sum>i<n. mset (f i))"
  by (induction n) (simp_all add: add.commute)

lemma lanes_backlog_add:
  assumes "i < length (ml_lanes ch)" "length (ml_lanes ch') = length (ml_lanes ch)"
    and "lane_contents contents ch' i = lane_contents contents ch i @ [m]"
    and "\<And>j. j < length (ml_lanes ch) \<Longrightarrow> j \<noteq> i \<Longrightarrow> lane_contents contents ch' j = lane_contents contents ch j"
  shows "mset (lanes_backlog contents ch') = add_mset m (mset (lanes_backlog contents ch))"
proof -
  let ?n = "length (ml_lanes ch)"
  have "(\<Sum>j<?n. mset (lane_contents contents ch' j)) =
      mset (lane_contents contents ch' i) + (\<Sum>j\<in>{..<?n} - {i}. mset (lane_contents contents ch' j))"
    using assms(1) by (simp add: sum.remove)
  also have "\<dots> = add_mset m (mset (lane_contents contents ch i)) +
      (\<Sum>j\<in>{..<?n} - {i}. mset (lane_contents contents ch j))"
    using assms(3,4) by simp
  also have "\<dots> = add_mset m (\<Sum>j<?n. mset (lane_contents contents ch j))"
    using assms(1) by (simp add: sum.remove [of _ i])
  finally show ?thesis using assms(2) by (simp add: lanes_backlog_lanes mset_concat_upt)
qed

definition same_lanes :: "('q, 'm) multilane \<Rightarrow> ('q, 'm) multilane \<Rightarrow> bool" where
  "same_lanes ch ch' \<longleftrightarrow> length (ml_lanes ch') = length (ml_lanes ch) \<and> ml_priority ch' = ml_priority ch"

lemma same_lanes_refl [simp]: "same_lanes ch ch"
  by (simp add: same_lanes_def)

lemma prepare_send_same: "same_lanes ch ch' \<Longrightarrow> prepare_send ch' m = prepare_send ch m"
  by (simp add: same_lanes_def prepare_send_def Let_def)

context mpsc_queue
begin

lemma poll_send_cases:
  assumes "lanes_ok capacity ch" "s = prepare_send ch m"
  shows "poll_send ops is_sendable ch s = (Pending, ch) \<or>
    (\<exists>e. poll_send ops is_sendable ch s = (Ready (Inl e), ch)) \<or>
    (\<exists>ch'. poll_send ops is_sendable ch s = (Ready (Inr ()), ch') \<and> lanes_ok capacity ch' \<and> same_lanes ch ch' \<and>
      mset (lanes_backlog contents ch') = add_mset m (mset (lanes_backlog contents ch)))"
proof -
  obtain ch' where send: "try_send ops is_sendable ch (prepare_send ch m) =
       (send_answer contents closed capacity is_sendable ch m, ch')"
    "send_answer contents closed capacity is_sendable ch m \<noteq> Inr () \<Longrightarrow> ch' = ch"
    "send_answer contents closed capacity is_sendable ch m = Inr () \<Longrightarrow>
       lane_contents contents ch' (ml_priority ch m) = lane_contents contents ch (ml_priority ch m) @ [m]"
    "\<And>j. j < length (ml_lanes ch) \<Longrightarrow> j \<noteq> ml_priority ch m \<Longrightarrow>
       lane_contents contents ch' j = lane_contents contents ch j"
    "length (ml_lanes ch') = length (ml_lanes ch)" "ml_priority ch' = ml_priority ch" "lanes_ok capacity ch'"
    using try_send_answer [OF assms(1), of is_sendable m] by metis
  note poll = poll_send_try_send [OF assms(1), of is_sendable m, folded assms(2), unfolded send(1) [folded assms(2)]]
  show ?thesis
  proof (cases "send_answer contents closed capacity is_sendable ch m")
    case (Inl e)
    with poll send(2) show ?thesis by (cases "e = MailboxFull") auto
  next
    case (Inr u)
    then have "ml_priority ch m < length (ml_lanes ch)"
      by (simp add: send_answer_def Let_def split: if_splits)
    from lanes_backlog_add [OF this send(5) send(3) send(4)] Inr poll send(5-7) show ?thesis
      by (auto simp: same_lanes_def)
  qed
qed

lemma try_send_cases:
  assumes "lanes_ok capacity ch" "s = prepare_send ch m"
  shows "(\<exists>e. try_send ops is_sendable ch s = (Inl e, ch)) \<or>
    (\<exists>ch'. try_send ops is_sendable ch s = (Inr (), ch') \<and> lanes_ok capacity ch' \<and> same_lanes ch ch' \<and>
      mset (lanes_backlog contents ch') = add_mset m (mset (lanes_backlog contents ch)))"
proof (cases "try_send ops is_sendable ch s")
  case (Pair r ch')
  have "poll_send ops is_sendable ch s = (if r = Inl MailboxFull then Pending else Ready r, ch')"
    using poll_send_try_send [OF assms(1), of is_sendable m, folded assms(2)] Pair by simp
  with poll_send_cases [OF assms, of is_sendable] Pair show ?thesis by (auto split: if_splits)
qed

lemma poll_lanes_shape:
  "poll_lanes ops n e ls = (r, ls') \<Longrightarrow> list_all (lane_ok capacity) ls \<Longrightarrow>
     length ls' = length ls \<and> list_all (lane_ok capacity) ls'"
proof (induction ls arbitrary: e r ls')
  case (Cons l ls)
  have ok: "lane_ok capacity l" "list_all (lane_ok capacity) ls" using Cons.prems(2) by simp_all
  show ?case
  proof (cases "contents (lane_queue l)")
    case (Cons m ms)
    from recv_next [OF Cons] obtain q where "mp_poll_recv ops (lane_queue l) = (Ready (Some m), q)"
        "capacity q = capacity (lane_queue l)"
      by blast
    with Cons.prems(1) ok lane_ok_with_queue show ?thesis by auto
  next
    case Nil
    from recv_empty [OF Nil] obtain q where q: "mp_poll_recv ops (lane_queue l) =
        (if closed (lane_queue l) then Ready None else Pending, q)" "capacity q = capacity (lane_queue l)"
      by blast
    obtain r1 ls1 r2 ls2 where "poll_lanes ops n (e + 1) ls = (r1, ls1)" "poll_lanes ops n e ls = (r2, ls2)" by fastforce
    with Cons.IH [OF this(1) ok(2)] Cons.IH [OF this(2) ok(2)] Cons.prems(1) q ok lane_ok_with_queue show ?thesis
      by (auto simp: Let_def split: if_splits)
  qed
qed auto

lemma poll_receive_shape:
  assumes "poll_receive ops ch = (r, ch')" "lanes_ok capacity ch"
  shows "lanes_ok capacity ch'" "same_lanes ch ch'"
proof -
  obtain ls where "poll_lanes ops (length (ml_lanes ch)) 0 (ml_lanes ch) = (r, ls)" "ch' = ch\<lparr>ml_lanes := ls\<rparr>"
    using assms(1) by (auto simp: poll_receive_def split: prod.splits)
  with poll_lanes_shape [OF this(1)] assms(2) show "lanes_ok capacity ch'" "same_lanes ch ch'"
    by (auto simp: lanes_ok_def same_lanes_def)
qed

lemma poll_receive_cases:
  assumes "lanes_ok capacity ch"
  shows "(\<exists>m ch'. poll_receive ops ch = (Ready (Some m), ch') \<and> lanes_ok capacity ch' \<and> same_lanes ch ch' \<and>
      mset (lanes_backlog contents ch) = add_mset m (mset (lanes_backlog contents ch'))) \<or>
    (\<exists>r ch'. poll_receive ops ch = (r, ch') \<and> (\<forall>m. r \<noteq> Ready (Some m)) \<and> lanes_ok capacity ch' \<and> same_lanes ch ch' \<and>
      mset (lanes_backlog contents ch') = mset (lanes_backlog contents ch))"
proof (cases "lanes_backlog contents ch")
  case Nil
  from mailbox.receive_empty [OF Nil] obtain ch' where
      "poll_receive ops ch = (if lanes_refuse closed ch then Ready None else Pending, ch')"
      "lanes_backlog contents ch' = []"
    by blast
  with poll_receive_shape [OF this(1) assms] Nil show ?thesis by auto
next
  case (Cons m ms)
  from mailbox.receive_next [OF Cons] obtain ch' where
      "poll_receive ops ch = (Ready (Some m), ch')" "lanes_backlog contents ch' = ms"
    by blast
  with poll_receive_shape [OF this(1) assms] Cons show ?thesis by auto
qed

lemma close_mailbox_shape:
  assumes "lanes_ok capacity ch"
  shows "lanes_ok capacity (close_mailbox ops ch)" "same_lanes ch (close_mailbox ops ch)"
  using assms
  by (auto simp: lanes_ok_def same_lanes_def close_mailbox_def list_all_iff close_queue intro: lane_ok_with_queue)

end


section \<open>Answer channels by their state\<close>

context oneshot_channel
begin

lemma map_drop_message:
  assumes "\<forall>a. dm_answer d = Some a \<longrightarrow> a < length answers \<and> (state (answers ! a) = Open \<or> state (answers ! a) = Deaf)"
  shows "map state (drop_message ops d answers) = abandon (i, d) (map state answers)"
  using assms drop_sender
  by (auto simp: drop_message_def abandon_def map_update split: option.splits)

lemma map_hang_up: "a < length answers \<Longrightarrow> map state (hang_up ops a answers) = (map state answers)[a := Deaf]"
  by (simp add: hang_up_def map_update drop_receiver)

lemma answer_send_state:
  assumes "state c = Open \<or> state c = Deaf"
  shows "\<exists>r c'. answer_send ops c v = (r, c') \<and> state c' = answer_state v (state c)"
  using assms send_open [of c v] send_deaf [of c v] by (auto simp: answer_send_def)

lemma poll_reply_cases:
  assumes "a < length answers" "state (answers ! a) \<noteq> Deaf"
  shows "(\<exists>answers'. poll_reply ops a answers = (Pending, answers') \<and> state (answers ! a) = Open \<and>
      map state answers' = map state answers) \<or>
    (\<exists>answers' v. poll_reply ops a answers = (Ready (Inr v), answers') \<and> state (answers ! a) = Answered v \<and>
      map state answers' = (map state answers)[a := Deaf]) \<or>
    (\<exists>answers'. poll_reply ops a answers = (Ready (Inl NoReply), answers') \<and> state (answers ! a) = Abandoned \<and>
      map state answers' = (map state answers)[a := Deaf])"
proof (cases "state (answers ! a)")
  case Open
  from poll_open [OF this] obtain c where "os_poll ops (answers ! a) = (Pending, c)" "state c = Open" by blast
  with assms(1) Open show ?thesis
    by (auto simp: poll_reply_def answer_poll_def map_update intro!: list_update_same_conv [THEN iffD2])
next
  case (Answered v)
  from poll_answered [OF this] obtain c where "os_poll ops (answers ! a) = (Ready (Inr v), c)" by blast
  with assms(1) Answered show ?thesis
    by (auto simp: poll_reply_def answer_poll_def map_hang_up map_update)
next
  case Abandoned
  from poll_abandoned [OF this] obtain c where "os_poll ops (answers ! a) = (Ready (Inl ()), c)" by blast
  with assms(1) Abandoned show ?thesis
    by (auto simp: poll_reply_def answer_poll_def map_hang_up map_update)
next
  case Deaf
  with assms(2) show ?thesis by simp
qed

end

section \<open>The system as a desk\<close>

text \<open>The message a future still has to send: of an ask, and of a tell or a forward.\<close>

definition asking_call :: "'v call \<Rightarrow> 'v parcel multiset" where
  "asking_call c =
     (case ca_future c of
        ExchangeSending s a \<Rightarrow> {#(ca_actor c, sd_message s)#}
      | ErasedSending s receiver \<Rightarrow> {#(ca_actor c, sd_message s)#}
      | _ \<Rightarrow> {#})"

definition telling_call :: "'v call \<Rightarrow> 'v parcel multiset" where
  "telling_call c = (case ca_future c of TellSending s \<Rightarrow> {#(ca_actor c, sd_message s)#} | _ \<Rightarrow> {#})"

definition queued :: "('q \<Rightarrow> 'v DispatchedActorMessage list) \<Rightarrow> ('q, 'v) actors \<Rightarrow> 'v parcel multiset" where
  "queued contents actors =
     (\<Sum>i<length actors. image_mset (Pair i) (mset (lanes_backlog contents (channel_of actors i))))"

definition desk_of :: "('q \<Rightarrow> 'v DispatchedActorMessage list) \<Rightarrow> ('o \<Rightarrow> 'a answer_state) \<Rightarrow>
    ('q, 'o, 'v, 'a) switchboard \<Rightarrow> ('v, 'a) desk" where
  "desk_of contents state sb =
     \<lparr>dk_asking = sum_list (map asking_call (sb_calls sb)),
      dk_waiting = sum_list (map telling_call (sb_calls sb)) + queued contents (sb_actors sb),
      dk_handling = mset (sb_handling sb) + mset (sb_kept sb), dk_answers = map state (sb_answers sb), dk_asked = sb_asked sb,
      dk_pulled = sb_pulled sb, dk_replies = sb_replies sb, dk_results = sb_results sb\<rparr>"

lemma sum_list_update_mset:
  fixes f :: "'b \<Rightarrow> 'c multiset"
  assumes "j < length xs" "sum_list (map f xs) = f (xs ! j) + rest"
  shows "sum_list (map f (xs[j := y])) = f y + rest"
proof -
  have "sum_list (map f xs) = f (xs ! j) + (sum_list (map f (take j xs)) + sum_list (map f (drop (Suc j) xs)))"
    by (subst id_take_nth_drop [OF assms(1)]) (simp add: add_ac)
  with assms(2) have "rest = sum_list (map f (take j xs)) + sum_list (map f (drop (Suc j) xs))" by simp
  then show ?thesis by (simp add: upd_conv_take_nth_drop [OF assms(1)] add_ac)
qed

lemma sum_list_member_mset:
  fixes f :: "'b \<Rightarrow> 'c multiset"
  assumes "j < length xs"
  shows "\<exists>rest. sum_list (map f xs) = f (xs ! j) + rest"
proof -
  have "sum_list (map f xs) = f (xs ! j) + (sum_list (map f (take j xs)) + sum_list (map f (drop (Suc j) xs)))"
    by (subst id_take_nth_drop [OF assms(1)]) (simp add: add_ac)
  then show ?thesis by blast
qed

abbreviation with_channel :: "('q, 'v) actors \<Rightarrow> nat \<Rightarrow> ('q, 'v DispatchedActorMessage) multilane \<Rightarrow> ('q, 'v) actors" where
  "with_channel actors i ch \<equiv> actors[i := (actors ! i)\<lparr>ai_channel := ch\<rparr>]"

lemma queued_split:
  assumes "i < length actors"
  shows "\<exists>rest. \<forall>ch. queued contents (with_channel actors i ch) =
      image_mset (Pair i) (mset (lanes_backlog contents ch)) + rest"
    and "queued contents (with_channel actors i (channel_of actors i)) = queued contents actors"
proof -
  let ?f = "\<lambda>j. image_mset (Pair j) (mset (lanes_backlog contents (channel_of actors j)))"
  have "queued contents (with_channel actors i ch) =
      image_mset (Pair i) (mset (lanes_backlog contents ch)) + (\<Sum>j\<in>{..<length actors} - {i}. ?f j)" for ch
    using assms by (simp add: queued_def sum.remove [of _ i])
  then show "\<exists>rest. \<forall>ch. queued contents (with_channel actors i ch) =
      image_mset (Pair i) (mset (lanes_backlog contents ch)) + rest"
    by blast
  show "queued contents (with_channel actors i (channel_of actors i)) = queued contents actors"
    by (simp add: list_update_id)
qed

lemma queued_same:
  assumes "i < length actors"
    and "mset (lanes_backlog contents ch) = mset (lanes_backlog contents (channel_of actors i))"
  shows "queued contents (with_channel actors i ch) = queued contents actors"
proof -
  obtain rest where r: "\<forall>ch. queued contents (with_channel actors i ch) =
      image_mset (Pair i) (mset (lanes_backlog contents ch)) + rest"
    using queued_split(1) [OF assms(1)] by blast
  have "queued contents actors = image_mset (Pair i) (mset (lanes_backlog contents (channel_of actors i))) + rest"
    by (subst queued_split(2) [OF assms(1), symmetric]) (rule r [rule_format])
  with r assms(2) show ?thesis by simp
qed

lemma queued_add:
  assumes "i < length actors"
    and "mset (lanes_backlog contents ch) = add_mset d (mset (lanes_backlog contents (channel_of actors i)))"
  shows "queued contents (with_channel actors i ch) = add_mset (i, d) (queued contents actors)"
proof -
  obtain rest where r: "\<forall>ch. queued contents (with_channel actors i ch) =
      image_mset (Pair i) (mset (lanes_backlog contents ch)) + rest"
    using queued_split(1) [OF assms(1)] by blast
  have "queued contents actors = image_mset (Pair i) (mset (lanes_backlog contents (channel_of actors i))) + rest"
    by (subst queued_split(2) [OF assms(1), symmetric]) (rule r [rule_format])
  with r assms(2) show ?thesis by simp
qed

lemma queued_remove:
  assumes "i < length actors"
    and "mset (lanes_backlog contents (channel_of actors i)) = add_mset d (mset (lanes_backlog contents ch))"
  shows "queued contents actors = add_mset (i, d) (queued contents (with_channel actors i ch))"
proof -
  obtain rest where r: "\<forall>ch. queued contents (with_channel actors i ch) =
      image_mset (Pair i) (mset (lanes_backlog contents ch)) + rest"
    using queued_split(1) [OF assms(1)] by blast
  have "queued contents actors = image_mset (Pair i) (mset (lanes_backlog contents (channel_of actors i))) + rest"
    by (subst queued_split(2) [OF assms(1), symmetric]) (rule r [rule_format])
  with r assms(2) show ?thesis by simp
qed

lemma mset_drop_nth: "k < length xs \<Longrightarrow> mset xs = add_mset (xs ! k) (mset (drop_nth k xs))"
  unfolding drop_nth_def by (subst id_take_nth_drop [of k xs]) simp_all

end
