(* ===== verification/Calls_Simulation.thy ===== *)
theory Calls_Simulation
  imports Calls_Safety
begin

text \<open>
  The invariant of the system, which knows of every handle, call and message what the types promise,
  and the simulation: a step that is enabled returns, keeps the invariant, and is steps of the desk.
\<close>

section \<open>The invariant\<close>

definition handle_ok :: "program \<Rightarrow> ('q, 'v) actors \<Rightarrow> handle \<Rightarrow> bool" where
  "handle_ok pg actors h \<longleftrightarrow> identity h < length actors \<and>
     (case h of
        TypedActorHandle A i \<Rightarrow> ai_rtti (actors ! i) = A
      | AnyActorHandle i \<Rightarrow> is_shareable (pg_rtti pg (ai_rtti (actors ! i)))
      | AnyLocalActorHandle i \<Rightarrow> True
      | ProtocolHandle shared table i \<Rightarrow>
          (\<forall>(M, d) \<in> set table. d = Dispatcher (ai_rtti (actors ! i)) M) \<and>
          (shared \<longrightarrow> is_shareable (pg_rtti pg (ai_rtti (actors ! i)))))"

text \<open>What the contract of a runtime binder demands.\<close>

definition binders_ok :: "('q, 'v) actors \<Rightarrow> bool" where
  "binders_ok actors \<longleftrightarrow>
     (\<forall>i < length actors. \<forall>M d. ai_binder (actors ! i) M = Some d \<longrightarrow>
        d = Dispatcher (ai_rtti (actors ! i)) M)"

definition parcel_typed :: "('q, 'v) actors \<Rightarrow> 'v parcel \<Rightarrow> bool" where
  "parcel_typed actors x \<longleftrightarrow> fst x < length actors \<and>
     dm_dispatcher (snd x) = Dispatcher (ai_rtti (actors ! fst x)) (dm_rtti (snd x))"

definition prepared :: "('q, 'v) actors \<Rightarrow> nat \<Rightarrow> 'v DispatchedActorMessage sendable \<Rightarrow> nat option \<Rightarrow> bool" where
  "prepared actors i s answer \<longleftrightarrow>
     s = prepare_send (channel_of actors i) (sd_message s) \<and> dm_answer (sd_message s) = answer"

definition call_ok :: "('q, 'v) actors \<Rightarrow> 'v call \<Rightarrow> bool" where
  "call_ok actors c \<longleftrightarrow> ca_actor c < length actors \<and>
     (case ca_future c of
        TellSending s \<Rightarrow> prepared actors (ca_actor c) s (dm_answer (sd_message s))
      | ExchangeSending s a \<Rightarrow> prepared actors (ca_actor c) s (Some a)
      | ErasedSending s receiver \<Rightarrow> receiver \<noteq> None \<and> prepared actors (ca_actor c) s receiver
      | _ \<Rightarrow> True)"

abbreviation receiver_at :: "'v call list \<Rightarrow> nat \<Rightarrow> nat option" where
  "receiver_at calls j \<equiv> receiver_of (ca_future (calls ! j))"

definition receivers_ok :: "('o \<Rightarrow> 'a answer_state) \<Rightarrow> 'o list \<Rightarrow> 'v parcel list \<Rightarrow> 'v call list \<Rightarrow> bool" where
  "receivers_ok state answers asked calls \<longleftrightarrow>
     (\<forall>j < length calls. \<forall>a. receiver_at calls j = Some a \<longrightarrow>
        a < length answers \<and> state (answers ! a) \<noteq> Deaf \<and> fst (asked ! a) = ca_actor (calls ! j) \<and>
        (\<forall>k < length calls. receiver_at calls k = Some a \<longrightarrow> k = j))"

lemma receivers_okD:
  assumes "receivers_ok state answers asked calls" "j < length calls" "receiver_at calls j = Some a"
  shows "a < length answers" "state (answers ! a) \<noteq> Deaf" "fst (asked ! a) = ca_actor (calls ! j)"
    "\<forall>k < length calls. receiver_at calls k = Some a \<longrightarrow> k = j"
proof -
  note all = assms(1) [unfolded receivers_ok_def, THEN spec, THEN mp, OF assms(2), THEN spec, THEN mp, OF assms(3)]
  show "a < length answers" by (rule all [THEN conjunct1])
  show "state (answers ! a) \<noteq> Deaf" by (rule all [THEN conjunct2, THEN conjunct1])
  show "fst (asked ! a) = ca_actor (calls ! j)" by (rule all [THEN conjunct2, THEN conjunct2, THEN conjunct1])
  show "\<forall>k < length calls. receiver_at calls k = Some a \<longrightarrow> k = j"
    by (rule all [THEN conjunct2, THEN conjunct2, THEN conjunct2])
qed

definition board_ok :: "program \<Rightarrow> ('q \<Rightarrow> 'v DispatchedActorMessage list) \<Rightarrow> ('q \<Rightarrow> nat option) \<Rightarrow>
    ('o \<Rightarrow> 'a answer_state) \<Rightarrow> ('q, 'o, 'v, 'a) switchboard \<Rightarrow> bool" where
  "board_ok pg contents capacity state sb \<longleftrightarrow>
     binders_ok (sb_actors sb) \<and> list_all (handle_ok pg (sb_actors sb)) (sb_handles sb) \<and>
     (\<forall>i < length (sb_actors sb). lanes_ok capacity (channel_of (sb_actors sb) i)) \<and>
     list_all (call_ok (sb_actors sb)) (sb_calls sb) \<and>
     receivers_ok state (sb_answers sb) (sb_asked sb) (sb_calls sb) \<and>
     desk_ok (parcel_typed (sb_actors sb)) (desk_of contents state sb)"

lemma desk_of_simps [simp]:
  "dk_asking (desk_of contents state sb) = sum_list (map asking_call (sb_calls sb))"
  "dk_waiting (desk_of contents state sb) = sum_list (map telling_call (sb_calls sb)) + queued contents (sb_actors sb)"
  "dk_handling (desk_of contents state sb) = mset (sb_handling sb) + mset (sb_kept sb)"
  "dk_answers (desk_of contents state sb) = map state (sb_answers sb)"
  "dk_asked (desk_of contents state sb) = sb_asked sb" "dk_pulled (desk_of contents state sb) = sb_pulled sb"
  "dk_replies (desk_of contents state sb) = sb_replies sb" "dk_results (desk_of contents state sb) = sb_results sb"
  by (simp_all add: desk_of_def)

text \<open>Only the queues of an actor ever change.\<close>

definition same_actors :: "('q, 'v) actors \<Rightarrow> ('q, 'v) actors \<Rightarrow> bool" where
  "same_actors actors actors' \<longleftrightarrow> length actors' = length actors \<and>
     (\<forall>i < length actors. ai_rtti (actors' ! i) = ai_rtti (actors ! i) \<and>
        ai_binder (actors' ! i) = ai_binder (actors ! i) \<and> same_lanes (channel_of actors i) (channel_of actors' i))"

lemma same_actors_refl [simp]: "same_actors actors actors"
  by (simp add: same_actors_def)

lemma same_actors_channel:
  "same_lanes (channel_of actors i) ch \<Longrightarrow> same_actors actors (with_channel actors i ch)"
  by (cases "i < length actors") (auto simp: same_actors_def nth_list_update)

lemma same_actors_ok:
  assumes "same_actors actors actors'"
  shows "binders_ok actors' = binders_ok actors" "handle_ok pg actors' h = handle_ok pg actors h"
    "parcel_typed actors' = parcel_typed actors" "call_ok actors c \<Longrightarrow> call_ok actors' c"
proof -
  have same: "length actors' = length actors" "\<And>i. i < length actors \<Longrightarrow> ai_rtti (actors' ! i) = ai_rtti (actors ! i)"
    "\<And>i. i < length actors \<Longrightarrow> ai_binder (actors' ! i) = ai_binder (actors ! i)"
    "\<And>i. i < length actors \<Longrightarrow> same_lanes (channel_of actors i) (channel_of actors' i)"
    using assms unfolding same_actors_def by blast+
  show "binders_ok actors' = binders_ok actors" using same by (simp add: binders_ok_def)
  show "handle_ok pg actors' h = handle_ok pg actors h"
    using same by (cases h) (auto simp: handle_ok_def)
  show "parcel_typed actors' = parcel_typed actors" using same by (auto simp: parcel_typed_def fun_eq_iff)
  have "prepared actors' i s answer = prepared actors i s answer" if "i < length actors" for i s answer
    using prepare_send_same [OF same(4) [OF that]] by (simp add: prepared_def)
  then show "call_ok actors c \<Longrightarrow> call_ok actors' c"
    using same(1) by (simp add: call_ok_def split: call_future.splits)
qed

text \<open>A step that gives no handle and no call keeps the invariant if it is steps of the desk.\<close>

lemma board_ok_change:
  assumes ok: "board_ok pg contents capacity state sb"
    and actors: "same_actors (sb_actors sb) (sb_actors sb')"
      "\<forall>i < length (sb_actors sb). lanes_ok capacity (channel_of (sb_actors sb') i)"
    and handles: "sb_handles sb' = sb_handles sb"
    and calls: "length (sb_calls sb') = length (sb_calls sb)"
      "\<forall>j < length (sb_calls sb). sb_calls sb' ! j = sb_calls sb ! j \<or>
        call_ok (sb_actors sb) (sb_calls sb' ! j) \<and> ca_actor (sb_calls sb' ! j) = ca_actor (sb_calls sb ! j) \<and>
        (receiver_at (sb_calls sb') j = None \<or> receiver_at (sb_calls sb') j = receiver_at (sb_calls sb) j)"
    and asked: "sb_asked sb' = sb_asked sb"
    and answers: "length (sb_answers sb') = length (sb_answers sb)"
      "\<forall>b < length (sb_answers sb). state (sb_answers sb' ! b) = Deaf \<longrightarrow> state (sb_answers sb ! b) = Deaf \<or>
        (\<forall>j < length (sb_calls sb). receiver_at (sb_calls sb') j \<noteq> Some b)"
    and steps: "(desk_step (parcel_typed (sb_actors sb)))\<^sup>*\<^sup>* (desk_of contents state sb) (desk_of contents state sb')"
  shows "board_ok pg contents capacity state sb'"
proof -
  note old = ok [unfolded board_ok_def]
  have len: "length (sb_actors sb') = length (sb_actors sb)" using actors(1) by (simp add: same_actors_def)
  have receiver: "receiver_at (sb_calls sb) j = Some a \<and> ca_actor (sb_calls sb' ! j) = ca_actor (sb_calls sb ! j)"
    if "j < length (sb_calls sb)" "receiver_at (sb_calls sb') j = Some a" for j a
    using calls(2) that by (metis option.distinct(1))
  have "list_all (call_ok (sb_actors sb)) (sb_calls sb')"
    using calls old unfolding list_all_length by metis
  then have "list_all (call_ok (sb_actors sb')) (sb_calls sb')"
    using same_actors_ok(4) [OF actors(1)] by (simp add: list_all_iff)
  moreover have "receivers_ok state (sb_answers sb') (sb_asked sb') (sb_calls sb')"
    unfolding receivers_ok_def
  proof (intro allI impI)
    fix j a
    assume j: "j < length (sb_calls sb')" "receiver_at (sb_calls sb') j = Some a"
    with calls(1) receiver have was: "receiver_at (sb_calls sb) j = Some a"
      "ca_actor (sb_calls sb' ! j) = ca_actor (sb_calls sb ! j)" by auto
    have "receivers_ok state (sb_answers sb) (sb_asked sb) (sb_calls sb)" using old by blast
    note facts = receivers_okD [OF this j(1) [unfolded calls(1)] was(1)]
    have "state (sb_answers sb' ! a) \<noteq> Deaf" using answers(2) facts(1,2) j calls(1) by auto
    with facts was(2) receiver show "a < length (sb_answers sb') \<and> state (sb_answers sb' ! a) \<noteq> Deaf \<and>
        fst (sb_asked sb' ! a) = ca_actor (sb_calls sb' ! j) \<and>
        (\<forall>k < length (sb_calls sb'). receiver_at (sb_calls sb') k = Some a \<longrightarrow> k = j)"
      by (simp add: answers(1) asked calls(1))
  qed
  moreover have "desk_ok (parcel_typed (sb_actors sb')) (desk_of contents state sb')"
    unfolding same_actors_ok(3) [OF actors(1)] by (rule desk_steps_ok [OF steps]) (use old in blast)
  moreover have "list_all (handle_ok pg (sb_actors sb')) (sb_handles sb')"
    using old handles same_actors_ok(2) [OF actors(1)] by (simp add: list_all_iff)
  ultimately show ?thesis
    using old actors(2) same_actors_ok(1) [OF actors(1)] len unfolding board_ok_def by simp
qed

section \<open>Handles\<close>

lemma handles_grow_ok:
  assumes ok: "board_ok pg contents capacity state sb"
    and h: "\<And>h'. h = Some h' \<Longrightarrow> handle_ok pg (sb_actors sb) h'"
  shows "board_ok pg contents capacity state (add_handle h sb)" "desk_of contents state (add_handle h sb) = desk_of contents state sb"
  using ok h by (auto simp: add_handle_def board_ok_def desk_of_def split: option.splits)

lemma handle_operations_ok:
  assumes h: "handle_ok pg actors h" and binders: "binders_ok actors"
  shows "erase_type pg h = Some h' \<Longrightarrow> handle_ok pg actors h'"
    "erase_type_local h = Some h' \<Longrightarrow> handle_ok pg actors h'"
    "into_shared pg actors h = Some h' \<Longrightarrow> handle_ok pg actors h'"
    "into_local h = Some h' \<Longrightarrow> handle_ok pg actors h'"
    "downcast actors A h = Some h' \<Longrightarrow> handle_ok pg actors h'"
    "protocol_from pg shared Ms h = Some h' \<Longrightarrow> handle_ok pg actors h'"
    "try_bind actors shared Ms h = Some h' \<Longrightarrow> handle_ok pg actors h'"
proof -
  show "erase_type pg h = Some h' \<Longrightarrow> handle_ok pg actors h'"
    using h by (cases h) (auto simp: handle_ok_def split: if_splits)
  show "erase_type_local h = Some h' \<Longrightarrow> handle_ok pg actors h'"
    using h by (cases h) (auto simp: handle_ok_def)
  show "into_shared pg actors h = Some h' \<Longrightarrow> handle_ok pg actors h'"
    using h by (cases h) (auto simp: handle_ok_def split: if_splits)
  show "into_local h = Some h' \<Longrightarrow> handle_ok pg actors h'"
    using h by (cases h) (auto simp: handle_ok_def)
  show "downcast actors A h = Some h' \<Longrightarrow> handle_ok pg actors h'"
    using h by (auto simp: handle_ok_def downcast_def rtti_of_def split: if_splits)
  show "protocol_from pg shared Ms h = Some h' \<Longrightarrow> handle_ok pg actors h'"
    using h by (cases h) (auto simp: handle_ok_def protocol_from_def static_dispatcher_def split: if_splits)
  show "handle_ok pg actors h'" if try_h: "try_bind actors shared Ms h = Some h'"
  proof -
    from try_h obtain table where t: "bind_all actors h Ms = Some table" "erased_as shared h"
        "h' = ProtocolHandle shared table (identity h)"
      by (auto simp: try_bind_def split: if_splits)
    have i: "identity h < length actors" using h by (simp add: handle_ok_def)
    with binders have bound: "d = Dispatcher (ai_rtti (actors ! identity h)) M"
      if "bind_dispatcher actors h M = Some d" for M d
      using that by (simp add: binders_ok_def bind_dispatcher_def)
    from t(1) have "\<forall>(M, d) \<in> set table. d = Dispatcher (ai_rtti (actors ! identity h)) M"
      by (induction Ms arbitrary: table) (auto split: option.splits dest: bound)
    moreover have "shared \<longrightarrow> is_shareable (pg_rtti pg (ai_rtti (actors ! identity h)))"
      using t(2) h by (auto simp: erased_as_def handle_ok_def split: handle.splits)
    ultimately show ?thesis using t(3) i by (simp add: handle_ok_def)
  qed
qed

lemma prepare_call_ok:
  assumes "handle_ok pg actors h" "binders_ok actors" "prepare_call pg actors h M v answer = Some s"
  shows "prepared actors (identity h) s answer" "parcel_typed actors (identity h, sd_message s)"
    "identity h < length actors"
proof -
  have i: "identity h < length actors" using assms(1) by (simp add: handle_ok_def)
  then show "identity h < length actors" .
  have "\<exists>d. s = prepare_send (channel_of actors (identity h)) (dispatched d M v answer) \<and>
      d = Dispatcher (ai_rtti (actors ! identity h)) M"
  proof (cases h)
    case (TypedActorHandle A k)
    with assms(1,3) show ?thesis
      by (auto simp: prepare_call_def typed_prepare_send_def static_dispatcher_def handle_ok_def split: if_splits)
  next
    case (ProtocolHandle shared table k)
    with assms(1,3) show ?thesis
      by (auto simp: prepare_call_def erased_sendable_def handle_ok_def split: option.splits dest: map_of_SomeD)
  next
    case (AnyActorHandle k)
    with assms(2,3) i show ?thesis
      by (auto simp: prepare_call_def prepare_send_dynamic_def bind_dispatcher_def binders_ok_def
          split: option.splits)
  next
    case (AnyLocalActorHandle k)
    with assms(2,3) i show ?thesis
      by (auto simp: prepare_call_def prepare_send_dynamic_def bind_dispatcher_def binders_ok_def
          split: option.splits)
  qed
  then show "prepared actors (identity h) s answer" "parcel_typed actors (identity h, sd_message s)"
    using i by (auto simp: prepared_def parcel_typed_def dispatched_def prepare_send_def Let_def)
qed


section \<open>New calls\<close>

lemma receivers_grow_tell:
  assumes "receivers_ok state answers asked calls" "receiver_of (ca_future c) = None"
  shows "receivers_ok state answers asked (calls @ [c])"
  unfolding receivers_ok_def
proof (intro allI impI)
  have earlier: "j < length calls \<and> receiver_at calls j = Some a"
    if "j < length (calls @ [c])" "receiver_at (calls @ [c]) j = Some a" for j a
  proof (cases "j < length calls")
    case True
    with that(2) show ?thesis by (simp add: nth_append)
  next
    case False
    with that(1) have "j = length calls" by simp
    with that(2) assms(2) show ?thesis by simp
  qed
  fix j a
  assume "j < length (calls @ [c])" "receiver_at (calls @ [c]) j = Some a"
  from earlier [OF this] have j: "j < length calls" "receiver_at calls j = Some a" by simp_all
  note old = receivers_okD [OF assms(1) j]
  have "k = j" if "k < length (calls @ [c])" "receiver_at (calls @ [c]) k = Some a" for k
    using earlier [OF that] old(4) by blast
  with old(1-3) j(1) show "a < length answers \<and> state (answers ! a) \<noteq> Deaf \<and>
      fst (asked ! a) = ca_actor ((calls @ [c]) ! j) \<and>
      (\<forall>k<length (calls @ [c]). receiver_at (calls @ [c]) k = Some a \<longrightarrow> k = j)"
    by (simp add: nth_append)
qed

lemma receivers_grow_ask:
  assumes "receivers_ok state answers asked calls" "length asked = length answers"
    and "receiver_of (ca_future c) = Some (length answers)" "state open_channel \<noteq> Deaf" "fst x = ca_actor c"
  shows "receivers_ok state (answers @ [open_channel]) (asked @ [x]) (calls @ [c])"
  unfolding receivers_ok_def
proof (intro allI impI)
  fix j a
  assume j: "j < length (calls @ [c])" "receiver_at (calls @ [c]) j = Some a"
  note old = receivers_okD [OF assms(1)]
  show "a < length (answers @ [open_channel]) \<and> state ((answers @ [open_channel]) ! a) \<noteq> Deaf \<and>
      fst ((asked @ [x]) ! a) = ca_actor ((calls @ [c]) ! j) \<and>
      (\<forall>k<length (calls @ [c]). receiver_at (calls @ [c]) k = Some a \<longrightarrow> k = j)"
  proof (cases "j < length calls")
    case True
    with j have "receiver_at calls j = Some a" by (simp add: nth_append)
    note this_old = old [OF True this]
    have "k = j" if "k < length (calls @ [c])" "receiver_at (calls @ [c]) k = Some a" for k
    proof (cases "k < length calls")
      case True
      with that this_old(4) show ?thesis by (simp add: nth_append)
    next
      case False
      with that have "k = length calls" by simp
      with that(2) assms(3) this_old(1) show ?thesis by simp
    qed
    with this_old(1-3) True assms(2) show ?thesis by (simp add: nth_append)
  next
    case False
    with j(1) have last: "j = length calls" by simp
    with j(2) assms(3) have a: "a = length answers" by simp
    have "k = j" if "k < length (calls @ [c])" "receiver_at (calls @ [c]) k = Some a" for k
    proof (cases "k < length calls")
      case True
      with that(2) have "receiver_at calls k = Some a" by (simp add: nth_append)
      from old(1) [OF True this] a show ?thesis by simp
    next
      case False
      with that(1) last show ?thesis by simp
    qed
    moreover have "(asked @ [x]) ! a = x" using a assms(2) by (metis nth_append_length)
    ultimately show ?thesis using a last assms(4,5) by simp
  qed
qed

text \<open>What a step of the system has to show.\<close>

definition advances :: "program \<Rightarrow> ('q \<Rightarrow> 'v DispatchedActorMessage list) \<Rightarrow> ('q \<Rightarrow> nat option) \<Rightarrow>
    ('o \<Rightarrow> 'a answer_state) \<Rightarrow> ('q, 'o, 'v, 'a) switchboard \<Rightarrow> ('q, 'o, 'v, 'a) switchboard \<Rightarrow> bool" where
  "advances pg contents capacity state sb sb' \<longleftrightarrow>
     board_ok pg contents capacity state sb' \<and> same_actors (sb_actors sb) (sb_actors sb') \<and>
     (desk_step (parcel_typed (sb_actors sb)))\<^sup>*\<^sup>* (desk_of contents state sb) (desk_of contents state sb')"

lemma advances_refl: "board_ok pg contents capacity state sb \<Longrightarrow> advances pg contents capacity state sb sb"
  by (simp add: advances_def)

lemma advances_handle:
  assumes "board_ok pg contents capacity state sb"
    and "\<And>h'. h = Some h' \<Longrightarrow> handle_ok pg (sb_actors sb) h'"
  shows "advances pg contents capacity state sb (add_handle h sb)"
proof -
  have "sb_actors (add_handle h sb) = sb_actors sb" by (simp add: add_handle_def split: option.split)
  then show ?thesis by (simp add: advances_def handles_grow_ok [OF assms])
qed

lemma board_okD:
  assumes "board_ok pg contents capacity state sb"
  shows "binders_ok (sb_actors sb)" "n < length (sb_handles sb) \<Longrightarrow> handle_ok pg (sb_actors sb) (sb_handles sb ! n)"
    "i < length (sb_actors sb) \<Longrightarrow> lanes_ok capacity (channel_of (sb_actors sb) i)"
    "j < length (sb_calls sb) \<Longrightarrow> call_ok (sb_actors sb) (sb_calls sb ! j)"
    "receivers_ok state (sb_answers sb) (sb_asked sb) (sb_calls sb)"
    "desk_ok (parcel_typed (sb_actors sb)) (desk_of contents state sb)"
    "length (sb_asked sb) = length (sb_answers sb)"
  using assms unfolding board_ok_def list_all_length by (simp_all add: desk_ok_def)

lemma advances_tell:
  assumes ok: "board_ok pg contents capacity state sb" and h: "handle_ok pg (sb_actors sb) h"
    and mc: "mc_program mc = pg"
  shows "advances pg contents capacity state sb (start_tell mc h M v sb)"
proof (cases "prepare_call pg (sb_actors sb) h M v None")
  case None
  with advances_refl [OF ok] mc show ?thesis by (simp add: start_tell_def)
next
  case (Some s)
  note prep = prepare_call_ok [OF h board_okD(1) [OF ok] Some]
  let ?sb = "add_call (identity h) (TellSending s) sb" and ?x = "(identity h, sd_message s)"
  have desk: "desk_of contents state ?sb = (desk_of contents state sb)
      \<lparr>dk_waiting := add_mset ?x (dk_waiting (desk_of contents state sb))\<rparr>"
    by (simp add: desk_of_def add_call_def asking_call_def telling_call_def)
  have answer: "parcel_answer ?x = None" using prep(1) by (simp add: prepared_def)
  have step: "desk_step (parcel_typed (sb_actors sb)) (desk_of contents state sb) (desk_of contents state ?sb)"
    unfolding desk by (intro desk_step.tell prep(2) answer)
  have "board_ok pg contents capacity state ?sb"
    using ok prep desk_step_ok [OF step board_okD(6) [OF ok]] receivers_grow_tell [OF board_okD(5) [OF ok]]
    unfolding board_ok_def by (simp add: add_call_def call_ok_def prepared_def)
  with step Some mc show ?thesis by (auto simp: start_tell_def advances_def add_call_def)
qed

context oneshot_channel
begin

lemma advances_ask:
  assumes ok: "board_ok pg contents capacity state sb" and h: "handle_ok pg (sb_actors sb) h"
    and mc: "mc_program mc = pg" "mc_oneshot mc = ops"
  shows "advances pg contents capacity state sb (start_ask mc h M v sb)"
proof (cases "prepare_call pg (sb_actors sb) h M v (Some (length (sb_answers sb)))")
  case None
  with advances_refl [OF ok] mc show ?thesis by (simp add: start_ask_def)
next
  case (Some s)
  note prep = prepare_call_ok [OF h board_okD(1) [OF ok] Some]
  obtain f where f: "start_ask mc h M v sb = add_call (identity h) f
      (sb\<lparr>sb_answers := sb_answers sb @ [os_channel ops], sb_asked := sb_asked sb @ [(identity h, sd_message s)]\<rparr>)"
    "f = ExchangeSending s (length (sb_answers sb)) \<or> f = ErasedSending s (Some (length (sb_answers sb)))"
    using Some mc by (cases h) (simp_all add: start_ask_def Let_def)
  let ?sb = "start_ask mc h M v sb" and ?x = "(identity h, sd_message s)"
    and ?c = "\<lparr>ca_actor = identity h, ca_future = f\<rparr>"
  have desk: "desk_of contents state ?sb = (desk_of contents state sb)
      \<lparr>dk_asking := add_mset ?x (dk_asking (desk_of contents state sb)),
       dk_answers := dk_answers (desk_of contents state sb) @ [Open],
       dk_asked := dk_asked (desk_of contents state sb) @ [?x]\<rparr>"
    using f(2) by (auto simp: f(1) desk_of_def add_call_def asking_call_def telling_call_def channel_open)
  have answer: "parcel_answer ?x = Some (length (dk_answers (desk_of contents state sb)))"
    using prep(1) by (simp add: prepared_def)
  have step: "desk_step (parcel_typed (sb_actors sb)) (desk_of contents state sb) (desk_of contents state ?sb)"
    unfolding desk by (intro desk_step.ask prep(2) answer)
  have "receiver_of (ca_future ?c) = Some (length (sb_answers sb))" "call_ok (sb_actors sb) ?c"
    using f(2) prep by (auto simp: call_ok_def)
  with receivers_grow_ask [OF board_okD(5,7) [OF ok] this(1), of "os_channel ops" ?x]
  have "receivers_ok state (sb_answers ?sb) (sb_asked ?sb) (sb_calls ?sb)" "list_all (call_ok (sb_actors sb)) (sb_calls ?sb)"
    using ok by (simp_all add: f(1) add_call_def channel_open board_ok_def)
  moreover have "sb_actors ?sb = sb_actors sb" "sb_handles ?sb = sb_handles sb" by (simp_all add: f(1) add_call_def)
  ultimately have "board_ok pg contents capacity state ?sb"
    using ok desk_step_ok [OF step board_okD(6) [OF ok]] unfolding board_ok_def by simp
  with step show ?thesis by (auto simp: advances_def f(1) add_call_def)
qed

end

end
