(* ===== verification/Calls_Steps.thy ===== *)
theory Calls_Steps
  imports Calls_Simulation
begin

text \<open>Every step of the system advances it, for any queue and any answer channel that keep their contracts.\<close>

section \<open>Asks of either kind\<close>

definition sending :: "'v call_future \<Rightarrow> 'v DispatchedActorMessage sendable \<Rightarrow> nat \<Rightarrow> 'v call_future \<Rightarrow> bool" where
  "sending f s a g \<longleftrightarrow>
     f = ExchangeSending s a \<and> g = ExchangeReceiving a \<or> f = ErasedSending s (Some a) \<and> g = ErasedReceiving a"

definition receiving :: "'v call_future \<Rightarrow> nat \<Rightarrow> bool" where
  "receiving f a \<longleftrightarrow> f = ExchangeReceiving a \<or> f = ErasedReceiving a"

lemma call_cases:
  assumes "call_ok actors c"
  obtains (tell) s where "ca_future c = TellSending s"
    | (sending) s a g where "sending (ca_future c) s a g"
    | (receiving) a where "receiving (ca_future c) a"
    | (finished) "ca_future c = CallDone"
proof (cases "ca_future c")
  case (ErasedSending s receiver)
  with assms obtain a where "receiver = Some a" by (auto simp: call_ok_def)
  with ErasedSending sending show ?thesis by (simp add: sending_def)
qed (use tell sending receiving finished in \<open>auto simp: sending_def receiving_def\<close>)

lemma poll_receiving:
  "receiving f a \<Longrightarrow> poll_call mc f ch answers =
     Inr (case poll_reply (mc_oneshot mc) a answers of
        (Pending, answers') \<Rightarrow> (Pending, f, ch, answers')
      | (Ready r, answers') \<Rightarrow> (Ready (map_sum id Some r), CallDone, ch, answers'))"
  by (auto simp: receiving_def exchange_receiving_def erased_receiving_def)

lemma poll_sending:
  "sending f s a g \<Longrightarrow> poll_call mc f ch answers =
     (case poll_send (mc_queue mc) (mc_sendable mc) ch s of
        (Pending, ch') \<Rightarrow> Inr (Pending, f, ch', answers)
      | (Ready (Inl e), ch') \<Rightarrow>
          Inr (Ready (Inl (SendFailed e)), CallDone, ch',
            hang_up (mc_oneshot mc) a (drop_message (mc_oneshot mc) (sd_message s) answers))
      | (Ready (Inr _), ch') \<Rightarrow> poll_call mc g ch' answers)"
  by (auto simp: sending_def Let_def split: prod.splits poll.splits sum.splits)

lemma sending_facts:
  assumes "sending f s a g"
  shows "receiver_of f = Some a" "receiver_of g = Some a" "receiving g a" "f \<noteq> CallDone"
    "asking_call (c\<lparr>ca_future := f\<rparr>) = {#(ca_actor c, sd_message s)#}" "asking_call (c\<lparr>ca_future := g\<rparr>) = {#}"
    "call_ok actors (c\<lparr>ca_future := f\<rparr>) \<longleftrightarrow> ca_actor c < length actors \<and> prepared actors (ca_actor c) s (Some a)"
    "call_ok actors (c\<lparr>ca_future := g\<rparr>) \<longleftrightarrow> ca_actor c < length actors"
    "drop_call ops f answers = hang_up ops a (drop_message ops (sd_message s) answers)"
    "telling_call (c\<lparr>ca_future := f\<rparr>) = {#}" "telling_call (c\<lparr>ca_future := g\<rparr>) = {#}"
  using assms by (auto simp: sending_def receiving_def asking_call_def telling_call_def call_ok_def Let_def)

lemma receiving_facts:
  assumes "receiving f a"
  shows "receiver_of f = Some a" "asking_call (c\<lparr>ca_future := f\<rparr>) = {#}" "drop_call ops f answers = hang_up ops a answers"
    "telling_call (c\<lparr>ca_future := f\<rparr>) = {#}"
  using assms by (auto simp: receiving_def asking_call_def telling_call_def)

lemma done_facts [simp]:
  "asking_call (c\<lparr>ca_future := CallDone\<rparr>) = {#}" "telling_call (c\<lparr>ca_future := CallDone\<rparr>) = {#}"
  "call_ok actors (c\<lparr>ca_future := CallDone\<rparr>) \<longleftrightarrow> ca_actor c < length actors"
  by (simp_all add: asking_call_def telling_call_def call_ok_def)

text \<open>The message of a call that still sends, and a call that has none to send.\<close>

lemma call_carries:
  fixes f :: "'v call \<Rightarrow> 'v parcel multiset"
  assumes "j < length calls" "f (calls ! j) = {#x#}"
  obtains rest where "sum_list (map f calls) = add_mset x rest"
    "\<And>c. f c = {#} \<Longrightarrow> sum_list (map f (calls[j := c])) = rest"
proof -
  from sum_list_member_mset [OF assms(1)] obtain rest where rest: "sum_list (map f calls) = f (calls ! j) + rest" by blast
  show ?thesis
  proof (rule that)
    show "sum_list (map f calls) = add_mset x rest" using rest assms(2) by simp
    show "sum_list (map f (calls[j := c])) = rest" if "f c = {#}" for c
      using sum_list_update_mset [OF assms(1) rest, of c] that by simp
  qed
qed

lemma call_silent:
  fixes f :: "'v call \<Rightarrow> 'v parcel multiset"
  assumes "j < length calls" "f (calls ! j) = {#}" "f c = {#}"
  shows "sum_list (map f (calls[j := c])) = sum_list (map f calls)"
proof -
  from sum_list_member_mset [OF assms(1)] obtain rest where rest: "sum_list (map f calls) = f (calls ! j) + rest" by blast
  from sum_list_update_mset [OF assms(1) this, of c] rest assms(2,3) show ?thesis by simp
qed

section \<open>The steps\<close>

locale call_system =
  queue: mpsc_queue "mc_queue mc" contents closed capacity +
  answers: oneshot_channel "mc_oneshot mc" state
  for mc :: "('q, 'o, 'v, 'a) machine" and contents closed capacity state +
  fixes pg :: program
  assumes program: "mc_program mc = pg"
begin

lemma waiting_facts:
  assumes ok: "board_ok pg contents capacity state sb"
    and x: "(i, d) \<in># dk_alive (desk_of contents state sb)"
  shows "i < length (sb_actors sb)" "dispatch_onto_loop (ai_rtti (sb_actors sb ! i)) d = Inr d"
    "\<forall>a. dm_answer d = Some a \<longrightarrow> a < length (sb_answers sb) \<and>
      (state (sb_answers sb ! a) = Open \<or> state (sb_answers sb ! a) = Deaf)"
proof -
  note desk = board_okD(6) [OF ok]
  have "parcel_typed (sb_actors sb) (i, d)" by (rule parcel_typed_ok [OF desk x])
  then show "i < length (sb_actors sb)" "dispatch_onto_loop (ai_rtti (sb_actors sb ! i)) d = Inr d"
    by (auto simp: parcel_typed_def dispatch_onto_loop_def)
  show "\<forall>a. dm_answer d = Some a \<longrightarrow> a < length (sb_answers sb) \<and>
      (state (sb_answers sb ! a) = Open \<or> state (sb_answers sb ! a) = Deaf)"
  proof (intro allI impI)
    fix a
    assume "dm_answer d = Some a"
    then have "parcel_answer (i, d) = Some a" by simp
    with parcel_facts(1,4) [OF desk x this]
    show "a < length (sb_answers sb) \<and> (state (sb_answers sb ! a) = Open \<or> state (sb_answers sb ! a) = Deaf)"
      by simp
  qed
qed

lemma set_channel_same:
  "set_channel i (channel_of (sb_actors sb) i) sb = sb"
  by (simp add: set_channel_def)

lemma advances_queue:
  assumes ok: "board_ok pg contents capacity state sb" and i: "i < length (sb_actors sb)"
    and ch: "lanes_ok capacity ch" "same_lanes (channel_of (sb_actors sb) i) ch"
    and sb': "sb_actors sb' = with_channel (sb_actors sb) i ch" "sb_handles sb' = sb_handles sb"
      "sb_calls sb' = sb_calls sb" "sb_asked sb' = sb_asked sb" "length (sb_answers sb') = length (sb_answers sb)"
    and deaf: "\<forall>b < length (sb_answers sb). state (sb_answers sb' ! b) = Deaf \<longrightarrow> state (sb_answers sb ! b) = Deaf"
    and steps: "(desk_step (parcel_typed (sb_actors sb)))\<^sup>*\<^sup>* (desk_of contents state sb) (desk_of contents state sb')"
  shows "advances pg contents capacity state sb sb'"
proof -
  have same: "same_actors (sb_actors sb) (sb_actors sb')"
    unfolding sb'(1) by (rule same_actors_channel [OF ch(2)])
  have "board_ok pg contents capacity state sb'"
    by (rule board_ok_change [OF ok same _ _ _ _ _ _ _ steps])
      (use board_okD(3) [OF ok] i ch(1) sb' deaf in \<open>auto simp: nth_list_update\<close>)
  with same steps show ?thesis by (simp add: advances_def)
qed

lemma advances_try_tell:
  assumes ok: "board_ok pg contents capacity state sb" and h: "handle_ok pg (sb_actors sb) h"
  shows "advances pg contents capacity state sb (snd (try_tell mc h M v sb))"
proof (cases "prepare_call pg (sb_actors sb) h M v None")
  case None
  with advances_refl [OF ok] program show ?thesis by (simp add: try_tell_def)
next
  case (Some s)
  note prep = prepare_call_ok [OF h board_okD(1) [OF ok] Some]
  let ?i = "identity h" and ?ch = "channel_of (sb_actors sb) (identity h)" and ?x = "(identity h, sd_message s)"
  have s: "s = prepare_send ?ch (sd_message s)" "dm_answer (sd_message s) = None"
    using prep(1) by (simp_all add: prepared_def)
  from queue.try_send_cases [OF board_okD(3) [OF ok prep(3)] s(1), of "mc_sendable mc"] show ?thesis
  proof (elim disjE exE conjE)
    fix e
    assume "try_send (mc_queue mc) (mc_sendable mc) ?ch s = (Inl e, ?ch)"
    with Some program advances_refl [OF ok] show ?thesis by (simp add: try_tell_def set_channel_same)
  next
    fix ch
    assume sent: "try_send (mc_queue mc) (mc_sendable mc) ?ch s = (Inr (), ch)" "lanes_ok capacity ch"
        "same_lanes ?ch ch" "mset (lanes_backlog contents ch) = add_mset (sd_message s) (mset (lanes_backlog contents ?ch))"
    then have sb': "snd (try_tell mc h M v sb) = set_channel ?i ch sb"
      using Some program by (simp add: try_tell_def)
    have desk: "desk_of contents state (set_channel ?i ch sb) = (desk_of contents state sb)
        \<lparr>dk_waiting := add_mset ?x (dk_waiting (desk_of contents state sb))\<rparr>"
      by (simp add: desk_of_def set_channel_def queued_add [OF prep(3) sent(4)])
    have "desk_step (parcel_typed (sb_actors sb)) (desk_of contents state sb) (desk_of contents state (set_channel ?i ch sb))"
      unfolding desk by (intro desk_step.tell prep(2)) (simp add: s(2))
    then show ?thesis
      unfolding sb' by (intro advances_queue [OF ok prep(3) sent(2,3)]) (simp_all add: set_channel_def)
  qed
qed

lemma advances_receive:
  assumes ok: "board_ok pg contents capacity state sb" and i: "i < length (sb_actors sb)"
  shows "\<exists>sb'. receive_at mc i sb = Inr sb' \<and> advances pg contents capacity state sb sb'"
    "advances pg contents capacity state sb (discard_at mc i sb)"
proof -
  let ?ch = "channel_of (sb_actors sb) i"
  have cases: "(\<exists>sb'. receive_at mc i sb = Inr sb' \<and> advances pg contents capacity state sb sb') \<and>
    advances pg contents capacity state sb (discard_at mc i sb)"
    using queue.poll_receive_cases [OF board_okD(3) [OF ok i]]
  proof (elim disjE exE conjE)
    fix d ch
    assume got: "poll_receive (mc_queue mc) ?ch = (Ready (Some d), ch)" "lanes_ok capacity ch" "same_lanes ?ch ch"
        "mset (lanes_backlog contents ?ch) = add_mset d (mset (lanes_backlog contents ch))"
    let ?rest = "sum_list (map telling_call (sb_calls sb)) + queued contents (with_channel (sb_actors sb) i ch)"
    have w: "dk_waiting (desk_of contents state sb) = add_mset (i, d) ?rest"
      by (simp add: queued_remove [OF i got(4)])
    then have x: "(i, d) \<in># dk_alive (desk_of contents state sb)" by (simp add: dk_alive_def)
    note facts = waiting_facts [OF ok x]
    let ?pulled = "(set_channel i ch sb)\<lparr>sb_handling := sb_handling sb @ [(i, d)], sb_pulled := sb_pulled sb @ [(i, d)]\<rparr>"
    have "desk_of contents state ?pulled = (desk_of contents state sb)\<lparr>dk_waiting := ?rest,
        dk_handling := add_mset (i, d) (dk_handling (desk_of contents state sb)),
        dk_pulled := dk_pulled (desk_of contents state sb) @ [(i, d)]\<rparr>"
      by (simp add: desk_of_def set_channel_def)
    then have "desk_step (parcel_typed (sb_actors sb)) (desk_of contents state sb) (desk_of contents state ?pulled)"
      using desk_step.pull [OF w] by simp
    then have "advances pg contents capacity state sb ?pulled"
      by (intro advances_queue [OF ok i got(2,3)]) (simp_all add: set_channel_def)
    moreover have "receive_at mc i sb = Inr ?pulled" using got(1) facts(2) by (simp add: receive_at_def)
    moreover
    let ?dropped = "(set_channel i ch sb)\<lparr>sb_answers := drop_message (mc_oneshot mc) d (sb_answers sb)\<rparr>"
    have map: "map state (drop_message (mc_oneshot mc) d (sb_answers sb)) = abandon (i, d) (map state (sb_answers sb))"
      by (rule answers.map_drop_message [OF facts(3)])
    then have "desk_of contents state ?dropped = (desk_of contents state sb)\<lparr>dk_waiting := ?rest,
        dk_answers := abandon (i, d) (dk_answers (desk_of contents state sb))\<rparr>"
      by (simp add: desk_of_def set_channel_def)
    then have "desk_step (parcel_typed (sb_actors sb)) (desk_of contents state sb) (desk_of contents state ?dropped)"
      using desk_step.discard [OF w] by simp
    moreover have "length (drop_message (mc_oneshot mc) d (sb_answers sb)) = length (sb_answers sb)"
      using arg_cong [OF map, of length] by simp
    moreover have "state (drop_message (mc_oneshot mc) d (sb_answers sb) ! b) = Deaf \<longrightarrow> state (sb_answers sb ! b) = Deaf"
      if "b < length (sb_answers sb)" for b
    proof -
      have "state (drop_message (mc_oneshot mc) d (sb_answers sb) ! b) = abandon (i, d) (map state (sb_answers sb)) ! b"
        using map that calculation(4) by (metis nth_map)
      with that show ?thesis by (cases "state (sb_answers sb ! b)") (auto simp: abandon_nth)
    qed
    ultimately have "advances pg contents capacity state sb ?dropped"
      by (intro advances_queue [OF ok i got(2,3)]) (simp_all add: set_channel_def)
    with \<open>advances pg contents capacity state sb ?pulled\<close> \<open>receive_at mc i sb = Inr ?pulled\<close> got(1)
    show ?thesis by (auto simp: discard_at_def)
  next
    fix r ch
    assume got: "poll_receive (mc_queue mc) ?ch = (r, ch)" "\<forall>m. r \<noteq> Ready (Some m)" "lanes_ok capacity ch"
        "same_lanes ?ch ch" "mset (lanes_backlog contents ch) = mset (lanes_backlog contents ?ch)"
    have "desk_of contents state (set_channel i ch sb) = desk_of contents state sb"
      by (simp add: desk_of_def set_channel_def queued_same [OF i got(5)])
    then have "advances pg contents capacity state sb (set_channel i ch sb)"
      by (intro advances_queue [OF ok i got(3,4)]) (simp_all add: set_channel_def)
    moreover have "receive_at mc i sb = Inr (set_channel i ch sb)" "discard_at mc i sb = set_channel i ch sb"
      using got(1,2) by (auto simp: receive_at_def discard_at_def split: poll.splits option.splits)
    ultimately show ?thesis by simp
  qed
  from cases show "\<exists>sb'. receive_at mc i sb = Inr sb' \<and> advances pg contents capacity state sb sb'"
    "advances pg contents capacity state sb (discard_at mc i sb)"
    by blast+
qed

lemma advances_close:
  assumes ok: "board_ok pg contents capacity state sb" and i: "i < length (sb_actors sb)"
  shows "advances pg contents capacity state sb (close_at mc i sb)"
proof -
  let ?ch = "close_mailbox (mc_queue mc) (channel_of (sb_actors sb) i)"
  note shape = queue.close_mailbox_shape [OF board_okD(3) [OF ok i]]
  have "mset (lanes_backlog contents ?ch) = mset (lanes_backlog contents (channel_of (sb_actors sb) i))"
    by (simp add: queue.close_mailbox_spec)
  from queued_same [OF i this] have "desk_of contents state (close_at mc i sb) = desk_of contents state sb"
    by (simp add: desk_of_def close_at_def set_channel_def)
  then show ?thesis
    by (intro advances_queue [OF ok i shape]) (simp_all add: close_at_def set_channel_def)
qed

text \<open>A step that leaves the queues alone and replaces at most the call \<open>j\<close>.\<close>

lemma advances_call:
  assumes ok: "board_ok pg contents capacity state sb"
    and sb': "sb_actors sb' = sb_actors sb" "sb_handles sb' = sb_handles sb" "sb_asked sb' = sb_asked sb"
      "sb_calls sb' = (sb_calls sb)[j := c]"
    and c: "j < length (sb_calls sb) \<Longrightarrow> c = sb_calls sb ! j \<or> call_ok (sb_actors sb) c \<and>
      ca_actor c = ca_actor (sb_calls sb ! j) \<and>
      (receiver_of (ca_future c) = None \<or> receiver_of (ca_future c) = receiver_at (sb_calls sb) j)"
    and len: "length (sb_answers sb') = length (sb_answers sb)"
    and deaf: "\<forall>b < length (sb_answers sb). state (sb_answers sb' ! b) = Deaf \<longrightarrow> state (sb_answers sb ! b) = Deaf \<or>
      j < length (sb_calls sb) \<and> receiver_at (sb_calls sb) j = Some b \<and> receiver_of (ca_future c) = None"
    and steps: "(desk_step (parcel_typed (sb_actors sb)))\<^sup>*\<^sup>* (desk_of contents state sb) (desk_of contents state sb')"
  shows "advances pg contents capacity state sb sb'"
proof -
  have calls: "sb_calls sb' ! k = (if k = j then c else sb_calls sb ! k)" if "k < length (sb_calls sb)" for k
    using that sb'(4) by (simp add: nth_list_update)
  have same: "same_actors (sb_actors sb) (sb_actors sb')" by (simp add: sb'(1))
  have "board_ok pg contents capacity state sb'"
  proof (rule board_ok_change [OF ok same _ _ _ _ _ len _ steps])
    show "\<forall>k < length (sb_calls sb). sb_calls sb' ! k = sb_calls sb ! k \<or>
        call_ok (sb_actors sb) (sb_calls sb' ! k) \<and> ca_actor (sb_calls sb' ! k) = ca_actor (sb_calls sb ! k) \<and>
        (receiver_at (sb_calls sb') k = None \<or> receiver_at (sb_calls sb') k = receiver_at (sb_calls sb) k)"
      using calls c by auto
    show "\<forall>b < length (sb_answers sb). state (sb_answers sb' ! b) = Deaf \<longrightarrow> state (sb_answers sb ! b) = Deaf \<or>
        (\<forall>k < length (sb_calls sb). receiver_at (sb_calls sb') k \<noteq> Some b)"
    proof (intro allI impI)
      fix b
      assume b: "b < length (sb_answers sb)" "state (sb_answers sb' ! b) = Deaf"
      show "state (sb_answers sb ! b) = Deaf \<or> (\<forall>k < length (sb_calls sb). receiver_at (sb_calls sb') k \<noteq> Some b)"
      proof (cases "state (sb_answers sb ! b) = Deaf")
        case False
        with deaf b have j: "j < length (sb_calls sb)" "receiver_at (sb_calls sb) j = Some b"
            "receiver_of (ca_future c) = None"
          by blast+
        note only = receivers_okD(4) [OF board_okD(5) [OF ok] j(1,2)]
        have "receiver_at (sb_calls sb') k \<noteq> Some b" if "k < length (sb_calls sb)" for k
          using only that calls [OF that] j(3) by (cases "k = j") auto
        then show ?thesis by blast
      qed simp
    qed
  qed (use board_okD(3) [OF ok] sb' in simp_all)
  with same steps show ?thesis by (simp add: advances_def)
qed

lemma nth_map_eq:
  assumes "map f xs = ys" "b < length xs"
  shows "f (xs ! b) = ys ! b"
  using assms by auto

lemma drop_message_facts:
  assumes ok: "board_ok pg contents capacity state sb" and x: "(i, d) \<in># dk_alive (desk_of contents state sb)"
  shows "map state (drop_message (mc_oneshot mc) d (sb_answers sb)) = abandon (i, d) (map state (sb_answers sb))"
    "length (drop_message (mc_oneshot mc) d (sb_answers sb)) = length (sb_answers sb)"
    "b < length (sb_answers sb) \<Longrightarrow> state (drop_message (mc_oneshot mc) d (sb_answers sb) ! b) = Deaf \<Longrightarrow>
      state (sb_answers sb ! b) = Deaf"
proof -
  show map: "map state (drop_message (mc_oneshot mc) d (sb_answers sb)) = abandon (i, d) (map state (sb_answers sb))"
    by (rule answers.map_drop_message [OF waiting_facts(3) [OF ok x]])
  show len: "length (drop_message (mc_oneshot mc) d (sb_answers sb)) = length (sb_answers sb)"
    using arg_cong [OF map, of length] by simp
  assume b: "b < length (sb_answers sb)" "state (drop_message (mc_oneshot mc) d (sb_answers sb) ! b) = Deaf"
  then have "abandon (i, d) (map state (sb_answers sb)) ! b = Deaf" using nth_map_eq [OF map] len by simp
  with b(1) show "state (sb_answers sb ! b) = Deaf"
    by (cases "state (sb_answers sb ! b)") (auto simp: abandon_nth split: if_splits)
qed

text \<open>
  A sender that leaves whoever holds it, a running handler or whoever kept it: the lists of both are
  one multiset on the desk.
\<close>

definition releases :: "('q, 'o, 'v, 'a) switchboard \<Rightarrow> 'v parcel \<Rightarrow> ('q, 'o, 'v, 'a) switchboard \<Rightarrow> bool" where
  "releases sb x sb1 \<longleftrightarrow>
     (\<exists>handling kept. sb1 = sb\<lparr>sb_handling := handling, sb_kept := kept\<rparr> \<and>
        mset (sb_handling sb) + mset (sb_kept sb) = add_mset x (mset handling + mset kept))"

lemma end_handler_releases: "k < length (sb_handling sb) \<Longrightarrow> releases sb (sb_handling sb ! k) (end_handler k sb)"
  unfolding releases_def end_handler_def
  by (rule exI [of _ "drop_nth k (sb_handling sb)"], rule exI [of _ "sb_kept sb"]) (simp add: mset_drop_nth)

lemma release_kept_releases: "k < length (sb_kept sb) \<Longrightarrow> releases sb (sb_kept sb ! k) (release_kept k sb)"
  unfolding releases_def release_kept_def
  by (rule exI [of _ "sb_handling sb"], rule exI [of _ "drop_nth k (sb_kept sb)"]) (simp add: mset_drop_nth)

lemma advances_held:
  assumes "board_ok pg contents capacity state sb"
    and "sb_actors sb' = sb_actors sb" "sb_handles sb' = sb_handles sb" "sb_asked sb' = sb_asked sb"
      "sb_calls sb' = sb_calls sb" "length (sb_answers sb') = length (sb_answers sb)"
    and "\<And>b. b < length (sb_answers sb) \<Longrightarrow> state (sb_answers sb' ! b) = Deaf \<Longrightarrow> state (sb_answers sb ! b) = Deaf"
    and "(desk_step (parcel_typed (sb_actors sb)))\<^sup>*\<^sup>* (desk_of contents state sb) (desk_of contents state sb')"
  shows "advances pg contents capacity state sb sb'"
  using assms
  by (intro advances_call [OF assms(1), where j = "length (sb_calls sb)" and c = "sb_calls sb ! 0"])
    (auto simp: list_update_beyond)

lemma advances_drop_unanswered:
  assumes ok: "board_ok pg contents capacity state sb" and r: "releases sb (i, d) sb1"
  shows "advances pg contents capacity state sb (drop_unanswered mc d sb1)"
proof -
  from r obtain handling kept where sb1: "sb1 = sb\<lparr>sb_handling := handling, sb_kept := kept\<rparr>"
      "mset (sb_handling sb) + mset (sb_kept sb) = add_mset (i, d) (mset handling + mset kept)"
    by (auto simp: releases_def)
  then have w: "dk_handling (desk_of contents state sb) = add_mset (i, d) (mset handling + mset kept)" by simp
  then have alive: "(i, d) \<in># dk_alive (desk_of contents state sb)" by (simp add: dk_alive_def del: desk_of_simps)
  note drop = drop_message_facts [OF ok alive]
  have "desk_of contents state (drop_unanswered mc d sb1) = (desk_of contents state sb)
      \<lparr>dk_handling := mset handling + mset kept,
       dk_answers := abandon (i, d) (dk_answers (desk_of contents state sb))\<rparr>"
    by (simp add: desk_of_def drop_unanswered_def sb1(1) drop(1))
  with desk_step.ignore [OF w, of "parcel_typed (sb_actors sb)"]
  have "desk_step (parcel_typed (sb_actors sb)) (desk_of contents state sb)
      (desk_of contents state (drop_unanswered mc d sb1))"
    by simp
  then show ?thesis
    using drop(2,3) unfolding drop_unanswered_def sb1(1) by (intro advances_held [OF ok]) auto
qed

lemma advances_answer_with:
  assumes ok: "board_ok pg contents capacity state sb" and r: "releases sb (i, d) sb1"
  shows "advances pg contents capacity state sb (answer_with mc d v sb1)"
proof (cases "dm_answer d")
  case None
  then have "answer_with mc d v sb1 = drop_unanswered mc d sb1"
    by (simp add: answer_with_def drop_unanswered_def drop_message_def)
  with advances_drop_unanswered [OF assms] show ?thesis by simp
next
  case (Some a)
  from r obtain handling kept where sb1: "sb1 = sb\<lparr>sb_handling := handling, sb_kept := kept\<rparr>"
      "mset (sb_handling sb) + mset (sb_kept sb) = add_mset (i, d) (mset handling + mset kept)"
    by (auto simp: releases_def)
  then have w: "dk_handling (desk_of contents state sb) = add_mset (i, d) (mset handling + mset kept)" by simp
  then have alive: "(i, d) \<in># dk_alive (desk_of contents state sb)" by (simp add: dk_alive_def del: desk_of_simps)
  have a: "a < length (sb_answers sb)" "state (sb_answers sb ! a) = Open \<or> state (sb_answers sb ! a) = Deaf"
    using waiting_facts(3) [OF ok alive] Some by auto
  from answers.answer_send_state [OF a(2), of v] obtain r c where
      c: "answer_send (mc_oneshot mc) (sb_answers sb ! a) v = (r, c)" "state c = answer_state v (state (sb_answers sb ! a))"
    by blast
  have sb': "answer_with mc d v sb1 = sb1\<lparr>sb_answers := (sb_answers sb)[a := c], sb_replies := sb_replies sb @ [(a, v)]\<rparr>"
    using Some c(1) by (simp add: answer_with_def sb1(1))
  have "desk_of contents state (answer_with mc d v sb1) = (desk_of contents state sb)
      \<lparr>dk_handling := mset handling + mset kept,
       dk_answers := (dk_answers (desk_of contents state sb))
         [a := answer_state v (dk_answers (desk_of contents state sb) ! a)],
       dk_replies := dk_replies (desk_of contents state sb) @ [(a, v)]\<rparr>"
    unfolding sb' unfolding sb1(1) using a(1) by (simp add: desk_of_def map_update c(2))
  moreover have "parcel_answer (i, d) = Some a" using Some by simp
  note desk_step.reply [OF w this, of "parcel_typed (sb_actors sb)" v]
  ultimately have "desk_step (parcel_typed (sb_actors sb)) (desk_of contents state sb)
      (desk_of contents state (answer_with mc d v sb1))"
    by simp
  moreover have "state (sb_answers sb ! b) = Deaf" if "state ((sb_answers sb)[a := c] ! b) = Deaf" for b
    using that a c(2) by (cases "a = b") auto
  ultimately show ?thesis unfolding sb' unfolding sb1(1) by (intro advances_held [OF ok]) auto
qed

text \<open>The steps of a handler and of whoever kept what it had.\<close>

lemma advances_handler:
  assumes ok: "board_ok pg contents capacity state sb" and k: "k < length (sb_handling sb)"
  shows "advances pg contents capacity state sb (reply_at mc k v sb)"
    "advances pg contents capacity state sb (ignore_at mc k sb)"
    "advances pg contents capacity state sb (keep_at k sb)"
proof -
  obtain i d where x: "sb_handling sb ! k = (i, d)" by fastforce
  note r = end_handler_releases [OF k, unfolded x]
  show "advances pg contents capacity state sb (reply_at mc k v sb)"
    "advances pg contents capacity state sb (ignore_at mc k sb)"
    using advances_answer_with [OF ok r] advances_drop_unanswered [OF ok r] x
    by (simp_all add: reply_at_def ignore_at_def)
  have "desk_of contents state (keep_at k sb) = desk_of contents state sb"
    using mset_drop_nth [OF k] by (simp add: desk_of_def keep_at_def end_handler_def)
  then show "advances pg contents capacity state sb (keep_at k sb)"
    by (intro advances_held [OF ok]) (simp_all add: keep_at_def end_handler_def)
qed

lemma advances_forward:
  assumes ok: "board_ok pg contents capacity state sb" and k: "k < length (sb_kept sb)"
    and h: "handle_ok pg (sb_actors sb) h"
    and s: "prepare_call pg (sb_actors sb) h (dm_rtti (snd (sb_kept sb ! k))) v (dm_answer (snd (sb_kept sb ! k))) = Some s"
  shows "advances pg contents capacity state sb (add_call (identity h) (TellSending s) (release_kept k sb))"
    (is "advances _ _ _ _ _ ?sb")
proof -
  let ?x = "sb_kept sb ! k" and ?y = "(identity h, sd_message s)"
  note prep = prepare_call_ok [OF h board_okD(1) [OF ok] s]
  have w: "dk_handling (desk_of contents state sb) = add_mset ?x (mset (sb_handling sb) + mset (drop_nth k (sb_kept sb)))"
    using mset_drop_nth [OF k] by simp
  have answer: "parcel_answer ?y = parcel_answer ?x" using prep(1) by (simp add: prepared_def)
  have desk: "desk_of contents state ?sb = (desk_of contents state sb)
      \<lparr>dk_handling := mset (sb_handling sb) + mset (drop_nth k (sb_kept sb)),
       dk_waiting := add_mset ?y (dk_waiting (desk_of contents state sb))\<rparr>"
    by (simp add: desk_of_def add_call_def asking_call_def telling_call_def release_kept_def)
  have step: "desk_step (parcel_typed (sb_actors sb)) (desk_of contents state sb) (desk_of contents state ?sb)"
    unfolding desk by (rule desk_step.forward [where x = ?x and y = ?y and ok = "parcel_typed (sb_actors sb)", OF w prep(2) answer])
  have "board_ok pg contents capacity state ?sb"
    using ok prep desk_step_ok [OF step board_okD(6) [OF ok]] receivers_grow_tell [OF board_okD(5) [OF ok]]
    unfolding board_ok_def by (simp add: add_call_def call_ok_def prepared_def release_kept_def)
  with step show ?thesis by (auto simp: advances_def add_call_def release_kept_def)
qed

lemma advances_kept:
  assumes ok: "board_ok pg contents capacity state sb" and k: "k < length (sb_kept sb)"
  shows "advances pg contents capacity state sb (reply_kept_at mc k v sb)"
    "advances pg contents capacity state sb (drop_kept_at mc k sb)"
    "handle_ok pg (sb_actors sb) h \<Longrightarrow> advances pg contents capacity state sb (forward_at mc k h u sb)"
proof -
  obtain i d where x: "sb_kept sb ! k = (i, d)" by fastforce
  note r = release_kept_releases [OF k, unfolded x]
  show drop: "advances pg contents capacity state sb (drop_kept_at mc k sb)"
    and "advances pg contents capacity state sb (reply_kept_at mc k v sb)"
    using advances_answer_with [OF ok r] advances_drop_unanswered [OF ok r] x
    by (simp_all add: reply_kept_at_def drop_kept_at_def)
  assume h: "handle_ok pg (sb_actors sb) h"
  show "advances pg contents capacity state sb (forward_at mc k h u sb)"
    using advances_forward [OF ok k h, of u] advances_refl [OF ok] drop program
    by (cases h) (auto simp: forward_at_def prepare_call_def Let_def split: option.splits)
qed

lemma calls_same: "ca_future (calls ! j) = f \<Longrightarrow> calls[j := (calls ! j)\<lparr>ca_future := f\<rparr>] = calls"
  by auto

abbreviation finished :: "nat \<Rightarrow> ('q, 'o, 'v, 'a) switchboard \<Rightarrow> 'v call list" where
  "finished j sb \<equiv> (sb_calls sb)[j := (sb_calls sb ! j)\<lparr>ca_future := CallDone\<rparr>]"

text \<open>The ends of a call: it is refused or dropped while it sends, or hangs up.\<close>

lemma advances_unsent:
  assumes ok: "board_ok pg contents capacity state sb" and j: "j < length (sb_calls sb)"
    and f: "ca_future (sb_calls sb ! j) = TellSending s"
  shows "advances pg contents capacity state sb
    (sb\<lparr>sb_calls := finished j sb, sb_answers := drop_message (mc_oneshot mc) (sd_message s) (sb_answers sb)\<rparr>)"
    (is "advances _ _ _ _ _ ?sb")
proof -
  let ?c = "sb_calls sb ! j" and ?x = "(ca_actor (sb_calls sb ! j), sd_message s)"
  have i: "ca_actor ?c < length (sb_actors sb)" using board_okD(4) [OF ok j] by (simp add: call_ok_def)
  have "telling_call ?c = {#?x#}" "asking_call ?c = {#}" using f by (simp_all add: telling_call_def asking_call_def)
  note silent = call_silent [of j "sb_calls sb" asking_call, OF j this(2)]
  from call_carries [of j "sb_calls sb" telling_call, OF j \<open>telling_call ?c = {#?x#}\<close>] obtain rest where
      w: "dk_waiting (desk_of contents state sb) = add_mset ?x (rest + queued contents (sb_actors sb))"
      "\<And>c. telling_call c = {#} \<Longrightarrow> sum_list (map telling_call ((sb_calls sb)[j := c])) = rest"
    by auto
  then have "?x \<in># dk_alive (desk_of contents state sb)" by (simp add: dk_alive_def del: desk_of_simps)
  note drop = drop_message_facts [OF ok this]
  have "desk_of contents state ?sb = (desk_of contents state sb)
      \<lparr>dk_waiting := rest + queued contents (sb_actors sb), dk_answers := abandon ?x (dk_answers (desk_of contents state sb))\<rparr>"
    using w(2) by (simp add: desk_of_def drop(1) silent)
  with desk_step.discard [OF w(1), of "parcel_typed (sb_actors sb)"]
  have "desk_step (parcel_typed (sb_actors sb)) (desk_of contents state sb) (desk_of contents state ?sb)" by simp
  then show ?thesis using drop(2,3) i by (intro advances_call [OF ok]) auto
qed

lemma hang_up_dropped:
  assumes ok: "board_ok pg contents capacity state sb" and x: "(i, d) \<in># dk_alive (desk_of contents state sb)"
    and a: "dm_answer d = Some a"
  shows "map state (hang_up (mc_oneshot mc) a (drop_message (mc_oneshot mc) d (sb_answers sb))) =
      (map state (sb_answers sb))[a := Deaf]"
    "length (hang_up (mc_oneshot mc) a (drop_message (mc_oneshot mc) d (sb_answers sb))) = length (sb_answers sb)"
    "a < length (sb_answers sb)"
proof -
  show a_here: "a < length (sb_answers sb)" using waiting_facts(3) [OF ok x] a by blast
  note drop = drop_message_facts [OF ok x]
  show "length (hang_up (mc_oneshot mc) a (drop_message (mc_oneshot mc) d (sb_answers sb))) = length (sb_answers sb)"
    by (simp add: hang_up_def drop(2))
  have "map state (hang_up (mc_oneshot mc) a (drop_message (mc_oneshot mc) d (sb_answers sb))) =
      (abandon (i, d) (map state (sb_answers sb)))[a := Deaf]"
    using a_here by (simp add: answers.map_hang_up drop(1,2))
  then show "map state (hang_up (mc_oneshot mc) a (drop_message (mc_oneshot mc) d (sb_answers sb))) =
      (map state (sb_answers sb))[a := Deaf]"
    by (simp add: abandon_def a)
qed

lemma advances_unasked:
  assumes ok: "board_ok pg contents capacity state sb" and j: "j < length (sb_calls sb)"
    and f: "sending (ca_future (sb_calls sb ! j)) s a g"
    and new: "new = [] \<or> (\<exists>e. new = [(a, Inl (SendFailed e))])"
  shows "advances pg contents capacity state sb
    (sb\<lparr>sb_calls := finished j sb,
        sb_answers := hang_up (mc_oneshot mc) a (drop_message (mc_oneshot mc) (sd_message s) (sb_answers sb)),
        sb_results := sb_results sb @ new\<rparr>)"
    (is "advances _ _ _ _ _ ?sb")
proof -
  let ?c = "sb_calls sb ! j" and ?x = "(ca_actor (sb_calls sb ! j), sd_message s)"
  note facts = sending_facts [OF f]
  have c: "call_ok (sb_actors sb) ?c" by (rule board_okD(4) [OF ok j])
  with facts(7) [of "sb_actors sb" ?c] have i: "ca_actor ?c < length (sb_actors sb)"
      "dm_answer (sd_message s) = Some a"
    by (simp_all add: prepared_def)
  have "asking_call ?c = {#?x#}" "telling_call ?c = {#}" using facts(5,10) [of ?c] by simp_all
  note silent = call_silent [of j "sb_calls sb" telling_call, OF j this(2)]
  from call_carries [of j "sb_calls sb" asking_call, OF j \<open>asking_call ?c = {#?x#}\<close>] obtain rest where
      w: "dk_asking (desk_of contents state sb) = add_mset ?x rest"
      "\<And>c. asking_call c = {#} \<Longrightarrow> sum_list (map asking_call ((sb_calls sb)[j := c])) = rest"
      "?x \<in># dk_alive (desk_of contents state sb)"
    by (auto simp: dk_alive_def)
  note hang = hang_up_dropped [OF ok w(3) i(2)]
  have listening: "state (sb_answers sb ! a) \<noteq> Deaf"
    by (rule receivers_okD(2) [OF board_okD(5) [OF ok] j facts(1)])
  have desk: "desk_of contents state ?sb = (desk_of contents state sb)
      \<lparr>dk_asking := rest,
       dk_answers := (dk_answers (desk_of contents state sb))[a := Deaf],
       dk_results := dk_results (desk_of contents state sb) @ new\<rparr>"
    using w(2) by (simp add: desk_of_def hang(1) silent)
  have "(desk_step (parcel_typed (sb_actors sb)))\<^sup>*\<^sup>* (desk_of contents state sb) (desk_of contents state ?sb)"
    using new
  proof
    assume "\<exists>e. new = [(a, Inl (SendFailed e))]"
    then obtain e where e: "new = [(a, Inl (SendFailed e))]" by blast
    have "parcel_answer ?x = Some a" "dk_answers (desk_of contents state sb) ! a \<noteq> Deaf"
      using i(2) listening hang(3) by simp_all
    from desk_step.refuse [OF w(1) this, of "parcel_typed (sb_actors sb)" e] show ?thesis
      unfolding desk unfolding e by (rule r_into_rtranclp)
  next
    assume "new = []"
    let ?dk = "(desk_of contents state sb)\<lparr>dk_asking := rest,
       dk_answers := abandon ?x (dk_answers (desk_of contents state sb))\<rparr>"
    have "desk_step (parcel_typed (sb_actors sb)) ?dk (?dk\<lparr>dk_answers := (dk_answers ?dk)[a := Deaf]\<rparr>)"
      by (rule desk_step.hang_up) (use hang(3) in simp)
    moreover have "?dk\<lparr>dk_answers := (dk_answers ?dk)[a := Deaf]\<rparr> = desk_of contents state ?sb"
      unfolding desk unfolding \<open>new = []\<close> by (simp add: abandon_def i(2) desk_of_def)
    ultimately show ?thesis using desk_step.withdraw [OF w(1), of "parcel_typed (sb_actors sb)"] by auto
  qed
  moreover have "state (sb_answers sb ! b) = Deaf \<or> receiver_at (sb_calls sb) j = Some b"
    if "b < length (sb_answers sb)" "state (sb_answers ?sb ! b) = Deaf" for b
    using nth_map_eq [OF hang(1), of b] that hang(2) facts(1) by (cases "b = a") auto
  ultimately show ?thesis using hang(2) i(1) j by (intro advances_call [OF ok]) auto
qed

lemma advances_heard:
  assumes ok: "board_ok pg contents capacity state sb" and j: "j < length (sb_calls sb)"
    and f: "receiving (ca_future (sb_calls sb ! j)) a"
    and answers': "map state answers' = (map state (sb_answers sb))[a := Deaf]"
    and new: "new = [] \<or> (\<exists>v. state (sb_answers sb ! a) = Answered v \<and> new = [(a, Inr v)]) \<or>
      state (sb_answers sb ! a) = Abandoned \<and> new = [(a, Inl NoReply)]"
  shows "advances pg contents capacity state sb
    (sb\<lparr>sb_calls := finished j sb, sb_answers := answers', sb_results := sb_results sb @ new\<rparr>)"
    (is "advances _ _ _ _ _ ?sb")
proof -
  let ?c = "sb_calls sb ! j"
  note facts = receiving_facts [OF f]
  have i: "ca_actor ?c < length (sb_actors sb)" using board_okD(4) [OF ok j] by (simp add: call_ok_def)
  have a: "a < length (sb_answers sb)" by (rule receivers_okD(1) [OF board_okD(5) [OF ok] j facts(1)])
  have len: "length answers' = length (sb_answers sb)" using arg_cong [OF answers', of length] by simp
  have silent: "sum_list (map asking_call (finished j sb)) = sum_list (map asking_call (sb_calls sb))"
    "sum_list (map telling_call (finished j sb)) = sum_list (map telling_call (sb_calls sb))"
    using facts(2,4) [of ?c] by (intro call_silent [OF j]; simp)+
  have desk: "desk_of contents state ?sb = (desk_of contents state sb)
      \<lparr>dk_answers := (dk_answers (desk_of contents state sb))[a := Deaf],
       dk_results := dk_results (desk_of contents state sb) @ new\<rparr>"
    by (simp add: desk_of_def answers' silent)
  have here: "a < length (dk_answers (desk_of contents state sb))"
    "dk_answers (desk_of contents state sb) ! a = state (sb_answers sb ! a)" using a by simp_all
  have "desk_step (parcel_typed (sb_actors sb)) (desk_of contents state sb) (desk_of contents state ?sb)"
    using new
  proof (elim disjE exE conjE)
    assume "new = []"
    with desk_step.hang_up [OF here(1), of "parcel_typed (sb_actors sb)"] show ?thesis
      unfolding desk by (simp add: desk_of_def)
  next
    fix v
    assume "state (sb_answers sb ! a) = Answered v" "new = [(a, Inr v)]"
    with desk_step.take [OF here(1), of v "parcel_typed (sb_actors sb)"] here(2) show ?thesis unfolding desk by simp
  next
    assume "state (sb_answers sb ! a) = Abandoned" "new = [(a, Inl NoReply)]"
    with desk_step.no_reply [OF here(1), of "parcel_typed (sb_actors sb)"] here(2) show ?thesis unfolding desk by simp
  qed
  moreover have "state (sb_answers sb ! b) = Deaf \<or> receiver_at (sb_calls sb) j = Some b"
    if "b < length (sb_answers sb)" "state (answers' ! b) = Deaf" for b
    using nth_map_eq [OF answers', of b] that len facts(1) by (cases "b = a") auto
  ultimately show ?thesis using len i j by (intro advances_call [OF ok]) auto
qed

lemma advances_drop_call:
  assumes ok: "board_ok pg contents capacity state sb" and j: "j < length (sb_calls sb)"
  shows "advances pg contents capacity state sb (drop_call_at mc j sb)"
proof -
  let ?c = "sb_calls sb ! j"
  have c: "call_ok (sb_actors sb) ?c" by (rule board_okD(4) [OF ok j])
  then show ?thesis
  proof (cases rule: call_cases)
    case (tell s)
    with advances_unsent [OF ok j] show ?thesis by (simp add: drop_call_at_def Let_def)
  next
    case (sending s a g)
    with advances_unasked [OF ok j sending, of "[]"] sending_facts(9) [OF sending, where ops = "mc_oneshot mc"] show ?thesis
      by (simp add: drop_call_at_def Let_def)
  next
    case (receiving a)
    have a: "a < length (sb_answers sb)"
      by (rule receivers_okD(1) [OF board_okD(5) [OF ok] j receiving_facts(1) [OF receiving]])
    from advances_heard [OF ok j receiving answers.map_hang_up [OF a], of "[]"] receiving_facts(3) [OF receiving, where ops = "mc_oneshot mc"]
    show ?thesis by (simp add: drop_call_at_def Let_def)
  next
    case finished
    then have "drop_call_at mc j sb = sb" by (simp add: drop_call_at_def Let_def calls_same)
    with advances_refl [OF ok] show ?thesis by simp
  qed
qed

text \<open>Polling a call.\<close>

lemma poll_call_at_eq:
  assumes "poll_call mc (ca_future (sb_calls sb ! j)) (channel_of (sb_actors sb) (ca_actor (sb_calls sb ! j))) (sb_answers sb) =
      Inr (r, f, ch, answers')"
  shows "poll_call_at mc j sb = Inr (log_result (ca_future (sb_calls sb ! j)) r
    ((set_channel (ca_actor (sb_calls sb ! j)) ch sb)
      \<lparr>sb_calls := (sb_calls sb)[j := (sb_calls sb ! j)\<lparr>ca_future := f\<rparr>], sb_answers := answers'\<rparr>))"
  using assms by (simp add: poll_call_at_def Let_def)

lemma log_result_cong: "receiver_of f = receiver_of g \<Longrightarrow> log_result f r sb = log_result g r sb"
  by (simp add: log_result_def)

lemma log_result_pending [simp]: "log_result f Pending sb = sb"
  by (simp add: log_result_def split: option.split)

lemma advances_poll_receiving:
  assumes ok: "board_ok pg contents capacity state sb" and j: "j < length (sb_calls sb)"
    and f: "receiving (ca_future (sb_calls sb ! j)) a"
  shows "\<exists>sb'. poll_call_at mc j sb = Inr sb' \<and> advances pg contents capacity state sb sb' \<and>
    (state (sb_answers sb ! a) = Open \<or> ca_future (sb_calls sb' ! j) = CallDone)"
proof -
  let ?c = "sb_calls sb ! j"
  note a = receivers_okD(1,2) [OF board_okD(5) [OF ok] j receiving_facts(1) [OF f]]
  from answers.poll_reply_cases [OF a] show ?thesis
  proof (elim disjE exE conjE)
    fix answers'
    assume got: "poll_reply (mc_oneshot mc) a (sb_answers sb) = (Pending, answers')" "state (sb_answers sb ! a) = Open"
        "map state answers' = map state (sb_answers sb)"
    let ?sb = "sb\<lparr>sb_answers := answers'\<rparr>"
    have "poll_call_at mc j sb = Inr ?sb"
      using poll_call_at_eq [of sb j] poll_receiving [OF f, of mc] got(1) by (simp add: set_channel_same)
    moreover have "length answers' = length (sb_answers sb)" using arg_cong [OF got(3), of length] by simp
    moreover have "desk_of contents state ?sb = desk_of contents state sb" by (simp add: desk_of_def got(3))
    moreover have "state (answers' ! b) = state (sb_answers sb ! b)" if "b < length (sb_answers sb)" for b
      using nth_map_eq [OF got(3)] that calculation(2) by simp
    ultimately have "advances pg contents capacity state sb ?sb"
      by (intro advances_call [OF ok, where j = j and c = ?c]) auto
    with \<open>poll_call_at mc j sb = Inr ?sb\<close> got(2) show ?thesis by blast
  next
    fix answers' v
    assume got: "poll_reply (mc_oneshot mc) a (sb_answers sb) = (Ready (Inr v), answers')"
        "state (sb_answers sb ! a) = Answered v" "map state answers' = (map state (sb_answers sb))[a := Deaf]"
    have "poll_call_at mc j sb = Inr (sb\<lparr>sb_calls := finished j sb, sb_answers := answers',
        sb_results := sb_results sb @ [(a, Inr v)]\<rparr>)"
      using poll_call_at_eq [of sb j] poll_receiving [OF f, of mc] got(1) receiving_facts(1) [OF f]
      by (simp add: set_channel_same log_result_def)
    with advances_heard [OF ok j f got(3), of "[(a, Inr v)]"] got(2) j show ?thesis by auto
  next
    fix answers'
    assume got: "poll_reply (mc_oneshot mc) a (sb_answers sb) = (Ready (Inl NoReply), answers')"
        "state (sb_answers sb ! a) = Abandoned" "map state answers' = (map state (sb_answers sb))[a := Deaf]"
    have "poll_call_at mc j sb = Inr (sb\<lparr>sb_calls := finished j sb, sb_answers := answers',
        sb_results := sb_results sb @ [(a, Inl NoReply)]\<rparr>)"
      using poll_call_at_eq [of sb j] poll_receiving [OF f, of mc] got(1) receiving_facts(1) [OF f]
      by (simp add: set_channel_same log_result_def)
    with advances_heard [OF ok j f got(3), of "[(a, Inl NoReply)]"] got(2) j show ?thesis by auto
  qed
qed

lemma advances_trans:
  assumes "advances pg contents capacity state sb sb'" "advances pg contents capacity state sb' sb''"
  shows "advances pg contents capacity state sb sb''"
proof -
  have same: "same_actors (sb_actors sb) (sb_actors sb')" "same_actors (sb_actors sb') (sb_actors sb'')"
    using assms by (simp_all add: advances_def)
  then have "same_actors (sb_actors sb) (sb_actors sb'')"
    by (simp add: same_actors_def same_lanes_def)
  moreover have "parcel_typed (sb_actors sb') = parcel_typed (sb_actors sb)" by (rule same_actors_ok(3) [OF same(1)])
  ultimately show ?thesis using assms by (auto simp: advances_def)
qed

text \<open>
  A message that is sent moves from its future into the queue: of a tell nothing happens on the desk,
  an ask is posted and then waits for the answer.
\<close>

lemma advances_sent:
  assumes ok: "board_ok pg contents capacity state sb" and j: "j < length (sb_calls sb)"
    and c: "telling_call (sb_calls sb ! j) = {#(ca_actor (sb_calls sb ! j), m)#} \<and> asking_call (sb_calls sb ! j) = {#} \<or>
      asking_call (sb_calls sb ! j) = {#(ca_actor (sb_calls sb ! j), m)#} \<and> telling_call (sb_calls sb ! j) = {#}"
    and ch: "lanes_ok capacity ch" "same_lanes (channel_of (sb_actors sb) (ca_actor (sb_calls sb ! j))) ch"
      "mset (lanes_backlog contents ch) =
        add_mset m (mset (lanes_backlog contents (channel_of (sb_actors sb) (ca_actor (sb_calls sb ! j)))))"
    and g: "asking_call ((sb_calls sb ! j)\<lparr>ca_future := g\<rparr>) = {#}" "telling_call ((sb_calls sb ! j)\<lparr>ca_future := g\<rparr>) = {#}"
      "call_ok (sb_actors sb) ((sb_calls sb ! j)\<lparr>ca_future := g\<rparr>)" "receiver_of g = receiver_at (sb_calls sb) j"
  shows "advances pg contents capacity state sb
    ((set_channel (ca_actor (sb_calls sb ! j)) ch sb)\<lparr>sb_calls := (sb_calls sb)[j := (sb_calls sb ! j)\<lparr>ca_future := g\<rparr>]\<rparr>)"
    (is "advances _ _ _ _ _ ?sb")
proof -
  let ?c = "sb_calls sb ! j" and ?ok = "parcel_typed (sb_actors sb)"
  have i: "ca_actor ?c < length (sb_actors sb)" using board_okD(4) [OF ok j] by (simp add: call_ok_def)
  have steps: "(desk_step ?ok)\<^sup>*\<^sup>* (desk_of contents state sb) (desk_of contents state ?sb)"
    using c
  proof (elim disjE conjE)
    assume tell: "telling_call ?c = {#(ca_actor ?c, m)#}" "asking_call ?c = {#}"
    from call_carries [of j "sb_calls sb" telling_call, OF j tell(1)] obtain rest where
        "sum_list (map telling_call (sb_calls sb)) = add_mset (ca_actor ?c, m) rest"
        "\<And>c. telling_call c = {#} \<Longrightarrow> sum_list (map telling_call ((sb_calls sb)[j := c])) = rest"
      by blast
    with g(1,2) call_silent [of j "sb_calls sb" asking_call, OF j tell(2)] have
        "desk_of contents state ?sb = desk_of contents state sb"
      by (simp add: desk_of_def set_channel_def queued_add [OF i ch(3)])
    then show ?thesis by simp
  next
    assume ask: "asking_call ?c = {#(ca_actor ?c, m)#}" "telling_call ?c = {#}"
    from call_carries [of j "sb_calls sb" asking_call, OF j ask(1)] obtain rest where rest:
        "sum_list (map asking_call (sb_calls sb)) = add_mset (ca_actor ?c, m) rest"
        "\<And>c. asking_call c = {#} \<Longrightarrow> sum_list (map asking_call ((sb_calls sb)[j := c])) = rest"
      by blast
    with g(1,2) call_silent [of j "sb_calls sb" telling_call, OF j ask(2)] have
        "desk_of contents state ?sb = (desk_of contents state sb)\<lparr>dk_asking := rest,
           dk_waiting := add_mset (ca_actor ?c, m) (dk_waiting (desk_of contents state sb))\<rparr>"
      by (simp add: desk_of_def set_channel_def queued_add [OF i ch(3)])
    moreover have "dk_asking (desk_of contents state sb) = add_mset (ca_actor ?c, m) rest" by (simp add: rest(1))
    ultimately show ?thesis using desk_step.post by (metis r_into_rtranclp)
  qed
  have same: "same_actors (sb_actors sb) (sb_actors ?sb)"
    using same_actors_channel [OF ch(2)] by (simp add: set_channel_def)
  have "board_ok pg contents capacity state ?sb"
  proof (rule board_ok_change [OF ok same _ _ _ _ _ _ _ steps])
    show "\<forall>i < length (sb_actors sb). lanes_ok capacity (channel_of (sb_actors ?sb) i)"
      using board_okD(3) [OF ok] i ch(1) by (simp add: set_channel_def nth_list_update)
    show "\<forall>k < length (sb_calls sb). sb_calls ?sb ! k = sb_calls sb ! k \<or>
        call_ok (sb_actors sb) (sb_calls ?sb ! k) \<and> ca_actor (sb_calls ?sb ! k) = ca_actor (sb_calls sb ! k) \<and>
        (receiver_at (sb_calls ?sb) k = None \<or> receiver_at (sb_calls ?sb) k = receiver_at (sb_calls sb) k)"
      using g(3,4) j by (auto simp: nth_list_update)
  qed (simp_all add: set_channel_def)
  with same steps show ?thesis by (simp add: advances_def)
qed

lemma advances_poll_call:
  assumes ok: "board_ok pg contents capacity state sb" and j: "j < length (sb_calls sb)"
    and unfinished: "ca_future (sb_calls sb ! j) \<noteq> CallDone"
  shows "\<exists>sb'. poll_call_at mc j sb = Inr sb' \<and> advances pg contents capacity state sb sb'"
proof -
  let ?c = "sb_calls sb ! j" and ?ch = "channel_of (sb_actors sb) (ca_actor (sb_calls sb ! j))"
  have c: "call_ok (sb_actors sb) ?c" by (rule board_okD(4) [OF ok j])
  then have i: "ca_actor ?c < length (sb_actors sb)" by (simp add: call_ok_def)
  from c show ?thesis
  proof (cases rule: call_cases)
    case (tell s)
    with c have s: "s = prepare_send ?ch (sd_message s)" by (simp add: call_ok_def prepared_def)
    have w: "telling_call ?c = {#(ca_actor ?c, sd_message s)#} \<and> asking_call ?c = {#} \<or>
        asking_call ?c = {#(ca_actor ?c, sd_message s)#} \<and> telling_call ?c = {#}"
      using tell by (simp add: telling_call_def asking_call_def)
    from queue.poll_send_cases [OF board_okD(3) [OF ok i] s, of "mc_sendable mc"] show ?thesis
    proof (elim disjE exE conjE)
      assume "poll_send (mc_queue mc) (mc_sendable mc) ?ch s = (Pending, ?ch)"
      then have "poll_call_at mc j sb = Inr sb"
        using poll_call_at_eq [of sb j Pending "TellSending s" ?ch "sb_answers sb"] tell
        by (simp add: set_channel_same calls_same)
      with advances_refl [OF ok] show ?thesis by blast
    next
      fix e
      assume "poll_send (mc_queue mc) (mc_sendable mc) ?ch s = (Ready (Inl e), ?ch)"
      then have "poll_call_at mc j sb = Inr (sb\<lparr>sb_calls := finished j sb,
          sb_answers := drop_message (mc_oneshot mc) (sd_message s) (sb_answers sb)\<rparr>)"
        using poll_call_at_eq [of sb j] tell by (simp add: set_channel_same log_result_def)
      with advances_unsent [OF ok j tell] show ?thesis by blast
    next
      fix ch
      assume sent: "poll_send (mc_queue mc) (mc_sendable mc) ?ch s = (Ready (Inr ()), ch)" "lanes_ok capacity ch"
          "same_lanes ?ch ch" "mset (lanes_backlog contents ch) = add_mset (sd_message s) (mset (lanes_backlog contents ?ch))"
      then have "poll_call_at mc j sb = Inr ((set_channel (ca_actor ?c) ch sb)\<lparr>sb_calls := finished j sb\<rparr>)"
        using poll_call_at_eq [of sb j] tell by (simp add: log_result_def set_channel_def)
      with advances_sent [OF ok j w sent(2-4), of CallDone] i tell show ?thesis by simp
    qed
  next
    case (sending s a g)
    note facts = sending_facts [OF sending]
    have c': "?c\<lparr>ca_future := ca_future ?c\<rparr> = ?c" by simp
    from facts(7) [of "sb_actors sb" ?c] c have s: "s = prepare_send ?ch (sd_message s)"
      by (simp add: prepared_def)
    have w: "telling_call ?c = {#(ca_actor ?c, sd_message s)#} \<and> asking_call ?c = {#} \<or>
        asking_call ?c = {#(ca_actor ?c, sd_message s)#} \<and> telling_call ?c = {#}"
      using facts(5,10) [of ?c] by simp
    from queue.poll_send_cases [OF board_okD(3) [OF ok i] s, of "mc_sendable mc"] show ?thesis
    proof (elim disjE exE conjE)
      assume "poll_send (mc_queue mc) (mc_sendable mc) ?ch s = (Pending, ?ch)"
      with poll_sending [OF sending, of mc] have "poll_call_at mc j sb = Inr sb"
        using poll_call_at_eq [of sb j Pending "ca_future ?c" ?ch "sb_answers sb"] by (simp add: set_channel_same)
      with advances_refl [OF ok] show ?thesis by blast
    next
      fix e
      assume "poll_send (mc_queue mc) (mc_sendable mc) ?ch s = (Ready (Inl e), ?ch)"
      with poll_sending [OF sending, of mc] have "poll_call_at mc j sb = Inr (sb\<lparr>sb_calls := finished j sb,
          sb_answers := hang_up (mc_oneshot mc) a (drop_message (mc_oneshot mc) (sd_message s) (sb_answers sb)),
          sb_results := sb_results sb @ [(a, Inl (SendFailed e))]\<rparr>)"
        using poll_call_at_eq [of sb j] facts(1) by (simp add: set_channel_same log_result_def)
      with advances_unasked [OF ok j sending, of "[(a, Inl (SendFailed e))]"] show ?thesis by blast
    next
      fix ch
      assume sent: "poll_send (mc_queue mc) (mc_sendable mc) ?ch s = (Ready (Inr ()), ch)" "lanes_ok capacity ch"
          "same_lanes ?ch ch" "mset (lanes_backlog contents ch) = add_mset (sd_message s) (mset (lanes_backlog contents ?ch))"
      let ?mid = "(set_channel (ca_actor ?c) ch sb)\<lparr>sb_calls := (sb_calls sb)[j := ?c\<lparr>ca_future := g\<rparr>]\<rparr>"
      have mid: "advances pg contents capacity state sb ?mid"
        by (rule advances_sent [OF ok j w sent(2-4)]) (simp_all add: facts(1,2,6,8,11) i)
      then have mid_ok: "board_ok pg contents capacity state ?mid" by (simp add: advances_def)
      have same: "poll_call_at mc j ?mid = poll_call_at mc j sb"
      proof -
        obtain polled where "poll_call mc g ch (sb_answers sb) = Inr polled"
          using poll_receiving [OF facts(3), of mc ch "sb_answers sb"] by simp
        moreover obtain r f ch' answers' where "polled = (r, f, ch', answers')" by (cases polled)
        ultimately have p: "poll_call mc g ch (sb_answers sb) = Inr (r, f, ch', answers')" by simp
        have one: "poll_call mc (ca_future ?c) ?ch (sb_answers sb) = Inr (r, f, ch', answers')"
          using poll_sending [OF sending, of mc] sent(1) p by simp
        have "ca_actor (sb_calls ?mid ! j) = ca_actor ?c" "ca_future (sb_calls ?mid ! j) = g"
          "channel_of (sb_actors ?mid) (ca_actor ?c) = ch" "sb_answers ?mid = sb_answers sb"
          using i j by (simp_all add: set_channel_def)
        with p have two: "poll_call mc (ca_future (sb_calls ?mid ! j))
            (channel_of (sb_actors ?mid) (ca_actor (sb_calls ?mid ! j))) (sb_answers ?mid) = Inr (r, f, ch', answers')"
          by simp
        have "receiver_of g = receiver_of (ca_future ?c)" using facts(1,2) by simp
        note log = log_result_cong [OF this]
        show ?thesis
          unfolding poll_call_at_eq [OF one] poll_call_at_eq [OF two]
          using i j by (simp add: set_channel_def log)
      qed
      have "receiving (ca_future (sb_calls ?mid ! j)) a" "j < length (sb_calls ?mid)" using facts(3) j by simp_all
      with advances_poll_receiving [OF mid_ok this(2) this(1)] obtain sb' where
          out: "poll_call_at mc j ?mid = Inr sb'" "advances pg contents capacity state ?mid sb'" by blast
      have "poll_call_at mc j sb = Inr sb'" by (rule trans [OF same [symmetric] out(1)])
      with advances_trans [OF mid out(2)] show ?thesis by blast
    qed
  next
    case (receiving a)
    with advances_poll_receiving [OF ok j] show ?thesis by blast
  next
    case finished
    with unfinished show ?thesis by simp
  qed
qed

end

end
