(* ===== verification/Calls_Properties.thy ===== *)
theory Calls_Properties
  imports Calls_Steps
begin

text \<open>
  The properties of handles and calls: an ask yields the answer that was sent through its own sender
  or says why there is none, handles keep their types through every conversion, and a call to an
  actor that is gone ends unless its sender was kept or forwarded.
\<close>

section \<open>Runs\<close>

text \<open>Any actors with empty mailboxes and any handles to them.\<close>

definition switchboard_new :: "('q, 'v) actors \<Rightarrow> handle list \<Rightarrow> ('q, 'o, 'v, 'a) switchboard" where
  "switchboard_new actors handles =
     \<lparr>sb_actors = actors, sb_handles = handles, sb_answers = [], sb_calls = [], sb_handling = [], sb_kept = [], sb_asked = [],
      sb_pulled = [], sb_replies = [], sb_results = []\<rparr>"

definition actors_ready :: "program \<Rightarrow> ('q \<Rightarrow> 'v DispatchedActorMessage list) \<Rightarrow> ('q \<Rightarrow> nat option) \<Rightarrow>
    ('q, 'v) actors \<Rightarrow> handle list \<Rightarrow> bool" where
  "actors_ready pg contents capacity actors handles \<longleftrightarrow>
     binders_ok actors \<and> list_all (handle_ok pg actors) handles \<and>
     (\<forall>i < length actors. lanes_ok capacity (channel_of actors i) \<and> lanes_backlog contents (channel_of actors i) = [])"

lemma board_ok_new:
  assumes "actors_ready pg contents capacity actors handles"
  shows "board_ok pg contents capacity state (switchboard_new actors handles)"
proof -
  have "queued contents actors = {#}" using assms by (simp add: queued_def actors_ready_def)
  with assms show ?thesis
    by (simp add: board_ok_def switchboard_new_def actors_ready_def desk_ok_def dk_alive_def replied_def receivers_ok_def)
qed

lemma in_sum_list_mset:
  fixes f :: "'b \<Rightarrow> 'c multiset"
  shows "x \<in># sum_list (map f ys) \<longleftrightarrow> (\<exists>y \<in> set ys. x \<in># f y)"
  by (induction ys) auto

lemma in_sum_mset_lessThan:
  fixes f :: "nat \<Rightarrow> 'c multiset"
  shows "x \<in># (\<Sum>i<n. f i) \<longleftrightarrow> (\<exists>i<n. x \<in># f i)"
  by (induction n) (auto simp: less_Suc_eq)

text \<open>
  Where else the sender of an answer channel may be than in the ask's own future or with the actor
  \<open>i\<close> that was asked: kept beyond its handler, in the future of a forward, or with another actor,
  queued or in a handler.
\<close>

definition sender_elsewhere :: "('q \<Rightarrow> 'v DispatchedActorMessage list) \<Rightarrow> nat \<Rightarrow> nat \<Rightarrow>
    ('q, 'o, 'v, 'a) switchboard \<Rightarrow> bool" where
  "sender_elsewhere contents i a sb \<longleftrightarrow>
     (\<exists>x \<in> set (sb_kept sb). dm_answer (snd x) = Some a) \<or>
     (\<exists>c \<in> set (sb_calls sb). \<exists>s. ca_future c = TellSending s \<and> dm_answer (sd_message s) = Some a) \<or>
     (\<exists>k < length (sb_actors sb). k \<noteq> i \<and>
        (\<exists>d \<in> set (lanes_backlog contents (channel_of (sb_actors sb) k)). dm_answer d = Some a)) \<or>
     (\<exists>x \<in> set (sb_handling sb). fst x \<noteq> i \<and> dm_answer (snd x) = Some a)"

context call_system
begin

lemma advances_step:
  assumes ok: "board_ok pg contents capacity state sb" and enabled: "call_enabled x sb"
  shows "\<exists>sb'. call_step mc x sb = Inr sb' \<and> advances pg contents capacity state sb sb'"
proof -
  note handle = board_okD(2) [OF ok] and ops = handle_operations_ok [OF board_okD(2) [OF ok] board_okD(1) [OF ok]]
  have grow: "\<exists>sb'. Inr (add_handle h sb) = (Inr sb' :: (confusion, ('q, 'o, 'v, 'a) switchboard) outcome) \<and>
      advances pg contents capacity state sb sb'"
    if "\<And>h'. h = Some h' \<Longrightarrow> handle_ok pg (sb_actors sb) h'" for h
    using advances_handle [OF ok that] by blast
  show ?thesis
  proof (cases x)
    case (Erase n)
    show ?thesis
      unfolding Erase call_step.simps program by (rule grow, rule ops(1)) (use enabled Erase in simp_all)
  next
    case (EraseLocal n)
    show ?thesis
      unfolding EraseLocal call_step.simps program by (rule grow, rule ops(2)) (use enabled EraseLocal in simp_all)
  next
    case (IntoShared n)
    show ?thesis
      unfolding IntoShared call_step.simps program by (rule grow, rule ops(3)) (use enabled IntoShared in simp_all)
  next
    case (IntoLocal n)
    show ?thesis
      unfolding IntoLocal call_step.simps program by (rule grow, rule ops(4)) (use enabled IntoLocal in simp_all)
  next
    case (Downcast n A)
    show ?thesis
      unfolding Downcast call_step.simps program by (rule grow, rule ops(5)) (use enabled Downcast in simp_all)
  next
    case (ProtocolFrom n shared Ms)
    show ?thesis
      unfolding ProtocolFrom call_step.simps program by (rule grow, rule ops(6)) (use enabled ProtocolFrom in simp_all)
  next
    case (TryBind n shared Ms)
    show ?thesis
      unfolding TryBind call_step.simps program by (rule grow, rule ops(7)) (use enabled TryBind in simp_all)
  next
    case (Tell n M v)
    with enabled advances_tell [OF ok handle program] show ?thesis by simp
  next
    case (TryTell n M v)
    with enabled advances_try_tell [OF ok handle] show ?thesis by simp
  next
    case (Ask n M v)
    with enabled answers.advances_ask [OF ok handle program refl] show ?thesis by simp
  next
    case (PollCall j)
    with enabled advances_poll_call [OF ok, of j] show ?thesis by (auto simp: no_error_def)
  next
    case (DropCall j)
    with enabled advances_drop_call [OF ok] show ?thesis by simp
  next
    case (Receive i)
    with enabled advances_receive(1) [OF ok] show ?thesis by simp
  next
    case (Discard i)
    with enabled advances_receive(2) [OF ok] show ?thesis by simp
  next
    case (CloseMailbox i)
    with enabled advances_close [OF ok] show ?thesis by simp
  next
    case (Reply k v)
    with enabled advances_handler(1) [OF ok] show ?thesis by simp
  next
    case (Ignore k)
    with enabled advances_handler(2) [OF ok] show ?thesis by simp
  next
    case (Keep k)
    with enabled advances_handler(3) [OF ok] show ?thesis by simp
  next
    case (ReplyKept k v)
    with enabled advances_kept(1) [OF ok] show ?thesis by simp
  next
    case (DropKept k)
    with enabled advances_kept(2) [OF ok] show ?thesis by simp
  next
    case (Forward k n v)
    with enabled advances_kept(3) [OF ok _ handle] show ?thesis by simp
  qed
qed

lemma advances_run:
  "board_ok pg contents capacity state sb \<Longrightarrow>
     \<exists>sb'. call_run mc xs sb = Inr sb' \<and> advances pg contents capacity state sb sb'"
proof (induction xs arbitrary: sb)
  case Nil
  with advances_refl show ?case by auto
next
  case (Cons x xs)
  show ?case
  proof (cases "call_enabled x sb")
    case True
    from advances_step [OF Cons.prems True] obtain sb1 where
        one: "call_step mc x sb = Inr sb1" "advances pg contents capacity state sb sb1"
      by blast
    then have "board_ok pg contents capacity state sb1" by (simp add: advances_def)
    from Cons.IH [OF this] one True advances_trans [OF one(2)] show ?thesis by auto
  next
    case False
    with Cons.IH [OF Cons.prems] show ?thesis by simp
  qed
qed

text \<open>A closed channel refuses whatever is sent.\<close>

lemma closed_refuses:
  assumes "lanes_ok capacity ch" "lanes_refuse closed ch" "s = prepare_send ch m"
  shows "\<exists>e. poll_send (mc_queue mc) is_sendable ch s = (Ready (Inl e), ch)"
proof -
  have lane: "closed (lane_queue (ml_lanes ch ! i))" if "i < length (ml_lanes ch)" for i
    using assms(2) that by (simp add: lanes_refuse_def list_all_length)
  obtain e where e: "send_answer contents closed capacity is_sendable ch m = Inl e" "e \<noteq> MailboxFull"
  proof (cases "is_sendable m \<and> ml_priority ch m < length (ml_lanes ch)")
    case True
    with lane that [of ActorDead] show ?thesis by (simp add: send_answer_def Let_def)
  next
    case False
    with that [of NotSendable] that [of Unroutable] show ?thesis
      by (cases "is_sendable m") (simp_all add: send_answer_def Let_def)
  qed
  obtain ch' where "try_send (mc_queue mc) is_sendable ch s = (Inl e, ch')" "ch' = ch"
    using queue.try_send_answer [OF assms(1), of is_sendable m] e(1) assms(3) by (metis Inl_Inr_False)
  with queue.poll_send_try_send [OF assms(1), of is_sendable m] e(2) assms(3) show ?thesis by simp
qed

lemma asking_receives:
  assumes ok: "board_ok pg contents capacity state sb" and k: "k < length (sb_calls sb)"
    and x: "x \<in># asking_call (sb_calls sb ! k)" "parcel_answer x = Some a"
  shows "receiver_at (sb_calls sb) k = Some a" "\<not> receiving (ca_future (sb_calls sb ! k)) b"
proof -
  have c: "call_ok (sb_actors sb) (sb_calls sb ! k)" by (rule board_okD(4) [OF ok k])
  have "receiver_at (sb_calls sb) k = Some a \<and> \<not> receiving (ca_future (sb_calls sb ! k)) b"
    using x c by (cases "ca_future (sb_calls sb ! k)")
      (auto simp: asking_call_def call_ok_def prepared_def receiving_def)
  then show "receiver_at (sb_calls sb) k = Some a" "\<not> receiving (ca_future (sb_calls sb ! k)) b" by simp_all
qed

lemma sender_gone:
  assumes ok: "board_ok pg contents capacity state sb" and j: "j < length (sb_calls sb)"
    and receiving: "receiving (ca_future (sb_calls sb ! j)) a"
    and gone: "lanes_backlog contents (channel_of (sb_actors sb) i) = []" "i \<notin> fst ` set (sb_handling sb)"
      "\<not> sender_elsewhere contents i a sb"
  shows "carriers a (dk_alive (desk_of contents state sb)) = {#}"
proof (rule ccontr)
  assume "carriers a (dk_alive (desk_of contents state sb)) \<noteq> {#}"
  then obtain x where "x \<in># carriers a (dk_alive (desk_of contents state sb))" by blast
  then have x: "x \<in># dk_alive (desk_of contents state sb)" "parcel_answer x = Some a" by (simp_all add: in_carriers)
  from x(1) consider
      (asking) k where "k < length (sb_calls sb)" "x \<in># asking_call (sb_calls sb ! k)"
    | (telling) c where "c \<in> set (sb_calls sb)" "x \<in># telling_call c"
    | (queued) k d where "k < length (sb_actors sb)" "x = (k, d)" "d \<in> set (lanes_backlog contents (channel_of (sb_actors sb) k))"
    | (handling) "x \<in> set (sb_handling sb)" | (kept) "x \<in> set (sb_kept sb)"
    by (auto simp: dk_alive_def in_sum_list_mset queued_def in_sum_mset_lessThan in_set_conv_nth)
  then show False
  proof cases
    case asking
    from asking_receives [OF ok asking x(2)] receivers_okD(4) [OF board_okD(5) [OF ok] j receiving_facts(1) [OF receiving]]
      receiving asking(1)
    show False by blast
  next
    case telling
    then obtain s where "ca_future c = TellSending s" "x = (ca_actor c, sd_message s)"
      by (auto simp: telling_call_def split: call_future.splits)
    with telling(1) x(2) gone(3) show False by (auto simp: sender_elsewhere_def)
  next
    case queued
    with x(2) gone(1,3) show False by (cases "k = i") (auto simp: sender_elsewhere_def)
  next
    case handling
    with x(2) gone(2,3) show False by (cases "fst x = i") (auto simp: sender_elsewhere_def)
  next
    case kept
    with x(2) gone(3) show False by (auto simp: sender_elsewhere_def)
  qed
qed

lemma gone_ends:
  assumes ok: "board_ok pg contents capacity state sb" and j: "j < length (sb_calls sb)"
    and gone: "lanes_refuse closed (channel_of (sb_actors sb) (ca_actor (sb_calls sb ! j)))"
      "lanes_backlog contents (channel_of (sb_actors sb) (ca_actor (sb_calls sb ! j))) = []"
      "ca_actor (sb_calls sb ! j) \<notin> fst ` set (sb_handling sb)"
      "\<forall>a. receiver_of (ca_future (sb_calls sb ! j)) = Some a \<longrightarrow>
        \<not> sender_elsewhere contents (ca_actor (sb_calls sb ! j)) a sb"
    and unfinished: "ca_future (sb_calls sb ! j) \<noteq> CallDone"
  shows "\<exists>sb'. poll_call_at mc j sb = Inr sb' \<and> ca_future (sb_calls sb' ! j) = CallDone"
proof -
  let ?c = "sb_calls sb ! j" and ?ch = "channel_of (sb_actors sb) (ca_actor (sb_calls sb ! j))"
  have c: "call_ok (sb_actors sb) ?c" by (rule board_okD(4) [OF ok j])
  then have i: "ca_actor ?c < length (sb_actors sb)" by (simp add: call_ok_def)
  note lanes = board_okD(3) [OF ok i]
  from c show ?thesis
  proof (cases rule: call_cases)
    case (tell s)
    with c have "s = prepare_send ?ch (sd_message s)" by (simp add: call_ok_def prepared_def)
    from closed_refuses [OF lanes gone(1) this, of "mc_sendable mc"] tell j show ?thesis
      by (auto simp: poll_call_at_def Let_def log_result_def set_channel_def)
  next
    case (sending s a g)
    note facts = sending_facts [OF sending]
    from facts(7) [of "sb_actors sb" ?c] c have "s = prepare_send ?ch (sd_message s)" by (simp add: prepared_def)
    from closed_refuses [OF lanes gone(1) this, of "mc_sendable mc"] poll_sending [OF sending, of mc] j facts(1)
    show ?thesis by (auto simp: poll_call_at_def Let_def log_result_def set_channel_def)
  next
    case (receiving a)
    have "carriers a (dk_alive (desk_of contents state sb)) = {#}"
      by (rule sender_gone [OF ok j receiving gone(2,3)]) (use gone(4) receiving_facts(1) [OF receiving] in simp)
    moreover have "a < length (sb_answers sb)"
      by (rule receivers_okD(1) [OF board_okD(5) [OF ok] j receiving_facts(1) [OF receiving]])
    moreover have "\<forall>a < length (dk_answers (desk_of contents state sb)). fate_ok (desk_of contents state sb) a"
      using board_okD(6) [OF ok] unfolding desk_ok_def by blast
    ultimately have "state (sb_answers sb ! a) \<noteq> Open" by (simp add: fate_ok_def)
    with advances_poll_receiving [OF ok j receiving] show ?thesis by blast
  next
    case finished
    with unfinished show ?thesis by simp
  qed
qed

end

section \<open>An answer channel as tokio documents it\<close>

text \<open>The least that satisfies the contract: the state itself.\<close>

definition state_oneshot :: "('a answer_state, 'a) oneshot" where
  "state_oneshot =
     \<lparr>os_channel = Open,
      os_send = (\<lambda>c a. if c = Deaf then (Inl a, Deaf) else (Inr (), Answered a)),
      os_poll = (\<lambda>c. case c of
        Open \<Rightarrow> (Pending, Open)
      | Answered a \<Rightarrow> (Ready (Inr a), Deaf)
      | _ \<Rightarrow> (Ready (Inl ()), Deaf)),
      os_drop_sender = (\<lambda>c. if c = Open then Abandoned else c),
      os_drop_receiver = (\<lambda>c. Deaf)\<rparr>"

interpretation plain: oneshot_channel state_oneshot "\<lambda>c. c"
  by unfold_locales (simp_all add: state_oneshot_def)

text \<open>
  A small program: actors of type 1 handle messages 5 and 6, nothing about them crosses threads but
  the messages. One actor, with one lane of four messages, and a typed handle to it.
\<close>

definition sample_program :: program where
  "sample_program = \<lparr>pg_rtti = (\<lambda>A. \<lparr>ar_channel_send = True, ar_channel_sync = True, ar_error_send = True,
     ar_error_sync = True\<rparr>), pg_handles = (\<lambda>A M. A = 1 \<and> (M = 5 \<or> M = 6))\<rparr>"

definition sample_machine :: "(nat DispatchedActorMessage fifo, nat answer_state, nat, nat) machine" where
  "sample_machine = \<lparr>mc_queue = fifo_mpsc, mc_oneshot = state_oneshot, mc_sendable = (\<lambda>_. True),
     mc_program = sample_program\<rparr>"

interpretation sample: call_system sample_machine ff_items ff_closed ff_capacity "\<lambda>c. c" sample_program
  by (rule call_system.intro)
    (simp_all add: sample_machine_def fifo.mpsc_queue_axioms plain.oneshot_channel_axioms call_system_axioms_def)

definition sample_actors :: "(nat DispatchedActorMessage fifo, nat) actors" where
  "sample_actors = [\<lparr>ai_rtti = 1,
     ai_channel = \<lparr>ml_lanes = [BoundedLane \<lparr>ff_items = [], ff_closed = False, ff_capacity = Some 4\<rparr>],
       ml_priority = no_priority_router\<rparr>,
     ai_binder = (\<lambda>M. if M = 5 then Some (Dispatcher 1 5) else None)\<rparr>]"

lemma sample_ready: "actors_ready sample_program ff_items ff_capacity sample_actors [TypedActorHandle 1 0]"
  by (simp add: actors_ready_def sample_actors_def binders_ok_def handle_ok_def lanes_ok_def lanes_backlog_def)

text \<open>
  An ask whose message the actor took and whose loop then closed the mailbox and ended: the message
  is discarded, and the next poll of the waiting call yields \<open>NoReply\<close>.
\<close>

definition sample_orphan :: "(nat, nat) call_act list" where
  "sample_orphan = [Ask 0 5 70, PollCall 0, CloseMailbox 0, Discard 0]"

definition sample_orphaned :: "(nat DispatchedActorMessage fifo, nat answer_state, nat, nat) switchboard" where
  "sample_orphaned =
     \<lparr>sb_actors = [(sample_actors ! 0)\<lparr>ai_channel := \<lparr>ml_lanes = [BoundedLane \<lparr>ff_items = [], ff_closed = True,
        ff_capacity = Some 4\<rparr>], ml_priority = no_priority_router\<rparr>\<rparr>],
      sb_handles = [TypedActorHandle 1 0], sb_answers = [Abandoned],
      sb_calls = [\<lparr>ca_actor = 0, ca_future = ExchangeReceiving 0\<rparr>], sb_handling = [], sb_kept = [],
      sb_asked = [(0, dispatched (Dispatcher 1 5) 5 70 (Some 0))], sb_pulled = [], sb_replies = [], sb_results = []\<rparr>"

section \<open>The properties\<close>

lemma call_system_of:
  assumes "mpsc_queue (mc_queue mc) contents closed capacity" "oneshot_channel (mc_oneshot mc) state"
  shows "call_system mc contents closed capacity state (mc_program mc)"
  using assms by (simp add: call_system_def call_system_axioms_def)

text \<open>
  What a result says of the ask it belongs to: an answer is one sent through the sender of this very
  ask, and its message had been pulled for a handler; no reply means nothing was ever sent through
  it; a failed send means that no message with this sender was ever pulled.
\<close>

definition result_sound :: "('q, 'o, 'v, 'a) switchboard \<Rightarrow> nat \<times> (AskError + 'a) \<Rightarrow> bool" where
  "result_sound sb ar =
     (case snd ar of
        Inr v \<Rightarrow> (fst ar, v) \<in> set (sb_replies sb) \<and> sb_asked sb ! fst ar \<in> set (sb_pulled sb)
      | Inl NoReply \<Rightarrow> fst ar \<notin> fst ` set (sb_replies sb)
      | Inl (SendFailed e) \<Rightarrow> fst ar \<notin> fst ` set (sb_replies sb) \<and> sb_asked sb ! fst ar \<notin> set (sb_pulled sb) \<and>
          (\<forall>x \<in> set (sb_pulled sb). dm_answer (snd x) \<noteq> Some (fst ar)))"

lemma result_ok_sound:
  assumes ok: "desk_ok ok (desk_of contents state sb)" and ar: "ar \<in> set (sb_results sb)"
  shows "result_sound sb ar"
proof -
  let ?dk = "desk_of contents state sb"
  have r: "result_ok ?dk ar" using assms by (simp add: desk_ok_def)
  then have a: "fst ar < length (sb_answers sb)" by (simp add: result_ok_def)
  with ok have fate: "fate_ok ?dk (fst ar)" by (simp add: desk_ok_def)
  then have own: "parcel_answer (sb_asked sb ! fst ar) = Some (fst ar)" by (simp add: fate_ok_def)
  show ?thesis
  proof (cases "snd ar")
    case (Inr v)
    with r have v: "(fst ar, v) \<in> set (sb_replies sb)" by (simp add: result_ok_def)
    then have "fst ar \<in> replied ?dk" by (force simp: replied_def)
    with fate v Inr show ?thesis by (simp add: fate_ok_def result_sound_def)
  next
    case (Inl e)
    show ?thesis
    proof (cases e)
      case NoReply
      with Inl r show ?thesis by (simp add: result_ok_def result_sound_def replied_def)
    next
      case (SendFailed e')
      with Inl r have none: "fst ar \<notin> fst ` set (sb_replies sb)"
          "\<forall>x \<in> set (sb_pulled sb). dm_answer (snd x) \<noteq> Some (fst ar)"
        by (auto simp: result_ok_def replied_def pulled_for_def)
      moreover from none(2) own have "sb_asked sb ! fst ar \<notin> set (sb_pulled sb)" by blast
      ultimately show ?thesis using Inl SendFailed by (simp add: result_sound_def)
    qed
  qed
qed

text \<open>C24: For every queue and answer channel that keep tokio's contracts, and every interleaving of
  handle conversions, tells, asks by typed, dynamic and protocol handles, polls and drops of their
  futures, receives, discards and closings, and whatever handlers do with the answer sender (answer,
  drop, keep it beyond their end, answer or drop it later, or forward it with its envelope to any
  actor, over and over): nothing panics and no dispatcher meets a message or an actor of another type;
  every ask resolves at most once and its sender answers at most once; an ask that yields an answer
  yields the one sent through its own sender, wherever that had got to, and its message had been
  handed to a handler; one that yields \<open>NoReply\<close> was never answered; and of one whose send failed no
  message was ever handed to a handler.\<close>

theorem ask_accounting:
  assumes "mpsc_queue (mc_queue mc) contents closed capacity" "oneshot_channel (mc_oneshot mc) state"
    and "actors_ready (mc_program mc) contents capacity actors handles"
  shows "\<exists>sb. call_run mc xs (switchboard_new actors handles) = Inr sb \<and>
    distinct (map fst (sb_results sb)) \<and> distinct (map fst (sb_replies sb)) \<and>
    list_all (result_sound sb) (sb_results sb)"
proof -
  from call_system.advances_run [OF call_system_of [OF assms(1,2)] board_ok_new [OF assms(3)], of xs]
  obtain sb where sb: "call_run mc xs (switchboard_new actors handles) = Inr sb"
      "board_ok (mc_program mc) contents capacity state sb"
    by (auto simp: advances_def)
  note desk = board_okD(6) [OF sb(2)]
  with result_ok_sound [OF desk] sb(1) show ?thesis by (auto simp: desk_ok_def list_all_iff)
qed

text \<open>
  An ask whose handler keeps the sender, which is answered later; one whose envelope is forwarded (to
  the same actor) and answered there; and one that is dropped unanswered with its actor.
\<close>

definition sample_asks :: "(nat, nat) call_act list" where
  "sample_asks = [Ask 0 5 70, PollCall 0, Receive 0, Keep 0, PollCall 0, ReplyKept 0 71, PollCall 0,
     Erase 0, TryBind 1 True [5], Ask 2 5 80, PollCall 1, Receive 0, Keep 0, Forward 0 1 80, PollCall 2,
     Receive 0, Reply 0 81, PollCall 1, Ask 0 5 90, PollCall 3, CloseMailbox 0, Discard 0, PollCall 3]"

lemma sample_asks_run:
  "\<exists>sb. call_run sample_machine sample_asks (switchboard_new sample_actors [TypedActorHandle 1 0]) = Inr sb \<and>
     sb_results sb = [(0, Inr 71), (1, Inr 81), (2, Inl NoReply)] \<and> sb_replies sb = [(0, 71), (1, 81)]"
  by (simp add: sample_asks_def sample_machine_def sample_program_def sample_actors_def
      switchboard_new_def start_ask_def prepare_call_def typed_prepare_send_def prepare_send_def add_call_def
      static_dispatcher_def dispatched_def poll_call_at_def poll_send_def set_channel_def log_result_def
      exchange_receiving_def erased_receiving_def poll_reply_def answer_poll_def state_oneshot_def no_error_def
      close_at_def close_mailbox_def discard_at_def poll_receive_def drop_message_def fifo_mpsc_def
      no_priority_router_def hang_up_def set_lane_def has_room_def receive_at_def dispatch_onto_loop_def
      keep_at_def end_handler_def release_kept_def reply_kept_at_def answer_with_def answer_send_def
      forward_at_def prepare_send_dynamic_def bind_dispatcher_def try_bind_def erased_as_def is_shareable_def
      erased_sendable_def add_handle_def reply_at_def drop_nth_def Let_def)

theorem ask_accounting_witness:
  "\<exists>sb. call_run sample_machine sample_asks (switchboard_new sample_actors [TypedActorHandle 1 0]) = Inr sb \<and>
    distinct (map fst (sb_results sb)) \<and> distinct (map fst (sb_replies sb)) \<and>
    list_all (result_sound sb) (sb_results sb)"
  by (rule ask_accounting [OF sample.queue.mpsc_queue_axioms sample.answers.oneshot_channel_axioms])
    (simp add: sample_machine_def sample_ready)

text \<open>C25: Types survive erasure. After any run, a typed handle, also one that was recovered by a
  downcast, points to an actor of its type; a shared erased handle and a shared protocol point only
  to actors whose channel and error may be shared between threads; every dispatcher a protocol
  handle keeps is the one of its actor and message; and every message that an actor pulled carried
  the dispatcher of that actor's type and its own type.\<close>

theorem handles_keep_types:
  assumes "mpsc_queue (mc_queue mc) contents closed capacity" "oneshot_channel (mc_oneshot mc) state"
    and "actors_ready (mc_program mc) contents capacity actors handles"
  shows "\<exists>sb. call_run mc xs (switchboard_new actors handles) = Inr sb \<and>
    list_all (handle_ok (mc_program mc) (sb_actors sb)) (sb_handles sb) \<and>
    list_all (parcel_typed (sb_actors sb)) (sb_pulled sb) \<and>
    map ai_rtti (sb_actors sb) = map ai_rtti actors"
proof -
  from call_system.advances_run [OF call_system_of [OF assms(1,2)] board_ok_new [OF assms(3)], of xs]
  obtain sb where sb: "call_run mc xs (switchboard_new actors handles) = Inr sb"
      "board_ok (mc_program mc) contents capacity state sb" "same_actors actors (sb_actors sb)"
    by (auto simp: advances_def switchboard_new_def)
  note desk = board_okD(6) [OF sb(2)]
  have "list_all (parcel_typed (sb_actors sb)) (sb_pulled sb)"
    using desk by (auto simp: desk_ok_def parcel_ok_def list_all_iff)
  moreover have "map ai_rtti (sb_actors sb) = map ai_rtti actors"
    using sb(3) by (auto simp: same_actors_def intro: nth_equalityI)
  ultimately show ?thesis using sb(1,2) by (auto simp: board_ok_def)
qed

theorem handles_keep_types_witness:
  "\<exists>sb. call_run sample_machine sample_asks (switchboard_new sample_actors [TypedActorHandle 1 0]) = Inr sb \<and>
    list_all (handle_ok (mc_program sample_machine) (sb_actors sb)) (sb_handles sb) \<and>
    list_all (parcel_typed (sb_actors sb)) (sb_pulled sb) \<and>
    map ai_rtti (sb_actors sb) = map ai_rtti sample_actors"
  by (rule handles_keep_types [OF sample.queue.mpsc_queue_axioms sample.answers.oneshot_channel_axioms])
    (simp add: sample_machine_def sample_ready)

text \<open>C26: No call waits for an actor that is gone. In every state a run reaches: if the mailbox of the
  actor that was called is closed and drained, none of its handlers runs, and the sender of the
  answer is not elsewhere (kept beyond its handler, in the future of a forward, or with another actor
  it was forwarded to), one poll ends the call, whatever it was waiting for.\<close>

theorem gone_actor_ends_calls:
  assumes "mpsc_queue (mc_queue mc) contents closed capacity" "oneshot_channel (mc_oneshot mc) state"
    and "actors_ready (mc_program mc) contents capacity actors handles"
    and "call_run mc xs (switchboard_new actors handles) = Inr sb"
    and "j < length (sb_calls sb)" "ca_future (sb_calls sb ! j) \<noteq> CallDone"
    and "lanes_refuse closed (channel_of (sb_actors sb) (ca_actor (sb_calls sb ! j)))"
    and "lanes_backlog contents (channel_of (sb_actors sb) (ca_actor (sb_calls sb ! j))) = []"
    and "ca_actor (sb_calls sb ! j) \<notin> fst ` set (sb_handling sb)"
    and "\<forall>a. receiver_of (ca_future (sb_calls sb ! j)) = Some a \<longrightarrow>
      \<not> sender_elsewhere contents (ca_actor (sb_calls sb ! j)) a sb"
  shows "\<exists>sb'. call_step mc (PollCall j) sb = Inr sb' \<and> ca_future (sb_calls sb' ! j) = CallDone"
proof -
  note system = call_system_of [OF assms(1,2)]
  from call_system.advances_run [OF system board_ok_new [OF assms(3)], of xs] assms(4)
  have "board_ok (mc_program mc) contents capacity state sb" by (auto simp: advances_def)
  from call_system.gone_ends [OF system this assms(5,7,8,9,10,6)] show ?thesis by (auto simp: no_error_def)
qed

lemma sample_orphan_run:
  "call_run sample_machine sample_orphan (switchboard_new sample_actors [TypedActorHandle 1 0]) = Inr sample_orphaned"
  by (simp add: sample_orphan_def sample_orphaned_def sample_machine_def sample_program_def sample_actors_def
      switchboard_new_def start_ask_def prepare_call_def typed_prepare_send_def prepare_send_def add_call_def
      static_dispatcher_def dispatched_def poll_call_at_def poll_send_def set_channel_def log_result_def
      exchange_receiving_def poll_reply_def answer_poll_def state_oneshot_def no_error_def close_at_def
      close_mailbox_def discard_at_def poll_receive_def drop_message_def fifo_mpsc_def no_priority_router_def
      hang_up_def set_lane_def has_room_def Let_def)

text \<open>A sender that is kept keeps its caller waiting, also of an actor whose mailbox is closed and drained.\<close>

lemma kept_sender_waits:
  "\<exists>sb sb'. call_run sample_machine [Ask 0 5 70, PollCall 0, Receive 0, Keep 0, CloseMailbox 0]
       (switchboard_new sample_actors [TypedActorHandle 1 0]) = Inr sb \<and>
     lanes_refuse ff_closed (channel_of (sb_actors sb) 0) \<and> lanes_backlog ff_items (channel_of (sb_actors sb) 0) = [] \<and>
     sb_handling sb = [] \<and> sender_elsewhere ff_items 0 0 sb \<and>
     call_step sample_machine (PollCall 0) sb = Inr sb' \<and> ca_future (sb_calls sb' ! 0) = ExchangeReceiving 0"
  by (simp add: sample_machine_def sample_program_def sample_actors_def
      switchboard_new_def start_ask_def prepare_call_def typed_prepare_send_def prepare_send_def add_call_def
      static_dispatcher_def dispatched_def poll_call_at_def poll_send_def set_channel_def log_result_def
      exchange_receiving_def poll_reply_def answer_poll_def state_oneshot_def no_error_def
      close_at_def close_mailbox_def poll_receive_def fifo_mpsc_def
      no_priority_router_def set_lane_def has_room_def receive_at_def dispatch_onto_loop_def
      keep_at_def end_handler_def drop_nth_def lanes_refuse_def lanes_backlog_def sender_elsewhere_def Let_def)

theorem gone_actor_ends_calls_witness:
  "\<exists>sb'. call_step sample_machine (PollCall 0) sample_orphaned = Inr sb' \<and> ca_future (sb_calls sb' ! 0) = CallDone"
  by (rule gone_actor_ends_calls [OF sample.queue.mpsc_queue_axioms sample.answers.oneshot_channel_axioms _
        sample_orphan_run])
    (simp add: sample_machine_def sample_ready,
      simp_all add: sample_orphaned_def lanes_refuse_def lanes_backlog_def sender_elsewhere_def)

end
