(* ===== verification/Handler_Macro.thy ===== *)
theory Handler_Macro
  imports Factories_Prelude
begin

text \<open>
  The handlers of the \<open>messages\<close> attribute, \<open>crates/factories_actor_macro/src/messages.rs\<close>: what the macro
  accepts of a method marked \<open>handler\<close>, what it makes of it, and what the code it makes does. The syntax
  tree of a method is the record of what the macro reads of it; parsing it is \<open>syn\<close>'s. A type is its
  tokens.
\<close>

section \<open>What the macro reads\<close>

datatype rust_type = TypePath string | OtherType string

text \<open>An attribute of a parameter, and whether it has arguments.\<close>

datatype param_attr = AttrAnswer bool | AttrMessage bool | AttrEnvelope bool | AttrContext bool | AttrUnknown

text \<open>A parameter: its attributes, its name if its pattern is a plain identifier, and its type.\<close>

record fn_param =
  fp_attrs :: "param_attr list"
  fp_ident :: "string option"
  fp_type :: rust_type

record receiver =
  rc_reference :: bool
  rc_colon :: bool
  rc_mutable :: bool

record signature =
  sg_ident :: string
  sg_generic :: bool
  sg_unsafe :: bool
  sg_extern :: bool
  sg_async :: bool
  sg_receiver :: "receiver option"
  sg_params :: "fn_param list"
  sg_output :: "rust_type option"

text \<open>One key of a \<open>handler\<close> attribute with its value; a value that does not parse is \<open>None\<close>.\<close>

datatype handler_key =
    KeyMessage "rust_type option"
  | KeyAnswer "rust_type option"
  | KeyDieOnErr "string option"
  | KeyUnknown

datatype DieMode = Forward | Consume

record HandlerConfig =
  hc_message :: "rust_type option"
  hc_answer :: "rust_type option"
  hc_die_on_err :: "DieMode option"

datatype diagnostic =
    InvalidValue | UnknownKey | UnknownDieMode | DuplicateKey
  | GenericHandler | UnsafeHandler | ExternHandler | BadReceiver
  | UnknownParamAttr | MarkerArguments | SecondMarker | DuplicateParam | NotAnIdentifier
  | EnvelopeConflict | MessageConflict | ManualWithOutput | DieWithManual | DieWithoutOutput
  | AnswerWithMessage | AnswerWithoutManual | MessageNotPath | NoMessageName
  | MarkerOnOther | UnsupportedItem | TraitImpl | GenericImpl | SecondEventSource | SecondHook
  | HookConflict | HookKindConflict | EventSourceConflict | EventSourceArguments
  | GenericSource | UnsafeSource | ExternSource | SyncSource | SourceReceiver | HookReceiver
  | NotANamedType | GenericDerive
  | GenericTrait | NotAMethod | MethodBody | GenericMethod | MethodOutput | MethodReceiver | MethodParams | MethodPattern

definition default_config :: HandlerConfig where
  "default_config = \<lparr>hc_message = None, hc_answer = None, hc_die_on_err = None\<rparr>"

text \<open>
  \<open>util::set_value\<close>: a value that does not parse ends the attribute, a second value is reported and
  the first kept.
\<close>

definition set_value :: "'v option \<Rightarrow> 'v option \<Rightarrow> (diagnostic, 'v option \<times> diagnostic list) outcome" where
  "set_value slot parsed =
     (case parsed of
        None \<Rightarrow> Inl (Error InvalidValue)
      | Some v \<Rightarrow> Inr (if slot \<noteq> None then (slot, [DuplicateKey]) else (Some v, [])))"

definition die_mode :: "string option \<Rightarrow> (diagnostic, DieMode) outcome" where
  "die_mode v =
     (case v of
        None \<Rightarrow> Inr Forward
      | Some m \<Rightarrow> if m = ''consume'' then Inr Consume else Inl (Error UnknownDieMode))"

fun handler_key_step :: "handler_key \<Rightarrow> HandlerConfig \<Rightarrow> (diagnostic, HandlerConfig \<times> diagnostic list) outcome" where
  "handler_key_step (KeyMessage v) c =
     and_then (set_value (hc_message c) v) (\<lambda>(slot, ds). Inr (c\<lparr>hc_message := slot\<rparr>, ds))"
| "handler_key_step (KeyAnswer v) c =
     and_then (set_value (hc_answer c) v) (\<lambda>(slot, ds). Inr (c\<lparr>hc_answer := slot\<rparr>, ds))"
| "handler_key_step (KeyDieOnErr v) c =
     and_then (die_mode v) (\<lambda>mode.
       Inr (if hc_die_on_err c \<noteq> None then (c, [DuplicateKey]) else (c\<lparr>hc_die_on_err := Some mode\<rparr>, [])))"
| "handler_key_step KeyUnknown c = Inl (Error UnknownKey)"

text \<open>An error ends its attribute; the attributes of a method add up. A bare attribute has no keys.\<close>

fun parse_nested_meta :: "handler_key list \<Rightarrow> HandlerConfig \<Rightarrow> HandlerConfig \<times> diagnostic list" where
  "parse_nested_meta [] c = (c, [])"
| "parse_nested_meta (k # ks) c =
     (case handler_key_step k c of
        Inl (Error d) \<Rightarrow> (c, [d])
      | Inl Panic \<Rightarrow> (c, [])
      | Inr (c', ds) \<Rightarrow> (let (c'', ds') = parse_nested_meta ks c' in (c'', ds @ ds')))"

fun parse_handler_attrs :: "handler_key list list \<Rightarrow> HandlerConfig \<Rightarrow> HandlerConfig \<times> diagnostic list" where
  "parse_handler_attrs [] c = (c, [])"
| "parse_handler_attrs (a # as) c =
     (let (c', ds) = parse_nested_meta a c; (c'', ds') = parse_handler_attrs as c' in (c'', ds @ ds'))"

section \<open>The bindings of the parameters\<close>

datatype ParamBinding = Field string rust_type | Answer | Message | Envelope | Context

type_synonym 'a checked = "(diagnostic, 'a) outcome"

definition require :: "bool \<Rightarrow> diagnostic \<Rightarrow> unit checked" where
  "require ok d = (if ok then Inr () else Inl (Error d))"

fun marker_binding :: "param_attr \<Rightarrow> (ParamBinding \<times> bool) checked" where
  "marker_binding (AttrAnswer args) = Inr (Answer, args)"
| "marker_binding (AttrMessage args) = Inr (Message, args)"
| "marker_binding (AttrEnvelope args) = Inr (Envelope, args)"
| "marker_binding (AttrContext args) = Inr (Context, args)"
| "marker_binding AttrUnknown = Inl (Error UnknownParamAttr)"

fun param_marker :: "param_attr list \<Rightarrow> ParamBinding option \<Rightarrow> ParamBinding option checked" where
  "param_marker [] found = Inr found"
| "param_marker (a # as) found =
     and_then (marker_binding a) (\<lambda>(b, args).
     and_then (require (\<not> args) MarkerArguments) (\<lambda>_.
     and_then (require (found = None) SecondMarker) (\<lambda>_.
     param_marker as (Some b))))"

text \<open>The bindings so far tell which markers are taken.\<close>

fun bind_params :: "fn_param list \<Rightarrow> ParamBinding list \<Rightarrow> ParamBinding list checked" where
  "bind_params [] bindings = Inr bindings"
| "bind_params (p # ps) bindings =
     and_then (param_marker (fp_attrs p) None) (\<lambda>marker.
       case marker of
         Some b \<Rightarrow>
           and_then (require (b \<notin> set bindings) DuplicateParam) (\<lambda>_. bind_params ps (bindings @ [b]))
       | None \<Rightarrow>
           (case fp_ident p of
              None \<Rightarrow> Inl (Error NotAnIdentifier)
            | Some ident \<Rightarrow> bind_params ps (bindings @ [Field ident (fp_type p)])))"

fun field_of :: "ParamBinding \<Rightarrow> (string \<times> rust_type) option" where
  "field_of (Field ident ty) = Some (ident, ty)"
| "field_of _ = None"

definition fields_of :: "ParamBinding list \<Rightarrow> (string \<times> rust_type) list" where
  "fields_of bindings = List.map_filter field_of bindings"

section \<open>The name of a generated message\<close>

text \<open>
  \<open>do_something\<close> becomes \<open>DoSomething\<close>. \<open>upper\<close> is \<open>char::to_uppercase\<close>, which may give several
  characters, and \<open>is_ident\<close> what \<open>syn\<close> parses as an identifier.
\<close>

fun trim_raw :: "string \<Rightarrow> string" where
  "trim_raw (a # b # s) = (if a = CHR ''r'' \<and> b = CHR ''#'' then trim_raw s else a # b # s)"
| "trim_raw s = s"

fun split_underscore :: "string \<Rightarrow> string list" where
  "split_underscore [] = [[]]"
| "split_underscore (c # s) =
     (if c = CHR ''_'' then [] # split_underscore s
      else (case split_underscore s of [] \<Rightarrow> [[c]] | seg # segs \<Rightarrow> (c # seg) # segs))"

definition pascal_segment :: "(char \<Rightarrow> string) \<Rightarrow> string \<Rightarrow> string" where
  "pascal_segment upper seg = (case seg of [] \<Rightarrow> [] | first # rest \<Rightarrow> upper first @ rest)"

definition message_type_name :: "(char \<Rightarrow> string) \<Rightarrow> (string \<Rightarrow> bool) \<Rightarrow> string \<Rightarrow> string checked" where
  "message_type_name upper is_ident ident =
     (let pascal = concat (map (pascal_segment upper) (split_underscore (trim_raw ident)))
      in if is_ident pascal then Inr pascal else Inl (Error NoMessageName))"

section \<open>The expansion\<close>

datatype answer_type = UnitAnswer | TypeAnswer rust_type | OkOfAnswer rust_type

datatype message_decl = ExistingMessage string | GeneratedMessage string "(string \<times> rust_type) list" answer_type

text \<open>
  The statements of the generated body. \<open>LetParts b\<close> binds the message only if \<open>b\<close>; the arguments of
  the call are the bindings in order.
\<close>

datatype body_stmt =
    LetActorContext
  | LetParts bool
  | LetPartsWithEnvelope
  | LetSendableEnvelope
  | Destructure "string list" bool
  | CallHandler
  | LetResult
  | FailIfErr
  | AnswerResult
  | MatchResult

datatype method_arg = TakesMessage | TakesNothing | TakesFields "(string \<times> rust_type) list"

record expansion =
  hx_message :: message_decl
  hx_exclusive :: bool
  hx_async :: bool
  hx_arguments :: "ParamBinding list"
  hx_body :: "body_stmt list"
  hx_method :: method_arg

definition is_manual :: "ParamBinding list \<Rightarrow> bool" where
  "is_manual bindings \<longleftrightarrow> Answer \<in> set bindings \<or> Envelope \<in> set bindings"

text \<open>The checks on the parameters, the output and the keys, in the order of the code.\<close>

definition check_bindings :: "signature \<Rightarrow> HandlerConfig \<Rightarrow> ParamBinding list \<Rightarrow> unit checked" where
  "check_bindings sig c bindings =
     (let manual = is_manual bindings in
      and_then (require (Envelope \<in> set bindings \<longrightarrow> list_all (\<lambda>b. b = Envelope \<or> b = Context) bindings) EnvelopeConflict) (\<lambda>_.
      and_then (require (Message \<in> set bindings \<longrightarrow> fields_of bindings = []) MessageConflict) (\<lambda>_.
      and_then (require (manual \<longrightarrow> sg_output sig = None) ManualWithOutput) (\<lambda>_.
      and_then (require (hc_die_on_err c \<noteq> None \<longrightarrow> \<not> manual) DieWithManual) (\<lambda>_.
      and_then (require (hc_die_on_err c \<noteq> None \<longrightarrow> sg_output sig \<noteq> None) DieWithoutOutput) (\<lambda>_.
      and_then (require (hc_answer c \<noteq> None \<longrightarrow> hc_message c = None) AnswerWithMessage) (\<lambda>_.
      require (hc_answer c \<noteq> None \<longrightarrow> manual) AnswerWithoutManual)))))))"

definition answer_of :: "signature \<Rightarrow> HandlerConfig \<Rightarrow> ParamBinding list \<Rightarrow> answer_type" where
  "answer_of sig c bindings =
     (if is_manual bindings
      then (case hc_answer c of None \<Rightarrow> UnitAnswer | Some ty \<Rightarrow> TypeAnswer ty)
      else (case sg_output sig of
              None \<Rightarrow> UnitAnswer
            | Some ty \<Rightarrow> if hc_die_on_err c = Some Consume then OkOfAnswer ty else TypeAnswer ty))"

definition destructure_stmt :: "HandlerConfig \<Rightarrow> ParamBinding list \<Rightarrow> body_stmt list" where
  "destructure_stmt c bindings =
     (if fields_of bindings = [] then []
      else [Destructure (map fst (fields_of bindings)) (hc_message c \<noteq> None)])"

definition handler_body :: "HandlerConfig \<Rightarrow> ParamBinding list \<Rightarrow> body_stmt list" where
  "handler_body c bindings =
     (if Context \<in> set bindings \<or> hc_die_on_err c \<noteq> None then [LetActorContext] else []) @
     (if Envelope \<in> set bindings then [LetPartsWithEnvelope, LetSendableEnvelope, CallHandler]
      else LetParts (fields_of bindings \<noteq> [] \<or> Message \<in> set bindings) # destructure_stmt c bindings @
        (if is_manual bindings then [CallHandler]
         else (case hc_die_on_err c of
                 Some Forward \<Rightarrow> [LetResult, FailIfErr, AnswerResult]
               | Some Consume \<Rightarrow> [MatchResult]
               | None \<Rightarrow> [LetResult, AnswerResult])))"

definition message_of :: "(char \<Rightarrow> string) \<Rightarrow> (string \<Rightarrow> bool) \<Rightarrow> signature \<Rightarrow> HandlerConfig \<Rightarrow> ParamBinding list \<Rightarrow>
    message_decl checked" where
  "message_of upper is_ident sig c bindings =
     (case hc_message c of
        Some (TypePath path) \<Rightarrow> Inr (ExistingMessage path)
      | Some (OtherType _) \<Rightarrow> Inl (Error MessageNotPath)
      | None \<Rightarrow>
          and_then (message_type_name upper is_ident (sg_ident sig)) (\<lambda>name.
            Inr (GeneratedMessage name (fields_of bindings) (answer_of sig c bindings))))"

definition method_of :: "HandlerConfig \<Rightarrow> ParamBinding list \<Rightarrow> method_arg" where
  "method_of c bindings =
     (if hc_message c \<noteq> None \<or> Message \<in> set bindings then TakesMessage
      else if fields_of bindings = [] then TakesNothing
      else TakesFields (fields_of bindings))"

definition expand_signature :: "(char \<Rightarrow> string) \<Rightarrow> (string \<Rightarrow> bool) \<Rightarrow> signature \<Rightarrow> HandlerConfig \<Rightarrow> expansion checked" where
  "expand_signature upper is_ident sig c =
     and_then (require (\<not> sg_generic sig) GenericHandler) (\<lambda>_.
     and_then (require (\<not> sg_unsafe sig) UnsafeHandler) (\<lambda>_.
     and_then (require (\<not> sg_extern sig) ExternHandler) (\<lambda>_.
     case sg_receiver sig of
       None \<Rightarrow> Inl (Error BadReceiver)
     | Some r \<Rightarrow>
         and_then (require (rc_reference r \<and> \<not> rc_colon r) BadReceiver) (\<lambda>_.
         and_then (bind_params (sg_params sig) []) (\<lambda>bindings.
         and_then (check_bindings sig c bindings) (\<lambda>_.
         and_then (message_of upper is_ident sig c bindings) (\<lambda>message.
         Inr \<lparr>hx_message = message, hx_exclusive = rc_mutable r, hx_async = sg_async sig,
              hx_arguments = bindings, hx_body = handler_body c bindings, hx_method = method_of c bindings\<rparr>)))))))"

text \<open>The diagnostics of the attributes do not end the expansion, any other does.\<close>

definition expand_handler :: "(char \<Rightarrow> string) \<Rightarrow> (string \<Rightarrow> bool) \<Rightarrow> signature \<Rightarrow> handler_key list list \<Rightarrow>
    diagnostic list \<times> expansion option" where
  "expand_handler upper is_ident sig attrs =
     (let (c, ds) = parse_handler_attrs attrs default_config in
      case expand_signature upper is_ident sig c of
        Inr hx \<Rightarrow> (ds, Some hx)
      | Inl (Error d) \<Rightarrow> (ds @ [d], None)
      | Inl Panic \<Rightarrow> (ds, None))"

end
