(* ===== verification/Handler_Run.thy ===== *)
theory Handler_Run
  imports Handler_Macro
begin

text \<open>
  What the body of a generated handler does, \<open>crates/factories_actor_macro/src/messages.rs\<close>: its statements run
  over an environment of local variables. Reading a variable moves it, as reading a value that is not
  \<open>Copy\<close> does, and a variable that is unbound, moved or of another type is an error, which for the code
  that the macro makes is an error of the compiler.
\<close>

section \<open>Values and the environment\<close>

text \<open>A message is its fields in order; an optional sender is whether the caller waits for an answer.\<close>

datatype ('a, 'e, 'v) local_value =
    VHandlerContext
  | VGuard
  | VMessage "(string \<times> 'a) list"
  | VSender bool
  | VEnvelope
  | VSendable
  | VActorContext
  | VField 'a
  | VResult "'e + 'v"

datatype stuck = Unbound string | IllTyped string | NoField string | FieldNotBound

type_synonym ('a, 'e, 'v) env = "string \<Rightarrow> ('a, 'e, 'v) local_value option"

text \<open>What the method returned, whole, or the part of a result that is not its error.\<close>

datatype ('e, 'v) answer_payload = WholeResult "'e + 'v" | OkPart 'v

datatype ('a, 'e, 'v) body_event =
    Called "('a, 'e, 'v) local_value list"
  | ActorFailed 'e
  | Answered "('e, 'v) answer_payload"

text \<open>A dispatched message: its fields, whether it was asked, and whether its envelope is sendable.\<close>

record ('a, 'e, 'v) dispatched_message =
  dm_message :: "(string \<times> 'a) list"
  dm_asked :: bool
  dm_sendable :: bool
  dm_method :: "('a, 'e, 'v) local_value list \<Rightarrow> 'e + 'v"

definition take_var :: "string \<Rightarrow> ('a, 'e, 'v) env \<Rightarrow>
    (stuck, ('a, 'e, 'v) local_value \<times> ('a, 'e, 'v) env) outcome" where
  "take_var x env = (case env x of None \<Rightarrow> Inl (Error (Unbound x)) | Some v \<Rightarrow> Inr (v, env(x := None)))"

text \<open>A use that does not move: a borrow, or a read of a \<open>Copy\<close> value.\<close>

definition peek_var :: "string \<Rightarrow> (('a, 'e, 'v) local_value \<Rightarrow> bool) \<Rightarrow> ('a, 'e, 'v) env \<Rightarrow> (stuck, unit) outcome" where
  "peek_var x ok env =
     (case env x of
        None \<Rightarrow> Inl (Error (Unbound x))
      | Some v \<Rightarrow> if ok v then Inr () else Inl (Error (IllTyped x)))"

definition take_typed :: "string \<Rightarrow> (('a, 'e, 'v) local_value \<Rightarrow> 'b option) \<Rightarrow> ('a, 'e, 'v) env \<Rightarrow>
    (stuck, 'b \<times> ('a, 'e, 'v) env) outcome" where
  "take_typed x as env =
     and_then (take_var x env) (\<lambda>(v, env').
       case as v of None \<Rightarrow> Inl (Error (IllTyped x)) | Some y \<Rightarrow> Inr (y, env'))"

fun as_message :: "('a, 'e, 'v) local_value \<Rightarrow> (string \<times> 'a) list option" where
  "as_message (VMessage m) = Some m"
| "as_message _ = None"

fun as_sender :: "('a, 'e, 'v) local_value \<Rightarrow> bool option" where
  "as_sender (VSender asked) = Some asked"
| "as_sender _ = None"

fun as_result :: "('a, 'e, 'v) local_value \<Rightarrow> ('e + 'v) option" where
  "as_result (VResult r) = Some r"
| "as_result _ = None"

section \<open>The call of the method\<close>

fun arg_name :: "ParamBinding \<Rightarrow> string" where
  "arg_name (Field ident _) = ident"
| "arg_name Answer = ''answer''"
| "arg_name Message = ''message''"
| "arg_name Envelope = ''envelope''"
| "arg_name Context = ''actor_context''"

text \<open>What the method's parameter takes, by its marker.\<close>

fun arg_fits :: "ParamBinding \<Rightarrow> ('a, 'e, 'v) local_value \<Rightarrow> bool" where
  "arg_fits (Field _ _) v = (case v of VField _ \<Rightarrow> True | _ \<Rightarrow> False)"
| "arg_fits Answer v = (case v of VSender _ \<Rightarrow> True | _ \<Rightarrow> False)"
| "arg_fits Message v = (case v of VMessage _ \<Rightarrow> True | _ \<Rightarrow> False)"
| "arg_fits Envelope v = (case v of VSendable \<Rightarrow> True | _ \<Rightarrow> False)"
| "arg_fits Context v = (case v of VActorContext \<Rightarrow> True | _ \<Rightarrow> False)"

text \<open>The actor context is \<open>Copy\<close>, the other arguments move.\<close>

definition eval_arg :: "ParamBinding \<Rightarrow> ('a, 'e, 'v) env \<Rightarrow> (stuck, ('a, 'e, 'v) local_value \<times> ('a, 'e, 'v) env) outcome" where
  "eval_arg b env =
     and_then (take_var (arg_name b) env) (\<lambda>(v, env').
       if arg_fits b v then Inr (v, if b = Context then env else env') else Inl (Error (IllTyped (arg_name b))))"

fun eval_args :: "ParamBinding list \<Rightarrow> ('a, 'e, 'v) env \<Rightarrow>
    (stuck, ('a, 'e, 'v) local_value list \<times> ('a, 'e, 'v) env) outcome" where
  "eval_args [] env = Inr ([], env)"
| "eval_args (b # bs) env =
     and_then (eval_arg b env) (\<lambda>(v, env').
     and_then (eval_args bs env') (\<lambda>(vs, env''). Inr (v # vs, env'')))"

definition eval_call :: "ParamBinding list \<Rightarrow> ('a, 'e, 'v) dispatched_message \<Rightarrow> ('a, 'e, 'v) env \<Rightarrow>
    (stuck, ('a, 'e, 'v) env \<times> ('e + 'v) \<times> ('a, 'e, 'v) body_event) outcome" where
  "eval_call args d env =
     and_then (peek_var ''guard'' (\<lambda>v. v = VGuard) env) (\<lambda>_.
     and_then (eval_args args env) (\<lambda>(vs, env'). Inr (env', dm_method d vs, Called vs)))"

section \<open>The statements\<close>

fun bind_names :: "string list \<Rightarrow> (string \<times> 'a) list \<Rightarrow> ('a, 'e, 'v) env \<Rightarrow> (stuck, ('a, 'e, 'v) env) outcome" where
  "bind_names [] m env = Inr env"
| "bind_names (x # xs) m env =
     (case map_of m x of
        None \<Rightarrow> Inl (Error (NoField x))
      | Some v \<Rightarrow> bind_names xs m (env(x \<mapsto> VField v)))"

text \<open>
  \<open>if let Some(answer) = answer { let _ = answer.send(..); }\<close> and \<open>actor_context.fail(..)\<close>, each on a branch
  that may not be taken: the branch is checked all the same.
\<close>

definition eval_answer :: "('e, 'v) answer_payload option \<Rightarrow> ('a, 'e, 'v) env \<Rightarrow>
    (stuck, ('a, 'e, 'v) env \<times> ('a, 'e, 'v) body_event list) outcome" where
  "eval_answer p env =
     and_then (take_typed ''answer'' as_sender env) (\<lambda>(asked, env').
       Inr (env', case p of Some q \<Rightarrow> if asked then [Answered q] else [] | None \<Rightarrow> []))"

definition eval_fail :: "'e option \<Rightarrow> ('a, 'e, 'v) env \<Rightarrow>
    (stuck, ('a, 'e, 'v) env \<times> ('a, 'e, 'v) body_event list) outcome" where
  "eval_fail e env =
     and_then (peek_var ''actor_context'' (\<lambda>v. v = VActorContext) env) (\<lambda>_.
       Inr (env, case e of Some x \<Rightarrow> [ActorFailed x] | None \<Rightarrow> []))"

definition err_part :: "'e + 'v \<Rightarrow> 'e option" where
  "err_part r = (case r of Inl e \<Rightarrow> Some e | Inr _ \<Rightarrow> None)"

definition ok_part :: "'e + 'v \<Rightarrow> 'v option" where
  "ok_part r = (case r of Inl _ \<Rightarrow> None | Inr v \<Rightarrow> Some v)"

fun eval_stmt :: "ParamBinding list \<Rightarrow> ('a, 'e, 'v) dispatched_message \<Rightarrow> body_stmt \<Rightarrow> ('a, 'e, 'v) env \<Rightarrow>
    (stuck, ('a, 'e, 'v) env \<times> ('a, 'e, 'v) body_event list) outcome" where
  "eval_stmt args d LetActorContext env =
     and_then (peek_var ''ctx'' (\<lambda>v. v = VHandlerContext) env) (\<lambda>_.
       Inr (env(''actor_context'' \<mapsto> VActorContext), []))"
| "eval_stmt args d (LetParts bind_message) env =
     and_then (take_var ''ctx'' env) (\<lambda>(_, env').
       Inr (let env' = env'(''guard'' \<mapsto> VGuard, ''answer'' \<mapsto> VSender (dm_asked d))
            in if bind_message then env'(''message'' \<mapsto> VMessage (dm_message d)) else env', []))"
| "eval_stmt args d LetPartsWithEnvelope env =
     and_then (take_var ''ctx'' env) (\<lambda>(_, env').
       Inr (env'(''guard'' \<mapsto> VGuard, ''envelope'' \<mapsto> VEnvelope), []))"
| "eval_stmt args d LetSendableEnvelope env =
     and_then (take_var ''envelope'' env) (\<lambda>(_, env').
       if dm_sendable d then Inr (env'(''envelope'' \<mapsto> VSendable), []) else Inl Panic)"
| "eval_stmt args d (Destructure names rest) env =
     and_then (take_typed ''message'' as_message env) (\<lambda>(m, env').
       if \<not> rest \<and> \<not> set (map fst m) \<subseteq> set names then Inl (Error FieldNotBound)
       else and_then (bind_names names m env') (\<lambda>env''. Inr (env'', [])))"
| "eval_stmt args d CallHandler env =
     and_then (eval_call args d env) (\<lambda>(env', _, called). Inr (env', [called]))"
| "eval_stmt args d LetResult env =
     and_then (eval_call args d env) (\<lambda>(env', r, called). Inr (env'(''result'' \<mapsto> VResult r), [called]))"
| "eval_stmt args d FailIfErr env =
     and_then (take_typed ''result'' as_result env) (\<lambda>(r, _). eval_fail (err_part r) env)"
| "eval_stmt args d AnswerResult env =
     and_then (take_typed ''result'' as_result env) (\<lambda>(r, env'). eval_answer (Some (WholeResult r)) env')"
| "eval_stmt args d MatchResult env =
     and_then (eval_call args d env) (\<lambda>(env', r, called).
     and_then (eval_fail (err_part r) env') (\<lambda>(env'', es).
     and_then (eval_answer (map_option OkPart (ok_part r)) env'') (\<lambda>(env3, es').
       Inr (env3, called # es @ es'))))"

fun eval_body :: "ParamBinding list \<Rightarrow> ('a, 'e, 'v) dispatched_message \<Rightarrow> body_stmt list \<Rightarrow> ('a, 'e, 'v) env \<Rightarrow>
    (stuck, ('a, 'e, 'v) env \<times> ('a, 'e, 'v) body_event list) outcome" where
  "eval_body args d [] env = Inr (env, [])"
| "eval_body args d (s # ss) env =
     and_then (eval_stmt args d s env) (\<lambda>(env', es).
     and_then (eval_body args d ss env') (\<lambda>(env'', es'). Inr (env'', es @ es')))"

text \<open>\<open>async fn handle(ctx)\<close>.\<close>

definition run_handler :: "expansion \<Rightarrow> ('a, 'e, 'v) dispatched_message \<Rightarrow> (stuck, ('a, 'e, 'v) body_event list) outcome" where
  "run_handler hx d =
     and_then (eval_body (hx_arguments hx) d (hx_body hx) [''ctx'' \<mapsto> VHandlerContext]) (\<lambda>(_, es). Inr es)"

text \<open>
  The message the method of the typed handle makes of its arguments: the fields in order, or the message
  the caller gives.
\<close>

fun construct_message :: "method_arg \<Rightarrow> 'a list \<Rightarrow> (string \<times> 'a) list \<Rightarrow> (string \<times> 'a) list" where
  "construct_message TakesMessage xs m = m"
| "construct_message TakesNothing xs m = []"
| "construct_message (TakesFields fs) xs m = zip (map fst fs) xs"

section \<open>What a handler promises\<close>

text \<open>
  The documentation of the attribute: a parameter takes what its marker names, or the field of its name;
  what the method returns is the answer, if there is one to give; \<open>die_on_err\<close> fails the actor on an error
  and answers all the same, \<open>die_on_err = consume\<close> answers the part that is not the error only; a method
  that takes the sender or the envelope answers itself.
\<close>

fun promised_arg :: "('a, 'e, 'v) dispatched_message \<Rightarrow> ParamBinding \<Rightarrow> ('a, 'e, 'v) local_value" where
  "promised_arg d (Field ident _) = VField (the (map_of (dm_message d) ident))"
| "promised_arg d Answer = VSender (dm_asked d)"
| "promised_arg d Message = VMessage (dm_message d)"
| "promised_arg d Envelope = VSendable"
| "promised_arg d Context = VActorContext"

definition promised_answer :: "('a, 'e, 'v) dispatched_message \<Rightarrow> ('e, 'v) answer_payload \<Rightarrow> ('a, 'e, 'v) body_event list" where
  "promised_answer d p = (if dm_asked d then [Answered p] else [])"

definition promised_events :: "HandlerConfig \<Rightarrow> ParamBinding list \<Rightarrow> ('a, 'e, 'v) dispatched_message \<Rightarrow>
    ('a, 'e, 'v) body_event list" where
  "promised_events c bindings d =
     (let args = map (promised_arg d) bindings; r = dm_method d args in
      Called args #
      (if is_manual bindings then []
       else (case hc_die_on_err c of
               None \<Rightarrow> promised_answer d (WholeResult r)
             | Some Forward \<Rightarrow>
                 (case r of Inl e \<Rightarrow> [ActorFailed e] | Inr _ \<Rightarrow> []) @ promised_answer d (WholeResult r)
             | Some Consume \<Rightarrow>
                 (case r of Inl e \<Rightarrow> [ActorFailed e] | Inr v \<Rightarrow> promised_answer d (OkPart v)))))"

text \<open>The names of the generated code that a field of the same name would shadow.\<close>

definition unshadowed :: "HandlerConfig \<Rightarrow> ParamBinding list \<Rightarrow> bool" where
  "unshadowed c bindings \<longleftrightarrow>
     (let names = map fst (fields_of bindings) in
      distinct names \<and> ''guard'' \<notin> set names \<and> ''answer'' \<notin> set names \<and>
      ((Context \<in> set bindings \<or> hc_die_on_err c \<noteq> None) \<longrightarrow> ''actor_context'' \<notin> set names))"

text \<open>
  The message has the fields the parameters name, and no other if the macro declares it. The envelope of a
  dispatched message is sendable if the handler asks for it.
\<close>

definition fits_handler :: "HandlerConfig \<Rightarrow> ParamBinding list \<Rightarrow> ('a, 'e, 'v) dispatched_message \<Rightarrow> bool" where
  "fits_handler c bindings d \<longleftrightarrow>
     (let names = set (map fst (fields_of bindings)); keys = set (map fst (dm_message d)) in
      (if hc_message c = None then keys = names else names \<subseteq> keys) \<and>
      (Envelope \<in> set bindings \<longrightarrow> dm_sendable d))"

section \<open>The bindings of an accepted handler\<close>

definition is_marker :: "ParamBinding \<Rightarrow> bool" where
  "is_marker b \<longleftrightarrow> field_of b = None"

lemma is_marker_simps [simp]:
  "\<not> is_marker (Field x t)" "is_marker Answer" "is_marker Message" "is_marker Envelope" "is_marker Context"
  by (simp_all add: is_marker_def)

lemma fields_of_simps [simp]:
  "fields_of [] = []"
  "fields_of (Field x t # bs) = (x, t) # fields_of bs"
  "is_marker b \<Longrightarrow> fields_of (b # bs) = fields_of bs"
  "fields_of (bs @ bs') = fields_of bs @ fields_of bs'"
  by (simp_all add: fields_of_def is_marker_def map_filter_def)

lemma require_Inr [simp]: "require ok d = Inr u \<longleftrightarrow> ok"
  by (simp add: require_def)

lemma param_marker_is_marker:
  "param_marker as found = Inr (Some b) \<Longrightarrow> (\<And>b'. found = Some b' \<Longrightarrow> is_marker b') \<Longrightarrow> is_marker b"
proof (induction as found rule: param_marker.induct)
  case (2 a as found)
  then show ?case by (cases a) (auto simp: outcome_simps)
qed simp

lemma bind_params_markers:
  "bind_params ps bs = Inr bs' \<Longrightarrow> distinct (filter is_marker bs) \<Longrightarrow> distinct (filter is_marker bs')"
proof (induction ps bs rule: bind_params.induct)
  case (2 p ps bs)
  from "2.prems"(1) obtain marker where m: "param_marker (fp_attrs p) None = Inr marker"
    by (auto simp: outcome_simps)
  show ?case
  proof (cases marker)
    case None
    with 2 m show ?thesis by (auto split: option.splits)
  next
    case (Some b)
    with "2.prems"(1) m have b: "b \<notin> set bs" "bind_params ps (bs @ [b]) = Inr bs'"
      by (auto simp: outcome_simps)
    moreover have "is_marker b" using param_marker_is_marker [of "fp_attrs p" None b] m Some by simp
    ultimately show ?thesis using "2.IH"(2) [OF m Some] "2.prems"(2) by (simp add: outcome_simps)
  qed
qed simp

lemma arg_name_fields: "b \<in> set bs \<Longrightarrow> \<not> is_marker b \<Longrightarrow> arg_name b \<in> fst ` set (fields_of bs)"
  by (induction bs) (auto simp: is_marker_def fields_of_def map_filter_def elim: field_of.elims)

lemma arg_names_distinct:
  assumes "distinct (filter is_marker bs)" "distinct (map fst (fields_of bs))"
    and "\<forall>b\<in>set bs. is_marker b \<longrightarrow> arg_name b \<notin> fst ` set (fields_of bs)"
  shows "distinct (map arg_name bs)"
  using assms
proof (induction bs)
  case (Cons b bs)
  have inj: "b' = b" if "is_marker b'" "is_marker b" "arg_name b' = arg_name b" for b'
    using that by (cases b; cases b') auto
  show ?case
  proof (cases "is_marker b")
    case False
    then obtain x t where "b = Field x t" by (cases b) auto
    with Cons show ?thesis by (auto dest: arg_name_fields)
  next
    case True
    have "arg_name b \<noteq> arg_name b'" if b': "b' \<in> set bs" for b'
    proof
      assume eq: "arg_name b = arg_name b'"
      have "arg_name b \<notin> fst ` set (fields_of bs)" using Cons.prems(3) True by auto
      with eq have "is_marker b'" using arg_name_fields [OF b'] by auto
      then have "b' = b" using inj True eq by simp
      with b' True Cons.prems(1) show False by simp
    qed
    with True Cons show ?thesis by auto
  qed
qed simp

section \<open>The call takes what it was promised\<close>

lemma take_typed_Inr [simp]:
  "env x = Some v \<Longrightarrow> as v = Some y \<Longrightarrow> take_typed x as env = Inr (y, env(x := None))"
  by (simp add: take_typed_def take_var_def)

lemma arg_fits_promised [simp]: "arg_fits b (promised_arg d b)"
  by (cases b) simp_all

lemma eval_args_promised:
  assumes "distinct (map arg_name bs)" "\<forall>b\<in>set bs. env (arg_name b) = Some (promised_arg d b)"
  shows "\<exists>env'. eval_args bs env = Inr (map (promised_arg d) bs, env') \<and>
    (\<forall>x. x \<notin> arg_name ` (set bs - {Context}) \<longrightarrow> env' x = env x)"
  using assms
proof (induction bs arbitrary: env)
  case (Cons b bs)
  let ?env = "if b = Context then env else env(arg_name b := None)"
  have b: "eval_arg b env = Inr (promised_arg d b, ?env)"
    using Cons.prems by (simp add: eval_arg_def take_var_def)
  have env: "\<forall>b'\<in>set bs. ?env (arg_name b') = Some (promised_arg d b')"
    using Cons.prems by (auto simp: image_iff)
  have "distinct (map arg_name bs)" using Cons.prems by simp
  from Cons.IH [OF this env] obtain env' where bs: "eval_args bs ?env = Inr (map (promised_arg d) bs, env')"
    and old: "\<forall>x. x \<notin> arg_name ` (set bs - {Context}) \<longrightarrow> env' x = ?env x"
    by blast
  have "env' x = env x"
    if "x \<notin> arg_name ` (set (b # bs) - {Context})" for x
    using that old by (cases "b = Context") (simp_all add: insert_Diff_if)
  moreover have "eval_args (b # bs) env = Inr (map (promised_arg d) (b # bs), env')"
    by (simp only: eval_args.simps b bs and_then_simps split_conv list.map)
  ultimately show ?case by blast
qed simp

lemma bind_names_promised:
  assumes "set xs \<subseteq> fst ` set m"
  shows "bind_names xs m env =
    Inr (\<lambda>x. if x \<in> set xs then Some (VField (the (map_of m x))) else env x)"
  using assms
proof (induction xs arbitrary: env)
  case (Cons x xs)
  then obtain v where "map_of m x = Some v"
    by (metis insert_subset list.simps(15) map_of_eq_None_iff not_None_eq)
  with Cons show ?case by (auto simp: fun_eq_iff)
qed simp

lemma eval_call_promised:
  assumes "distinct (map arg_name bs)" "\<forall>b\<in>set bs. env (arg_name b) = Some (promised_arg d b)"
    and "env ''guard'' = Some VGuard"
  obtains env' where
    "eval_call bs d env =
      Inr (env', dm_method d (map (promised_arg d) bs), Called (map (promised_arg d) bs))"
    "\<And>x. x \<notin> arg_name ` (set bs - {Context}) \<Longrightarrow> env' x = env x"
  using eval_args_promised [OF assms(1,2)] assms(3) by (auto simp: eval_call_def peek_var_def)

section \<open>The body keeps the promise\<close>

lemma eval_body_append:
  "eval_body args d (xs @ ys) env =
    and_then (eval_body args d xs env) (\<lambda>(env', es).
    and_then (eval_body args d ys env') (\<lambda>(env'', es'). Inr (env'', es @ es')))"
proof (induction xs arbitrary: env)
  case Nil
  show ?case by (cases "eval_body args d ys env") auto
next
  case (Cons s xs)
  show ?case
  proof (cases "eval_stmt args d s env")
    case (Inr r)
    then show ?thesis
    proof (cases "eval_body args d xs (fst r)")
      case (Inr r')
      with \<open>eval_stmt args d s env = Inr r\<close> Cons [of "fst r"] show ?thesis
        by (cases "eval_body args d ys (fst r')") (auto split: prod.splits)
    qed (use Cons [of "fst r"] in \<open>auto split: prod.splits\<close>)
  qed auto
qed

lemma silent_prefix:
  "eval_body args d xs env = Inr (env', []) \<Longrightarrow> eval_body args d ys env' = Inr r \<Longrightarrow>
    eval_body args d (xs @ ys) env = Inr r"
  by (cases r) (simp add: eval_body_append)

text \<open>The variables of the body right before the method is called.\<close>

definition ready :: "HandlerConfig \<Rightarrow> ParamBinding list \<Rightarrow> ('a, 'e, 'v) dispatched_message \<Rightarrow> ('a, 'e, 'v) env \<Rightarrow> bool" where
  "ready c bindings d env \<longleftrightarrow>
     (\<forall>b\<in>set bindings. env (arg_name b) = Some (promised_arg d b)) \<and> env ''guard'' = Some VGuard \<and>
     (\<not> is_manual bindings \<longrightarrow> env ''answer'' = Some (VSender (dm_asked d))) \<and>
     (hc_die_on_err c \<noteq> None \<longrightarrow> env ''actor_context'' = Some VActorContext)"

lemma check_bindings_Inr:
  "check_bindings sig c bs = Inr u \<longleftrightarrow>
    (Envelope \<in> set bs \<longrightarrow> list_all (\<lambda>b. b = Envelope \<or> b = Context) bs) \<and>
    (Message \<in> set bs \<longrightarrow> fields_of bs = []) \<and>
    (is_manual bs \<longrightarrow> sg_output sig = None) \<and>
    (hc_die_on_err c \<noteq> None \<longrightarrow> \<not> is_manual bs \<and> sg_output sig \<noteq> None) \<and>
    (hc_answer c \<noteq> None \<longrightarrow> hc_message c = None \<and> is_manual bs)"
  by (auto simp: check_bindings_def Let_def outcome_simps)

lemma accepted_arg_names:
  assumes "distinct (filter is_marker bs)" "check_bindings sig c bs = Inr u" "unshadowed c bs"
  shows "distinct (map arg_name bs)"
proof (rule arg_names_distinct)
  have "fields_of bs = []" if "Envelope \<in> set bs"
  proof -
    have "\<forall>b\<in>set bs. is_marker b"
      using that assms(2) by (auto simp: check_bindings_Inr list_all_iff)
    then show ?thesis by (induction bs) auto
  qed
  then have "arg_name b \<notin> fst ` set (fields_of bs)" if "b \<in> set bs" "is_marker b" for b
    using that assms(2,3) by - (cases b, auto simp: check_bindings_Inr unshadowed_def Let_def)
  then show "\<forall>b\<in>set bs. is_marker b \<longrightarrow> arg_name b \<notin> fst ` set (fields_of bs)"
    by blast
qed (use assms in \<open>simp_all add: unshadowed_def Let_def\<close>)

lemma binding_in_fields: "Field x t \<in> set bs \<Longrightarrow> (x, t) \<in> set (fields_of bs)"
  by (induction bs) (auto simp: fields_of_def map_filter_def)

lemma no_fields: "list_all is_marker bs \<Longrightarrow> fields_of bs = []"
  by (induction bs) auto

definition prologue_env :: "HandlerConfig \<Rightarrow> ParamBinding list \<Rightarrow> ('a, 'e, 'v) env" where
  "prologue_env c bs =
     (if Context \<in> set bs \<or> hc_die_on_err c \<noteq> None
      then [''ctx'' \<mapsto> VHandlerContext, ''actor_context'' \<mapsto> VActorContext] else [''ctx'' \<mapsto> VHandlerContext])"

lemma prologue_runs:
  "eval_body bs d (if Context \<in> set bs \<or> hc_die_on_err c \<noteq> None then [LetActorContext] else [])
     [''ctx'' \<mapsto> VHandlerContext] = Inr (prologue_env c bs, [])"
  by (simp add: prologue_env_def peek_var_def)

lemma parts_run:
  assumes "Envelope \<notin> set bs" "check_bindings sig c bs = Inr u" "unshadowed c bs" "fits_handler c bs d"
  obtains env where
    "eval_body bs d (LetParts (fields_of bs \<noteq> [] \<or> Message \<in> set bs) # destructure_stmt c bs) (prologue_env c bs) =
      Inr (env, [])"
    "ready c bs d env"
proof -
  let ?names = "map fst (fields_of bs)"
  let ?env1 = "(prologue_env c bs)(''ctx'' := None, ''guard'' \<mapsto> VGuard, ''answer'' \<mapsto> VSender (dm_asked d))"
  show thesis
  proof (cases "fields_of bs = []")
    case True
    let ?env = "if Message \<in> set bs then ?env1(''message'' \<mapsto> VMessage (dm_message d)) else ?env1"
    have "env (arg_name b) = Some (promised_arg d b)" if "b \<in> set bs" "env = ?env" for b env
      using that assms(1) binding_in_fields [of _ _ bs] True
      by - (cases b, auto simp: prologue_env_def)
    then have "ready c bs d ?env"
      using assms by (auto simp: ready_def prologue_env_def)
    with True show thesis
      by (intro that [of ?env]) (auto simp: destructure_stmt_def take_var_def prologue_env_def)
  next
    case False
    have fit: "set ?names \<subseteq> fst ` set (dm_message d)" "hc_message c = None \<Longrightarrow> fst ` set (dm_message d) \<subseteq> set ?names"
      using assms(4) by (auto simp: fits_handler_def Let_def split: if_splits)
    let ?env = "\<lambda>x. if x \<in> set ?names then Some (VField (the (map_of (dm_message d) x)))
      else (?env1(''message'' := None)) x"
    have message: "Message \<notin> set bs" using assms(2) False by (auto simp: check_bindings_Inr)
    have free: "''guard'' \<notin> set ?names" "''answer'' \<notin> set ?names"
      "Context \<in> set bs \<or> hc_die_on_err c \<noteq> None \<Longrightarrow> ''actor_context'' \<notin> set ?names"
      using assms(3) by (simp_all add: unshadowed_def Let_def)
    have "?env (arg_name b) = Some (promised_arg d b)" if b: "b \<in> set bs" for b
    proof (cases b)
      case (Field x t)
      then have "x \<in> set ?names" using binding_in_fields [of x t bs] b by force
      with Field show ?thesis by simp
    next
      case Context
      with free(3) b show ?thesis by (simp add: prologue_env_def)
    qed (use free(2) b message assms(1) in simp_all)
    then have "ready c bs d ?env"
      using free by (simp add: ready_def prologue_env_def)
    moreover have "eval_body bs d (LetParts (fields_of bs \<noteq> [] \<or> Message \<in> set bs) # destructure_stmt c bs)
        (prologue_env c bs) = Inr (?env, [])"
      using False fit
      by (auto simp: destructure_stmt_def take_var_def prologue_env_def bind_names_promised)
    ultimately show thesis by (rule that [rotated])
  qed
qed

definition complete_stmts :: "HandlerConfig \<Rightarrow> ParamBinding list \<Rightarrow> body_stmt list" where
  "complete_stmts c bs =
     (if is_manual bs then [CallHandler]
      else (case hc_die_on_err c of
              Some Forward \<Rightarrow> [LetResult, FailIfErr, AnswerResult]
            | Some Consume \<Rightarrow> [MatchResult]
            | None \<Rightarrow> [LetResult, AnswerResult]))"

lemma complete_runs:
  assumes ready: "ready c bs d env" and names: "distinct (map arg_name bs)"
    and config: "check_bindings sig c bs = Inr u" and unshadowed: "unshadowed c bs"
  shows "\<exists>env'. eval_body bs d (complete_stmts c bs) env = Inr (env', promised_events c bs d)"
proof -
  from ready have "\<forall>b\<in>set bs. env (arg_name b) = Some (promised_arg d b)" "env ''guard'' = Some VGuard"
    by (simp_all add: ready_def)
  with names obtain env' where call: "eval_call bs d env =
      Inr (env', dm_method d (map (promised_arg d) bs), Called (map (promised_arg d) bs))"
    and kept: "\<And>x. x \<notin> arg_name ` (set bs - {Context}) \<Longrightarrow> env' x = env x"
    by (rule eval_call_promised) blast
  show ?thesis
  proof (cases "is_manual bs")
    case True
    with call show ?thesis by (simp add: complete_stmts_def promised_events_def Let_def)
  next
    case False
    have moved: "x \<notin> arg_name ` (set bs - {Context})"
      if "x = ''answer'' \<or> x = ''actor_context'' \<and> hc_die_on_err c \<noteq> None" for x
    proof
      assume "x \<in> arg_name ` (set bs - {Context})"
      then obtain b where "b \<in> set bs" "b \<noteq> Context" "x = arg_name b" by auto
      moreover from this have "\<not> is_marker b"
        using that False by - (cases b, auto simp: is_manual_def)
      ultimately have "x \<in> fst ` set (fields_of bs)" by (simp add: arg_name_fields)
      then have "x \<in> set (map fst (fields_of bs))" by simp
      with that unshadowed show False unfolding unshadowed_def Let_def by blast
    qed
    have answer: "env' ''answer'' = Some (VSender (dm_asked d))"
      using kept [OF moved] ready False by (simp add: ready_def)
    have failing: "env' ''actor_context'' = Some VActorContext" if "hc_die_on_err c \<noteq> None"
      using kept [OF moved] ready that by (simp add: ready_def)
    show ?thesis
    proof (cases "hc_die_on_err c")
      case None
      with False call answer show ?thesis
        by (simp add: complete_stmts_def promised_events_def Let_def eval_answer_def promised_answer_def)
    next
      case (Some mode)
      with failing have "env' ''actor_context'' = Some VActorContext" by simp
      with Some False call answer show ?thesis
        by (cases mode) (simp_all add: complete_stmts_def promised_events_def Let_def eval_answer_def eval_fail_def
            promised_answer_def peek_var_def err_part_def ok_part_def split: sum.splits)
    qed
  qed
qed

lemma envelope_runs:
  assumes "Envelope \<in> set bs" "check_bindings sig c bs = Inr u" "fits_handler c bs d"
  obtains env where
    "eval_body bs d [LetPartsWithEnvelope, LetSendableEnvelope] (prologue_env c bs) = Inr (env, [])"
    "ready c bs d env"
proof -
  let ?env = "(prologue_env c bs)(''ctx'' := None, ''guard'' \<mapsto> VGuard, ''envelope'' \<mapsto> VSendable)"
  have manual: "is_manual bs" using assms(1) by (simp add: is_manual_def)
  have only: "\<forall>b\<in>set bs. b = Envelope \<or> b = Context"
    using assms(1,2) by (simp add: check_bindings_Inr list_all_iff)
  then have "ready c bs d ?env"
    using manual assms(2) by (auto simp: ready_def prologue_env_def check_bindings_Inr)
  moreover have "eval_body bs d [LetPartsWithEnvelope, LetSendableEnvelope] (prologue_env c bs) = Inr (?env, [])"
    using assms(1,3) by (auto simp: fits_handler_def Let_def take_var_def prologue_env_def fun_eq_iff)
  ultimately show thesis by (rule that [rotated])
qed

lemma body_runs:
  assumes markers: "distinct (filter is_marker bs)"
    and accepted: "check_bindings sig c bs = Inr u" and unshadowed: "unshadowed c bs"
    and fits: "fits_handler c bs d"
  shows "\<exists>env. eval_body bs d (handler_body c bs) [''ctx'' \<mapsto> VHandlerContext] = Inr (env, promised_events c bs d)"
proof -
  let ?parts = "if Envelope \<in> set bs then [LetPartsWithEnvelope, LetSendableEnvelope]
    else LetParts (fields_of bs \<noteq> [] \<or> Message \<in> set bs) # destructure_stmt c bs"
  have "is_manual bs" if "Envelope \<in> set bs" using that by (simp add: is_manual_def)
  then have body: "handler_body c bs =
      (if Context \<in> set bs \<or> hc_die_on_err c \<noteq> None then [LetActorContext] else []) @ ?parts @ complete_stmts c bs"
    by (simp add: handler_body_def complete_stmts_def)
  obtain env where "eval_body bs d ?parts (prologue_env c bs) = Inr (env, [])" "ready c bs d env"
  proof (cases "Envelope \<in> set bs")
    case True
    from envelope_runs [OF True accepted fits] obtain env where
      "eval_body bs d [LetPartsWithEnvelope, LetSendableEnvelope] (prologue_env c bs) = Inr (env, [])"
      "ready c bs d env" .
    with True show thesis by (intro that) (simp_all only: if_True)
  next
    case False
    from parts_run [OF False accepted unshadowed fits] obtain env where
      "eval_body bs d (LetParts (fields_of bs \<noteq> [] \<or> Message \<in> set bs) # destructure_stmt c bs) (prologue_env c bs) =
        Inr (env, [])" "ready c bs d env" .
    with False show thesis by (intro that) (simp_all only: if_False)
  qed
  moreover from this(2) obtain env' where
    "eval_body bs d (complete_stmts c bs) env = Inr (env', promised_events c bs d)"
    using complete_runs accepted_arg_names [OF markers accepted unshadowed] accepted unshadowed by blast
  ultimately have "eval_body bs d (handler_body c bs) [''ctx'' \<mapsto> VHandlerContext] = Inr (env', promised_events c bs d)"
    unfolding body by (intro silent_prefix [OF prologue_runs] silent_prefix [of bs d ?parts])
  then show ?thesis by (rule exI [of _ env'])
qed

section \<open>An accepted handler\<close>

text \<open>What an expansion without a diagnostic of its own was checked for.\<close>

lemma expand_signature_Inr:
  assumes "expand_signature upper is_ident sig c = Inr hx"
  obtains r where
    "sg_receiver sig = Some r" "rc_reference r" "\<not> rc_colon r"
    "bind_params (sg_params sig) [] = Inr (hx_arguments hx)"
    "check_bindings sig c (hx_arguments hx) = Inr ()"
    "message_of upper is_ident sig c (hx_arguments hx) = Inr (hx_message hx)"
    "hx_exclusive hx = rc_mutable r" "hx_async hx = sg_async sig"
    "hx_body hx = handler_body c (hx_arguments hx)" "hx_method hx = method_of c (hx_arguments hx)"
  using assms by (auto simp: expand_signature_def outcome_simps split: option.splits)

lemma accepted_markers:
  "expand_signature upper is_ident sig c = Inr hx \<Longrightarrow> distinct (filter is_marker (hx_arguments hx))"
  by (erule expand_signature_Inr) (rule bind_params_markers, auto)

end
