(* ===== verification/Handler_Properties.thy ===== *)
theory Handler_Properties
  imports Handler_Run
begin

text \<open>
  The properties of the handlers that the \<open>messages\<close> attribute makes: the body does what the attribute's
  documentation says, and the method of the typed handle reaches the method of the actor.
\<close>

text \<open>How a parameter is read: by its one marker, or as the field of its name.\<close>

fun binds :: "fn_param \<Rightarrow> ParamBinding \<Rightarrow> bool" where
  "binds p (Field ident ty) \<longleftrightarrow> fp_attrs p = [] \<and> fp_ident p = Some ident \<and> fp_type p = ty"
| "binds p Answer \<longleftrightarrow> fp_attrs p = [AttrAnswer False]"
| "binds p Message \<longleftrightarrow> fp_attrs p = [AttrMessage False]"
| "binds p Envelope \<longleftrightarrow> fp_attrs p = [AttrEnvelope False]"
| "binds p Context \<longleftrightarrow> fp_attrs p = [AttrContext False]"

lemma param_marker_found: "param_marker as (Some b) = Inr m \<longleftrightarrow> as = [] \<and> m = Some b"
  by (cases as) (auto simp: outcome_simps require_def)

lemma param_marker_binds:
  assumes "param_marker (fp_attrs p) None = Inr m"
  shows "case m of None \<Rightarrow> fp_attrs p = [] | Some b \<Rightarrow> binds p b"
proof (cases "fp_attrs p")
  case (Cons a as)
  with assms show ?thesis by (cases a) (auto simp: outcome_simps param_marker_found)
qed (use assms in simp)

lemma bind_params_binds:
  "bind_params ps bs = Inr bs' \<Longrightarrow> \<exists>bs''. bs' = bs @ bs'' \<and> list_all2 binds ps bs''"
proof (induction ps bs rule: bind_params.induct)
  case (2 p ps bs)
  from "2.prems" obtain m where m: "param_marker (fp_attrs p) None = Inr m" by (auto simp: outcome_simps)
  note found = param_marker_binds [OF m]
  show ?case
  proof (cases m)
    case None
    with "2.prems" m obtain x where x: "fp_ident p = Some x"
      "bind_params ps (bs @ [Field x (fp_type p)]) = Inr bs'"
      by (auto split: option.splits)
    from "2.IH"(1) [OF m None x] found None x(1) show ?thesis by auto
  next
    case (Some b)
    with "2.prems" m have b: "b \<notin> set bs" "bind_params ps (bs @ [b]) = Inr bs'"
      by (auto simp: outcome_simps)
    with "2.IH"(2) [OF m Some, of "()"] found Some show ?thesis by auto
  qed
qed simp

lemma expand_handler_accepts:
  "expand_handler upper is_ident sig attrs = ([], Some hx) \<Longrightarrow>
    expand_signature upper is_ident sig (fst (parse_handler_attrs attrs default_config)) = Inr hx"
  by (auto simp: expand_handler_def split: prod.splits sum.splits fault.splits)

lemma handler_runs_promised:
  assumes hx: "expand_signature upper is_ident sig c = Inr hx"
    and "unshadowed c (hx_arguments hx)" "fits_handler c (hx_arguments hx) d"
  shows "run_handler hx d = Inr (promised_events c (hx_arguments hx) d)"
  using hx
proof (rule expand_signature_Inr)
  assume "check_bindings sig c (hx_arguments hx) = Inr ()" "hx_body hx = handler_body c (hx_arguments hx)"
  moreover from this(1) obtain env where
    "eval_body (hx_arguments hx) d (handler_body c (hx_arguments hx)) [''ctx'' \<mapsto> VHandlerContext] =
      Inr (env, promised_events c (hx_arguments hx) d)"
    using body_runs [OF accepted_markers [OF hx] _ assms(2,3)] by blast
  ultimately show ?thesis by (simp add: run_handler_def)
qed

text \<open>C32: A handler that the macro accepts without a diagnostic does what the attribute promises: its body runs to
  the end, no variable of it is unbound, moved twice or of another type; every parameter of the method, in
  their order, gets what its marker names or the field of its own name; the method is called once, and
  after it the actor is failed and the caller answered as the return type and \<open>die_on_err\<close> say. A parameter
  must not be named like a variable of the generated body.\<close>

theorem handler_keeps_its_promise:
  assumes "expand_handler upper is_ident sig attrs = ([], Some hx)"
    and "c = fst (parse_handler_attrs attrs default_config)"
    and "unshadowed c (hx_arguments hx)" "fits_handler c (hx_arguments hx) d"
  shows "list_all2 binds (sg_params sig) (hx_arguments hx) \<and>
    run_handler hx d = Inr (promised_events c (hx_arguments hx) d)"
proof -
  have hx: "expand_signature upper is_ident sig c = Inr hx"
    using expand_handler_accepts [OF assms(1)] assms(2) by simp
  have "list_all2 binds (sg_params sig) (hx_arguments hx)"
    using hx by (rule expand_signature_Inr) (use bind_params_binds in fastforce)
  moreover have "run_handler hx d = Inr (promised_events c (hx_arguments hx) d)"
    using handler_runs_promised [OF hx assms(3,4)] .
  ultimately show ?thesis ..
qed

text \<open>\<open>async fn put(&mut self, #[context] cx: ActorContext<'_, Self>, key: u32) -> R\<close>.\<close>

definition put_params :: "fn_param list" where
  "put_params =
     [\<lparr>fp_attrs = [AttrContext False], fp_ident = Some ''cx'', fp_type = TypePath ''ActorContext''\<rparr>,
      \<lparr>fp_attrs = [], fp_ident = Some ''key'', fp_type = TypePath ''u32''\<rparr>]"

definition put_signature :: signature where
  "put_signature =
     \<lparr>sg_ident = ''put'', sg_generic = False, sg_unsafe = False, sg_extern = False, sg_async = True,
      sg_receiver = Some \<lparr>rc_reference = True, rc_colon = False, rc_mutable = True\<rparr>,
      sg_params = put_params, sg_output = Some (TypePath ''R'')\<rparr>"

lemma put_bindings: "bind_params put_params [] = Inr [Context, Field ''key'' (TypePath ''u32'')]"
  by (simp add: put_params_def require_def)

lemma put_expansion:
  assumes "hc_message c = None" "hc_answer c = None"
  obtains hx where "expand_signature (\<lambda>ch. [ch]) (\<lambda>s. s \<noteq> []) put_signature c = Inr hx"
    "hx_arguments hx = [Context, Field ''key'' (TypePath ''u32'')]"
    "hx_method hx = TakesFields [(''key'', TypePath ''u32'')]"
    "hx_message hx = GeneratedMessage ''put'' [(''key'', TypePath ''u32'')]
      (answer_of put_signature c [Context, Field ''key'' (TypePath ''u32'')])"
proof -
  let ?bs = "[Context, Field ''key'' (TypePath ''u32'')]"
  have "check_bindings put_signature c ?bs = Inr ()"
    using assms by (simp add: check_bindings_Inr is_manual_def put_signature_def)
  moreover have "message_of (\<lambda>ch. [ch]) (\<lambda>s. s \<noteq> []) put_signature c ?bs =
      Inr (GeneratedMessage ''put'' [(''key'', TypePath ''u32'')] (answer_of put_signature c ?bs))"
    using assms by (simp add: message_of_def message_type_name_def pascal_segment_def put_signature_def)
  moreover have "method_of c ?bs = TakesFields [(''key'', TypePath ''u32'')]"
    using assms by (simp add: method_of_def)
  moreover have "sg_params put_signature = put_params" "\<not> sg_generic put_signature" "\<not> sg_unsafe put_signature"
    "\<not> sg_extern put_signature" "sg_receiver put_signature = Some \<lparr>rc_reference = True, rc_colon = False, rc_mutable = True\<rparr>"
    by (simp_all add: put_signature_def)
  ultimately have "\<exists>hx. expand_signature (\<lambda>ch. [ch]) (\<lambda>s. s \<noteq> []) put_signature c = Inr hx \<and>
      hx_arguments hx = ?bs \<and> hx_method hx = TakesFields [(''key'', TypePath ''u32'')] \<and>
      hx_message hx = GeneratedMessage ''put'' [(''key'', TypePath ''u32'')] (answer_of put_signature c ?bs)"
    using put_bindings by (simp add: expand_signature_def require_def)
  then show thesis using that by blast
qed

lemma handler_keeps_its_promise_witness:
  "\<exists>hx. expand_handler (\<lambda>ch. [ch]) (\<lambda>s. s \<noteq> []) put_signature [[KeyDieOnErr None]] = ([], Some hx) \<and>
   run_handler hx \<lparr>dm_message = [(''key'', 7)], dm_asked = True, dm_sendable = False, dm_method = (\<lambda>_. Inl 9)\<rparr> =
     Inr [Called [VActorContext, VField (7 :: nat)], ActorFailed (9 :: nat), Answered (WholeResult (Inl 9 :: nat + nat))]"
proof -
  let ?d = "\<lparr>dm_message = [(''key'', 7 :: nat)], dm_asked = True, dm_sendable = False,
      dm_method = (\<lambda>_. Inl 9 :: nat + nat)\<rparr>"
  let ?c = "default_config\<lparr>hc_die_on_err := Some Forward\<rparr>"
  let ?bs = "[Context, Field ''key'' (TypePath ''u32'')]"
  have c: "parse_handler_attrs [[KeyDieOnErr None]] default_config = (?c, [])"
    by (simp add: die_mode_def default_config_def)
  obtain hx where hx: "expand_signature (\<lambda>ch. [ch]) (\<lambda>s. s \<noteq> []) put_signature ?c = Inr hx" "hx_arguments hx = ?bs"
    by (rule put_expansion [of ?c]) (simp_all add: default_config_def)
  then have accepted: "expand_handler (\<lambda>ch. [ch]) (\<lambda>s. s \<noteq> []) put_signature [[KeyDieOnErr None]] = ([], Some hx)"
    unfolding expand_handler_def c by simp
  have "unshadowed ?c ?bs" "fits_handler ?c ?bs ?d"
    by (simp_all add: unshadowed_def fits_handler_def default_config_def)
  with handler_keeps_its_promise [OF accepted, of ?c ?d] c hx(2)
  have "run_handler hx ?d = Inr (promised_events ?c ?bs ?d)" by simp
  moreover have "promised_events ?c ?bs ?d =
      [Called [VActorContext, VField 7], ActorFailed 9, Answered (WholeResult (Inl 9))]"
    by (simp add: promised_events_def promised_answer_def is_manual_def default_config_def)
  ultimately show ?thesis using accepted by auto
qed

section \<open>The method of the handle\<close>

fun field_value :: "('a, 'e, 'v) local_value \<Rightarrow> 'a option" where
  "field_value (VField x) = Some x"
| "field_value _ = None"

definition field_values :: "('a, 'e, 'v) local_value list \<Rightarrow> 'a list" where
  "field_values vs = List.map_filter field_value vs"

text \<open>The type of what is sent to the caller, by the signature of the method.\<close>

definition payload_type :: "signature \<Rightarrow> ('e, 'v) answer_payload \<Rightarrow> answer_type" where
  "payload_type sig p =
     (case sg_output sig of
        None \<Rightarrow> UnitAnswer
      | Some ty \<Rightarrow> (case p of WholeResult _ \<Rightarrow> TypeAnswer ty | OkPart _ \<Rightarrow> OkOfAnswer ty))"

fun answer_fits :: "signature \<Rightarrow> answer_type \<Rightarrow> ('a, 'e, 'v) body_event \<Rightarrow> bool" where
  "answer_fits sig ty (Answered p) \<longleftrightarrow> payload_type sig p = ty"
| "answer_fits sig ty _ \<longleftrightarrow> True"

lemma field_values_promised:
  "field_values (map (promised_arg d) bs) = map (\<lambda>(x, _). the (map_of (dm_message d) x)) (fields_of bs)"
proof (induction bs)
  case (Cons b bs)
  then show ?case by (cases b) (simp_all add: field_values_def map_filter_def)
qed (simp add: field_values_def map_filter_def)

lemma map_of_zip_values:
  "distinct ks \<Longrightarrow> length xs = length ks \<Longrightarrow> map (\<lambda>k. the (map_of (zip ks xs) k)) ks = xs"
proof (induction ks xs rule: list_induct2')
  case (4 k ks x xs)
  then have "map (\<lambda>k'. the (map_of (zip (k # ks) (x # xs)) k')) ks = map (\<lambda>k'. the (map_of (zip ks xs) k')) ks"
    by (intro map_cong) auto
  with 4 show ?case by simp
qed simp_all

lemma promised_answer_fits:
  assumes "check_bindings sig c bs = Inr u"
  shows "list_all (answer_fits sig (answer_of sig c bs)) (promised_events c bs d)"
  using assms
  by (auto simp: promised_events_def promised_answer_def answer_of_def payload_type_def check_bindings_Inr
      Let_def split: option.splits DieMode.splits sum.splits)

text \<open>C33: Calling the method of the typed handle runs the method of the actor: the message the macro declares
  carries the arguments, the body takes them out again and passes them in the order of the parameters, and
  what it sends to the caller has the answer type the message was declared with.\<close>

theorem handle_call_runs_method:
  assumes accepted: "expand_handler upper is_ident sig attrs = ([], Some hx)"
    and generated: "hx_message hx = GeneratedMessage name fs ty"
    and unshadowed: "unshadowed (fst (parse_handler_attrs attrs default_config)) (hx_arguments hx)"
    and message: "length xs = length fs" "dm_message d = construct_message (hx_method hx) xs []"
    and sendable: "dm_sendable d"
  shows "\<exists>args rest. run_handler hx d = Inr (Called args # rest) \<and> field_values args = xs \<and>
    list_all (answer_fits sig ty) rest"
proof -
  define c where "c = fst (parse_handler_attrs attrs default_config)"
  let ?bs = "hx_arguments hx"
  have hx: "expand_signature upper is_ident sig c = Inr hx"
    using expand_handler_accepts [OF accepted] by (simp add: c_def)
  then obtain checked: "check_bindings sig c ?bs = Inr ()"
    and declared: "message_of upper is_ident sig c ?bs = Inr (hx_message hx)"
    and "method": "hx_method hx = method_of c ?bs"
    by (rule expand_signature_Inr) blast
  from declared generated have none: "hx_message hx = hx_message hx" "hc_message c = None"
    and fs: "fs = fields_of ?bs" and ty: "ty = answer_of sig c ?bs"
    by (auto simp: message_of_def outcome_simps split: option.splits rust_type.splits)
  have whole: "fields_of ?bs = []" if "Message \<in> set ?bs" using that checked by (simp add: check_bindings_Inr)
  have zip: "dm_message d = zip (map fst fs) xs"
    using message(2) "method" none(2) whole fs by (auto simp: method_of_def)
  have names: "distinct (map fst fs)" using unshadowed by (simp add: unshadowed_def fs Let_def)
  have "fits_handler c ?bs d"
    using none(2) sendable message(1) by (simp add: fits_handler_def zip fs)
  then have run: "run_handler hx d = Inr (promised_events c ?bs d)"
    using handler_runs_promised [OF hx] unshadowed by (simp add: c_def)
  have "field_values (map (promised_arg d) ?bs) = map (\<lambda>k. the (map_of (zip (map fst fs) xs) k)) (map fst fs)"
    by (simp add: field_values_promised zip fs case_prod_unfold)
  then have "field_values (map (promised_arg d) ?bs) = xs"
    using map_of_zip_values [OF names, of xs] message(1) by simp
  moreover obtain rest where rest: "promised_events c ?bs d = Called (map (promised_arg d) ?bs) # rest"
    by (simp add: promised_events_def Let_def)
  moreover have "list_all (answer_fits sig ty) rest"
    using promised_answer_fits [OF checked, of d] by (simp add: rest ty)
  ultimately show ?thesis using run by auto
qed

lemma handle_call_runs_method_witness:
  "\<exists>hx. expand_handler (\<lambda>ch. [ch]) (\<lambda>s. s \<noteq> []) put_signature [[KeyDieOnErr (Some ''consume'')]] = ([], Some hx) \<and>
   (\<exists>args rest. run_handler hx \<lparr>dm_message = construct_message (hx_method hx) [7 :: nat] [], dm_asked = True,
        dm_sendable = True, dm_method = (\<lambda>_. Inr 9 :: nat + nat)\<rparr> = Inr (Called args # rest) \<and>
      field_values args = [7])"
proof -
  let ?c = "default_config\<lparr>hc_die_on_err := Some Consume\<rparr>"
  let ?bs = "[Context, Field ''key'' (TypePath ''u32'')]"
  have c: "parse_handler_attrs [[KeyDieOnErr (Some ''consume'')]] default_config = (?c, [])"
    by (simp add: die_mode_def default_config_def)
  obtain hx where hx: "expand_signature (\<lambda>ch. [ch]) (\<lambda>s. s \<noteq> []) put_signature ?c = Inr hx" "hx_arguments hx = ?bs"
    "hx_message hx = GeneratedMessage ''put'' [(''key'', TypePath ''u32'')] (answer_of put_signature ?c ?bs)"
    by (rule put_expansion [of ?c]) (simp_all add: default_config_def)
  then have accepted:
    "expand_handler (\<lambda>ch. [ch]) (\<lambda>s. s \<noteq> []) put_signature [[KeyDieOnErr (Some ''consume'')]] = ([], Some hx)"
    unfolding expand_handler_def c by simp
  have "unshadowed ?c ?bs" by (simp add: unshadowed_def default_config_def)
  with handle_call_runs_method [OF accepted hx(3), of "[7 :: nat]"
      "\<lparr>dm_message = construct_message (hx_method hx) [7 :: nat] [], dm_asked = True,
        dm_sendable = True, dm_method = (\<lambda>_. Inr 9 :: nat + nat)\<rparr>"] accepted show ?thesis
    by (auto simp: c hx(2) simp del: parse_handler_attrs.simps)
qed

section \<open>A parameter with the name of a variable of the body\<close>

text \<open>
  \<open>fn set(&mut self, answer: u32)\<close> is accepted, and its body does not run: the field shadows the sender of
  the answer.
\<close>

lemma shadowed_answer_is_stuck:
  "handler_body default_config [Field ''answer'' ty] =
    [LetParts True, Destructure [''answer''] False, LetResult, AnswerResult]"
  "eval_body [Field ''answer'' ty] \<lparr>dm_message = [(''answer'', x)], dm_asked = True, dm_sendable = True, dm_method = f\<rparr>
     (handler_body default_config [Field ''answer'' ty]) [''ctx'' \<mapsto> VHandlerContext] =
    Inl (Error (Unbound ''answer''))"
  by (simp_all add: handler_body_def destructure_stmt_def default_config_def is_manual_def eval_call_def
      eval_arg_def take_var_def peek_var_def eval_answer_def take_typed_def)

end
