(* ===== verification/Messages_Macro.thy ===== *)
theory Messages_Macro
  imports Handler_Macro
begin

text \<open>
  The \<open>messages\<close> attribute on an impl block, \<open>crates/factories_actor_macro/src/messages.rs\<close>: which methods are
  handlers, event sources and lifecycle hooks, what the block keeps, and when the macro accepts the block;
  \<open>crates/factories_actor_macro/src/util.rs\<close> for the crate root. Diagnostics are collected, and with any of
  them the compiler takes the block without its markers in place of the expansion.
\<close>

section \<open>The block\<close>

datatype hook_key = HookDieOnErr | HookOther

text \<open>The attributes of a method. The keys of a hook are \<open>None\<close> for the bare attribute.\<close>

datatype method_attr =
    HandlerAttr "handler_key list"
  | EventSourceAttr bool
  | OnStartAttr "hook_key list option"
  | OnStopAttr "hook_key list option"
  | OtherAttr string

record method_item =
  mt_attrs :: "method_attr list"
  mt_sig :: signature

datatype impl_item =
    ItemFn method_item
  | ItemConst "method_attr list" string
  | ItemType "method_attr list" string
  | ItemMacro "method_attr list" string
  | ItemOther string

text \<open>A path: its segments, each with its generic arguments, and the last of them.\<close>

datatype self_type = SelfPath "(string \<times> string) list" "string \<times> string" | SelfOther string

record impl_block =
  ib_trait :: "string option"
  ib_generic :: bool
  ib_self :: self_type
  ib_items :: "impl_item list"

section \<open>The crate root\<close>

text \<open>A \<open>crate\<close> key with a string literal, with something else, or another key. The last one counts.\<close>

datatype messages_key = CrateKey "string option" | OtherMessagesKey

fun parse_messages_attr :: "messages_key list \<Rightarrow> string option \<Rightarrow> string option \<times> diagnostic list" where
  "parse_messages_attr [] crate = (crate, [])"
| "parse_messages_attr (CrateKey (Some lit) # ks) crate = parse_messages_attr ks (Some lit)"
| "parse_messages_attr (CrateKey None # ks) crate = (crate, [InvalidValue])"
| "parse_messages_attr (OtherMessagesKey # ks) crate = (crate, [UnknownKey])"

text \<open>\<open>parse_path\<close> is what \<open>syn\<close> parses of a literal as a path.\<close>

definition krate_path :: "(string \<Rightarrow> string option) \<Rightarrow> string option \<Rightarrow> string \<times> diagnostic list" where
  "krate_path parse_path explicit =
     (case explicit of
        None \<Rightarrow> (''::factories'', [])
      | Some lit \<Rightarrow> (case parse_path lit of Some p \<Rightarrow> (p, []) | None \<Rightarrow> (''::factories'', [InvalidValue])))"

section \<open>The roles of a method\<close>

fun parse_hook_keys :: "hook_key list \<Rightarrow> bool \<Rightarrow> bool \<times> diagnostic list" where
  "parse_hook_keys [] die = (die, [])"
| "parse_hook_keys (HookDieOnErr # ks) die = parse_hook_keys ks True"
| "parse_hook_keys (HookOther # ks) die = (die, [UnknownKey])"

definition parse_hook_die_on_err :: "hook_key list option \<Rightarrow> bool \<times> diagnostic list" where
  "parse_hook_die_on_err keys = (case keys of None \<Rightarrow> (False, []) | Some ks \<Rightarrow> parse_hook_keys ks False)"

record role_flags =
  is_event_source :: bool
  is_on_start :: bool
  is_on_stop :: bool
  hook_die_on_err :: bool

definition no_roles :: role_flags where
  "no_roles = \<lparr>is_event_source = False, is_on_start = False, is_on_stop = False, hook_die_on_err = False\<rparr>"

text \<open>One pass over the attributes: the flags, the attributes that stay, and the diagnostics.\<close>

fun take_roles :: "method_attr list \<Rightarrow> role_flags \<Rightarrow> role_flags \<times> method_attr list \<times> diagnostic list" where
  "take_roles [] r = (r, [], [])"
| "take_roles (EventSourceAttr args # as) r =
     (let (r', rest, ds) = take_roles as (r\<lparr>is_event_source := True\<rparr>)
      in (r', rest, (if args then [EventSourceArguments] else []) @ ds))"
| "take_roles (OnStartAttr keys # as) r =
     (let (die, ds) = parse_hook_die_on_err keys;
          (r', rest, ds') = take_roles as (r\<lparr>is_on_start := True, hook_die_on_err := die\<rparr>)
      in (r', rest, ds @ ds'))"
| "take_roles (OnStopAttr keys # as) r =
     (let (die, ds) = parse_hook_die_on_err keys;
          (r', rest, ds') = take_roles as (r\<lparr>is_on_stop := True, hook_die_on_err := die\<rparr>)
      in (r', rest, ds @ ds'))"
| "take_roles (HandlerAttr keys # as) r = (let (r', rest, ds) = take_roles as r in (r', HandlerAttr keys # rest, ds))"
| "take_roles (OtherAttr s # as) r = (let (r', rest, ds) = take_roles as r in (r', OtherAttr s # rest, ds))"

fun handler_keys :: "method_attr \<Rightarrow> handler_key list option" where
  "handler_keys (HandlerAttr keys) = Some keys"
| "handler_keys _ = None"

definition handler_markers :: "method_attr list \<Rightarrow> handler_key list list" where
  "handler_markers as = List.map_filter handler_keys as"

definition without_handlers :: "method_attr list \<Rightarrow> method_attr list" where
  "without_handlers as = filter (\<lambda>a. handler_keys a = None) as"

fun is_param_marker :: "param_attr \<Rightarrow> bool" where
  "is_param_marker AttrUnknown = False"
| "is_param_marker _ = True"

definition strip_params :: "method_item \<Rightarrow> method_item" where
  "strip_params m =
     m\<lparr>mt_sig := (mt_sig m)\<lparr>sg_params :=
       map (\<lambda>p. p\<lparr>fp_attrs := filter (\<lambda>a. \<not> is_param_marker a) (fp_attrs p)\<rparr>) (sg_params (mt_sig m))\<rparr>\<rparr>"

text \<open>What the pass over the items collects.\<close>

record sorted_items =
  si_kept :: "impl_item list"
  si_handlers :: "(method_item \<times> handler_key list list) list"
  si_sources :: "method_item list"
  si_starts :: "(method_item \<times> bool) list"
  si_stops :: "(method_item \<times> bool) list"

definition no_items :: sorted_items where
  "no_items = \<lparr>si_kept = [], si_handlers = [], si_sources = [], si_starts = [], si_stops = []\<rparr>"

definition emit_if :: "bool \<Rightarrow> diagnostic \<Rightarrow> diagnostic list" where
  "emit_if wrong d = (if wrong then [d] else [])"

definition sort_method :: "method_item \<Rightarrow> sorted_items \<Rightarrow> sorted_items \<times> diagnostic list" where
  "sort_method function si =
     (let (r, rest, ds) = take_roles (mt_attrs function) no_roles;
          markers = handler_markers rest;
          function = function\<lparr>mt_attrs := without_handlers rest\<rparr>
      in if is_on_start r \<or> is_on_stop r then
           (if is_on_start r
            then si\<lparr>si_starts := si_starts si @ [(function, hook_die_on_err r)]\<rparr>
            else si\<lparr>si_stops := si_stops si @ [(function, hook_die_on_err r)]\<rparr>,
            ds @ emit_if (is_on_start r \<and> is_on_stop r) HookKindConflict
              @ emit_if (is_event_source r \<or> markers \<noteq> []) HookConflict)
         else if is_event_source r then
           (si\<lparr>si_sources := si_sources si @ [function]\<rparr>, ds @ emit_if (markers \<noteq> []) EventSourceConflict)
         else if markers \<noteq> [] then
           (si\<lparr>si_handlers := si_handlers si @ [(function, markers)],
               si_kept := si_kept si @ [ItemFn (strip_params function)]\<rparr>, ds)
         else (si\<lparr>si_kept := si_kept si @ [ItemFn function]\<rparr>, ds))"

text \<open>\<open>reject_misplaced_markers\<close>: a method-only marker on another item.\<close>

fun misplaced :: "method_attr \<Rightarrow> bool" where
  "misplaced (HandlerAttr _) = True"
| "misplaced (EventSourceAttr _) = True"
| "misplaced _ = False"

definition reject_misplaced_markers :: "method_attr list \<Rightarrow> diagnostic list" where
  "reject_misplaced_markers as = map (\<lambda>_. MarkerOnOther) (filter misplaced as)"

fun sort_item :: "impl_item \<Rightarrow> sorted_items \<Rightarrow> sorted_items \<times> diagnostic list" where
  "sort_item (ItemFn m) si = sort_method m si"
| "sort_item (ItemConst as t) si = (si\<lparr>si_kept := si_kept si @ [ItemConst as t]\<rparr>, reject_misplaced_markers as)"
| "sort_item (ItemType as t) si = (si\<lparr>si_kept := si_kept si @ [ItemType as t]\<rparr>, reject_misplaced_markers as)"
| "sort_item (ItemMacro as t) si = (si\<lparr>si_kept := si_kept si @ [ItemMacro as t]\<rparr>, reject_misplaced_markers as)"
| "sort_item (ItemOther t) si = (si\<lparr>si_kept := si_kept si @ [ItemOther t]\<rparr>, [UnsupportedItem])"

fun sort_items :: "impl_item list \<Rightarrow> sorted_items \<Rightarrow> sorted_items \<times> diagnostic list" where
  "sort_items [] si = (si, [])"
| "sort_items (i # is) si =
     (let (si', ds) = sort_item i si; (si'', ds') = sort_items is si' in (si'', ds @ ds'))"

section \<open>Event sources and hooks\<close>

text \<open>The method is emitted as \<open>next_event\<close> of the \<open>ActorEventSource\<close> impl.\<close>

definition rename_method :: "string \<Rightarrow> method_item \<Rightarrow> method_item" where
  "rename_method name m = m\<lparr>mt_sig := (mt_sig m)\<lparr>sg_ident := name\<rparr>\<rparr>"

definition expand_event_source :: "method_item \<Rightarrow> method_item checked" where
  "expand_event_source function =
     (let sig = mt_sig function in
      and_then (require (\<not> sg_generic sig) GenericSource) (\<lambda>_.
      and_then (require (\<not> sg_unsafe sig) UnsafeSource) (\<lambda>_.
      and_then (require (\<not> sg_extern sig) ExternSource) (\<lambda>_.
      and_then (require (sg_async sig) SyncSource) (\<lambda>_.
      and_then (require (sg_receiver sig = None) SourceReceiver) (\<lambda>_.
      Inr (rename_method ''next_event'' function)))))))"

datatype Hook = Start | Stop

text \<open>The method under its new name, whether it takes the reason, and whether its error fails the actor.\<close>

record hook_expansion =
  hk_method :: method_item
  hk_hook :: Hook
  hk_die_on_err :: bool

definition mangled :: "Hook \<Rightarrow> string" where
  "mangled hook =
     ''__factories_actor_'' @ (case hook of Start \<Rightarrow> ''on_start_hook'' | Stop \<Rightarrow> ''on_stop_hook'')"

definition expand_lifecycle_hook :: "method_item \<Rightarrow> Hook \<Rightarrow> bool \<Rightarrow> hook_expansion checked" where
  "expand_lifecycle_hook function hook die =
     (case sg_receiver (mt_sig function) of
        None \<Rightarrow> Inl (Error HookReceiver)
      | Some r \<Rightarrow>
          and_then (require (case hook of Start \<Rightarrow> rc_reference r \<and> rc_mutable r | Stop \<Rightarrow> \<not> rc_reference r)
            HookReceiver) (\<lambda>_.
          Inr \<lparr>hk_method = rename_method (mangled hook) function, hk_hook = hook, hk_die_on_err = die\<rparr>))"

text \<open>What the emitted trait method does: it calls the renamed method, and sends its error to \<open>cx.fail\<close>.\<close>

datatype 'e hook_event = HookCalled Hook | HookFailed 'e

definition run_generated_hook :: "hook_expansion \<Rightarrow> 'e + 'v \<Rightarrow> 'e hook_event list" where
  "run_generated_hook hk returned =
     HookCalled (hk_hook hk) #
     (if hk_die_on_err hk then (case returned of Inl e \<Rightarrow> [HookFailed e] | Inr _ \<Rightarrow> []) else [])"

section \<open>The attribute\<close>

text \<open>\<open>Customized\<close> has the handle \<open>CustomizedHandle\<close>.\<close>

definition handle_type :: "self_type \<Rightarrow> (string \<times> string) list checked" where
  "handle_type ty =
     (case ty of
        SelfOther _ \<Rightarrow> Inl (Error NotANamedType)
      | SelfPath segments (ident, _) \<Rightarrow> Inr (segments @ [(ident @ ''Handle'', '''')]))"

text \<open>Every function is expanded, its diagnostic is kept and its result left out.\<close>

fun collect_expansions :: "('a \<Rightarrow> diagnostic list \<times> 'b option) \<Rightarrow> 'a list \<Rightarrow> 'b list \<times> diagnostic list" where
  "collect_expansions f [] = ([], [])"
| "collect_expansions f (x # xs) =
     (let (ds, r) = f x; (rs, ds') = collect_expansions f xs
      in ((case r of Some y \<Rightarrow> y # rs | None \<Rightarrow> rs), ds @ ds'))"

definition of_checked :: "'a checked \<Rightarrow> diagnostic list \<times> 'a option" where
  "of_checked m = (case m of Inr x \<Rightarrow> ([], Some x) | Inl (Error d) \<Rightarrow> ([d], None) | Inl Panic \<Rightarrow> ([], None))"

record messages_output =
  mo_krate :: string
  mo_items :: "impl_item list"
  mo_handlers :: "expansion list"
  mo_sources :: "method_item list"
  mo_starts :: "hook_expansion list"
  mo_stops :: "hook_expansion list"
  mo_handle :: "((string \<times> string) list \<times> method_arg list) option"

definition messages :: "(string \<Rightarrow> string option) \<Rightarrow> (char \<Rightarrow> string) \<Rightarrow> (string \<Rightarrow> bool) \<Rightarrow> messages_key list \<Rightarrow> impl_block \<Rightarrow>
    diagnostic list \<times> messages_output" where
  "messages parse_path upper is_ident keys block =
     (let (crate, ds1) = parse_messages_attr keys None;
          (krate, ds2) = krate_path parse_path crate;
          (si, ds3) = sort_items (ib_items block) no_items;
          ds4 = emit_if (ib_trait block \<noteq> None) TraitImpl;
          ds5 = emit_if (ib_generic block) GenericImpl;
          (handlers, ds6) = collect_expansions (\<lambda>(m, markers). expand_handler upper is_ident (mt_sig m) markers) (si_handlers si);
          ds7 = emit_if (1 < length (si_sources si)) SecondEventSource;
          (sources, ds8) = collect_expansions (\<lambda>m. of_checked (expand_event_source m)) (si_sources si);
          ds9 = emit_if (1 < length (si_starts si)) SecondHook;
          (starts, ds10) = collect_expansions (\<lambda>(m, die). of_checked (expand_lifecycle_hook m Start die)) (si_starts si);
          ds11 = emit_if (1 < length (si_stops si)) SecondHook;
          (stops, ds12) = collect_expansions (\<lambda>(m, die). of_checked (expand_lifecycle_hook m Stop die)) (si_stops si);
          (ds13, handle) = of_checked (handle_type (ib_self block))
      in (ds1 @ ds2 @ ds3 @ ds4 @ ds5 @ ds6 @ ds7 @ ds8 @ ds9 @ ds10 @ ds11 @ ds12 @ ds13,
          \<lparr>mo_krate = krate, mo_items = si_kept si, mo_handlers = handlers, mo_sources = sources,
           mo_starts = starts, mo_stops = stops,
           mo_handle = (case handle of Some h \<Rightarrow> if handlers \<noteq> [] then Some (h, map hx_method handlers) else None | None \<Rightarrow> None)\<rparr>))"

end
