(* ===== verification/Messages_Properties.thy ===== *)
theory Messages_Properties
  imports Messages_Macro Handler_Run
begin

text \<open>
  When the \<open>messages\<close> attribute accepts an impl block, and where each of its methods ends up.
\<close>

section \<open>Which blocks are accepted\<close>

text \<open>The roles a method can have; it may have one at most.\<close>

datatype role = RHandler | RSource | RStart | RStop

fun role_of :: "method_attr \<Rightarrow> role option" where
  "role_of (HandlerAttr _) = Some RHandler"
| "role_of (EventSourceAttr _) = Some RSource"
| "role_of (OnStartAttr _) = Some RStart"
| "role_of (OnStopAttr _) = Some RStop"
| "role_of (OtherAttr _) = None"

definition method_roles :: "method_item \<Rightarrow> role list" where
  "method_roles m = List.map_filter role_of (mt_attrs m)"

definition method_role :: "method_item \<Rightarrow> role option" where
  "method_role m = (case method_roles m of [] \<Rightarrow> None | r # _ \<Rightarrow> Some r)"

fun attr_ok :: "method_attr \<Rightarrow> bool" where
  "attr_ok (EventSourceAttr args) \<longleftrightarrow> \<not> args"
| "attr_ok (OnStartAttr keys) \<longleftrightarrow> (case keys of None \<Rightarrow> True | Some ks \<Rightarrow> list_all ((=) HookDieOnErr) ks)"
| "attr_ok (OnStopAttr keys) \<longleftrightarrow> (case keys of None \<Rightarrow> True | Some ks \<Rightarrow> list_all ((=) HookDieOnErr) ks)"
| "attr_ok _ \<longleftrightarrow> True"

definition roles_ok :: "method_item \<Rightarrow> bool" where
  "roles_ok m \<longleftrightarrow> list_all attr_ok (mt_attrs m) \<and>
     (case method_roles m of [] \<Rightarrow> True | r # rs \<Rightarrow> list_all ((=) r) rs)"

fun item_ok :: "impl_item \<Rightarrow> bool" where
  "item_ok (ItemFn m) \<longleftrightarrow> roles_ok m"
| "item_ok (ItemConst as _) \<longleftrightarrow> list_all (\<lambda>a. \<not> misplaced a) as"
| "item_ok (ItemType as _) \<longleftrightarrow> list_all (\<lambda>a. \<not> misplaced a) as"
| "item_ok (ItemMacro as _) \<longleftrightarrow> list_all (\<lambda>a. \<not> misplaced a) as"
| "item_ok (ItemOther _) \<longleftrightarrow> False"

fun item_method :: "impl_item \<Rightarrow> method_item option" where
  "item_method (ItemFn m) = Some m"
| "item_method _ = None"

definition methods_with :: "role \<Rightarrow> impl_item list \<Rightarrow> method_item list" where
  "methods_with r is = filter (\<lambda>m. method_role m = Some r) (List.map_filter item_method is)"

text \<open>An event source: an associated \<open>async fn\<close>. A start hook takes \<open>&mut self\<close>, a stop hook \<open>self\<close>.\<close>

definition source_ok :: "method_item \<Rightarrow> bool" where
  "source_ok m \<longleftrightarrow> (let sig = mt_sig m in
     \<not> sg_generic sig \<and> \<not> sg_unsafe sig \<and> \<not> sg_extern sig \<and> sg_async sig \<and> sg_receiver sig = None)"

definition start_ok :: "method_item \<Rightarrow> bool" where
  "start_ok m \<longleftrightarrow> (case sg_receiver (mt_sig m) of None \<Rightarrow> False | Some r \<Rightarrow> rc_reference r \<and> rc_mutable r)"

definition stop_ok :: "method_item \<Rightarrow> bool" where
  "stop_ok m \<longleftrightarrow> (case sg_receiver (mt_sig m) of None \<Rightarrow> False | Some r \<Rightarrow> \<not> rc_reference r)"

definition handler_ok :: "(char \<Rightarrow> string) \<Rightarrow> (string \<Rightarrow> bool) \<Rightarrow> method_item \<Rightarrow> bool" where
  "handler_ok upper is_ident m \<longleftrightarrow>
     fst (expand_handler upper is_ident (mt_sig m) (handler_markers (mt_attrs m))) = []"

fun key_ok :: "messages_key \<Rightarrow> bool" where
  "key_ok (CrateKey (Some _)) \<longleftrightarrow> True"
| "key_ok _ \<longleftrightarrow> False"

definition keys_ok :: "(string \<Rightarrow> string option) \<Rightarrow> messages_key list \<Rightarrow> bool" where
  "keys_ok parse_path keys \<longleftrightarrow> list_all key_ok keys \<and>
     (case rev keys of CrateKey (Some lit) # _ \<Rightarrow> parse_path lit \<noteq> None | _ \<Rightarrow> True)"

definition block_ok :: "(string \<Rightarrow> string option) \<Rightarrow> (char \<Rightarrow> string) \<Rightarrow> (string \<Rightarrow> bool) \<Rightarrow> messages_key list \<Rightarrow>
    impl_block \<Rightarrow> bool" where
  "block_ok parse_path upper is_ident keys block \<longleftrightarrow>
     keys_ok parse_path keys \<and>
     ib_trait block = None \<and> \<not> ib_generic block \<and> (case ib_self block of SelfPath _ _ \<Rightarrow> True | SelfOther _ \<Rightarrow> False) \<and>
     list_all item_ok (ib_items block) \<and>
     list_all (handler_ok upper is_ident) (methods_with RHandler (ib_items block)) \<and>
     length (methods_with RSource (ib_items block)) \<le> 1 \<and>
     list_all source_ok (methods_with RSource (ib_items block)) \<and>
     length (methods_with RStart (ib_items block)) \<le> 1 \<and>
     list_all start_ok (methods_with RStart (ib_items block)) \<and>
     length (methods_with RStop (ib_items block)) \<le> 1 \<and>
     list_all stop_ok (methods_with RStop (ib_items block))"

section \<open>One pass over the attributes of a method\<close>

lemma parse_hook_keys_ok: "snd (parse_hook_keys ks die) = [] \<longleftrightarrow> list_all ((=) HookDieOnErr) ks"
  by (induction ks die rule: parse_hook_keys.induct) simp_all

lemma parse_hook_die_on_err_ok:
  "snd (parse_hook_die_on_err keys) = [] \<longleftrightarrow> (case keys of None \<Rightarrow> True | Some ks \<Rightarrow> list_all ((=) HookDieOnErr) ks)"
  by (simp add: parse_hook_die_on_err_def parse_hook_keys_ok split: option.splits)

definition has_role :: "role \<Rightarrow> method_attr list \<Rightarrow> bool" where
  "has_role r as \<longleftrightarrow> r \<in> set (List.map_filter role_of as)"

lemma has_role_simps [simp]:
  "has_role r [] \<longleftrightarrow> False"
  "has_role r (a # as) \<longleftrightarrow> role_of a = Some r \<or> has_role r as"
  by (auto simp: has_role_def map_filter_def)

lemma take_roles_flags:
  "take_roles as r = (r', rest, ds) \<Longrightarrow>
    is_event_source r' = (is_event_source r \<or> has_role RSource as) \<and>
    is_on_start r' = (is_on_start r \<or> has_role RStart as) \<and>
    is_on_stop r' = (is_on_stop r \<or> has_role RStop as) \<and>
    rest = filter (\<lambda>a. role_of a \<in> {None, Some RHandler}) as \<and>
    (ds = [] \<longleftrightarrow> list_all attr_ok as)"
proof (induction as arbitrary: r r' rest ds)
  case (Cons a as)
  show ?case
  proof (cases a)
    case (OnStartAttr keys)
    obtain die es where "parse_hook_die_on_err keys = (die, es)" by fastforce
    with Cons.prems OnStartAttr Cons.IH parse_hook_die_on_err_ok [of keys] show ?thesis
      by (auto split: prod.splits)
  next
    case (OnStopAttr keys)
    obtain die es where "parse_hook_die_on_err keys = (die, es)" by fastforce
    with Cons.prems OnStopAttr Cons.IH parse_hook_die_on_err_ok [of keys] show ?thesis
      by (auto split: prod.splits)
  qed (use Cons in \<open>auto split: prod.splits if_splits\<close>)
qed simp

lemma handler_markers_empty: "handler_markers as = [] \<longleftrightarrow> \<not> has_role RHandler as"
proof (induction as)
  case (Cons a as)
  then show ?case by (cases a) (simp_all add: handler_markers_def map_filter_def)
qed (simp add: handler_markers_def map_filter_def)

section \<open>The pass over the items\<close>

text \<open>What an item adds to the collected items does not depend on what is there.\<close>

definition add_items :: "sorted_items \<Rightarrow> sorted_items \<Rightarrow> sorted_items" where
  "add_items si new =
     \<lparr>si_kept = si_kept si @ si_kept new, si_handlers = si_handlers si @ si_handlers new,
      si_sources = si_sources si @ si_sources new, si_starts = si_starts si @ si_starts new,
      si_stops = si_stops si @ si_stops new\<rparr>"

lemma add_items_assoc: "add_items (add_items a b) c = add_items a (add_items b c)"
  by (simp add: add_items_def)

lemma add_no_items [simp]: "add_items si no_items = si" "add_items no_items si = si"
  by (simp_all add: add_items_def no_items_def)

lemma sort_item_adds:
  "sort_item i si = (add_items si (fst (sort_item i no_items)), snd (sort_item i no_items))"
  by (cases i) (auto simp: sort_method_def add_items_def no_items_def Let_def split: prod.splits)

lemma sort_items_adds:
  "sort_items is si =
    (add_items si (fst (sort_items is no_items)), snd (sort_items is no_items))"
proof (induction "is" arbitrary: si)
  case (Cons i "is")
  obtain new ds where i: "sort_item i no_items = (new, ds)" by fastforce
  have "sort_item i si = (add_items si new, ds)" using sort_item_adds [of i si] i by simp
  with i Cons [of "add_items si new"] Cons [of new] show ?case
    by (simp add: add_items_assoc case_prod_unfold)
qed simp

lemma sort_items_Cons:
  "sort_items (i # is) no_items =
    (add_items (fst (sort_item i no_items)) (fst (sort_items is no_items)),
     snd (sort_item i no_items) @ snd (sort_items is no_items))"
  using sort_items_adds [of "is" "fst (sort_item i no_items)"]
  by (simp add: case_prod_unfold Let_def)

text \<open>The roles as the code reads them: flags and markers.\<close>

lemma has_role_method: "has_role r (mt_attrs m) \<longleftrightarrow> r \<in> set (method_roles m)"
  by (simp add: has_role_def method_roles_def)

lemma one_role:
  "roles_ok m \<longleftrightarrow> list_all attr_ok (mt_attrs m) \<and>
    \<not> (has_role RStart (mt_attrs m) \<and> has_role RStop (mt_attrs m)) \<and>
    \<not> ((has_role RStart (mt_attrs m) \<or> has_role RStop (mt_attrs m)) \<and>
       (has_role RSource (mt_attrs m) \<or> has_role RHandler (mt_attrs m))) \<and>
    \<not> (has_role RSource (mt_attrs m) \<and> has_role RHandler (mt_attrs m))"
proof -
  have eq: "(case rs of [] \<Rightarrow> True | r # rs \<Rightarrow> list_all ((=) r) rs) \<longleftrightarrow>
      (\<forall>x\<in>set rs. \<forall>y\<in>set rs. x = y)" for rs :: "role list"
  proof (cases rs)
    case (Cons a l)
    then show ?thesis by (simp add: list_all_iff) metis
  qed simp
  have "(\<forall>x\<in>set (method_roles m). \<forall>y\<in>set (method_roles m). x = y) \<longleftrightarrow>
    \<not> (has_role RStart (mt_attrs m) \<and> has_role RStop (mt_attrs m)) \<and>
    \<not> ((has_role RStart (mt_attrs m) \<or> has_role RStop (mt_attrs m)) \<and>
       (has_role RSource (mt_attrs m) \<or> has_role RHandler (mt_attrs m))) \<and>
    \<not> (has_role RSource (mt_attrs m) \<and> has_role RHandler (mt_attrs m))" (is "?A \<longleftrightarrow> ?B")
  proof
    assume ?A then show ?B unfolding has_role_method by blast
  next
    assume B: ?B
    show ?A
    proof (intro ballI)
      fix x y assume "x \<in> set (method_roles m)" "y \<in> set (method_roles m)"
      with B show "x = y" unfolding has_role_method by (cases x; cases y) blast+
    qed
  qed
  with eq [of "method_roles m"] show ?thesis by (simp add: roles_ok_def)
qed

lemma method_role_has:
  assumes "roles_ok m"
  shows "method_role m = Some r \<longleftrightarrow> has_role r (mt_attrs m)"
  using assms by (auto simp: has_role_method method_role_def roles_ok_def list_all_iff split: list.splits)

definition other_attrs :: "method_item \<Rightarrow> method_item" where
  "other_attrs m = m\<lparr>mt_attrs := filter (\<lambda>a. role_of a = None) (mt_attrs m)\<rparr>"

lemma sort_method_ok: "snd (sort_method m no_items) = [] \<longleftrightarrow> roles_ok m"
proof -
  obtain r rest ds where t: "take_roles (mt_attrs m) no_roles = (r, rest, ds)"
    by (metis prod.exhaust)
  note flags = take_roles_flags [OF t]
  have "has_role RHandler (filter (\<lambda>a. role_of a \<in> {None, Some RHandler}) as) = has_role RHandler as" for as
    by (induction as) auto
  with flags have "handler_markers rest = [] \<longleftrightarrow> \<not> has_role RHandler (mt_attrs m)"
    by (simp add: handler_markers_empty)
  with flags t show ?thesis
    by (simp add: one_role sort_method_def no_roles_def emit_if_def Let_def)
qed

text \<open>A hook fails the actor on an error if the last of its attributes asks for it.\<close>

fun hook_request :: "method_attr \<Rightarrow> bool option" where
  "hook_request (OnStartAttr keys) = Some (fst (parse_hook_die_on_err keys))"
| "hook_request (OnStopAttr keys) = Some (fst (parse_hook_die_on_err keys))"
| "hook_request _ = None"

definition hook_fails :: "method_item \<Rightarrow> bool" where
  "hook_fails m = last (False # List.map_filter hook_request (mt_attrs m))"

lemma take_roles_die:
  "take_roles as r = (r', rest, ds) \<Longrightarrow>
    hook_die_on_err r' = last (hook_die_on_err r # List.map_filter hook_request as)"
proof (induction as arbitrary: r r' rest ds)
  case (Cons a as)
  show ?case
  proof (cases a)
    case (OnStartAttr keys)
    obtain die es where "parse_hook_die_on_err keys = (die, es)" by fastforce
    with Cons.prems OnStartAttr Cons.IH show ?thesis by (auto simp: map_filter_def split: prod.splits)
  next
    case (OnStopAttr keys)
    obtain die es where "parse_hook_die_on_err keys = (die, es)" by fastforce
    with Cons.prems OnStopAttr Cons.IH show ?thesis by (auto simp: map_filter_def split: prod.splits)
  qed (use Cons in \<open>auto simp: map_filter_def split: prod.splits\<close>)
qed (simp add: map_filter_def)

lemma without_handlers_rest:
  "without_handlers (filter (\<lambda>a. role_of a \<in> {None, Some RHandler}) as) = filter (\<lambda>a. role_of a = None) as"
proof (induction as)
  case (Cons a as)
  then show ?case by (cases a) (simp_all add: without_handlers_def)
qed (simp add: without_handlers_def)

lemma handler_markers_rest:
  "handler_markers (filter (\<lambda>a. role_of a \<in> {None, Some RHandler}) as) = handler_markers as"
proof (induction as)
  case (Cons a as)
  then show ?case by (cases a) (simp_all add: handler_markers_def map_filter_def)
qed simp

definition method_goes :: "method_item \<Rightarrow> sorted_items" where
  "method_goes m =
     (case method_role m of
        None \<Rightarrow> no_items\<lparr>si_kept := [ItemFn (other_attrs m)]\<rparr>
      | Some RHandler \<Rightarrow> no_items\<lparr>si_handlers := [(other_attrs m, handler_markers (mt_attrs m))],
                                 si_kept := [ItemFn (strip_params (other_attrs m))]\<rparr>
      | Some RSource \<Rightarrow> no_items\<lparr>si_sources := [other_attrs m]\<rparr>
      | Some RStart \<Rightarrow> no_items\<lparr>si_starts := [(other_attrs m, hook_fails m)]\<rparr>
      | Some RStop \<Rightarrow> no_items\<lparr>si_stops := [(other_attrs m, hook_fails m)]\<rparr>)"

lemma sort_method_goes:
  assumes ok: "roles_ok m"
  shows "fst (sort_method m no_items) = method_goes m"
proof -
  obtain r rest ds where t: "take_roles (mt_attrs m) no_roles = (r, rest, ds)"
    by (metis prod.exhaust)
  note flags = take_roles_flags [OF t] take_roles_die [OF t]
  have markers: "handler_markers rest = handler_markers (mt_attrs m)"
    using flags by (simp only: handler_markers_rest)
  have attrs: "without_handlers rest = filter (\<lambda>a. role_of a = None) (mt_attrs m)"
    using flags by (simp only: without_handlers_rest)
  have die: "hook_die_on_err r = hook_fails m" using flags(2) by (simp add: hook_fails_def no_roles_def)
  have roles: "method_role m = Some q \<longleftrightarrow> has_role q (mt_attrs m)" for q using method_role_has [OF ok] .
  have read: "is_on_start r = has_role RStart (mt_attrs m)" "is_on_stop r = has_role RStop (mt_attrs m)"
    "is_event_source r = has_role RSource (mt_attrs m)"
    using flags(1) by (simp_all add: no_roles_def)
  have sort: "fst (sort_method m no_items) =
     (if has_role RStart (mt_attrs m) then no_items\<lparr>si_starts := [(other_attrs m, hook_fails m)]\<rparr>
      else if has_role RStop (mt_attrs m) then no_items\<lparr>si_stops := [(other_attrs m, hook_fails m)]\<rparr>
      else if has_role RSource (mt_attrs m) then no_items\<lparr>si_sources := [other_attrs m]\<rparr>
      else if has_role RHandler (mt_attrs m) then
        no_items\<lparr>si_handlers := [(other_attrs m, handler_markers (mt_attrs m))],
                 si_kept := [ItemFn (strip_params (other_attrs m))]\<rparr>
      else no_items\<lparr>si_kept := [ItemFn (other_attrs m)]\<rparr>)"
    using read by (simp add: sort_method_def Let_def t markers attrs die other_attrs_def handler_markers_empty no_items_def)
  show ?thesis
  proof (cases "method_role m")
    case None
    then have "\<not> has_role q (mt_attrs m)" for q using roles [of q] by simp
    with None sort show ?thesis by (simp add: method_goes_def)
  next
    case (Some q)
    then have "has_role q' (mt_attrs m) \<longleftrightarrow> q' = q" for q' using roles [of q'] by auto
    with Some sort show ?thesis by (cases q) (simp_all add: method_goes_def)
  qed
qed

fun kept_item :: "impl_item \<Rightarrow> impl_item option" where
  "kept_item (ItemFn m) =
     (case method_role m of
        None \<Rightarrow> Some (ItemFn (other_attrs m))
      | Some RHandler \<Rightarrow> Some (ItemFn (strip_params (other_attrs m)))
      | Some _ \<Rightarrow> None)"
| "kept_item i = Some i"

lemma misplaced_ok: "reject_misplaced_markers as = [] \<longleftrightarrow> list_all (\<lambda>a. \<not> misplaced a) as"
  by (induction as) (simp_all add: reject_misplaced_markers_def)

lemma sort_items_ok: "snd (sort_items is no_items) = [] \<longleftrightarrow> list_all item_ok is"
proof (induction "is")
  case (Cons i "is")
  have "snd (sort_item i no_items) = [] \<longleftrightarrow> item_ok i"
    by (cases i) (simp_all add: sort_method_ok misplaced_ok)
  with Cons show ?case by (simp only: sort_items_Cons snd_conv append_is_Nil_conv list.pred_inject)
qed simp

lemma sort_items_goes:
  "list_all item_ok is \<Longrightarrow> fst (sort_items is no_items) =
    \<lparr>si_kept = List.map_filter kept_item is,
     si_handlers = map (\<lambda>m. (other_attrs m, handler_markers (mt_attrs m))) (methods_with RHandler is),
     si_sources = map other_attrs (methods_with RSource is),
     si_starts = map (\<lambda>m. (other_attrs m, hook_fails m)) (methods_with RStart is),
     si_stops = map (\<lambda>m. (other_attrs m, hook_fails m)) (methods_with RStop is)\<rparr>"
proof (induction "is")
  case Nil
  show ?case by (simp add: no_items_def methods_with_def map_filter_def)
next
  case (Cons i "is")
  have more: "List.map_filter f (x # xs) = (case f x of None \<Rightarrow> [] | Some y \<Rightarrow> [y]) @ List.map_filter f xs"
    for f :: "impl_item \<Rightarrow> 'b option" and x xs by (simp add: map_filter_def split: option.split)
  have with_more: "methods_with r (i # is) = methods_with r [i] @ methods_with r is" for r
    by (simp add: methods_with_def map_filter_def)
  have "fst (sort_item i no_items) =
    \<lparr>si_kept = (case kept_item i of None \<Rightarrow> [] | Some y \<Rightarrow> [y]),
     si_handlers = map (\<lambda>m. (other_attrs m, handler_markers (mt_attrs m))) (methods_with RHandler [i]),
     si_sources = map other_attrs (methods_with RSource [i]),
     si_starts = map (\<lambda>m. (other_attrs m, hook_fails m)) (methods_with RStart [i]),
     si_stops = map (\<lambda>m. (other_attrs m, hook_fails m)) (methods_with RStop [i])\<rparr>"
  proof (cases i)
    case (ItemFn m)
    with Cons.prems have "roles_ok m" by simp
    with ItemFn have goes: "fst (sort_item i no_items) = method_goes m" by (simp add: sort_method_goes)
    show ?thesis
      unfolding goes unfolding ItemFn
      by (simp add: method_goes_def methods_with_def map_filter_def no_items_def split: option.split role.split)
  qed (simp_all add: methods_with_def map_filter_def no_items_def)
  with Cons show ?case
    by (simp add: sort_items_Cons add_items_def more [of kept_item] with_more
        del: sort_items.simps split: option.split)
qed

section \<open>The expansions\<close>

lemma collect_expansions_ok:
  "snd (collect_expansions f xs) = [] \<longleftrightarrow> list_all (\<lambda>x. fst (f x) = []) xs"
  by (induction xs) (auto split: prod.splits)

lemma collect_expansions_results:
  "list_all (\<lambda>x. \<exists>y. f x = ([], Some y)) xs \<Longrightarrow> fst (collect_expansions f xs) = map (\<lambda>x. the (snd (f x))) xs"
  by (induction xs) (auto split: prod.splits)

lemma of_checked_ok: "m \<noteq> Inl Panic \<Longrightarrow> fst (of_checked m) = [] \<longleftrightarrow> (\<exists>y. of_checked m = ([], Some y))"
  by (auto simp: of_checked_def split: sum.splits fault.splits)

text \<open>No step of an expansion panics.\<close>

lemma require_no_panic [simp]: "require ok d \<noteq> Inl Panic"
  by (simp add: require_def)

lemma param_marker_no_panic: "param_marker as found \<noteq> Inl Panic"
proof (induction as found rule: param_marker.induct)
  case (2 a as found)
  then show ?case by (cases a) (auto simp: outcome_simps)
qed simp

lemma bind_params_no_panic: "bind_params ps bs \<noteq> Inl Panic"
proof (induction ps bs rule: bind_params.induct)
  case (2 p ps bs)
  show ?case
  proof
    assume panic: "bind_params (p # ps) bs = Inl Panic"
    then obtain m where m: "param_marker (fp_attrs p) None = Inr m"
      by (auto simp: outcome_simps param_marker_no_panic)
    show False
    proof (cases m)
      case None
      with panic m "2.IH"(1) [OF m None] show False by (auto split: option.splits)
    next
      case (Some b)
      with panic m "2.IH"(2) [OF m Some] show False by (auto simp: outcome_simps)
    qed
  qed
qed simp

lemma expand_signature_no_panic: "expand_signature upper is_ident sig c \<noteq> Inl Panic"
  by (auto simp: expand_signature_def outcome_simps bind_params_no_panic check_bindings_def Let_def
      message_of_def message_type_name_def split: option.splits rust_type.splits if_splits)

lemma expand_handler_ok:
  "fst (expand_handler upper is_ident sig attrs) = [] \<longleftrightarrow> (\<exists>hx. expand_handler upper is_ident sig attrs = ([], Some hx))"
  using expand_signature_no_panic [of upper is_ident sig]
  by (auto simp: expand_handler_def split: prod.splits sum.splits fault.splits)

lemma expand_event_source_ok:
  "of_checked (expand_event_source m) = ([], Some (rename_method ''next_event'' m)) \<longleftrightarrow> source_ok m"
  "fst (of_checked (expand_event_source m)) = [] \<longleftrightarrow> source_ok m"
  by (simp_all add: expand_event_source_def source_ok_def of_checked_def require_def Let_def)

lemma expand_start_ok:
  "of_checked (expand_lifecycle_hook m Start die) =
     ([], Some \<lparr>hk_method = rename_method (mangled Start) m, hk_hook = Start, hk_die_on_err = die\<rparr>) \<longleftrightarrow> start_ok m"
  "fst (of_checked (expand_lifecycle_hook m Start die)) = [] \<longleftrightarrow> start_ok m"
  by (simp_all add: expand_lifecycle_hook_def start_ok_def of_checked_def require_def split: option.split)

lemma expand_stop_ok:
  "of_checked (expand_lifecycle_hook m Stop die) =
     ([], Some \<lparr>hk_method = rename_method (mangled Stop) m, hk_hook = Stop, hk_die_on_err = die\<rparr>) \<longleftrightarrow> stop_ok m"
  "fst (of_checked (expand_lifecycle_hook m Stop die)) = [] \<longleftrightarrow> stop_ok m"
  by (simp_all add: expand_lifecycle_hook_def stop_ok_def of_checked_def require_def split: option.split)

lemma other_attrs_sig [simp]: "mt_sig (other_attrs m) = mt_sig m"
  by (simp add: other_attrs_def)

lemma other_attrs_checks [simp]:
  "source_ok (other_attrs m) = source_ok m" "start_ok (other_attrs m) = start_ok m"
  "stop_ok (other_attrs m) = stop_ok m"
  by (simp_all add: source_ok_def start_ok_def stop_ok_def)

lemma parse_messages_attr_ok:
  "snd (parse_messages_attr keys crate) = [] \<longleftrightarrow> list_all key_ok keys"
  "list_all key_ok keys \<Longrightarrow> fst (parse_messages_attr keys crate) =
    (case rev keys of CrateKey (Some lit) # _ \<Rightarrow> Some lit | _ \<Rightarrow> crate)"
proof (induction keys crate rule: parse_messages_attr.induct)
  case (2 lit ks crate)
  { case 1 show ?case using 2 by simp }
  { case 2 with \<open>\<lbrakk>list_all key_ok ks\<rbrakk> \<Longrightarrow> _\<close> show ?case
      by (cases "rev ks") (auto elim!: key_ok.elims) }
qed simp_all

lemma keys_ok_iff:
  "keys_ok parse_path keys \<longleftrightarrow> snd (parse_messages_attr keys None) = [] \<and>
    snd (krate_path parse_path (fst (parse_messages_attr keys None))) = []"
  using parse_messages_attr_ok [of keys None]
  by (auto simp: keys_ok_def krate_path_def split: option.splits list.splits messages_key.splits)

section \<open>The attribute\<close>

definition krate_of :: "(string \<Rightarrow> string option) \<Rightarrow> messages_key list \<Rightarrow> string" where
  "krate_of parse_path keys = fst (krate_path parse_path (fst (parse_messages_attr keys None)))"

definition expanded_handler :: "(char \<Rightarrow> string) \<Rightarrow> (string \<Rightarrow> bool) \<Rightarrow> method_item \<Rightarrow> expansion" where
  "expanded_handler upper is_ident m =
     the (snd (expand_handler upper is_ident (mt_sig m) (handler_markers (mt_attrs m))))"

text \<open>Where every item of an accepted block goes.\<close>

definition routed :: "(string \<Rightarrow> string option) \<Rightarrow> (char \<Rightarrow> string) \<Rightarrow> (string \<Rightarrow> bool) \<Rightarrow> messages_key list \<Rightarrow>
    impl_block \<Rightarrow> messages_output" where
  "routed parse_path upper is_ident keys block =
     (let items = ib_items block; handlers = map (expanded_handler upper is_ident) (methods_with RHandler items) in
      \<lparr>mo_krate = krate_of parse_path keys,
       mo_items = List.map_filter kept_item items,
       mo_handlers = handlers,
       mo_sources = map (\<lambda>m. rename_method ''next_event'' (other_attrs m)) (methods_with RSource items),
       mo_starts = map (\<lambda>m. \<lparr>hk_method = rename_method (mangled Start) (other_attrs m), hk_hook = Start,
         hk_die_on_err = hook_fails m\<rparr>) (methods_with RStart items),
       mo_stops = map (\<lambda>m. \<lparr>hk_method = rename_method (mangled Stop) (other_attrs m), hk_hook = Stop,
         hk_die_on_err = hook_fails m\<rparr>) (methods_with RStop items),
       mo_handle = (if handlers = [] then None
         else map_option (\<lambda>h. (h, map hx_method handlers)) (snd (of_checked (handle_type (ib_self block)))))\<rparr>)"

lemma emit_if_empty [simp]: "emit_if wrong d = [] \<longleftrightarrow> \<not> wrong"
  by (simp add: emit_if_def)

lemma handle_type_ok:
  "fst (of_checked (handle_type ty)) = [] \<longleftrightarrow> (case ty of SelfPath _ _ \<Rightarrow> True | SelfOther _ \<Rightarrow> False)"
  by (simp add: handle_type_def of_checked_def split: self_type.split prod.split)

lemma messages_split:
  fixes block keys
  defines "si \<equiv> fst (sort_items (ib_items block) no_items)"
  shows "fst (messages parse_path upper is_ident keys block) = [] \<longleftrightarrow>
    keys_ok parse_path keys \<and> snd (sort_items (ib_items block) no_items) = [] \<and>
    ib_trait block = None \<and> \<not> ib_generic block \<and>
    snd (collect_expansions (\<lambda>(m, markers). expand_handler upper is_ident (mt_sig m) markers) (si_handlers si)) = [] \<and>
    length (si_sources si) \<le> 1 \<and>
    snd (collect_expansions (\<lambda>m. of_checked (expand_event_source m)) (si_sources si)) = [] \<and>
    length (si_starts si) \<le> 1 \<and>
    snd (collect_expansions (\<lambda>(m, die). of_checked (expand_lifecycle_hook m Start die)) (si_starts si)) = [] \<and>
    length (si_stops si) \<le> 1 \<and>
    snd (collect_expansions (\<lambda>(m, die). of_checked (expand_lifecycle_hook m Stop die)) (si_stops si)) = [] \<and>
    fst (of_checked (handle_type (ib_self block))) = []"
  unfolding messages_def Let_def case_prod_unfold si_def keys_ok_iff
  by (simp only: fst_conv append_is_Nil_conv emit_if_empty not_less not_not conj_assoc)

lemma messages_result:
  fixes block
  defines "si \<equiv> fst (sort_items (ib_items block) no_items)"
  shows "snd (messages parse_path upper is_ident keys block) =
    \<lparr>mo_krate = krate_of parse_path keys, mo_items = si_kept si,
     mo_handlers = fst (collect_expansions (\<lambda>(m, markers). expand_handler upper is_ident (mt_sig m) markers) (si_handlers si)),
     mo_sources = fst (collect_expansions (\<lambda>m. of_checked (expand_event_source m)) (si_sources si)),
     mo_starts = fst (collect_expansions (\<lambda>(m, die). of_checked (expand_lifecycle_hook m Start die)) (si_starts si)),
     mo_stops = fst (collect_expansions (\<lambda>(m, die). of_checked (expand_lifecycle_hook m Stop die)) (si_stops si)),
     mo_handle = (case snd (of_checked (handle_type (ib_self block))) of
        Some h \<Rightarrow> if fst (collect_expansions (\<lambda>(m, markers). expand_handler upper is_ident (mt_sig m) markers)
            (si_handlers si)) \<noteq> []
          then Some (h, map hx_method (fst (collect_expansions
            (\<lambda>(m, markers). expand_handler upper is_ident (mt_sig m) markers) (si_handlers si)))) else None
      | None \<Rightarrow> None)\<rparr>"
  unfolding messages_def Let_def case_prod_unfold si_def krate_of_def by (simp only: snd_conv)

lemma list_all_map_iff: "list_all p (map f xs) \<longleftrightarrow> list_all (\<lambda>x. p (f x)) xs"
  by (induction xs) simp_all

lemma messages_diagnostics:
  "fst (messages parse_path upper is_ident keys block) = [] \<longleftrightarrow>
    block_ok parse_path upper is_ident keys block"
proof (cases "list_all item_ok (ib_items block)")
  case False
  then show ?thesis by (simp add: messages_split sort_items_ok block_ok_def)
next
  case True
  have handlers: "list_all (handler_ok upper is_ident) ms \<longleftrightarrow>
      list_all (\<lambda>m. fst (expand_handler upper is_ident (mt_sig m) (handler_markers (mt_attrs m))) = []) ms" for ms
    by (simp add: handler_ok_def [abs_def])
  from True show ?thesis
    unfolding messages_split sort_items_goes [OF True] sort_items_ok block_ok_def handlers
    by (simp only: sorted_items.simps length_map collect_expansions_ok list_all_map_iff split_conv
        expand_event_source_ok expand_start_ok expand_stop_ok other_attrs_checks other_attrs_sig handle_type_ok)
      blast
qed

lemma collect_expansions_map:
  "list_all (\<lambda>m. f (g m) = ([], Some (h m))) ms \<Longrightarrow> fst (collect_expansions f (map g ms)) = map h ms"
  by (induction ms) (simp_all add: case_prod_unfold)

lemma messages_routes:
  assumes ok: "block_ok parse_path upper is_ident keys block"
  shows "snd (messages parse_path upper is_ident keys block) = routed parse_path upper is_ident keys block"
proof -
  let ?items = "ib_items block"
  have items: "list_all item_ok ?items" using ok by (simp add: block_ok_def)
  have handlers: "list_all (\<lambda>m. \<exists>hx. expand_handler upper is_ident (mt_sig m) (handler_markers (mt_attrs m)) =
      ([], Some hx)) (methods_with RHandler ?items)"
    using ok by (simp add: block_ok_def handler_ok_def [abs_def] expand_handler_ok)
  have sources: "list_all (\<lambda>m. of_checked (expand_event_source (other_attrs m)) =
      ([], Some (rename_method ''next_event'' (other_attrs m)))) (methods_with RSource ?items)"
    using ok by (simp add: block_ok_def expand_event_source_ok(1))
  have starts: "list_all (\<lambda>m. of_checked (expand_lifecycle_hook (other_attrs m) Start (hook_fails m)) =
      ([], Some \<lparr>hk_method = rename_method (mangled Start) (other_attrs m), hk_hook = Start,
        hk_die_on_err = hook_fails m\<rparr>)) (methods_with RStart ?items)"
    using ok by (simp add: block_ok_def expand_start_ok(1))
  have stops: "list_all (\<lambda>m. of_checked (expand_lifecycle_hook (other_attrs m) Stop (hook_fails m)) =
      ([], Some \<lparr>hk_method = rename_method (mangled Stop) (other_attrs m), hk_hook = Stop,
        hk_die_on_err = hook_fails m\<rparr>)) (methods_with RStop ?items)"
    using ok by (simp add: block_ok_def expand_stop_ok(1))
  have "list_all (\<lambda>m. expand_handler upper is_ident (mt_sig m) (handler_markers (mt_attrs m)) =
      ([], Some (expanded_handler upper is_ident m))) (methods_with RHandler ?items)"
    using handlers by (auto simp: expanded_handler_def list_all_iff)
  then have handlers: "fst (collect_expansions (\<lambda>(m, markers). expand_handler upper is_ident (mt_sig m) markers)
      (map (\<lambda>m. (other_attrs m, handler_markers (mt_attrs m))) (methods_with RHandler ?items))) =
    map (expanded_handler upper is_ident) (methods_with RHandler ?items)"
    by (intro collect_expansions_map) simp
  have sources: "fst (collect_expansions (\<lambda>m. of_checked (expand_event_source m))
      (map other_attrs (methods_with RSource ?items))) =
    map (\<lambda>m. rename_method ''next_event'' (other_attrs m)) (methods_with RSource ?items)"
    using sources by (rule collect_expansions_map)
  have starts: "fst (collect_expansions (\<lambda>(m, die). of_checked (expand_lifecycle_hook m Start die))
      (map (\<lambda>m. (other_attrs m, hook_fails m)) (methods_with RStart ?items))) =
    map (\<lambda>m. \<lparr>hk_method = rename_method (mangled Start) (other_attrs m), hk_hook = Start,
      hk_die_on_err = hook_fails m\<rparr>) (methods_with RStart ?items)"
    using starts by (intro collect_expansions_map) simp
  have stops: "fst (collect_expansions (\<lambda>(m, die). of_checked (expand_lifecycle_hook m Stop die))
      (map (\<lambda>m. (other_attrs m, hook_fails m)) (methods_with RStop ?items))) =
    map (\<lambda>m. \<lparr>hk_method = rename_method (mangled Stop) (other_attrs m), hk_hook = Stop,
      hk_die_on_err = hook_fails m\<rparr>) (methods_with RStop ?items)"
    using stops by (intro collect_expansions_map) simp
  show ?thesis
    unfolding messages_result sort_items_goes [OF items] sorted_items.simps handlers sources starts stops
      routed_def Let_def
    by (simp split: option.split)
qed

text \<open>C34: The \<open>messages\<close> attribute accepts exactly the inherent, non-generic impl blocks of a named type in which
  every method has one role at most, handlers, event sources and hooks have the shapes that are asked for,
  and there is at most one event source, one start hook and one stop hook; and then every method goes to
  one place: handlers are expanded and stay in the block, event sources and hooks are moved to the trait
  they implement, under its name, and the rest stays.\<close>

theorem messages_accepts:
  "messages parse_path upper is_ident keys block = ([], out) \<longleftrightarrow>
    block_ok parse_path upper is_ident keys block \<and> out = routed parse_path upper is_ident keys block"
  using messages_diagnostics [of parse_path upper is_ident keys block] messages_routes
  by (metis prod.collapse prod.inject)

end
