(* ===== verification/Derive_Macro.thy ===== *)
theory Derive_Macro
  imports Messages_Macro
begin

text \<open>
  The derive macros \<open>Actor\<close> and \<open>Message\<close>, \<open>crates/factories_actor_macro/src/{actor,message,util}.rs\<close>: which
  configuration they accept, and where each associated type comes from. What the generated hooks and the
  generated event loop do is part of \<open>Specialize\<close>.
\<close>

section \<open>Configurations\<close>

text \<open>A key with its value, \<open>None\<close> if the value does not parse. A configuration has a slot per key.\<close>

datatype 'k meta = Meta 'k "string option" | UnknownMeta

type_synonym 'k config = "'k \<Rightarrow> string option"

fun meta_step :: "'k meta \<Rightarrow> 'k config \<Rightarrow> ('k config \<times> diagnostic list) checked" where
  "meta_step (Meta k v) c = and_then (set_value (c k) v) (\<lambda>(slot, ds). Inr (c(k := slot), ds))"
| "meta_step UnknownMeta c = Inl (Error UnknownKey)"

fun parse_metas :: "'k meta list \<Rightarrow> 'k config \<Rightarrow> 'k config \<times> diagnostic list" where
  "parse_metas [] c = (c, [])"
| "parse_metas (m # ms) c =
     (case meta_step m c of
        Inl (Error d) \<Rightarrow> (c, [d])
      | Inl Panic \<Rightarrow> (c, [])
      | Inr (c', ds) \<Rightarrow> (let (c'', ds') = parse_metas ms c' in (c'', ds @ ds')))"

text \<open>An error ends its attribute, the other attributes are still read.\<close>

fun parse_attributes :: "'k meta list list \<Rightarrow> 'k config \<Rightarrow> 'k config \<times> diagnostic list" where
  "parse_attributes [] c = (c, [])"
| "parse_attributes (a # as) c =
     (let (c', ds) = parse_metas a c; (c'', ds') = parse_attributes as c' in (c'', ds @ ds'))"

definition reject_generics :: "bool \<Rightarrow> diagnostic list" where
  "reject_generics generic = emit_if generic GenericDerive"

text \<open>Where a value comes from: the key, or a default.\<close>

datatype 'd value_source = FromKey string | FromDefault 'd

definition value_or_default :: "string option \<Rightarrow> 'd \<Rightarrow> 'd value_source" where
  "value_or_default explicit d = (case explicit of Some v \<Rightarrow> FromKey v | None \<Rightarrow> FromDefault d)"

definition rtti_name :: "string option \<Rightarrow> string \<Rightarrow> string" where
  "rtti_name explicit ident = (case explicit of Some name \<Rightarrow> name | None \<Rightarrow> ident)"

section \<open>Actors\<close>

datatype actor_key =
  KTemplate | KChannel | KError | KBinder | KLock | KRunLoop | KShared | KEventDriver | KName | KCrate

text \<open>A member of the template, an alias of \<open>runtime::defaults\<close>, the unit type, or the generated event loop.\<close>

datatype actor_default = TemplateMember string actor_key | RuntimeDefault actor_key | UnitType | GeneratedLoop string

record derived_actor =
  da_handle :: string
  da_name :: string
  da_krate :: string
  da_channel :: "actor_default value_source"
  da_error :: "actor_default value_source"
  da_binder :: "actor_default value_source"
  da_lock :: "actor_default value_source"
  da_run_loop :: "actor_default value_source"
  da_shared :: "actor_default value_source"
  da_event_driver :: "actor_default value_source"

definition member_default :: "actor_key config \<Rightarrow> actor_key \<Rightarrow> actor_default" where
  "member_default c k = (case c KTemplate of Some template \<Rightarrow> TemplateMember template k | None \<Rightarrow> RuntimeDefault k)"

definition derive_actor :: "(string \<Rightarrow> string option) \<Rightarrow> string \<Rightarrow> bool \<Rightarrow> actor_key meta list list \<Rightarrow>
    diagnostic list \<times> derived_actor" where
  "derive_actor parse_path ident generic attrs =
     (let ds1 = reject_generics generic;
          (c, ds2) = parse_attributes attrs (\<lambda>_. None);
          (krate, ds3) = krate_path parse_path (c KCrate)
      in (ds1 @ ds2 @ ds3,
          \<lparr>da_handle = ident @ ''Handle'',
           da_name = rtti_name (c KName) ident,
           da_krate = krate,
           da_channel = value_or_default (c KChannel) (member_default c KChannel),
           da_error = value_or_default (c KError) (member_default c KError),
           da_binder = value_or_default (c KBinder) (member_default c KBinder),
           da_lock = value_or_default (c KLock) (member_default c KLock),
           da_run_loop = value_or_default (c KRunLoop) (member_default c KRunLoop),
           da_shared = value_or_default (c KShared) UnitType,
           da_event_driver = value_or_default (c KEventDriver) (GeneratedLoop (ident @ ''EventLoop''))\<rparr>))"

section \<open>Messages\<close>

datatype message_key = KAnswer | KMessageName | KMessageCrate

datatype message_default = UnitAnswerType

record derived_message =
  dg_answer :: "message_default value_source"
  dg_name :: string
  dg_krate :: string

definition derive_message :: "(string \<Rightarrow> string option) \<Rightarrow> string \<Rightarrow> bool \<Rightarrow> message_key meta list list \<Rightarrow>
    diagnostic list \<times> derived_message" where
  "derive_message parse_path ident generic attrs =
     (let ds1 = reject_generics generic;
          (c, ds2) = parse_attributes attrs (\<lambda>_. None);
          (krate, ds3) = krate_path parse_path (c KMessageCrate)
      in (ds1 @ ds2 @ ds3,
          \<lparr>dg_answer = value_or_default (c KAnswer) UnitAnswerType,
           dg_name = rtti_name (c KMessageName) ident,
           dg_krate = krate\<rparr>))"

section \<open>The configuration as a map\<close>

text \<open>The keys with their values, in the order they are written.\<close>

fun meta_entry :: "'k meta \<Rightarrow> ('k \<times> string) option" where
  "meta_entry (Meta k (Some v)) = Some (k, v)"
| "meta_entry _ = None"

definition entries :: "'k meta list list \<Rightarrow> ('k \<times> string) list" where
  "entries attrs = List.map_filter meta_entry (concat attrs)"

definition metas_ok :: "'k meta list list \<Rightarrow> bool" where
  "metas_ok attrs \<longleftrightarrow> list_all (\<lambda>m. meta_entry m \<noteq> None) (concat attrs) \<and> distinct (map fst (entries attrs))"

lemma parse_metas_ok:
  "snd (parse_metas ms c) = [] \<longleftrightarrow> list_all (\<lambda>m. meta_entry m \<noteq> None) ms \<and>
    distinct (map fst (List.map_filter meta_entry ms)) \<and>
    list_all (\<lambda>(k, _). c k = None) (List.map_filter meta_entry ms)"
proof (induction ms arbitrary: c)
  case (Cons m ms)
  show ?case
  proof (cases m)
    case (Meta k v)
    show ?thesis
    proof (cases v)
      case (Some x)
      have "list_all (\<lambda>(k', _). (c(k \<mapsto> x)) k' = None) es \<longleftrightarrow>
          list_all (\<lambda>(k', _). c k' = None) es \<and> k \<notin> fst ` set es" for es :: "('a \<times> string) list"
        by (induction es) (auto split: if_splits)
      note fresh = this [of "List.map_filter meta_entry ms"]
      show ?thesis
      proof (cases "c k")
        case None
        then have "snd (parse_metas (m # ms) c) = [] \<longleftrightarrow> snd (parse_metas ms (c(k \<mapsto> x))) = []"
          by (simp add: Meta Some set_value_def case_prod_unfold Let_def)
        also have "\<dots> \<longleftrightarrow> list_all (\<lambda>m. meta_entry m \<noteq> None) ms \<and>
          distinct (map fst (List.map_filter meta_entry ms)) \<and>
          list_all (\<lambda>(k', _). c k' = None) (List.map_filter meta_entry ms) \<and>
          k \<notin> fst ` set (List.map_filter meta_entry ms)"
          by (simp only: Cons fresh)
        finally show ?thesis using None by (auto simp: Meta Some map_filter_simps)
      qed (simp add: Meta Some set_value_def case_prod_unfold Let_def map_filter_simps)
    qed (simp add: Meta set_value_def)
  qed simp
qed (simp add: map_filter_def)

lemma parse_metas_result:
  "snd (parse_metas ms c) = [] \<Longrightarrow> fst (parse_metas ms c) = c ++ map_of (List.map_filter meta_entry ms)"
proof (induction ms arbitrary: c)
  case (Cons m ms)
  let ?es = "List.map_filter meta_entry ms"
  note ok = Cons.prems [unfolded parse_metas_ok]
  from ok obtain k v where m: "m = Meta k (Some v)" by (auto elim: meta_entry.elims)
  with ok have none: "c k = None" and new: "k \<notin> fst ` set ?es"
    by (simp_all add: map_filter_simps)
  have step: "meta_step m c = Inr (c(k \<mapsto> v), [])" using m none by (simp add: set_value_def)
  with Cons.prems have "snd (parse_metas ms (c(k \<mapsto> v))) = []" by (simp add: case_prod_unfold Let_def)
  then have "fst (parse_metas ms (c(k \<mapsto> v))) = c(k \<mapsto> v) ++ map_of ?es"
    by (rule Cons.IH)
  moreover have "map_of ?es k = None" using new by (simp add: map_of_eq_None_iff)
  then have "c(k \<mapsto> v) ++ map_of ?es = c ++ map_of ((k, v) # ?es)"
    by (auto simp: fun_eq_iff map_add_def split: option.split)
  ultimately show ?case
    using step m by (simp add: case_prod_unfold Let_def map_filter_simps) (simp add: fun_eq_iff map_add_def)
qed (simp add: map_filter_def)

lemma parse_attributes_concat:
  "snd (parse_attributes attrs c) = [] \<longleftrightarrow> snd (parse_metas (concat attrs) c) = []"
  "snd (parse_attributes attrs c) = [] \<Longrightarrow> fst (parse_attributes attrs c) = fst (parse_metas (concat attrs) c)"
proof -
  have append: "(snd (parse_metas (ms @ ms') c) = [] \<longleftrightarrow>
        snd (parse_metas ms c) = [] \<and> snd (parse_metas ms' (fst (parse_metas ms c))) = []) \<and>
      (snd (parse_metas ms c) = [] \<longrightarrow> fst (parse_metas (ms @ ms') c) = fst (parse_metas ms' (fst (parse_metas ms c))))"
    for ms ms' :: "'a meta list" and c
  proof (induction ms arbitrary: c)
    case (Cons m ms)
    show ?case
    proof (cases "meta_step m c")
      case (Inl f)
      then show ?thesis by (cases m; cases f) (auto simp: outcome_simps set_value_def split: option.splits)
    next
      case (Inr r)
      with Cons [of "fst r"] show ?thesis by (cases r) (auto simp: case_prod_unfold Let_def)
    qed
  qed simp
  have "(snd (parse_attributes attrs c) = [] \<longleftrightarrow> snd (parse_metas (concat attrs) c) = []) \<and>
    (snd (parse_attributes attrs c) = [] \<longrightarrow> fst (parse_attributes attrs c) = fst (parse_metas (concat attrs) c))"
  proof (induction attrs arbitrary: c)
    case (Cons a as)
    with append [of a "concat as" c] Cons [of "fst (parse_metas a c)"] show ?case
      by (auto simp: case_prod_unfold Let_def)
  qed simp
  then show "snd (parse_attributes attrs c) = [] \<longleftrightarrow> snd (parse_metas (concat attrs) c) = []"
    "snd (parse_attributes attrs c) = [] \<Longrightarrow> fst (parse_attributes attrs c) = fst (parse_metas (concat attrs) c)"
    by simp_all
qed

lemma parse_attributes_ok: "snd (parse_attributes attrs (\<lambda>_. None)) = [] \<longleftrightarrow> metas_ok attrs"
  by (simp add: parse_attributes_concat(1) parse_metas_ok metas_ok_def entries_def list_all_iff)

lemma parse_attributes_result:
  "metas_ok attrs \<Longrightarrow> fst (parse_attributes attrs (\<lambda>_. None)) = map_of (entries attrs)"
  using parse_attributes_ok [of attrs]
  by (simp add: parse_attributes_concat parse_metas_result entries_def map_add_def fun_eq_iff split: option.split)

section \<open>What a derive accepts\<close>

text \<open>
  An associated type: its own key, the template's member if the actor has a template and the template has
  that member, the default.
\<close>

definition actor_member :: "(actor_key \<times> string) list \<Rightarrow> actor_key \<Rightarrow> actor_default value_source" where
  "actor_member es k =
     (case (map_of es k, map_of es KTemplate) of
        (Some v, _) \<Rightarrow> FromKey v
      | (None, Some template) \<Rightarrow> FromDefault (TemplateMember template k)
      | (None, None) \<Rightarrow> FromDefault (RuntimeDefault k))"

definition crate_ok :: "(string \<Rightarrow> string option) \<Rightarrow> string option \<Rightarrow> bool" where
  "crate_ok parse_path explicit \<longleftrightarrow> (case explicit of None \<Rightarrow> True | Some lit \<Rightarrow> parse_path lit \<noteq> None)"

lemma krate_path_ok: "snd (krate_path parse_path explicit) = [] \<longleftrightarrow> crate_ok parse_path explicit"
  by (simp add: krate_path_def crate_ok_def split: option.split)

text \<open>The derive of an actor accepts a type exactly if it is not generic, every key is known and has a value that
  parses, no key is given twice, not even in two attributes, and the crate root is a path; and then every
  associated type comes from its own key, or else from the template, or else from the defaults, the shared
  data and the event driver never from the template.\<close>

theorem derive_actor_accepts:
  "derive_actor parse_path ident generic attrs = ([], da) \<longleftrightarrow>
    \<not> generic \<and> metas_ok attrs \<and> crate_ok parse_path (map_of (entries attrs) KCrate) \<and>
    da = (let es = entries attrs; explicit = map_of es in
      \<lparr>da_handle = ident @ ''Handle'',
       da_name = (case explicit KName of Some name \<Rightarrow> name | None \<Rightarrow> ident),
       da_krate = fst (krate_path parse_path (explicit KCrate)),
       da_channel = actor_member es KChannel, da_error = actor_member es KError,
       da_binder = actor_member es KBinder, da_lock = actor_member es KLock,
       da_run_loop = actor_member es KRunLoop,
       da_shared = value_or_default (explicit KShared) UnitType,
       da_event_driver = value_or_default (explicit KEventDriver) (GeneratedLoop (ident @ ''EventLoop''))\<rparr>)"
proof (cases "metas_ok attrs")
  case False
  then show ?thesis
    by (auto simp: derive_actor_def Let_def case_prod_unfold parse_attributes_ok)
next
  case True
  have member: "value_or_default (map_of es k) (member_default (map_of es) k) = actor_member es k" for es k
    by (simp add: value_or_default_def member_default_def actor_member_def split: option.split)
  have generic: "reject_generics generic = [] \<longleftrightarrow> \<not> generic"
    by (simp add: reject_generics_def emit_if_def)
  from True show ?thesis
    by (auto simp: derive_actor_def Let_def case_prod_unfold parse_attributes_ok parse_attributes_result member
        generic krate_path_ok rtti_name_def)
qed

lemma derive_message_accepts:
  "derive_message parse_path ident generic attrs = ([], dm) \<longleftrightarrow>
    \<not> generic \<and> metas_ok attrs \<and> crate_ok parse_path (map_of (entries attrs) KMessageCrate) \<and>
    dm = (let explicit = map_of (entries attrs) in
      \<lparr>dg_answer = value_or_default (explicit KAnswer) UnitAnswerType,
       dg_name = (case explicit KMessageName of Some name \<Rightarrow> name | None \<Rightarrow> ident),
       dg_krate = fst (krate_path parse_path (explicit KMessageCrate))\<rparr>)"
proof (cases "metas_ok attrs")
  case False
  then show ?thesis
    by (auto simp: derive_message_def Let_def case_prod_unfold parse_attributes_ok)
next
  case True
  have generic: "reject_generics generic = [] \<longleftrightarrow> \<not> generic"
    by (simp add: reject_generics_def emit_if_def)
  from True show ?thesis
    by (auto simp: derive_message_def Let_def case_prod_unfold parse_attributes_ok parse_attributes_result
        generic krate_path_ok rtti_name_def)
qed

end
