(* ===== verification/Protocol_Macro.thy ===== *)
theory Protocol_Macro
  imports Messages_Macro
begin

text \<open>
  The \<open>protocol\<close> attribute, \<open>crates/factories_actor_macro/src/protocol.rs\<close>: which traits it accepts, and what
  it makes of messages that a \<open>#[cfg]\<close> compiles in or out. How a protocol's handle is bound and used is part
  of \<open>Calls\<close>.
\<close>

section \<open>The trait\<close>

datatype Locality = Shared | Local

datatype protocol_meta = LocalMeta | ProtocolCrate "string option" | OtherProtocolMeta

text \<open>An attribute is a \<open>#[cfg]\<close> with its predicate, or another one.\<close>

datatype item_attr = CfgAttr string | PlainAttr string

record trait_method =
  tm_attrs :: "item_attr list"
  tm_ident :: string
  tm_generic :: bool
  tm_output :: bool
  tm_body :: bool
  tm_receiver :: "receiver option"
  tm_params :: "fn_param list"

datatype trait_item = TraitFn trait_method | TraitOther string

record protocol_trait =
  pt_ident :: string
  pt_generic :: bool
  pt_attrs :: "item_attr list"
  pt_items :: "trait_item list"

record ProtocolMessage =
  pm_attrs :: "item_attr list"
  pm_cfgs :: "string list"
  pm_method :: string
  pm_binding :: string
  pm_message :: rust_type

text \<open>\<open>parse_attrs\<close>: an error ends the list, what was read before it counts.\<close>

fun parse_protocol_metas :: "protocol_meta list \<Rightarrow> Locality \<times> string option \<Rightarrow>
    (Locality \<times> string option) \<times> diagnostic list" where
  "parse_protocol_metas [] r = (r, [])"
| "parse_protocol_metas (LocalMeta # ms) r = parse_protocol_metas ms (Local, snd r)"
| "parse_protocol_metas (ProtocolCrate (Some lit) # ms) r = parse_protocol_metas ms (fst r, Some lit)"
| "parse_protocol_metas (ProtocolCrate None # ms) r = (r, [InvalidValue])"
| "parse_protocol_metas (OtherProtocolMeta # ms) r = (r, [UnknownKey])"

definition parse_attrs :: "(string \<Rightarrow> string option) \<Rightarrow> protocol_meta list \<Rightarrow> (Locality \<times> string) \<times> diagnostic list" where
  "parse_attrs parse_path ms =
     (let ((locality, crate), ds) = parse_protocol_metas ms (Shared, None);
          (krate, ds') = krate_path parse_path crate
      in ((locality, krate), ds @ ds'))"

fun cfg_predicate :: "item_attr \<Rightarrow> string option" where
  "cfg_predicate (CfgAttr p) = Some p"
| "cfg_predicate (PlainAttr _) = None"

definition cfgs_of :: "item_attr list \<Rightarrow> string list" where
  "cfgs_of as = List.map_filter cfg_predicate as"

text \<open>
  \<open>collect_messages\<close>: the diagnostics of a method do not end it, but for a missing receiver and a number of
  parameters other than one.
\<close>

definition collect_message :: "trait_item \<Rightarrow> ProtocolMessage option \<times> diagnostic list" where
  "collect_message item =
     (case item of
        TraitOther _ \<Rightarrow> (None, [NotAMethod])
      | TraitFn f \<Rightarrow>
          (let ds = emit_if (tm_body f) MethodBody @ emit_if (tm_generic f) GenericMethod
                 @ emit_if (tm_output f) MethodOutput
           in case tm_receiver f of
                None \<Rightarrow> (None, ds @ [MethodReceiver])
              | Some r \<Rightarrow>
                  (let ds = ds @ emit_if (\<not> rc_reference r \<or> rc_mutable r) MethodReceiver
                   in case tm_params f of
                        [param] \<Rightarrow>
                          (let (binding, ds') = (case fp_ident param of
                                Some ident \<Rightarrow> (ident, [])
                              | None \<Rightarrow> (''__msg'', [MethodPattern]))
                           in (Some \<lparr>pm_attrs = filter (\<lambda>a. cfg_predicate a = None) (tm_attrs f),
                                     pm_cfgs = cfgs_of (tm_attrs f), pm_method = tm_ident f,
                                     pm_binding = binding, pm_message = fp_type param\<rparr>, ds @ ds'))
                      | _ \<Rightarrow> (None, ds @ [MethodParams]))))"

fun collect_messages :: "trait_item list \<Rightarrow> ProtocolMessage list \<times> diagnostic list" where
  "collect_messages [] = ([], [])"
| "collect_messages (i # is) =
     (let (m, ds) = collect_message i; (ms, ds') = collect_messages is
      in ((case m of Some x \<Rightarrow> x # ms | None \<Rightarrow> ms), ds @ ds'))"

section \<open>The expansion\<close>

text \<open>The gate of an emitted item: all of its predicates, or the complement of them.\<close>

datatype gate = AllOf "string list" | NotAllOf "string list"

fun gate_open :: "(string \<Rightarrow> bool) \<Rightarrow> gate \<Rightarrow> bool" where
  "gate_open active (AllOf ps) \<longleftrightarrow> list_all active ps"
| "gate_open active (NotAllOf ps) \<longleftrightarrow> \<not> list_all active ps"

definition not_cfg :: "ProtocolMessage \<Rightarrow> gate" where
  "not_cfg m = NotAllOf (pm_cfgs m)"

definition speaks_ident :: "string \<Rightarrow> ProtocolMessage \<Rightarrow> string" where
  "speaks_ident trait_ident m = ''__'' @ trait_ident @ ''Speaks_'' @ pm_method m"

text \<open>
  A bound on the actor of a handle: that it handles a message, or a helper trait. A helper trait is declared
  under a gate, with the message its implementors must handle if it has one.
\<close>

datatype bound = HandlesBound rust_type | SpeaksBound string

type_synonym speaks_decl = "gate list \<times> string \<times> rust_type option"

definition handler_bound :: "string \<Rightarrow> ProtocolMessage \<Rightarrow> bound" where
  "handler_bound trait_ident m =
     (if pm_cfgs m = [] then HandlesBound (pm_message m) else SpeaksBound (speaks_ident trait_ident m))"

definition speaks_traits :: "string \<Rightarrow> string list \<Rightarrow> ProtocolMessage \<Rightarrow> speaks_decl list" where
  "speaks_traits trait_ident trait_cfgs m =
     (if pm_cfgs m = [] then []
      else [([AllOf trait_cfgs, AllOf (pm_cfgs m)], speaks_ident trait_ident m, Some (pm_message m)),
            ([AllOf trait_cfgs, not_cfg m], speaks_ident trait_ident m, None)])"

text \<open>A gated item of the expansion: a slot of the dispatcher table, a method, or a lookup of a bind.\<close>

record protocol_expansion =
  px_locality :: Locality
  px_krate :: string
  px_handle :: string
  px_dispatchers :: string
  px_bounds :: "bound list"
  px_speaks :: "speaks_decl list"
  px_slots :: "(gate \<times> string) list"
  px_methods :: "(gate \<times> string \<times> string \<times> rust_type) list"
  px_from :: "(gate \<times> string \<times> rust_type) list"
  px_binds :: "(gate \<times> string \<times> rust_type) list"

definition protocol :: "(string \<Rightarrow> string option) \<Rightarrow> protocol_meta list \<Rightarrow> protocol_trait \<Rightarrow>
    diagnostic list \<times> protocol_expansion" where
  "protocol parse_path metas input =
     (let ((locality, krate), ds1) = parse_attrs parse_path metas;
          ds2 = emit_if (pt_generic input) GenericTrait;
          (ms, ds3) = collect_messages (pt_items input);
          trait_ident = pt_ident input;
          gate = (\<lambda>m. AllOf (pm_cfgs m))
      in (ds1 @ ds2 @ ds3,
          \<lparr>px_locality = locality, px_krate = krate,
           px_handle = trait_ident @ ''Handle'',
           px_dispatchers = ''__'' @ trait_ident @ ''Dispatchers'',
           px_bounds = map (handler_bound trait_ident) ms,
           px_speaks = concat (map (speaks_traits trait_ident (cfgs_of (pt_attrs input))) ms),
           px_slots = map (\<lambda>m. (gate m, pm_method m)) ms,
           px_methods = map (\<lambda>m. (gate m, pm_method m, pm_binding m, pm_message m)) ms,
           px_from = map (\<lambda>m. (gate m, pm_method m, pm_message m)) ms,
           px_binds = map (\<lambda>m. (gate m, pm_method m, pm_message m)) ms\<rparr>))"

section \<open>What is left after the gates\<close>

definition opened :: "(string \<Rightarrow> bool) \<Rightarrow> (gate \<times> 'a) list \<Rightarrow> 'a list" where
  "opened active items = map snd (filter (\<lambda>(g, _). gate_open active g) items)"

text \<open>
  A bound holds of an actor: the helper traits are those whose gates are open, and a bound on a trait that
  is not declared, or declared twice, is an error of the compiler.
\<close>

definition declared_speaks :: "(string \<Rightarrow> bool) \<Rightarrow> speaks_decl list \<Rightarrow> (string \<times> rust_type option) list" where
  "declared_speaks active decls = map snd (filter (\<lambda>(gs, _). list_all (gate_open active) gs) decls)"

datatype bound_error = NoSuchTrait string | TraitTwice string

definition bound_holds :: "(string \<times> rust_type option) list \<Rightarrow> (rust_type \<Rightarrow> bool) \<Rightarrow> bound \<Rightarrow>
    (bound_error, bool) outcome" where
  "bound_holds decls handles b =
     (case b of
        HandlesBound msg \<Rightarrow> Inr (handles msg)
      | SpeaksBound name \<Rightarrow>
          (case filter (\<lambda>d. fst d = name) decls of
             [] \<Rightarrow> Inl (Error (NoSuchTrait name))
           | [(_, demanded)] \<Rightarrow> Inr (case demanded of Some msg \<Rightarrow> handles msg | None \<Rightarrow> True)
           | _ \<Rightarrow> Inl (Error (TraitTwice name))))"

fun bounds_hold :: "(string \<times> rust_type option) list \<Rightarrow> (rust_type \<Rightarrow> bool) \<Rightarrow> bound list \<Rightarrow>
    (bound_error, bool) outcome" where
  "bounds_hold decls handles [] = Inr True"
| "bounds_hold decls handles (b # bs) =
     and_then (bound_holds decls handles b) (\<lambda>x.
     and_then (bounds_hold decls handles bs) (\<lambda>y. Inr (x \<and> y)))"

text \<open>\<open>try_bind\<close>: the lookups in order, the first that fails gives the handle back.\<close>

fun bind_lookups :: "(rust_type \<Rightarrow> 'd option) \<Rightarrow> (string \<times> rust_type) list \<Rightarrow> (string \<times> 'd) list option" where
  "bind_lookups bind [] = Some []"
| "bind_lookups bind ((slot, msg) # ms) =
     (case bind msg of
        None \<Rightarrow> None
      | Some d \<Rightarrow> map_option ((#) (slot, d)) (bind_lookups bind ms))"

section \<open>Which traits are accepted\<close>

text \<open>A method of a protocol: \<open>fn name(&self, message: M);\<close>.\<close>

fun method_ok :: "trait_item \<Rightarrow> bool" where
  "method_ok (TraitOther _) \<longleftrightarrow> False"
| "method_ok (TraitFn f) \<longleftrightarrow> \<not> tm_body f \<and> \<not> tm_generic f \<and> \<not> tm_output f \<and>
     (case tm_receiver f of None \<Rightarrow> False | Some r \<Rightarrow> rc_reference r \<and> \<not> rc_mutable r) \<and>
     (case tm_params f of [p] \<Rightarrow> fp_ident p \<noteq> None | _ \<Rightarrow> False)"

text \<open>The message of such a method.\<close>

definition message_of_method :: "trait_item \<Rightarrow> ProtocolMessage" where
  "message_of_method i =
     (case i of TraitFn f \<Rightarrow>
        \<lparr>pm_attrs = filter (\<lambda>a. cfg_predicate a = None) (tm_attrs f), pm_cfgs = cfgs_of (tm_attrs f),
         pm_method = tm_ident f, pm_binding = the (fp_ident (hd (tm_params f))),
         pm_message = fp_type (hd (tm_params f))\<rparr>)"

fun protocol_meta_ok :: "protocol_meta \<Rightarrow> bool" where
  "protocol_meta_ok LocalMeta \<longleftrightarrow> True"
| "protocol_meta_ok (ProtocolCrate v) \<longleftrightarrow> v \<noteq> None"
| "protocol_meta_ok OtherProtocolMeta \<longleftrightarrow> False"

fun crate_meta :: "protocol_meta \<Rightarrow> string option" where
  "crate_meta (ProtocolCrate v) = v"
| "crate_meta _ = None"

definition protocol_ok :: "(string \<Rightarrow> string option) \<Rightarrow> protocol_meta list \<Rightarrow> protocol_trait \<Rightarrow> bool" where
  "protocol_ok parse_path metas input \<longleftrightarrow>
     list_all protocol_meta_ok metas \<and>
     (case rev (List.map_filter crate_meta metas) of [] \<Rightarrow> True | lit # _ \<Rightarrow> parse_path lit \<noteq> None) \<and>
     \<not> pt_generic input \<and> list_all method_ok (pt_items input)"

lemma emit_if_nil [simp]: "emit_if wrong d = [] \<longleftrightarrow> \<not> wrong"
  by (simp add: emit_if_def)

lemma collect_message_ok:
  "snd (collect_message i) = [] \<longleftrightarrow> method_ok i"
  "method_ok i \<Longrightarrow> collect_message i = (Some (message_of_method i), [])"
  by (auto simp: collect_message_def message_of_method_def emit_if_def Let_def
      split: trait_item.splits option.splits list.splits prod.splits)

lemma collect_messages_ok: "snd (collect_messages is) = [] \<longleftrightarrow> list_all method_ok is"
  by (induction "is") (simp_all add: case_prod_unfold Let_def collect_message_ok(1))

lemma collect_messages_result:
  "list_all method_ok is \<Longrightarrow> fst (collect_messages is) = map message_of_method is"
  by (induction "is") (simp_all add: case_prod_unfold Let_def collect_message_ok(2))

lemma parse_protocol_metas_ok:
  "snd (parse_protocol_metas ms r) = [] \<longleftrightarrow> list_all protocol_meta_ok ms"
  by (induction ms r rule: parse_protocol_metas.induct) simp_all

lemma parse_protocol_metas_result:
  "list_all protocol_meta_ok ms \<Longrightarrow> fst (parse_protocol_metas ms r) =
    (if LocalMeta \<in> set ms then Local else fst r,
     case rev (List.map_filter crate_meta ms) of [] \<Rightarrow> snd r | lit # _ \<Rightarrow> Some lit)"
proof (induction ms r rule: parse_protocol_metas.induct)
  case (3 lit ms r)
  then show ?case
    by (cases "rev (List.map_filter crate_meta ms)") (simp_all add: map_filter_simps)
qed (simp_all add: map_filter_simps cong: list.case_cong)

lemma protocol_diagnostics:
  "fst (protocol parse_path metas input) = [] \<longleftrightarrow> protocol_ok parse_path metas input"
proof (cases "list_all protocol_meta_ok metas")
  case False
  then show ?thesis
    by (simp add: protocol_def parse_attrs_def case_prod_unfold Let_def parse_protocol_metas_ok protocol_ok_def)
next
  case True
  then have "snd (fst (parse_protocol_metas metas (Shared, None))) =
      (case rev (List.map_filter crate_meta metas) of [] \<Rightarrow> None | lit # _ \<Rightarrow> Some lit)"
    by (simp add: parse_protocol_metas_result cong: list.case_cong)
  with True show ?thesis
    by (auto simp: protocol_def parse_attrs_def case_prod_unfold Let_def parse_protocol_metas_ok protocol_ok_def
        collect_messages_ok krate_path_def split: option.splits list.splits)
qed

section \<open>Messages that are compiled out\<close>

text \<open>The messages that the active predicates leave.\<close>

definition spoken :: "(string \<Rightarrow> bool) \<Rightarrow> protocol_trait \<Rightarrow> ProtocolMessage list" where
  "spoken active input = filter (\<lambda>m. list_all active (pm_cfgs m)) (map message_of_method (pt_items input))"

lemma opened_map:
  "opened active (map (\<lambda>m. (AllOf (pm_cfgs m), f m)) ms) = map f (filter (\<lambda>m. list_all active (pm_cfgs m)) ms)"
  by (induction ms) (simp_all add: opened_def)

lemma speaks_ident_eq: "speaks_ident t m = speaks_ident t m' \<longleftrightarrow> pm_method m = pm_method m'"
  by (simp add: speaks_ident_def)

text \<open>Of a gated message exactly one helper trait is declared.\<close>

definition speaks_of :: "(string \<Rightarrow> bool) \<Rightarrow> string \<Rightarrow> ProtocolMessage \<Rightarrow> (string \<times> rust_type option) list" where
  "speaks_of active t m =
     (if pm_cfgs m = [] then []
      else [(speaks_ident t m, if list_all active (pm_cfgs m) then Some (pm_message m) else None)])"

lemma declared_speaks_of:
  "list_all active trait_cfgs \<Longrightarrow>
    declared_speaks active (concat (map (speaks_traits t trait_cfgs) ms)) = concat (map (speaks_of active t) ms)"
  by (induction ms) (simp_all add: declared_speaks_def speaks_traits_def speaks_of_def not_cfg_def)

text \<open>The messages under a \<open>#[cfg]\<close>, compiled in or not; each has a helper trait named after its method.\<close>

definition gated :: "ProtocolMessage list \<Rightarrow> ProtocolMessage list" where
  "gated ms = filter (\<lambda>m. pm_cfgs m \<noteq> []) ms"

lemma speaks_of_gated:
  "concat (map (speaks_of active t) ms) = map (\<lambda>m. (speaks_ident t m,
      if list_all active (pm_cfgs m) then Some (pm_message m) else None)) (gated ms)"
  by (induction ms) (simp_all add: speaks_of_def gated_def)

lemma filter_key: "filter (\<lambda>d. fst d = k) (map (\<lambda>m. (f m, g m)) xs) = map (\<lambda>m. (f m, g m)) (filter (\<lambda>m. f m = k) xs)"
  by (induction xs) simp_all

lemma filter_distinct_key: "distinct (map f xs) \<Longrightarrow> x \<in> set xs \<Longrightarrow> filter (\<lambda>y. f y = f x) xs = [x]"
  by (induction xs) (auto simp: filter_empty_conv rev_image_eqI)

lemma filter_repeated_key:
  assumes "\<not> distinct (map f xs)"
  shows "\<exists>x \<in> set xs. Suc 0 < length (filter (\<lambda>y. f y = f x) xs)"
  using assms
proof (induction xs)
  case (Cons x xs)
  show ?case
  proof (cases "f x \<in> f ` set xs")
    case True
    then obtain y where "y \<in> set xs" "f y = f x" by auto
    then have "filter (\<lambda>y. f y = f x) xs \<noteq> []" by (auto simp: filter_empty_conv)
    then show ?thesis by (intro bexI [of _ x]) simp_all
  next
    case False
    with Cons obtain y where "y \<in> set xs" "Suc 0 < length (filter (\<lambda>z. f z = f y) xs)" by auto
    then show ?thesis by (intro bexI [of _ y]) auto
  qed
qed simp

lemma bound_holds_gated:
  assumes "m \<in> set ms"
  shows "bound_holds (concat (map (speaks_of active t) ms)) handles (handler_bound t m) =
    (if pm_cfgs m = [] then Inr (handles (pm_message m))
     else if length (filter (\<lambda>m'. pm_method m' = pm_method m) (gated ms)) = Suc 0
     then Inr (list_all active (pm_cfgs m) \<longrightarrow> handles (pm_message m))
     else Inl (Error (TraitTwice (speaks_ident t m))))"
proof (cases "pm_cfgs m = []")
  case True
  then show ?thesis by (simp add: bound_holds_def handler_bound_def)
next
  case False
  with assms have m: "m \<in> set (filter (\<lambda>m'. pm_method m' = pm_method m) (gated ms))" by (simp add: gated_def)
  show ?thesis
  proof (cases "length (filter (\<lambda>m'. pm_method m' = pm_method m) (gated ms)) = Suc 0")
    case True
    then obtain x where "filter (\<lambda>m'. pm_method m' = pm_method m) (gated ms) = [x]"
      by (auto simp: length_Suc_conv)
    with m have "filter (\<lambda>m'. pm_method m' = pm_method m) (gated ms) = [m]" by auto
    with False show ?thesis
      by (simp add: bound_holds_def handler_bound_def speaks_of_gated filter_key speaks_ident_eq)
  next
    case other: False
    with m obtain x y zs where "filter (\<lambda>m'. pm_method m' = pm_method m) (gated ms) = x # y # zs"
      by (cases "filter (\<lambda>m'. pm_method m' = pm_method m) (gated ms)" rule: remdups_adj.cases) auto
    with False show ?thesis
      by (simp add: bound_holds_def handler_bound_def speaks_of_gated filter_key speaks_ident_eq)
  qed
qed

lemma bounds_hold_spoken:
  assumes "distinct (map pm_method (gated ms))" "set ms' \<subseteq> set ms"
  shows "bounds_hold (concat (map (speaks_of active t) ms)) handles (map (handler_bound t) ms') =
    Inr (list_all (\<lambda>m. handles (pm_message m)) (filter (\<lambda>m. list_all active (pm_cfgs m)) ms'))"
  using assms(2)
proof (induction ms')
  case (Cons m ms')
  have "length (filter (\<lambda>m'. pm_method m' = pm_method m) (gated ms)) = Suc 0" if "pm_cfgs m \<noteq> []"
    using filter_distinct_key [OF assms(1), of m] that Cons.prems by (simp add: gated_def)
  with Cons bound_holds_gated [of m ms active t handles] show ?case by auto
qed simp

lemma bounds_hold_twice:
  assumes "\<exists>m \<in> set ms'. pm_cfgs m \<noteq> [] \<and> Suc 0 < length (filter (\<lambda>m'. pm_method m' = pm_method m) (gated ms))"
    and "set ms' \<subseteq> set ms"
  shows "\<exists>name. bounds_hold (concat (map (speaks_of active t) ms)) handles (map (handler_bound t) ms') =
    Inl (Error (TraitTwice name))"
  using assms
proof (induction ms')
  case (Cons m ms')
  note here = bound_holds_gated [of m ms active t handles]
  show ?case
  proof (cases "pm_cfgs m \<noteq> [] \<and> length (filter (\<lambda>m'. pm_method m' = pm_method m) (gated ms)) \<noteq> Suc 0")
    case True
    with Cons.prems(2) here show ?thesis by simp
  next
    case False
    with Cons.prems have "\<exists>m' \<in> set ms'. pm_cfgs m' \<noteq> [] \<and>
        Suc 0 < length (filter (\<lambda>m''. pm_method m'' = pm_method m') (gated ms))"
      by auto
    with Cons obtain name where rest: "bounds_hold (concat (map (speaks_of active t) ms)) handles
        (map (handler_bound t) ms') = Inl (Error (TraitTwice name))"
      by auto
    from False Cons.prems(2) here obtain x where
      "bound_holds (concat (map (speaks_of active t) ms)) handles (handler_bound t m) = Inr x"
      by (cases "pm_cfgs m = []") auto
    with rest show ?thesis by simp
  qed
qed simp

lemma bind_lookups_map:
  "bind_lookups bind (map (\<lambda>m. (pm_method m, pm_message m)) ms) =
    (if list_all (\<lambda>m. bind (pm_message m) \<noteq> None) ms
     then Some (map (\<lambda>m. (pm_method m, the (bind (pm_message m)))) ms) else None)"
  by (induction ms) (auto split: option.split)

text \<open>C35: An accepted protocol is one of the messages that are compiled in, for a trait that is compiled in itself:
  the dispatcher table has a slot for each of them, in order, each of the two constructors fills every slot,
  every method of the handle finds its slot, and a bind succeeds if and only if each of them is found. If no
  two methods under a \<open>#[cfg]\<close>, compiled in or not, have one name, then an actor meets the bounds of the
  expansion, which hold of exactly one declaration of every helper trait, if and only if it handles those
  messages. If two have, as two of which a configuration selects one, the macro accepts them too, and its
  expansion declares a helper trait twice and does not compile.\<close>

theorem protocol_gates:
  assumes accepted: "protocol parse_path metas input = ([], px)"
    and trait_on: "list_all active (cfgs_of (pt_attrs input))"
  shows "protocol_ok parse_path metas input \<and>
    (let ms = spoken active input; slots = map pm_method ms;
         checked = bounds_hold (declared_speaks active (px_speaks px)) handles (px_bounds px)
     in (if distinct (map pm_method (gated (map message_of_method (pt_items input))))
         then checked = Inr (list_all (\<lambda>m. handles (pm_message m)) ms)
         else \<exists>name. checked = Inl (Error (TraitTwice name))) \<and>
     opened active (px_slots px) = slots \<and>
     map fst (opened active (px_methods px)) = slots \<and>
     map fst (opened active (px_from px)) = slots \<and>
     bind_lookups bind (opened active (px_binds px)) =
       (if list_all (\<lambda>m. bind (pm_message m) \<noteq> None) ms
        then Some (map (\<lambda>m. (pm_method m, the (bind (pm_message m)))) ms) else None))"
proof -
  have ok: "protocol_ok parse_path metas input"
    using protocol_diagnostics [of parse_path metas input] accepted by simp
  define ms where "ms = map message_of_method (pt_items input)"
  have spoken: "spoken active input = filter (\<lambda>m. list_all active (pm_cfgs m)) ms"
    by (simp add: spoken_def ms_def)
  have collected: "fst (collect_messages (pt_items input)) = ms"
    using ok by (simp add: protocol_ok_def collect_messages_result ms_def)
  have px: "px_bounds px = map (handler_bound (pt_ident input)) ms"
    "px_speaks px = concat (map (speaks_traits (pt_ident input) (cfgs_of (pt_attrs input))) ms)"
    "px_slots px = map (\<lambda>m. (AllOf (pm_cfgs m), pm_method m)) ms"
    "px_methods px = map (\<lambda>m. (AllOf (pm_cfgs m), pm_method m, pm_binding m, pm_message m)) ms"
    "px_from px = map (\<lambda>m. (AllOf (pm_cfgs m), pm_method m, pm_message m)) ms"
    "px_binds px = map (\<lambda>m. (AllOf (pm_cfgs m), pm_method m, pm_message m)) ms"
    using accepted unfolding protocol_def Let_def case_prod_unfold collected by auto
  let ?checked = "bounds_hold (declared_speaks active (px_speaks px)) handles (px_bounds px)"
  have checked: "?checked = bounds_hold (concat (map (speaks_of active (pt_ident input)) ms)) handles
      (map (handler_bound (pt_ident input)) ms)"
    unfolding px(1,2) declared_speaks_of [OF trait_on] ..
  have bounds: "if distinct (map pm_method (gated ms))
      then ?checked = Inr (list_all (\<lambda>m. handles (pm_message m)) (spoken active input))
      else \<exists>name. ?checked = Inl (Error (TraitTwice name))"
  proof (cases "distinct (map pm_method (gated ms))")
    case True
    with bounds_hold_spoken [OF True order_refl] show ?thesis by (simp add: checked spoken)
  next
    case False
    from filter_repeated_key [OF this] have "\<exists>m \<in> set ms. pm_cfgs m \<noteq> [] \<and>
        Suc 0 < length (filter (\<lambda>m'. pm_method m' = pm_method m) (gated ms))"
      by (auto simp: gated_def)
    from bounds_hold_twice [OF this order_refl] False show ?thesis by (simp add: checked)
  qed
  show ?thesis
    unfolding Let_def
    by (intro conjI ok bounds [unfolded ms_def]) (simp_all only: px(3-6) opened_map spoken map_map o_def fst_conv
        bind_lookups_map)
qed

text \<open>Two methods of one name, of which the configuration selects one.\<close>

definition either_bye :: protocol_trait where
  "either_bye =
     \<lparr>pt_ident = ''P'', pt_generic = False, pt_attrs = [],
      pt_items = map (\<lambda>(p, ty). TraitFn \<lparr>tm_attrs = [CfgAttr p], tm_ident = ''bye'', tm_generic = False,
           tm_output = False, tm_body = False,
           tm_receiver = Some \<lparr>rc_reference = True, rc_colon = False, rc_mutable = False\<rparr>,
           tm_params = [\<lparr>fp_attrs = [], fp_ident = Some ''m'', fp_type = TypePath ty\<rparr>]\<rparr>)
        [(''std'', ''Bye''), (''not(std)'', ''ByeNoStd'')]\<rparr>"

lemma either_bye_twice:
  "fst (protocol Some [] either_bye) = [] \<and>
   bounds_hold (declared_speaks (\<lambda>p. p = ''std'') (px_speaks (snd (protocol Some [] either_bye)))) (\<lambda>_. True)
     (px_bounds (snd (protocol Some [] either_bye))) = Inl (Error (TraitTwice ''__PSpeaks_bye''))"
proof -
  have "collect_messages (pt_items either_bye) =
    ([\<lparr>pm_attrs = [], pm_cfgs = [''std''], pm_method = ''bye'', pm_binding = ''m'', pm_message = TypePath ''Bye''\<rparr>,
      \<lparr>pm_attrs = [], pm_cfgs = [''not(std)''], pm_method = ''bye'', pm_binding = ''m'',
       pm_message = TypePath ''ByeNoStd''\<rparr>], [])"
    by (simp add: either_bye_def collect_message_def emit_if_def cfgs_of_def map_filter_simps)
  then show ?thesis
    by (simp add: protocol_def parse_attrs_def krate_path_def emit_if_def either_bye_def cfgs_of_def map_filter_simps
        speaks_traits_def declared_speaks_def not_cfg_def speaks_ident_def handler_bound_def bound_holds_def)
qed

text \<open>\<open>trait Greeter { fn hello(&self, m: Hello); #[cfg(feature)] fn bye(&self, m: Bye); }\<close>.\<close>

definition greeter :: protocol_trait where
  "greeter =
     \<lparr>pt_ident = ''Greeter'', pt_generic = False, pt_attrs = [],
      pt_items =
        [TraitFn \<lparr>tm_attrs = [], tm_ident = ''hello'', tm_generic = False, tm_output = False, tm_body = False,
           tm_receiver = Some \<lparr>rc_reference = True, rc_colon = False, rc_mutable = False\<rparr>,
           tm_params = [\<lparr>fp_attrs = [], fp_ident = Some ''m'', fp_type = TypePath ''Hello''\<rparr>]\<rparr>,
         TraitFn \<lparr>tm_attrs = [CfgAttr ''feature''], tm_ident = ''bye'', tm_generic = False, tm_output = False, tm_body = False,
           tm_receiver = Some \<lparr>rc_reference = True, rc_colon = False, rc_mutable = False\<rparr>,
           tm_params = [\<lparr>fp_attrs = [], fp_ident = Some ''m'', fp_type = TypePath ''Bye''\<rparr>]\<rparr>]\<rparr>"

lemma protocol_gates_witness:
  "fst (protocol Some [LocalMeta] greeter) = [] \<and>
   opened (\<lambda>_. False) (px_slots (snd (protocol Some [LocalMeta] greeter))) = [''hello''] \<and>
   bind_lookups (\<lambda>msg. if msg = TypePath ''Hello'' then Some (7 :: nat) else None)
     (opened (\<lambda>_. False) (px_binds (snd (protocol Some [LocalMeta] greeter)))) = Some [(''hello'', 7)]"
proof -
  let ?px = "snd (protocol Some [LocalMeta] greeter)"
  have ok: "fst (protocol Some [LocalMeta] greeter) = []"
    unfolding protocol_diagnostics by (simp add: protocol_ok_def greeter_def map_filter_simps)
  then have accepted: "protocol Some [LocalMeta] greeter = ([], ?px)" by (simp add: prod_eq_iff)
  have "spoken (\<lambda>_. False) greeter =
      [\<lparr>pm_attrs = [], pm_cfgs = [], pm_method = ''hello'', pm_binding = ''m'', pm_message = TypePath ''Hello''\<rparr>]"
    by (simp add: spoken_def greeter_def message_of_method_def cfgs_of_def map_filter_simps)
  moreover have "list_all (\<lambda>_. False) (cfgs_of (pt_attrs greeter))"
    by (simp add: greeter_def cfgs_of_def map_filter_simps)
  ultimately show ?thesis
    using ok protocol_gates [OF accepted, of "\<lambda>_. False" "\<lambda>_. True"
      "\<lambda>msg. if msg = TypePath ''Hello'' then Some (7 :: nat) else None"]
    by (simp add: Let_def)
qed

end
