(* ===== verification/Launcher.thy ===== *)
theory Launcher
  imports Run_Loop_Properties Mailbox Extension
begin

text \<open>
  The launcher, \<open>crates/factories_actor/src/spawn/launcher.rs\<close>: the assembly of an actor from its channel, its
  shared state and its task, and \<open>spawn_ready\<close>, which waits until the actor has left \<open>Starting\<close>. The task
  runs while the launcher does: a step of the composition is one of the task, or one poll of the launcher.
\<close>

section \<open>The assembly\<close>

text \<open>\<open>al_extensions\<close> is the pending set; its heap is the heap of \<open>Extension\<close>.\<close>

record 'v ActorLauncher =
  al_channel_options :: TokioMpscChannelCapacity
  al_extensions :: "'v ExtensionSet"

definition launcher_default :: "'v ActorLauncher" where
  "launcher_default = \<lparr>al_channel_options = default_capacity, al_extensions = []\<rparr>"

text \<open>
  \<open>assemble\<close> up to the spawn: the channel, the shared state with the frame it is spawned from, the task. A
  channel without room is a panic, before an id is taken. The capture sink is an extension.
\<close>

definition assemble :: "('q, 'm) mpsc \<Rightarrow> nat \<Rightarrow> ('m \<Rightarrow> nat) \<Rightarrow> ('v ExtensionSet \<Rightarrow> bool) \<Rightarrow> string \<Rightarrow>
    CaptureFrame option \<Rightarrow> 'w watchers \<Rightarrow> 'v ActorLauncher \<Rightarrow> u64 \<Rightarrow>
    (unit, ('w, ('q, 'm) multilane, 'p, 'e) task) outcome \<times> u64" where
  "assemble ops lanes router has_sink rtti_name frame watchers launcher ids =
     (case create_channel ops (al_channel_options launcher) lanes router of
        Inl f \<Rightarrow> (Inl f, ids)
      | Inr channel \<Rightarrow>
          (case actor_id_new ids of
             (Inl f, ids') \<Rightarrow> (Inl f, ids')
           | (Inr actor, ids') \<Rightarrow>
               (let shared = set_capture_birth frame
                      (shared_new actor rtti_name (has_sink (al_extensions launcher)))
                in (Inr (spawn_task shared channel watchers), ids'))))"

section \<open>Waiting for the start\<close>

text \<open>One poll of \<open>spawn_ready\<close> once the task is spawned: \<open>None\<close> is \<open>Pending\<close>, \<open>Inl e\<close> is \<open>Err(e)\<close>.\<close>

definition spawn_ready_poll :: "waker \<Rightarrow> 'e SharedActorState \<Rightarrow>
    (unit, ('e + unit) option \<times> 'e SharedActorState) outcome" where
  "spawn_ready_poll w s =
     and_then (poll_leave_starting w (ss_lifecycle s)) (\<lambda>(r, cell).
       let s = s\<lparr>ss_lifecycle := cell\<rparr> in
       Inr (case r of
              None \<Rightarrow> None
            | Some Dead \<Rightarrow> Some (case failed_error s of Some e \<Rightarrow> Inl e | None \<Rightarrow> Inr ())
            | Some _ \<Rightarrow> Some (Inr ()), s))"

text \<open>
  The launcher after the spawn: it attaches the task handle, then waits, then has returned. The task may
  run, be aborted and be observed by others at any time.
\<close>

datatype 'e launch_pc = Attaching nat | AwaitsReady | ReadyReturned "'e + unit"

inductive launch_step :: "('mb, 'p, 'e) actor_code \<Rightarrow> ('q, term_message) mpsc \<Rightarrow>
    ('q, 'mb, 'p, 'e) task \<times> 'e launch_pc \<Rightarrow> ('q, 'mb, 'p, 'e) task \<times> 'e launch_pc \<Rightarrow> bool"
  for code :: "('mb, 'p, 'e) actor_code" and ops :: "('q, term_message) mpsc" where
  TaskRuns: "task_step code ops t t' \<Longrightarrow> launch_step code ops (t, pc) (t', pc)"
| AttachTask: "launch_step code ops (t, Attaching h) (on_shared (\<lambda>s. snd (attach_task h s)) t, AwaitsReady)"
| PollPending: "spawn_ready_poll w (tk_shared t) = Inr (None, s) \<Longrightarrow>
    launch_step code ops (t, AwaitsReady) (t\<lparr>tk_shared := s\<rparr>, AwaitsReady)"
| PollReady: "spawn_ready_poll w (tk_shared t) = Inr (Some r, s) \<Longrightarrow>
    launch_step code ops (t, AwaitsReady) (t\<lparr>tk_shared := s\<rparr>, ReadyReturned r)"

abbreviation launch_steps :: "('mb, 'p, 'e) actor_code \<Rightarrow> ('q, term_message) mpsc \<Rightarrow>
    ('q, 'mb, 'p, 'e) task \<times> 'e launch_pc \<Rightarrow> ('q, 'mb, 'p, 'e) task \<times> 'e launch_pc \<Rightarrow> bool" where
  "launch_steps code ops \<equiv> (launch_step code ops)\<^sup>*\<^sup>*"

inductive_cases launch_stepE: "launch_step code ops x y"

section \<open>A start that fails\<close>

text \<open>The reason an actor dies with whose initialiser did not return an actor.\<close>

fun start_reason :: "'e init_result \<Rightarrow> bool \<Rightarrow> 'e TerminationReason" where
  "start_reason (InitErr e) aborted = (if aborted then Aborted else Failed e)"
| "start_reason _ aborted = Aborted"

definition start_fails :: "'e init_result \<Rightarrow> ('q, 'mb, 'p, 'e) task \<Rightarrow> bool" where
  "start_fails r t \<longleftrightarrow>
     (case tk_phase t of
        Unpolled \<Rightarrow> \<not> tk_aborted t
      | Initializing k \<Rightarrow> \<not> tk_aborted t
      | NeverPolled \<Rightarrow> True
      | p \<Rightarrow> guarding p \<and> (lifecycle (tk_shared t) = Starting \<or> lifecycle (tk_shared t) = Dead) \<and>
          (termination_reason (tk_shared t) = Some (start_reason r (tk_aborted t)) \<or>
           p = GuardMark \<and> termination_reason (tk_shared t) = None \<and> start_reason r (tk_aborted t) = Aborted))"

lemma start_fails_same: "start_fails r t \<Longrightarrow> same_task t t' \<Longrightarrow> start_fails r t'"
  by (simp add: start_fails_def same_task_def split: phase.splits)

lemma start_fails_abort:
  "start_fails r t \<Longrightarrow> task_ok t \<Longrightarrow> suspended code t \<Longrightarrow> start_fails r (abort_task t)"
  by (cases "tk_phase t"; cases r)
    (auto simp: start_fails_def abort_task_def suspended_def task_ok_def)

lemma start_fails_init:
  assumes "start_fails r t" "task_ok t" "tk_phase t = Initializing 0" "r \<noteq> InitOk"
  shows "start_fails r (init_or_fail r hook t)"
  using assms by (cases r) (auto simp: start_fails_def task_ok_def record_defs)

lemma start_fails_poll:
  assumes "start_fails r t" "task_ok t" "r = snd (ac_init code)" "r \<noteq> InitOk"
  shows "start_fails r (poll_task code ops n t)"
proof (cases "tk_phase t")
  case (Initializing k)
  show ?thesis
  proof (cases k)
    case 0
    with Initializing start_fails_init [of r t "ac_on_start code"] assms show ?thesis
      by (simp add: poll_task_def)
  next
    case (Suc k')
    with Initializing assms(1) show ?thesis by (simp add: poll_task_def start_fails_def)
  qed
next
  case GuardMark
  have "shared_ok (tk_shared t)" using assms(2) by (simp add: task_ok_def)
  with GuardMark assms(1) show ?thesis
    by (auto simp: poll_task_def start_fails_def guard_mark_reason)
next
  case GuardTake
  then show ?thesis
    using assms(1)
    by (auto simp: poll_task_def start_fails_def take_step_def split: prod.splits option.splits dest!: take_fields)
next
  case (GuardNotify k subs b)
  then show ?thesis
    using assms(1)
    by (auto simp: poll_task_def start_fails_def guard_notify_step_def split: list.splits prod.splits delivery.splits)
next
  case GuardDead
  have "shared_ok (tk_shared t)" using assms(2) by (simp add: task_ok_def)
  with GuardDead assms(1) show ?thesis
    by (auto simp: poll_task_def start_fails_def)
qed (use assms(1) in \<open>simp_all add: poll_task_def start_fails_def\<close>)

lemma start_fails_step:
  assumes "task_step code ops t t'" "start_fails r t" "task_ok t" "r = snd (ac_init code)" "r \<noteq> InitOk"
  shows "start_fails r t'"
proof -
  have "shared_ok (tk_shared t)" using assms(3) by (simp add: task_ok_def)
  from assms(1) this show ?thesis
    by (cases rule: task_step_cases)
      (use assms start_fails_poll start_fails_abort start_fails_same in blast)+
qed

section \<open>What \<open>spawn_ready\<close> returns\<close>

lemma spawn_ready_poll_cases:
  assumes "shared_ok s"
  shows "spawn_ready_poll w s =
    Inr (if lifecycle s = Starting then None
         else if lifecycle s = Dead then Some (case failed_error s of Some e \<Rightarrow> Inl e | None \<Rightarrow> Inr ())
         else Some (Inr ()), waits_start w s)"
proof -
  obtain l where "lc_state (ss_lifecycle s) = as_u8 l" "current (ss_lifecycle s) = Inr l" "lifecycle s = l"
    using assms by (auto simp: shared_ok_def lifecycle_def elim: cell_okE)
  then show ?thesis
    by (cases l) (auto simp: spawn_ready_poll_def waits_start_def poll_leave_starting_def current_def and_then_def
        Let_def failed_error_def termination_reason_def)
qed

definition launch_ok :: "('mb, 'p, 'e) actor_code \<Rightarrow> ('q, 'mb, 'p, 'e) task \<times> 'e launch_pc \<Rightarrow> bool" where
  "launch_ok code x \<longleftrightarrow> (case x of (t, pc) \<Rightarrow>
     task_ok t \<and> (snd (ac_init code) \<noteq> InitOk \<longrightarrow> start_fails (snd (ac_init code)) t) \<and>
     (case pc of
        ReadyReturned (Inl e) \<Rightarrow> lifecycle (tk_shared t) = Dead \<and> termination_reason (tk_shared t) = Some (Failed e)
      | ReadyReturned (Inr _) \<Rightarrow> lifecycle (tk_shared t) \<noteq> Starting \<and>
          (snd (ac_init code) \<noteq> InitOk \<longrightarrow> failed_error (tk_shared t) = None \<and> lifecycle (tk_shared t) = Dead)
      | _ \<Rightarrow> True))"

lemma failed_error_iff: "failed_error s = Some e \<longleftrightarrow> termination_reason s = Some (Failed e)"
  by (auto simp: failed_error_def split: option.splits TerminationReason.splits)

lemma not_Starting_le: "l \<noteq> Starting \<Longrightarrow> l \<le> l' \<Longrightarrow> l' \<noteq> Starting"
  by (cases l; cases l') (simp_all add: state_order)

lemma Dead_stays: "Dead \<le> l \<Longrightarrow> l = Dead"
  by (cases l) (simp_all add: state_order)

lemma launch_ok_task:
  assumes "launch_ok code (t, pc)" "task_step code ops t t'"
  shows "launch_ok code (t', pc)"
proof -
  let ?r = "snd (ac_init code)"
  have ok: "task_ok t" using assms(1) by (simp add: launch_ok_def)
  have ok': "task_ok t'" using task_step_ok [OF assms(2) ok] .
  have fails: "start_fails ?r t'" if "?r \<noteq> InitOk"
    using start_fails_step [OF assms(2) _ ok refl that] assms(1) that by (simp add: launch_ok_def)
  have moves: "moves_on (tk_shared t) (tk_shared t')"
    using task_steps_move_on [of code ops t t'] assms(2) ok by blast
  have returned: "lifecycle (tk_shared t') = Dead \<and> termination_reason (tk_shared t') = Some (Failed e)"
    if "pc = ReadyReturned (Inl e)" for e
    using that assms(1) moves Dead_stays by (simp add: launch_ok_def moves_on_def)
  have started: "lifecycle (tk_shared t') \<noteq> Starting" if "pc = ReadyReturned (Inr u)" for u
    using that assms(1) moves not_Starting_le by (auto simp: launch_ok_def moves_on_def)
  have dead: "failed_error (tk_shared t') = None \<and> lifecycle (tk_shared t') = Dead"
    if "pc = ReadyReturned (Inr u)" "?r \<noteq> InitOk" for u
  proof -
    from that assms(1) have t: "failed_error (tk_shared t) = None" "lifecycle (tk_shared t) = Dead"
      by (simp_all add: launch_ok_def)
    have "termination_reason (tk_shared t) \<noteq> None"
      using ok t(2) by (cases "tk_phase t") (auto simp: task_ok_def)
    then have "termination_reason (tk_shared t') = termination_reason (tk_shared t)"
      using moves by (simp add: moves_on_def)
    then show ?thesis using t moves Dead_stays by (simp add: failed_error_def moves_on_def)
  qed
  from ok' fails returned started dead show ?thesis
    by (auto simp: launch_ok_def split: launch_pc.split sum.split)
qed

lemma launch_ok_waits:
  assumes "launch_ok code (t, pc)"
  shows "launch_ok code (t\<lparr>tk_shared := waits_start w (tk_shared t)\<rparr>, pc)"
  using launch_ok_task [OF assms task_step.WaitStart [of code ops t w]] by (simp add: on_shared_def)

lemma launch_step_ok:
  assumes "launch_step code ops x y" "launch_ok code x"
  shows "launch_ok code y"
  using assms
proof cases
  case (TaskRuns t t' pc)
  with assms(2) show ?thesis by (simp add: launch_ok_task)
next
  case (AttachTask t h)
  have "launch_ok code (on_shared (\<lambda>s. snd (attach_task h s)) t, Attaching h)"
    using launch_ok_task [OF _ task_step.Attach] assms(2) AttachTask by simp
  with AttachTask show ?thesis by (simp add: launch_ok_def)
next
  case (PollPending w t s)
  then have "shared_ok (tk_shared t)" using assms(2) by (simp add: launch_ok_def task_ok_def)
  with PollPending have "s = waits_start w (tk_shared t)" by (simp add: spawn_ready_poll_cases)
  with PollPending assms(2) show ?thesis by (simp add: launch_ok_waits)
next
  case (PollReady w t r s)
  then have t: "task_ok t" "shared_ok (tk_shared t)"
    "snd (ac_init code) \<noteq> InitOk \<Longrightarrow> start_fails (snd (ac_init code)) t"
    using assms(2) by (simp_all add: launch_ok_def task_ok_def)
  from PollReady t(2) have s: "s = waits_start w (tk_shared t)" by (simp add: spawn_ready_poll_cases)
  have "launch_ok code (t, ReadyReturned r)"
  proof (cases r)
    case (Inl e)
    with PollReady t show ?thesis
      by (auto simp: launch_ok_def spawn_ready_poll_cases failed_error_iff split: if_splits option.splits)
  next
    case (Inr u)
    have "failed_error (tk_shared t) = None \<and> lifecycle (tk_shared t) = Dead" if "snd (ac_init code) \<noteq> InitOk"
    proof -
      have "lifecycle (tk_shared t) \<noteq> Starting" using PollReady t(2) by (auto simp: spawn_ready_poll_cases)
      with t(1) t(3) [OF that] have "lifecycle (tk_shared t) = Dead"
        by (cases "tk_phase t") (auto simp: start_fails_def task_ok_def)
      with PollReady t(2) Inr show ?thesis by (auto simp: spawn_ready_poll_cases split: option.splits)
    qed
    with Inr PollReady t show ?thesis by (auto simp: launch_ok_def spawn_ready_poll_cases split: if_splits)
  qed
  with launch_ok_waits show ?thesis using PollReady(2) s by blast
qed

lemma launch_steps_ok: "launch_steps code ops x y \<Longrightarrow> launch_ok code x \<Longrightarrow> launch_ok code y"
  by (induction rule: rtranclp_induct) (auto dest: launch_step_ok)

lemma assemble_ok:
  assumes "assemble chan lanes router has_sink name frame ws launcher ids = (Inr t, ids')"
  shows "task_ok t" "tk_phase t = Unpolled" "\<not> tk_aborted t"
    "create_channel chan (al_channel_options launcher) lanes router = Inr (tk_mailbox t)"
proof -
  from assms have t: "create_channel chan (al_channel_options launcher) lanes router = Inr (tk_mailbox t)"
    "t = spawn_task (set_capture_birth frame (shared_new ids name (has_sink (al_extensions launcher))))
      (tk_mailbox t) ws"
    by (auto simp: assemble_def actor_id_new_def spawn_task_def Let_def split: sum.splits prod.splits if_splits)
  have birth: "shared_ok (set_capture_birth frame s) = shared_ok s" "lifecycle (set_capture_birth frame s) = lifecycle s"
    "termination_reason (set_capture_birth frame s) = termination_reason s"
    "sequence_ok (set_capture_birth frame s) = sequence_ok s" for s :: "'e SharedActorState"
    by (simp_all add: set_capture_birth_def shared_ok_def lifecycle_def termination_reason_def sequence_ok_def
        event_at_def [abs_def])
  show "task_ok t" "tk_phase t = Unpolled" "\<not> tk_aborted t"
    by (subst t(2), simp add: spawn_task_def task_ok_def stops_ok_def birth sequence_ok_new)+
  show "create_channel chan (al_channel_options launcher) lanes router = Inr (tk_mailbox t)" by (rule t(1))
qed

text \<open>C36: What \<open>spawn_ready\<close> returns, however the task, aborts and other threads interleave with it: never while the
  actor is \<open>Starting\<close>; the error of the initialiser if there is one, unless the task was aborted before;
  no error if the initialiser panicked, although the actor is dead; and if the initialiser succeeded, an
  error only if the actor is dead and failed with it.\<close>

theorem spawn_ready_outcome:
  assumes "assemble chan lanes router has_sink name frame ws launcher ids = (Inr t0, ids')"
    and "launch_steps code ops (t0, Attaching h) (t, ReadyReturned r)"
  shows "lifecycle (tk_shared t) \<noteq> Starting \<and>
    (case snd (ac_init code) of
       InitErr e \<Rightarrow> lifecycle (tk_shared t) = Dead \<and> r = (if tk_aborted t then Inr () else Inl e)
     | InitPanics \<Rightarrow> lifecycle (tk_shared t) = Dead \<and> r = Inr ()
     | InitOk \<Rightarrow> (case r of
         Inl e \<Rightarrow> lifecycle (tk_shared t) = Dead \<and> termination_reason (tk_shared t) = Some (Failed e)
       | Inr _ \<Rightarrow> True))"
proof -
  have "launch_ok code (t0, Attaching h)"
    using assemble_ok [OF assms(1)] by (simp add: launch_ok_def start_fails_def)
  then have ok: "launch_ok code (t, ReadyReturned r)" using launch_steps_ok [OF assms(2)] by simp
  have start: "termination_reason (tk_shared t) = Some (start_reason (snd (ac_init code)) (tk_aborted t))"
    if "snd (ac_init code) \<noteq> InitOk" "lifecycle (tk_shared t) = Dead"
    using ok that by (cases "tk_phase t") (auto simp: launch_ok_def start_fails_def task_ok_def)
  show ?thesis
  proof (cases "snd (ac_init code)")
    case InitOk
    with ok show ?thesis by (auto simp: launch_ok_def split: sum.splits)
  next
    case (InitErr e)
    with ok have dead: "lifecycle (tk_shared t) = Dead" by (cases r) (auto simp: launch_ok_def)
    with InitErr ok start show ?thesis
      by (cases r; cases "tk_aborted t") (auto simp: launch_ok_def failed_error_def)
  next
    case InitPanics
    with ok have dead: "lifecycle (tk_shared t) = Dead" by (cases r) (auto simp: launch_ok_def)
    with InitPanics ok start show ?thesis by (cases r) (auto simp: launch_ok_def)
  qed
qed

lemma launch_alone: "task_steps code ops t t' \<Longrightarrow> launch_steps code ops (t, pc) (t', pc)"
  by (induction rule: rtranclp_induct) (auto intro: rtranclp.rtrancl_into_rtrancl launch_step.TaskRuns)

definition failing_code :: "((nat fifo, nat) multilane, nat, string) actor_code" where
  "failing_code =
     \<lparr>ac_init = (1, InitErr ''no''), ac_on_start = \<lparr>wk_acts = [], wk_panics = None\<rparr>,
      ac_handle = (\<lambda>_ _. \<lparr>wk_acts = [], wk_panics = None\<rparr>), ac_on_stop = (\<lambda>_. \<lparr>wk_acts = [], wk_panics = None\<rparr>),
      ac_next = (\<lambda>_ mb. mb), ac_poll = (\<lambda>mb. (Inl Pending, mb)), ac_concurrent = False\<rparr>"

definition failing_task :: "(term_message fifo, (nat fifo, nat) multilane, nat, string) task" where
  "failing_task = spawn_task (set_capture_birth None (shared_new 1 ''A'' False)) sample_channel (\<lambda>_. None)"

lemma spawn_ready_outcome_witness:
  "\<exists>t. launch_steps failing_code fifo_mpsc (failing_task, Attaching 0) (t, ReadyReturned (Inl ''no'')) \<and>
    lifecycle (tk_shared t) = Dead"
proof -
  define t where "t = alone failing_code fifo_mpsc 7 (on_shared (\<lambda>s. snd (attach_task 0 s)) failing_task)"
  have assembled: "assemble fifo_mpsc 2 (\<lambda>m. m mod 2) (\<lambda>_. False) ''A'' None (\<lambda>_. None)
      \<lparr>al_channel_options = Bounded 4, al_extensions = ([] :: nat ExtensionSet)\<rparr> 1 = (Inr failing_task, 2)"
    by (simp add: assemble_def sample_channel_created actor_id_new_def failing_task_def)
  have end_state: "lifecycle (tk_shared t) = Dead" "\<not> tk_aborted t" "failed_error (tk_shared t) = Some ''no''"
    by (simp_all add: t_def failing_code_def failing_task_def spawn_task_def shared_new_def set_capture_birth_def
        attach_task_def failed_error_def eval_nat_numeral alone_Suc eval_task Let_def)
  have attached: "launch_steps failing_code fifo_mpsc (failing_task, Attaching 0)
      (on_shared (\<lambda>s. snd (attach_task 0 s)) failing_task, AwaitsReady)"
    by (rule r_into_rtranclp) (rule launch_step.AttachTask)
  have waits: "launch_steps failing_code fifo_mpsc (failing_task, Attaching 0) (t, AwaitsReady)"
    unfolding t_def by (rule rtranclp_trans [OF attached launch_alone [OF alone_steps]])
  have "task_ok t"
    unfolding t_def
    by (intro alone_ok) (use assemble_ok(1) [OF assembled] in
      \<open>auto intro: task_step_ok [OF task_step.Attach [of failing_code fifo_mpsc failing_task 0]]\<close>)
  then have "spawn_ready_poll w (tk_shared t) = Inr (Some (Inl ''no''), waits_start w (tk_shared t))" for w
    using end_state by (simp add: spawn_ready_poll_cases task_ok_def)
  from launch_step.PollReady [OF this [of 0], of failing_code fifo_mpsc] waits
  have "launch_steps failing_code fifo_mpsc (failing_task, Attaching 0)
      (t\<lparr>tk_shared := waits_start 0 (tk_shared t)\<rparr>, ReadyReturned (Inl ''no''))"
    by (rule rtranclp.rtrancl_into_rtrancl [rotated])
  with spawn_ready_outcome [OF assembled this] show ?thesis by (auto simp: failing_code_def)
qed

end
