(* ===== verification/Dispatch_Work.thy ===== *)
theory Dispatch_Work
  imports Calls Envelope_Safety Run_Loop
begin

text \<open>
  A dispatched message on its way to its handler: \<open>crates/factories_actor/src/actor/dispatch.rs\<close> with the
  function \<open>declare_static_async_dispatcher\<close> generates, \<open>MessageHandlerContext\<close> of \<open>actor/mod.rs\<close>,
  \<open>EventContext\<close> of \<open>actor/event.rs\<close>, the erasure of \<open>actor/work.rs\<close>, and the capture frame of
  \<open>capture.rs\<close> around a handler. The dispatcher erases the dispatch, as a future, into a slot of its caller:
  acquire the lock, unpack the context, run the handler. Envelopes live on the checked heap of \<open>Envelope\<close>.
\<close>

section \<open>Building a message\<close>

text \<open>The stamp of a message is that of the thread's frame where it is built. Tracing spans are left out.\<close>

record DispatchedActorMessageContext =
  cx_envelope :: MessageEnvelope
  cx_capture :: CaptureStamp

record enveloped_message =
  em_dispatcher :: ActorMessageDispatcher
  em_context :: DispatchedActorMessageContext

definition context_of :: "CaptureFrame option \<Rightarrow> MessageEnvelope \<Rightarrow> DispatchedActorMessageContext" where
  "context_of current_frame e = \<lparr>cx_envelope = e, cx_capture = current_stamp current_frame\<rparr>"

fun envelope_type :: "EnvelopeKind \<Rightarrow> EnvelopeType" where
  "envelope_type KindTell = TypeTell"
| "envelope_type KindAsk = TypeAsk"

definition capture_dispatch :: "DispatchedActorMessageContext \<Rightarrow> Dispatch" where
  "capture_dispatch cx = dispatch_from (envelope_type (envelope_ty (cx_envelope cx)))"

text \<open>\<open>EventContext::message_with\<close>, and \<open>message\<close> without a sender for the answer; of an actor of type \<open>A\<close>.\<close>

definition message_with :: "statics \<Rightarrow> u64 \<Rightarrow> CaptureFrame option \<Rightarrow> u64 \<Rightarrow> obj \<Rightarrow> obj option \<Rightarrow> memory \<Rightarrow>
    enveloped_message \<times> memory" where
  "message_with st A current_frame M message answer_sender m =
     (case envelope_new st M message answer_sender m of
        (e, m') \<Rightarrow> (\<lparr>em_dispatcher = static_dispatcher A M, em_context = context_of current_frame e\<rparr>, m'))"

definition event_message :: "statics \<Rightarrow> u64 \<Rightarrow> CaptureFrame option \<Rightarrow> u64 \<Rightarrow> obj \<Rightarrow> memory \<Rightarrow>
    enveloped_message \<times> memory" where
  "event_message st A current_frame M message m = message_with st A current_frame M message None m"

section \<open>The context of a handler\<close>

text \<open>The guard is counted by the world below, so the envelope is what is left of the context.\<close>

record MessageHandlerContext =
  hc_envelope :: MessageEnvelope

definition handler_context_new_unchecked :: "MessageEnvelope \<Rightarrow> MessageHandlerContext" where
  "handler_context_new_unchecked e = \<lparr>hc_envelope = e\<rparr>"

definition handler_context_new :: "u64 \<Rightarrow> MessageEnvelope \<Rightarrow> MessageEnvelope + MessageHandlerContext" where
  "handler_context_new M e =
     (if envelope_rtti e \<noteq> M then Inl e else Inr (handler_context_new_unchecked e))"

definition handler_context_message :: "bool \<Rightarrow> statics \<Rightarrow> u64 \<Rightarrow> MessageHandlerContext \<Rightarrow> memory \<Rightarrow>
    (ub, obj) outcome" where
  "handler_context_message debug st M c m = payload_unchecked debug st M (hc_envelope c) m"

definition handler_context_into_parts :: "bool \<Rightarrow> statics \<Rightarrow> u64 \<Rightarrow> MessageHandlerContext \<Rightarrow> memory \<Rightarrow>
    (ub, (obj \<times> obj option) \<times> memory) outcome" where
  "handler_context_into_parts debug st M c m = unwrap_unchecked debug st M (hc_envelope c) m"

definition into_parts_with_envelope :: "MessageHandlerContext \<Rightarrow> MessageEnvelope" where
  "into_parts_with_envelope c = hc_envelope c"

section \<open>Handlers\<close>

text \<open>
  A handler is what it does, in order. \<open>UnwrapAs\<close> is \<open>MessageEnvelope::unwrap\<close> on the envelope of a context that
  was taken apart; \<open>KeepsMessage\<close>, \<open>KeepsSender\<close> and \<open>KeepsEnvelope\<close> move what the context was taken apart into
  out of the handler: into the actor's state, into another task, or on to another actor in a send; \<open>SendsOn\<close>
  sends to some actor; \<open>Stops\<close> and \<open>Fails\<close> call the actor's context. An act on what the handler does not hold
  does nothing: the borrow checker refuses it.
\<close>

datatype 'e handler_act =
    ReadsMessage | IntoParts | IntoEnvelope | UnwrapAs u64 | DropsMessage | DropsSender | Answers | DropsGuard
  | KeepsMessage | KeepsSender | KeepsEnvelope | Stops | Fails 'e | SendsOn | Awaits | PanicsWith payload

datatype holding =
    HoldsContext MessageHandlerContext
  | HoldsEnvelope MessageEnvelope
  | HoldsParts "obj option" "obj option"

text \<open>
  The world of a dispatch: the heap, the state of the actor, the capture frame of the thread that polls, how
  many guards of the actor's lock are alive, and what is remembered: the payloads the handler read, the
  senders it answered through, the objects and the envelopes that were moved out of it, still alive, and the
  stamps of its sends.
\<close>

record 'e world =
  wo_memory :: memory
  wo_shared :: "'e SharedActorState"
  wo_frame :: "CaptureFrame option"
  wo_guards :: int
  wo_seen :: "obj list"
  wo_answered :: "obj list"
  wo_moved :: "obj list"
  wo_envelopes :: "MessageEnvelope list"
  wo_sent :: "CaptureStamp list"

definition drop_obj :: "obj option \<Rightarrow> memory \<Rightarrow> memory" where
  "drop_obj v m = (case v of None \<Rightarrow> m | Some x \<Rightarrow> run_drop x m)"

definition drop_holding :: "statics \<Rightarrow> holding \<Rightarrow> memory \<Rightarrow> (ub, memory) outcome" where
  "drop_holding st h m =
     (case h of
        HoldsContext c \<Rightarrow> envelope_drop st (hc_envelope c) m
      | HoldsEnvelope e \<Rightarrow> envelope_drop st e m
      | HoldsParts v s \<Rightarrow> Inr (drop_obj v (drop_obj s m)))"

definition drop_handler :: "statics \<Rightarrow> holding \<Rightarrow> bool \<Rightarrow> 'e world \<Rightarrow> (ub, 'e world) outcome" where
  "drop_handler st h guard w =
     and_then (drop_holding st h (wo_memory w)) (\<lambda>m.
       Inr (w\<lparr>wo_memory := m, wo_guards := wo_guards w - of_bool guard\<rparr>))"

fun do_act :: "bool \<Rightarrow> statics \<Rightarrow> u64 \<Rightarrow> 'e handler_act \<Rightarrow> holding \<times> bool \<times> 'e world \<Rightarrow>
    (ub, holding \<times> bool \<times> 'e world) outcome" where
  "do_act debug st M ReadsMessage (h, g, w) =
     (case h of
        HoldsContext c \<Rightarrow> and_then (handler_context_message debug st M c (wo_memory w)) (\<lambda>v.
          Inr (h, g, w\<lparr>wo_seen := wo_seen w @ [v]\<rparr>))
      | HoldsParts (Some v) s \<Rightarrow> Inr (h, g, w\<lparr>wo_seen := wo_seen w @ [v]\<rparr>)
      | _ \<Rightarrow> Inr (h, g, w))"
| "do_act debug st M IntoParts (h, g, w) =
     (case h of
        HoldsContext c \<Rightarrow> and_then (handler_context_into_parts debug st M c (wo_memory w)) (\<lambda>((v, s), m).
          Inr (HoldsParts (Some v) s, g, w\<lparr>wo_memory := m\<rparr>))
      | _ \<Rightarrow> Inr (h, g, w))"
| "do_act debug st M IntoEnvelope (h, g, w) =
     (case h of HoldsContext c \<Rightarrow> Inr (HoldsEnvelope (into_parts_with_envelope c), g, w) | _ \<Rightarrow> Inr (h, g, w))"
| "do_act debug st M (UnwrapAs t) (h, g, w) =
     (case h of
        HoldsEnvelope e \<Rightarrow> and_then (unwrap_envelope debug st t e (wo_memory w)) (\<lambda>(r, m).
          case r of
            None \<Rightarrow> Inr (h, g, w\<lparr>wo_memory := m\<rparr>)
          | Some (v, s) \<Rightarrow> Inr (HoldsParts (Some v) s, g, w\<lparr>wo_memory := m\<rparr>))
      | _ \<Rightarrow> Inr (h, g, w))"
| "do_act debug st M DropsMessage (h, g, w) =
     (case h of
        HoldsParts v s \<Rightarrow> Inr (HoldsParts None s, g, w\<lparr>wo_memory := drop_obj v (wo_memory w)\<rparr>)
      | _ \<Rightarrow> Inr (h, g, w))"
| "do_act debug st M DropsSender (h, g, w) =
     (case h of
        HoldsParts v s \<Rightarrow> Inr (HoldsParts v None, g, w\<lparr>wo_memory := drop_obj s (wo_memory w)\<rparr>)
      | _ \<Rightarrow> Inr (h, g, w))"
| "do_act debug st M Answers (h, g, w) =
     (case h of
        HoldsParts v (Some s) \<Rightarrow> Inr (HoldsParts v None, g, w\<lparr>wo_answered := wo_answered w @ [s]\<rparr>)
      | _ \<Rightarrow> Inr (h, g, w))"
| "do_act debug st M KeepsMessage (h, g, w) =
     (case h of
        HoldsParts (Some v) s \<Rightarrow> Inr (HoldsParts None s, g, w\<lparr>wo_moved := wo_moved w @ [v]\<rparr>)
      | _ \<Rightarrow> Inr (h, g, w))"
| "do_act debug st M KeepsSender (h, g, w) =
     (case h of
        HoldsParts v (Some s) \<Rightarrow> Inr (HoldsParts v None, g, w\<lparr>wo_moved := wo_moved w @ [s]\<rparr>)
      | _ \<Rightarrow> Inr (h, g, w))"
| "do_act debug st M KeepsEnvelope (h, g, w) =
     (case h of
        HoldsEnvelope e \<Rightarrow> Inr (HoldsParts None None, g, w\<lparr>wo_envelopes := wo_envelopes w @ [e]\<rparr>)
      | _ \<Rightarrow> Inr (h, g, w))"
| "do_act debug st M DropsGuard (h, g, w) =
     (case h of
        HoldsContext c \<Rightarrow> Inr (h, g, w)
      | _ \<Rightarrow> Inr (h, False, w\<lparr>wo_guards := wo_guards w - of_bool g\<rparr>))"
| "do_act debug st M Stops (h, g, w) = Inr (h, g, w\<lparr>wo_shared := user_call AskStop (wo_shared w)\<rparr>)"
| "do_act debug st M (Fails e) (h, g, w) =
     Inr (h, g, w\<lparr>wo_shared := user_call (FailWith e) (wo_shared w)\<rparr>)"
| "do_act debug st M SendsOn (h, g, w) =
     Inr (h, g, w\<lparr>wo_sent := wo_sent w @ [current_stamp (wo_frame w)]\<rparr>)"
| "do_act debug st M Awaits x = Inr x"
| "do_act debug st M (PanicsWith p) x = Inr x"

text \<open>A poll of the handler: until it awaits, is done, or panics and is unwound.\<close>

datatype 'e work_state =
    Acquiring DispatchedActorMessageContext
  | InHandler "CaptureFrame option" "'e handler_act list" holding bool
  | Resolved

datatype work_poll = WorkPending | WorkDone "payload option"

fun run_handler :: "bool \<Rightarrow> statics \<Rightarrow> u64 \<Rightarrow> CaptureFrame option \<Rightarrow> 'e handler_act list \<Rightarrow>
    holding \<times> bool \<times> 'e world \<Rightarrow> (ub, work_poll \<times> 'e work_state \<times> 'e world) outcome" where
  "run_handler debug st M frame [] (h, g, w) =
     and_then (drop_handler st h g w) (\<lambda>w'. Inr (WorkDone None, Resolved, w'))"
| "run_handler debug st M frame (PanicsWith p # as) (h, g, w) =
     and_then (drop_handler st h g w) (\<lambda>w'. Inr (WorkDone (Some p), Resolved, w'))"
| "run_handler debug st M frame (Awaits # as) (h, g, w) = Inr (WorkPending, InHandler frame as h g, w)"
| "run_handler debug st M frame (a # as) x =
     and_then (do_act debug st M a x) (run_handler debug st M frame as)"

text \<open>
  The producer, the function the declaration makes of the handler: it takes the context and returns the
  future. An \<open>async fn\<close> does nothing else; a closure may do some of its work here, without awaiting. If it
  panics, unwinding drops what it holds.
\<close>

fun run_producer :: "bool \<Rightarrow> statics \<Rightarrow> u64 \<Rightarrow> 'e handler_act list \<Rightarrow> holding \<times> bool \<times> 'e world \<Rightarrow>
    (ub, payload option \<times> holding \<times> bool \<times> 'e world) outcome" where
  "run_producer debug st M [] (h, g, w) = Inr (None, h, g, w)"
| "run_producer debug st M (PanicsWith p # as) (h, g, w) =
     and_then (drop_handler st h g w) (\<lambda>w'. Inr (Some p, HoldsParts None None, False, w'))"
| "run_producer debug st M (Awaits # as) (h, g, w) = run_producer debug st M as (h, g, w)"
| "run_producer debug st M (a # as) x =
     and_then (do_act debug st M a x) (run_producer debug st M as)"

text \<open>\<open>WithFrame::poll\<close>: the frame for the inner poll, and then the thread's own again.\<close>

definition with_frame :: "CaptureFrame option \<Rightarrow>
    ('e world \<Rightarrow> (ub, work_poll \<times> 'e work_state \<times> 'e world) outcome) \<Rightarrow>
    'e world \<Rightarrow> (ub, work_poll \<times> 'e work_state \<times> 'e world) outcome" where
  "with_frame frame inner w =
     and_then (inner (w\<lparr>wo_frame := frame\<rparr>)) (\<lambda>(r, s, w'). Inr (r, s, w'\<lparr>wo_frame := wo_frame w\<rparr>))"

section \<open>The dispatched work\<close>

text \<open>What the declaration site of a dispatcher knows of the handler, by actor and message type.\<close>

record 'e handler_code =
  hd_name :: string
  hd_producer :: "'e handler_act list"
  hd_acts :: "'e handler_act list"

text \<open>The future a dispatcher generated for an actor and a message type builds.\<close>

record 'e erased_work =
  ew_actor :: u64
  ew_message :: u64
  ew_state :: "'e work_state"

text \<open>
  A poll of the future that acquires the lock; the lock is another component. With the lock, the producer
  runs first, under the frame of the thread that polls; only the future it returns is instrumented.
\<close>

datatype lock_poll = Acquired | Contended | AcquirePanics payload

definition poll_work :: "bool \<Rightarrow> statics \<Rightarrow> (u64 \<Rightarrow> u64 \<Rightarrow> 'e handler_code) \<Rightarrow> lock_poll \<Rightarrow> 'e erased_work \<Rightarrow>
    'e world \<Rightarrow> (ub, work_poll \<times> 'e work_state \<times> 'e world) outcome" where
  "poll_work debug st code lock work w =
     (let handler = code (ew_actor work) (ew_message work); M = ew_message work in
      case ew_state work of
        Acquiring cx \<Rightarrow>
          (case lock of
             Contended \<Rightarrow> Inr (WorkPending, Acquiring cx, w)
           | AcquirePanics p \<Rightarrow>
               and_then (envelope_drop st (cx_envelope cx) (wo_memory w)) (\<lambda>m.
                 Inr (WorkDone (Some p), Resolved, w\<lparr>wo_memory := m\<rparr>))
           | Acquired \<Rightarrow>
               (let ctx = handler_context_new_unchecked (cx_envelope cx)
                in and_then (run_producer debug st M (hd_producer handler)
                     (HoldsContext ctx, True, w\<lparr>wo_guards := wo_guards w + 1\<rparr>)) (\<lambda>(panicked, h, g, w).
                  case panicked of
                    Some p \<Rightarrow> Inr (WorkDone (Some p), Resolved, w)
                  | None \<Rightarrow>
                      (let (frame, shared) = instrument_handler (cx_capture cx) (hd_name handler)
                         (capture_dispatch cx) (wo_shared w)
                       in with_frame frame (\<lambda>w. run_handler debug st M frame (hd_acts handler) (h, g, w))
                            (w\<lparr>wo_shared := shared\<rparr>)))))
      | InHandler frame acts h g \<Rightarrow>
          with_frame frame (\<lambda>w. run_handler debug st M frame acts (h, g, w)) w
      | Resolved \<Rightarrow> Inl Panic)"

definition drop_work :: "statics \<Rightarrow> 'e erased_work \<Rightarrow> 'e world \<Rightarrow> (ub, 'e world) outcome" where
  "drop_work st work w =
     (case ew_state work of
        Acquiring cx \<Rightarrow>
          and_then (envelope_drop st (cx_envelope cx) (wo_memory w)) (\<lambda>m. Inr (w\<lparr>wo_memory := m\<rparr>))
      | InHandler frame acts h g \<Rightarrow> drop_handler st h g w
      | Resolved \<Rightarrow> Inr w)"

text \<open>
  The generated \<open>invoke\<close>: it casts the context to that of its own actor's loop and writes the future into a
  slot of its own actor's erased type; both are checked here. \<open>dispatch_onto_loop\<close> calls it with the context of
  the actor type it is called for and an uninitialised slot of that type, which it then reads.
\<close>

record 'e slot =
  sl_actor :: u64
  sl_work :: "'e erased_work option"

definition invoke_dispatcher :: "ActorMessageDispatcher \<Rightarrow> u64 \<Rightarrow> DispatchedActorMessageContext \<Rightarrow> 'e slot \<Rightarrow>
    (ub, 'e slot) outcome" where
  "invoke_dispatcher d context_actor cx out =
     (case d of Dispatcher A M \<Rightarrow>
        if context_actor \<noteq> A then Inl (Error WrongType)
        else if sl_actor out \<noteq> A then Inl (Error WrongType)
        else Inr (out\<lparr>sl_work := Some \<lparr>ew_actor = A, ew_message = M, ew_state = Acquiring cx\<rparr>\<rparr>))"

definition work_onto_loop :: "u64 \<Rightarrow> enveloped_message \<Rightarrow> (ub, 'e erased_work) outcome" where
  "work_onto_loop A msg =
     and_then (invoke_dispatcher (em_dispatcher msg) A (em_context msg) \<lparr>sl_actor = A, sl_work = None\<rparr>)
       (\<lambda>slot. case sl_work slot of None \<Rightarrow> Inl (Error ReadUninit) | Some work \<Rightarrow> Inr work)"

text \<open>
  A loop drives the work by polls, each on a thread with a capture frame of its own, and drops what is not
  resolved after them. The result is that of the work if it is: the panic the loop captured, or none.
\<close>

fun drive_work :: "bool \<Rightarrow> statics \<Rightarrow> (u64 \<Rightarrow> u64 \<Rightarrow> 'e handler_code) \<Rightarrow> (CaptureFrame option \<times> lock_poll) list \<Rightarrow>
    'e erased_work \<Rightarrow> 'e world \<Rightarrow> (ub, payload option option \<times> 'e world) outcome" where
  "drive_work debug st code [] work w = and_then (drop_work st work w) (\<lambda>w'. Inr (None, w'))"
| "drive_work debug st code ((frame, lock) # polls) work w =
     and_then (poll_work debug st code lock work (w\<lparr>wo_frame := frame\<rparr>)) (\<lambda>(r, s, w').
       case r of
         WorkDone p \<Rightarrow> Inr (Some p, w')
       | WorkPending \<Rightarrow> drive_work debug st code polls (work\<lparr>ew_state := s\<rparr>) w')"

end
