(* ===== verification/Dispatch_Properties.thy ===== *)
theory Dispatch_Properties
  imports Dispatch_Work Envelope_Properties Run_Loop_Safety
begin

text \<open>
  What becomes of a dispatched message, whatever its handler does and however its work is polled and dropped:
  every object it carried is dropped, answered through or moved on once, or its envelope is kept whole; every
  other box is freed, every guard released; the sends of the handler's future are stamped with its delivery;
  and on the state of the actor the work is a job of \<open>Run_Loop\<close>.
\<close>

section \<open>Accounting\<close>

text \<open>\<open>base\<close> is the heap without the boxes of the message.\<close>

definition holding_ok :: "statics \<Rightarrow> letter \<Rightarrow> (nat \<rightharpoonup> obj) \<Rightarrow> holding \<Rightarrow> memory \<Rightarrow> bool" where
  "holding_ok st l base h m \<longleftrightarrow>
     (case h of
        HoldsParts v s \<Rightarrow> me_boxes m = base \<and> (v = None \<or> v = Some (fst (snd l)))
      | HoldsContext c \<Rightarrow> envelope_holds st (me_boxes m) (hc_envelope c) l \<and> distinct (envelope_boxes (hc_envelope c)) \<and>
          base = (\<lambda>p. if p \<in> set (envelope_boxes (hc_envelope c)) then None else me_boxes m p)
      | HoldsEnvelope e \<Rightarrow> envelope_holds st (me_boxes m) e l \<and> distinct (envelope_boxes e) \<and>
          base = (\<lambda>p. if p \<in> set (envelope_boxes e) then None else me_boxes m p))"

fun opt_objs :: "obj option \<Rightarrow> obj multiset" where
  "opt_objs None = {#}"
| "opt_objs (Some v) = {#v#}"

fun holding_objs :: "letter \<Rightarrow> holding \<Rightarrow> obj multiset" where
  "holding_objs l (HoldsParts v s) = opt_objs v + opt_objs s"
| "holding_objs l _ = mset (letter_objs l)"

text \<open>A letter that left the handler in an envelope counts with its envelope.\<close>

definition gone_objs :: "'e world \<Rightarrow> obj multiset" where
  "gone_objs w = mset (me_dropped (wo_memory w)) + mset (wo_answered w) + mset (wo_moved w)"

definition spent :: "letter \<Rightarrow> 'e world \<Rightarrow> obj multiset" where
  "spent l w = gone_objs w + sum_list (map (\<lambda>_. mset (letter_objs l)) (wo_envelopes w))"

lemma spent_fields [simp]:
  "spent l (w\<lparr>wo_frame := f\<rparr>) = spent l w" "spent l (w\<lparr>wo_shared := sh\<rparr>) = spent l w"
  "spent l (w\<lparr>wo_guards := n\<rparr>) = spent l w"
  by (simp_all add: spent_def gone_objs_def)

text \<open>
  Either the handler holds what is left of the message, or it gave the envelope away: then it has nothing,
  and the envelope is still whole.
\<close>

definition holder_ok :: "statics \<Rightarrow> letter \<Rightarrow> (nat \<rightharpoonup> obj) \<Rightarrow> MessageEnvelope list \<Rightarrow> holding \<Rightarrow> 'e world \<Rightarrow> bool" where
  "holder_ok st l base E h w \<longleftrightarrow>
     wo_envelopes w = E \<and> holding_ok st l base h (wo_memory w) \<or>
     h = HoldsParts None None \<and>
       (\<exists>e. wo_envelopes w = E @ [e] \<and> holding_ok st l base (HoldsEnvelope e) (wo_memory w))"

lemma holder_ok_fields [simp]:
  "holder_ok st l base E h (w\<lparr>wo_frame := f\<rparr>) = holder_ok st l base E h w"
  "holder_ok st l base E h (w\<lparr>wo_shared := sh\<rparr>) = holder_ok st l base E h w"
  "holder_ok st l base E h (w\<lparr>wo_guards := n\<rparr>) = holder_ok st l base E h w"
  by (simp_all add: holder_ok_def)

lemma letter_objs_mset: "mset (letter_objs (t, v, s)) = opt_objs (Some v) + opt_objs s"
  by (cases s) simp_all

lemma drop_obj_fields [simp]:
  "me_boxes (drop_obj v m) = me_boxes m" "mset (me_dropped (drop_obj v m)) = mset (me_dropped m) + opt_objs v"
  by (cases v; simp add: drop_obj_def run_drop_def)+

lemma frees_base: "frees ps m m' \<Longrightarrow> set ps = set qs \<Longrightarrow> me_boxes m' = (\<lambda>p. if p \<in> set qs then None else me_boxes m p)"
  by (auto simp: frees_def)

lemma payload_unchecked_holds:
  assumes "envelope_holds st (me_boxes m) e (t, v, s)"
  shows "payload_unchecked debug st t e m = Inr v"
  using payload_holds [OF assms, of debug t] envelope_holds_views(1) [OF assms]
  by (auto simp: payload_def and_then_def split: sum.splits)

lemma unwrap_unchecked_holds:
  assumes "envelope_holds st (me_boxes m) e (t, v, s)" "distinct (envelope_boxes e)"
  shows "\<exists>m' ps. unwrap_unchecked debug st t e m = Inr ((v, s), m') \<and> frees ps m m' \<and>
      set ps = set (envelope_boxes e) \<and> me_dropped m' = me_dropped m"
proof -
  obtain m' ps where out: "unwrap_envelope debug st t e m = Inr (Some (v, s), m')" "frees ps m m'"
      "set ps = set (envelope_boxes e)" "me_dropped m' = me_dropped m"
    using unwrap_holds(2) [OF assms, of debug] by blast
  have "unwrap_envelope debug st t e m = and_then (unwrap_unchecked debug st t e m) (\<lambda>(x, m'). Inr (Some x, m'))"
    using envelope_holds_views(1) [OF assms(1)] by (simp only: unwrap_envelope_def simp_thms if_False)
  with out(1) have "unwrap_unchecked debug st t e m = Inr ((v, s), m')"
    by (simp add: and_then_def split: sum.splits prod.splits)
  with out(2-4) show ?thesis by blast
qed

text \<open>What an act, or any number of them, keeps.\<close>

definition accounts :: "letter \<Rightarrow> holding \<times> bool \<times> 'e world \<Rightarrow> holding \<times> bool \<times> 'e world \<Rightarrow> bool" where
  "accounts l x y \<longleftrightarrow>
     (case (x, y) of ((h, g, w), (h', g', w')) \<Rightarrow>
        spent l w' + holding_objs l h' = spent l w + holding_objs l h \<and>
        wo_guards w' - of_bool g' = wo_guards w - of_bool g \<and>
        set (wo_seen w') \<subseteq> insert (fst (snd l)) (set (wo_seen w)) \<and> wo_frame w' = wo_frame w)"

lemma accounts_refl [simp]: "accounts l x x"
  by (auto simp: accounts_def split: prod.splits)

lemma accounts_trans: "accounts l x y \<Longrightarrow> accounts l y z \<Longrightarrow> accounts l x z"
  by (auto simp: accounts_def split: prod.splits)

lemma do_act_holding:
  assumes "holding_ok st (M, v, s) base h (wo_memory w)" "a \<noteq> KeepsEnvelope"
  shows "\<exists>h' g' w'. do_act debug st M a (h, g, w) = Inr (h', g', w') \<and> wo_envelopes w' = wo_envelopes w \<and>
    holding_ok st (M, v, s) base h' (wo_memory w') \<and> accounts (M, v, s) (h, g, w) (h', g', w')"
proof (cases a)
  case ReadsMessage
  show ?thesis
  proof (cases h)
    case (HoldsContext c)
    with assms have "payload_unchecked debug st M (hc_envelope c) (wo_memory w) = Inr v"
      by (intro payload_unchecked_holds [of st _ _ M v s]) (simp add: holding_ok_def)
    with ReadsMessage HoldsContext assms show ?thesis
      by (simp add: accounts_def spent_def gone_objs_def handler_context_message_def subset_insertI)
  next
    case (HoldsParts mv ms)
    with ReadsMessage assms show ?thesis
      by (cases mv) (auto simp: holding_ok_def accounts_def spent_def gone_objs_def)
  qed (use ReadsMessage assms in simp)
next
  case IntoParts
  show ?thesis
  proof (cases h)
    case (HoldsContext c)
    with assms obtain m' ps where out: "unwrap_unchecked debug st M (hc_envelope c) (wo_memory w) = Inr ((v, s), m')"
        "frees ps (wo_memory w) m'" "set ps = set (envelope_boxes (hc_envelope c))" "me_dropped m' = me_dropped (wo_memory w)"
      using unwrap_unchecked_holds [of st "wo_memory w" "hc_envelope c" M v s debug] by (auto simp: holding_ok_def)
    with IntoParts HoldsContext assms frees_base [OF out(2,3)] show ?thesis
      by (simp add: holding_ok_def accounts_def spent_def gone_objs_def handler_context_into_parts_def letter_objs_mset subset_insertI)
  qed (use IntoParts assms in auto)
next
  case (UnwrapAs t)
  show ?thesis
  proof (cases h)
    case (HoldsEnvelope e)
    show ?thesis
    proof (cases "t = M")
      case True
      from HoldsEnvelope assms obtain m' ps where out: "unwrap_envelope debug st M e (wo_memory w) = Inr (Some (v, s), m')"
          "frees ps (wo_memory w) m'" "set ps = set (envelope_boxes e)" "me_dropped m' = me_dropped (wo_memory w)"
        using unwrap_holds(2) [of st "wo_memory w" e M v s debug] by (auto simp: holding_ok_def)
      with UnwrapAs True HoldsEnvelope assms frees_base [OF out(2,3)] show ?thesis
        by (simp add: holding_ok_def accounts_def spent_def gone_objs_def letter_objs_mset subset_insertI)
    next
      case False
      with UnwrapAs HoldsEnvelope assms unwrap_holds(1) [of st "wo_memory w" e M v s t debug] show ?thesis
        by (simp add: holding_ok_def accounts_def spent_def gone_objs_def subset_insertI)
    qed
  qed (use UnwrapAs assms in auto)
next
  case Answers
  show ?thesis
  proof (cases h)
    case (HoldsParts mv ms)
    with Answers assms show ?thesis
      by (cases ms) (simp_all add: holding_ok_def accounts_def spent_def gone_objs_def subset_insertI)
  qed (use Answers assms in simp_all)
next
  case KeepsMessage
  show ?thesis
  proof (cases h)
    case (HoldsParts mv ms)
    with KeepsMessage assms show ?thesis
      by (cases mv) (simp_all add: holding_ok_def accounts_def spent_def gone_objs_def subset_insertI)
  qed (use KeepsMessage assms in simp_all)
next
  case KeepsSender
  show ?thesis
  proof (cases h)
    case (HoldsParts mv ms)
    with KeepsSender assms show ?thesis
      by (cases ms) (simp_all add: holding_ok_def accounts_def spent_def gone_objs_def subset_insertI)
  qed (use KeepsSender assms in simp_all)
next
  case IntoEnvelope
  with assms show ?thesis
    by (cases h)
      (simp_all add: holding_ok_def accounts_def spent_def gone_objs_def into_parts_with_envelope_def subset_insertI)
next
  case DropsMessage
  with assms show ?thesis
    by (cases h) (simp_all add: holding_ok_def accounts_def spent_def gone_objs_def subset_insertI)
next
  case DropsSender
  with assms show ?thesis
    by (cases h) (simp_all add: holding_ok_def accounts_def spent_def gone_objs_def subset_insertI)
next
  case DropsGuard
  with assms show ?thesis by (cases h) (auto simp: accounts_def spent_def gone_objs_def)
qed (use assms in \<open>simp_all add: accounts_def spent_def gone_objs_def subset_insertI\<close>)

lemma do_act_empty:
  "\<exists>g' w'. do_act debug st M a (HoldsParts None None, g, w) = Inr (HoldsParts None None, g', w') \<and>
    wo_memory w' = wo_memory w \<and> wo_envelopes w' = wo_envelopes w \<and>
    accounts l (HoldsParts None None, g, w) (HoldsParts None None, g', w')"
  by (cases a) (auto simp: accounts_def spent_def gone_objs_def drop_obj_def)

lemma do_act_accounts:
  assumes "holder_ok st (M, v, s) base E h w"
  shows "\<exists>h' g' w'. do_act debug st M a (h, g, w) = Inr (h', g', w') \<and>
    holder_ok st (M, v, s) base E h' w' \<and> accounts (M, v, s) (h, g, w) (h', g', w')"
proof (cases "h = HoldsParts None None")
  case True
  with do_act_empty [of debug st M a g w "(M, v, s)"] assms show ?thesis
    by (auto simp: holder_ok_def)
next
  case False
  with assms have here: "wo_envelopes w = E" "holding_ok st (M, v, s) base h (wo_memory w)"
    by (simp_all add: holder_ok_def)
  show ?thesis
  proof (cases "a = KeepsEnvelope")
    case True
    with here show ?thesis
      by (cases h) (simp_all add: holder_ok_def accounts_def spent_def gone_objs_def subset_insertI)
  next
    case False
    with do_act_holding [OF here(2), of a debug g] here(1) show ?thesis by (auto simp: holder_ok_def)
  qed
qed

lemma drop_holding_accounts:
  assumes "holding_ok st l base h m"
  shows "\<exists>m'. drop_holding st h m = Inr m' \<and> me_boxes m' = base \<and>
    mset (me_dropped m') = mset (me_dropped m) + holding_objs l h"
proof -
  obtain M v s where l: "l = (M, v, s)" by (cases l)
  have envelope: "\<exists>m'. envelope_drop st e m = Inr m' \<and>
      me_boxes m' = (\<lambda>p. if p \<in> set (envelope_boxes e) then None else me_boxes m p) \<and>
      mset (me_dropped m') = mset (me_dropped m) + mset (letter_objs l)"
    if "envelope_holds st (me_boxes m) e l" "distinct (envelope_boxes e)" for e
  proof -
    from that l obtain m' ps where m': "envelope_drop st e m = Inr m'" "frees ps m m'"
        "set ps = set (envelope_boxes e)" "me_dropped m' = me_dropped m @ letter_objs l"
      using envelope_drop_holds by blast
    with frees_base [OF m'(2,3)] show ?thesis by simp
  qed
  show ?thesis
  proof (cases h)
    case (HoldsContext c)
    with envelope [of "hc_envelope c"] assms show ?thesis by (auto simp: holding_ok_def drop_holding_def)
  next
    case (HoldsEnvelope e)
    with envelope [of e] assms show ?thesis by (auto simp: holding_ok_def drop_holding_def)
  next
    case (HoldsParts mv ms)
    with assms show ?thesis by (simp add: holding_ok_def drop_holding_def)
  qed
qed

text \<open>The same for a work, between polls.\<close>

definition work_ok :: "statics \<Rightarrow> letter \<Rightarrow> (nat \<rightharpoonup> obj) \<Rightarrow> MessageEnvelope list \<Rightarrow> 'e work_state \<Rightarrow> 'e world \<Rightarrow> bool" where
  "work_ok st l base E ws w \<longleftrightarrow>
     (case ws of
        Acquiring cx \<Rightarrow> wo_envelopes w = E \<and> holding_ok st l base (HoldsEnvelope (cx_envelope cx)) (wo_memory w)
      | InHandler frame as h g \<Rightarrow> holder_ok st l base E h w
      | Resolved \<Rightarrow> holder_ok st l base E (HoldsParts None None) w)"

lemma work_ok_frame [simp]: "work_ok st l base E ws (w\<lparr>wo_frame := f\<rparr>) = work_ok st l base E ws w"
  by (simp add: work_ok_def cong: work_state.case_cong)

fun work_objs :: "letter \<Rightarrow> 'e work_state \<Rightarrow> obj multiset" where
  "work_objs l (Acquiring cx) = mset (letter_objs l)"
| "work_objs l (InHandler frame as h g) = holding_objs l h"
| "work_objs l Resolved = {#}"

fun work_guard :: "'e work_state \<Rightarrow> int" where
  "work_guard (InHandler frame as h g) = of_bool g"
| "work_guard _ = 0"

definition work_accounts :: "letter \<Rightarrow> 'e work_state \<times> 'e world \<Rightarrow> 'e work_state \<times> 'e world \<Rightarrow> bool" where
  "work_accounts l x y \<longleftrightarrow>
     (case (x, y) of ((ws, w), (ws', w')) \<Rightarrow>
        spent l w' + work_objs l ws' = spent l w + work_objs l ws \<and>
        wo_guards w' - work_guard ws' = wo_guards w - work_guard ws \<and>
        set (wo_seen w') \<subseteq> insert (fst (snd l)) (set (wo_seen w)))"

lemma work_accounts_trans: "work_accounts l x y \<Longrightarrow> work_accounts l y z \<Longrightarrow> work_accounts l x z"
  by (auto simp: work_accounts_def split: prod.splits)

lemma work_accounts_frame [simp]:
  "work_accounts l (ws, w\<lparr>wo_frame := f\<rparr>) y = work_accounts l (ws, w) y"
  "work_accounts l x (ws, w\<lparr>wo_frame := f\<rparr>) = work_accounts l x (ws, w)"
  "work_accounts l (ws, w\<lparr>wo_shared := sh\<rparr>) y = work_accounts l (ws, w) y"
  by (simp_all add: work_accounts_def split: prod.splits)

lemma drop_handler_accounts:
  assumes "holder_ok st l base E h w"
  shows "\<exists>w'. drop_handler st h g w = Inr w' \<and> work_ok st l base E Resolved w' \<and>
    work_accounts l (InHandler frame as h g, w) (Resolved, w')"
proof (cases "h = HoldsParts None None")
  case True
  with assms show ?thesis
    by (simp add: drop_handler_def drop_holding_def drop_obj_def work_ok_def work_accounts_def spent_def gone_objs_def
        subset_insertI)
next
  case False
  with assms have here: "wo_envelopes w = E" "holding_ok st l base h (wo_memory w)" by (simp_all add: holder_ok_def)
  from drop_holding_accounts [OF here(2)] obtain m' where m': "drop_holding st h (wo_memory w) = Inr m'"
      "me_boxes m' = base" "mset (me_dropped m') = mset (me_dropped (wo_memory w)) + holding_objs l h"
    by blast
  have "holding_ok st l base (HoldsParts None None) m'" using m'(2) by (simp add: holding_ok_def)
  with m' here(1) show ?thesis
    by (simp add: drop_handler_def work_ok_def holder_ok_def work_accounts_def spent_def gone_objs_def subset_insertI)
qed

lemma run_handler_Cons:
  "run_handler debug st M frame (a # as) (h, g, w) =
     (case a of
        PanicsWith p \<Rightarrow> and_then (drop_handler st h g w) (\<lambda>w'. Inr (WorkDone (Some p), Resolved, w'))
      | Awaits \<Rightarrow> Inr (WorkPending, InHandler frame as h g, w)
      | _ \<Rightarrow> and_then (do_act debug st M a (h, g, w)) (run_handler debug st M frame as))"
  by (cases a) simp_all

lemma run_producer_Cons:
  "run_producer debug st M (a # as) (h, g, w) =
     (case a of
        PanicsWith p \<Rightarrow> and_then (drop_handler st h g w) (\<lambda>w'. Inr (Some p, HoldsParts None None, False, w'))
      | Awaits \<Rightarrow> run_producer debug st M as (h, g, w)
      | _ \<Rightarrow> and_then (do_act debug st M a (h, g, w)) (run_producer debug st M as))"
  by (cases a) simp_all

definition polls_to :: "statics \<Rightarrow> letter \<Rightarrow> (nat \<rightharpoonup> obj) \<Rightarrow> MessageEnvelope list \<Rightarrow> 'e work_state \<times> 'e world \<Rightarrow>
    (ub, work_poll \<times> 'e work_state \<times> 'e world) outcome \<Rightarrow> bool" where
  "polls_to st l base E x result \<longleftrightarrow>
     (\<exists>r ws' w'. result = Inr (r, ws', w') \<and> work_ok st l base E ws' w' \<and> (r = WorkPending \<longleftrightarrow> ws' \<noteq> Resolved) \<and>
        work_accounts l x (ws', w'))"

lemma polls_to_trans: "work_accounts l x y \<Longrightarrow> polls_to st l base E y result \<Longrightarrow> polls_to st l base E x result"
  unfolding polls_to_def by (blast intro: work_accounts_trans)

lemma accounts_in_handler:
  "accounts l (h, g, w) (h', g', w') \<Longrightarrow>
     work_accounts l (InHandler frame as h g, w) (InHandler frame' as' h' g', w')"
  by (simp add: accounts_def work_accounts_def)

lemma drop_polls_to:
  assumes "holder_ok st l base E h w"
  shows "polls_to st l base E (InHandler frame as h g, w)
    (and_then (drop_handler st h g w) (\<lambda>w'. Inr (WorkDone r, Resolved, w')))"
  using drop_handler_accounts [OF assms, of g frame as] by (auto simp: polls_to_def)

lemma run_handler_polls_to:
  assumes "holder_ok st (M, v, s) base E h w"
  shows "polls_to st (M, v, s) base E (InHandler frame as h g, w) (run_handler debug st M frame as (h, g, w))"
  using assms
proof (induction as arbitrary: h g w)
  case Nil
  then show ?case by (simp add: drop_polls_to)
next
  case (Cons a as)
  obtain h' g' w' where act: "do_act debug st M a (h, g, w) = Inr (h', g', w')"
      "holder_ok st (M, v, s) base E h' w'" "accounts (M, v, s) (h, g, w) (h', g', w')"
    using do_act_accounts [OF Cons.prems] by blast
  have "polls_to st (M, v, s) base E (InHandler frame (a # as) h g, w) (run_handler debug st M frame as (h', g', w'))"
    by (rule polls_to_trans [OF accounts_in_handler [OF act(3)] Cons.IH [OF act(2)]])
  then show ?case
    using act(1) Cons.prems
    by (cases a) (simp_all add: run_handler_Cons drop_polls_to polls_to_def [of _ _ _ _ _ "Inr _"] work_ok_def
        work_accounts_def subset_insertI)
qed

lemma framed_handler_polls_to:
  assumes "holder_ok st l base E h w" "fst l = M"
  shows "polls_to st l base E (InHandler frame as h g, w)
    (with_frame frame (\<lambda>w. run_handler debug st M frame as (h, g, w)) w)"
proof -
  obtain v s where l: "l = (M, v, s)" using assms(2) by (cases l) auto
  let ?w = "w\<lparr>wo_frame := frame\<rparr>"
  from assms(1) l have "holder_ok st (M, v, s) base E h ?w" by simp
  from run_handler_polls_to [OF this, of frame as g debug] l obtain r ws' w' where
    "run_handler debug st M frame as (h, g, ?w) = Inr (r, ws', w')" "work_ok st l base E ws' w'"
      "(r = WorkPending) = (ws' \<noteq> Resolved)" "work_accounts l (InHandler frame as h g, ?w) (ws', w')"
    by (auto simp: polls_to_def)
  then show ?thesis by (simp add: polls_to_def with_frame_def)
qed

text \<open>The producer, which panics with nothing left in hand, or hands what it holds to the future.\<close>

lemma run_producer_accounts:
  assumes "holder_ok st (M, v, s) base E h w"
  shows "\<exists>panicked h' g' w'. run_producer debug st M as (h, g, w) = Inr (panicked, h', g', w') \<and>
    holder_ok st (M, v, s) base E h' w' \<and> accounts (M, v, s) (h, g, w) (h', g', w') \<and>
    (panicked \<noteq> None \<longrightarrow> h' = HoldsParts None None \<and> \<not> g')"
  using assms
proof (induction as arbitrary: h g w)
  case (Cons a as)
  obtain h' g' w' where act: "do_act debug st M a (h, g, w) = Inr (h', g', w')"
      "holder_ok st (M, v, s) base E h' w'" "accounts (M, v, s) (h, g, w) (h', g', w')"
    using do_act_accounts [OF Cons.prems] by blast
  show ?case
  proof (cases "(\<exists>p. a = PanicsWith p) \<or> a = Awaits")
    case True
    then show ?thesis
    proof
      assume "\<exists>p. a = PanicsWith p"
      moreover from drop_handler_accounts [OF Cons.prems, of g None "[]"] obtain w1 where
        "drop_handler st h g w = Inr w1" "work_ok st (M, v, s) base E Resolved w1"
        "work_accounts (M, v, s) (InHandler None [] h g, w) (Resolved, w1)" "wo_frame w1 = wo_frame w"
        by (auto simp: drop_handler_def outcome_simps)
      ultimately obtain p where "run_producer debug st M (a # as) (h, g, w) = Inr (Some p, HoldsParts None None, False, w1)"
        "holder_ok st (M, v, s) base E (HoldsParts None None) w1"
        "accounts (M, v, s) (h, g, w) (HoldsParts None None, False, w1)"
        by (auto simp: work_ok_def work_accounts_def accounts_def)
      then show ?thesis by blast
    next
      assume "a = Awaits"
      with Cons.IH [OF Cons.prems] show ?thesis by simp
    qed
  next
    case False
    then have "run_producer debug st M (a # as) (h, g, w) = run_producer debug st M as (h', g', w')"
      using act(1) by (cases a) (simp_all add: run_producer_Cons)
    with Cons.IH [OF act(2), of g'] accounts_trans [OF act(3)] show ?thesis by metis
  qed
qed simp

lemma poll_work_polls_to:
  assumes "work_ok st l base E (ew_state work) w" "ew_state work \<noteq> Resolved" "fst l = ew_message work"
  shows "polls_to st l base E (ew_state work, w) (poll_work debug st code lock work w)"
proof -
  show ?thesis
  proof (cases "ew_state work")
    case (InHandler frame as h g)
    with assms framed_handler_polls_to [of st l base E h w "ew_message work" frame as g debug] show ?thesis
      by (simp add: poll_work_def work_ok_def)
  next
    case (Acquiring cx)
    then have envelope: "holding_ok st l base (HoldsEnvelope (cx_envelope cx)) (wo_memory w)" "wo_envelopes w = E"
      using assms(1) by (simp_all add: work_ok_def)
    show ?thesis
    proof (cases lock)
      case Contended
      with Acquiring assms(1) show ?thesis
        by (simp add: poll_work_def polls_to_def work_accounts_def subset_insertI)
    next
      case (AcquirePanics p)
      with Acquiring envelope(2) drop_holding_accounts [OF envelope(1)] show ?thesis
        by (auto simp: poll_work_def polls_to_def work_accounts_def work_ok_def holder_ok_def holding_ok_def spent_def
            gone_objs_def drop_holding_def)
    next
      case Acquired
      obtain v s where l: "l = (ew_message work, v, s)" using assms(3) by (cases l) auto
      let ?hd = "code (ew_actor work) (ew_message work)"
      let ?w = "w\<lparr>wo_guards := wo_guards w + 1\<rparr>"
      let ?h = "HoldsContext (handler_context_new_unchecked (cx_envelope cx))"
      from envelope l have "holder_ok st (ew_message work, v, s) base E ?h ?w"
        by (simp add: holder_ok_def holding_ok_def handler_context_new_unchecked_def)
      from run_producer_accounts [OF this, of debug "hd_producer ?hd" True] obtain panicked h g w1 where
        produced: "run_producer debug st (ew_message work) (hd_producer ?hd) (?h, True, ?w) = Inr (panicked, h, g, w1)"
          "holder_ok st l base E h w1" "accounts l (?h, True, ?w) (h, g, w1)"
          "panicked \<noteq> None \<longrightarrow> h = HoldsParts None None \<and> \<not> g"
        unfolding l by blast
      have "work_accounts l (ew_state work, w) (InHandler f as ?h True, ?w)" for f as
        using Acquiring by (simp add: work_accounts_def subset_insertI)
      from work_accounts_trans [OF this accounts_in_handler [OF produced(3)]]
      have acc: "work_accounts l (ew_state work, w) (InHandler f as h g, w1)" for f as by blast
      show ?thesis
      proof (cases panicked)
        case (Some p)
        with produced(4) acc [of None "[]"] have "work_accounts l (ew_state work, w) (Resolved, w1)"
          by (simp add: work_accounts_def)
        with produced Some Acquired Acquiring show ?thesis
          by (simp add: poll_work_def polls_to_def work_ok_def Let_def)
      next
        case None
        obtain frame shared where i: "instrument_handler (cx_capture cx) (hd_name ?hd) (capture_dispatch cx)
            (wo_shared w1) = (frame, shared)" by fastforce
        from produced(2) have "holder_ok st l base E h (w1\<lparr>wo_shared := shared\<rparr>)" by simp
        note run = framed_handler_polls_to [OF this assms(3), of frame "hd_acts ?hd" g debug]
        have "work_accounts l (ew_state work, w) (InHandler frame (hd_acts ?hd) h g, w1\<lparr>wo_shared := shared\<rparr>)"
          using acc [of frame "hd_acts ?hd"] by (simp add: work_accounts_def)
        from polls_to_trans [OF this run] Acquired Acquiring produced(1) None i show ?thesis
          by (simp add: poll_work_def Let_def)
      qed
    qed
  qed (use assms in simp)
qed

lemma drop_work_accounts:
  assumes "work_ok st l base E (ew_state work) w"
  shows "\<exists>w'. drop_work st work w = Inr w' \<and> work_ok st l base E Resolved w' \<and>
    work_accounts l (ew_state work, w) (Resolved, w')"
proof (cases "ew_state work")
  case (Acquiring cx)
  with assms have envelope: "wo_envelopes w = E" "holding_ok st l base (HoldsEnvelope (cx_envelope cx)) (wo_memory w)"
    by (simp_all add: work_ok_def)
  with Acquiring drop_holding_accounts [OF envelope(2)] show ?thesis
    by (auto simp: work_ok_def holder_ok_def holding_ok_def drop_work_def work_accounts_def spent_def gone_objs_def
        drop_holding_def)
next
  case (InHandler frame as h g)
  with assms drop_handler_accounts [of st l base E h w g frame as] show ?thesis
    by (auto simp: work_ok_def [of _ _ _ _ "InHandler _ _ _ _"] drop_work_def)
next
  case Resolved
  with assms show ?thesis by (simp add: drop_work_def work_accounts_def subset_insertI)
qed

lemma drive_work_accounts:
  assumes "work_ok st l base E (ew_state work) w" "ew_state work \<noteq> Resolved" "fst l = ew_message work"
  shows "\<exists>r w'. drive_work debug st code polls work w = Inr (r, w') \<and> work_ok st l base E Resolved w' \<and>
    work_accounts l (ew_state work, w) (Resolved, w')"
  using assms
proof (induction debug st code polls work w rule: drive_work.induct)
  case (1 debug st code work w)
  then show ?case using drop_work_accounts [of st l base E work w] by auto
next
  case (2 debug st code frame lock polls work w)
  let ?w = "w\<lparr>wo_frame := frame\<rparr>"
  have ok: "work_ok st l base E (ew_state work) ?w" using 2(2) by simp
  from poll_work_polls_to [OF ok 2(3,4), of debug code lock] obtain r ws' w' where
    poll: "poll_work debug st code lock work ?w = Inr (r, ws', w')" "work_ok st l base E ws' w'"
      "(r = WorkPending) = (ws' \<noteq> Resolved)" "work_accounts l (ew_state work, ?w) (ws', w')"
    by (auto simp: polls_to_def)
  from poll(4) have acc: "work_accounts l (ew_state work, w) (ws', w')" by simp
  show ?case
  proof (cases r)
    case WorkPending
    with poll(3) have "ws' \<noteq> Resolved" by simp
    with 2(1) [OF poll(1) refl refl WorkPending] poll(2) 2(4) obtain r2 w2 where
      rest: "drive_work debug st code polls (work\<lparr>ew_state := ws'\<rparr>) w' = Inr (r2, w2)"
        "work_ok st l base E Resolved w2" "work_accounts l (ws', w') (Resolved, w2)"
      by auto
    with poll(1) WorkPending work_accounts_trans [OF acc rest(3)] show ?thesis by simp
  next
    case (WorkDone p)
    with poll acc show ?thesis by simp
  qed
qed


text \<open>The heap under a fresh envelope is the heap before it.\<close>

lemma new_envelope_base:
  assumes "envelope_new st M v s m = (e, m')" "memory_ok m" "envelope_act_ok st (NewEnvelope M v s)"
  shows "holding_ok st (M, v, s) (me_boxes m) (HoldsEnvelope e) m'" "me_dropped m' = me_dropped m"
proof -
  have types: "aligned M" "ob_type v = bt_type (mr_message_info (st M))"
    "\<forall>r. s = Some r \<longrightarrow> ob_type r = bt_type (mr_answer_sender_info (st M))"
    using assms(3) by auto
  note new = envelope_new_holds [OF assms(1,2) types]
  have "me_boxes m p = (if p \<in> set (envelope_boxes e) then None else me_boxes m' p)" for p
  proof (cases "p \<in> dom (me_boxes m)")
    case True
    with new(4) have "p \<notin> set (envelope_boxes e)" by blast
    with True new(6) show ?thesis by simp
  next
    case False
    with new(3) have "p \<notin> set (envelope_boxes e) \<Longrightarrow> p \<notin> dom (me_boxes m')" by blast
    with False show ?thesis by (simp add: domIff)
  qed
  then have "me_boxes m = (\<lambda>p. if p \<in> set (envelope_boxes e) then None else me_boxes m' p)" by blast
  with new(1,5) show "holding_ok st (M, v, s) (me_boxes m) (HoldsEnvelope e) m'" by (simp add: holding_ok_def)
  show "me_dropped m' = me_dropped m" by (rule new(7))
qed

lemma work_onto_own_loop:
  assumes "message_with st A sender M v s m = (msg, m')"
  obtains e where "envelope_new st M v s m = (e, m')"
    "work_onto_loop A msg = Inr \<lparr>ew_actor = A, ew_message = M, ew_state = Acquiring (context_of sender e)\<rparr>"
  using assms
  by (auto simp: message_with_def work_onto_loop_def invoke_dispatcher_def static_dispatcher_def split: prod.splits)

section \<open>What the work does to the actor\<close>

text \<open>The calls of a handler on the context of its actor, and the work of \<open>Run_Loop\<close> that it is.\<close>

fun asks :: "'e handler_act \<Rightarrow> 'e user_act list" where
  "asks Stops = [AskStop]"
| "asks (Fails e) = [FailWith e]"
| "asks Awaits = [Yields]"
| "asks _ = []"

text \<open>The part of a producer that runs, and the panic it ends with.\<close>

fun sync_acts :: "'e handler_act list \<Rightarrow> 'e handler_act list" where
  "sync_acts [] = []"
| "sync_acts (PanicsWith p # as) = []"
| "sync_acts (a # as) = a # sync_acts as"

fun sync_panic :: "'e handler_act list \<Rightarrow> payload option" where
  "sync_panic [] = None"
| "sync_panic (PanicsWith p # as) = Some p"
| "sync_panic (a # as) = sync_panic as"

definition sync_calls :: "'e handler_act list \<Rightarrow> 'e SharedActorState \<Rightarrow> 'e SharedActorState" where
  "sync_calls as s = fold user_call (concat (map asks (sync_acts as))) s"

fun job_work :: "'e handler_act list \<Rightarrow> 'e work" where
  "job_work [] = \<lparr>wk_acts = [], wk_panics = None\<rparr>"
| "job_work (PanicsWith p # as) = \<lparr>wk_acts = [], wk_panics = Some p\<rparr>"
| "job_work (a # as) = (job_work as)\<lparr>wk_acts := asks a @ wk_acts (job_work as)\<rparr>"

fun job_run :: "nat \<Rightarrow> ('p, 'e) job \<Rightarrow> 'e SharedActorState \<Rightarrow> ('p, 'e) job_poll \<times> 'e SharedActorState" where
  "job_run 0 j s = (GoesOn j, s)"
| "job_run (Suc n) j s =
     (case job_step j s of
        (GoesOn j', s') \<Rightarrow> job_run n j' s'
      | (JobDone r, s') \<Rightarrow> (JobDone r, s'))"

definition job_message :: "string \<Rightarrow> DispatchedActorMessageContext \<Rightarrow> 'p \<Rightarrow> 'p message" where
  "job_message name cx body =
     \<lparr>me_body = body, me_type = name, me_dispatch = envelope_type (envelope_ty (cx_envelope cx)),
      me_stamp = cx_capture cx\<rparr>"

definition job_reaches :: "('p, 'e) job \<times> 'e SharedActorState \<Rightarrow> ('p, 'e) job_poll \<times> 'e SharedActorState \<Rightarrow> bool" where
  "job_reaches x y \<longleftrightarrow> (\<exists>n. job_run n (fst x) (snd x) = y)"

lemma job_run_append: "job_run n j s = (GoesOn j', s') \<Longrightarrow> job_run (n + k) j s = job_run k j' s'"
  by (induction n j s rule: job_run.induct) (auto split: prod.splits job_poll.splits)

lemma job_reaches_refl: "job_reaches (j, s) (GoesOn j, s)"
  unfolding job_reaches_def by (rule exI [of _ 0]) simp

lemma job_reaches_trans: "job_reaches x (GoesOn j, s) \<Longrightarrow> job_reaches (j, s) y \<Longrightarrow> job_reaches x y"
  unfolding job_reaches_def using job_run_append by fastforce

lemma job_reaches_step: "job_step j s = y \<Longrightarrow> job_reaches (j, s) y"
  unfolding job_reaches_def by (rule exI [of _ 1]) (auto split: prod.splits job_poll.splits)

lemma job_asks:
  "job_reaches (JobRunning (w\<lparr>wk_acts := us @ as\<rparr>), s) (GoesOn (JobRunning (w\<lparr>wk_acts := as\<rparr>)), fold user_call us s)"
proof (induction us arbitrary: s)
  case Nil
  show ?case by (simp add: job_reaches_refl)
next
  case (Cons u us)
  have "job_reaches (JobRunning (w\<lparr>wk_acts := (u # us) @ as\<rparr>), s)
      (GoesOn (JobRunning (w\<lparr>wk_acts := us @ as\<rparr>)), user_call u s)"
    by (rule job_reaches_step) simp
  from job_reaches_trans [OF this Cons.IH] show ?case by simp
qed

lemma job_work_Cons: "\<forall>p. a \<noteq> PanicsWith p \<Longrightarrow> job_work (a # as) = (job_work as)\<lparr>wk_acts := asks a @ wk_acts (job_work as)\<rparr>"
  by (cases a) auto

text \<open>What an act does to the actor and to what the handler sends.\<close>

lemma do_act_effects:
  assumes "do_act debug st M a (h, g, w) = Inr (h', g', w')"
  shows "wo_shared w' = fold user_call (asks a) (wo_shared w)"
    "wo_frame w' = wo_frame w"
    "wo_sent w' = wo_sent w @ replicate (count_list [a] SendsOn) (current_stamp (wo_frame w))"
proof -
  have "wo_shared w' = fold user_call (asks a) (wo_shared w) \<and>
    wo_frame w' = wo_frame w \<and>
    wo_sent w' = wo_sent w @ replicate (count_list [a] SendsOn) (current_stamp (wo_frame w))"
    using assms
    by (cases a) (auto simp: outcome_simps split: holding.splits option.splits)
  then show "wo_shared w' = fold user_call (asks a) (wo_shared w)"
    "wo_frame w' = wo_frame w"
    "wo_sent w' = wo_sent w @ replicate (count_list [a] SendsOn) (current_stamp (wo_frame w))"
    by blast+
qed

lemma drop_handler_effects:
  "drop_handler st h g w = Inr w' \<Longrightarrow> wo_shared w' = wo_shared w \<and> wo_sent w' = wo_sent w"
  by (auto simp: drop_handler_def outcome_simps)

text \<open>What a producer does: its sends carry the stamp of the polling thread, and nothing is captured.\<close>

lemma run_producer_effects:
  assumes "run_producer debug st M as (h, g, w) = Inr (panicked, h', g', w')"
  shows "panicked = sync_panic as \<and> wo_shared w' = sync_calls as (wo_shared w) \<and>
    wo_sent w' = wo_sent w @ replicate (count_list (sync_acts as) SendsOn) (current_stamp (wo_frame w))"
  using assms
proof (induction as arbitrary: h g w)
  case Nil
  then show ?case by (simp add: sync_calls_def)
next
  case (Cons a as)
  show ?case
  proof (cases "(\<exists>p. a = PanicsWith p) \<or> a = Awaits")
    case True
    then show ?thesis
    proof
      assume "\<exists>p. a = PanicsWith p"
      with Cons.prems show ?thesis
        by (auto simp: sync_calls_def outcome_simps dest!: drop_handler_effects)
    next
      assume "a = Awaits"
      with Cons.IH [of h g w] Cons.prems show ?thesis by (simp add: sync_calls_def)
    qed
  next
    case False
    with Cons.prems obtain h1 g1 w1 where act: "do_act debug st M a (h, g, w) = Inr (h1, g1, w1)"
        "run_producer debug st M as (h1, g1, w1) = Inr (panicked, h', g', w')"
      by (cases a) (auto simp: run_producer_Cons outcome_simps)
    from False have "sync_panic (a # as) = sync_panic as" "sync_acts (a # as) = a # sync_acts as"
      by (cases a; simp)+
    with Cons.IH [OF act(2)] do_act_effects [OF act(1)] show ?thesis
      by (simp add: sync_calls_def flip: replicate_add)
  qed
qed

text \<open>The calls of a producer leave what the capture of a delivery uses alone.\<close>

lemma sync_calls_capture:
  "captures (ss_log (sync_calls as s)) = captures (ss_log s)" "ss_id (sync_calls as s) = ss_id s"
  "ss_capture_seq (sync_calls as s) = ss_capture_seq s" "ss_capture_sink (sync_calls as s) = ss_capture_sink s"
proof -
  have "captures (ss_log (fold user_call us s)) = captures (ss_log s) \<and> ss_id (fold user_call us s) = ss_id s \<and>
    ss_capture_seq (fold user_call us s) = ss_capture_seq s \<and> ss_capture_sink (fold user_call us s) = ss_capture_sink s"
    for us
    by (induction us arbitrary: s) simp_all
  then show "captures (ss_log (sync_calls as s)) = captures (ss_log s)" "ss_id (sync_calls as s) = ss_id s"
    "ss_capture_seq (sync_calls as s) = ss_capture_seq s" "ss_capture_sink (sync_calls as s) = ss_capture_sink s"
    by (simp_all add: sync_calls_def)
qed

text \<open>How a poll, or the whole drive, of a handler ends, against the job.\<close>

definition job_result :: "payload option option \<Rightarrow> ('p, 'e) job_poll \<Rightarrow> bool" where
  "job_result r y \<longleftrightarrow>
     (case r of Some p \<Rightarrow> y = JobDone (map_option from_unwind_payload p) | None \<Rightarrow> \<exists>j. y = GoesOn j)"

definition sends_as :: "CaptureStamp \<Rightarrow> 'e world \<Rightarrow> 'e world \<Rightarrow> bool" where
  "sends_as stamp w w' \<longleftrightarrow> (\<exists>n. wo_sent w' = wo_sent w @ replicate n stamp)"

lemma sends_as_refl: "wo_sent w' = wo_sent w \<Longrightarrow> sends_as stamp w w'"
  unfolding sends_as_def by (rule exI [of _ 0]) simp

lemma sends_as_trans: "sends_as stamp w w' \<Longrightarrow> sends_as stamp w' w'' \<Longrightarrow> sends_as stamp w w''"
  unfolding sends_as_def by (metis append.assoc replicate_add)

definition handled_as :: "'p itself \<Rightarrow> CaptureFrame option \<Rightarrow> 'e handler_act list \<Rightarrow> 'e world \<Rightarrow> work_poll \<Rightarrow>
    'e work_state \<Rightarrow> 'e world \<Rightarrow> bool" where
  "handled_as p frame as w r ws' w' \<longleftrightarrow>
     sends_as (current_stamp frame) w w' \<and>
     (case r of
        WorkDone p \<Rightarrow> job_reaches (JobRunning (job_work as) :: ('p, 'e) job, wo_shared w)
          (JobDone (map_option from_unwind_payload p), wo_shared w')
      | WorkPending \<Rightarrow> (\<exists>as' h' g'. ws' = InHandler frame as' h' g' \<and>
          job_reaches (JobRunning (job_work as) :: ('p, 'e) job, wo_shared w)
            (GoesOn (JobRunning (job_work as')), wo_shared w')))"

lemma handled_as_frame [simp]:
  "handled_as p frame as (w\<lparr>wo_frame := f\<rparr>) r ws' w' = handled_as p frame as w r ws' w'"
  "handled_as p frame as w r ws' (w'\<lparr>wo_frame := f\<rparr>) = handled_as p frame as w r ws' w'"
  by (cases r; simp add: handled_as_def sends_as_def)+

lemma handled_as_after:
  assumes "handled_as p frame as w1 r ws' w'" "sends_as (current_stamp frame) w w1"
    "\<forall>p. a \<noteq> PanicsWith p" "wo_shared w1 = fold user_call (asks a) (wo_shared w)"
  shows "handled_as p frame (a # as) w r ws' w'"
proof -
  have "job_reaches (JobRunning (job_work (a # as)), wo_shared w) (GoesOn (JobRunning (job_work as)), wo_shared w1)"
    using job_asks [where w = "job_work as" and us = "asks a" and as = "wk_acts (job_work as)" and s = "wo_shared w"]
      assms(3,4)
    by (simp add: job_work_Cons)
  note via = job_reaches_trans [OF this]
  show ?thesis
    using assms(1) sends_as_trans [OF assms(2)]
    by (auto simp: handled_as_def intro!: via split: work_poll.splits)
qed

lemma run_handler_effects:
  assumes "run_handler debug st M frame as (h, g, w) = Inr (r, ws', w')" "wo_frame w = frame"
  shows "handled_as p frame as w r ws' w'"
  using assms
proof (induction as arbitrary: h g w)
  case Nil
  then show ?case
    by (auto simp: handled_as_def outcome_simps dest!: drop_handler_effects intro!: sends_as_refl job_reaches_step)
next
  case (Cons a as)
  show ?case
  proof (cases "\<exists>p. a = PanicsWith p")
    case True
    with Cons.prems show ?thesis
      by (auto simp: handled_as_def outcome_simps dest!: drop_handler_effects intro!: sends_as_refl job_reaches_step)
  next
    case no_panic: False
    show ?thesis
    proof (cases "a = Awaits")
      case True
      have "handled_as p frame as w WorkPending (InHandler frame as h g) w"
        by (simp add: handled_as_def sends_as_refl job_reaches_refl)
      from handled_as_after [OF this, of w a] True Cons.prems show ?thesis
        by (simp add: sends_as_refl)
    next
      case False
      with no_panic Cons.prems(1) obtain h1 g1 w1 where act: "do_act debug st M a (h, g, w) = Inr (h1, g1, w1)"
          "run_handler debug st M frame as (h1, g1, w1) = Inr (r, ws', w')"
        by (cases a) (auto simp: run_handler_Cons outcome_simps)
      note effects = do_act_effects [OF act(1)]
      from Cons.IH [OF act(2)] effects(2) Cons.prems(2) have "handled_as p frame as w1 r ws' w'" by simp
      from handled_as_after [OF this, of w a] effects no_panic Cons.prems(2) show ?thesis
        by (auto simp: sends_as_def)
    qed
  qed
qed

lemma with_frame_effects:
  assumes "with_frame frame (\<lambda>w. run_handler debug st M frame as (h, g, w)) w = Inr (r, ws', w')"
  shows "handled_as p frame as w r ws' w'"
proof -
  from assms obtain w1 where run: "run_handler debug st M frame as (h, g, w\<lparr>wo_frame := frame\<rparr>) = Inr (r, ws', w1)"
      "w' = w1\<lparr>wo_frame := wo_frame w\<rparr>"
    by (auto simp: with_frame_def outcome_simps)
  from run_handler_effects [OF run(1), of p] run(2) show ?thesis by simp
qed

lemma drive_in_handler:
  assumes "drive_work debug st code polls work w = Inr (r, w')" "ew_state work = InHandler frame as h g"
  shows "sends_as (current_stamp frame) w w' \<and>
    (\<exists>y. job_result r y \<and> job_reaches (JobRunning (job_work as) :: ('p, 'e) job, wo_shared w) (y, wo_shared w'))"
  using assms
proof (induction debug st code polls work w arbitrary: as h g rule: drive_work.induct)
  case (1 debug st code work w)
  then have "wo_shared w' = wo_shared w" "wo_sent w' = wo_sent w" "r = None"
    by (auto simp: drop_work_def outcome_simps dest!: drop_handler_effects)
  then show ?case
    by (auto simp: sends_as_refl job_result_def intro!: exI [of _ "GoesOn (JobRunning (job_work as))"] job_reaches_refl)
next
  case (2 debug st code f lock polls work w)
  obtain r1 ws1 w1 where poll: "poll_work debug st code lock work (w\<lparr>wo_frame := f\<rparr>) = Inr (r1, ws1, w1)"
    using 2(2) by (auto simp: outcome_simps)
  then have "handled_as TYPE('p) frame as w r1 ws1 w1"
    using 2(3) with_frame_effects [of frame debug st "ew_message work" as h g "w\<lparr>wo_frame := f\<rparr>" r1 ws1 w1 "TYPE('p)"]
    by (simp add: poll_work_def)
  note h = this [unfolded handled_as_def]
  show ?case
  proof (cases r1)
    case (WorkDone p)
    with poll 2(2) h show ?thesis by (auto simp: job_result_def)
  next
    case WorkPending
    with h obtain as1 h1 g1 where ws1: "ws1 = InHandler frame as1 h1 g1"
      "job_reaches (JobRunning (job_work as) :: ('p, 'e) job, wo_shared w) (GoesOn (JobRunning (job_work as1)), wo_shared w1)"
      by auto
    from WorkPending poll 2(2) have rest: "drive_work debug st code polls (work\<lparr>ew_state := ws1\<rparr>) w1 = Inr (r, w')" by simp
    from 2(1) [OF poll refl refl WorkPending rest] ws1 h sends_as_trans job_reaches_trans show ?thesis
      by (auto; blast)
  qed
qed


text \<open>The frame of the thread that polls the work when it gets the lock, if it does.\<close>

fun lock_frame :: "(CaptureFrame option \<times> lock_poll) list \<Rightarrow> CaptureFrame option option" where
  "lock_frame [] = None"
| "lock_frame ((f, Acquired) # polls) = Some f"
| "lock_frame ((f, Contended) # polls) = lock_frame polls"
| "lock_frame ((f, AcquirePanics p) # polls) = None"

definition instrumented :: "(u64 \<Rightarrow> u64 \<Rightarrow> 'e handler_code) \<Rightarrow> 'e erased_work \<Rightarrow> DispatchedActorMessageContext \<Rightarrow>
    'e SharedActorState \<Rightarrow> CaptureFrame option \<times> 'e SharedActorState" where
  "instrumented code work cx s =
     instrument_handler (cx_capture cx) (hd_name (code (ew_actor work) (ew_message work))) (capture_dispatch cx) s"

text \<open>
  How a work ends that got the lock on a thread with the frame \<open>f\<close>: with its producer's panic, or, the
  delivery being captured after what the producer did, as its handler ends.
\<close>

definition ends_as :: "'p itself \<Rightarrow> 'e handler_code \<Rightarrow> CaptureFrame option \<Rightarrow>
    CaptureFrame option \<times> 'e SharedActorState \<Rightarrow> 'e world \<Rightarrow> payload option option \<Rightarrow> 'e world \<Rightarrow> bool" where
  "ends_as p code f instr w r w' \<longleftrightarrow>
     (let k = count_list (sync_acts (hd_producer code)) SendsOn in
      case sync_panic (hd_producer code) of
        Some q \<Rightarrow> r = Some (Some q) \<and> wo_shared w' = sync_calls (hd_producer code) (wo_shared w) \<and>
          wo_sent w' = wo_sent w @ replicate k (current_stamp f)
      | None \<Rightarrow>
          (\<exists>n. wo_sent w' = wo_sent w @ replicate k (current_stamp f) @ replicate n (current_stamp (fst instr))) \<and>
          (\<exists>y. job_result r y \<and>
            job_reaches (JobRunning (job_work (hd_acts code)) :: ('p, 'e) job, snd instr) (y, wo_shared w')))"

lemma poll_acquired:
  assumes "poll_work debug st code Acquired work w = Inr (r, ws', w')" "ew_state work = Acquiring cx"
  obtains (panics) p where "sync_panic (hd_producer (code (ew_actor work) (ew_message work))) = Some p"
      "r = WorkDone (Some p)" "wo_shared w' = sync_calls (hd_producer (code (ew_actor work) (ew_message work))) (wo_shared w)"
      "wo_sent w' = wo_sent w @ replicate (count_list (sync_acts (hd_producer (code (ew_actor work) (ew_message work)))) SendsOn)
        (current_stamp (wo_frame w))"
    | (runs) w1 frame shared where "sync_panic (hd_producer (code (ew_actor work) (ew_message work))) = None"
      "instrumented code work cx (sync_calls (hd_producer (code (ew_actor work) (ew_message work))) (wo_shared w)) = (frame, shared)"
      "wo_sent w1 = wo_sent w @ replicate (count_list (sync_acts (hd_producer (code (ew_actor work) (ew_message work)))) SendsOn)
        (current_stamp (wo_frame w))" "wo_shared w1 = shared"
      "handled_as p frame (hd_acts (code (ew_actor work) (ew_message work))) w1 r ws' w'"
proof -
  let ?hd = "code (ew_actor work) (ew_message work)" and ?w = "w\<lparr>wo_guards := wo_guards w + 1\<rparr>"
  from assms obtain panicked h g w1 where run: "run_producer debug st (ew_message work) (hd_producer ?hd)
      (HoldsContext (handler_context_new_unchecked (cx_envelope cx)), True, ?w) = Inr (panicked, h, g, w1)"
    by (auto simp: poll_work_def Let_def outcome_simps)
  from run_producer_effects [OF run] have effects: "panicked = sync_panic (hd_producer ?hd)"
    "wo_shared w1 = sync_calls (hd_producer ?hd) (wo_shared w)"
    "wo_sent w1 = wo_sent w @ replicate (count_list (sync_acts (hd_producer ?hd)) SendsOn) (current_stamp (wo_frame w))"
    by simp_all
  show thesis
  proof (cases panicked)
    case (Some p)
    with assms run have "r = WorkDone (Some p)" "w' = w1" by (simp_all add: poll_work_def Let_def)
    with effects Some show ?thesis by (intro panics [of p]) simp_all
  next
    case None
    obtain frame shared where i: "instrumented code work cx (sync_calls (hd_producer ?hd) (wo_shared w)) = (frame, shared)"
      by fastforce
    let ?w1 = "w1\<lparr>wo_shared := shared\<rparr>"
    from assms run None i effects(2) have "with_frame frame (\<lambda>w. run_handler debug st (ew_message work) frame
        (hd_acts ?hd) (h, g, w)) ?w1 = Inr (r, ws', w')"
      by (simp add: poll_work_def instrumented_def Let_def)
    from with_frame_effects [OF this] have "handled_as p frame (hd_acts ?hd) ?w1 r ws' w'" .
    with effects None i show ?thesis by (intro runs [of frame shared ?w1]) simp_all
  qed
qed

lemma drive_acquiring:
  fixes w w' :: "'e world"
  assumes "drive_work debug st code polls work w = Inr (r, w')" "ew_state work = Acquiring cx"
  shows "case lock_frame polls of
      None \<Rightarrow> wo_shared w' = wo_shared w \<and> wo_sent w' = wo_sent w
    | Some f \<Rightarrow> ends_as TYPE('p) (code (ew_actor work) (ew_message work)) f
        (instrumented code work cx (sync_calls (hd_producer (code (ew_actor work) (ew_message work))) (wo_shared w))) w r w'"
  using assms
proof (induction polls arbitrary: w)
  case Nil
  then show ?case by (auto simp: drop_work_def outcome_simps)
next
  case (Cons poll polls)
  let ?hd = "code (ew_actor work) (ew_message work)"
  obtain f lock where p: "poll = (f, lock)" by (cases poll)
  show ?case
  proof (cases lock)
    case Contended
    have "work\<lparr>ew_state := Acquiring cx\<rparr> = work" using Cons.prems(2) by simp
    with Cons.prems p Contended have "drive_work debug st code polls work (w\<lparr>wo_frame := f\<rparr>) = Inr (r, w')"
      by (simp add: poll_work_def)
    from Cons.IH [OF this Cons.prems(2)] p Contended show ?thesis
      by (simp add: ends_as_def cong: option.case_cong)
  next
    case (AcquirePanics q)
    with Cons.prems p show ?thesis by (auto simp: poll_work_def outcome_simps)
  next
    case Acquired
    obtain r1 ws1 w1 where poll: "poll_work debug st code Acquired work (w\<lparr>wo_frame := f\<rparr>) = Inr (r1, ws1, w1)"
      using Cons.prems(1) p Acquired by (auto simp: outcome_simps)
    from poll Cons.prems(2) show ?thesis
    proof (cases rule: poll_acquired [where p = "TYPE('p)"])
      case (panics q)
      with Cons.prems(1) p Acquired poll show ?thesis by (auto simp: ends_as_def)
    next
      case (runs w2 frame shared)
      note h = runs(5) [unfolded handled_as_def]
      show ?thesis
      proof (cases r1)
        case (WorkDone q)
        with h runs Cons.prems(1) p Acquired poll show ?thesis
          by (auto simp: ends_as_def sends_as_def job_result_def)
      next
        case WorkPending
        with h obtain as1 h1 g1 where ws1: "ws1 = InHandler frame as1 h1 g1"
          "job_reaches (JobRunning (job_work (hd_acts ?hd)) :: ('p, 'e) job, shared) (GoesOn (JobRunning (job_work as1)), wo_shared w1)"
          using runs(4) by auto
        from WorkPending Cons.prems(1) p Acquired poll
        have rest: "drive_work debug st code polls (work\<lparr>ew_state := ws1\<rparr>) w1 = Inr (r, w')" by simp
        have sends: "sends_as (current_stamp frame) w2 w1" using h by simp
        from drive_in_handler [OF rest, of frame as1 h1 g1, where ?'p = 'p] ws1 obtain y where
          rest_out: "sends_as (current_stamp frame) w1 w'" "job_result r y"
            "job_reaches (JobRunning (job_work as1) :: ('p, 'e) job, wo_shared w1) (y, wo_shared w')"
          by auto
        from sends_as_trans [OF sends rest_out(1)] runs(3) have
          "\<exists>n. wo_sent w' = wo_sent w @ replicate (count_list (sync_acts (hd_producer ?hd)) SendsOn) (current_stamp f) @
             replicate n (current_stamp frame)"
          by (auto simp: sends_as_def)
        moreover note job_reaches_trans [OF ws1(2) rest_out(3)] rest_out(2)
        ultimately show ?thesis using runs(1,2) p Acquired by (auto simp: ends_as_def)
      qed
    qed
  qed
qed

lemma job_running_captures:
  "job_run n (JobRunning w) s = (y, s') \<Longrightarrow> captures (ss_log s') = captures (ss_log s)"
proof (induction n arbitrary: w s)
  case (Suc n)
  then show ?case by (cases "wk_acts w") auto
qed simp

text \<open>Every drive of a message built for the loop's own actor returns.\<close>

lemma drive_returns:
  fixes w :: "'e world"
  assumes "message_with st A sender M v s m = (msg, m')" "memory_ok m" "envelope_act_ok st (NewEnvelope M v s)"
    and "wo_memory w = m'"
  obtains work r w' where "work_onto_loop A msg = Inr work" "ew_actor work = A" "ew_message work = M"
    "ew_state work = Acquiring (em_context msg)" "cx_capture (em_context msg) = current_stamp sender"
    "envelope_ty (cx_envelope (em_context msg)) = (if s = None then KindTell else KindAsk)"
    "drive_work debug st code polls work w = Inr (r, w')" "work_ok st (M, v, s) (me_boxes m) (wo_envelopes w) Resolved w'"
    "work_accounts (M, v, s) (Acquiring (em_context msg), w) (Resolved, w')" "me_dropped m' = me_dropped m"
proof -
  from assms(1) obtain e where e: "envelope_new st M v s m = (e, m')"
      "work_onto_loop A msg =
        Inr (\<lparr>ew_actor = A, ew_message = M, ew_state = Acquiring (context_of sender e)\<rparr> :: 'e erased_work)"
    by (rule work_onto_own_loop)
  have msg: "em_context msg = context_of sender e" using assms(1) e(1) by (auto simp: message_with_def)
  note base = new_envelope_base [OF e(1) assms(2,3)]
  let ?work = "\<lparr>ew_actor = A, ew_message = M, ew_state = Acquiring (context_of sender e)\<rparr>"
  have "work_ok st (M, v, s) (me_boxes m) (wo_envelopes w) (ew_state ?work) w"
    using base(1) assms(4) by (simp add: work_ok_def context_of_def)
  from drive_work_accounts [OF this] obtain r w' where d: "drive_work debug st code polls ?work w = Inr (r, w')"
      "work_ok st (M, v, s) (me_boxes m) (wo_envelopes w) Resolved w'"
      "work_accounts (M, v, s) (Acquiring (context_of sender e), w) (Resolved, w')"
    by fastforce
  have "envelope_holds st (me_boxes m') e (M, v, s)" using base(1) by (simp add: holding_ok_def)
  note views = envelope_holds_views [OF this]
  show thesis
    by (rule that [OF e(2)]) (use d msg views base(2) in \<open>simp_all add: context_of_def\<close>)
qed

text \<open>A dispatcher called for another actor's loop casts the context to what it is not.\<close>

lemma foreign_loop_is_undefined:
  "message_with st A sender M v s m = (msg, m') \<Longrightarrow> B \<noteq> A \<Longrightarrow> work_onto_loop B msg = Inl (Error WrongType)"
  by (auto simp: message_with_def work_onto_loop_def invoke_dispatcher_def static_dispatcher_def split: prod.splits)

text \<open>\<open>MessageHandlerContext::new\<close> checks what \<open>new_unchecked\<close> trusts.\<close>

lemma handler_context_new_checks:
  "envelope_holds st boxes e (t, v, s) \<Longrightarrow>
     handler_context_new M e = (if t = M then Inr (handler_context_new_unchecked e) else Inl e)"
  using envelope_holds_views(1) by (simp add: handler_context_new_def)

text \<open>
  A handler that sends before and after an await, keeps the sender of the answer and then fails; its producer
  sends too. And one that keeps the envelope to forward it.
\<close>

definition sample_code :: "u64 \<Rightarrow> u64 \<Rightarrow> string handler_code" where
  "sample_code A M = \<lparr>hd_name = ''Ping'', hd_producer = [SendsOn],
     hd_acts = [ReadsMessage, Awaits, SendsOn, IntoParts, KeepsSender, Stops, Awaits, Fails ''late'']\<rparr>"

definition relay_code :: "u64 \<Rightarrow> u64 \<Rightarrow> string handler_code" where
  "relay_code A M = \<lparr>hd_name = ''Ping'', hd_producer = [], hd_acts = [IntoEnvelope, KeepsEnvelope, SendsOn]\<rparr>"

definition sample_world :: "memory \<Rightarrow> string world" where
  "sample_world m = \<lparr>wo_memory = m, wo_shared = shared_new 7 ''Server'' True, wo_frame = None, wo_guards = 0,
     wo_seen = [], wo_answered = [], wo_moved = [], wo_envelopes = [], wo_sent = []\<rparr>"

abbreviation sample_message :: "enveloped_message \<times> memory" where
  "sample_message \<equiv> message_with sample_statics 3 (Some \<lparr>cf_actor = 5, cf_handling = None\<rparr>) 16
     (sample_obj 16 0) (Some (sample_obj 1 1)) (po_memory office_new)"

lemma sample_message_ok:
  "memory_ok (po_memory office_new)"
  "envelope_act_ok sample_statics (NewEnvelope 16 (sample_obj 16 0) (Some (sample_obj 1 1)))"
  by (simp_all add: sample_statics_def aligned_def memory_ok_def office_new_def)

abbreviation sample_polls :: "(CaptureFrame option \<times> lock_poll) list" where
  "sample_polls \<equiv> [(None, Contended), (Some \<lparr>cf_actor = 9, cf_handling = None\<rparr>, Acquired), (None, Contended)]"

section \<open>The properties\<close>

text \<open>C37: a message dispatched onto the loop of the actor type it was built for is never read as what it is not, and
  is accounted for whatever the handler does with it and however the work is polled, also when acquiring the
  lock, the producer or the handler panics, and when the work is dropped before it is done. Every guard
  taken is released, what the handler reads is the message sent, and: either the handler gave no envelope
  away, then the message and the sender of its answer are each dropped, answered through or moved out of the
  handler (kept in the actor, or sent on) exactly once, and the boxes of the envelope are freed; or it gave
  its envelope away, sealed, then the envelope still holds the message and the sender in boxes of its own,
  nothing of them was dropped, answered or moved, and no other box is left.
\<close>

theorem dispatched_message_accounted:
  assumes "message_with st A sender M v s m = (msg, m')" and "memory_ok m"
    and "envelope_act_ok st (NewEnvelope M v s)" and "wo_memory w = m'"
  shows "\<exists>work r w' kept. work_onto_loop A msg = Inr work \<and> drive_work debug st code polls work w = Inr (r, w') \<and>
    wo_guards w' = wo_guards w \<and> set (wo_seen w') \<subseteq> insert v (set (wo_seen w)) \<and>
    wo_envelopes w' = wo_envelopes w @ kept \<and>
    (case kept of
       [] \<Rightarrow> me_boxes (wo_memory w') = me_boxes m \<and>
         mset (me_dropped (wo_memory w')) + mset (wo_answered w') + mset (wo_moved w') =
           mset (me_dropped m) + mset (wo_answered w) + mset (wo_moved w) + mset (letter_objs (M, v, s))
     | e # es \<Rightarrow> es = [] \<and> envelope_holds st (me_boxes (wo_memory w')) e (M, v, s) \<and> distinct (envelope_boxes e) \<and>
         me_boxes m = (\<lambda>p. if p \<in> set (envelope_boxes e) then None else me_boxes (wo_memory w') p) \<and>
         mset (me_dropped (wo_memory w')) + mset (wo_answered w') + mset (wo_moved w') =
           mset (me_dropped m) + mset (wo_answered w) + mset (wo_moved w))"
proof -
  obtain work r w' where d: "work_onto_loop A msg = Inr work" "drive_work debug st code polls work w = Inr (r, w')"
      "work_ok st (M, v, s) (me_boxes m) (wo_envelopes w) Resolved w'"
      "work_accounts (M, v, s) (Acquiring (em_context msg), w) (Resolved, w')" "me_dropped m' = me_dropped m"
    using drive_returns [OF assms, of debug code polls] by metis
  let ?S = "\<lambda>w. sum_list (map (\<lambda>_. mset (letter_objs (M, v, s))) (wo_envelopes w))"
  have acc: "gone_objs w' + ?S w' = gone_objs w + ?S w + mset (letter_objs (M, v, s))"
    and rest: "wo_guards w' = wo_guards w" "set (wo_seen w') \<subseteq> insert v (set (wo_seen w))"
    and held: "holder_ok st (M, v, s) (me_boxes m) (wo_envelopes w) (HoldsParts None None) w'"
    using d(3,4) by (simp_all add: work_ok_def work_accounts_def spent_def)
  show ?thesis
  proof (cases "wo_envelopes w' = wo_envelopes w")
    case True
    with held have "me_boxes (wo_memory w') = me_boxes m" by (simp add: holder_ok_def holding_ok_def)
    moreover from acc True have "gone_objs w' = gone_objs w + mset (letter_objs (M, v, s))" by simp
    ultimately show ?thesis
      using d(1,2,5) rest True assms(4)
      by (intro exI [of _ work] exI [of _ r] exI [of _ w'] exI [of _ "[]"]) (simp add: gone_objs_def)
  next
    case False
    with held obtain e where e: "wo_envelopes w' = wo_envelopes w @ [e]"
        "holding_ok st (M, v, s) (me_boxes m) (HoldsEnvelope e) (wo_memory w')"
      by (auto simp: holder_ok_def)
    from acc e(1) have "gone_objs w' = gone_objs w" by simp
    with d(1,2,5) rest e assms(4) show ?thesis
      by (intro exI [of _ work] exI [of _ r] exI [of _ w'] exI [of _ "[e]"]) (simp add: gone_objs_def holding_ok_def)
  qed
qed

text \<open>Of the handler that keeps the sender, and of the one that gives its envelope away.\<close>

definition sample_accounted :: "(u64 \<Rightarrow> u64 \<Rightarrow> string handler_code) \<Rightarrow> bool" where
  "sample_accounted code \<longleftrightarrow>
     (\<exists>work r w' kept. work_onto_loop 3 (fst sample_message) = Inr work \<and>
       drive_work True sample_statics code sample_polls work (sample_world (snd sample_message)) = Inr (r, w') \<and>
       wo_guards w' = 0 \<and> set (wo_seen w') \<subseteq> {sample_obj 16 0} \<and> wo_envelopes w' = kept \<and>
       (case kept of
          [] \<Rightarrow> me_boxes (wo_memory w') = Map.empty \<and>
            mset (me_dropped (wo_memory w')) + mset (wo_answered w') + mset (wo_moved w') =
              {#sample_obj 1 1, sample_obj 16 0#}
        | e # es \<Rightarrow> es = [] \<and>
            envelope_holds sample_statics (me_boxes (wo_memory w')) e (16, sample_obj 16 0, Some (sample_obj 1 1)) \<and>
            mset (me_dropped (wo_memory w')) + mset (wo_answered w') + mset (wo_moved w') = {#}))"

theorem dispatched_message_accounted_witness:
  "sample_accounted sample_code \<and> sample_accounted relay_code"
proof
  note run = dispatched_message_accounted [OF surjective_pairing sample_message_ok, of "sample_world (snd sample_message)" 3
      "Some \<lparr>cf_actor = 5, cf_handling = None\<rparr>" True _ sample_polls]
  have fields: "wo_memory (sample_world m) = m" "wo_guards (sample_world m) = 0" "wo_seen (sample_world m) = []"
    "wo_answered (sample_world m) = []" "wo_moved (sample_world m) = []" "wo_envelopes (sample_world m) = []"
    "me_dropped (po_memory office_new) = []" "me_boxes (po_memory office_new) = Map.empty" for m
    by (simp_all add: sample_world_def office_new_def)
  have all: "sample_accounted code" for code
  proof -
    from run [of code, unfolded fields append_Nil list.set, OF refl] obtain work r w' kept where
      a: "work_onto_loop 3 (fst sample_message) = Inr work"
        "drive_work True sample_statics code sample_polls work (sample_world (snd sample_message)) = Inr (r, w')"
        "wo_guards w' = 0" "set (wo_seen w') \<subseteq> {sample_obj 16 0}" "wo_envelopes w' = kept" and
      b: "case kept of
          [] \<Rightarrow> me_boxes (wo_memory w') = Map.empty \<and>
            mset (me_dropped (wo_memory w')) + mset (wo_answered w') + mset (wo_moved w') =
              mset [] + mset [] + mset [] + mset (letter_objs (16, sample_obj 16 0, Some (sample_obj 1 1)))
        | e # es \<Rightarrow> es = [] \<and>
            envelope_holds sample_statics (me_boxes (wo_memory w')) e (16, sample_obj 16 0, Some (sample_obj 1 1)) \<and>
            distinct (envelope_boxes e) \<and>
            Map.empty = (\<lambda>p. if p \<in> set (envelope_boxes e) then None else me_boxes (wo_memory w') p) \<and>
            mset (me_dropped (wo_memory w')) + mset (wo_answered w') + mset (wo_moved w') = mset [] + mset [] + mset []"
      by blast
    have b: "case kept of
        [] \<Rightarrow> me_boxes (wo_memory w') = Map.empty \<and>
          mset (me_dropped (wo_memory w')) + mset (wo_answered w') + mset (wo_moved w') =
            {#sample_obj 1 1, sample_obj 16 0#}
      | e # es \<Rightarrow> es = [] \<and>
          envelope_holds sample_statics (me_boxes (wo_memory w')) e (16, sample_obj 16 0, Some (sample_obj 1 1)) \<and>
          mset (me_dropped (wo_memory w')) + mset (wo_answered w') + mset (wo_moved w') = {#}"
      using b by (cases kept) simp_all
    show ?thesis unfolding sample_accounted_def by (rule exI, rule exI, rule exI, rule exI, intro conjI) (rule a b)+
  qed
  show "sample_accounted sample_code" by (rule all)
  show "sample_accounted relay_code" by (rule all)
qed

text \<open>C38: what the future of a handler sends is stamped with the delivery it handles, on whatever threads its work is
  polled, of an actor with a capture sink. If the work gets the lock on a thread with some frame, the
  producer runs first, and what it sends, or captures by a panic, is not the delivery's: its sends carry that
  thread's frame, and if it panics nothing is captured. Otherwise one event is captured, the delivery of the
  message from the actor and event of the thread that sent it, and every send of the future carries the
  handling actor and that event. A work that does not get the lock captures and sends nothing.
\<close>

theorem sends_carry_the_delivery:
  assumes "message_with st A sender M v s m = (msg, m')" and "memory_ok m"
    and "envelope_act_ok st (NewEnvelope M v s)" and "wo_memory w = m'" and "ss_capture_sink (wo_shared w)"
  shows "\<exists>work r w'. work_onto_loop A msg = Inr work \<and> drive_work debug st code polls work w = Inr (r, w') \<and>
    (let actor = ss_id (wo_shared w); event = \<lparr>ev_actor = actor, ev_seq = ss_capture_seq (wo_shared w)\<rparr>;
         origin = current_stamp sender; producer = hd_producer (code A M);
         early = \<lambda>f. replicate (count_list (sync_acts producer) SendsOn) (current_stamp f)
     in case lock_frame polls of
          None \<Rightarrow> captures (ss_log (wo_shared w')) = captures (ss_log (wo_shared w)) \<and> wo_sent w' = wo_sent w
        | Some f \<Rightarrow>
            if sync_panic producer \<noteq> None
            then captures (ss_log (wo_shared w')) = captures (ss_log (wo_shared w)) \<and> wo_sent w' = wo_sent w @ early f
            else captures (ss_log (wo_shared w')) = captures (ss_log (wo_shared w)) @
                   [EvMessage event (cs_from origin) actor (hd_name (code A M))
                     (dispatch_from (if s = None then TypeTell else TypeAsk)) (cs_caused_by origin)] \<and>
                 (\<exists>n. wo_sent w' = wo_sent w @ early f @
                    replicate n \<lparr>cs_from = Some actor, cs_caused_by = Some event\<rparr>))"
proof -
  obtain work r w' where d: "work_onto_loop A msg = Inr work" "ew_actor work = A" "ew_message work = M"
      "ew_state work = Acquiring (em_context msg)" "cx_capture (em_context msg) = current_stamp sender"
      "envelope_ty (cx_envelope (em_context msg)) = (if s = None then KindTell else KindAsk)"
      "drive_work debug st code polls work w = Inr (r, w')"
    using drive_returns [OF assms(1-4), of debug code polls] by metis
  let ?hd = "code A M"
  obtain frame shared where i: "instrumented code work (em_context msg) (sync_calls (hd_producer ?hd) (wo_shared w)) =
      (frame, shared)" by fastforce
  from i assms(5) d(2,3,5,6) have shared: "frame = Some \<lparr>cf_actor = ss_id (wo_shared w),
      cf_handling = Some \<lparr>ev_actor = ss_id (wo_shared w), ev_seq = ss_capture_seq (wo_shared w)\<rparr>\<rparr>"
    "captures (ss_log shared) = captures (ss_log (wo_shared w)) @
      [EvMessage \<lparr>ev_actor = ss_id (wo_shared w), ev_seq = ss_capture_seq (wo_shared w)\<rparr>
        (cs_from (current_stamp sender)) (ss_id (wo_shared w)) (hd_name ?hd)
        (dispatch_from (if s = None then TypeTell else TypeAsk)) (cs_caused_by (current_stamp sender))]"
    by (auto simp: instrumented_def instrument_handler_def next_capture_event_id_def capture_dispatch_def emit_def
        sync_calls_capture Let_def)
  note out = drive_acquiring [OF d(7,4), where ?'p = unit, unfolded d(2,3) i]
  show ?thesis
  proof (cases "lock_frame polls")
    case None
    with out d(1,7) show ?thesis by (auto simp: Let_def)
  next
    case (Some f)
    show ?thesis
    proof (cases "sync_panic (hd_producer ?hd)")
      case None
      with Some out d(1,7) shared show ?thesis
        by (auto simp: Let_def ends_as_def job_reaches_def current_stamp_def dest!: job_running_captures)
    next
      case (Some q)
      with \<open>lock_frame polls = Some f\<close> out d(1,7) show ?thesis
        by (auto simp: Let_def ends_as_def sync_calls_capture)
    qed
  qed
qed

theorem sends_carry_the_delivery_witness:
  "\<exists>work r w'. work_onto_loop 3 (fst sample_message) = Inr work \<and>
    drive_work True sample_statics sample_code sample_polls work (sample_world (snd sample_message)) = Inr (r, w') \<and>
    captures (ss_log (wo_shared w')) = [EvMessage \<lparr>ev_actor = 7, ev_seq = 1\<rparr> (Some 5) 7 ''Ping'' (dispatch_from TypeAsk) None] \<and>
    (\<exists>n. wo_sent w' = \<lparr>cs_from = Some 9, cs_caused_by = None\<rparr> #
       replicate n \<lparr>cs_from = Some 7, cs_caused_by = Some \<lparr>ev_actor = 7, ev_seq = 1\<rparr>\<rparr>)"
  using sends_carry_the_delivery [OF surjective_pairing sample_message_ok, of "sample_world (snd sample_message)" 3
      "Some \<lparr>cf_actor = 5, cf_handling = None\<rparr>" True sample_code sample_polls]
  by (simp add: sample_world_def sample_code_def Let_def current_stamp_def)

text \<open>C39: on the state of the actor a dispatched work that gets the lock is the job of the task's model, once the
  calls its producer made are done: from there the job that waits for the lock and then makes the calls the
  handler makes reaches the same state, and is done with the same captured panic where the work is done, or
  goes on where the work was dropped. A producer that panics ends the work with that panic and no job.
\<close>

theorem dispatch_refines_job:
  assumes "message_with st A sender M v s m = (msg, m')" and "memory_ok m"
    and "envelope_act_ok st (NewEnvelope M v s)" and "wo_memory w = m'" and "lock_frame polls \<noteq> None"
  shows "\<exists>work r w'. work_onto_loop A msg = Inr work \<and> drive_work debug st code polls work w = Inr (r, w') \<and>
    (let started = sync_calls (hd_producer (code A M)) (wo_shared w) in
     case sync_panic (hd_producer (code A M)) of
       Some p \<Rightarrow> r = Some (Some p) \<and> wo_shared w' = started
     | None \<Rightarrow> \<exists>n y. job_run n (JobAcquire (job_message (hd_name (code A M)) (em_context msg) v)
         (job_work (hd_acts (code A M)))) started = (y, wo_shared w') \<and> job_result r y)"
proof -
  obtain work r w' where d: "work_onto_loop A msg = Inr work" "ew_actor work = A" "ew_message work = M"
      "ew_state work = Acquiring (em_context msg)" "drive_work debug st code polls work w = Inr (r, w')"
    using drive_returns [OF assms(1-4), of debug code polls] by metis
  let ?hd = "code A M"
  let ?started = "sync_calls (hd_producer ?hd) (wo_shared w)"
  obtain frame shared where i: "instrumented code work (em_context msg) ?started = (frame, shared)"
    by fastforce
  from assms(5) obtain f where f: "lock_frame polls = Some f" by blast
  note out = drive_acquiring [OF d(5,4), where ?'p = obj, unfolded d(2,3) i f option.case ends_as_def Let_def]
  show ?thesis
  proof (cases "sync_panic (hd_producer ?hd)")
    case (Some p)
    with out d(1,5) show ?thesis by (auto simp: Let_def)
  next
    case None
    let ?job = "JobAcquire (job_message (hd_name ?hd) (em_context msg) v) (job_work (hd_acts ?hd))"
    have "job_step ?job ?started = (GoesOn (JobRunning (job_work (hd_acts ?hd))), shared)"
      using i d(2,3) by (simp add: instrumented_def job_message_def capture_dispatch_def)
    note start = job_reaches_step [OF this]
    from out None obtain y where
      "job_result r y" "job_reaches (JobRunning (job_work (hd_acts ?hd)) :: (obj, 'a) job, shared) (y, wo_shared w')"
      by auto
    with job_reaches_trans [OF start] have "job_reaches (?job, ?started) (y, wo_shared w')" by blast
    with d(1,5) None \<open>job_result r y\<close> show ?thesis by (auto simp: job_reaches_def Let_def)
  qed
qed

theorem dispatch_refines_job_witness:
  "\<exists>work r w' n y. work_onto_loop 3 (fst sample_message) = Inr work \<and>
    drive_work True sample_statics sample_code sample_polls work (sample_world (snd sample_message)) = Inr (r, w') \<and>
    job_run n (JobAcquire (job_message ''Ping'' (em_context (fst sample_message)) (sample_obj 16 0))
      (job_work (hd_acts (sample_code 3 16)))) (shared_new 7 ''Server'' True) = (y, wo_shared w') \<and> job_result r y"
  using dispatch_refines_job [OF surjective_pairing sample_message_ok, where w = "sample_world (snd sample_message)" and
      polls = sample_polls and A = 3 and sender = "Some \<lparr>cf_actor = 5, cf_handling = None\<rparr>" and debug = True and
      code = sample_code]
  by (simp add: sample_world_def sample_code_def sync_calls_def)

end
