(* ===== verification/Calls_Builders.thy ===== *)
theory Calls_Builders
  imports Calls
begin

text \<open>
  The prepared calls of a typed handle and of a protocol (\<open>MessageCall\<close>, \<open>LocalMessageCall\<close>, \<open>PreparedCall\<close> in
  \<open>crates/factories_actor/src/actor/handle.rs\<close>; \<open>ErasedCall\<close> in \<open>actor/protocol.rs\<close>) and their blocking forms.
  A thread that blocks is parked while others change the channel and the answer channels; they are the
  changes it wakes up to, in order.
\<close>

section \<open>Prepared calls\<close>

text \<open>
  A call that was prepared and not yet made: on which handle, of which message type, the message. The two forms
  of a typed call make the same exchange; the local one only is not \<open>Send\<close>.
\<close>

datatype 'v message_call =
    PreparedCall u64 nat u64 'v bool
  | ErasedCall "(u64 \<times> ActorMessageDispatcher) list" nat u64 'v

definition typed_call :: "u64 \<Rightarrow> nat \<Rightarrow> u64 \<Rightarrow> 'v \<Rightarrow> 'v message_call" where
  "typed_call A i M v = PreparedCall A i M v False"

definition typed_call_local :: "u64 \<Rightarrow> nat \<Rightarrow> u64 \<Rightarrow> 'v \<Rightarrow> 'v message_call" where
  "typed_call_local A i M v = PreparedCall A i M v True"

fun call_parts :: "'v message_call \<Rightarrow> handle \<times> u64 \<times> 'v" where
  "call_parts (PreparedCall A i M v is_local) = (TypedActorHandle A i, M, v)"
| "call_parts (ErasedCall table i M v) = (ProtocolHandle True table i, M, v)"

text \<open>\<open>ask\<close> (and awaiting the call itself), \<open>tell\<close> and \<open>try_tell\<close>, in the system of \<open>Calls\<close>.\<close>

definition builder_ask :: "('q, 'o, 'v, 'a) machine \<Rightarrow> 'v message_call \<Rightarrow> ('q, 'o, 'v, 'a) switchboard \<Rightarrow>
    ('q, 'o, 'v, 'a) switchboard" where
  "builder_ask mc c sb = (case call_parts c of (h, M, v) \<Rightarrow> start_ask mc h M v sb)"

definition builder_tell :: "('q, 'o, 'v, 'a) machine \<Rightarrow> 'v message_call \<Rightarrow> ('q, 'o, 'v, 'a) switchboard \<Rightarrow>
    ('q, 'o, 'v, 'a) switchboard" where
  "builder_tell mc c sb = (case call_parts c of (h, M, v) \<Rightarrow> start_tell mc h M v sb)"

definition builder_try_tell :: "('q, 'o, 'v, 'a) machine \<Rightarrow> 'v message_call \<Rightarrow> ('q, 'o, 'v, 'a) switchboard \<Rightarrow>
    send_result option \<times> ('q, 'o, 'v, 'a) switchboard" where
  "builder_try_tell mc c sb = (case call_parts c of (h, M, v) \<Rightarrow> try_tell mc h M v sb)"

section \<open>Blocking\<close>

text \<open>The channel of the actor and the answer channels, which the thread shares with others.\<close>

type_synonym ('q, 'o, 'v) wires = "('q, 'v DispatchedActorMessage) multilane \<times> 'o list"

type_synonym ('q, 'o, 'v) change = "('q, 'o, 'v) wires \<Rightarrow> ('q, 'o, 'v) wires"

text \<open>
  \<open>blocking_send\<close> and \<open>blocking_recv\<close>: the first attempt that is not pending; \<open>None\<close> if the thread is still parked when
  the changes end. With the result come the wires and the changes not yet seen.
\<close>

fun blocking_send :: "('q, 'o, 'v, 'a) machine \<Rightarrow> 'v DispatchedActorMessage sendable \<Rightarrow> ('q, 'o, 'v) wires \<Rightarrow>
    ('q, 'o, 'v) change list \<Rightarrow> send_result option \<times> ('q, 'o, 'v) wires \<times> ('q, 'o, 'v) change list" where
  "blocking_send mc s (ch, answers) changes =
     (case poll_send (mc_queue mc) (mc_sendable mc) ch s of
        (Ready (Inr u), ch') \<Rightarrow> (Some (Inr u), (ch', answers), changes)
      | (Ready (Inl e), ch') \<Rightarrow>
          (Some (Inl e), (ch', drop_message (mc_oneshot mc) (sd_message s) answers), changes)
      | (Pending, ch') \<Rightarrow>
          (case changes of
             [] \<Rightarrow> (None, (ch', answers), [])
           | c # cs \<Rightarrow> blocking_send mc s (c (ch', answers)) cs))"

fun blocking_recv :: "('q, 'o, 'v, 'a) machine \<Rightarrow> nat \<Rightarrow> ('q, 'o, 'v) wires \<Rightarrow> ('q, 'o, 'v) change list \<Rightarrow>
    'a option option \<times> ('q, 'o, 'v) wires \<times> ('q, 'o, 'v) change list" where
  "blocking_recv mc a (ch, answers) changes =
     (case answer_poll (mc_oneshot mc) (answers ! a) of
        (Ready r, o') \<Rightarrow> (Some r, (ch, hang_up (mc_oneshot mc) a (answers[a := o'])), changes)
      | (Pending, o') \<Rightarrow>
          (case changes of
             [] \<Rightarrow> (None, (ch, answers[a := o']), [])
           | c # cs \<Rightarrow> blocking_recv mc a (c (ch, answers[a := o'])) cs))"

text \<open>\<open>blocking_tell\<close>.\<close>

definition blocking_tell :: "('q, 'o, 'v, 'a) machine \<Rightarrow> 'v DispatchedActorMessage sendable \<Rightarrow> ('q, 'o, 'v) wires \<Rightarrow>
    ('q, 'o, 'v) change list \<Rightarrow> (AskError + 'a option) option \<times> ('q, 'o, 'v) wires" where
  "blocking_tell mc s x changes =
     (case blocking_send mc s x changes of
        (None, x', _) \<Rightarrow> (None, x')
      | (Some r, x', _) \<Rightarrow> (Some (map_sum SendFailed (\<lambda>_. None) r), x'))"

text \<open>\<open>AskSendable::blocking_exchange\<close>, and the same steps in \<open>ErasedCall::blocking_ask\<close>.\<close>

definition blocking_exchange :: "('q, 'o, 'v, 'a) machine \<Rightarrow> 'v DispatchedActorMessage sendable \<Rightarrow> nat \<Rightarrow>
    ('q, 'o, 'v) wires \<Rightarrow> ('q, 'o, 'v) change list \<Rightarrow> (AskError + 'a option) option \<times> ('q, 'o, 'v) wires" where
  "blocking_exchange mc s a x changes =
     (case blocking_send mc s x changes of
        (None, x', _) \<Rightarrow> (None, x')
      | (Some (Inl e), (ch, answers), _) \<Rightarrow> (Some (Inl (SendFailed e)), (ch, hang_up (mc_oneshot mc) a answers))
      | (Some (Inr _), x', rest) \<Rightarrow>
          (case blocking_recv mc a x' rest of
             (None, x'', _) \<Rightarrow> (None, x'')
           | (Some None, x'', _) \<Rightarrow> (Some (Inl NoReply), x'')
           | (Some (Some v), x'', _) \<Rightarrow> (Some (Inr (Some v)), x'')))"

section \<open>Blocking is polling\<close>

text \<open>An executor that polls a future at once and then after every change, until it is ready.\<close>

fun poll_until :: "('q, 'o, 'v, 'a) machine \<Rightarrow> 'v call_future \<Rightarrow> ('q, 'o, 'v) wires \<Rightarrow> ('q, 'o, 'v) change list \<Rightarrow>
    (unit, (AskError + 'a option) option \<times> ('q, 'o, 'v) wires) outcome" where
  "poll_until mc f (ch, answers) changes =
     and_then (poll_call mc f ch answers) (\<lambda>(r, f', ch', answers').
       case r of
         Ready v \<Rightarrow> Inr (Some v, (ch', answers'))
       | Pending \<Rightarrow>
           (case changes of
              [] \<Rightarrow> Inr (None, (ch', answers'))
            | c # cs \<Rightarrow> poll_until mc f' (c (ch', answers')) cs))"

declare poll_until.simps [simp del] blocking_send.simps [simp del] blocking_recv.simps [simp del]

definition received :: "'a option option \<Rightarrow> (AskError + 'a option) option" where
  "received r = (case r of None \<Rightarrow> None | Some None \<Rightarrow> Some (Inl NoReply) | Some (Some v) \<Rightarrow> Some (Inr (Some v)))"

lemma poll_until_step:
  "poll_call mc f ch answers = Inr (Ready v, f', ch', answers') \<Longrightarrow>
     poll_until mc f (ch, answers) changes = Inr (Some v, (ch', answers'))"
  "poll_call mc f ch answers = Inr (Pending, f', ch', answers') \<Longrightarrow>
     poll_until mc f (ch, answers) [] = Inr (None, (ch', answers'))"
  "poll_call mc f ch answers = Inr (Pending, f', ch', answers') \<Longrightarrow>
     poll_until mc f (ch, answers) (c # cs) = poll_until mc f' (c (ch', answers')) cs"
  by (simp_all add: poll_until.simps)

lemma blocking_send_step:
  "poll_send (mc_queue mc) (mc_sendable mc) ch s = (Ready (Inr u), ch') \<Longrightarrow>
     blocking_send mc s (ch, answers) changes = (Some (Inr u), (ch', answers), changes)"
  "poll_send (mc_queue mc) (mc_sendable mc) ch s = (Ready (Inl e), ch') \<Longrightarrow>
     blocking_send mc s (ch, answers) changes =
       (Some (Inl e), (ch', drop_message (mc_oneshot mc) (sd_message s) answers), changes)"
  "poll_send (mc_queue mc) (mc_sendable mc) ch s = (Pending, ch') \<Longrightarrow>
     blocking_send mc s (ch, answers) [] = (None, (ch', answers), [])"
  "poll_send (mc_queue mc) (mc_sendable mc) ch s = (Pending, ch') \<Longrightarrow>
     blocking_send mc s (ch, answers) (c # cs) = blocking_send mc s (c (ch', answers)) cs"
  by (simp_all add: blocking_send.simps)

lemma blocking_recv_step:
  "answer_poll (mc_oneshot mc) (answers ! a) = (Ready r, o') \<Longrightarrow>
     blocking_recv mc a (ch, answers) changes = (Some r, (ch, hang_up (mc_oneshot mc) a (answers[a := o'])), changes)"
  "answer_poll (mc_oneshot mc) (answers ! a) = (Pending, o') \<Longrightarrow>
     blocking_recv mc a (ch, answers) [] = (None, (ch, answers[a := o']), [])"
  "answer_poll (mc_oneshot mc) (answers ! a) = (Pending, o') \<Longrightarrow>
     blocking_recv mc a (ch, answers) (c # cs) = blocking_recv mc a (c (ch, answers[a := o'])) cs"
  by (simp_all add: blocking_recv.simps)

text \<open>A future that receives, and one that sends: \<open>receiving\<close> and \<open>sending\<close> hold of both kinds of ask.\<close>

definition receiving :: "('q, 'o, 'v, 'a) machine \<Rightarrow> 'v call_future \<Rightarrow> nat \<Rightarrow> bool" where
  "receiving mc f a \<longleftrightarrow>
     (\<forall>ch answers. poll_call mc f ch answers = Inr
        (case poll_reply (mc_oneshot mc) a answers of
           (Pending, answers') \<Rightarrow> (Pending, f, ch, answers')
         | (Ready r, answers') \<Rightarrow> (Ready (map_sum id Some r), CallDone, ch, answers')))"

definition sending :: "('q, 'o, 'v, 'a) machine \<Rightarrow> 'v call_future \<Rightarrow> 'v DispatchedActorMessage sendable \<Rightarrow> nat \<Rightarrow>
    'v call_future \<Rightarrow> bool" where
  "sending mc f s a f' \<longleftrightarrow>
     (\<forall>ch answers. poll_call mc f ch answers =
        (case poll_send (mc_queue mc) (mc_sendable mc) ch s of
           (Pending, ch') \<Rightarrow> Inr (Pending, f, ch', answers)
         | (Ready (Inl e), ch') \<Rightarrow>
             Inr (Ready (Inl (SendFailed e)), CallDone, ch',
               hang_up (mc_oneshot mc) a (drop_message (mc_oneshot mc) (sd_message s) answers))
         | (Ready (Inr _), ch') \<Rightarrow> poll_call mc f' ch' answers))"

lemma asks_receive_and_send:
  "receiving mc (ExchangeReceiving a) a" "receiving mc (ErasedReceiving a) a"
  "sending mc (ExchangeSending s a) s a (ExchangeReceiving a)"
  "sending mc (ErasedSending s (Some a)) s a (ErasedReceiving a)"
  by (auto simp: receiving_def sending_def exchange_receiving_def erased_receiving_def Let_def
      split: poll.split sum.split prod.split)

lemma receiving_is_polled:
  assumes "receiving mc f a"
  shows "poll_until mc f x changes = (case blocking_recv mc a x changes of (r, x', _) \<Rightarrow> Inr (received r, x'))"
proof (induction changes arbitrary: x)
  case Nil
  obtain ch answers where x: "x = (ch, answers)" by fastforce
  obtain r o' where r: "answer_poll (mc_oneshot mc) (answers ! a) = (r, o')" by fastforce
  from assms r have "poll_call mc f ch answers = Inr
      (case r of Pending \<Rightarrow> (Pending, f, ch, answers[a := o'])
       | Ready v \<Rightarrow> (Ready (case v of None \<Rightarrow> Inl NoReply | Some y \<Rightarrow> Inr (Some y)), CallDone, ch,
           hang_up (mc_oneshot mc) a (answers[a := o'])))"
    by (simp add: receiving_def poll_reply_def split: poll.splits option.splits)
  with x r show ?case
    by (cases r) (simp_all add: poll_until_step blocking_recv_step received_def split: option.splits)
next
  case (Cons c cs)
  obtain ch answers where x: "x = (ch, answers)" by fastforce
  obtain r o' where r: "answer_poll (mc_oneshot mc) (answers ! a) = (r, o')" by fastforce
  from assms r have "poll_call mc f ch answers = Inr
      (case r of Pending \<Rightarrow> (Pending, f, ch, answers[a := o'])
       | Ready v \<Rightarrow> (Ready (case v of None \<Rightarrow> Inl NoReply | Some y \<Rightarrow> Inr (Some y)), CallDone, ch,
           hang_up (mc_oneshot mc) a (answers[a := o'])))"
    by (simp add: receiving_def poll_reply_def split: poll.splits option.splits)
  with x r Cons.IH show ?case
    by (cases r) (simp_all add: poll_until_step blocking_recv_step received_def split: option.splits)
qed

text \<open>A poll that sends goes on as a poll that receives: where neither waits the two awaits are one poll.\<close>

lemma sent_goes_on:
  assumes "sending mc f s a f'" "poll_send (mc_queue mc) (mc_sendable mc) ch s = (Ready (Inr u), ch')"
  shows "poll_until mc f (ch, answers) changes = poll_until mc f' (ch', answers) changes"
  using assms by (simp add: sending_def poll_until.simps)

lemma sending_ready:
  assumes "sending mc f s a f'" "receiving mc f' a" "poll_send (mc_queue mc) (mc_sendable mc) ch s = (Ready v, ch')"
  shows "poll_until mc f (ch, answers) changes = Inr (blocking_exchange mc s a (ch, answers) changes)"
proof (cases v)
  case (Inl e)
  with assms(1,3) show ?thesis
    by (simp add: blocking_exchange_def blocking_send_step poll_until_step sending_def)
next
  case (Inr u)
  with assms sent_goes_on [OF assms(1)] receiving_is_polled [OF assms(2)] show ?thesis
    by (auto simp: blocking_exchange_def blocking_send_step received_def split: prod.splits option.splits)
qed

lemma sending_is_polled:
  assumes "sending mc f s a f'" "receiving mc f' a"
  shows "poll_until mc f x changes = Inr (blocking_exchange mc s a x changes)"
proof (induction changes arbitrary: x)
  case Nil
  obtain ch answers where x: "x = (ch, answers)" by fastforce
  obtain r ch' where "poll_send (mc_queue mc) (mc_sendable mc) ch s = (r, ch')" by fastforce
  with x assms(1) sending_ready [OF assms] show ?case
    by (cases r) (auto simp: blocking_exchange_def blocking_send_step poll_until_step sending_def)
next
  case (Cons c cs)
  obtain ch answers where x: "x = (ch, answers)" by fastforce
  obtain r ch' where r: "poll_send (mc_queue mc) (mc_sendable mc) ch s = (r, ch')" by fastforce
  show ?case
  proof (cases r)
    case (Ready v)
    with x r sending_ready [OF assms] show ?thesis by simp
  next
    case Pending
    with x r assms(1) Cons.IH show ?thesis
      by (simp add: blocking_exchange_def blocking_send_step poll_until_step sending_def)
  qed
qed

text \<open>
  A blocking call returns what the future of the same call yields when it is polled at the same moments, and
  leaves the channel and the answer channels as it does: for a tell, an exchange, and a protocol's ask.
\<close>

lemma blocking_ask_is_polled:
  "poll_until mc (ExchangeSending s a) x changes = Inr (blocking_exchange mc s a x changes)"
  "poll_until mc (ErasedSending s (Some a)) x changes = Inr (blocking_exchange mc s a x changes)"
  by (rule sending_is_polled, rule asks_receive_and_send, rule asks_receive_and_send)+

lemma blocking_tell_is_polled:
  "poll_until mc (TellSending s) x changes = Inr (blocking_tell mc s x changes)"
proof (induction changes arbitrary: x)
  case Nil
  obtain ch answers where x: "x = (ch, answers)" by fastforce
  obtain r ch' where "poll_send (mc_queue mc) (mc_sendable mc) ch s = (r, ch')" by fastforce
  with x show ?case
    by (cases r; cases "case r of Ready v \<Rightarrow> v")
      (simp_all add: blocking_tell_def blocking_send_step poll_until_step)
next
  case (Cons c cs)
  obtain ch answers where x: "x = (ch, answers)" by fastforce
  obtain r ch' where "poll_send (mc_queue mc) (mc_sendable mc) ch s = (r, ch')" by fastforce
  with x Cons.IH show ?case
    by (cases r; cases "case r of Ready v \<Rightarrow> v")
      (simp_all add: blocking_tell_def blocking_send_step poll_until_step)
qed

end
