(* ===== verification/Sequential_Trait.thy ===== *)
theory Sequential_Trait
  imports Specialize
begin

text \<open>
  The attribute \<open>sequential_trait\<close>, \<open>crates/factories_types_macro/src/sequential_trait.rs\<close>: it bounds the
  \<open>usize\<close> parameter of a trait by a sealed trait that is implemented for the indices below a count; and the
  resolver \<open>AutorefSpecialized\<close> (\<open>crates/factories_rtti/src/autoref_check.rs\<close>).
\<close>

section \<open>The arguments\<close>

text \<open>
  The tokens of the attribute as the parser meets them: none, a literal with or without tokens after it, a
  list of named parameters, anything else. A literal is the number it denotes; \<open>base10_parse\<close> refuses one that is
  no \<open>usize\<close>.
\<close>

datatype seq_param = CountIs nat | DescriptionIs string | UnknownParam

datatype seq_tokens = NoTokens | LiteralTokens nat bool | NamedTokens "seq_param list" | OtherTokens

record SequentialTraitArgs =
  sq_count :: nat
  sq_description :: "string option"

datatype diagnostic =
    MissingCount | UnexpectedToken | NonPositiveCount | UnknownParameter | NotUsize | ExpectedLiteralOrIdent
  | NoIndexParameter

definition base10_parse :: "nat \<Rightarrow> (diagnostic, nat) outcome" where
  "base10_parse n = (if n < 2 ^ 64 then Inr n else Inl (Error NotUsize))"

fun parse_params :: "seq_param list \<Rightarrow> nat option \<times> string option \<Rightarrow> (diagnostic, nat option \<times> string option) outcome" where
  "parse_params [] acc = Inr acc"
| "parse_params (CountIs n # ps) (c, d) = and_then (base10_parse n) (\<lambda>v. parse_params ps (Some v, d))"
| "parse_params (DescriptionIs s # ps) (c, d) = parse_params ps (c, Some s)"
| "parse_params (UnknownParam # ps) acc = Inl (Error UnknownParameter)"

text \<open>
  \<open>parse\<close>: the arguments, the errors it emits, its warnings, and whether it left tokens of the stream: the named
  form parses a copy of the rest (\<open>input.cursor().token_stream()\<close>).
\<close>

record parsed_args =
  pa_args :: SequentialTraitArgs
  pa_errors :: "diagnostic list"
  pa_warnings :: "diagnostic list"
  pa_rest :: bool

fun parse_args :: "seq_tokens \<Rightarrow> (diagnostic, parsed_args) outcome" where
  "parse_args NoTokens =
     Inr \<lparr>pa_args = \<lparr>sq_count = 0, sq_description = None\<rparr>, pa_errors = [MissingCount], pa_warnings = [], pa_rest = False\<rparr>"
| "parse_args (LiteralTokens n trailing) =
     and_then (base10_parse n) (\<lambda>count.
       Inr \<lparr>pa_args = \<lparr>sq_count = count, sq_description = None\<rparr>,
            pa_errors = (if trailing then [UnexpectedToken] else []), pa_warnings = [], pa_rest = trailing\<rparr>)"
| "parse_args (NamedTokens ps) =
     and_then (parse_params ps (None, None)) (\<lambda>(count, description).
       Inr (case count of
              Some v \<Rightarrow> \<lparr>pa_args = \<lparr>sq_count = v, sq_description = description\<rparr>, pa_errors = [],
                pa_warnings = (if v > 0 then [] else [NonPositiveCount]), pa_rest = True\<rparr>
            | None \<Rightarrow> \<lparr>pa_args = \<lparr>sq_count = 0, sq_description = description\<rparr>, pa_errors = [MissingCount],
                pa_warnings = [], pa_rest = True\<rparr>))"
| "parse_args OtherTokens = Inl (Error ExpectedLiteralOrIdent)"

text \<open>
  \<open>syn::parse_macro_input!\<close> refuses what leaves tokens of its input. Where errors were emitted the compiler
  reports those.
\<close>

definition parse_macro_input :: "(diagnostic, parsed_args) outcome \<Rightarrow> diagnostic list + parsed_args" where
  "parse_macro_input result =
     (case result of
        Inl (Error e) \<Rightarrow> Inl [e]
      | Inl Panic \<Rightarrow> Inl []
      | Inr p \<Rightarrow> if pa_rest p then Inl (if pa_errors p = [] then [UnexpectedToken] else pa_errors p) else Inr p)"

section \<open>The expansion\<close>

text \<open>A generic parameter of the trait; a constant has its type as a path.\<close>

datatype GenericParam = LifetimeParam | TypeParam string | ConstParam string string

record trait_item =
  ti_name :: string
  ti_generics :: "GenericParam list"
  ti_supertraits :: "(string \<times> string \<times> string) list"

text \<open>The output: the trait, and of the sealed module its name, its trait, its label and the indices implemented.\<close>

record sealed_module =
  sm_name :: string
  sm_trait :: string
  sm_label :: "nat \<times> string option"
  sm_impls :: "nat list"

fun index_parameter :: "GenericParam list \<Rightarrow> string option" where
  "index_parameter [] = None"
| "index_parameter (ConstParam name ty # ps) = (if ty = ''usize'' then Some name else index_parameter ps)"
| "index_parameter (_ # ps) = index_parameter ps"

definition sequential_expand :: "SequentialTraitArgs \<Rightarrow> trait_item \<Rightarrow> trait_item \<times> sealed_module option \<times> diagnostic list" where
  "sequential_expand args item =
     (if sq_count args = 0 then (item, None, [])
      else
        (let sealed = ''sealed_'' @ ti_name item; valid = ''Valid'' @ ti_name item @ ''Index'';
             (index, errors) = (case index_parameter (ti_generics item) of
                None \<Rightarrow> (''N'', [NoIndexParameter]) | Some v \<Rightarrow> (v, []))
         in (item\<lparr>ti_supertraits := ti_supertraits item @ [(sealed, valid, index)]\<rparr>,
             Some \<lparr>sm_name = sealed, sm_trait = valid, sm_label = (sq_count args, sq_description args),
                   sm_impls = [0..<sq_count args]\<rparr>, errors)))"

text \<open>The macro: emitted errors end the compilation, a refused attribute at once.\<close>

definition proc_macro_sequential_trait :: "seq_tokens \<Rightarrow> trait_item \<Rightarrow>
    (diagnostic list + trait_item \<times> sealed_module option)" where
  "proc_macro_sequential_trait tokens item =
     (case parse_macro_input (parse_args tokens) of
        Inl es \<Rightarrow> Inl es
      | Inr p \<Rightarrow>
          (case sequential_expand (pa_args p) item of
             (item', sealed, errors) \<Rightarrow>
               if pa_errors p @ errors = [] then Inr (item', sealed) else Inl (pa_errors p @ errors)))"

text \<open>
  An implementation of the trait at an index needs every supertrait: those it had, by \<open>other\<close>, and the sealed one
  at the value of its index parameter.
\<close>

definition may_implement :: "(string \<times> string \<times> string \<Rightarrow> bool) \<Rightarrow> trait_item \<Rightarrow> sealed_module option \<Rightarrow>
    (string \<Rightarrow> nat) \<Rightarrow> bool" where
  "may_implement other item sealed values \<longleftrightarrow>
     (\<forall>(m, t, i) \<in> set (ti_supertraits item).
        case sealed of
          Some sm \<Rightarrow> if (m, t) = (sm_name sm, sm_trait sm) then values i \<in> set (sm_impls sm) else other (m, t, i)
        | None \<Rightarrow> other (m, t, i))"

section \<open>What the attribute does\<close>

text \<open>
  The attribute accepts exactly a lone literal, zero, or positive on a trait with a \<open>usize\<close> parameter; then the trait can be
  implemented at exactly the indices below it. In particular the named form its diagnostics advise is
  never accepted.
\<close>

lemma sequential_trait_accepts:
  "(\<exists>out. proc_macro_sequential_trait tokens item = Inr out) \<longleftrightarrow>
     (\<exists>n. tokens = LiteralTokens n False \<and> n < 2 ^ 64 \<and> (n = 0 \<or> index_parameter (ti_generics item) \<noteq> None))"
proof (cases tokens)
  case (LiteralTokens n trailing)
  then show ?thesis
    by (cases "index_parameter (ti_generics item)")
      (auto simp: proc_macro_sequential_trait_def parse_macro_input_def base10_parse_def sequential_expand_def Let_def)
next
  case (NamedTokens ps)
  then show ?thesis
    by (cases "parse_params ps (None, None)")
      (auto simp: proc_macro_sequential_trait_def parse_macro_input_def split: fault.splits option.splits)
qed (auto simp: proc_macro_sequential_trait_def parse_macro_input_def sequential_expand_def)

lemma named_count_refused: "\<exists>es. proc_macro_sequential_trait (NamedTokens ps) item = Inl es"
  using sequential_trait_accepts [of "NamedTokens ps" item]
  by (cases "proc_macro_sequential_trait (NamedTokens ps) item") auto

lemma sequential_trait_bounds_index:
  assumes "proc_macro_sequential_trait tokens item = Inr (item', sealed)"
    and "index_parameter (ti_generics item) = Some i"
    and "\<forall>(m, t, j) \<in> set (ti_supertraits item). m \<noteq> ''sealed_'' @ ti_name item \<and> other (m, t, j)"
  shows "\<exists>n. tokens = LiteralTokens n False \<and> (may_implement other item' sealed values \<longleftrightarrow> n = 0 \<or> values i < n)"
proof -
  from sequential_trait_accepts [of tokens item] assms(1) obtain n where n: "tokens = LiteralTokens n False" "n < 2 ^ 64"
    by auto
  with assms show ?thesis
    by (cases "n = 0")
      (fastforce simp: proc_macro_sequential_trait_def parse_macro_input_def base10_parse_def sequential_expand_def
        may_implement_def Let_def)+
qed

section \<open>The resolver\<close>

text \<open>A specialised value is the function of the arm that was selected; two are compared by what they resolve to.\<close>

record 'a AutorefSpecialized =
  au_resolve :: "unit \<Rightarrow> 'a"

definition autoref_new :: "(unit \<Rightarrow> 'a) \<Rightarrow> 'a AutorefSpecialized" where
  "autoref_new f = \<lparr>au_resolve = f\<rparr>"

definition autoref_resolve :: "'a AutorefSpecialized \<Rightarrow> 'a" where
  "autoref_resolve a = au_resolve a ()"

definition autoref_eq :: "'a AutorefSpecialized \<Rightarrow> 'a AutorefSpecialized \<Rightarrow> bool" where
  "autoref_eq a b \<longleftrightarrow> autoref_resolve a = autoref_resolve b"

text \<open>\<open>autoref_specialize!\<close>: the resolver of the first arm that matches, if one does.\<close>

definition autoref_specialize :: "(string \<Rightarrow> bool) \<Rightarrow> (unit \<Rightarrow> 'a) arm list \<Rightarrow> 'a AutorefSpecialized lookup" where
  "autoref_specialize implements arms =
     (case codegen_deferred implements arms of
        Found f \<Rightarrow> Found (autoref_new f) | Ambiguous \<Rightarrow> Ambiguous | NoMethod \<Rightarrow> NoMethod | Rejected \<Rightarrow> Rejected)"

end
