(* ===== verification/Observation.thy ===== *)
theory Observation
  imports Run_Loop_Properties
begin

text \<open>
  The tracing events of an actor, \<open>crates/factories_actor/src/obs.rs\<close>: what each hook emits, what a run of the task
  emits, and the story its lifecycle events tell. Spans are not modelled.
\<close>

section \<open>The events\<close>

datatype trace_level = LevelDebug | LevelWarn | LevelError

datatype field_value =
    StrField string | IdField u64 | StateField LifecycleState | KindField TerminationKind
  | ErrorField ActorChannelSendError

record tracing_event =
  te_level :: trace_level
  te_message :: string
  te_fields :: "(string \<times> field_value) list"

definition actor_fields :: "string \<Rightarrow> actor_id \<Rightarrow> (string \<times> field_value) list" where
  "actor_fields actor i = [(''actor.name'', StrField actor), (''actor.id'', IdField i)]"

definition actor_started :: "string \<Rightarrow> actor_id \<Rightarrow> tracing_event" where
  "actor_started actor i =
     \<lparr>te_level = LevelDebug, te_message = ''actor started'', te_fields = actor_fields actor i\<rparr>"

definition stop_requested :: "string \<Rightarrow> actor_id \<Rightarrow> LifecycleState \<Rightarrow> tracing_event" where
  "stop_requested actor i current_state =
     \<lparr>te_level = LevelDebug, te_message = ''stop requested'',
      te_fields = actor_fields actor i @ [(''actor.state'', StateField current_state)]\<rparr>"

definition actor_stopped :: "string \<Rightarrow> actor_id \<Rightarrow> string \<Rightarrow> bool \<Rightarrow> tracing_event" where
  "actor_stopped actor i how failed =
     \<lparr>te_level = (if failed then LevelWarn else LevelDebug), te_message = ''actor stopped'',
      te_fields = actor_fields actor i @ [(''outcome'', StrField how)]\<rparr>"

definition stop_hook_panicked :: "string \<Rightarrow> actor_id \<Rightarrow> CapturedPanic \<Rightarrow> tracing_event" where
  "stop_hook_panicked actor i p =
     \<lparr>te_level = LevelError, te_message = ''stop hook panicked'',
      te_fields = actor_fields actor i @ [(''panic.message'', StrField (panic_display p))]\<rparr>"

definition actor_aborted :: "string \<Rightarrow> actor_id \<Rightarrow> tracing_event" where
  "actor_aborted actor i =
     \<lparr>te_level = LevelWarn, te_message = ''actor aborted'', te_fields = actor_fields actor i\<rparr>"

definition terminated_delivered :: "string \<Rightarrow> actor_id \<Rightarrow> TerminationKind \<Rightarrow> tracing_event" where
  "terminated_delivered watched i k =
     \<lparr>te_level = LevelDebug, te_message = ''delivered terminated signal'',
      te_fields = actor_fields watched i @ [(''kind'', KindField k)]\<rparr>"

definition terminated_delivery_failed :: "string \<Rightarrow> actor_id \<Rightarrow> TerminationKind \<Rightarrow> ActorChannelSendError \<Rightarrow>
    tracing_event" where
  "terminated_delivery_failed watched i k e =
     \<lparr>te_level = LevelWarn, te_message = ''failed to deliver terminated signal'',
      te_fields = actor_fields watched i @ [(''kind'', KindField k), (''error'', ErrorField e)]\<rparr>"

definition handle_delivery_result :: "string \<Rightarrow> actor_id \<Rightarrow> TerminationKind \<Rightarrow> delivery \<Rightarrow> tracing_event option" where
  "handle_delivery_result watched i k d =
     (case d of
        Delivered \<Rightarrow> Some (terminated_delivered watched i k)
      | DeliveryFailed e \<Rightarrow> Some (terminated_delivery_failed watched i k e)
      | _ \<Rightarrow> None)"

text \<open>What the outside sees of a log: wakes and captures are not tracing's.\<close>

fun observe :: "string \<Rightarrow> actor_id \<Rightarrow> trace \<Rightarrow> tracing_event option" where
  "observe actor i ObsStarted = Some (actor_started actor i)"
| "observe actor i (ObsStopRequested l) = Some (stop_requested actor i l)"
| "observe actor i (ObsStopHookPanicked p) = Some (stop_hook_panicked actor i p)"
| "observe actor i (ObsStopped how failed) = Some (actor_stopped actor i how failed)"
| "observe actor i ObsAborted = Some (actor_aborted actor i)"
| "observe actor i (Signal sub k d) = handle_delivery_result actor i k d"
| "observe actor i _ = None"

definition traced :: "'e SharedActorState \<Rightarrow> tracing_event list" where
  "traced s = List.map_filter (observe (ss_rtti_name s) (ss_id s)) (ss_log s)"

section \<open>The lifecycle events of a log\<close>

fun is_obs :: "trace \<Rightarrow> bool" where
  "is_obs (Woke w) = False"
| "is_obs (Capture e) = False"
| "is_obs (Signal sub k d) = False"
| "is_obs _ = True"

definition obs :: "'e SharedActorState \<Rightarrow> trace list" where
  "obs s = filter is_obs (ss_log s)"

definition requests :: "trace list \<Rightarrow> bool" where
  "requests ts \<longleftrightarrow> (\<forall>x \<in> set ts. \<exists>l. x = ObsStopRequested l)"

lemma requests_simps [simp]:
  "requests []" "requests (ts @ us) \<longleftrightarrow> requests ts \<and> requests us"
  "requests (x # ts) \<longleftrightarrow> (\<exists>l. x = ObsStopRequested l) \<and> requests ts"
  by (auto simp: requests_def)

lemma obs_cong: "ss_log s = ss_log s' \<Longrightarrow> obs s = obs s'"
  by (simp add: obs_def)

lemma filter_woken [simp]: "filter is_obs (map Woke ws) = []"
  by (induction ws) simp_all

lemma obs_simps [simp]:
  "obs (emit ts s) = obs s @ filter is_obs ts" "obs (record_reason r s) = obs s"
  "obs (shared_transition f s) = obs s" "obs (shared_stopping s) = obs s" "obs (record_panics q s) = obs s"
  "obs (record_spawned s) = obs s" "obs (record_died s) = obs s" "obs (s\<lparr>ss_subscriptions := xs\<rparr>) = obs s"
  "obs (snd (instrument_handler stamp ty d s)) = obs s"
  by (simp_all add: obs_def emit_def shared_transition_def shared_stopping_def record_panics_def record_defs
      record_spawned_def record_died_def instrument_handler_def next_capture_event_id_def Let_def
      split: prod.splits option.splits)

lemma reason_died [simp]: "termination_reason (record_died s) = termination_reason s"
  by (simp add: record_died_def next_capture_event_id_def Let_def) (simp add: termination_reason_def)

lemma obs_new [simp]: "obs (shared_new actor name captured) = []"
  by (simp add: obs_def)

text \<open>User code adds requests to stop, and nothing else.\<close>

definition asks_more :: "'e SharedActorState \<Rightarrow> 'e SharedActorState \<Rightarrow> bool" where
  "asks_more s s' \<longleftrightarrow> (\<exists>rs. obs s' = obs s @ rs \<and> requests rs)"

lemma asks_more_same [simp]: "obs s' = obs s \<Longrightarrow> asks_more s s'"
  by (simp add: asks_more_def)

lemma asks_more_call [simp]: "asks_more s (user_call a s)"
  by (cases a) (simp_all add: asks_more_def shared_draining_def record_defs)

lemma asks_more_work: "work_step w s = (r, s') \<Longrightarrow> asks_more s s'"
  by (auto split: list.splits)

lemma asks_more_job:
  assumes "job_step j s = (r, s')"
  shows "asks_more s s'"
  using assms by (cases j) (auto split: list.splits prod.splits sum.splits simp del: work_step.simps dest: asks_more_work)

lemma asks_more_poll_job:
  assumes "finish = handled \<or> finish = raced \<or> finish = drained"
  shows "asks_more (tk_shared t) (tk_shared (poll_job t i finish))"
proof -
  obtain r s where j: "job_step (tk_jobs t ! i) (tk_shared t) = (r, s)" by (cases "job_step (tk_jobs t ! i) (tk_shared t)")
  from asks_more_job [OF j] finish_fields(1) [OF assms] j show ?thesis
    by (auto simp: poll_job_def remove_job_def asks_more_def split: job_poll.splits)
qed

lemma asks_more_running:
  assumes "running (tk_phase t)"
  shows "asks_more (tk_shared t) (tk_shared (poll_task code ops n t))"
proof -
  have pull: "obs (tk_shared (poll_pull code t)) = obs (tk_shared t)"
    by (auto simp: poll_pull_def next_dispatch_def push_job_def Let_def record_defs
        split: sum.splits poll.splits option.splits prod.splits)
  have top: "obs (tk_shared (loop_top code t)) = obs (tk_shared t)"
    by (simp add: loop_top_def)
  show ?thesis
    using assms pull top asks_more_poll_job [of _ t]
    by (cases "tk_phase t"; cases n) (simp_all add: poll_task_def begin_stop_def Let_def)
qed

section \<open>The story\<close>

definition started_obs :: "trace list \<Rightarrow> bool" where
  "started_obs ts \<longleftrightarrow> (\<exists>before after. ts = before @ [ObsStarted] @ after \<and> requests before \<and> requests after)"

fun outcome_of :: "'e TerminationReason \<Rightarrow> string \<times> bool" where
  "outcome_of (Failed e) = (''failed'', True)"
| "outcome_of (Panicked p) = (''panicked'', True)"
| "outcome_of _ = (''finished'', False)"

definition stopped_obs :: "'e TerminationReason \<Rightarrow> trace list \<Rightarrow> bool" where
  "stopped_obs q ts \<longleftrightarrow> q \<noteq> Aborted \<and>
     (\<exists>us ps. ts = us @ ps @ [ObsStopped (fst (outcome_of q)) (snd (outcome_of q))] \<and> started_obs us \<and>
        (ps = [] \<or> compromising q \<and> (\<exists>p. ps = [ObsStopHookPanicked p])))"

lemma started_obs_more: "started_obs ts \<Longrightarrow> requests rs \<Longrightarrow> started_obs (ts @ rs)"
  unfolding started_obs_def by (metis append_assoc requests_simps(2))

lemma started_obs_new: "requests ts \<Longrightarrow> started_obs (ts @ [ObsStarted])"
  unfolding started_obs_def by (rule exI [of _ ts], rule exI [of _ "[]"]) simp

text \<open>\<open>hooked\<close>: the stop hook was called.\<close>

definition over_obs :: "'e TerminationReason \<Rightarrow> bool \<Rightarrow> bool \<Rightarrow> trace list \<Rightarrow> bool" where
  "over_obs q aborted hooked ts \<longleftrightarrow>
     stopped_obs q ts \<and> hooked \<or>
     q = Aborted \<and> (\<exists>us. ts = us @ [ObsAborted] \<and> (requests us \<or> started_obs us)) \<or>
     compromising q \<and> (requests ts \<and> \<not> hooked \<or> aborted \<and> started_obs ts)"

fun obs_ok :: "('p, 'e) phase \<Rightarrow> trace list \<Rightarrow> 'e TerminationReason option \<Rightarrow> bool \<Rightarrow> bool \<Rightarrow> bool" where
  "obs_ok Unpolled ts r aborted hooked \<longleftrightarrow> ts = [] \<and> \<not> hooked"
| "obs_ok NeverPolled ts r aborted hooked \<longleftrightarrow> ts = [] \<and> \<not> hooked"
| "obs_ok (Initializing k) ts r aborted hooked \<longleftrightarrow> ts = [] \<and> \<not> hooked"
| "obs_ok (OnStart w) ts r aborted hooked \<longleftrightarrow> requests ts \<and> \<not> hooked"
| "obs_ok TakeSubscribers ts r aborted hooked \<longleftrightarrow> (\<exists>q. r = Some q \<and> stopped_obs q ts \<and> hooked)"
| "obs_ok (Notify k subs b) ts r aborted hooked \<longleftrightarrow> (\<exists>q. r = Some q \<and> stopped_obs q ts \<and> hooked)"
| "obs_ok GuardMark ts r aborted hooked \<longleftrightarrow>
     (requests ts \<and> \<not> hooked \<or> aborted \<and> started_obs ts) \<and> (case r of None \<Rightarrow> True | Some q \<Rightarrow> compromising q) \<or>
     (\<exists>q. r = Some q \<and> stopped_obs q ts \<and> hooked)"
| "obs_ok GuardTake ts r aborted hooked \<longleftrightarrow> (\<exists>q. r = Some q \<and> over_obs q aborted hooked ts)"
| "obs_ok (GuardNotify k subs b) ts r aborted hooked \<longleftrightarrow> (\<exists>q. r = Some q \<and> over_obs q aborted hooked ts)"
| "obs_ok GuardDead ts r aborted hooked \<longleftrightarrow> (\<exists>q. r = Some q \<and> over_obs q aborted hooked ts)"
| "obs_ok DropArguments ts r aborted hooked \<longleftrightarrow> (\<exists>q. r = Some q \<and> over_obs q aborted hooked ts)"
| "obs_ok Exited ts r aborted hooked \<longleftrightarrow> (\<exists>q. r = Some q \<and> over_obs q aborted hooked ts)"
| "obs_ok _ ts r aborted hooked \<longleftrightarrow> started_obs ts"

definition trace_ok :: "('q, 'mb, 'p, 'e) task \<Rightarrow> bool" where
  "trace_ok t \<longleftrightarrow> obs_ok (tk_phase t) (obs (tk_shared t)) (termination_reason (tk_shared t)) (tk_aborted t)
     (tk_stops t \<noteq> [])"

lemma trace_ok_spawn [simp]: "trace_ok (spawn_task (shared_new actor name captured) mb ws)"
  by (simp add: trace_ok_def spawn_task_def)

lemma trace_ok_same: "trace_ok t \<Longrightarrow> same_task t t' \<Longrightarrow> trace_ok t'"
  by (simp add: trace_ok_def same_task_def obs_def)


section \<open>Every step keeps the story\<close>

lemma trace_ok_running:
  assumes "task_ok t" "trace_ok t" "running (tk_phase t)"
  shows "trace_ok (poll_task code ops n t)"
proof -
  have started: "obs_ok p ts r aborted hooked \<longleftrightarrow> started_obs ts" if "running p"
    for p :: "('c, 'd) phase" and ts r aborted hooked
    using that by (cases p) simp_all
  from asks_more_running [OF assms(3), of code ops n] obtain rs where
    rs: "obs (tk_shared (poll_task code ops n t)) = obs (tk_shared t) @ rs" "requests rs"
    by (auto simp: asks_more_def)
  with assms(2,3) have more: "started_obs (obs (tk_shared (poll_task code ops n t)))"
    by (simp add: trace_ok_def started started_obs_more)
  have job: "running (tk_phase (poll_job t i finish))"
    if "finish = handled \<or> finish = raced \<or> finish = drained" for i finish
    using poll_job_running [OF assms(1,3), of finish i] finish_fields [OF that] by metis
  have "running (tk_phase (poll_task code ops n t)) \<or> (\<exists>w. tk_phase (poll_task code ops n t) = OnStop w)"
    using assms(3) job poll_pull_running [OF assms(1), of code] loop_top_running [OF assms(1), of code]
    by (cases "tk_phase t"; cases n) (simp_all add: poll_task_def begin_stop_def Let_def)
  with more show ?thesis by (auto simp: trace_ok_def started)
qed

lemma after_start_trace:
  assumes "task_ok t" "trace_ok t" "tk_phase t = OnStart w"
  shows "trace_ok (after_start r t)"
proof -
  have "shared_ok (tk_shared t)" using assms(1) by (simp add: task_ok_def)
  with assms(2,3) show ?thesis
    by (auto simp: after_start_def Let_def trace_ok_def started_obs_new shared_running_def is_compromised_iff
        compromising_iff split: option.splits)
qed

lemma stop_outcome_of: "termination_reason s = Some q \<Longrightarrow> stop_outcome s = outcome_of q"
  by (cases q) (simp_all add: stop_outcome_def)

lemma finish_stop_trace:
  assumes "task_ok t" "trace_ok t" "tk_phase t = OnStop w"
  shows "trace_ok (finish_stop r t)"
proof -
  define s1 where "s1 = (case r of None \<Rightarrow> tk_shared t | Some p \<Rightarrow> record_panic p (emit [ObsStopHookPanicked p] (tk_shared t)))"
  define s2 where "s2 = mark_finished s1"
  have ok: "shared_ok (tk_shared t)" and r: "termination_reason (tk_shared t) \<noteq> Some Aborted"
    "termination_reason (tk_shared t) \<noteq> Some Finished"
    using assms(1,3) by (auto simp: task_ok_def)
  have s1: "shared_ok s1" "obs s1 = obs (tk_shared t) @ (case r of None \<Rightarrow> [] | Some p \<Rightarrow> [ObsStopHookPanicked p])"
    "r \<noteq> None \<longrightarrow> is_compromised s1" "termination_reason s1 \<noteq> Some Aborted"
    using ok r by (auto simp: s1_def record_defs is_compromised_def split: option.splits TerminationReason.splits)
  then obtain q where q: "termination_reason s2 = Some q" "q \<noteq> Aborted" "r \<noteq> None \<longrightarrow> compromising q"
    by (cases "termination_reason s1") (auto simp: s2_def record_defs is_compromised_iff)
  have f: "tk_shared (finish_stop r t) = record_died (emit [ObsStopped (fst (stop_outcome s2)) (snd (stop_outcome s2))] s2)"
    "tk_phase (finish_stop r t) = TakeSubscribers" "tk_stops (finish_stop r t) = tk_stops t"
    by (simp_all add: finish_stop_def s1_def s2_def Let_def split: prod.splits)
  have "started_obs (obs (tk_shared t))" using assms(2,3) by (simp add: trace_ok_def)
  with q s1(2) have "stopped_obs q (obs (tk_shared (finish_stop r t)))"
    unfolding stopped_obs_def f(1)
    by (intro conjI exI [of _ "obs (tk_shared t)"]
        exI [of _ "case r of None \<Rightarrow> [] | Some p \<Rightarrow> [ObsStopHookPanicked p]"])
      (auto simp: stop_outcome_of s2_def record_defs split: option.splits)
  moreover have "tk_stops (finish_stop r t) \<noteq> []" unfolding f(3) using assms(1,3) by (auto simp: task_ok_def stops_ok_def)
  ultimately show ?thesis using f q(1) by (simp add: trace_ok_def)
qed

lemma guard_mark_trace:
  assumes "task_ok t" "trace_ok t" "tk_phase t = GuardMark"
  shows "trace_ok (goto_phase GuardTake (on_shared guard_mark t))"
proof -
  have ok: "shared_ok (tk_shared t)" and r: "termination_reason (tk_shared t) \<noteq> Some Aborted"
    using assms by (simp_all add: task_ok_def)
  show ?thesis
  proof (cases "termination_reason (tk_shared t)")
    case None
    then have "guard_mark (tk_shared t) = record_died (emit [ObsAborted] (mark_aborted (tk_shared t)))"
      "termination_reason (mark_aborted (tk_shared t)) = Some Aborted"
      using ok by (simp_all add: guard_mark_def record_defs)
    with None assms(2,3) show ?thesis
      by (auto simp: trace_ok_def over_obs_def record_defs)
  next
    case (Some q)
    then have "termination_reason (guard_mark (tk_shared t)) = Some q" "guard_mark (tk_shared t) = mark_aborted (tk_shared t)"
      using ok r by (auto simp: guard_mark_def record_defs Let_def split: TerminationReason.splits)
    with Some assms(2,3) show ?thesis by (auto simp: trace_ok_def over_obs_def record_defs)
  qed
qed

lemma take_step_trace:
  assumes "task_ok t" "trace_ok t"
    and "tk_phase t = TakeSubscribers \<and> notify = (\<lambda>k subs. Notify k subs False) \<or>
      tk_phase t = GuardTake \<and> notify = (\<lambda>k subs. GuardNotify k subs False)"
  shows "trace_ok (take_step notify none t)"
proof -
  obtain q where q: "termination_reason (tk_shared t) = Some q"
    using assms(1,3) by (auto simp: task_ok_def)
  then have "take_step notify none t = goto_phase (notify (kind q) (ss_subscriptions (tk_shared t)))
      (t\<lparr>tk_shared := (tk_shared t)\<lparr>ss_subscriptions := []\<rparr>,
         tk_taken := tk_taken t @ ss_subscriptions (tk_shared t)\<rparr>)"
    by (simp add: take_step_def take_subscriptions_def)
  then show ?thesis using assms(2,3) q by (auto simp: trace_ok_def)
qed

lemma poll_task_trace:
  assumes "task_ok t" "trace_ok t"
  shows "trace_ok (poll_task code ops n t)"
proof (cases "tk_phase t")
  case (Initializing k)
  with assms show ?thesis
    by (cases k; cases "snd (ac_init code)")
      (auto simp: poll_task_def task_ok_def trace_ok_def record_defs compromising_iff)
next
  case (OnStart w)
  obtain r s where w: "work_step w (tk_shared t) = (r, s)" by (cases "work_step w (tk_shared t)")
  have "task_ok (t\<lparr>tk_shared := s\<rparr>)" using work_phase_ok [OF assms(1) _ w] OnStart by blast
  moreover have "trace_ok (t\<lparr>tk_shared := s\<rparr>)"
    using OnStart assms(2) asks_more_work [OF w] by (auto simp: trace_ok_def asks_more_def)
  ultimately show ?thesis
    using OnStart w after_start_trace [of "t\<lparr>tk_shared := s\<rparr>"]
    by (cases r) (simp_all add: poll_task_def trace_ok_def del: work_step.simps)
next
  case (OnStop w)
  obtain r s where w: "work_step w (tk_shared t) = (r, s)" by (cases "work_step w (tk_shared t)")
  have "task_ok (t\<lparr>tk_shared := s\<rparr>)" using work_phase_ok [OF assms(1) _ w] OnStop by blast
  moreover have "trace_ok (t\<lparr>tk_shared := s\<rparr>)"
    using OnStop assms(2) asks_more_work [OF w] by (auto simp: trace_ok_def asks_more_def started_obs_more)
  ultimately show ?thesis
    using OnStop w finish_stop_trace [of "t\<lparr>tk_shared := s\<rparr>"]
    by (cases r) (simp_all add: poll_task_def trace_ok_def del: work_step.simps)
next
  case TakeSubscribers
  with take_step_trace [OF assms] show ?thesis by (simp add: poll_task_def)
next
  case (Notify k subs b)
  with assms(2) show ?thesis
    by (auto simp: poll_task_def notify_step_def trace_ok_def split: list.splits prod.splits delivery.splits)
next
  case (GuardNotify k subs b)
  with assms(2) show ?thesis
    by (auto simp: poll_task_def guard_notify_step_def trace_ok_def split: list.splits prod.splits delivery.splits)
next
  case GuardMark
  with guard_mark_trace [OF assms] show ?thesis by (simp add: poll_task_def)
next
  case GuardTake
  with take_step_trace [OF assms] show ?thesis by (simp add: poll_task_def)
qed (use assms trace_ok_running [OF assms] in \<open>auto simp: poll_task_def trace_ok_def shared_dead_def\<close>)

lemma abort_task_trace:
  assumes "task_ok t" "trace_ok t" "suspended code t"
  shows "trace_ok (abort_task t)"
  using assms
  by (cases "tk_phase t")
    (auto simp: abort_task_def suspended_def trace_ok_def task_ok_def compromising_iff split: option.splits)

lemma task_steps_trace:
  "task_steps code ops t t' \<Longrightarrow> task_ok t \<Longrightarrow> trace_ok t \<Longrightarrow> trace_ok t'"
proof (induction rule: rtranclp_induct)
  case (step t' t'')
  then have ok: "task_ok t'" "trace_ok t'" using task_steps_ok by blast+
  then have "shared_ok (tk_shared t')" by (simp add: task_ok_def)
  from step.hyps(2) this show ?case
    by (cases rule: task_step_cases)
      (use ok poll_task_trace abort_task_trace trace_ok_same in blast)+
qed


section \<open>The events of a run\<close>

definition is_lifecycle :: "tracing_event \<Rightarrow> bool" where
  "is_lifecycle e \<longleftrightarrow> te_message e \<noteq> ''delivered terminated signal'' \<and>
     te_message e \<noteq> ''failed to deliver terminated signal''"

definition lifecycle_events :: "'e SharedActorState \<Rightarrow> tracing_event list" where
  "lifecycle_events s = filter is_lifecycle (traced s)"

lemmas event_defs = actor_started_def stop_requested_def actor_stopped_def stop_hook_panicked_def actor_aborted_def
  terminated_delivered_def terminated_delivery_failed_def

lemma lifecycle_of_observe:
  "filter is_lifecycle (List.map_filter (observe actor i) ts) = List.map_filter (observe actor i) (filter is_obs ts)"
proof (induction ts)
  case (Cons x ts)
  have "(case observe actor i x of None \<Rightarrow> True | Some e \<Rightarrow> is_lifecycle e \<longleftrightarrow> is_obs x)"
    by (cases x) (simp_all add: is_lifecycle_def event_defs handle_delivery_result_def split: delivery.split)
  moreover have "is_obs x \<Longrightarrow> observe actor i x \<noteq> None" by (cases x) simp_all
  ultimately show ?case using Cons.IH by (auto simp: List.map_filter_simps split: option.splits)
qed (simp add: List.map_filter_simps)

lemma lifecycle_events_obs: "lifecycle_events s = List.map_filter (observe (ss_rtti_name s) (ss_id s)) (obs s)"
  by (simp add: lifecycle_events_def traced_def obs_def lifecycle_of_observe)

definition only_asked :: "string \<Rightarrow> actor_id \<Rightarrow> tracing_event list \<Rightarrow> bool" where
  "only_asked actor i es \<longleftrightarrow> (\<forall>e \<in> set es. \<exists>l. e = stop_requested actor i l)"

definition has_started :: "string \<Rightarrow> actor_id \<Rightarrow> tracing_event list \<Rightarrow> bool" where
  "has_started actor i es \<longleftrightarrow>
     (\<exists>before after. es = before @ [actor_started actor i] @ after \<and> only_asked actor i before \<and> only_asked actor i after)"

lemma map_filter_append: "List.map_filter f (xs @ ys) = List.map_filter f xs @ List.map_filter f ys"
  by (simp add: List.map_filter_def)

lemma requests_observed: "requests ts \<Longrightarrow> only_asked actor i (List.map_filter (observe actor i) ts)"
  by (induction ts) (auto simp: only_asked_def List.map_filter_simps)

lemma started_observed:
  assumes "started_obs ts"
  shows "has_started actor i (List.map_filter (observe actor i) ts)"
proof -
  obtain us vs where "ts = us @ [ObsStarted] @ vs" "requests us" "requests vs"
    using assms by (auto simp: started_obs_def)
  then show ?thesis
    unfolding has_started_def
    by (intro exI [of _ "List.map_filter (observe actor i) us"] exI [of _ "List.map_filter (observe actor i) vs"])
      (simp add: map_filter_append List.map_filter_simps requests_observed)
qed

lemma stopped_observed:
  assumes "stopped_obs q ts"
  shows "\<exists>us ps. List.map_filter (observe actor i) ts =
      us @ ps @ [actor_stopped actor i (fst (outcome_of q)) (snd (outcome_of q))] \<and> has_started actor i us \<and>
      (ps = [] \<or> compromising q \<and> (\<exists>p. ps = [stop_hook_panicked actor i p]))"
proof -
  obtain us ps where ts: "ts = us @ ps @ [ObsStopped (fst (outcome_of q)) (snd (outcome_of q))]" "started_obs us"
      "ps = [] \<or> compromising q \<and> (\<exists>p. ps = [ObsStopHookPanicked p])"
    using assms by (auto simp: stopped_obs_def)
  then show ?thesis
    by (intro exI [of _ "List.map_filter (observe actor i) us"] exI [of _ "List.map_filter (observe actor i) ps"])
      (auto simp: map_filter_append List.map_filter_simps started_observed)
qed

text \<open>C40: the story the tracing events of an actor tell, aborts included. Once its task has exited, its lifecycle
  events end as its reason says: an abort with "actor aborted", a finish with "actor stopped" after "actor
  started" and any requests to stop; so does a failure or a panic in a running actor, with its outcome, after
  the event of a stop hook that panicked, if one did. But a start that fails, so that no stop hook is called,
  has no event of its end, and neither has an actor that is aborted after it failed.
\<close>

theorem tracing_story:
  assumes "task_steps code ops (spawn_task (shared_new actor name captured) mb ws) t" and "tk_phase t = Exited"
  shows "\<exists>q. termination_reason (tk_shared t) = Some q \<and>
    (let actor = ss_rtti_name (tk_shared t); i = ss_id (tk_shared t); told = lifecycle_events (tk_shared t);
         stopped = (\<exists>us ps. told = us @ ps @ [actor_stopped actor i (fst (outcome_of q)) (snd (outcome_of q))] \<and>
           has_started actor i us \<and> (ps = [] \<or> compromising q \<and> (\<exists>p. ps = [stop_hook_panicked actor i p])))
     in case q of
          Aborted \<Rightarrow> \<exists>us. told = us @ [actor_aborted actor i] \<and> (only_asked actor i us \<or> has_started actor i us)
        | Finished \<Rightarrow> stopped
        | _ \<Rightarrow> tk_aborted t \<and> has_started actor i told \<or>
            (if tk_stops t = [] then only_asked actor i told else stopped))"
proof -
  let ?actor = "ss_rtti_name (tk_shared t)" and ?i = "ss_id (tk_shared t)"
  have "trace_ok t" using task_steps_trace [OF assms(1)] by simp
  with assms(2) obtain q where q: "termination_reason (tk_shared t) = Some q" "over_obs q (tk_aborted t) (tk_stops t \<noteq> []) (obs (tk_shared t))"
    by (auto simp: trace_ok_def)
  have stopped: "\<exists>us ps. lifecycle_events (tk_shared t) =
        us @ ps @ [actor_stopped ?actor ?i (fst (outcome_of q)) (snd (outcome_of q))] \<and>
      has_started ?actor ?i us \<and> (ps = [] \<or> compromising q \<and> (\<exists>p. ps = [stop_hook_panicked ?actor ?i p]))"
    if "stopped_obs q (obs (tk_shared t))"
    using stopped_observed [OF that] by (simp add: lifecycle_events_obs)
  have told: "requests (obs (tk_shared t)) \<Longrightarrow> only_asked ?actor ?i (lifecycle_events (tk_shared t))"
    "started_obs (obs (tk_shared t)) \<Longrightarrow> has_started ?actor ?i (lifecycle_events (tk_shared t))"
    by (simp_all add: lifecycle_events_obs requests_observed started_observed)
  have aborted: "\<exists>us. lifecycle_events (tk_shared t) = us @ [actor_aborted ?actor ?i] \<and>
      (only_asked ?actor ?i us \<or> has_started ?actor ?i us)"
    if "obs (tk_shared t) = us @ [ObsAborted]" "requests us \<or> started_obs us" for us
    using that
    by (intro exI [of _ "List.map_filter (observe ?actor ?i) us"])
      (auto simp: lifecycle_events_obs map_filter_append List.map_filter_simps requests_observed started_observed)
  from q(2) show ?thesis
    unfolding over_obs_def
    by (intro exI [of _ q] conjI q(1)) (cases q; insert stopped told aborted; simp add: stopped_obs_def compromising_iff Let_def; blast)
qed

theorem tracing_story_witness:
  "\<exists>us. lifecycle_events (tk_shared clean_end) = us @
    [actor_stopped (ss_rtti_name (tk_shared clean_end)) (ss_id (tk_shared clean_end)) ''finished'' False]"
  using tracing_story [OF clean_steps [unfolded sample_task_forms] clean_end_facts(1)] clean_end_facts(2)
  by (auto simp: Let_def)

end
