(* ===== verification/Spec2Isabelle.thy ===== *)
theory Spec2Isabelle
  imports Codec Lifecycle_Threads Pair_Arrays Mailbox Sync Extension Run_Loop_Properties Capture_Properties
    Lock_Properties Task_Handle Capture_Schema_Properties Specialize
    Registry_Properties Collect_Properties Envelope_Properties Calls_Properties
    Handler_Properties Messages_Properties Derive_Macro Protocol_Macro Launcher
    Dispatch_Properties Calls_Builders Sequential_Trait Observation
begin

text \<open>
  A verification development of the \<open>factories\<close> actor framework (Rust, \<open>crates/*\<close>).

  \<^bold>\<open>The program.\<close> An actor is a task (\<open>factories_actor/src/runtime\<close>) that pulls messages out of a mailbox
  and runs their handlers, with a state it shares with its handles (\<open>actor/state.rs\<close>): a lifecycle cell,
  the reason it terminated for, and the watchers to signal. A handle packs a message, and for an ask the
  sender of the answer, into an envelope (\<open>message/envelope.rs\<close>), tags it with the dispatcher of the pair of
  actor and message, and sends it through the channel (\<open>runtime/tokio/channel.rs\<close>). For a handle whose
  actor type is erased the dispatcher comes from the registry (\<open>runtime/registry.rs\<close>), which is built
  from registrations that a lock-free list collects before \<open>main\<close> (\<open>factories_collect\<close>). What an actor
  does is captured as events (\<open>capture.rs\<close>), which a sink (\<open>factories_capture_sink\<close>) encodes into segments
  of a binary format (\<open>factories_capture_codec\<close>) that a reader decodes again.

  \<^bold>\<open>Theories and sources.\<close>
  \<^item> \<open>Factories_Prelude\<close>: 64-bit machine integers with overflow as a panic, the outcome type (\<open>Inl Panic\<close> or
    \<open>Inl (Error e)\<close>), slices with their bounds checks; the lemmas all theories share.
  \<^item> \<open>Varint\<close>, \<open>Segment\<close>, \<open>Segment_Decode\<close>, \<open>Stream\<close>: \<open>factories_capture_codec/src/{varint,error,segment,stream}.rs\<close>;
    \<open>Segment_Safety\<close> (the decoder is total but for its overflow check), \<open>Segment_Roundtrip\<close> (decoding undoes
    encoding), \<open>Segment_Times\<close> (the clock of a segment), \<open>Codec\<close> (the properties).
  \<^item> \<open>Capture_Sink\<close>: \<open>factories_capture_sink/src\<close>; \<open>Capture_Story\<close> (the locale of a byte writer, the sink
    simulated by a machine that remembers every event), \<open>Capture_Properties\<close>.
  \<^item> \<open>Lifecycle\<close>: the lifecycle cell of \<open>actor/state.rs\<close> as it runs alone; \<open>Lifecycle_Threads\<close>: the same
    operations as programs of atomic accesses that any number of threads interleave.
  \<^item> \<open>Pair_Arrays\<close>: \<open>util/array.rs\<close>; \<open>Mailbox\<close>: \<open>runtime/tokio/channel.rs\<close>, \<open>runtime/routing.rs\<close> and the
    contract of \<open>spawn/channel.rs\<close>, over a locale for tokio's queue.
  \<^item> \<open>Sync\<close>: \<open>factories_sync\<close>, with the write-once cell under threads; \<open>Extension\<close>: \<open>factories_extension\<close>.
  \<^item> \<open>Actor_State\<close>: the rest of \<open>actor/state.rs\<close>, \<open>actor/{lifecycle,supervision}.rs\<close>, \<open>capture.rs\<close>; \<open>Run_Loop\<close>:
    the task of an actor (\<open>runtime/{loop_support,sequential_loop,concurrent_loop}.rs\<close>, \<open>actor/event.rs\<close>) as a
    step relation between polls, aborts and other threads; \<open>Run_Loop_Safety\<close> (the invariant),
    \<open>Run_Loop_Story\<close> (the captured story), \<open>Run_Loop_Drain\<close> (a clean stop ends), \<open>Run_Loop_Properties\<close>.
  \<^item> \<open>Observation\<close>: \<open>obs.rs\<close> with the \<open>tracing\<close> feature: the events of each hook, and the story the events of
    a task of \<open>Run_Loop\<close> tell.
  \<^item> \<open>Lock\<close>: \<open>runtime/lock.rs\<close>, alone and under threads; \<open>Lock_Properties\<close>: the contract of a lock strategy, the
    task of \<open>Run_Loop\<close> with its lock, and the properties.
  \<^item> \<open>Launcher\<close>: \<open>spawn/launcher.rs\<close> over the channel, the shared state and the task; \<open>spawn_ready\<close> under
    every interleaving with the executor and the holders of a handle.
  \<^item> \<open>Task_Handle\<close>: \<open>actor/task.rs\<close> over the heap of \<open>Envelope\<close>.
  \<^item> \<open>Capture_Schema\<close>, \<open>Capture_Schema_Properties\<close>: \<open>factories_capture_schema\<close> and what its derive macro
    generates, over the extension sets of \<open>Extension\<close>.
  \<^item> \<open>Specialize\<close>: the selection by trait bounds of \<open>factories_types_macro/src/specialize.rs\<close> over a model of
    Rust's method lookup, and what the program selects with it; \<open>Sequential_Trait\<close>: \<open>sequential_trait.rs\<close>.
  \<^item> \<open>Registry\<close>: \<open>runtime/registry.rs\<close> and the dispatch ids of \<open>message/rtti.rs\<close>; \<open>Registry_Slices\<close> (the
    sorting, dedup and binary search the code takes from the standard library), \<open>Registry_Build\<close>,
    \<open>Registry_Properties\<close>.
  \<^item> \<open>Collect\<close>, \<open>Collect_Threads\<close>, \<open>Collect_Properties\<close>: \<open>factories_collect\<close>, alone and under threads.
  \<^item> \<open>Envelope\<close>: \<open>message/envelope.rs\<close> and \<open>factories_rtti/src/rtti.rs\<close> over a heap of boxes on which every
    access is checked; \<open>Envelope_Safety\<close> (what an envelope stands for, operation by operation),
    \<open>Envelope_Properties\<close> (any sequence of operations).
  \<^item> \<open>Calls\<close>: \<open>actor/{handle,protocol,identity,rtti,dispatch}.rs\<close>, \<open>message/channel.rs\<close> and the constructors the
    protocol macro generates, as one system of callers, actors, handlers and whoever a handler left its answer
    sender or its envelope to, who may answer later or forward it; \<open>Calls_Desk\<close> (the abstract accounting of
    asks: every answer channel's sender is in one place), \<open>Calls_Safety\<close>, \<open>Calls_Simulation\<close>, \<open>Calls_Steps\<close> (the system refines it), and
    \<open>Calls_Properties\<close>; \<open>Calls_Builders\<close>: prepared calls and their blocking forms, which are the polls of their futures.
  \<^item> \<open>Dispatch_Work\<close>: \<open>actor/dispatch.rs\<close>, the function \<open>declare_static_async_dispatcher\<close> generates and the
    future it erases, poll by poll, over the heap of \<open>Envelope\<close>; \<open>EventContext\<close> (\<open>actor/event.rs\<close>) and
    \<open>MessageHandlerContext\<close> (\<open>actor/mod.rs\<close>); \<open>Dispatch_Properties\<close>: the accounting of a message that
    its handler drops, answers, keeps or gives away, the stamps of what the handler's future sends, and the job of \<open>Run_Loop\<close> that a dispatched future is.
  \<^item> \<open>Handler_Macro\<close>: what the \<open>messages\<close> macro accepts of a handler and the body it generates
    (\<open>factories_actor_macro/src/messages.rs\<close>, \<open>expand_handler\<close>); \<open>Handler_Run\<close>: that body run over an environment of
    variables that are moved, against the documentation of the attribute; \<open>Handler_Properties\<close>.
  \<^item> \<open>Messages_Macro\<close>, \<open>Messages_Properties\<close>: the rest of \<open>messages.rs\<close>: the roles of the methods of a block, event
    sources and hooks; \<open>Derive_Macro\<close>: the configurations of \<open>actor.rs\<close> and \<open>message.rs\<close>; \<open>Protocol_Macro\<close>:
    \<open>protocol.rs\<close> and its messages under a \<open>#[cfg]\<close>; \<open>util.rs\<close> where it is used.

  \<^bold>\<open>State and steps.\<close> A struct is a record or a datatype, a fallible function a sum or an option, a panic
  the value \<open>Inl Panic\<close>; unsafe code returns an error where Rust would have undefined behaviour, so that a
  theorem that it returns shows that it has none. A future is a state with a poll function. Concurrency is
  a relation or a function on schedules, one atomic access a step, under sequential consistency.

  \<^bold>\<open>Bounds and fuel.\<close> Machine integers are 64-bit words, \<open>usize\<close> included. Where a function has fuel
  (\<open>receive_all\<close>, the segment iterator, a task driven alone) a theorem shows that more fuel than there is
  input ends it. The receive loop of a task has none: each poll ends by structural recursion.

  \<^bold>\<open>Parameters.\<close> Code that is not in the repository is an argument with its documented laws as a locale:
  the queue of tokio (\<open>mpsc_queue\<close>) and its oneshot channel (\<open>oneshot_channel\<close>), the writer under the capture sink (\<open>byte_writer\<close>); user code (hooks,
  handlers, \<open>Clone\<close> of a message) is data. Each locale is interpreted.

  \<^bold>\<open>Not modelled.\<close> The procedural macros are functions on the syntax trees of the \<open>syn\<close> crate, which is not
  in the repository: their models start from records of what they read of a tree, and end with records of
  what they emit; parsing, the tokens of types, spans, doc comments and the \<open>#[cfg]\<close> of a handler are left out.
  What \<open>syn\<close> accepts as an identifier or a path, and \<open>char::to_uppercase\<close>, are arguments. The spans of
  \<open>obs.rs\<close> and what they record are left out; its events are modelled. The wrappers around tokio's spawner and locks forward. Weak memory
  orderings, allocation failure and, but for the word of a task handle, alignment are left out.

  \<^bold>\<open>Where the models are narrower than the code.\<close>
  \<^item> \<open>mpsc_queue\<close>: a poll of a queue that has a message yields it; tokio may also return \<open>Pending\<close> spuriously and
    wake the task again, which delays a message and loses none.
  \<^item> \<open>Run_Loop\<close>: user code reaches the shared state through \<open>stop\<close> and \<open>fail\<close> of its own context, the step relation
    has no other thread that calls the public mutators of \<open>SharedActorState\<close> (\<open>record_failure\<close> and the
    transitions); \<open>on_start\<close> and \<open>on_stop\<close> panic in their futures, not before they return them, outside
    \<open>capture_unwind\<close> (\<open>loop_support.rs\<close>, \<open>on_start\<close> and \<open>on_stop\<close> calls); a handler's producer runs in the job, whose
    delivery is captured first: \<open>Dispatch_Work\<close> has the producer in its place and its panic.
  \<^item> \<open>Run_Loop\<close>, \<open>Lock\<close>: an event driver does not acquire the lock of its actor through \<open>EventContext\<close>.
  \<^item> \<open>Run_Loop\<close>: what became of a signal (delivered, or dropped by a full or closed mailbox) is in the state's
    history of watchers and in \<open>Observation\<close>, not in \<open>signals\<close>.
  \<^item> \<open>Calls\<close>: a message that a handler keeps and forwards to another actor is sent by its kept entry; asks are those of
    the handles, an answer channel a caller makes by hand is not one of them.
\<close>

end
